(* ===== verification/Prelude.thy ===== *)
theory Prelude
  imports Main "HOL-Library.Word" "HOL-Library.Monad_Syntax"
begin

text \<open>
  Shared vocabulary of the development: the integer widths of the C++ code, byte buffers with
  checked accesses, the byte-order helpers of the \<open>asioice\<close> submodule as a parameter, and the
  bit-level and list lemmas that the component theories use.

  A pointer and a length are modelled as the list of bytes the pointer may touch. A read or write
  outside it is undefined behaviour in C++; here the operation returns \<open>None\<close>, so a model whose
  result is \<open>Some r\<close> has made only accesses inside its buffer.
\<close>

unbundle bit_operations_syntax

type_synonym u8 = "8 word"
type_synonym u16 = "16 word"
type_synonym u32 = "32 word"
type_synonym u64 = "64 word"
type_synonym bytes = "u8 list"

named_theorems mem_simps \<open>evaluation of checked buffer accesses\<close>
named_theorems be_simps \<open>evaluation of the byte-order helpers under big_endian\<close>
named_theorems field_simps8 \<open>extraction of a field from a packed octet\<close>

subsection \<open>Checked buffer accesses\<close>

definition rd8 :: "bytes \<Rightarrow> nat \<Rightarrow> u8 option" where
  "rd8 d i = (if i < length d then Some (d ! i) else None)"

definition rd_bytes :: "bytes \<Rightarrow> nat \<Rightarrow> nat \<Rightarrow> bytes option" where
  "rd_bytes d off n = (if off + n \<le> length d then Some (take n (drop off d)) else None)"

text \<open>\<open>assign(ptr + off, ptr + len)\<close>: the bytes from \<open>off\<close> to the end of the buffer.\<close>

definition rd_rest :: "bytes \<Rightarrow> nat \<Rightarrow> bytes option" where
  "rd_rest d off = (if off \<le> length d then Some (drop off d) else None)"

lemma rd8_eq_None [simp]: "rd8 d i = None \<longleftrightarrow> length d \<le> i"
  by (simp add: rd8_def)

lemma rd_bytes_eq_None [simp]: "rd_bytes d off n = None \<longleftrightarrow> length d < off + n"
  by (auto simp: rd_bytes_def)

lemma rd_rest_eq_None [simp]: "rd_rest d off = None \<longleftrightarrow> length d < off"
  by (auto simp: rd_rest_def)

lemma rd8_Some [mem_simps]: "i < length d \<Longrightarrow> rd8 d i = Some (d ! i)"
  by (simp add: rd8_def)

lemma rd_bytes_Some [mem_simps]:
  "off + n \<le> length d \<Longrightarrow> rd_bytes d off n = Some (take n (drop off d))"
  by (simp add: rd_bytes_def)

lemma rd_rest_Some [mem_simps]: "off \<le> length d \<Longrightarrow> rd_rest d off = Some (drop off d)"
  by (simp add: rd_rest_def)

lemma rd_bytes_append:
  "length a = off \<Longrightarrow> length b = n \<Longrightarrow> rd_bytes (a @ b @ c) off n = Some b"
  by (simp add: rd_bytes_def)

subsection \<open>Byte order: the helpers of the submodule as a parameter\<close>

text \<open>
  \<open>asioice/detail/binary.hpp\<close> is not part of the repository: its functions are the fields of this
  record. Each reading function takes the bytes at the address it is applied to (\<open>ntoh\<close> is always
  applied to an integer of a packed header overlay), each writing function gives the bytes it
  leaves in memory.
\<close>

record binary_lib =
  ntoh16 :: "bytes \<Rightarrow> u16"
  ntoh32 :: "bytes \<Rightarrow> u32"
  read_big16 :: "bytes \<Rightarrow> u16"
  read_big32 :: "bytes \<Rightarrow> u32"
  hton16 :: "u16 \<Rightarrow> bytes"
  hton32 :: "u32 \<Rightarrow> bytes"
  write_big16 :: "u16 \<Rightarrow> bytes"
  write_big32 :: "u32 \<Rightarrow> bytes"

definition be16 :: "u8 \<Rightarrow> u8 \<Rightarrow> u16" where
  "be16 a b = push_bit 8 (ucast a) OR ucast b"

definition be32 :: "u8 \<Rightarrow> u8 \<Rightarrow> u8 \<Rightarrow> u8 \<Rightarrow> u32" where
  "be32 a b c d =
     push_bit 24 (ucast a) OR push_bit 16 (ucast b) OR push_bit 8 (ucast c) OR ucast d"

definition be16_bytes :: "u16 \<Rightarrow> bytes" where
  "be16_bytes w = [ucast (drop_bit 8 w), ucast w]"

definition be32_bytes :: "u32 \<Rightarrow> bytes" where
  "be32_bytes w =
     [ucast (drop_bit 24 w), ucast (drop_bit 16 w), ucast (drop_bit 8 w), ucast w]"

text \<open>The documented behaviour of the helpers: network byte order, most significant byte first.\<close>

definition big_endian :: "binary_lib \<Rightarrow> bool" where
  "big_endian B \<longleftrightarrow>
     (\<forall>a b. ntoh16 B [a, b] = be16 a b \<and> read_big16 B [a, b] = be16 a b) \<and>
     (\<forall>a b c d. ntoh32 B [a, b, c, d] = be32 a b c d \<and> read_big32 B [a, b, c, d] = be32 a b c d) \<and>
     (\<forall>w. hton16 B w = be16_bytes w \<and> write_big16 B w = be16_bytes w) \<and>
     (\<forall>w. hton32 B w = be32_bytes w \<and> write_big32 B w = be32_bytes w)"

text \<open>A concrete instance, for evaluation.\<close>

definition network_lib :: binary_lib where
  "network_lib =
     (let r16 = (\<lambda>bs. case bs of [a, b] \<Rightarrow> be16 a b | _ \<Rightarrow> 0);
          r32 = (\<lambda>bs. case bs of [a, b, c, d] \<Rightarrow> be32 a b c d | _ \<Rightarrow> 0)
      in \<lparr>ntoh16 = r16, ntoh32 = r32, read_big16 = r16, read_big32 = r32,
          hton16 = be16_bytes, hton32 = be32_bytes,
          write_big16 = be16_bytes, write_big32 = be32_bytes\<rparr>)"

lemma big_endian_network_lib: "big_endian network_lib"
  by (simp add: big_endian_def network_lib_def Let_def)

lemma big_endianD [be_simps]:
  assumes "big_endian B"
  shows "ntoh16 B [a, b] = be16 a b" and "read_big16 B [a, b] = be16 a b"
    and "ntoh32 B [a, b, c, d] = be32 a b c d" and "read_big32 B [a, b, c, d] = be32 a b c d"
    and "hton16 B = be16_bytes" and "write_big16 B = be16_bytes"
    and "hton32 B = be32_bytes" and "write_big32 B = be32_bytes"
  using assms by (auto simp: big_endian_def fun_eq_iff)

definition ntoh16_at :: "binary_lib \<Rightarrow> bytes \<Rightarrow> nat \<Rightarrow> u16 option" where
  "ntoh16_at B d off = map_option (ntoh16 B) (rd_bytes d off 2)"

definition ntoh32_at :: "binary_lib \<Rightarrow> bytes \<Rightarrow> nat \<Rightarrow> u32 option" where
  "ntoh32_at B d off = map_option (ntoh32 B) (rd_bytes d off 4)"

definition read_big16_at :: "binary_lib \<Rightarrow> bytes \<Rightarrow> nat \<Rightarrow> u16 option" where
  "read_big16_at B d off = map_option (read_big16 B) (rd_bytes d off 2)"

definition read_big32_at :: "binary_lib \<Rightarrow> bytes \<Rightarrow> nat \<Rightarrow> u32 option" where
  "read_big32_at B d off = map_option (read_big32 B) (rd_bytes d off 4)"

lemmas at_defs = ntoh16_at_def ntoh32_at_def read_big16_at_def read_big32_at_def

lemma at_None [simp]:
  "ntoh16_at B d off = None \<longleftrightarrow> length d < off + 2"
  "ntoh32_at B d off = None \<longleftrightarrow> length d < off + 4"
  "read_big16_at B d off = None \<longleftrightarrow> length d < off + 2"
  "read_big32_at B d off = None \<longleftrightarrow> length d < off + 4"
  by (simp_all add: at_defs)

subsection \<open>Bits of words\<close>

lemma u8_eqI:
  fixes a b :: u8
  assumes "bit a 0 = bit b 0" "bit a 1 = bit b 1" "bit a 2 = bit b 2" "bit a 3 = bit b 3"
    and "bit a 4 = bit b 4" "bit a 5 = bit b 5" "bit a 6 = bit b 6" "bit a 7 = bit b 7"
  shows "a = b"
proof (rule bit_word_eqI)
  fix n assume "n < LENGTH(8)"
  then have "n = 0 \<or> n = 1 \<or> n = 2 \<or> n = 3 \<or> n = 4 \<or> n = 5 \<or> n = 6 \<or> n = 7"
    by auto
  with assms show "bit a n = bit b n" by auto
qed

lemma length_be_bytes [simp]: "length (be16_bytes v) = 2" "length (be32_bytes w) = 4"
  by (simp_all add: be16_bytes_def be32_bytes_def)

lemma be16_roundtrip [simp]: "be16 (ucast (drop_bit 8 w)) (ucast w) = w"
  by (rule bit_word_eqI) (auto simp: be16_def bit_simps)

lemma be32_roundtrip [simp]:
  "be32 (ucast (drop_bit 24 w)) (ucast (drop_bit 16 w)) (ucast (drop_bit 8 w)) (ucast w) = w"
proof (rule bit_word_eqI)
  fix n assume "n < LENGTH(32)"
  then consider "n < 8" | "8 \<le> n" "n < 16" | "16 \<le> n" "n < 24" | "24 \<le> n" "n < 32"
    by force
  then show "bit (be32 (ucast (drop_bit 24 w)) (ucast (drop_bit 16 w)) (ucast (drop_bit 8 w))
      (ucast w)) n = bit w n"
    by cases (auto simp: be32_def bit_simps)
qed

text \<open>Reads behind a known prefix: skip the prefix, then decode.\<close>

lemma at_skip [mem_simps]:
  assumes "length x \<le> off"
  shows "ntoh32_at B (x @ y) off = ntoh32_at B y (off - length x)"
    and "ntoh16_at B (x @ y) off = ntoh16_at B y (off - length x)"
    and "read_big32_at B (x @ y) off = read_big32_at B y (off - length x)"
    and "read_big16_at B (x @ y) off = read_big16_at B y (off - length x)"
    and "rd8 (x @ z) off = rd8 z (off - length x)"
    and "rd_bytes (x @ z) off n = rd_bytes z (off - length x) n"
  using assms by (auto simp: at_defs rd_bytes_def rd8_def nth_append)

lemma at_skip_Cons [mem_simps]:
  assumes "0 < off"
  shows "ntoh32_at B (a # y) off = ntoh32_at B y (off - 1)"
    and "ntoh16_at B (a # y) off = ntoh16_at B y (off - 1)"
    and "read_big32_at B (a # y) off = read_big32_at B y (off - 1)"
    and "read_big16_at B (a # y) off = read_big16_at B y (off - 1)"
    and "rd8 (a # z) off = rd8 z (off - 1)"
    and "rd_bytes (a # z) off n = rd_bytes z (off - 1) n"
  using assms by (cases off; simp add: at_defs rd_bytes_def rd8_def)+

lemma at_here [mem_simps]:
  assumes "big_endian B"
  shows "ntoh32_at B (be32_bytes w @ y) 0 = Some w" and "read_big32_at B (be32_bytes w @ y) 0 = Some w"
    and "ntoh16_at B (be16_bytes v @ y) 0 = Some v" and "read_big16_at B (be16_bytes v @ y) 0 = Some v"
    and "ntoh32_at B (be32_bytes w) 0 = Some w" and "read_big32_at B (be32_bytes w) 0 = Some w"
    and "ntoh16_at B (be16_bytes v) 0 = Some v" and "read_big16_at B (be16_bytes v) 0 = Some v"
  using big_endianD [OF assms]
  by (auto simp: at_defs rd_bytes_def be32_bytes_def be16_bytes_def)

lemma rd8_Cons_0 [mem_simps]: "rd8 (a # x) 0 = Some a"
  by (simp add: rd8_def)

lemma be16_bytes_be16 [simp]: "be16_bytes (be16 a b) = [a, b]"
proof -
  have "ucast (drop_bit 8 (be16 a b)) = a"
    by (rule bit_word_eqI) (auto simp: be16_def bit_simps dest: bit_imp_le_length)
  moreover have "ucast (be16 a b) = b"
    by (rule bit_word_eqI) (auto simp: be16_def bit_simps dest: bit_imp_le_length)
  ultimately show ?thesis by (simp add: be16_bytes_def)
qed

lemma be32_bytes_be32 [simp]: "be32_bytes (be32 a b c d) = [a, b, c, d]"
proof -
  have "ucast (drop_bit 24 (be32 a b c d)) = a" "ucast (drop_bit 16 (be32 a b c d)) = b"
    "ucast (drop_bit 8 (be32 a b c d)) = c" "ucast (be32 a b c d) = d"
    by (rule bit_word_eqI; auto simp: be32_def bit_simps dest: bit_imp_le_length)+
  then show ?thesis by (simp add: be32_bytes_def)
qed

lemma bit_less_exp:
  fixes w :: "'a::len word"
  assumes "w < 2 ^ n" "bit w k"
  shows "k < n"
proof (rule ccontr)
  assume "\<not> k < n"
  with assms have "w AND mask n = w" by (intro less_mask_eq)
  with \<open>\<not> k < n\<close> assms(2) show False by (metis bit_and_iff bit_mask_iff)
qed

lemma less_plus_1:
  fixes k :: "'a::len word"
  assumes "k \<noteq> -1"
  shows "k < k + 1"
proof -
  have "1 + k \<noteq> 0" using assms by (metis add.commute add_eq_0_iff minus_minus)
  then show ?thesis using unatSuc [of k] by (simp add: word_less_nat_alt add.commute)
qed

lemma and_15_less: "(w::u8) < 16 \<Longrightarrow> w AND 15 = w"
  using less_mask_eq [of w 4] by (simp add: mask_eq_exp_minus_1)

lemma and_127_less: "(w::u8) < 128 \<Longrightarrow> w AND 127 = w"
  using less_mask_eq [of w 7] by (simp add: mask_eq_exp_minus_1)

lemma and_31_less: "(w::u8) < 32 \<Longrightarrow> w AND 31 = w"
  using less_mask_eq [of w 5] by (simp add: mask_eq_exp_minus_1)

lemma and_3_less: "(w::u8) < 4 \<Longrightarrow> w AND 3 = w"
  using less_mask_eq [of w 2] by (simp add: mask_eq_exp_minus_1)

lemma and_1_less: "(w::u8) < 2 \<Longrightarrow> w AND 1 = w"
  using less_mask_eq [of w 1] by (simp add: mask_eq_exp_minus_1)

lemma unat_and_15 [simp]: "unat ((w::u8) AND 15) < 16"
  using word_and_le1 [of w 15] by (simp add: word_le_nat_alt)

lemma fill4_small:
  "r < 4 \<Longrightarrow> (r + (4 - r) mod 4) mod 4 = (0::nat)"
  by (cases "r = 0") simp_all

lemma fill4: "(x + (4 - x mod 4) mod 4) mod 4 = (0::nat)"
proof -
  have "x mod 4 < 4" by simp
  moreover have "(x + f) mod 4 = (x mod 4 + f) mod 4" for f by (rule mod_add_left_eq [symmetric])
  ultimately show ?thesis by (metis (no_types) fill4_small)
qed

subsection \<open>Reads of a known length, inverted\<close>

lemma take_drop_split:
  "take (m + n) (drop off d) = take m (drop off d) @ take n (drop (off + m) d)"
  by (simp add: take_add add.commute)

lemma take_2: "2 \<le> length d \<Longrightarrow> take 2 d = [d ! 0, d ! 1]"
  by (cases d; cases "tl d") auto

lemma list4E:
  assumes "length xs = 4" obtains a b c d where "xs = [a, b, c, d]"
  using assms by (auto simp: numeral_eq_Suc length_Suc_conv)

lemma list2E:
  assumes "length xs = 2" obtains a b where "xs = [a, b]"
  using assms by (auto simp: numeral_eq_Suc length_Suc_conv)

lemma read_at_inv:
  assumes "big_endian B"
  shows "read_big32_at B d off = Some w \<Longrightarrow> take 4 (drop off d) = be32_bytes w"
    and "ntoh32_at B d off = Some w \<Longrightarrow> take 4 (drop off d) = be32_bytes w"
    and "read_big16_at B d off = Some v \<Longrightarrow> take 2 (drop off d) = be16_bytes v"
    and "ntoh16_at B d off = Some v \<Longrightarrow> take 2 (drop off d) = be16_bytes v"
proof -
  have 4: "xs = be32_bytes (be32 (xs ! 0) (xs ! 1) (xs ! 2) (xs ! 3)) \<and>
      xs = [xs ! 0, xs ! 1, xs ! 2, xs ! 3]" if "length xs = 4" for xs :: bytes
    using that by (rule list4E) simp
  have 2: "xs = be16_bytes (be16 (xs ! 0) (xs ! 1)) \<and> xs = [xs ! 0, xs ! 1]"
    if "length xs = 2" for xs :: bytes
    using that by (rule list2E) simp
  have len: "length (take n (drop off d)) = n" if "off + n \<le> length d" for n using that by simp
  show "read_big32_at B d off = Some w \<Longrightarrow> take 4 (drop off d) = be32_bytes w"
    "ntoh32_at B d off = Some w \<Longrightarrow> take 4 (drop off d) = be32_bytes w"
    using 4 [OF len] big_endianD [OF assms]
    by (auto simp: at_defs rd_bytes_def split: if_splits)
  show "read_big16_at B d off = Some v \<Longrightarrow> take 2 (drop off d) = be16_bytes v"
    "ntoh16_at B d off = Some v \<Longrightarrow> take 2 (drop off d) = be16_bytes v"
    using 2 [OF len] big_endianD [OF assms]
    by (auto simp: at_defs rd_bytes_def split: if_splits)
qed

lemma length_concat_be32 [simp]: "length (concat (map be32_bytes cs)) = 4 * length cs"
  by (induction cs) simp_all

lemma octet_2_1_5_fields:
  fixes v q r :: u8
  assumes "v < 4" "q < 2" "r < 32"
  shows "drop_bit 6 (push_bit 6 v OR push_bit 5 q OR (r AND 31)) AND 3 = v"
    and "drop_bit 5 (push_bit 6 v OR push_bit 5 q OR (r AND 31)) AND 1 = q"
    and "(push_bit 6 v OR push_bit 5 q OR (r AND 31)) AND 31 = r"
proof -
  have v: "bit v k \<Longrightarrow> k < 2" and q: "bit q k \<Longrightarrow> k < 1" and r: "bit r k \<Longrightarrow> k < 5" for k
    using assms bit_less_exp [of v 2] bit_less_exp [of q 1] bit_less_exp [of r 5] by auto
  have nb: "\<not> bit v (2::nat)" "\<not> bit v 3" "\<not> bit v 4" "\<not> bit v 5" "\<not> bit v 6" "\<not> bit v 7"
    "\<not> bit q 1" "\<not> bit q (Suc 0)" "\<not> bit q 2" "\<not> bit q 3" "\<not> bit q 4" "\<not> bit q 5" "\<not> bit q 6" "\<not> bit q 7"
    "\<not> bit r 5" "\<not> bit r 6" "\<not> bit r 7"
    using v q r by fastforce+
  show "drop_bit 6 (push_bit 6 v OR push_bit 5 q OR (r AND 31)) AND 3 = v"
    by (rule u8_eqI) (simp_all add: bit_simps nb)
  show "drop_bit 5 (push_bit 6 v OR push_bit 5 q OR (r AND 31)) AND 1 = q"
    by (rule u8_eqI) (simp_all add: bit_simps nb)
  show "(push_bit 6 v OR push_bit 5 q OR (r AND 31)) AND 31 = r"
    by (rule u8_eqI) (simp_all add: bit_simps nb)
qed

lemma u8_and_less: "(b :: u8) AND 1 < 2" "b AND 15 < 16" "b AND 127 < 128" "b AND 3 < 4"
  using word_and_le1 [of b 1] word_and_le1 [of b 15] word_and_le1 [of b 127] word_and_le1 [of b 3]
  by (simp_all add: word_less_nat_alt word_le_nat_alt)

end
