(* ===== verification/Rtp.thy ===== *)
theory Rtp
  imports Prelude
begin

text \<open>
  RTP packets: \<open>include/asiortc/rtp.hpp\<close> and \<open>src/rtp.cpp\<close>. \<open>rtp_packet\<close> is the struct,
  \<open>rtp_parse\<close>, \<open>rtp_write_to\<close> and \<open>rtp_serialized_size\<close> are its member functions,
  \<open>rtp_ext_elements\<close> is the walk \<open>rtp_ext_iterator\<close> / \<open>rtp_ext_sentinel\<close> make over a one-byte
  header extension. The outer \<open>None\<close> of a result is an access outside the buffer; the inner
  \<open>None\<close> of the parser is its \<open>return {}\<close>.
\<close>

record rtp_packet =
  rp_version :: u8
  rp_padding :: u8
  rp_extension :: u8
  rp_csrc_count :: u8
  rp_marker :: u8
  rp_payload_type :: u8
  rp_sequence_number :: u16
  rp_timestamp :: u32
  rp_ssrc :: u32
  rp_csrcs :: "u32 list"
  rp_extension_profile :: u16
  rp_extension_data :: bytes
  rp_payload :: bytes

text \<open>The default member initialisers.\<close>

definition rtp_packet_default :: rtp_packet where
  "rtp_packet_default =
     \<lparr>rp_version = 2, rp_padding = 0, rp_extension = 0, rp_csrc_count = 0, rp_marker = 0,
      rp_payload_type = 0, rp_sequence_number = 0, rp_timestamp = 0, rp_ssrc = 0, rp_csrcs = [],
      rp_extension_profile = 0, rp_extension_data = [], rp_payload = []\<rparr>"

section \<open>Parsing\<close>

definition is_rtp_packet :: "bytes \<Rightarrow> bool option" where
  "is_rtp_packet data =
     (if length data < 12 then Some False
      else do { b \<leftarrow> rd8 data 0; Some (drop_bit 6 b = 2) })"

text \<open>The loop that fills \<open>csrcs\<close>, reading at \<open>offset\<close> and advancing it.\<close>

fun rtp_read_csrcs :: "binary_lib \<Rightarrow> bytes \<Rightarrow> nat \<Rightarrow> nat \<Rightarrow> u32 list option" where
  "rtp_read_csrcs B data off 0 = Some []"
| "rtp_read_csrcs B data off (Suc n) =
     do { c \<leftarrow> read_big32_at B data off;
          cs \<leftarrow> rtp_read_csrcs B data (off + 4) n;
          Some (c # cs) }"

text \<open>The \<open>csrc_count > 0\<close> block: the CSRC list and the offset behind it.\<close>

definition rtp_parse_csrcs :: "binary_lib \<Rightarrow> bytes \<Rightarrow> nat \<Rightarrow> u8 \<Rightarrow> (u32 list \<times> nat) option option" where
  "rtp_parse_csrcs B data offset cc =
     (if cc > 0
      then (if length data < offset + unat cc * 4 then Some None
            else do { cs \<leftarrow> rtp_read_csrcs B data offset (unat cc);
                      Some (Some (cs, offset + unat cc * 4)) })
      else Some (Some ([], offset)))"

text \<open>The \<open>if (pkt.extension)\<close> block: profile, data and the offset behind them.\<close>

definition rtp_parse_extension :: "binary_lib \<Rightarrow> bytes \<Rightarrow> nat \<Rightarrow> u8 \<Rightarrow> (u16 \<times> bytes \<times> nat) option option" where
  "rtp_parse_extension B data offset x =
     (if x \<noteq> 0
      then (if length data < offset + 4 then Some None
            else do { profile \<leftarrow> ntoh16_at B data offset;
                      words \<leftarrow> ntoh16_at B data (offset + 2);
                      let ext_len = unat words * 4;
                      if length data < offset + 4 + ext_len then Some None
                      else do { ext \<leftarrow> rd_bytes data (offset + 4) ext_len;
                                Some (Some (profile, ext, offset + 4 + ext_len)) } })
      else Some (Some (0, [], offset)))"

text \<open>The padding block: the last byte counts the padding, itself included.\<close>

definition rtp_strip_padding :: "u8 \<Rightarrow> bytes \<Rightarrow> bytes option" where
  "rtp_strip_padding padding payload =
     (if padding \<noteq> 0 \<and> payload \<noteq> []
      then (let pad_len = unat (last payload)
            in if pad_len = 0 \<or> pad_len > length payload then None
               else Some (take (length payload - pad_len) payload))
      else Some payload)"

definition rtp_parse :: "binary_lib \<Rightarrow> bytes \<Rightarrow> rtp_packet option option" where
  "rtp_parse B data = do {
     ok \<leftarrow> is_rtp_packet data;
     if \<not> ok then Some None else do {
       b0 \<leftarrow> rd8 data 0;
       b1 \<leftarrow> rd8 data 1;
       sn \<leftarrow> ntoh16_at B data 2;
       ts \<leftarrow> ntoh32_at B data 4;
       ss \<leftarrow> ntoh32_at B data 8;
       let padding = drop_bit 5 b0 AND 1;
       let extension = drop_bit 4 b0 AND 1;
       let cc = b0 AND 15;
       r1 \<leftarrow> rtp_parse_csrcs B data 12 cc;
       case r1 of None \<Rightarrow> Some None | Some (cs, off1) \<Rightarrow> do {
         r2 \<leftarrow> rtp_parse_extension B data off1 extension;
         case r2 of None \<Rightarrow> Some None | Some (profile, ext, off2) \<Rightarrow> do {
           rest \<leftarrow> rd_rest data off2;
           case rtp_strip_padding padding rest of None \<Rightarrow> Some None | Some pl \<Rightarrow>
             Some (Some \<lparr>rp_version = drop_bit 6 b0 AND 3, rp_padding = padding,
               rp_extension = extension, rp_csrc_count = cc,
               rp_marker = drop_bit 7 b1 AND 1, rp_payload_type = b1 AND 127,
               rp_sequence_number = sn, rp_timestamp = ts, rp_ssrc = ss, rp_csrcs = cs,
               rp_extension_profile = profile, rp_extension_data = ext, rp_payload = pl\<rparr>)
         } } } }"

section \<open>Serialisation\<close>

text \<open>\<open>(4 - n % 4) % 4\<close>: the zero bytes that fill an extension up to a word.\<close>

definition word_fill :: "nat \<Rightarrow> nat" where
  "word_fill n = (4 - n mod 4) mod 4"

definition rtp_serialized_size :: "rtp_packet \<Rightarrow> nat" where
  "rtp_serialized_size p =
     (let total = 12 + unat (rp_csrc_count p) * 4;
          total = (if rp_extension p \<noteq> 0
                   then total + 4 + length (rp_extension_data p)
                        + word_fill (length (rp_extension_data p))
                   else total);
          total = total + length (rp_payload p)
      in if rp_padding p \<noteq> 0
         then (let rem = total mod 4 in if rem = 0 then total + 4 else total + (4 - rem))
         else total)"

definition rtp_header_bytes :: "binary_lib \<Rightarrow> rtp_packet \<Rightarrow> bytes" where
  "rtp_header_bytes B p =
     [push_bit 6 (rp_version p) OR push_bit 5 (rp_padding p) OR push_bit 4 (rp_extension p)
        OR (rp_csrc_count p AND 15),
      push_bit 7 (rp_marker p) OR (rp_payload_type p AND 127)]
     @ hton16 B (rp_sequence_number p) @ hton32 B (rp_timestamp p) @ hton32 B (rp_ssrc p)"

definition rtp_extension_bytes :: "binary_lib \<Rightarrow> rtp_packet \<Rightarrow> bytes" where
  "rtp_extension_bytes B p =
     (if rp_extension p \<noteq> 0
      then hton16 B (rp_extension_profile p)
           @ hton16 B (of_nat ((length (rp_extension_data p) + 3) div 4))
           @ rp_extension_data p @ replicate (word_fill (length (rp_extension_data p))) 0
      else [])"

definition rtp_body_bytes :: "binary_lib \<Rightarrow> rtp_packet \<Rightarrow> bytes" where
  "rtp_body_bytes B p =
     rtp_header_bytes B p @ concat (map (write_big32 B) (rp_csrcs p))
     @ rtp_extension_bytes B p @ rp_payload p"

text \<open>
  \<open>write_to(data, len)\<close>: the buffer afterwards and the returned \<open>int\<close>. The body is written first;
  with the padding bit, \<open>serialized - written\<close> bytes follow (an unsigned difference: when more was
  written than \<open>serialized\<close> it wraps and \<open>memset\<close> leaves the buffer). Bytes behind the end of the
  buffer are undefined behaviour.
\<close>

definition rtp_write_to :: "binary_lib \<Rightarrow> rtp_packet \<Rightarrow> bytes \<Rightarrow> (bytes \<times> int) option" where
  "rtp_write_to B p buf =
     (let serialized = rtp_serialized_size p
      in if length buf < serialized then Some (buf, - 1)
         else (let body = rtp_body_bytes B p; written = length body;
                   pad = serialized - written;
                   out = (if rp_padding p \<noteq> 0 \<and> pad > 0
                          then body @ replicate (pad - 1) 0 @ [of_nat pad] else body)
               in if length buf < written \<or> (rp_padding p \<noteq> 0 \<and> serialized < written) then None
                  else Some (out @ drop (length out) buf, int serialized)))"

section \<open>Header accessors\<close>

definition rtp_get_ssrc :: "binary_lib \<Rightarrow> bytes \<Rightarrow> u32 option" where
  "rtp_get_ssrc B data = ntoh32_at B data 8"

definition rtp_get_payload_type :: "bytes \<Rightarrow> u8 option" where
  "rtp_get_payload_type data = map_option (\<lambda>b. b AND 127) (rd8 data 1)"

definition rtp_get_sequence_number :: "binary_lib \<Rightarrow> bytes \<Rightarrow> u16 option" where
  "rtp_get_sequence_number B data = ntoh16_at B data 2"

section \<open>One-byte header extensions\<close>

record rtp_ext_element =
  ee_id :: u8
  ee_length :: nat
  ee_data :: bytes

text \<open>
  \<open>operator==\<close> against the sentinel stops at the end or when the element would run past it; it
  reads the octet at the current position only when that position is inside. The element's
  \<open>length\<close> is \<open>_size()\<close>, between 1 and 16.
\<close>

function rtp_ext_elements :: "bytes \<Rightarrow> rtp_ext_element list" where
  "rtp_ext_elements d =
     (case d of
        [] \<Rightarrow> []
      | hdr # rest \<Rightarrow>
          (let len = unat (hdr AND 15) + 1
           in if length d < len + 1 then []
              else \<lparr>ee_id = drop_bit 4 hdr AND 15, ee_length = len, ee_data = take len rest\<rparr>
                   # rtp_ext_elements (drop len rest)))"
  by pat_completeness auto
termination
  by (relation "measure length") auto

declare rtp_ext_elements.simps [simp del]

section \<open>Memory safety\<close>

lemma rtp_read_csrcs_Some:
  "off + n * 4 \<le> length d \<Longrightarrow> \<exists>cs. rtp_read_csrcs B d off n = Some cs \<and> length cs = n"
proof (induction n arbitrary: off)
  case 0
  then show ?case by simp
next
  case (Suc n)
  from Suc.prems obtain c where "read_big32_at B d off = Some c"
    by (cases "read_big32_at B d off") auto
  moreover from Suc.prems Suc.IH [of "off + 4"] obtain cs
    where "rtp_read_csrcs B d (off + 4) n = Some cs" "length cs = n" by auto
  ultimately show ?case by simp
qed

lemma rtp_parse_csrcs_safe:
  "off \<le> length d \<Longrightarrow> \<exists>r. rtp_parse_csrcs B d off cc = Some r \<and>
     (\<forall>cs off'. r = Some (cs, off') \<longrightarrow> off \<le> off' \<and> off' \<le> length d \<and> length cs = unat cc)"
  using rtp_read_csrcs_Some [of off "unat cc" d B]
  by (auto simp: rtp_parse_csrcs_def word_gt_0 unat_eq_zero not_less)

lemma rtp_parse_extension_safe:
  "off \<le> length d \<Longrightarrow> \<exists>r. rtp_parse_extension B d off x = Some r \<and>
     (\<forall>pr ext off'. r = Some (pr, ext, off') \<longrightarrow> off \<le> off' \<and> off' \<le> length d)"
  by (cases "ntoh16_at B d off"; cases "ntoh16_at B d (off + 2)")
     (auto simp: rtp_parse_extension_def Let_def rd_bytes_def)

section \<open>Serialised packets read back\<close>

lemma rtp_octet0:
  fixes v p x c :: u8
  defines "w \<equiv> push_bit 6 v OR push_bit 5 p OR push_bit 4 x OR (c AND 15)"
  assumes "p < 2" "x < 2"
  shows "drop_bit 6 w = v AND 3" "drop_bit 5 w AND 1 = p" "drop_bit 4 w AND 1 = x"
    "w AND 15 = c AND 15"
proof -
  have px: "p AND 1 = p" "x AND 1 = x" using assms(2,3) by (simp_all add: and_1_less)
  have b: "\<not> bit p (Suc n)" "\<not> bit x (Suc n)" for n
    using px by (metis bit_1_iff bit_and_iff nat.distinct(1))+
  have b2: "\<not> bit p (numeral k)" "\<not> bit x (numeral k)" if "k \<noteq> num.One" for k 
    using b[of "pred_numeral k"] by (simp_all add: numeral_eq_Suc)
  have b1: "\<not> bit p (Suc 0)" "\<not> bit x (Suc 0)" using b[of 0] by auto
  show "drop_bit 6 w = v AND 3" by (rule u8_eqI) (simp_all add: w_def bit_simps b1 b2)
  show "drop_bit 5 w AND 1 = p" by (rule u8_eqI) (simp_all add: w_def bit_simps b1 b2)
  show "drop_bit 4 w AND 1 = x" by (rule u8_eqI) (simp_all add: w_def bit_simps b1 b2)
  show "w AND 15 = c AND 15" by (rule u8_eqI) (simp_all add: w_def bit_simps b1 b2)
qed

lemma rtp_octet1:
  fixes m t :: u8
  defines "w \<equiv> push_bit 7 m OR (t AND 127)"
  assumes "m < 2"
  shows "drop_bit 7 w AND 1 = m" "w AND 127 = t AND 127"
proof -
  have m: "m AND 1 = m" using assms(2) by (simp add: and_1_less)
  have b: "\<not> bit m (Suc n)" for n
    using m by (metis bit_1_iff bit_and_iff nat.distinct(1))
  have b2: "\<not> bit m (numeral k)" if "k \<noteq> num.One" for k
    using b [of "pred_numeral k"] by (simp add: numeral_eq_Suc)
  show "drop_bit 7 w AND 1 = m" by (rule u8_eqI) (simp_all add: w_def bit_simps b b2)
  show "w AND 127 = t AND 127" by (rule u8_eqI) (simp_all add: w_def bit_simps b b2)
qed

text \<open>The packets the format can carry: fields within their bit widths, whole extension words.\<close>

definition rtp_wf :: "rtp_packet \<Rightarrow> bool" where
  "rtp_wf p \<longleftrightarrow>
     rp_version p = 2 \<and> rp_padding p < 2 \<and> rp_extension p < 2 \<and> rp_csrc_count p < 16 \<and>
     rp_marker p < 2 \<and> rp_payload_type p < 128 \<and> length (rp_csrcs p) = unat (rp_csrc_count p) \<and>
     (if rp_extension p = 0 then rp_extension_profile p = 0 \<and> rp_extension_data p = []
      else length (rp_extension_data p) mod 4 = 0 \<and> length (rp_extension_data p) div 4 < 2 ^ 16)"

lemma rtp_read_csrcs_write:
  assumes "big_endian B" "length pre = off"
  shows "rtp_read_csrcs B (pre @ concat (map (write_big32 B) cs) @ post) off (length cs) = Some cs"
  using assms(2)
proof (induction cs arbitrary: pre off)
  case Nil
  then show ?case by simp
next
  case (Cons c cs)
  have "rd_bytes (pre @ be32_bytes c @ concat (map (write_big32 B) cs) @ post) off 4
      = Some (be32_bytes c)"
    by (rule rd_bytes_append) (simp_all add: Cons.prems)
  then have c: "read_big32_at B (pre @ be32_bytes c @ concat (map (write_big32 B) cs) @ post) off
      = Some c"
    using assms(1) by (simp add: read_big32_at_def be_simps be32_bytes_def)
  have "rtp_read_csrcs B ((pre @ be32_bytes c) @ concat (map (write_big32 B) cs) @ post) (off + 4)
      (length cs) = Some cs"
    by (rule Cons.IH) (simp add: Cons.prems)
  with c assms(1) show ?case by (simp add: be_simps)
qed

lemma length_write_csrcs [simp]:
  "big_endian B \<Longrightarrow> length (concat (map (write_big32 B) cs)) = 4 * length cs"
  by (induction cs) (simp_all add: be_simps)

lemma rtp_parse_csrcs_write:
  assumes "big_endian B" "length pre = 12" "length cs = unat cc"
  shows "rtp_parse_csrcs B (pre @ concat (map (write_big32 B) cs) @ post) 12 cc
       = Some (Some (cs, 12 + 4 * length cs))"
  using assms rtp_read_csrcs_write [OF assms(1,2), of cs post]
  by (auto simp: rtp_parse_csrcs_def word_gt_0 unat_eq_zero mult.commute)

lemma rtp_parse_extension_write:
  assumes "big_endian B" "length pre = off" "length ext = 4 * n" "n < 2 ^ 16"
  shows "rtp_parse_extension B (pre @ hton16 B profile @ hton16 B (of_nat n) @ ext @ post) off 1
       = Some (Some (profile, ext, off + 4 + length ext))"
proof -
  let ?d = "pre @ be16_bytes profile @ be16_bytes (of_nat n) @ ext @ post"
  have "rd_bytes ?d off 2 = Some (be16_bytes profile)"
    by (rule rd_bytes_append) (simp_all add: assms(2))
  then have 1: "ntoh16_at B ?d off = Some profile"
    using assms(1) by (simp add: ntoh16_at_def be_simps be16_bytes_def)
  have "rd_bytes ((pre @ be16_bytes profile) @ be16_bytes (of_nat n) @ ext @ post) (off + 2) 2
      = Some (be16_bytes (of_nat n))"
    by (rule rd_bytes_append) (simp_all add: assms(2))
  then have 2: "ntoh16_at B ?d (off + 2) = Some (of_nat n)"
    using assms(1) by (simp add: ntoh16_at_def be_simps be16_bytes_def)
  have 3: "rd_bytes ((pre @ be16_bytes profile @ be16_bytes (of_nat n)) @ ext @ post) (off + 4)
      (length ext) = Some ext"
    by (rule rd_bytes_append) (simp_all add: assms(2))
  have "unat (of_nat n :: u16) = n" using assms(4) by (simp add: unat_of_nat take_bit_nat_eq_self)
  with 1 2 3 assms show ?thesis by (simp add: rtp_parse_extension_def Let_def be_simps mult.commute)
qed

lemma length_rtp_header [simp]: "big_endian B \<Longrightarrow> length (rtp_header_bytes B p) = 12"
  by (simp add: rtp_header_bytes_def be_simps)

lemma word_fill_mult4 [simp]: "n mod 4 = 0 \<Longrightarrow> word_fill n = 0"
  by (simp add: word_fill_def)

lemma rtp_header_reads:
  assumes "big_endian B"
  shows "rd8 (rtp_header_bytes B p @ r) 0 = Some (push_bit 6 (rp_version p)
           OR push_bit 5 (rp_padding p) OR push_bit 4 (rp_extension p) OR (rp_csrc_count p AND 15))"
    and "rd8 (rtp_header_bytes B p @ r) 1
           = Some (push_bit 7 (rp_marker p) OR (rp_payload_type p AND 127))"
    and "ntoh16_at B (rtp_header_bytes B p @ r) 2 = Some (rp_sequence_number p)"
    and "ntoh32_at B (rtp_header_bytes B p @ r) 4 = Some (rp_timestamp p)"
    and "ntoh32_at B (rtp_header_bytes B p @ r) 8 = Some (rp_ssrc p)"
  using assms
  by (simp_all add: rtp_header_bytes_def rd8_def at_defs rd_bytes_def be_simps be16_bytes_def
      be32_bytes_def)

text \<open>The fields as the parser sees them, for any bytes behind the header.\<close>

lemma rtp_parse_header:
  assumes "big_endian B" "rtp_wf p"
  shows "rtp_parse B (rtp_header_bytes B p @ r) = do {
       r1 \<leftarrow> rtp_parse_csrcs B (rtp_header_bytes B p @ r) 12 (rp_csrc_count p);
       case r1 of None \<Rightarrow> Some None | Some (cs, off1) \<Rightarrow> do {
         r2 \<leftarrow> rtp_parse_extension B (rtp_header_bytes B p @ r) off1 (rp_extension p);
         case r2 of None \<Rightarrow> Some None | Some (profile, ext, off2) \<Rightarrow> do {
           rest \<leftarrow> rd_rest (rtp_header_bytes B p @ r) off2;
           case rtp_strip_padding (rp_padding p) rest of None \<Rightarrow> Some None | Some pl \<Rightarrow>
             Some (Some (p\<lparr>rp_csrcs := cs, rp_extension_profile := profile,
               rp_extension_data := ext, rp_payload := pl\<rparr>)) } } }"
proof -
  note wf = assms(2) [unfolded rtp_wf_def]
  have o0: "drop_bit 6 w = 2" "drop_bit 6 w AND 3 = 2" "drop_bit 5 w AND 1 = rp_padding p"
    "drop_bit 4 w AND 1 = rp_extension p" "w AND 15 = rp_csrc_count p"
    if "w = push_bit 6 (rp_version p) OR push_bit 5 (rp_padding p) OR push_bit 4 (rp_extension p)
      OR (rp_csrc_count p AND 15)" for w
    using wf rtp_octet0 [of "rp_padding p" "rp_extension p" "rp_version p" "rp_csrc_count p"]
    by (simp_all add: that and_15_less)
  have o1: "drop_bit 7 w AND 1 = rp_marker p" "w AND 127 = rp_payload_type p"
    if "w = push_bit 7 (rp_marker p) OR (rp_payload_type p AND 127)" for w
    using wf rtp_octet1 [of "rp_marker p" "rp_payload_type p"]
    by (simp_all add: that and_127_less)
  have len: "\<not> length (rtp_header_bytes B p @ r) < 12" using assms(1) by simp
  have ok: "is_rtp_packet (rtp_header_bytes B p @ r) = Some True"
    using len o0(1) [OF refl] by (simp only: is_rtp_packet_def rtp_header_reads [OF assms(1)]) simp
  have upd: "p\<lparr>rp_csrcs := cs, rp_extension_profile := profile, rp_extension_data := ext,
      rp_payload := pl\<rparr> = \<lparr>rp_version = 2, rp_padding = rp_padding p,
      rp_extension = rp_extension p, rp_csrc_count = rp_csrc_count p, rp_marker = rp_marker p,
      rp_payload_type = rp_payload_type p, rp_sequence_number = rp_sequence_number p,
      rp_timestamp = rp_timestamp p, rp_ssrc = rp_ssrc p, rp_csrcs = cs,
      rp_extension_profile = profile, rp_extension_data = ext, rp_payload = pl\<rparr>"
    for cs profile ext pl
    using wf by (cases p) simp
  have two: "(2 :: u8) AND 3 = 2" by simp
  show ?thesis
    unfolding rtp_parse_def ok rtp_header_reads [OF assms(1)]
    by (simp only: two Let_def o0 [OF refl] o1 [OF refl] upd Option.bind.bind_lunit not_True_eq_False if_False)
  
qed

lemma rtp_parse_body:
  assumes be: "big_endian B" and wf: "rtp_wf p"
    and strip: "rtp_strip_padding (rp_padding p) (rp_payload p @ tail) = Some (rp_payload p)"
  shows "rtp_parse B (rtp_body_bytes B p @ tail) = Some (Some p)"
proof -
  let ?cs = "concat (map (write_big32 B) (rp_csrcs p))"
  let ?h = "rtp_header_bytes B p"
  let ?x = "rtp_extension_bytes B p"
  let ?d = "?h @ ?cs @ ?x @ rp_payload p @ tail"
  let ?n = "12 + 4 * length (rp_csrcs p)"
  have c: "rtp_parse_csrcs B ?d 12 (rp_csrc_count p) = Some (Some (rp_csrcs p, ?n))"
    using rtp_parse_csrcs_write [OF be, of ?h] be wf by (simp add: rtp_wf_def)
  have x: "rtp_parse_extension B ?d ?n (rp_extension p)
      = Some (Some (rp_extension_profile p, rp_extension_data p, ?n + length ?x))"
  proof (cases "rp_extension p = 0")
    case True
    with wf show ?thesis by (simp add: rtp_parse_extension_def rtp_extension_bytes_def rtp_wf_def)
  next
    case False
    with wf have "rp_extension p = 1" unfolding rtp_wf_def
      by (metis (no_types) and_1_less and_one_eq odd_iff_mod_2_eq_one even_iff_mod_2_eq_zero)
    moreover from False wf have m: "length (rp_extension_data p) mod 4 = 0"
      "length (rp_extension_data p) div 4 < 2 ^ 16" by (simp_all add: rtp_wf_def)
    moreover from m(1) have "4 * (length (rp_extension_data p) div 4) = length (rp_extension_data p)"
      by presburger
    moreover from m(1) have "(length (rp_extension_data p) + 3) div 4 = length (rp_extension_data p) div 4"
      by presburger
    ultimately show ?thesis
      using rtp_parse_extension_write [OF be, of "?h @ ?cs" ?n "rp_extension_data p"
          "length (rp_extension_data p) div 4" "rp_extension_profile p" "rp_payload p @ tail"] be
      by (simp add: rtp_extension_bytes_def be_simps)
  qed
  have r: "rd_rest ?d (?n + length ?x) = Some (rp_payload p @ tail)"
    using be by (simp add: rd_rest_def)
  show ?thesis
    using rtp_parse_header [OF be wf, of "?cs @ ?x @ rp_payload p @ tail"] c x r strip
    by (simp add: rtp_body_bytes_def)
qed

definition rtp_pad_bytes :: "rtp_packet \<Rightarrow> nat \<Rightarrow> bytes" where
  "rtp_pad_bytes p written =
     (if rp_padding p \<noteq> 0
      then replicate (rtp_serialized_size p - written - 1) 0
           @ [of_nat (rtp_serialized_size p - written)]
      else [])"

lemma rtp_size_body:
  assumes "big_endian B" "length (rp_csrcs p) = unat (rp_csrc_count p)"
  shows "rtp_serialized_size p = length (rtp_body_bytes B p)
    + (if rp_padding p \<noteq> 0 then 4 - length (rtp_body_bytes B p) mod 4 else 0)"
  using assms
  by (simp add: rtp_serialized_size_def rtp_body_bytes_def rtp_extension_bytes_def be_simps Let_def)
     (auto simp: algebra_simps)

lemma rtp_strip_pad:
  assumes "0 < n" "n \<le> 4" "x \<noteq> 0"
  shows "rtp_strip_padding x (pl @ replicate (n - 1) 0 @ [of_nat n]) = Some pl"
proof -
  have "unat (of_nat n :: u8) = n" using assms by (simp add: unat_of_nat take_bit_nat_eq_self)
  with assms show ?thesis by (simp add: rtp_strip_padding_def Let_def)
qed

lemma rtp_write_to_eq:
  assumes be: "big_endian B" and cs: "length (rp_csrcs p) = unat (rp_csrc_count p)"
    and len: "rtp_serialized_size p \<le> length buf"
  shows "rtp_write_to B p buf = Some (rtp_body_bytes B p
     @ rtp_pad_bytes p (length (rtp_body_bytes B p)) @ drop (rtp_serialized_size p) buf,
     int (rtp_serialized_size p))"
    and "length (rtp_body_bytes B p @ rtp_pad_bytes p (length (rtp_body_bytes B p)))
       = rtp_serialized_size p"
proof -
  let ?n = "length (rtp_body_bytes B p)"
  have "?n mod 4 < 4" by simp
  then have sz: "rp_padding p \<noteq> 0 \<Longrightarrow> 0 < rtp_serialized_size p - ?n \<and> ?n \<le> rtp_serialized_size p"
    "rp_padding p = 0 \<Longrightarrow> rtp_serialized_size p = ?n"
    using rtp_size_body [OF be cs] by auto
  show "length (rtp_body_bytes B p @ rtp_pad_bytes p ?n) = rtp_serialized_size p"
    using sz by (cases "rp_padding p = 0") (auto simp: rtp_pad_bytes_def)
  show "rtp_write_to B p buf = Some (rtp_body_bytes B p @ rtp_pad_bytes p ?n
     @ drop (rtp_serialized_size p) buf, int (rtp_serialized_size p))"
    using sz len by (cases "rp_padding p = 0") (auto simp: rtp_write_to_def rtp_pad_bytes_def Let_def)
qed

section \<open>What a successful parse says of the datagram\<close>

lemma rtp_read_csrcs_inv:
  assumes be: "big_endian B"
  shows "rtp_read_csrcs B d off n = Some cs \<Longrightarrow>
    length cs = n \<and> concat (map (write_big32 B) cs) = take (n * 4) (drop off d)"
proof (induction n arbitrary: off cs)
  case 0
  then show ?case by simp
next
  case (Suc n)
  then obtain c cs' where c: "read_big32_at B d off = Some c"
    and cs': "rtp_read_csrcs B d (off + 4) n = Some cs'" and cs: "cs = c # cs'"
    by (auto simp: bind_eq_Some_conv)
  from cs' have IH: "length cs' = n" "concat (map (write_big32 B) cs') = take (n * 4) (drop (off + 4) d)"
    using Suc.IH by blast+
  have "take (4 + n * 4) (drop off d) = take 4 (drop off d) @ take (n * 4) (drop (off + 4) d)"
    by (simp add: take_add add.commute)
  with IH be read_at_inv(1) [OF be c] cs show ?case by (simp add: be_simps)
qed

lemma rtp_parse_extension_inv:
  assumes be: "big_endian B" and x: "x < 2"
    and r: "rtp_parse_extension B d off x = Some (Some (pr, ext, off'))"
    and p: "rp_extension p = x" "rp_extension_profile p = pr" "rp_extension_data p = ext"
  shows "off' = off + length (rtp_extension_bytes B p)"
    and "off \<le> length d \<Longrightarrow> off' \<le> length d"
    and "rtp_extension_bytes B p = take (off' - off) (drop off d)"
    and "if x = 0 then pr = 0 \<and> ext = [] else length ext mod 4 = 0 \<and> length ext div 4 < 2 ^ 16"
proof -
  have "off' = off + length (rtp_extension_bytes B p) \<and> (off \<le> length d \<longrightarrow> off' \<le> length d) \<and>
    rtp_extension_bytes B p = take (off' - off) (drop off d) \<and>
    (if x = 0 then pr = 0 \<and> ext = [] else length ext mod 4 = 0 \<and> length ext div 4 < 2 ^ 16)"
  proof (cases "x = 0")
    case True
    with r p show ?thesis by (auto simp: rtp_parse_extension_def rtp_extension_bytes_def)
  next
    case False
    with r obtain w where w: "ntoh16_at B d off = Some pr" "ntoh16_at B d (off + 2) = Some w"
      "off + 4 + unat w * 4 \<le> length d" "ext = take (unat w * 4) (drop (off + 4) d)"
      "off' = off + 4 + unat w * 4"
      by (auto simp: rtp_parse_extension_def Let_def bind_eq_Some_conv rd_bytes_def split: if_splits)
    have len: "length ext = unat w * 4" using w(3,4) by simp
    have k: "(unat w * 4 + 3) div 4 = unat w" by simp
    have "unat w < 2 ^ LENGTH(16)" by (rule unsigned_less)
    then have "unat w < 2 ^ 16" by simp
    moreover have "take (4 + unat w * 4) (drop off d)
      = take 2 (drop off d) @ take 2 (drop (off + 2) d) @ take (unat w * 4) (drop (off + 4) d)"
      using take_drop_split [of 2 "2 + unat w * 4" off d] take_drop_split [of 2 "unat w * 4" "off + 2" d]
      by (simp add: add.commute [of 4 off] del: add_2_eq_Suc add_2_eq_Suc')
    ultimately show ?thesis
      using False w p len k read_at_inv(4) [OF be w(1)] read_at_inv(4) [OF be w(2)] be
      by (simp add: rtp_extension_bytes_def be_simps)
  qed
  then show "off' = off + length (rtp_extension_bytes B p)"
    and "off \<le> length d \<Longrightarrow> off' \<le> length d"
    and "rtp_extension_bytes B p = take (off' - off) (drop off d)"
    and "if x = 0 then pr = 0 \<and> ext = [] else length ext mod 4 = 0 \<and> length ext div 4 < 2 ^ 16"
    by blast+
qed

lemma rtp_octet_rebuild:
  fixes b :: u8
  shows "push_bit 6 (drop_bit 6 b) AND 192 OR push_bit 5 (drop_bit 5 b) AND 32
      OR push_bit 4 (drop_bit 4 b) AND 16 OR b AND 15 = b"
    and "push_bit 7 (drop_bit 7 b) AND 128 OR b AND 127 = b"
  by (rule u8_eqI; simp add: bit_simps)+

lemma rtp_strip_padding_inv:
  "rtp_strip_padding x rest = Some pl \<Longrightarrow> \<exists>tail. rest = pl @ tail \<and> (x = 0 \<longrightarrow> tail = [])"
  by (auto simp: rtp_strip_padding_def Let_def split: if_splits) (metis append_take_drop_id)

lemma rtp_parse_inv:
  assumes be: "big_endian B" and r: "rtp_parse B d = Some (Some p)"
  shows "rtp_wf p" and "\<exists>tail. d = rtp_body_bytes B p @ tail \<and> (rp_padding p = 0 \<longrightarrow> tail = [])"
proof -
  from r have d12: "12 \<le> length d" and v: "drop_bit 6 (d ! 0) = 2"
    by (auto simp: rtp_parse_def is_rtp_packet_def rd8_def split: if_splits)
  let ?b0 = "d ! 0" and ?b1 = "d ! 1"
  from d12 have ok: "is_rtp_packet d = Some True" and b: "rd8 d 0 = Some ?b0" "rd8 d 1 = Some ?b1"
    using v by (auto simp: is_rtp_packet_def rd8_def)
  from d12 obtain sn ts ss where h: "ntoh16_at B d 2 = Some sn" "ntoh32_at B d 4 = Some ts"
    "ntoh32_at B d 8 = Some ss" by (auto simp: at_defs rd_bytes_def)
  from r obtain cs off1 where r1: "rtp_parse_csrcs B d 12 (?b0 AND 15) = Some (Some (cs, off1))"
    unfolding rtp_parse_def ok b h by (auto simp: Let_def bind_eq_Some_conv split: option.splits)
  with r obtain pr ext off2 where r2: "rtp_parse_extension B d off1 (drop_bit 4 ?b0 AND 1)
      = Some (Some (pr, ext, off2))"
    unfolding rtp_parse_def ok b h by (auto simp: Let_def bind_eq_Some_conv split: option.splits)
  with r r1 obtain rest pl where rest: "rd_rest d off2 = Some rest"
    and pl: "rtp_strip_padding (drop_bit 5 ?b0 AND 1) rest = Some pl"
    and p: "p = \<lparr>rp_version = drop_bit 6 ?b0 AND 3, rp_padding = drop_bit 5 ?b0 AND 1,
      rp_extension = drop_bit 4 ?b0 AND 1, rp_csrc_count = ?b0 AND 15,
      rp_marker = drop_bit 7 ?b1 AND 1, rp_payload_type = ?b1 AND 127, rp_sequence_number = sn,
      rp_timestamp = ts, rp_ssrc = ss, rp_csrcs = cs, rp_extension_profile = pr,
      rp_extension_data = ext, rp_payload = pl\<rparr>"
    unfolding rtp_parse_def ok b h by (auto simp: Let_def bind_eq_Some_conv split: option.splits)
  have c: "length cs = unat (?b0 AND 15)" "off1 = 12 + 4 * length cs" "off1 \<le> length d"
    "concat (map (write_big32 B) cs) = take (4 * length cs) (drop 12 d)"
    using r1 d12 rtp_read_csrcs_inv [OF be, of d 12 "unat (?b0 AND 15)" cs]
    by (auto simp: rtp_parse_csrcs_def bind_eq_Some_conv word_gt_0 unat_eq_zero mult.commute
        split: if_splits)
  have pe: "rp_extension p = drop_bit 4 ?b0 AND 1" "rp_extension_profile p = pr"
    "rp_extension_data p = ext" by (simp_all add: p)
  note x = rtp_parse_extension_inv [OF be u8_and_less(1) r2 pe]
  show "rtp_wf p" using x(4) c(1) v by (auto simp: rtp_wf_def p u8_and_less split: if_splits)
  have hd: "rtp_header_bytes B p = take 12 d"
  proof -
    have "take 12 d = take 2 d @ take 2 (drop 2 d) @ take 4 (drop 4 d) @ take 4 (drop 8 d)"
      using take_add [of 2 10 d] take_add [of 2 8 "drop 2 d"] take_add [of 4 4 "drop 4 d"] by simp
    moreover from d12 have "take 2 d = [?b0, ?b1]"
      by (simp add: take_2)
    ultimately show ?thesis
      using read_at_inv(2,4) [OF be] h be
      by (simp add: rtp_header_bytes_def p be_simps rtp_octet_rebuild)
  qed
  from rest c(3) x(2) have off2: "off2 \<le> length d" "rest = drop off2 d"
    by (auto simp: rd_rest_def split: if_splits)
  obtain tail where t: "rest = pl @ tail" "rp_padding p = 0 \<longrightarrow> tail = []"
    using rtp_strip_padding_inv [OF pl] by (auto simp: p)
  have "d = take 12 d @ take (off1 - 12) (drop 12 d) @ take (off2 - off1) (drop off1 d) @ drop off2 d"
    using take_add [of 12 "off1 - 12" d] take_add [of off1 "off2 - off1" d] c(2) x(1)
    by (metis (no_types, lifting) append.assoc append_take_drop_id diff_add_inverse le_add1 le_add_diff_inverse)
  then have "d = rtp_body_bytes B p @ tail"
    using hd c(2,4) x(3) off2 t(1) by (simp add: rtp_body_bytes_def p)
  with t(2) show "\<exists>tail. d = rtp_body_bytes B p @ tail \<and> (rp_padding p = 0 \<longrightarrow> tail = [])"
    by blast
qed

section \<open>Properties\<close>

text \<open>
  C16: Parsing an RTP datagram of any content and any length never reads outside the datagram:
  every access of the header, the CSRC list, the extension and the padding byte is inside it.
\<close>

theorem rtp_parse_safe: "rtp_parse B d \<noteq> None"
proof (cases "length d < 12 \<or> is_rtp_packet d \<noteq> Some True")
  case True
  then show ?thesis
    by (cases "length d < 12") (auto simp: rtp_parse_def is_rtp_packet_def rd8_def)
next
  case False
  then have len: "12 \<le> length d" and ok: "is_rtp_packet d = Some True" by auto
  from len obtain b0 b1 sn ts ss where hdr: "rd8 d 0 = Some b0" "rd8 d 1 = Some b1"
    "ntoh16_at B d 2 = Some sn" "ntoh32_at B d 4 = Some ts" "ntoh32_at B d 8 = Some ss"
    by (cases "d = []") (auto simp: rd8_def at_defs rd_bytes_def)
  obtain r1 where r1: "rtp_parse_csrcs B d 12 (b0 AND 15) = Some r1"
    "\<And>cs off'. r1 = Some (cs, off') \<Longrightarrow> off' \<le> length d"
    using rtp_parse_csrcs_safe [OF len] by blast
  show ?thesis
  proof (cases r1)
    case None
    then show ?thesis unfolding rtp_parse_def ok hdr by (simp add: r1(1))
  next
    case (Some a)
    obtain cs off1 where a: "a = (cs, off1)" by (cases a)
    with Some r1(2) have "off1 \<le> length d" by blast
    then obtain r2 where r2: "rtp_parse_extension B d off1 (drop_bit 4 b0 AND 1) = Some r2"
      "\<And>pr ext off'. r2 = Some (pr, ext, off') \<Longrightarrow> off' \<le> length d"
      using rtp_parse_extension_safe by blast
    then have "case r2 of None \<Rightarrow> True | Some (pr, ext, off') \<Rightarrow> rd_rest d off' \<noteq> None"
      by (cases r2) (auto simp: not_less simp del: not_None_eq)
    then show ?thesis
      unfolding rtp_parse_def ok hdr
      by (cases r2) (auto simp: Let_def r1(1) Some a r2(1) rd_rest_def split: option.split)
  qed
qed

text \<open>
  C17: For every packet whose fields fit the format, \<open>write_to\<close> on a large enough buffer fills
  exactly the announced number of bytes and \<open>parse\<close> of these bytes gives the packet back, with
  CSRCs, header extension and padding.
\<close>

theorem rtp_write_parse_roundtrip:
  assumes "big_endian B" "rtp_wf p" "rtp_serialized_size p \<le> length buf"
  shows "\<exists>buf'. rtp_write_to B p buf = Some (buf', int (rtp_serialized_size p)) \<and>
    length buf' = length buf \<and> rtp_parse B (take (rtp_serialized_size p) buf') = Some (Some p)"
proof -
  let ?b = "rtp_body_bytes B p"
  let ?pad = "rtp_pad_bytes p (length ?b)"
  have cs: "length (rp_csrcs p) = unat (rp_csrc_count p)" using assms(2) by (simp add: rtp_wf_def)
  note w = rtp_write_to_eq [OF assms(1) cs assms(3)]
  have "rtp_strip_padding (rp_padding p) (rp_payload p @ ?pad) = Some (rp_payload p)"
  proof (cases "rp_padding p = 0")
    case True
    then show ?thesis by (simp add: rtp_strip_padding_def rtp_pad_bytes_def)
  next
    case False
    have "length ?b mod 4 < 4" by simp
    with False have n: "0 < rtp_serialized_size p - length ?b" "rtp_serialized_size p - length ?b \<le> 4"
      using rtp_size_body [OF assms(1) cs] by auto
    show ?thesis
      unfolding rtp_pad_bytes_def if_P [OF False] by (rule rtp_strip_pad [OF n False])
  qed
  then have "rtp_parse B (?b @ ?pad) = Some (Some p)" by (rule rtp_parse_body [OF assms(1,2)])
  then show ?thesis using w assms(3) by (auto simp flip: append_assoc)
qed

theorem rtp_write_parse_roundtrip_witness:
  "\<exists>buf'. rtp_write_to network_lib
      (rtp_packet_default\<lparr>rp_padding := 1, rp_csrc_count := 1, rp_csrcs := [7], rp_payload := [1, 2]\<rparr>)
      (replicate 32 0) = Some (buf', 20) \<and> length buf' = 32"
proof -
  let ?p = "rtp_packet_default\<lparr>rp_padding := 1, rp_csrc_count := 1, rp_csrcs := [7], rp_payload := [1, 2]\<rparr>"
  have s: "rtp_serialized_size ?p = 20"
    by (simp add: rtp_serialized_size_def rtp_packet_default_def Let_def)
  have "rtp_wf ?p" by (simp add: rtp_wf_def rtp_packet_default_def)
  then show ?thesis
    using rtp_write_parse_roundtrip [OF big_endian_network_lib, of ?p "replicate 32 0"] s by auto
qed

text \<open>
  A packet that parsed is well-formed, and when it carried no padding, serialising it
  reproduces the received datagram byte for byte.
\<close>

theorem rtp_parse_write_identity:
  assumes "big_endian B" "rtp_parse B d = Some (Some p)" "length buf = length d"
  shows "rtp_wf p \<and> (rp_padding p = 0 \<longrightarrow> rtp_write_to B p buf = Some (d, int (length d)))"
proof -
  note inv = rtp_parse_inv [OF assms(1,2)]
  from inv(1) have cs: "length (rp_csrcs p) = unat (rp_csrc_count p)" by (simp add: rtp_wf_def)
  from inv(2) have d: "rp_padding p = 0 \<longrightarrow> d = rtp_body_bytes B p" by auto
  with rtp_size_body [OF assms(1) cs] have "rp_padding p = 0 \<longrightarrow> rtp_serialized_size p = length d"
    by auto
  with d inv(1) rtp_write_to_eq(1) [OF assms(1) cs, of buf] assms(3) show ?thesis
    by (auto simp: rtp_pad_bytes_def)
qed

theorem rtp_parse_write_identity_witness:
  "rtp_write_to network_lib (rtp_packet_default\<lparr>rp_payload := [9]\<rparr>) (replicate 13 0)
     = Some ([128, 0, 0, 0, 0, 0, 0, 0, 0, 0, 0, 0, 9], 13)"
proof -
  let ?d = "[128, 0, 0, 0, 0, 0, 0, 0, 0, 0, 0, 0, 9] :: bytes"
  have "rtp_parse network_lib ?d = Some (Some (rtp_packet_default\<lparr>rp_payload := [9]\<rparr>))"
    by (simp add: rtp_parse_def is_rtp_packet_def rd8_def at_defs rd_bytes_def rd_rest_def Let_def
        rtp_parse_csrcs_def rtp_parse_extension_def rtp_strip_padding_def network_lib_def be16_def
        be32_def rtp_packet_default_def)
  from rtp_parse_write_identity [OF big_endian_network_lib this, of "replicate 13 0"]
  show ?thesis by (simp add: rtp_packet_default_def)
qed

end
