(* ===== verification/Codec.thy ===== *)
theory Codec
  imports Prelude
begin

text \<open>
  The interface between a writer of single records and a reader of a whole buffer of them. The
  components that write one record at a time and read until the buffer is used up (RTCP compound
  packets, NACK entries, and so on) interpret the locale on their own functions and take the round
  trip of the whole buffer from it.
\<close>

locale record_stream =
  fixes wf :: "'a \<Rightarrow> bool"
    and enc :: "'a \<Rightarrow> 'b list"
    and many :: "'b list \<Rightarrow> 'a list option"
  assumes many_nil: "many [] = Some []"
    and many_step: "wf x \<Longrightarrow> many (enc x @ rest) = map_option ((#) x) (many rest)"
begin

lemma many_append:
  "list_all wf xs \<Longrightarrow> many (concat (map enc xs) @ rest) = map_option ((@) xs) (many rest)"
proof (induction xs)
  case Nil
  show ?case by (cases "many rest") simp_all
next
  case (Cons x xs)
  then show ?case by (simp add: many_step option.map_comp comp_def)
qed

lemma many_concat: "list_all wf xs \<Longrightarrow> many (concat (map enc xs)) = Some xs"
  using many_append [of xs "[]"] by (simp add: many_nil)

lemma enc_inj:
  assumes "list_all wf xs" "list_all wf ys" "concat (map enc xs) = concat (map enc ys)"
  shows "xs = ys"
  by (metis assms many_concat option.inject)

end

end
