(* ===== verification/Rtcp.thy ===== *)
theory Rtcp
  imports Codec
begin

text \<open>
  RTCP packets: \<open>src/rtcp.hpp\<close> and \<open>src/rtcp.cpp\<close>. \<open>rtcp_packet\<close> and \<open>report_block\<close> are the structs;
  \<open>rtcp_parse\<close>, \<open>rtcp_write_to\<close>, \<open>rtcp_serialized_size\<close> and \<open>parse_compound\<close> the packet functions;
  \<open>rtpfb_bytes\<close>, \<open>psfb_bytes\<close>, \<open>sdes_bytes\<close>, \<open>pack_remb\<close>, \<open>build_transport_cc\<close> and
  \<open>tcc_build_packet_status\<close> the builders of single messages; \<open>parse_nack\<close> and \<open>parse_remb\<close> their
  readers. As in theory Rtp, an outer \<open>None\<close> is an access outside the buffer.
\<close>

record report_block =
  rb_ssrc :: u32
  rb_fraction_lost :: u8
  rb_cumulative_lost :: u32
  rb_ext_highest_seq :: u32
  rb_jitter :: u32
  rb_lsr :: u32
  rb_dlsr :: u32

record rtcp_packet =
  rc_version :: u8
  rc_padding :: u8
  rc_report_count :: u8
  rc_type :: u8
  rc_ssrc :: u32
  rc_media_ssrc :: u32
  rc_ntp_timestamp :: u64
  rc_rtp_timestamp :: u32
  rc_sender_packet_count :: u32
  rc_sender_octet_count :: u32
  rc_blocks :: "report_block list"
  rc_payload :: bytes

definition rtcp_packet_default :: rtcp_packet where
  "rtcp_packet_default =
     \<lparr>rc_version = 2, rc_padding = 0, rc_report_count = 0, rc_type = 0, rc_ssrc = 0,
      rc_media_ssrc = 0, rc_ntp_timestamp = 0, rc_rtp_timestamp = 0, rc_sender_packet_count = 0,
      rc_sender_octet_count = 0, rc_blocks = [], rc_payload = []\<rparr>"

text \<open>The constants of \<open>packet_type\<close>.\<close>

abbreviation pt_SR :: u8 where "pt_SR \<equiv> 200"
abbreviation pt_RR :: u8 where "pt_RR \<equiv> 201"
abbreviation pt_SDES :: u8 where "pt_SDES \<equiv> 202"
abbreviation pt_BYE :: u8 where "pt_BYE \<equiv> 203"
abbreviation pt_APP :: u8 where "pt_APP \<equiv> 204"
abbreviation pt_RTPFB :: u8 where "pt_RTPFB \<equiv> 205"
abbreviation pt_PSFB :: u8 where "pt_PSFB \<equiv> 206"

section \<open>Report blocks\<close>

definition parse_report_block :: "binary_lib \<Rightarrow> bytes \<Rightarrow> nat \<Rightarrow> report_block option" where
  "parse_report_block B d off = do {
     ssrc \<leftarrow> ntoh32_at B d off;
     flc \<leftarrow> ntoh32_at B d (off + 4);
     ehs \<leftarrow> ntoh32_at B d (off + 8);
     jit \<leftarrow> ntoh32_at B d (off + 12);
     lsr \<leftarrow> ntoh32_at B d (off + 16);
     dlsr \<leftarrow> ntoh32_at B d (off + 20);
     Some \<lparr>rb_ssrc = ssrc, rb_fraction_lost = ucast (drop_bit 24 flc AND 255),
       rb_cumulative_lost = flc AND 0x00FFFFFF, rb_ext_highest_seq = ehs, rb_jitter = jit,
       rb_lsr = lsr, rb_dlsr = dlsr\<rparr> }"

definition write_report_block :: "binary_lib \<Rightarrow> report_block \<Rightarrow> bytes" where
  "write_report_block B b =
     hton32 B (rb_ssrc b)
     @ hton32 B (push_bit 24 (ucast (rb_fraction_lost b)) OR (rb_cumulative_lost b AND 0x00FFFFFF))
     @ hton32 B (rb_ext_highest_seq b) @ hton32 B (rb_jitter b) @ hton32 B (rb_lsr b)
     @ hton32 B (rb_dlsr b)"

text \<open>The loop over \<open>report_count\<close> blocks, bounded by \<open>tot\<close>: the blocks and the offset behind.\<close>

fun rtcp_read_blocks ::
  "binary_lib \<Rightarrow> bytes \<Rightarrow> nat \<Rightarrow> nat \<Rightarrow> nat \<Rightarrow> (report_block list \<times> nat) option option" where
  "rtcp_read_blocks B d tot off 0 = Some (Some ([], off))"
| "rtcp_read_blocks B d tot off (Suc n) =
     (if tot < off + 24 then Some None
      else do {
        b \<leftarrow> parse_report_block B d off;
        r \<leftarrow> rtcp_read_blocks B d tot (off + 24) n;
        case r of None \<Rightarrow> Some None | Some (bs, off') \<Rightarrow> Some (Some (b # bs, off')) })"

section \<open>Parsing\<close>

text \<open>
  The payload block each packet type ends with: \<open>tot - offset\<close> bytes, less the padding that
  byte \<open>tot - 1\<close> announces. (\<open>tot < offset\<close> would wrap the unsigned difference.)
\<close>

definition rtcp_read_payload :: "u8 \<Rightarrow> bytes \<Rightarrow> nat \<Rightarrow> nat \<Rightarrow> bytes option option" where
  "rtcp_read_payload padding d tot off =
     (if tot < off then None
      else (let payload_len = tot - off
            in if padding \<noteq> 0 \<and> payload_len > 0
               then do {
                 pad_len \<leftarrow> rd8 d (tot - 1);
                 if pad_len = 0 \<or> unat pad_len > payload_len then Some None
                 else map_option Some (rd_bytes d off (payload_len - unat pad_len)) }
               else map_option Some (rd_bytes d off payload_len)))"

definition rtcp_parse_reports ::
  "binary_lib \<Rightarrow> bytes \<Rightarrow> nat \<Rightarrow> nat \<Rightarrow> rtcp_packet \<Rightarrow> rtcp_packet option option" where
  "rtcp_parse_reports B d tot off pkt = do {
     r \<leftarrow> rtcp_read_blocks B d tot off (unat (rc_report_count pkt));
     case r of None \<Rightarrow> Some None | Some (bs, off') \<Rightarrow> do {
       q \<leftarrow> rtcp_read_payload (rc_padding pkt) d tot off';
       Some (map_option (\<lambda>pl. pkt\<lparr>rc_blocks := bs, rc_payload := pl\<rparr>) q) } }"

definition rtcp_parse_sr ::
  "binary_lib \<Rightarrow> bytes \<Rightarrow> nat \<Rightarrow> rtcp_packet \<Rightarrow> rtcp_packet option option" where
  "rtcp_parse_sr B d tot pkt =
     (if tot < 4 + 4 + 20 then Some None
      else do {
        ssrc \<leftarrow> read_big32_at B d 4;
        msw \<leftarrow> ntoh32_at B d 8;
        lsw \<leftarrow> ntoh32_at B d 12;
        rts \<leftarrow> ntoh32_at B d 16;
        pc \<leftarrow> ntoh32_at B d 20;
        oc \<leftarrow> ntoh32_at B d 24;
        rtcp_parse_reports B d tot 28
          (pkt\<lparr>rc_ssrc := ssrc, rc_ntp_timestamp := push_bit 32 (ucast msw) OR ucast lsw,
               rc_rtp_timestamp := rts, rc_sender_packet_count := pc,
               rc_sender_octet_count := oc\<rparr>) })"

definition rtcp_parse_rr ::
  "binary_lib \<Rightarrow> bytes \<Rightarrow> nat \<Rightarrow> rtcp_packet \<Rightarrow> rtcp_packet option option" where
  "rtcp_parse_rr B d tot pkt =
     (if tot < 4 + 4 then Some None
      else do {
        ssrc \<leftarrow> read_big32_at B d 4;
        rtcp_parse_reports B d tot 8 (pkt\<lparr>rc_ssrc := ssrc\<rparr>) })"

definition rtcp_parse_fb ::
  "binary_lib \<Rightarrow> bytes \<Rightarrow> nat \<Rightarrow> rtcp_packet \<Rightarrow> rtcp_packet option option" where
  "rtcp_parse_fb B d tot pkt =
     (if tot < 4 + 8 then Some None
      else do {
        ms \<leftarrow> read_big32_at B d 8;
        q \<leftarrow> rtcp_read_payload (rc_padding pkt) d tot 12;
        Some (map_option (\<lambda>pl. pkt\<lparr>rc_media_ssrc := ms, rc_payload := pl\<rparr>) q) })"

definition rtcp_parse :: "binary_lib \<Rightarrow> bytes \<Rightarrow> rtcp_packet option option" where
  "rtcp_parse B d =
     (if length d < 4 then Some None
      else do {
        b0 \<leftarrow> rd8 d 0;
        ty \<leftarrow> rd8 d 1;
        words \<leftarrow> ntoh16_at B d 2;
        let tot = (unat words + 1) * 4;
        if tot > length d then Some None
        else (let pkt = rtcp_packet_default\<lparr>rc_version := drop_bit 6 b0 AND 3,
                    rc_padding := drop_bit 5 b0 AND 1, rc_report_count := b0 AND 31, rc_type := ty\<rparr>
              in if ty = pt_SR then rtcp_parse_sr B d tot pkt
                 else if ty = pt_RR then rtcp_parse_rr B d tot pkt
                 else if ty = pt_RTPFB \<or> ty = pt_PSFB then rtcp_parse_fb B d tot pkt
                 else if ty = pt_BYE \<or> ty = pt_SDES \<or> ty = pt_APP
                 then do { q \<leftarrow> rtcp_read_payload (rc_padding pkt) d tot 4;
                           Some (map_option (\<lambda>pl. pkt\<lparr>rc_payload := pl\<rparr>) q) }
                 else Some (Some pkt)) })"

text \<open>The loop of \<open>parse_compound\<close>; \<open>d\<close> is what is left of the datagram.\<close>

function parse_compound :: "binary_lib \<Rightarrow> bytes \<Rightarrow> rtcp_packet list option" where
  "parse_compound B d =
     (if length d < 4 then Some []
      else case ntoh16_at B d 2 of None \<Rightarrow> None | Some words \<Rightarrow>
        (let pkt_len = (unat words + 1) * 4
         in if pkt_len > length d then Some []
            else case rtcp_parse B (take pkt_len d) of
                   None \<Rightarrow> None
                 | Some None \<Rightarrow> Some []
                 | Some (Some p) \<Rightarrow> map_option ((#) p) (parse_compound B (drop pkt_len d))))"
  by pat_completeness auto
termination
  by (relation "measure (\<lambda>(B, d). length d)") auto

declare parse_compound.simps [simp del]

definition is_rtcp_packet :: "bytes \<Rightarrow> bool option" where
  "is_rtcp_packet d =
     (if length d < 4 then Some False
      else do { b0 \<leftarrow> rd8 d 0; b1 \<leftarrow> rd8 d 1; Some (drop_bit 6 b0 = 2 \<and> b1 \<ge> 192) })"

definition rtcp_get_packet_type :: "bytes \<Rightarrow> u8 option" where
  "rtcp_get_packet_type d = (if length d < 4 then Some 0 else rd8 d 1)"

section \<open>Serialisation\<close>

definition rtcp_serialized_size :: "rtcp_packet \<Rightarrow> nat" where
  "rtcp_serialized_size p =
     (let tot = 4;
          tot = (if rc_type p = pt_SR \<or> rc_type p = pt_RR then tot + 4 else tot);
          tot = (if rc_type p = pt_SR then tot + 20 else tot);
          tot = tot + length (rc_blocks p) * 24;
          tot = tot + length (rc_payload p)
      in if rc_padding p \<noteq> 0
         then (let rem = tot mod 4 in if rem = 0 then tot + 4 else tot + (4 - rem))
         else tot)"

definition rtcp_header_bytes :: "binary_lib \<Rightarrow> rtcp_packet \<Rightarrow> nat \<Rightarrow> bytes" where
  "rtcp_header_bytes B p serialized =
     [push_bit 6 (rc_version p) OR push_bit 5 (rc_padding p) OR (rc_report_count p AND 31), rc_type p]
     @ hton16 B (of_nat (serialized div 4 - 1))"

definition rtcp_sender_info_bytes :: "binary_lib \<Rightarrow> rtcp_packet \<Rightarrow> bytes" where
  "rtcp_sender_info_bytes B p =
     hton32 B (ucast (drop_bit 32 (rc_ntp_timestamp p)))
     @ hton32 B (ucast (rc_ntp_timestamp p AND 0xFFFFFFFF))
     @ hton32 B (rc_rtp_timestamp p) @ hton32 B (rc_sender_packet_count p)
     @ hton32 B (rc_sender_octet_count p)"

definition rtcp_body_bytes :: "binary_lib \<Rightarrow> rtcp_packet \<Rightarrow> bytes" where
  "rtcp_body_bytes B p =
     rtcp_header_bytes B p (rtcp_serialized_size p)
     @ (if rc_type p = pt_SR \<or> rc_type p = pt_RR then write_big32 B (rc_ssrc p) else [])
     @ (if rc_type p = pt_SR then rtcp_sender_info_bytes B p else [])
     @ concat (map (write_report_block B) (rc_blocks p)) @ rc_payload p"

definition rtcp_write_to :: "binary_lib \<Rightarrow> rtcp_packet \<Rightarrow> bytes \<Rightarrow> (bytes \<times> int) option" where
  "rtcp_write_to B p buf =
     (let serialized = rtcp_serialized_size p
      in if length buf < serialized then Some (buf, - 1)
         else (let body = rtcp_body_bytes B p; written = length body;
                   pad = serialized - written;
                   out = (if rc_padding p \<noteq> 0 \<and> pad > 0
                          then body @ replicate (pad - 1) 0 @ [of_nat pad] else body)
               in if length buf < written \<or> (rc_padding p \<noteq> 0 \<and> serialized < written) then None
                  else Some (out @ drop (length out) buf, int serialized)))"

section \<open>Feedback messages\<close>

text \<open>\<open>rtcp_rtpfb::bytes\<close>: a NACK with one entry per lost packet. The \<open>fmt\<close> field is not used.\<close>

record rtcp_rtpfb =
  fb_fmt :: u8
  fb_sender_ssrc :: u32
  fb_media_ssrc :: u32
  fb_lost :: "u16 list"

definition rtpfb_bytes :: "binary_lib \<Rightarrow> rtcp_rtpfb \<Rightarrow> bytes" where
  "rtpfb_bytes B fb =
     (let tot = 12 + length (fb_lost fb) * 4
      in [push_bit 6 2 OR 1, pt_RTPFB] @ write_big16 B (of_nat (tot div 4 - 1))
         @ write_big32 B (fb_sender_ssrc fb) @ write_big32 B (fb_media_ssrc fb)
         @ concat (map (\<lambda>s. write_big16 B s @ [0, 0]) (fb_lost fb)))"

record rtcp_psfb =
  ps_fmt :: u8
  ps_sender_ssrc :: u32
  ps_media_ssrc :: u32
  ps_fci :: bytes

definition psfb_bytes :: "binary_lib \<Rightarrow> rtcp_psfb \<Rightarrow> bytes" where
  "psfb_bytes B fb =
     (let tot = 12 + length (ps_fci fb)
      in [push_bit 6 2 OR ps_fmt fb, pt_PSFB] @ write_big16 B (of_nat (tot div 4 - 1))
         @ write_big32 B (ps_sender_ssrc fb) @ write_big32 B (ps_media_ssrc fb) @ ps_fci fb)"

text \<open>The 16 bits of the bitmask, lowest first: bit \<open>i\<close> reports \<open>pid + i + 1\<close>.\<close>

definition nack_entry :: "u16 \<Rightarrow> u16 \<Rightarrow> u16 list" where
  "nack_entry pid blp = pid # map (\<lambda>i. pid + of_nat i + 1) (filter (\<lambda>i. bit blp i) [0..<16])"

function parse_nack :: "binary_lib \<Rightarrow> bytes \<Rightarrow> u16 list option" where
  "parse_nack B d =
     (if length d < 4 then Some []
      else do { pid \<leftarrow> ntoh16_at B d 0; blp \<leftarrow> ntoh16_at B d 2;
                rest \<leftarrow> parse_nack B (drop 4 d); Some (nack_entry pid blp @ rest) })"
  by pat_completeness auto
termination
  by (relation "measure (\<lambda>(B, d). length d)") auto

declare parse_nack.simps [simp del]

section \<open>Receiver estimated maximum bitrate\<close>

text \<open>The exponent has six bits: shifting a 32-bit value by 32 or more is undefined (\<open>None\<close>).\<close>

definition parse_remb :: "binary_lib \<Rightarrow> bytes \<Rightarrow> (u32 \<times> u32 list) option" where
  "parse_remb B d =
     (if length d < 8 then Some (0, [])
      else if take 4 d \<noteq> [0x52, 0x45, 0x4D, 0x42] then Some (0, [])
      else (let num_ssrc = unat (d ! 4);
                br_exp = drop_bit 2 (d ! 5) AND 0x3F;
                br_mantissa = push_bit 16 (ucast (d ! 5 AND 3)) OR push_bit 8 (ucast (d ! 6))
                              OR (ucast (d ! 7) :: u32);
                n = min num_ssrc ((length d - 8) div 4)
            in if unat br_exp \<ge> 32 then None
               else Some (push_bit (unat br_exp) br_mantissa,
                 map (\<lambda>i. ntoh32 B (take 4 (drop (8 + 4 * i) d))) [0..<n])))"

function remb_scale :: "u32 \<Rightarrow> u8 \<Rightarrow> u32 \<times> u8" where
  "remb_scale bitrate e =
     (if bitrate > 0x3FFFF then remb_scale (drop_bit 1 bitrate) (e + 1) else (bitrate, e))"
  by pat_completeness auto
termination
  by (relation "measure (\<lambda>(b, e). unat b)")
     (auto simp: word_less_nat_alt drop_bit_eq_div unat_div)

declare remb_scale.simps [simp del]

definition pack_remb :: "binary_lib \<Rightarrow> u32 \<Rightarrow> u32 list \<Rightarrow> bytes" where
  "pack_remb B bitrate ssrcs =
     (let (br, e) = remb_scale bitrate 0; mantissa = br AND 0x3FFFF
      in [0x52, 0x45, 0x4D, 0x42, of_nat (length ssrcs),
          push_bit 2 e OR ucast (drop_bit 16 mantissa AND 3),
          ucast (drop_bit 8 mantissa AND 0xFF), ucast (mantissa AND 0xFF)]
         @ concat (map (write_big32 B) ssrcs))"

section \<open>Source description\<close>

definition pad_to_word :: "bytes \<Rightarrow> bytes" where
  "pad_to_word d = d @ replicate ((4 - length d mod 4) mod 4) 0"

definition sdes_bytes :: "binary_lib \<Rightarrow> u32 \<Rightarrow> bytes \<Rightarrow> bytes" where
  "sdes_bytes B ssrc cname =
     (let d = pad_to_word (write_big32 B ssrc @ [1, of_nat (length cname)] @ cname @ [0, 0]);
          size = 4 + length d
      in [push_bit 6 2 OR 1, pt_SDES] @ write_big16 B (of_nat (size div 4 - 1)) @ d)"

section \<open>Transport-wide congestion control feedback\<close>

record transport_cc_feedback =
  tc_sender_ssrc :: u32
  tc_media_ssrc :: u32
  tc_base_seq :: u16
  tc_status_count :: u16
  tc_reference_time :: u32
  tc_feedback_packet_count :: u8
  tc_packet_chunks :: bytes

definition transport_cc_fci :: "binary_lib \<Rightarrow> transport_cc_feedback \<Rightarrow> bytes" where
  "transport_cc_fci B fb =
     write_big16 B (tc_base_seq fb) @ write_big16 B (tc_status_count fb)
     @ [ucast (drop_bit 16 (tc_reference_time fb) AND 0xFF),
        ucast (drop_bit 8 (tc_reference_time fb) AND 0xFF),
        ucast (tc_reference_time fb AND 0xFF), tc_feedback_packet_count fb]
     @ tc_packet_chunks fb"

text \<open>
  The zero fill up to a word; when there is any, the padding bit is set and the last byte counts
  it. The length field written last is the one that counts.
\<close>

definition build_transport_cc :: "binary_lib \<Rightarrow> transport_cc_feedback \<Rightarrow> bytes" where
  "build_transport_cc B fb =
     (let fci = transport_cc_fci B fb;
          orig_size = 8 + 4 + length fci;
          fill = (4 - orig_size mod 4) mod 4;
          b0 = push_bit 6 2 OR 15;
          b0 = (if fill > 0 then b0 OR 0x20 else b0);
          tail = (if fill > 0 then replicate (fill - 1) 0 @ [of_nat fill] else [])
      in [b0, pt_RTPFB] @ write_big16 B (of_nat ((orig_size + fill) div 4 - 1))
         @ write_big32 B (tc_sender_ssrc fb) @ write_big32 B (tc_media_ssrc fb) @ fci @ tail)"

datatype tcc_packet_status = not_received | small_delta | large_delta | received_without_delta

record tcc_packet_info =
  ti_status :: tcc_packet_status
  ti_delta :: u16

fun tcc_symbol :: "tcc_packet_status \<Rightarrow> u16" where
  "tcc_symbol not_received = 0"
| "tcc_symbol small_delta = 1"
| "tcc_symbol large_delta = 2"
| "tcc_symbol received_without_delta = 3"

fun tcc_delta_bytes :: "tcc_packet_info \<Rightarrow> bytes" where
  "tcc_delta_bytes i =
     (case ti_status i of
        small_delta \<Rightarrow> [ucast (ti_delta i)]
      | large_delta \<Rightarrow> [ucast (drop_bit 8 (ti_delta i) AND 0xFF), ucast (ti_delta i AND 0xFF)]
      | _ \<Rightarrow> [])"

text \<open>The inner loop: up to seven two-bit symbols from bit 12 downwards.\<close>

fun tcc_fill_chunk :: "u16 \<Rightarrow> nat \<Rightarrow> tcc_packet_info list \<Rightarrow> u16" where
  "tcc_fill_chunk chunk bits [] = chunk"
| "tcc_fill_chunk chunk bits (i # js) =
     tcc_fill_chunk (chunk OR push_bit bits (tcc_symbol (ti_status i))) (bits - 2) js"

function tcc_chunks :: "tcc_packet_info list \<Rightarrow> u16 list" where
  "tcc_chunks ps =
     (if ps = [] then [] else tcc_fill_chunk 0xC000 12 (take 7 ps) # tcc_chunks (drop 7 ps))"
  by pat_completeness auto
termination
  by (relation "measure length") auto

declare tcc_chunks.simps [simp del]

definition tcc_build_packet_status :: "binary_lib \<Rightarrow> tcc_packet_info list \<Rightarrow> bytes" where
  "tcc_build_packet_status B ps =
     concat (map (write_big16 B) (tcc_chunks ps)) @ concat (map tcc_delta_bytes ps)"


section \<open>Parsing is safe\<close>

lemma rtcp_read_blocks_off:
  "rtcp_read_blocks B d tot off n = Some (Some (bs, off')) \<Longrightarrow> off \<le> tot \<Longrightarrow> off' \<le> tot"
  by (induction B d tot off n arbitrary: bs off' rule: rtcp_read_blocks.induct)
     (auto simp: bind_eq_Some_conv split: if_splits option.splits)

lemma parse_report_block_Some:
  "off + 24 \<le> length d \<Longrightarrow> parse_report_block B d off \<noteq> None"
  by (simp add: parse_report_block_def at_defs rd_bytes_def)

lemma rtcp_read_blocks_safe:
  "tot \<le> length d \<Longrightarrow> rtcp_read_blocks B d tot off n \<noteq> None"
proof (induction n arbitrary: off)
  case (Suc n)
  show ?case
  proof (cases "tot < off + 24")
    case False
    with Suc.prems have "off + 24 \<le> length d" by simp
    then obtain b where b: "parse_report_block B d off = Some b"
      using parse_report_block_Some by (metis option.exhaust)
    obtain r where "rtcp_read_blocks B d tot (off + 24) n = Some r"
      using Suc by (metis option.exhaust)
    with b show ?thesis by (auto split: option.splits)
  qed simp
qed simp

lemma rtcp_read_payload_safe:
  "off \<le> tot \<Longrightarrow> tot \<le> length d \<Longrightarrow> rtcp_read_payload padding d tot off \<noteq> None"
  by (auto simp: rtcp_read_payload_def Let_def rd8_def rd_bytes_def)

lemma rtcp_parse_reports_safe:
  assumes "off \<le> tot" "tot \<le> length d"
  shows "rtcp_parse_reports B d tot off pkt \<noteq> None"
proof -
  obtain r where r: "rtcp_read_blocks B d tot off (unat (rc_report_count pkt)) = Some r"
    using rtcp_read_blocks_safe [OF assms(2)] by (metis option.exhaust)
  show ?thesis
  proof (cases r)
    case None
    with r show ?thesis by (simp add: rtcp_parse_reports_def)
  next
    case (Some a)
    obtain bs off' where a: "a = (bs, off')" by (cases a)
    have "off' \<le> tot" using rtcp_read_blocks_off r Some a assms by blast
    from rtcp_read_payload_safe [OF this assms(2)]
    obtain q where "rtcp_read_payload (rc_padding pkt) d tot off' = Some q"
      by (metis option.exhaust)
    with r Some a show ?thesis by (simp add: rtcp_parse_reports_def)
  qed
qed

lemma rtcp_parse_cases_safe:
  assumes "tot \<le> length d"
  shows "rtcp_parse_sr B d tot pkt \<noteq> None" and "rtcp_parse_rr B d tot pkt \<noteq> None"
    and "rtcp_parse_fb B d tot pkt \<noteq> None"
  using assms rtcp_parse_reports_safe rtcp_read_payload_safe
  by (simp_all add: rtcp_parse_sr_def rtcp_parse_rr_def rtcp_parse_fb_def at_defs rd_bytes_def
      bind_eq_None_conv del: not_None_eq)

lemma rtcp_parse_not_None: "rtcp_parse B d \<noteq> None"
  using rtcp_parse_cases_safe [of _ d B] rtcp_read_payload_safe [of 4 _ d]
  by (simp add: rtcp_parse_def rd8_def at_defs rd_bytes_def Let_def bind_eq_None_conv
      del: not_None_eq)

lemma parse_compound_not_None: "parse_compound B d \<noteq> None"
proof (induction B d rule: parse_compound.induct)
  case (1 B d)
  then show ?case
    by (subst parse_compound.simps)
       (auto simp: Let_def at_defs rd_bytes_def rtcp_parse_not_None split: option.splits)
qed

lemma parse_nack_not_None: "parse_nack B d \<noteq> None"
proof (induction B d rule: parse_nack.induct)
  case (1 B d)
  then show ?case
    by (subst parse_nack.simps) (auto simp: at_defs rd_bytes_def bind_eq_None_conv simp del: not_None_eq)
qed

text \<open>
  C18: The RTCP readers are total and memory safe: whatever the datagram, \<open>rtcp_packet::parse\<close>,
  \<open>parse_compound\<close> and \<open>parse_nack\<close> make no access outside the buffer, and no unsigned length they
  compute wraps around.
\<close>
theorem rtcp_readers_safe:
  "rtcp_parse B d \<noteq> None \<and> parse_compound B d \<noteq> None \<and> parse_nack B d \<noteq> None"
  by (simp add: rtcp_parse_not_None parse_compound_not_None parse_nack_not_None)

section \<open>Serialisation and parsing\<close>

definition rb_wf :: "report_block \<Rightarrow> bool" where
  "rb_wf b \<longleftrightarrow> rb_cumulative_lost b < 0x1000000"

lemma u32_and_24: "(w::u32) < 0x1000000 \<Longrightarrow> w AND 0xFFFFFF = w"
  using less_mask_eq [of w 24] by (simp add: mask_eq_exp_minus_1)

lemma flc_fields:
  fixes f :: u8 and c :: u32
  shows "ucast (drop_bit 24 (push_bit 24 (ucast f) OR (c AND 0xFFFFFF)) AND 255) = f"
    and "(push_bit 24 (ucast f) OR (c AND 0xFFFFFF)) AND 0xFFFFFF = c AND 0xFFFFFF"
proof -
  have m: "(0xFFFFFF::u32) = mask 24" "(255::u32) = mask 8" by (simp_all add: mask_eq_exp_minus_1)
  show "ucast (drop_bit 24 (push_bit 24 (ucast f) OR (c AND 0xFFFFFF)) AND 255) = f"
    unfolding m by (rule bit_word_eqI) (auto simp: bit_simps dest: bit_imp_le_length)
  show "(push_bit 24 (ucast f) OR (c AND 0xFFFFFF)) AND 0xFFFFFF = c AND 0xFFFFFF"
    unfolding m by (rule bit_word_eqI) (auto simp: bit_simps dest: bit_imp_le_length)
qed

lemma length_write_report_block [simp]:
  "big_endian B \<Longrightarrow> length (write_report_block B b) = 24"
  by (simp add: write_report_block_def be_simps)

lemma length_report_blocks [simp]:
  "big_endian B \<Longrightarrow> length (concat (map (write_report_block B) bs)) = 24 * length bs"
  by (induction bs) simp_all

lemma parse_report_block_write:
  assumes "big_endian B" "rb_wf b" "length pre = off"
  shows "parse_report_block B (pre @ write_report_block B b @ post) off = Some b"
proof -
  define w :: u32 where
    "w = push_bit 24 (ucast (rb_fraction_lost b)) OR (rb_cumulative_lost b AND 0x00FFFFFF)"
  have w: "ucast (drop_bit 24 w AND 255) = rb_fraction_lost b"
    "w AND 0xFFFFFF = rb_cumulative_lost b"
    unfolding w_def flc_fields using assms(2) by (simp_all add: rb_wf_def u32_and_24)
  show ?thesis
    using assms(1,3)
    by (simp add: parse_report_block_def write_report_block_def be_simps mem_simps w
        flip: w_def)
qed

lemma rtcp_read_blocks_write:
  assumes "big_endian B" "list_all rb_wf bs" "length pre = off" "off + 24 * length bs \<le> tot"
  shows "rtcp_read_blocks B (pre @ concat (map (write_report_block B) bs) @ post) tot off (length bs)
       = Some (Some (bs, off + 24 * length bs))"
  using assms
proof (induction bs arbitrary: pre off)
  case (Cons b bs)
  have "parse_report_block B (pre @ write_report_block B b @ (concat (map (write_report_block B) bs) @ post)) off
      = Some b"
    using Cons.prems by (intro parse_report_block_write) auto
  moreover have "rtcp_read_blocks B ((pre @ write_report_block B b)
        @ concat (map (write_report_block B) bs) @ post) tot (off + 24) (length bs)
      = Some (Some (bs, off + 24 + 24 * length bs))"
    using Cons.prems by (intro Cons.IH) auto
  ultimately show ?case using Cons.prems by simp
qed simp

text \<open>
  The packets the serialiser and the parser agree on: field values of the width of the header
  fields, the fields a packet type does not have at their defaults, and a length that is a whole
  number of words and fits the 16-bit length field.
\<close>

definition rtcp_wf :: "rtcp_packet \<Rightarrow> bool" where
  "rtcp_wf p \<longleftrightarrow>
     rc_version p < 4 \<and> rc_padding p < 2 \<and> rc_report_count p < 32 \<and>
     (rc_type p = pt_SR \<or> rc_type p = pt_RR \<or> rc_type p = pt_SDES \<or> rc_type p = pt_BYE \<or>
      rc_type p = pt_APP) \<and>
     (if rc_type p = pt_SR \<or> rc_type p = pt_RR
      then length (rc_blocks p) = unat (rc_report_count p) \<and> list_all rb_wf (rc_blocks p)
      else rc_blocks p = [] \<and> rc_ssrc p = 0) \<and>
     (rc_type p \<noteq> pt_SR \<longrightarrow> rc_ntp_timestamp p = 0 \<and> rc_rtp_timestamp p = 0 \<and>
        rc_sender_packet_count p = 0 \<and> rc_sender_octet_count p = 0) \<and>
     rc_media_ssrc p = 0 \<and> rtcp_serialized_size p mod 4 = 0 \<and> rtcp_serialized_size p \<le> 0x40000"

definition rtcp_pad_bytes :: "rtcp_packet \<Rightarrow> nat \<Rightarrow> bytes" where
  "rtcp_pad_bytes p n =
     (if rc_padding p \<noteq> 0 \<and> n > 0 then replicate (n - 1) 0 @ [of_nat n] else [])"

text \<open>The bytes \<open>write_to\<close> leaves in a buffer that is large enough.\<close>

definition rtcp_bytes :: "binary_lib \<Rightarrow> rtcp_packet \<Rightarrow> bytes" where
  "rtcp_bytes B p =
     rtcp_body_bytes B p
     @ rtcp_pad_bytes p (rtcp_serialized_size p - length (rtcp_body_bytes B p))"

lemma length_rtcp_body:
  assumes "big_endian B"
  shows "length (rtcp_body_bytes B p) =
    4 + (if rc_type p = pt_SR \<or> rc_type p = pt_RR then 4 else 0) + (if rc_type p = pt_SR then 20 else 0)
      + 24 * length (rc_blocks p) + length (rc_payload p)"
  using assms
  by (simp add: rtcp_body_bytes_def rtcp_header_bytes_def rtcp_sender_info_bytes_def be_simps)

lemma rtcp_size_body:
  assumes "big_endian B"
  shows "rtcp_serialized_size p =
     (if rc_padding p \<noteq> 0
      then length (rtcp_body_bytes B p) + (4 - length (rtcp_body_bytes B p) mod 4)
      else length (rtcp_body_bytes B p))"
  by (auto simp: rtcp_serialized_size_def Let_def length_rtcp_body [OF assms] algebra_simps)

lemma length_rtcp_bytes:
  assumes "big_endian B"
  shows "length (rtcp_bytes B p) = rtcp_serialized_size p"
  using rtcp_size_body [OF assms, of p] by (auto simp: rtcp_bytes_def rtcp_pad_bytes_def)

lemma rtcp_write_to_eq:
  assumes "big_endian B" "rtcp_serialized_size p \<le> length buf"
  shows "rtcp_write_to B p buf =
    Some (rtcp_bytes B p @ drop (rtcp_serialized_size p) buf, int (rtcp_serialized_size p))"
proof -
  have ge: "length (rtcp_body_bytes B p) \<le> rtcp_serialized_size p"
    using mod_less_divisor [of 4 "length (rtcp_body_bytes B p)"]
    by (subst rtcp_size_body [OF assms(1)]) (simp del: mod_less_divisor, linarith)
  have out: "(if rc_padding p \<noteq> 0 \<and> n > 0 then b @ replicate (n - 1) 0 @ [of_nat n] else b)
      = b @ rtcp_pad_bytes p n" for n b
    by (simp add: rtcp_pad_bytes_def)
  show ?thesis
    using ge assms(2) length_rtcp_bytes [OF assms(1), of p]
    unfolding rtcp_write_to_def Let_def out
    by (simp add: rtcp_bytes_def del: length_append)
qed

lemma rtcp_read_payload_write:
  assumes "length pre = off" "tot = off + length pl + length (rtcp_pad_bytes p n)"
    and "rc_padding p \<noteq> 0 \<longleftrightarrow> n > 0" "n \<le> 4"
  shows "rtcp_read_payload (rc_padding p) (pre @ pl @ rtcp_pad_bytes p n @ post) tot off = Some (Some pl)"
proof (cases "n > 0")
  case False
  with assms show ?thesis
    by (simp add: rtcp_read_payload_def rtcp_pad_bytes_def rd_bytes_def)
next
  case True
  have len: "length (pre @ pl @ replicate (n - 1) 0) = tot - 1"
    using assms True by (simp add: rtcp_pad_bytes_def)
  have "rd8 ((pre @ pl @ replicate (n - 1) 0) @ [of_nat n] @ post) (tot - 1) = Some (of_nat n)"
    unfolding len [symmetric] by (simp add: mem_simps nth_append)
  then have last: "rd8 (pre @ pl @ rtcp_pad_bytes p n @ post) (tot - 1) = Some (of_nat n)"
    using True assms(3) by (simp add: rtcp_pad_bytes_def)
  have "n = 1 \<or> n = 2 \<or> n = 3 \<or> n = 4" using True assms(4) by auto
  then have n8: "unat (of_nat n :: u8) = n" "(of_nat n :: u8) \<noteq> 0" by auto
  show ?thesis
    using assms True
    unfolding rtcp_read_payload_def Let_def last
    by (simp add: n8 rd_bytes_def rtcp_pad_bytes_def)
qed

lemma rtcp_length_field:
  assumes "big_endian B" "rtcp_wf p"
  obtains w where "ntoh16_at B (rtcp_bytes B p @ post) 2 = Some w"
    and "(unat w + 1) * 4 = rtcp_serialized_size p" and "4 \<le> rtcp_serialized_size p"
proof
  let ?n = "rtcp_serialized_size p" and ?w = "of_nat (rtcp_serialized_size p div 4 - 1) :: u16"
  have "4 \<le> length (rtcp_body_bytes B p)" using length_rtcp_body [OF assms(1)] by simp
  then show n4: "4 \<le> ?n" using length_rtcp_bytes [OF assms(1), of p] by (simp add: rtcp_bytes_def)
  have wf: "?n mod 4 = 0" "?n \<le> 0x40000" using assms(2) by (auto simp: rtcp_wf_def)
  have "unat ?w = ?n div 4 - 1"
    using wf(2) by (simp add: unat_of_nat take_bit_nat_eq_self del: of_nat_diff)
  then show "(unat ?w + 1) * 4 = ?n"
    using wf(1) n4 by (simp del: of_nat_diff) presburger
  show "ntoh16_at B (rtcp_bytes B p @ post) 2 = Some ?w"
    using assms(1)
    by (simp add: rtcp_bytes_def rtcp_body_bytes_def rtcp_header_bytes_def be_simps mem_simps
        del: of_nat_diff)
qed

lemma rtcp_parse_header:
  assumes "big_endian B" "rtcp_wf p" "d = rtcp_bytes B p @ post"
  shows "rtcp_parse B d =
    (let tot = rtcp_serialized_size p;
         pkt = rtcp_packet_default\<lparr>rc_version := rc_version p, rc_padding := rc_padding p,
                 rc_report_count := rc_report_count p, rc_type := rc_type p\<rparr>
     in if rc_type p = pt_SR then rtcp_parse_sr B d tot pkt
        else if rc_type p = pt_RR then rtcp_parse_rr B d tot pkt
        else do { q \<leftarrow> rtcp_read_payload (rc_padding p) d tot 4;
                  Some (map_option (\<lambda>pl. pkt\<lparr>rc_payload := pl\<rparr>) q) })"
proof -
  let ?n = "rtcp_serialized_size p" and ?b0 = "push_bit 6 (rc_version p) OR push_bit 5 (rc_padding p) OR (rc_report_count p AND 31)"
  obtain r where r: "d = [?b0, rc_type p] @ be16_bytes (of_nat (?n div 4 - 1)) @ r"
    using assms(1,3) by (simp add: rtcp_bytes_def rtcp_body_bytes_def rtcp_header_bytes_def be_simps)
  have len: "?n \<le> length d" using assms length_rtcp_bytes [OF assms(1), of p] by simp
  obtain w where words: "ntoh16_at B d 2 = Some w" and tot: "(unat w + 1) * 4 = ?n" and n4: "4 \<le> ?n"
    using rtcp_length_field [OF assms(1,2), of post] assms(3) by blast
  have wf: "rc_version p < 4" "rc_padding p < 2" "rc_report_count p < 32"
    using assms(2) by (auto simp: rtcp_wf_def)
  have b01: "rd8 d 0 = Some ?b0" "rd8 d 1 = Some (rc_type p)" by (simp_all add: r rd8_def)
  have "rtcp_parse B d = (let tot = ?n;
         pkt = rtcp_packet_default\<lparr>rc_version := drop_bit 6 ?b0 AND 3, rc_padding := drop_bit 5 ?b0 AND 1,
                 rc_report_count := ?b0 AND 31, rc_type := rc_type p\<rparr>
     in if rc_type p = pt_SR then rtcp_parse_sr B d tot pkt
        else if rc_type p = pt_RR then rtcp_parse_rr B d tot pkt
        else do { q \<leftarrow> rtcp_read_payload (rc_padding pkt) d tot 4;
                  Some (map_option (\<lambda>pl. pkt\<lparr>rc_payload := pl\<rparr>) q) })"
    using len n4 assms(2)
    unfolding rtcp_parse_def words b01 Option.bind.bind_lunit tot Let_def rtcp_wf_def by auto
  then show ?thesis
    using octet_2_1_5_fields [OF wf] by (simp add: Let_def)
qed

lemma rtcp_parse_reports_write:
  assumes "big_endian B" "rtcp_wf p" "length pre = off" "rc_type p = pt_SR \<or> rc_type p = pt_RR"
    and "d = pre @ concat (map (write_report_block B) (rc_blocks p)) @ rc_payload p @ rtcp_pad_bytes p n @ post"
    and "tot = off + 24 * length (rc_blocks p) + length (rc_payload p) + length (rtcp_pad_bytes p n)"
    and "rc_padding p \<noteq> 0 \<longleftrightarrow> n > 0" "n \<le> 4"
    and "rc_padding pkt = rc_padding p" "rc_report_count pkt = rc_report_count p"
  shows "rtcp_parse_reports B d tot off pkt
     = Some (Some (pkt\<lparr>rc_blocks := rc_blocks p, rc_payload := rc_payload p\<rparr>))"
proof -
  have wf: "length (rc_blocks p) = unat (rc_report_count p)" "list_all rb_wf (rc_blocks p)"
    using assms(2,4) by (auto simp: rtcp_wf_def)
  have "rtcp_read_blocks B d tot off (unat (rc_report_count p))
      = Some (Some (rc_blocks p, off + 24 * length (rc_blocks p)))"
    using rtcp_read_blocks_write [OF assms(1) wf(2) assms(3), of tot "rc_payload p @ rtcp_pad_bytes p n @ post"]
      assms(5,6) wf(1) by simp
  moreover have "rtcp_read_payload (rc_padding p) d tot (off + 24 * length (rc_blocks p))
      = Some (Some (rc_payload p))"
    using rtcp_read_payload_write [of "pre @ concat (map (write_report_block B) (rc_blocks p))"
        "off + 24 * length (rc_blocks p)" tot "rc_payload p" p n post] assms by simp
  ultimately show ?thesis
    using assms(9,10) by (simp add: rtcp_parse_reports_def)
qed

lemma ntp_join:
  fixes t :: u64
  shows "push_bit 32 (ucast (ucast (drop_bit 32 t) :: u32)) OR ucast (ucast (t AND 0xFFFFFFFF) :: u32) = t"
proof -
  have m: "(0xFFFFFFFF::u64) = mask 32" by (simp add: mask_eq_exp_minus_1)
  show ?thesis
    unfolding m by (rule bit_word_eqI) (auto simp: bit_simps)
qed

lemma rtcp_pad_count:
  assumes "big_endian B" "n = rtcp_serialized_size p - length (rtcp_body_bytes B p)"
  shows "rc_padding p \<noteq> 0 \<longleftrightarrow> n > 0" and "n \<le> 4"
    and "rtcp_serialized_size p = length (rtcp_body_bytes B p) + length (rtcp_pad_bytes p n)"
proof -
  have m: "length (rtcp_body_bytes B p) mod 4 < 4" by simp
  show n: "rc_padding p \<noteq> 0 \<longleftrightarrow> n > 0" "n \<le> 4"
    using m assms(2) rtcp_size_body [OF assms(1), of p] by (auto split: if_splits)
  have "length (rtcp_pad_bytes p n) = n" using n by (cases n) (auto simp: rtcp_pad_bytes_def)
  moreover have "length (rtcp_body_bytes B p) \<le> rtcp_serialized_size p"
    unfolding rtcp_size_body [OF assms(1), of p]
    by (split if_split) (intro conjI impI le_add1 order.refl)
  ultimately show "rtcp_serialized_size p = length (rtcp_body_bytes B p) + length (rtcp_pad_bytes p n)"
    using assms(2) by linarith
qed

lemma rtcp_parse_bytes:
  assumes B: "big_endian B" and wf: "rtcp_wf p"
  shows "rtcp_parse B (rtcp_bytes B p @ post) = Some (Some p)"
proof -
  define n where "n = rtcp_serialized_size p - length (rtcp_body_bytes B p)"
  note n = rtcp_pad_count [OF B n_def]
  let ?h = "rtcp_header_bytes B p (rtcp_serialized_size p)"
  let ?t = "concat (map (write_report_block B) (rc_blocks p)) @ rc_payload p @ rtcp_pad_bytes p n @ post"
  let ?d = "rtcp_bytes B p @ post"
  have h: "length ?h = 4" using B by (simp add: rtcp_header_bytes_def be_simps)
  note parse = rtcp_parse_header [OF B wf refl, of post]
  have b: "rtcp_bytes B p = rtcp_body_bytes B p @ rtcp_pad_bytes p n"
    by (simp add: rtcp_bytes_def n_def)
  consider "rc_type p = pt_SR" | "rc_type p = pt_RR"
    | "rc_type p = pt_SDES \<or> rc_type p = pt_BYE \<or> rc_type p = pt_APP"
    using wf by (auto simp: rtcp_wf_def)
  then show ?thesis
  proof cases
    case 1
    have d: "?d = (?h @ be32_bytes (rc_ssrc p) @ rtcp_sender_info_bytes B p) @ ?t"
      using 1 B by (simp add: b rtcp_body_bytes_def be_simps)
    have si: "length (rtcp_sender_info_bytes B p) = 20"
      using B by (simp add: rtcp_sender_info_bytes_def be_simps)
    have tot: "rtcp_serialized_size p = 28 + 24 * length (rc_blocks p) + length (rc_payload p)
        + length (rtcp_pad_bytes p n)"
      using n(3) 1 by (simp add: length_rtcp_body [OF B])
    have f: "read_big32_at B ?d 4 = Some (rc_ssrc p)"
      "ntoh32_at B ?d 8 = Some (ucast (drop_bit 32 (rc_ntp_timestamp p)))"
      "ntoh32_at B ?d 12 = Some (ucast (rc_ntp_timestamp p AND 0xFFFFFFFF))"
      "ntoh32_at B ?d 16 = Some (rc_rtp_timestamp p)"
      "ntoh32_at B ?d 20 = Some (rc_sender_packet_count p)"
      "ntoh32_at B ?d 24 = Some (rc_sender_octet_count p)"
      unfolding d using B h by (simp_all add: mem_simps rtcp_sender_info_bytes_def be_simps)
    have rep: "rtcp_parse_reports B ?d (rtcp_serialized_size p) 28 pkt
        = Some (Some (pkt\<lparr>rc_blocks := rc_blocks p, rc_payload := rc_payload p\<rparr>))"
      if "rc_padding pkt = rc_padding p" "rc_report_count pkt = rc_report_count p" for pkt
      using h si 1 that
      by (intro rtcp_parse_reports_write [OF B wf _ _ d tot n(1,2)]) auto
    show ?thesis
      using 1 wf f rep tot unfolding parse Let_def rtcp_parse_sr_def
      by (simp add: ntp_join) (simp add: rtcp_packet_default_def rtcp_wf_def)
  next
    case 2
    have d: "?d = (?h @ be32_bytes (rc_ssrc p)) @ ?t"
      using 2 B by (simp add: b rtcp_body_bytes_def be_simps)
    have tot: "rtcp_serialized_size p = 8 + 24 * length (rc_blocks p) + length (rc_payload p)
        + length (rtcp_pad_bytes p n)"
      using n(3) 2 by (simp add: length_rtcp_body [OF B])
    have f: "read_big32_at B ?d 4 = Some (rc_ssrc p)"
      unfolding d using B h by (simp add: mem_simps)
    have rep: "rtcp_parse_reports B ?d (rtcp_serialized_size p) 8 pkt
        = Some (Some (pkt\<lparr>rc_blocks := rc_blocks p, rc_payload := rc_payload p\<rparr>))"
      if "rc_padding pkt = rc_padding p" "rc_report_count pkt = rc_report_count p" for pkt
      using h 2 that
      by (intro rtcp_parse_reports_write [OF B wf _ _ d tot n(1,2)]) auto
    show ?thesis
      using 2 wf f rep tot unfolding parse Let_def rtcp_parse_rr_def
      by simp (simp add: rtcp_packet_default_def rtcp_wf_def)
  next
    case 3
    then have e: "rc_blocks p = []" "rc_type p \<noteq> pt_SR" "rc_type p \<noteq> pt_RR"
      using wf by (auto simp: rtcp_wf_def)
    have d: "?d = ?h @ rc_payload p @ rtcp_pad_bytes p n @ post"
      using e B by (simp add: b rtcp_body_bytes_def be_simps)
    have tot: "rtcp_serialized_size p = 4 + length (rc_payload p) + length (rtcp_pad_bytes p n)"
      using n(3) e by (simp add: length_rtcp_body [OF B])
    have "rtcp_read_payload (rc_padding p) ?d (rtcp_serialized_size p) 4 = Some (Some (rc_payload p))"
      unfolding d by (rule rtcp_read_payload_write [OF h tot n(1,2)])
    then show ?thesis
      using e wf unfolding parse Let_def
      by simp (simp add: rtcp_packet_default_def rtcp_wf_def)
  qed
qed

text \<open>
  C19: Round trip of sender and receiver reports, source descriptions, BYE and APP packets:
  \<open>write_to\<close> into a buffer that is large enough writes \<open>serialized_size()\<close> bytes (header, report
  blocks, payload and the padding with its count), leaves the rest of the buffer alone, and
  \<open>rtcp_packet::parse\<close> of the buffer gives the packet back.
\<close>
theorem rtcp_write_parse_roundtrip:
  assumes "big_endian B" "rtcp_wf p" "rtcp_serialized_size p \<le> length buf"
  shows "\<exists>out. rtcp_write_to B p buf = Some (out, int (rtcp_serialized_size p)) \<and>
    length out = length buf \<and>
    drop (rtcp_serialized_size p) out = drop (rtcp_serialized_size p) buf \<and>
    rtcp_parse B out = Some (Some p)"
  using rtcp_write_to_eq [OF assms(1,3)] rtcp_parse_bytes [OF assms(1,2)]
    length_rtcp_bytes [OF assms(1), of p] assms(3)
  by simp

definition sample_rr :: rtcp_packet where
  "sample_rr = rtcp_packet_default\<lparr>rc_type := pt_RR, rc_report_count := 1, rc_ssrc := 7,
     rc_blocks := [\<lparr>rb_ssrc = 9, rb_fraction_lost = 64, rb_cumulative_lost = 3,
       rb_ext_highest_seq = 70000, rb_jitter = 5, rb_lsr = 1, rb_dlsr = 2\<rparr>]\<rparr>"

lemma sample_rr_wf: "rtcp_wf sample_rr" "rtcp_serialized_size sample_rr = 32"
  by (simp_all add: rtcp_wf_def rtcp_serialized_size_def sample_rr_def rtcp_packet_default_def
      rb_wf_def)

theorem rtcp_write_parse_roundtrip_witness:
  "\<exists>out. rtcp_write_to network_lib sample_rr (replicate 40 0) = Some (out, 32) \<and>
     length out = 40 \<and> rtcp_parse network_lib out = Some (Some sample_rr)"
  using rtcp_write_parse_roundtrip [OF big_endian_network_lib sample_rr_wf(1), of "replicate 40 0"]
  by (auto simp: sample_rr_wf)

subsection \<open>Compound packets\<close>

lemma parse_compound_nil: "parse_compound B [] = Some []"
  by (subst parse_compound.simps) simp

lemma parse_compound_step:
  assumes "big_endian B" "rtcp_wf p"
  shows "parse_compound B (rtcp_bytes B p @ rest) = map_option ((#) p) (parse_compound B rest)"
proof -
  obtain w where w: "ntoh16_at B (rtcp_bytes B p @ rest) 2 = Some w"
    and n: "(unat w + 1) * 4 = rtcp_serialized_size p" "4 \<le> rtcp_serialized_size p"
    using rtcp_length_field [OF assms] .
  have "rtcp_parse B (rtcp_bytes B p) = Some (Some p)"
    using rtcp_parse_bytes [OF assms, of "[]"] by simp
  then show ?thesis
    using n(2) length_rtcp_bytes [OF assms(1), of p] w
    by (subst parse_compound.simps) (simp only: w n(1) Let_def option.case, simp)
qed

interpretation compound: record_stream "\<lambda>p. big_endian B \<and> rtcp_wf p" "rtcp_bytes B" "parse_compound B"
  for B
  by unfold_locales (simp_all add: parse_compound_nil parse_compound_step)

text \<open>
  A compound datagram, the concatenation of what \<open>write_to\<close> writes for each packet, is split
  by \<open>parse_compound\<close> into exactly those packets, in order.
\<close>
theorem parse_compound_roundtrip:
  assumes "big_endian B" "list_all rtcp_wf ps"
    and "list_all2 (\<lambda>p out. rtcp_write_to B p (replicate (rtcp_serialized_size p) 0)
           = Some (out, int (rtcp_serialized_size p))) ps outs"
  shows "parse_compound B (concat outs) = Some ps"
proof -
  have "outs = map (rtcp_bytes B) ps"
    using assms(3) by (induction) (auto simp: rtcp_write_to_eq [OF assms(1)])
  moreover have "list_all (\<lambda>p. big_endian B \<and> rtcp_wf p) ps"
    using assms(1,2) by (simp add: list_all_iff)
  ultimately show ?thesis by (simp add: compound.many_concat)
qed

theorem parse_compound_roundtrip_witness:
  "parse_compound network_lib (concat (replicate 2 (rtcp_bytes network_lib sample_rr)))
     = Some [sample_rr, sample_rr]"
  using parse_compound_roundtrip [OF big_endian_network_lib, of "[sample_rr, sample_rr]"
      "replicate 2 (rtcp_bytes network_lib sample_rr)"]
  by (simp add: sample_rr_wf rtcp_write_to_eq [OF big_endian_network_lib] numeral_2_eq_2)

subsection \<open>Feedback messages\<close>

text \<open>A feedback packet with the given FCI bytes and \<open>n\<close> bytes of padding, as the parser sees it.\<close>

lemma rtcp_parse_fb_bytes:
  assumes "big_endian B" "ty = pt_RTPFB \<or> ty = pt_PSFB" "(length fci + n) mod 4 = 0"
    and "length fci + n \<le> 0x3FFF0" "drop_bit 5 b0 AND 1 \<noteq> 0 \<longleftrightarrow> n > 0" "n \<le> 4"
  shows "rtcp_parse B ([b0, ty] @ be16_bytes (of_nat ((12 + length fci + n) div 4 - 1))
       @ be32_bytes s @ be32_bytes m @ fci
       @ (if n > 0 then replicate (n - 1) 0 @ [of_nat n] else []) @ post)
    = Some (Some (rtcp_packet_default\<lparr>rc_version := drop_bit 6 b0 AND 3,
        rc_padding := drop_bit 5 b0 AND 1, rc_report_count := b0 AND 31,
        rc_type := ty, rc_media_ssrc := m, rc_payload := fci\<rparr>))"
    (is "rtcp_parse B ?d = _")
proof -
  let ?w = "of_nat ((12 + length fci + n) div 4 - 1) :: u16"
  let ?p = "rtcp_packet_default\<lparr>rc_padding := drop_bit 5 b0 AND 1\<rparr>"
  have "unat ?w = (12 + length fci + n) div 4 - 1"
    using assms(4) by (simp add: unat_of_nat take_bit_nat_eq_self del: of_nat_diff)
  then have tot: "(unat ?w + 1) * 4 = 12 + length fci + n"
    using assms(3) by (simp del: of_nat_diff) presburger
  have pad: "(if n > 0 then replicate (n - 1) 0 @ [of_nat n] else []) = rtcp_pad_bytes ?p n"
    using assms(5) by (simp add: rtcp_pad_bytes_def)
  have len: "length (rtcp_pad_bytes ?p n) = n" by (auto simp flip: pad)
  have r: "rd8 ?d 0 = Some b0" "rd8 ?d 1 = Some ty" by (simp_all add: rd8_def)
  have "rtcp_read_payload (rc_padding ?p) ?d (12 + length fci + n) 12 = Some (Some fci)"
    using rtcp_read_payload_write [of "[b0, ty] @ be16_bytes ?w @ be32_bytes s @ be32_bytes m" 12
        "12 + length fci + n" fci ?p n post] assms(5,6) len
    unfolding pad by (simp add: rtcp_packet_default_def)
  moreover have "ntoh16_at B ?d 2 = Some ?w" "read_big32_at B ?d 8 = Some m"
    using assms(1) by (simp_all add: mem_simps del: of_nat_diff)
  moreover have "12 + length fci + n \<le> length ?d" using len unfolding pad by simp
  ultimately have "rtcp_parse B d = Some (Some (?p\<lparr>rc_version := drop_bit 6 b0 AND 3,
      rc_report_count := b0 AND 31, rc_type := ty, rc_media_ssrc := m, rc_payload := fci\<rparr>))"
    if "d = ?d" for d
    using assms(2) r tot unfolding that [symmetric]
    by (auto simp: rtcp_parse_def rtcp_parse_fb_def rtcp_packet_default_def Let_def
        add.assoc simp del: of_nat_diff)
  then show ?thesis by (simp add: rtcp_packet_default_def)
qed

lemma parse_nack_nil: "parse_nack B [] = Some []"
  by (subst parse_nack.simps) simp

lemma nack_entry_0 [simp]: "nack_entry pid 0 = [pid]"
  by (simp add: nack_entry_def)

lemma parse_nack_step:
  assumes "big_endian B"
  shows "parse_nack B ((be16_bytes pid @ be16_bytes blp) @ rest)
    = map_option ((@) (nack_entry pid blp)) (parse_nack B rest)"
proof -
  have "ntoh16_at B (be16_bytes pid @ be16_bytes blp @ rest) 0 = Some pid"
    "ntoh16_at B (be16_bytes pid @ be16_bytes blp @ rest) 2 = Some blp"
    using assms by (simp_all add: mem_simps)
  then show ?thesis
    by (subst parse_nack.simps) (cases "parse_nack B rest"; simp)
qed

interpretation nack: record_stream "\<lambda>_. big_endian B" "\<lambda>pid. be16_bytes pid @ [0, 0]" "parse_nack B"
  for B
proof (unfold_locales, goal_cases)
  case (2 x rest)
  then show ?case
    using parse_nack_step [of B x 0 rest] by (cases "parse_nack B rest") (simp_all add: be16_bytes_def)
qed (simp add: parse_nack_nil)

text \<open>
  C20: Round trip of a NACK request: \<open>rtcp_rtpfb::bytes\<close> of a list of lost sequence numbers parses as
  a transport feedback packet for the same media source, and \<open>parse_nack\<close> of its payload gives back
  exactly the lost sequence numbers, in order. The \<open>fmt\<close> field has no influence: the message is
  always written with format 1.
\<close>
theorem nack_roundtrip:
  assumes "big_endian B" "length (fb_lost fb) \<le> 0xFFF0"
  shows "\<exists>p. rtcp_parse B (rtpfb_bytes B fb) = Some (Some p) \<and> rc_type p = pt_RTPFB \<and>
    rc_report_count p = 1 \<and> rc_media_ssrc p = fb_media_ssrc fb \<and>
    parse_nack B (rc_payload p) = Some (fb_lost fb)"
proof -
  let ?fci = "concat (map (\<lambda>s. be16_bytes s @ [0, 0]) (fb_lost fb))"
  have len: "length ?fci = 4 * length (fb_lost fb)" by (induction "fb_lost fb") (auto simp: comp_def length_concat sum_list_triv)
  have "parse_nack B ?fci = Some (fb_lost fb)"
    using assms(1) by (intro nack.many_concat) (simp add: list_all_iff)
  moreover have "rtpfb_bytes B fb = [129, pt_RTPFB] @ be16_bytes (of_nat ((12 + length ?fci + 0) div 4 - 1))
      @ be32_bytes (fb_sender_ssrc fb) @ be32_bytes (fb_media_ssrc fb) @ ?fci @ []"
    unfolding len using assms(1) by (simp add: rtpfb_bytes_def be_simps mult.commute)
  moreover have "rtcp_parse B ([129, pt_RTPFB] @ be16_bytes (of_nat ((12 + length ?fci + 0) div 4 - 1))
      @ be32_bytes (fb_sender_ssrc fb) @ be32_bytes (fb_media_ssrc fb) @ ?fci
      @ (if (0::nat) > 0 then replicate (0 - 1) 0 @ [of_nat 0] else []) @ [])
    = Some (Some (rtcp_packet_default\<lparr>rc_version := drop_bit 6 129 AND 3,
        rc_padding := drop_bit 5 129 AND 1, rc_report_count := 129 AND 31,
        rc_type := pt_RTPFB, rc_media_ssrc := fb_media_ssrc fb, rc_payload := ?fci\<rparr>))"
    using assms by (intro rtcp_parse_fb_bytes) (simp_all add: len)
  ultimately show ?thesis by simp
qed

theorem nack_roundtrip_witness:
  "\<exists>p. rtcp_parse network_lib (rtpfb_bytes network_lib
        \<lparr>fb_fmt = 15, fb_sender_ssrc = 1, fb_media_ssrc = 5, fb_lost = [65535, 0, 7]\<rparr>) = Some (Some p) \<and>
     rc_media_ssrc p = 5 \<and> parse_nack network_lib (rc_payload p) = Some [65535, 0, 7]"
  using nack_roundtrip [OF big_endian_network_lib,
      of "\<lparr>fb_fmt = 15, fb_sender_ssrc = 1, fb_media_ssrc = 5, fb_lost = [65535, 0, 7]\<rparr>"]
  by auto

text \<open>
  \<open>rtcp_packet::write_to\<close> does not write the sender and media SSRC of a feedback packet, which
  \<open>parse\<close> requires: of a transport or payload-specific feedback packet that is written and parsed
  again, the first eight bytes of the payload are taken for the two SSRCs, and a payload of less
  than eight bytes makes a packet that is rejected.
\<close>
theorem rtcp_feedback_write_shifts:
  assumes "big_endian B" "rc_type p = pt_RTPFB \<or> rc_type p = pt_PSFB" "rc_version p < 4"
    and "rc_padding p = 0" "rc_report_count p < 32" "rc_blocks p = []"
    and "length (rc_payload p) mod 4 = 0" "length (rc_payload p) \<le> 0x3FFF0"
  shows "\<exists>out. rtcp_write_to B p (replicate (rtcp_serialized_size p) 0)
        = Some (out, int (rtcp_serialized_size p)) \<and>
     (if length (rc_payload p) < 8 then rtcp_parse B out = Some None
      else \<exists>q. rtcp_parse B out = Some (Some q) \<and> rc_type q = rc_type p \<and>
             rc_payload q = drop 8 (rc_payload p) \<and>
             be32_bytes (rc_media_ssrc q) = take 4 (drop 4 (rc_payload p)))"
proof -
  let ?pl = "rc_payload p"
  let ?b0 = "push_bit 6 (rc_version p) OR push_bit 5 (rc_padding p) OR (rc_report_count p AND 31)"
  have size: "rtcp_serialized_size p = 4 + length ?pl"
    using assms(2,4,6) by (auto simp: rtcp_serialized_size_def Let_def)
  have out: "rtcp_bytes B p = [?b0, rc_type p] @ be16_bytes (of_nat ((4 + length ?pl) div 4 - 1)) @ ?pl"
    using assms(1,2,4,6) by (auto simp: rtcp_bytes_def rtcp_body_bytes_def rtcp_header_bytes_def
        rtcp_pad_bytes_def size be_simps)
  have w: "rtcp_write_to B p (replicate (rtcp_serialized_size p) 0)
      = Some (rtcp_bytes B p, int (rtcp_serialized_size p))"
    by (simp add: rtcp_write_to_eq [OF assms(1)])
  have f: "drop_bit 5 ?b0 AND 1 = 0"
    using octet_2_1_5_fields [of "rc_version p" "rc_padding p" "rc_report_count p"] assms(3-5) by simp
  show ?thesis
  proof (cases "length ?pl < 8")
    case True
    let ?w = "of_nat ((4 + length ?pl) div 4 - 1) :: u16"
    have "unat ?w = (4 + length ?pl) div 4 - 1"
      using assms(8) by (simp add: unat_of_nat take_bit_nat_eq_self del: of_nat_diff)
    then have tot: "(unat ?w + 1) * 4 = 4 + length ?pl"
      using assms(7) by (simp del: of_nat_diff) presburger
    have "ntoh16_at B (rtcp_bytes B p) 2 = Some ?w" "rd8 (rtcp_bytes B p) 0 = Some ?b0"
      "rd8 (rtcp_bytes B p) 1 = Some (rc_type p)"
      unfolding out using assms(1) by (simp_all add: mem_simps del: of_nat_diff)
    then have "rtcp_parse B (rtcp_bytes B p) = Some None"
      using True tot assms(2) length_rtcp_bytes [OF assms(1), of p]
      by (auto simp: rtcp_parse_def rtcp_parse_fb_def size Let_def simp del: of_nat_diff)
    with w True show ?thesis by simp
  next
    case False
    have l4: "length (take 4 ?pl) = 4" "length (take 4 (drop 4 ?pl)) = 4" using False by simp_all
    obtain a1 a2 a3 a4 where a: "take 4 ?pl = [a1, a2, a3, a4]" using l4(1) by (rule list4E)
    obtain m1 m2 m3 m4 where m: "take 4 (drop 4 ?pl) = [m1, m2, m3, m4]"
      using l4(2) by (rule list4E)
    have "drop 4 ?pl = take 4 (drop 4 ?pl) @ drop 8 ?pl"
      using append_take_drop_id [of 4 "drop 4 ?pl"] by simp
    then have pl: "?pl = [a1, a2, a3, a4] @ [m1, m2, m3, m4] @ drop 8 ?pl"
      using append_take_drop_id [of 4 ?pl] unfolding a m by simp
    have len: "length (drop 8 ?pl) = length ?pl - 8" by simp
    have e: "be32_bytes (be32 a1 a2 a3 a4) = [a1, a2, a3, a4]" "be32_bytes (be32 m1 m2 m3 m4) = [m1, m2, m3, m4]"
      by simp_all
    have "rtcp_bytes B p = [?b0, rc_type p] @ be16_bytes (of_nat ((12 + length (drop 8 ?pl) + 0) div 4 - 1))
       @ be32_bytes (be32 a1 a2 a3 a4) @ be32_bytes (be32 m1 m2 m3 m4) @ drop 8 ?pl
       @ (if (0::nat) > 0 then replicate (0 - 1) 0 @ [of_nat 0] else []) @ []"
      unfolding out len e using False by (subst pl) (simp add: add.commute del: of_nat_diff)
    moreover have "rtcp_parse B \<dots> = Some (Some (rtcp_packet_default\<lparr>rc_version := drop_bit 6 ?b0 AND 3,
        rc_padding := drop_bit 5 ?b0 AND 1, rc_report_count := ?b0 AND 31,
        rc_type := rc_type p, rc_media_ssrc := be32 m1 m2 m3 m4, rc_payload := drop 8 ?pl\<rparr>))"
      using assms f False by (intro rtcp_parse_fb_bytes) (auto simp: mod_diff_eq)
    ultimately show ?thesis
      using w False by (subst (3) pl) simp
  qed
qed

subsection \<open>Receiver estimated maximum bitrate\<close>

lemma remb_scale_spec:
  fixes br :: u32
  assumes "k \<le> 14" "k = 0 \<or> drop_bit (k - 1) br > 0x3FFFF"
  shows "\<exists>e \<le> 14. remb_scale (drop_bit k br) (of_nat k) = (drop_bit e br, of_nat e) \<and>
    drop_bit e br \<le> 0x3FFFF \<and> (e = 0 \<or> drop_bit (e - 1) br > 0x3FFFF)"
  using assms
proof (induction "14 - k" arbitrary: k)
  case 0
  then have k: "k = 14" by simp
  have "unat br < 2 ^ LENGTH(32)" by (rule unsigned_less)
  then have "unat (drop_bit 14 br) < 2 ^ 18"
    unfolding drop_bit_eq_div unat_div by (intro less_mult_imp_div_less) simp
  then have le: "drop_bit 14 br \<le> 0x3FFFF" by (simp add: word_le_nat_alt)
  then have "\<not> drop_bit 14 br > 0x3FFFF" by (simp only: not_less)
  then have "remb_scale (drop_bit k br) (of_nat k) = (drop_bit 14 br, of_nat 14)"
    unfolding k by (subst remb_scale.simps) (simp only: if_False)
  moreover have "drop_bit (14 - 1) br > 0x3FFFF" using 0 k by simp
  ultimately show ?case using le by (intro exI [of _ 14] conjI disjI2 order.refl)
next
  case (Suc n)
  show ?case
  proof (cases "drop_bit k br > 0x3FFFF")
    case True
    have "remb_scale (drop_bit k br) (of_nat k) = remb_scale (drop_bit (k + 1) br) (of_nat (k + 1))"
      using True by (subst remb_scale.simps) (simp add: add.commute)
    with Suc.hyps(1) [of "k + 1"] Suc.hyps(2) Suc.prems True show ?thesis by auto
  next
    case False
    then have "remb_scale (drop_bit k br) (of_nat k) = (drop_bit k br, of_nat k)"
      by (subst remb_scale.simps) (simp only: if_False)
    with False Suc.prems show ?thesis by (auto simp: not_less)
  qed
qed

lemma remb_fields:
  fixes m :: u32 and e :: u8
  assumes "m \<le> 0x3FFFF" "e < 64"
  shows "drop_bit 2 (push_bit 2 e OR ucast (drop_bit 16 (m AND 0x3FFFF) AND 3)) AND 0x3F = e"
    and "push_bit 16 (ucast ((push_bit 2 e OR ucast (drop_bit 16 (m AND 0x3FFFF) AND 3)) AND 3))
      OR push_bit 8 (ucast (ucast (drop_bit 8 (m AND 0x3FFFF) AND 0xFF) :: u8))
      OR (ucast (ucast ((m AND 0x3FFFF) AND 0xFF) :: u8) :: u32) = m"
proof -
  have k: "(0x3FFFF::u32) = mask 18" "(3::u32) = mask 2" "(3::u8) = mask 2" "(0xFF::u32) = mask 8"
    "(0x3F::u8) = mask 6" by (simp_all add: mask_eq_exp_minus_1)
  have "m < 2 ^ 18" "e < 2 ^ 6" using assms by (simp_all add: word_less_nat_alt word_le_nat_alt)
  note lt = this
  have m: "bit m i \<Longrightarrow> i < 18" for i by (rule bit_less_exp [OF lt(1)])
  have e: "bit e i \<Longrightarrow> i < 6" for i by (rule bit_less_exp [OF lt(2)])
  show "drop_bit 2 (push_bit 2 e OR ucast (drop_bit 16 (m AND 0x3FFFF) AND 3)) AND 0x3F = e"
    unfolding k by (rule bit_word_eqI) (auto simp: bit_simps dest: e)
  show "push_bit 16 (ucast ((push_bit 2 e OR ucast (drop_bit 16 (m AND 0x3FFFF) AND 3)) AND 3))
      OR push_bit 8 (ucast (ucast (drop_bit 8 (m AND 0x3FFFF) AND 0xFF) :: u8))
      OR (ucast (ucast ((m AND 0x3FFFF) AND 0xFF) :: u8) :: u32) = m"
    unfolding k
  proof (rule bit_word_eqI)
    fix n assume "n < LENGTH(32)"
    consider "n < 8" | "8 \<le> n" "n < 16" | "16 \<le> n" "n < 18" | "18 \<le> n" by linarith
    then show "bit (push_bit 16 (ucast ((push_bit 2 e OR ucast (drop_bit 16 (m AND mask 18) AND mask 2)) AND mask 2))
      OR push_bit 8 (ucast (ucast (drop_bit 8 (m AND mask 18) AND mask 8) :: u8))
      OR (ucast (ucast ((m AND mask 18) AND mask 8) :: u8) :: u32)) n = bit m n"
      using m [of n] by cases (auto simp: bit_simps)
  qed
qed

lemma remb_ssrcs:
  assumes "big_endian B"
  shows "map (\<lambda>i. ntoh32 B (take 4 (drop (4 * i) (concat (map be32_bytes ss))))) [0..<length ss] = ss"
proof (induction ss)
  case (Cons s ss)
  have [simp]: "ntoh32 B (be32_bytes s) = s"
    using big_endianD [OF assms] by (simp add: be32_bytes_def)
  with Cons show ?case by (simp add: map_upt_Suc del: upt_Suc)
qed simp

lemma parse_remb_bytes:
  assumes "big_endian B" "length ss < 256"
  shows "parse_remb B ([0x52, 0x45, 0x4D, 0x42, of_nat (length ss), b5, b6, b7] @ concat (map be32_bytes ss))
    = (if unat (drop_bit 2 b5 AND 0x3F) \<ge> 32 then None
       else Some (push_bit (unat (drop_bit 2 b5 AND 0x3F))
         (push_bit 16 (ucast (b5 AND 3)) OR push_bit 8 (ucast b6) OR (ucast b7 :: u32)), ss))"
proof -
  have n: "unat (of_nat (length ss) :: u8) = length ss"
    using assms(2) by (simp add: unat_of_nat take_bit_nat_eq_self)
  show ?thesis
    using remb_ssrcs [OF assms(1), of ss] by (simp add: parse_remb_def n Let_def drop_Cons')
qed

text \<open>
  Round trip of a REMB message with at most 255 sources: the sources come back unchanged; the
  bitrate comes back rounded down to the precision of the 18-bit mantissa, with the smallest
  exponent that makes it fit, so a bitrate below 2^18 is exact. (The shift in the reader is defined on
  every message the writer makes.)
\<close>
theorem remb_roundtrip:
  assumes "big_endian B" "length ssrcs < 256"
  shows "\<exists>e. parse_remb B (pack_remb B bitrate ssrcs) = Some (push_bit e (drop_bit e bitrate), ssrcs) \<and>
    drop_bit e bitrate \<le> 0x3FFFF \<and> (e = 0 \<or> drop_bit (e - 1) bitrate > 0x3FFFF)"
proof -
  obtain e where e: "e \<le> 14" "remb_scale bitrate 0 = (drop_bit e bitrate, of_nat e)"
    "drop_bit e bitrate \<le> 0x3FFFF" "e = 0 \<or> drop_bit (e - 1) bitrate > 0x3FFFF"
    using remb_scale_spec [of 0 bitrate] by auto
  have e8: "unat (of_nat e :: u8) = e" using e(1) by (simp add: unat_of_nat take_bit_nat_eq_self)
  then have "(of_nat e :: u8) < 64" using e(1) by (simp add: word_less_nat_alt)
  note f = remb_fields [OF e(3) this]
  have "parse_remb B (pack_remb B bitrate ssrcs) = Some (push_bit e (drop_bit e bitrate), ssrcs)"
    using parse_remb_bytes [OF assms] assms(1)
    unfolding pack_remb_def e(2) Let_def prod.case be_simps(8) [OF assms(1)]
    by (simp only: f e8) (use e(1) in simp)
  with e show ?thesis by blast
qed

theorem remb_roundtrip_witness:
  "\<exists>e. parse_remb network_lib (pack_remb network_lib 2500000 [1, 2]) =
     Some (push_bit e (drop_bit e 2500000), [1, 2])"
  using remb_roundtrip [OF big_endian_network_lib, of "[1, 2]" 2500000] by auto

subsection \<open>Transport-wide feedback\<close>

text \<open>The seven two-bit symbols of a status vector chunk, first packet first.\<close>

definition chunk_symbols :: "u16 \<Rightarrow> u16 list" where
  "chunk_symbols c = map (\<lambda>i. drop_bit (12 - 2 * i) c AND 3) [0..<7]"

lemma tcc_symbol_bits: "bit (tcc_symbol s) k \<Longrightarrow> k < 2"
  by (cases s) (auto simp: bit_simps bit_1_iff bit_numeral_rec split: nat.splits)

lemma bit_tcc_fill_chunk:
  assumes "2 * length ps \<le> b + 2" "k < 16"
  shows "bit (tcc_fill_chunk c b ps) k \<longleftrightarrow>
    bit c k \<or> (\<exists>j < length ps. b - 2 * j \<le> k \<and> bit (tcc_symbol (ti_status (ps ! j))) (k - (b - 2 * j)))"
  using assms
proof (induction ps arbitrary: b c)
  case (Cons p ps)
  show ?case
  proof (cases ps)
    case Nil
    with Cons.prems show ?thesis by (auto simp: bit_simps)
  next
    case (Cons q qs)
    then have b: "2 * length ps \<le> b - 2 + 2" using Cons.prems by simp
    have "bit (tcc_fill_chunk c b (p # ps)) k \<longleftrightarrow>
      (bit c k \<or> b \<le> k \<and> bit (tcc_symbol (ti_status p)) (k - b)) \<or>
      (\<exists>j < length ps. b - 2 - 2 * j \<le> k \<and> bit (tcc_symbol (ti_status (ps ! j))) (k - (b - 2 - 2 * j)))"
      using Cons.IH [OF b Cons.prems(2)] Cons.prems(2) by (auto simp: bit_simps)
    also have "\<dots> \<longleftrightarrow> bit c k \<or> (\<exists>j < length (p # ps). b - 2 * j \<le> k \<and>
        bit (tcc_symbol (ti_status ((p # ps) ! j))) (k - (b - 2 * j)))"
      by (subst Ex_less_Suc2 [of "length ps", folded length_Cons [of p ps]]) (auto simp: disj_assoc)
    finally show ?thesis .
  qed
qed simp

lemma chunk_symbol_nth:
  assumes "length ps \<le> 7" "i < 7"
  shows "drop_bit (12 - 2 * i) (tcc_fill_chunk 0xC000 12 ps) AND 3 =
    (if i < length ps then tcc_symbol (ti_status (ps ! i)) else 0)"
proof (rule bit_word_eqI)
  fix k assume k: "k < LENGTH(16)"
  let ?w = "drop_bit (12 - 2 * i) (tcc_fill_chunk 0xC000 12 ps) AND 3"
  have m: "(3::u16) = mask 2" by (simp add: mask_eq_exp_minus_1)
  have "bit ?w k \<longleftrightarrow> k < 2 \<and> bit (tcc_fill_chunk 0xC000 12 ps) (12 - 2 * i + k)"
    using k unfolding m by (auto simp: bit_simps)
  also have "\<dots> \<longleftrightarrow> k < 2 \<and> i < length ps \<and> bit (tcc_symbol (ti_status (ps ! i))) k"
  proof (cases "k < 2")
    case True
    have c: "\<not> bit (0xC000::u16) (12 - 2 * i + k)"
    proof -
      have "(0xC000::u16) = push_bit 14 3" by simp
      moreover have "12 - 2 * i + k < 14" using True by simp
      ultimately show ?thesis by (simp only: bit_push_bit_iff)  simp
    qed
    have j: "12 - 2 * j \<le> 12 - 2 * i + k \<and> bit (tcc_symbol s) (12 - 2 * i + k - (12 - 2 * j)) \<longleftrightarrow>
        j = i \<and> bit (tcc_symbol s) k" if "j < length ps" for j s
    proof (cases "j = i")
      case False
      then consider "j < i" | "i < j" by linarith
      then show ?thesis
        using True that assms False
        by cases (auto dest: tcc_symbol_bits)
    qed simp
    have "bit (tcc_fill_chunk 0xC000 12 ps) (12 - 2 * i + k) \<longleftrightarrow>
        (\<exists>j < length ps. 12 - 2 * j \<le> 12 - 2 * i + k \<and>
           bit (tcc_symbol (ti_status (ps ! j))) (12 - 2 * i + k - (12 - 2 * j)))"
      using assms True c by (subst bit_tcc_fill_chunk) simp_all
    also have "\<dots> \<longleftrightarrow> (\<exists>j < length ps. j = i \<and> bit (tcc_symbol (ti_status (ps ! j))) k)"
      by (intro ex_cong1 conj_cong refl j)
    finally have "bit (tcc_fill_chunk 0xC000 12 ps) (12 - 2 * i + k) \<longleftrightarrow>
        (\<exists>j < length ps. j = i \<and> bit (tcc_symbol (ti_status (ps ! j))) k)" .
    with True show ?thesis by auto
  qed simp
  finally show "bit ?w k = bit (if i < length ps then tcc_symbol (ti_status (ps ! i)) else 0) k"
    using tcc_symbol_bits by auto
qed

lemma chunk_symbols_fill:
  assumes "length ps \<le> 7"
  shows "chunk_symbols (tcc_fill_chunk 0xC000 12 ps)
    = map (\<lambda>p. tcc_symbol (ti_status p)) ps @ replicate (7 - length ps) 0"
  using assms by (intro nth_equalityI) (auto simp: chunk_symbols_def chunk_symbol_nth nth_append)

text \<open>
  Every chunk that \<open>tcc_build_packet_status\<close> writes is a status vector of seven two-bit
  symbols: read back in order they are the statuses of the packets, followed only by zeros
  (\<open>not_received\<close>) in the last chunk, one chunk per seven packets.
\<close>
theorem tcc_chunks_decode:
  "concat (map chunk_symbols (tcc_chunks ps)) =
     map (\<lambda>p. tcc_symbol (ti_status p)) ps @ replicate (7 * length (tcc_chunks ps) - length ps) 0 \<and>
   length (tcc_chunks ps) = (length ps + 6) div 7"
proof (induction ps rule: tcc_chunks.induct)
  case (1 ps)
  show ?case
  proof (cases "length ps \<le> 7")
    case True
    then show ?thesis
      by (cases "ps = []") (simp_all add: tcc_chunks.simps [of ps] tcc_chunks.simps [of "[]"]
          chunk_symbols_fill [of ps], cases ps, simp_all)
  next
    case False
    then have "ps \<noteq> []" by auto
    then have t: "tcc_chunks ps = tcc_fill_chunk 0xC000 12 (take 7 ps) # tcc_chunks (drop 7 ps)"
      by (simp add: tcc_chunks.simps [of ps])
    have "length ps + 6 = (length ps - 7 + 6) + 7" using False by simp
    then have len: "(length ps + 6) div 7 = Suc ((length ps - 7 + 6) div 7)"
      by (metis div_add_self2 Suc_eq_plus1 zero_neq_numeral)
    let ?f = "\<lambda>p. tcc_symbol (ti_status p)" and ?m = "length (tcc_chunks (drop 7 ps))"
    have IH: "concat (map chunk_symbols (tcc_chunks (drop 7 ps))) =
        map ?f (drop 7 ps) @ replicate (7 * ?m - (length ps - 7)) 0" "?m = (length ps - 7 + 6) div 7"
      using 1 [OF \<open>ps \<noteq> []\<close>, unfolded length_drop] by (rule conjunct1, rule conjunct2)
    have c: "chunk_symbols (tcc_fill_chunk 0xC000 12 (take 7 ps)) = map ?f (take 7 ps)"
      using False by (subst chunk_symbols_fill) simp_all
    have "concat (map chunk_symbols (tcc_chunks ps)) =
        map ?f (take 7 ps @ drop 7 ps) @ replicate (7 * ?m - (length ps - 7)) 0"
      by (simp only: t list.map concat.simps c IH(1) map_append append_assoc)
    also have "7 * ?m - (length ps - 7) = 7 * length (tcc_chunks ps) - length ps"
      using False by (simp add: t)
    finally show ?thesis using IH(2) len by (simp only: append_take_drop_id t length_Cons simp_thms)
  qed
qed

text \<open>
  A transport-wide feedback message is always a whole number of words, and the parser reads it
  as transport feedback of format 15 about the right media source, with exactly the feedback control
  information as its payload: the zero fill is announced as padding and stripped again.
\<close>
theorem transport_cc_roundtrip:
  assumes "big_endian B" "length (tc_packet_chunks fb) \<le> 0x30000"
  shows "length (build_transport_cc B fb) mod 4 = 0 \<and>
    (\<exists>p. rtcp_parse B (build_transport_cc B fb) = Some (Some p) \<and> rc_type p = pt_RTPFB \<and>
       rc_report_count p = 15 \<and> rc_media_ssrc p = tc_media_ssrc fb \<and>
       rc_payload p = transport_cc_fci B fb)"
proof -
  let ?fci = "transport_cc_fci B fb"
  define n where "n = (4 - (8 + 4 + length ?fci) mod 4) mod 4"
  define b0 :: u8 where "b0 = (if n > 0 then 175 else 143)"
  have flen: "length ?fci = 8 + length (tc_packet_chunks fb)"
    using assms(1) by (simp add: transport_cc_fci_def be_simps)
  have "n < 4" by (simp add: n_def)
  moreover have "(8 + 4 + length ?fci + n) mod 4 = 0" unfolding n_def by (rule fill4)
  then have "(length ?fci + n) mod 4 = 0" by presburger
  ultimately have n: "n < 4" "(length ?fci + n) mod 4 = 0" .
  have eq: "build_transport_cc B fb = [b0, pt_RTPFB] @ be16_bytes (of_nat ((12 + length ?fci + n) div 4 - 1))
      @ be32_bytes (tc_sender_ssrc fb) @ be32_bytes (tc_media_ssrc fb) @ ?fci
      @ (if n > 0 then replicate (n - 1) 0 @ [of_nat n] else []) @ []"
    using assms(1)
    by (simp add: build_transport_cc_def Let_def be_simps b0_def del: of_nat_diff flip: n_def)
       (simp add: n_def)
  have "rtcp_parse B (build_transport_cc B fb) = Some (Some (rtcp_packet_default\<lparr>rc_version := drop_bit 6 b0 AND 3,
        rc_padding := drop_bit 5 b0 AND 1, rc_report_count := b0 AND 31,
        rc_type := pt_RTPFB, rc_media_ssrc := tc_media_ssrc fb, rc_payload := ?fci\<rparr>))"
    unfolding eq using assms n flen by (intro rtcp_parse_fb_bytes) (auto simp: b0_def)
  moreover have "length (build_transport_cc B fb) = 12 + (length ?fci + n)"
    unfolding eq by simp
  then have "length (build_transport_cc B fb) mod 4 = 0" using n(2) by presburger
  ultimately show ?thesis by (simp add: b0_def)
qed

definition sample_tcc :: transport_cc_feedback where
  "sample_tcc = \<lparr>tc_sender_ssrc = 1, tc_media_ssrc = 2, tc_base_seq = 10, tc_status_count = 3,
     tc_reference_time = 77, tc_feedback_packet_count = 1,
     tc_packet_chunks = tcc_build_packet_status network_lib
       [\<lparr>ti_status = small_delta, ti_delta = 4\<rparr>, \<lparr>ti_status = not_received, ti_delta = 0\<rparr>,
        \<lparr>ti_status = large_delta, ti_delta = 1000\<rparr>]\<rparr>"

theorem transport_cc_roundtrip_witness:
  "\<exists>p. rtcp_parse network_lib (build_transport_cc network_lib sample_tcc) = Some (Some p) \<and>
     rc_payload p = transport_cc_fci network_lib sample_tcc"
proof -
  have "length (tc_packet_chunks sample_tcc) \<le> 0x30000"
    by (simp add: sample_tcc_def tcc_build_packet_status_def tcc_chunks.simps
        be_simps(6) [OF big_endian_network_lib])
  from transport_cc_roundtrip [OF big_endian_network_lib this] show ?thesis by auto
qed

text \<open>
  A source description is a whole number of words with a correct length field: the parser reads
  back one chunk that holds the SSRC, the CNAME item and the terminating zeros.
\<close>
theorem sdes_roundtrip:
  assumes "big_endian B" "length cname < 256"
  shows "\<exists>p k. rtcp_parse B (sdes_bytes B ssrc cname) = Some (Some p) \<and> rc_type p = pt_SDES \<and>
    rc_report_count p = 1 \<and> 2 \<le> k \<and> k < 6 \<and>
    rc_payload p = be32_bytes ssrc @ [1, of_nat (length cname)] @ cname @ replicate k 0"
proof -
  let ?c = "be32_bytes ssrc @ [1, of_nat (length cname)] @ cname @ [0, 0]"
  let ?k = "(4 - length ?c mod 4) mod 4"
  let ?d = "?c @ replicate ?k 0"
  let ?w = "of_nat ((4 + length ?d) div 4 - 1) :: u16"
  let ?s = "sdes_bytes B ssrc cname"
  have len: "length ?d = 8 + length cname + ?k" by simp
  have k: "?k < 4" by simp
  have m4: "length ?d mod 4 = 0" unfolding length_append [of ?c] length_replicate by (rule fill4)
  have s: "?s = [129, pt_SDES] @ be16_bytes ?w @ ?d"
    using assms(1) by (simp add: sdes_bytes_def pad_to_word_def Let_def be_simps del: of_nat_diff)
  have "unat ?w = (4 + length ?d) div 4 - 1"
    using assms(2) k unfolding len by (simp add: unat_of_nat take_bit_nat_eq_self del: of_nat_diff)
  then have tot: "(unat ?w + 1) * 4 = 4 + length ?d"
    using m4 by (simp del: of_nat_diff length_append) presburger
  have "rd8 ?s 0 = Some 129" "rd8 ?s 1 = Some pt_SDES" "ntoh16_at B ?s 2 = Some ?w"
    using assms(1) unfolding s by (simp_all add: mem_simps del: of_nat_diff length_append)
  moreover have "rtcp_read_payload 0 ?s (4 + length ?d) 4 = Some (Some ?d)"
    unfolding s by (simp add: rtcp_read_payload_def rd_bytes_def)
  moreover have "length ?s = 4 + length ?d" unfolding s by simp
  ultimately have "rtcp_parse B ?s = Some (Some (rtcp_packet_default\<lparr>rc_report_count := 1,
      rc_type := pt_SDES, rc_payload := ?d\<rparr>))"
    unfolding rtcp_parse_def tot
    by (simp only: Option.bind.bind_lunit Let_def tot) (simp add: rtcp_packet_default_def)
  moreover have "?d = be32_bytes ssrc @ [1, of_nat (length cname)] @ cname @ replicate (2 + ?k) 0"
    by (simp add: replicate_add numeral_2_eq_2)
  ultimately show ?thesis
    using k by (intro exI [of _ "rtcp_packet_default\<lparr>rc_report_count := 1, rc_type := pt_SDES, rc_payload := ?d\<rparr>"]
        exI [of _ "2 + ?k"]) simp
qed

theorem sdes_roundtrip_witness:
  "\<exists>p k. rtcp_parse network_lib (sdes_bytes network_lib 7 [97, 98]) = Some (Some p) \<and>
     rc_payload p = be32_bytes 7 @ [1, 2] @ [97, 98] @ replicate k 0"
  using sdes_roundtrip [OF big_endian_network_lib, of "[97, 98]" 7] by auto

theorem rtcp_feedback_write_shifts_witness:
  "\<exists>out. rtcp_write_to network_lib
        (rtcp_packet_default\<lparr>rc_type := pt_PSFB, rc_report_count := 1, rc_ssrc := 3, rc_media_ssrc := 4\<rparr>)
        (replicate 4 0) = Some (out, 4) \<and> rtcp_parse network_lib out = Some None"
proof -
  let ?p = "rtcp_packet_default\<lparr>rc_type := pt_PSFB, rc_report_count := 1, rc_ssrc := 3, rc_media_ssrc := 4\<rparr>"
  have "rtcp_serialized_size ?p = 4"
    by (simp add: rtcp_serialized_size_def rtcp_packet_default_def)
  then show ?thesis
    using rtcp_feedback_write_shifts [OF big_endian_network_lib, of ?p]
    by (simp add: rtcp_packet_default_def)
qed

end
