(* ===== verification/Jitter.thy ===== *)
theory Jitter
  imports Rtp
begin

text \<open>
  The reordering buffer of a receiver, \<open>src/jitter_buffer.cpp\<close>. The \<open>std::map\<close> from extended
  sequence numbers to packets is a list of pairs with strictly ascending keys, so that
  \<open>begin()\<close> is its head. Instants of the steady clock are integers in nanoseconds; the delay is
  in milliseconds, as in the code. \<open>pop_frame\<close> reads the clock at most twice, once for the gap
  (\<open>now1\<close>) and once for the video wait (\<open>now2\<close>).
\<close>

type_synonym jb_map = "(u32 \<times> rtp_packet) list"

record jitter_buffer =
  jb_sorted :: jb_map
  jb_next :: u32
  jb_first :: bool
  jb_max_delay :: int
  jb_gap_start :: "int option"
  jb_video_wait :: "int option"
  jb_is_video :: bool

definition jitter_buffer_new :: "int \<Rightarrow> bool \<Rightarrow> jitter_buffer" where
  "jitter_buffer_new max_delay is_video =
     \<lparr>jb_sorted = [], jb_next = 0, jb_first = True, jb_max_delay = max_delay,
      jb_gap_start = None, jb_video_wait = None, jb_is_video = is_video\<rparr>"

definition ms_ns :: "int \<Rightarrow> int" where
  "ms_ns ms = ms * 1000000"

definition extend_seq :: "u16 \<Rightarrow> u32 \<Rightarrow> u32" where
  "extend_seq seq prev =
     (let extended = (prev AND 0xFFFF0000) OR ucast seq
      in if extended + 0x8000 < prev then extended + 0x10000 else extended)"

text \<open>\<open>find\<close> and \<open>emplace\<close> of the map.\<close>

definition map_find :: "u32 \<Rightarrow> jb_map \<Rightarrow> rtp_packet option" where
  "map_find k m = map_of m k"

fun map_emplace :: "u32 \<Rightarrow> rtp_packet \<Rightarrow> jb_map \<Rightarrow> jb_map" where
  "map_emplace k p [] = [(k, p)]"
| "map_emplace k p ((k', q) # m) =
     (if k < k' then (k, p) # (k', q) # m
      else if k = k' then (k', q) # m
      else (k', q) # map_emplace k p m)"

definition jb_push :: "rtp_packet \<Rightarrow> jitter_buffer \<Rightarrow> jitter_buffer" where
  "jb_push pkt s =
     (let extended = extend_seq (rp_sequence_number pkt) (jb_next s)
      in if jb_first s \<and> rp_payload pkt = [] then s
         else (let s = (if jb_first s then s\<lparr>jb_first := False, jb_next := extended\<rparr> else s)
               in if extended < jb_next s then s
                  else if map_find extended (jb_sorted s) \<noteq> None then s
                  else s\<lparr>jb_sorted := map_emplace extended pkt (jb_sorted s)\<rparr>))"

text \<open>
  The forward scan: the packets with consecutive keys from \<open>next_expected\<close> and the time stamp
  \<open>ts\<close>, the first number behind them and the position where the scan stops (the rest of the map).
\<close>

fun jb_scan :: "u32 \<Rightarrow> u32 \<Rightarrow> jb_map \<Rightarrow> rtp_packet list \<times> u32 \<times> jb_map" where
  "jb_scan ts next_expected [] = ([], next_expected, [])"
| "jb_scan ts next_expected ((k, p) # m) =
     (if k = next_expected \<and> rp_timestamp p = ts
      then (let (ps, n, rest) = jb_scan ts (next_expected + 1) m in (p # ps, n, rest))
      else ([], next_expected, (k, p) # m))"

text \<open>
  \<open>pop_frame\<close> from the point where the first entry is the expected packet. The test for an
  unfinished frame repeats the loop condition of the scan, as the code has it.
\<close>

definition jb_take_frame :: "int \<Rightarrow> jitter_buffer \<Rightarrow> rtp_packet list \<times> jitter_buffer" where
  "jb_take_frame now2 s =
     (let s = s\<lparr>jb_gap_start := None\<rparr>
      in case jb_sorted s of [] \<Rightarrow> ([], s) | (_, p) # _ \<Rightarrow>
        (let ts = rp_timestamp p;
             (packets, next_expected, rest) = jb_scan ts (jb_next s) (jb_sorted s);
             done = s\<lparr>jb_next := next_expected, jb_sorted := rest\<rparr>
         in if (case rest of (k, q) # _ \<Rightarrow> k = next_expected \<and> rp_timestamp q = ts | [] \<Rightarrow> False)
            then ([], s)
            else if jb_is_video s \<and> rest = []
            then (let start = (case jb_video_wait s of None \<Rightarrow> now2 | Some t \<Rightarrow> t)
                  in if now2 - start < ms_ns (jb_max_delay s div 2)
                     then ([], s\<lparr>jb_video_wait := Some start\<rparr>)
                     else (packets, done\<lparr>jb_video_wait := Some start\<rparr>))
            else (packets, done\<lparr>jb_video_wait := None\<rparr>)))"

function jb_pop_frame :: "int \<Rightarrow> int \<Rightarrow> jitter_buffer \<Rightarrow> rtp_packet list \<times> jitter_buffer" where
  "jb_pop_frame now1 now2 s =
     (case jb_sorted s of [] \<Rightarrow> ([], s) | (extended, _) # later \<Rightarrow>
       (if extended > jb_next s
        then (let start = (case jb_gap_start s of None \<Rightarrow> now1 | Some t \<Rightarrow> t)
              in if now1 - start \<ge> ms_ns (jb_max_delay s)
                 then jb_take_frame now2 (s\<lparr>jb_next := extended, jb_gap_start := None\<rparr>)
                 else ([], s\<lparr>jb_gap_start := Some start\<rparr>))
        else if extended < jb_next s then jb_pop_frame now1 now2 (s\<lparr>jb_sorted := later\<rparr>)
        else jb_take_frame now2 s))"
  by pat_completeness auto
termination
  by (relation "measure (\<lambda>(_, _, s). length (jb_sorted s))") auto

declare jb_pop_frame.simps [simp del]

definition jb_reset :: "jitter_buffer \<Rightarrow> jitter_buffer" where
  "jb_reset s = s\<lparr>jb_sorted := [], jb_next := 0, jb_first := True, jb_gap_start := None,
                  jb_video_wait := None\<rparr>"

section \<open>The invariant\<close>

text \<open>
  Keys ascend and are not below the next expected number, every key extends the sequence number of
  its packet, and nothing is stored before the first packet.
\<close>

definition jb_inv :: "jitter_buffer \<Rightarrow> bool" where
  "jb_inv s \<longleftrightarrow>
     sorted_wrt (<) (map fst (jb_sorted s)) \<and>
     (\<forall>(k, p) \<in> set (jb_sorted s). jb_next s \<le> k \<and> ucast k = rp_sequence_number p) \<and>
     (jb_first s \<longrightarrow> jb_sorted s = [])"

lemma ucast_extend_seq: "(ucast (extend_seq seq prev) :: u16) = seq"
proof -
  have m: "(0xFFFF0000::u32) = NOT (mask 16)" "(0x10000::u32) = push_bit 16 1"
    by (simp_all add: mask_eq_exp_minus_1)
  have low: "(ucast ((prev AND 0xFFFF0000) OR ucast seq :: u32) :: u16) = seq"
    unfolding m by (rule bit_word_eqI) (auto simp: bit_simps)
  have "(ucast (w + 0x10000 :: u32) :: u16) = ucast w" for w :: u32
    by transfer (simp add: take_bit_eq_mod mod_mod_cancel)
  then show ?thesis using low by (simp add: extend_seq_def Let_def)
qed

lemma set_map_emplace:
  "map_find k m = None \<Longrightarrow> set (map_emplace k p m) = insert (k, p) (set m)"
  by (induction k p m rule: map_emplace.induct) (auto simp: map_find_def split: if_splits)

lemma sorted_map_emplace:
  "sorted_wrt (<) (map fst m) \<Longrightarrow> sorted_wrt (<) (map fst (map_emplace k p m))"
proof (induction k p m rule: map_emplace.induct)
  case (2 k p k' q m)
  have "fst ` set (map_emplace k p m) \<subseteq> insert k (fst ` set m)" for k p m
    by (induction k p m rule: map_emplace.induct) auto
  with 2 show ?case by (auto simp: not_less) fastforce+
qed simp

lemma jb_inv_new: "jb_inv (jitter_buffer_new d v)"
  by (simp add: jb_inv_def jitter_buffer_new_def)

lemma jb_inv_reset: "jb_inv (jb_reset s)"
  by (simp add: jb_inv_def jb_reset_def)

lemma jb_inv_push:
  assumes "jb_inv s"
  shows "jb_inv (jb_push p s)"
proof -
  have ins: "jb_inv (t\<lparr>jb_sorted := map_emplace k p (jb_sorted t)\<rparr>)"
    if "jb_inv t" "\<not> jb_first t" "\<not> k < jb_next t" "map_find k (jb_sorted t) = None"
      "ucast k = rp_sequence_number p" for t k
    using that by (auto simp: jb_inv_def sorted_map_emplace set_map_emplace)
  have first: "jb_inv (s\<lparr>jb_first := False, jb_next := k\<rparr>)" if "jb_first s" for k
    using assms that by (simp add: jb_inv_def)
  show ?thesis
    using assms first ins [of "s\<lparr>jb_first := False, jb_next := extend_seq (rp_sequence_number p) (jb_next s)\<rparr>"]
      ins [of s]
    by (auto simp: jb_push_def Let_def ucast_extend_seq)
qed

lemma jb_scan_spec:
  assumes "jb_scan ts n m = (ps, n', rest)"
  shows "\<exists>es. m = es @ rest \<and> ps = map snd es \<and> map fst es = map (\<lambda>i. n + of_nat i) [0..<length es] \<and>
    n' = n + of_nat (length es) \<and> (\<forall>p \<in> set ps. rp_timestamp p = ts) \<and>
    (\<forall>q r. rest = (n', q) # r \<longrightarrow> rp_timestamp q \<noteq> ts)"
  using assms
proof (induction ts n m arbitrary: ps rule: jb_scan.induct)
  case (2 ts n k p m)
  show ?case
  proof (cases "k = n \<and> rp_timestamp p = ts")
    case True
    obtain qs where r: "jb_scan ts (n + 1) m = (qs, n', rest)" and ps: "ps = p # qs"
      using 2(2) True by (auto split: prod.splits)
    from 2(1) [OF True r] obtain es where es: "m = es @ rest" "qs = map snd es"
      "map fst es = map (\<lambda>i. n + 1 + of_nat i) [0..<length es]" "n' = n + 1 + of_nat (length es)"
      "\<forall>p \<in> set qs. rp_timestamp p = ts"
      "(\<forall>q r. rest = (n', q) # r \<longrightarrow> rp_timestamp q \<noteq> ts)"
      by blast
    have "map fst ((k, p) # es) = map (\<lambda>i. n + of_nat i) [0..<length ((k, p) # es)]"
      using True es(3) by (simp add: map_upt_Suc ac_simps del: upt_Suc)
    with es True ps show ?thesis
      by (intro exI [of _ "(k, p) # es"]) (simp add: ac_simps)
  next
    case False
    then have "ps = []" "n' = n" "rest = (k, p) # m"
      using 2(2) by (auto split: if_splits)
    with False show ?thesis by (intro exI [of _ "[]"]) auto
  qed
qed auto

text \<open>What \<open>jb_take_frame\<close> does when the first entry is the expected packet.\<close>

lemma jb_take_frame_spec:
  assumes "jb_take_frame now2 s = (ps, s')" "jb_sorted s = (jb_next s, p) # m"
  shows "(ps = [] \<and> jb_sorted s' = jb_sorted s \<and> jb_next s' = jb_next s \<and> jb_is_video s \<or>
     (\<exists>es. es \<noteq> [] \<and> jb_sorted s = es @ jb_sorted s' \<and> ps = map snd es \<and>
       map fst es = map (\<lambda>i. jb_next s + of_nat i) [0..<length es] \<and>
       (\<forall>q \<in> set ps. rp_timestamp q = rp_timestamp p) \<and>
       jb_next s' = jb_next s + of_nat (length es) \<and>
       (\<forall>q r. jb_sorted s' = (jb_next s', q) # r \<longrightarrow> rp_timestamp q \<noteq> rp_timestamp p)))
     \<and> jb_first s' = jb_first s"
proof -
  obtain qs n' rest where sc: "jb_scan (rp_timestamp p) (jb_next s) (jb_sorted s) = (qs, n', rest)"
    by (metis prod_cases3)
  from jb_scan_spec [OF sc] obtain es where es: "jb_sorted s = es @ rest" "qs = map snd es"
      "map fst es = map (\<lambda>i. jb_next s + of_nat i) [0..<length es]" "n' = jb_next s + of_nat (length es)"
      "\<forall>q \<in> set qs. rp_timestamp q = rp_timestamp p"
      "(\<forall>q r. rest = (n', q) # r \<longrightarrow> rp_timestamp q \<noteq> rp_timestamp p)"
    by blast
  have "es \<noteq> []" using es(1,4,6) assms(2) by auto
  define start where "start = (case jb_video_wait s of None \<Rightarrow> now2 | Some t \<Rightarrow> t)"
  let ?d = "s\<lparr>jb_gap_start := None, jb_next := n', jb_sorted := rest\<rparr>"
  have "jb_take_frame now2 s =
     (if jb_is_video s \<and> rest = []
      then if now2 - start < ms_ns (jb_max_delay s div 2)
        then ([], s\<lparr>jb_gap_start := None, jb_video_wait := Some start\<rparr>)
        else (qs, ?d\<lparr>jb_video_wait := Some start\<rparr>)
      else (qs, ?d\<lparr>jb_video_wait := None\<rparr>))"
    using es(6) sc [unfolded assms(2)]
    by (auto simp: jb_take_frame_def assms(2) Let_def start_def split: list.splits)
  then consider "ps = []" "jb_sorted s' = jb_sorted s" "jb_next s' = jb_next s" "jb_is_video s"
      "jb_first s' = jb_first s"
    | "ps = qs" "jb_sorted s' = rest" "jb_next s' = n'" "jb_first s' = jb_first s"
    using assms(1) by (auto split: if_splits)
  then show ?thesis
  proof cases
    case 2
    with es \<open>es \<noteq> []\<close> show ?thesis by (intro conjI disjI2 exI [of _ es]) simp_all
  qed simp
qed

text \<open>
  One call of \<open>pop_frame\<close> on a buffer that satisfies the invariant: either nothing is delivered and
  nothing leaves the buffer, or the first entries \<open>es\<close> leave it, and they are a complete run.
\<close>

definition jb_popped :: "jitter_buffer \<Rightarrow> jb_map \<Rightarrow> jitter_buffer \<Rightarrow> bool" where
  "jb_popped s es s' \<longleftrightarrow>
     jb_sorted s = es @ jb_sorted s' \<and>
     map fst es = map (\<lambda>i. fst (hd es) + of_nat i) [0..<length es] \<and>
     (\<forall>(_, p) \<in> set es. rp_timestamp p = rp_timestamp (snd (hd es))) \<and>
     (es \<noteq> [] \<longrightarrow> jb_next s \<le> fst (hd es) \<and> jb_next s' = fst (hd es) + of_nat (length es) \<and>
        (\<forall>q r. jb_sorted s' = (jb_next s', q) # r \<longrightarrow> rp_timestamp q \<noteq> rp_timestamp (snd (hd es)))) \<and>
     (es = [] \<longrightarrow> jb_next s' = jb_next s \<or> jb_sorted s \<noteq> [] \<and> jb_next s' = fst (hd (jb_sorted s))) \<and>
     jb_first s' = jb_first s"

lemma jb_pop_frame_popped:
  assumes "jb_inv s" "jb_pop_frame now1 now2 s = (ps, s')"
  shows "\<exists>es. ps = map snd es \<and> jb_popped s es s'"
proof (cases "jb_sorted s")
  case Nil
  with assms(2) show ?thesis
    by (auto simp: jb_pop_frame.simps [of _ _ s] jb_popped_def)
next
  case (Cons kp m)
  obtain k p where kp: "kp = (k, p)" by (cases kp)
  have le: "jb_next s \<le> k" using assms(1) Cons kp by (auto simp: jb_inv_def)
  have take: "\<exists>es. ps = map snd es \<and> jb_popped s es s'"
    if t: "jb_take_frame now2 t = (ps, s')" "jb_sorted t = jb_sorted s" "jb_next t = k"
      "jb_first t = jb_first s" for t
  proof -
    have st: "jb_sorted t = (jb_next t, p) # m" using t Cons kp by simp
    from jb_take_frame_spec [OF t(1) st] show ?thesis
    proof (elim conjE disjE exE, goal_cases)
      case 1
      then show ?case using t Cons kp by (intro exI [of _ "[]"]) (simp add: jb_popped_def)
    next
      case (2 es)
      then have "hd es = (k, p)" using Cons kp t by (cases es) auto
      with 2 le t show ?case by (intro exI [of _ es]) (auto simp: jb_popped_def)
    qed
  qed
  show ?thesis
  proof (cases "k > jb_next s")
    case True
    define start where "start = (case jb_gap_start s of None \<Rightarrow> now1 | Some t \<Rightarrow> t)"
    have "jb_pop_frame now1 now2 s = (if now1 - start \<ge> ms_ns (jb_max_delay s)
       then jb_take_frame now2 (s\<lparr>jb_next := k, jb_gap_start := None\<rparr>)
       else ([], s\<lparr>jb_gap_start := Some start\<rparr>))"
      using True Cons kp by (simp add: jb_pop_frame.simps [of _ _ s] start_def Let_def)
    then show ?thesis
      using assms(2) take [of "s\<lparr>jb_next := k, jb_gap_start := None\<rparr>"]
      by (auto simp: jb_popped_def split: if_splits)
  next
    case False
    with le have "k = jb_next s" by simp
    with False Cons kp have "jb_pop_frame now1 now2 s = jb_take_frame now2 s"
      by (simp add: jb_pop_frame.simps [of _ _ s])
    with assms(2) take [of s] \<open>k = jb_next s\<close> show ?thesis by simp
  qed
qed

lemma jb_popped_keys:
  assumes "jb_inv s" "jb_popped s es s'" "es \<noteq> []"
  shows "jb_next s' = fst (last es) + 1"
proof -
  have "fst (last es) = map fst es ! (length es - 1)"
    using assms(3) by (simp add: last_conv_nth)
  also have "\<dots> = fst (hd es) + of_nat (length es - 1)"
    using assms(2,3) unfolding jb_popped_def by (metis (no_types, lifting) diff_less length_greater_0_conv length_map
        length_upt minus_nat.diff_0 nth_map_upt zero_less_one add_0)
  finally show ?thesis
    using assms(2,3) by (cases es) (auto simp: jb_popped_def)
qed

lemma jb_inv_popped:
  assumes "jb_inv s" "jb_popped s es s'"
  shows "jb_inv s'"
proof (cases "es = []")
  case True
  with assms(2) have e: "jb_sorted s' = jb_sorted s" "jb_first s' = jb_first s"
    "jb_next s' = jb_next s \<or> jb_sorted s \<noteq> [] \<and> jb_next s' = fst (hd (jb_sorted s))"
    by (auto simp: jb_popped_def)
  show ?thesis
  proof (cases "jb_sorted s")
    case (Cons kp m)
    with assms(1) have "\<forall>(k, p) \<in> set (jb_sorted s). fst kp \<le> k" by (auto simp: jb_inv_def intro: less_imp_le)
    with assms(1) e Cons show ?thesis by (auto simp: jb_inv_def)
  qed (use assms(1) e in \<open>simp add: jb_inv_def\<close>)
next
  case False
  have split: "jb_sorted s = es @ jb_sorted s'" using assms(2) by (simp add: jb_popped_def)
  have "jb_next s' \<le> k" if "(k, p) \<in> set (jb_sorted s')" for k p
  proof -
    have "\<forall>x \<in> set es. \<forall>y \<in> set (jb_sorted s'). fst x < fst y"
      using assms(1) unfolding jb_inv_def split by (auto simp: sorted_wrt_append)
    then have "fst (last es) < k" using last_in_set [OF False] that by fastforce
    then show ?thesis using jb_popped_keys [OF assms False] by (simp add: inc_le)
  qed
  moreover have "sorted_wrt (<) (map fst (jb_sorted s'))"
    "\<forall>(k, p) \<in> set (jb_sorted s'). ucast k = rp_sequence_number p" "jb_first s \<longrightarrow> jb_sorted s' = []"
    using assms(1) unfolding jb_inv_def split by (auto simp: sorted_wrt_append)
  moreover have "jb_first s' = jb_first s" using assms(2) by (simp add: jb_popped_def)
  ultimately show ?thesis by (auto simp: jb_inv_def)
qed

section \<open>Delivery\<close>

text \<open>
  The runs of a buffer: the packets pushed, the map entries delivered and the frames returned since
  the start, in order.
\<close>

inductive jb_run :: "jitter_buffer \<Rightarrow> rtp_packet list \<Rightarrow> jb_map \<Rightarrow> rtp_packet list list \<Rightarrow> jitter_buffer \<Rightarrow> bool"
  where
  jb_start: "jb_run s [] [] [] s"
| jb_push: "jb_run s ins es out t \<Longrightarrow> jb_run s (ins @ [p]) es out (jb_push p t)"
| jb_pop: "jb_run s ins es out t \<Longrightarrow> jb_pop_frame now1 now2 t = (ps, t') \<Longrightarrow>
    jb_run s ins (es @ take (length ps) (jb_sorted t)) (out @ [ps]) t'"

inductive_cases jb_runE: "jb_run s ins es out t"

lemma set_jb_push: "set (map snd (jb_sorted (jb_push p s))) \<subseteq> insert p (set (map snd (jb_sorted s)))"
proof -
  have e: "snd ` set (map_emplace k p m) \<subseteq> insert p (snd ` set m)" for k m
    by (induction k p m rule: map_emplace.induct) auto
  show ?thesis
    using e [of "extend_seq (rp_sequence_number p) (jb_next s)" "jb_sorted s"]
    by (auto simp: jb_push_def Let_def)
qed

lemma jb_next_push: "\<not> jb_first s \<Longrightarrow> jb_next (jb_push p s) = jb_next s \<and> \<not> jb_first (jb_push p s)"
  by (auto simp: jb_push_def Let_def)

lemma jb_run_inv: "jb_run s ins es out t \<Longrightarrow> jb_inv s \<Longrightarrow> jb_inv t"
proof (induction rule: jb_run.induct)
  case (jb_pop s ins es out t now1 now2 ps t')
  from jb_pop_frame_popped [OF jb_pop.IH [OF jb_pop.prems] jb_pop.hyps(2)]
  show ?case using jb_inv_popped jb_pop.IH [OF jb_pop.prems] by blast
qed (auto simp: jb_inv_push)

lemma jb_popped_next:
  assumes "jb_inv s" "jb_popped s es s'"
  shows "\<forall>(k, p) \<in> set es. jb_next s \<le> k \<and> ucast k = rp_sequence_number p"
    and "sorted_wrt (<) (map fst es)"
    and "(\<forall>(k, p) \<in> set es. k \<noteq> -1) \<Longrightarrow> \<forall>(k, p) \<in> set es. k < jb_next s'"
    and "(\<forall>(k, p) \<in> set es. k \<noteq> -1) \<Longrightarrow> jb_next s \<le> jb_next s'"
proof -
  have split: "jb_sorted s = es @ jb_sorted s'" using assms(2) by (simp add: jb_popped_def)
  show es: "\<forall>(k, p) \<in> set es. jb_next s \<le> k \<and> ucast k = rp_sequence_number p"
    "sorted_wrt (<) (map fst es)"
    using assms(1) unfolding jb_inv_def split by (auto simp: sorted_wrt_append)
  assume m: "\<forall>(k, p) \<in> set es. k \<noteq> -1"
  show lt: "\<forall>(k, p) \<in> set es. k < jb_next s'"
  proof (cases "es = []")
    case False
    have l: "fst (last es) < jb_next s'"
    proof -
      have "fst (last es) \<noteq> -1" using m last_in_set [OF False] by (cases "last es") auto
      then show ?thesis unfolding jb_popped_keys [OF assms False] by (rule less_plus_1)
    qed
    have "k \<le> fst (last es)" if "(k, p) \<in> set es" for k p
    proof -
      have e: "es = butlast es @ [last es]" using False by simp
      then have "sorted_wrt (<) (map fst (butlast es @ [last es]))" using es(2) by simp
      then have "\<forall>x \<in> set (butlast es). fst x < fst (last es)" by (simp add: sorted_wrt_append)
      moreover have "(k, p) \<in> insert (last es) (set (butlast es))" using that e by (metis set_append Un_insert_right list.set(1) list.set(2) sup_bot.right_neutral)
      ultimately show ?thesis by (metis fst_conv insertE order.refl less_imp_le)
    qed
    with l show ?thesis by fastforce
  qed simp
  show "jb_next s \<le> jb_next s'"
  proof (cases es)
    case Nil
    with assms show ?thesis
      by (cases "jb_sorted s") (auto simp: jb_popped_def jb_inv_def)
  next
    case (Cons kp m)
    then have "jb_next s \<le> fst kp" "fst kp < jb_next s'" using es lt by auto
    then show ?thesis by simp
  qed
qed

lemma jb_run_order:
  assumes "jb_run s ins es out t" "jb_inv s"
  shows "concat out = map snd es \<and> set (map snd es) \<union> set (map snd (jb_sorted t)) \<subseteq> set ins \<union> set (map snd (jb_sorted s)) \<and>
    (\<forall>(k, p) \<in> set es. ucast k = rp_sequence_number p) \<and> (jb_first t \<longrightarrow> es = []) \<and>
    ((\<forall>(k, p) \<in> set es. k \<noteq> -1) \<longrightarrow> sorted_wrt (<) (map fst es) \<and> (\<forall>(k, p) \<in> set es. k < jb_next t))"
  using assms
proof (induction rule: jb_run.induct)
  case (jb_push s ins es out t p)
  have "jb_first (jb_push p t) \<longrightarrow> jb_first t" by (auto simp: jb_push_def Let_def)
  moreover have "set (map snd (jb_sorted (jb_push p t))) \<subseteq> set (ins @ [p]) \<union> set (map snd (jb_sorted s))"
    using set_jb_push [of p t] jb_push.IH [OF jb_push.prems] by (fastforce simp del: set_map)
  ultimately show ?case
    using jb_push.IH [OF jb_push.prems] jb_next_push [of t p] by (cases "jb_first t") auto
next
  case (jb_pop s ins es out t now1 now2 ps t')
  note IH = jb_pop.IH [OF jb_pop.prems]
  note inv = jb_run_inv [OF jb_pop.hyps(1) jb_pop.prems]
  from jb_pop_frame_popped [OF inv jb_pop.hyps(2)]
  obtain fs where fs: "ps = map snd fs" "jb_popped t fs t'" by blast
  then have split: "jb_sorted t = fs @ jb_sorted t'" and first: "jb_first t' = jb_first t"
    by (simp_all add: jb_popped_def)
  then have take: "take (length ps) (jb_sorted t) = fs" using fs(1) by simp
  have "jb_first t \<longrightarrow> fs = []" using inv split by (auto simp: jb_inv_def)
  moreover note p = jb_popped_next [OF inv fs(2)]
  have "sorted_wrt (<) (map fst (es @ fs)) \<and> (\<forall>(k, p) \<in> set (es @ fs). k < jb_next t')"
    if m: "\<forall>(k, p) \<in> set (es @ fs). k \<noteq> -1"
  proof -
    have e: "sorted_wrt (<) (map fst es)" "\<forall>(k, p) \<in> set es. k < jb_next t" using IH m by auto
    have f: "\<forall>(k, p) \<in> set fs. k < jb_next t'" "jb_next t \<le> jb_next t'" using p(3,4) m by auto
    show ?thesis using e f p(1,2) by (fastforce simp: sorted_wrt_append)
  qed
  ultimately show ?case
    using IH fs(1) p(1) split first unfolding take by auto
qed auto

text \<open>
  C21: Ordered delivery. In every run of a new buffer, whatever is pushed and whenever
  \<open>pop_frame\<close> is called, the delivered packets are packets that were pushed; their extended
  sequence numbers, whose low 16 bits are the sequence numbers of the packets, strictly ascend over
  the whole run (until the 32-bit number space is used up), so no packet is delivered twice, out of
  order, or after a later one; and the frames returned are exactly the delivered packets.
\<close>
theorem jb_ordered_delivery:
  assumes "jb_run (jitter_buffer_new delay video) ins es out t"
  shows "concat out = map snd es \<and> set (concat out) \<subseteq> set ins \<and>
    (\<forall>(k, p) \<in> set es. ucast k = rp_sequence_number p) \<and>
    ((\<forall>(k, p) \<in> set es. k \<noteq> -1) \<longrightarrow> sorted_wrt (<) (map fst es))"
  using jb_run_order [OF assms jb_inv_new]
  by (auto simp: jitter_buffer_new_def)

definition sample_pkt :: "u16 \<Rightarrow> u32 \<Rightarrow> rtp_packet" where
  "sample_pkt seq ts = rtp_packet_default\<lparr>rp_sequence_number := seq, rp_timestamp := ts, rp_payload := [1]\<rparr>"

lemma jb_sample_pop:
  "jb_pop_frame 0 0 (jb_push (sample_pkt 6 90) (jb_push (sample_pkt 5 90) (jitter_buffer_new 500 False)))
   = ([sample_pkt 5 90, sample_pkt 6 90],
      (jitter_buffer_new 500 False)\<lparr>jb_next := 7, jb_first := False\<rparr>)"
  by (simp add: jb_pop_frame.simps jb_take_frame_def jb_push_def extend_seq_def jitter_buffer_new_def
      sample_pkt_def rtp_packet_default_def map_find_def Let_def)

theorem jb_ordered_delivery_witness:
  "map (\<lambda>p. rp_sequence_number p) (concat [[sample_pkt 5 90, sample_pkt 6 90]]) = [5, 6] \<and>
   set (concat [[sample_pkt 5 90, sample_pkt 6 90]]) \<subseteq> {sample_pkt 5 90, sample_pkt 6 90}"
proof -
  let ?t = "jb_push (sample_pkt 6 90) (jb_push (sample_pkt 5 90) (jitter_buffer_new 500 False))"
  have "jb_run (jitter_buffer_new 500 False) ([] @ [sample_pkt 5 90] @ [sample_pkt 6 90]) [] [] ?t"
    unfolding append_assoc [symmetric] by (intro jb_start jb_push)
  from jb_pop [OF this jb_sample_pop] jb_ordered_delivery show ?thesis
    by (fastforce simp: sample_pkt_def)
qed

text \<open>
  C22: What one \<open>pop_frame\<close> returns. On a reachable buffer the packets returned are the first entries
  of the buffer: consecutive numbers, one time stamp, and maximal (the entry behind them does not
  continue the frame). The first of them is the expected packet, or the gap before it has lasted
  the maximal delay. When nothing is returned nothing is lost: the buffer keeps all its packets.
\<close>
theorem jb_pop_frame_complete:
  assumes "jb_inv s" "jb_pop_frame now1 now2 s = (ps, s')"
  shows "jb_inv s' \<and>
    (if ps = [] then jb_sorted s' = jb_sorted s
     else \<exists>k. map fst (jb_sorted s) = map (\<lambda>i. k + of_nat i) [0..<length ps] @ map fst (jb_sorted s') \<and>
       map snd (jb_sorted s) = ps @ map snd (jb_sorted s') \<and>
       (\<forall>p \<in> set ps. rp_timestamp p = rp_timestamp (hd ps)) \<and>
       jb_next s' = k + of_nat (length ps) \<and>
       (\<forall>q r. jb_sorted s' = (jb_next s', q) # r \<longrightarrow> rp_timestamp q \<noteq> rp_timestamp (hd ps)) \<and>
       (k \<noteq> jb_next s \<longrightarrow> now1 - (case jb_gap_start s of None \<Rightarrow> now1 | Some t \<Rightarrow> t) \<ge> ms_ns (jb_max_delay s)))"
proof -
  obtain es where es: "ps = map snd es" "jb_popped s es s'"
    using jb_pop_frame_popped [OF assms] by blast
  have gap: "now1 - (case jb_gap_start s of None \<Rightarrow> now1 | Some t \<Rightarrow> t) \<ge> ms_ns (jb_max_delay s)"
    if ne: "es \<noteq> []" "fst (hd es) \<noteq> jb_next s"
  proof -
    obtain k p m where s: "jb_sorted s = (k, p) # m" "fst (hd es) = k"
      using es(2) ne(1) by (cases es) (auto simp: jb_popped_def)
    then have "jb_next s < k" using ne(2) assms(1) by (fastforce simp: jb_inv_def)
    then show ?thesis
      using assms(2) es(1) ne(1) s(1) by (auto simp: jb_pop_frame.simps [of _ _ s] Let_def split: if_splits)
  qed
  show ?thesis
  proof (cases "es = []")
    case False
    with es gap jb_inv_popped [OF assms(1) es(2)] show ?thesis
      by (auto simp: jb_popped_def hd_map intro!: exI [of _ "fst (hd es)"])
  qed (use es jb_inv_popped [OF assms(1) es(2)] in \<open>auto simp: jb_popped_def\<close>)
qed

theorem jb_pop_frame_complete_witness:
  "jb_pop_frame 0 0 (jb_push (sample_pkt 6 90) (jb_push (sample_pkt 5 90) (jitter_buffer_new 500 False)))
     = ([sample_pkt 5 90, sample_pkt 6 90], (jitter_buffer_new 500 False)\<lparr>jb_next := 7, jb_first := False\<rparr>) \<and>
   jb_inv ((jitter_buffer_new 500 False)\<lparr>jb_next := 7, jb_first := False\<rparr>)"
  using jb_pop_frame_complete [OF jb_inv_push [OF jb_inv_push [OF jb_inv_new]] jb_sample_pop]
    jb_sample_pop by blast

section \<open>Extended sequence numbers\<close>

lemma extend_block:
  fixes prev e :: u32
  assumes "unat e div 65536 = unat prev div 65536"
  shows "(prev AND 0xFFFF0000) OR ucast (ucast e :: u16) = e"
proof -
  have m: "(0xFFFF0000::u32) = NOT (mask 16)" by (simp add: mask_eq_exp_minus_1)
  have "unat (drop_bit 16 e) = unat (drop_bit 16 prev)"
    using assms by (simp add: drop_bit_eq_div unat_div)
  then have "drop_bit 16 e = drop_bit 16 prev" by (rule word_unat_eq_iff [THEN iffD2])
  then have "bit e (16 + n) = bit prev (16 + n)" for n by (metis bit_drop_bit_eq comp_apply)
  then have hi: "bit e n = bit prev n" if "16 \<le> n" for n using that by (metis le_Suc_ex)
  show ?thesis
    unfolding m by (rule bit_word_eqI) (auto simp: bit_simps hi)
qed

lemma ucast_add_block: "(ucast (w + 0x10000 :: u32) :: u16) = ucast w"
  by transfer (simp add: take_bit_eq_mod mod_mod_cancel)

text \<open>
  \<open>_extend_seq\<close> recovers the extended sequence number of a packet from its 16-bit number and
  the next expected one: exactly, when the packet is at most 32767 ahead, also across the wrap of the
  16-bit number, or at most 32768 behind within the same block of 65536 numbers. A packet that is
  late across the wrap (up to 32768 behind, in the block before) is instead placed a whole cycle
  ahead of the stream.
\<close>
theorem extend_seq_recovers:
  assumes "unat e + 0x18000 < 2 ^ 32"
  shows "(unat e div 65536 = unat prev div 65536 \<and> unat prev \<le> unat e + 0x8000
      \<longrightarrow> extend_seq (ucast e) prev = e) \<and>
    (unat e div 65536 = unat prev div 65536 + 1 \<and> unat e < unat prev + 0x8000
      \<longrightarrow> extend_seq (ucast e) prev = e) \<and>
    (unat e div 65536 + 1 = unat prev div 65536 \<and> unat prev \<le> unat e + 0x8000
      \<longrightarrow> extend_seq (ucast e) prev = e + 0x10000)"
proof -
  have e16: "unat (e + 0x10000) = unat e + 0x10000" "unat (e + 0x8000) = unat e + 0x8000"
    "unat (e + 0x10000 + 0x8000) = unat e + 0x18000"
    using assms by (simp_all add: unat_word_ariths mod_less)
  have 1: "extend_seq (ucast e) prev = e"
    if "unat e div 65536 = unat prev div 65536" "unat prev \<le> unat e + 0x8000"
    using that e16 by (simp add: extend_seq_def extend_block [OF that(1)] Let_def word_less_nat_alt)
  have 2: "extend_seq (ucast e) prev = e"
    if b: "unat e div 65536 = unat prev div 65536 + 1" "unat e < unat prev + 0x8000"
  proof -
    define f where "f = e - 0x10000"
    have ge: "0x10000 \<le> unat e" using b(1) by (cases "unat e < 65536") auto
    then have f: "unat f = unat e - 0x10000" "unat (f + 0x8000) = unat e - 0x8000"
      using assms by (auto simp: f_def unat_sub word_le_nat_alt unat_word_ariths mod_less)
    have "unat f div 65536 = unat prev div 65536" using b(1) ge f(1) by simp
    from extend_block [OF this] have "(prev AND 0xFFFF0000) OR ucast (ucast e :: u16) = f"
      using ucast_add_block [of f] by (simp add: f_def)
    moreover have "f + 0x8000 < prev" using f(2) b(2) ge by (simp add: word_less_nat_alt)
    ultimately show ?thesis by (simp add: extend_seq_def f_def Let_def)
  qed
  have 3: "extend_seq (ucast e) prev = e + 0x10000"
    if b: "unat e div 65536 + 1 = unat prev div 65536" "unat prev \<le> unat e + 0x8000"
  proof -
    have "unat (e + 0x10000) div 65536 = unat prev div 65536" using b(1) e16(1) by simp
    from extend_block [OF this] have "(prev AND 0xFFFF0000) OR ucast (ucast e :: u16) = e + 0x10000"
      by (simp add: ucast_add_block)
    moreover have "\<not> e + 0x10000 + 0x8000 < prev" using e16(3) b(2) by (simp add: word_less_nat_alt)
    ultimately show ?thesis by (simp add: extend_seq_def Let_def)
  qed
  from 1 2 3 show ?thesis by auto
qed

theorem extend_seq_recovers_witness:
  "extend_seq 3 0xFFF0 = 0x10003 \<and> extend_seq 0xFFFE 0x10003 = 0x1FFFE"
proof -
  have n: "(65539 :: u16) = 3" by code_simp
  have "extend_seq 65539 0xFFF0 = 0x10003"
    using extend_seq_recovers [of "0x10003" "0xFFF0"] by simp
  moreover have "extend_seq 0xFFFE 0x10003 = 0x1FFFE"
    using extend_seq_recovers [of "0xFFFE" "0x10003"] by simp
  ultimately show ?thesis unfolding n by (rule conjI)
qed

text \<open>
  The timer that lets a video receiver wait for the rest of a frame at the end of the buffer is
  not stopped when it has expired. From then on every in-order packet that arrives alone is
  returned at once as a frame of its own, until a frame ends inside the buffer.
\<close>
theorem jb_video_wait_sticky:
  assumes "jb_is_video s" "jb_sorted s = [(jb_next s, p)]" "jb_video_wait s = Some t"
    and "now2 - t \<ge> ms_ns (jb_max_delay s div 2)"
  shows "\<exists>s'. jb_pop_frame now1 now2 s = ([p], s') \<and> jb_sorted s' = [] \<and> jb_video_wait s' = Some t \<and>
    (\<forall>q now1' now2'. \<not> jb_first s \<longrightarrow> extend_seq (rp_sequence_number q) (jb_next s') = jb_next s' \<longrightarrow>
       now2 \<le> now2' \<longrightarrow> fst (jb_pop_frame now1' now2' (jb_push q s')) = [q])"
proof -
  let ?t = "s\<lparr>jb_gap_start := None, jb_next := jb_next s + 1, jb_sorted := []\<rparr>"
  have "jb_pop_frame now1 now2 s = ([p], ?t\<lparr>jb_video_wait := Some t\<rparr>)"
    using assms by (simp add: jb_pop_frame.simps jb_take_frame_def Let_def)
  moreover have "fst (jb_pop_frame now1' now2' (jb_push q ?t)) = [q]"
    if "\<not> jb_first s" "extend_seq (rp_sequence_number q) (jb_next s + 1) = jb_next s + 1" "now2 \<le> now2'"
    for q now1' now2'
    using that assms
    by (simp add: jb_push_def map_find_def jb_pop_frame.simps jb_take_frame_def Let_def)
  moreover have "?t\<lparr>jb_video_wait := Some t\<rparr> = ?t" using assms(3) by simp
  ultimately show ?thesis
    using assms(3) by (intro exI [of _ ?t]) simp
qed

theorem jb_video_wait_sticky_witness:
  "\<exists>s'. jb_pop_frame 0 250000000 ((jitter_buffer_new 500 True)\<lparr>jb_sorted := [(0, sample_pkt 0 90)],
      jb_first := False, jb_video_wait := Some 0\<rparr>) = ([sample_pkt 0 90], s') \<and> jb_video_wait s' = Some 0"
  using jb_video_wait_sticky [of "(jitter_buffer_new 500 True)\<lparr>jb_sorted := [(0, sample_pkt 0 90)],
      jb_first := False, jb_video_wait := Some 0\<rparr>" "sample_pkt 0 90" 0 250000000 0]
  by (auto simp: jitter_buffer_new_def ms_ns_def)

end
