(* ===== verification/Nack.thy ===== *)
theory Nack
  imports Prelude "HOL-Library.Signed_Division"
begin

text \<open>
  Selection of the packets to request again, \<open>src/nack_generator.cpp\<close>: a ring of \<open>_history_size\<close>
  entries indexed by the sequence number modulo that size. Times are signed 64-bit milliseconds,
  here integers. The second half states the abstract contract (a window of received numbers behind
  the highest one) and shows that the ring implements it.
\<close>

record nack_info =
  ni_received :: bool
  ni_nacked :: bool
  ni_retry_count :: u8
  ni_last_nack_time :: int

definition nack_info_default :: nack_info where
  "nack_info_default =
     \<lparr>ni_received = False, ni_nacked = False, ni_retry_count = 0, ni_last_nack_time = 0\<rparr>"

record nack_generator =
  ng_history_size :: u16
  ng_max_retries :: u8
  ng_rtt_ms :: int
  ng_nack_delay_ms :: int
  ng_initialized :: bool
  ng_highest_seq :: u16
  ng_lowest_seq :: u16
  ng_buffer :: "nack_info list"

definition nack_generator_new :: "u16 \<Rightarrow> u8 \<Rightarrow> int \<Rightarrow> int \<Rightarrow> nack_generator" where
  "nack_generator_new history_size max_retries rtt_ms nack_delay_ms =
     \<lparr>ng_history_size = history_size, ng_max_retries = max_retries, ng_rtt_ms = rtt_ms,
      ng_nack_delay_ms = nack_delay_ms, ng_initialized = False, ng_highest_seq = 0,
      ng_lowest_seq = 0, ng_buffer = replicate (unat history_size) nack_info_default\<rparr>"

definition seq_distance :: "u16 \<Rightarrow> u16 \<Rightarrow> int" where
  "seq_distance a b = sint (b - a)"

definition ng_get_index :: "u16 \<Rightarrow> u16 \<Rightarrow> nat" where
  "ng_get_index hs seq = unat seq mod unat hs"

definition ng_mark :: "u16 \<Rightarrow> u16 \<Rightarrow> nack_info list \<Rightarrow> nack_info list" where
  "ng_mark hs seq buf =
     buf[ng_get_index hs seq := (buf ! ng_get_index hs seq)\<lparr>ni_received := True\<rparr>]"

text \<open>The loop over the numbers skipped between the old and the new highest one.\<close>

definition ng_clear_between :: "u16 \<Rightarrow> u16 \<Rightarrow> int \<Rightarrow> nack_info list \<Rightarrow> nack_info list" where
  "ng_clear_between hs highest diff buf =
     fold (\<lambda>i buf. buf[ng_get_index hs (highest + of_nat i) := nack_info_default]) [1..<nat diff] buf"

definition ng_receive_packet :: "u16 \<Rightarrow> nack_generator \<Rightarrow> nack_generator" where
  "ng_receive_packet seq s =
     (let hs = ng_history_size s; size = int (unat hs)
      in if \<not> ng_initialized s
         then s\<lparr>ng_highest_seq := seq, ng_lowest_seq := seq, ng_initialized := True,
                ng_buffer := ng_mark hs seq (ng_buffer s)\<rparr>
         else (let diff = seq_distance (ng_highest_seq s) seq
               in if diff \<le> 0
                  then if diff > - size then s\<lparr>ng_buffer := ng_mark hs seq (ng_buffer s)\<rparr> else s
                  else (let s = (if diff \<ge> size
                                 then s\<lparr>ng_buffer := replicate (length (ng_buffer s)) nack_info_default,
                                        ng_lowest_seq := seq - (hs - 1)\<rparr>
                                 else s\<lparr>ng_buffer := ng_clear_between hs (ng_highest_seq s) diff (ng_buffer s)\<rparr>);
                            s = s\<lparr>ng_buffer := ng_mark hs seq (ng_buffer s), ng_highest_seq := seq\<rparr>
                        in if seq_distance (ng_lowest_seq s) (ng_highest_seq s) \<ge> size
                           then s\<lparr>ng_lowest_seq := ng_highest_seq s - (hs - 1)\<rparr> else s)))"

text \<open>One round of the loop of \<open>get_nacks\<close>: the entry afterwards, and whether it is requested.\<close>

definition ng_check :: "u8 \<Rightarrow> int \<Rightarrow> int \<Rightarrow> nack_info \<Rightarrow> nack_info \<times> bool" where
  "ng_check max_retries backoff_ms now_ms info =
     (if ni_received info then (info, False)
      else if ni_retry_count info \<ge> max_retries then (info\<lparr>ni_received := True\<rparr>, False)
      else if \<not> ni_nacked info
      then (info\<lparr>ni_nacked := True, ni_retry_count := ni_retry_count info + 1,
                 ni_last_nack_time := now_ms\<rparr>, True)
      else if now_ms - ni_last_nack_time info \<ge> backoff_ms
      then (info\<lparr>ni_retry_count := ni_retry_count info + 1, ni_last_nack_time := now_ms\<rparr>, True)
      else (info, False))"

fun ng_scan :: "(nack_info \<Rightarrow> nack_info \<times> bool) \<Rightarrow> u16 \<Rightarrow> u16 \<Rightarrow> nat list \<Rightarrow> nack_info list \<Rightarrow> u16 list \<times> nack_info list" where
  "ng_scan check hs highest [] buf = ([], buf)"
| "ng_scan check hs highest (i # js) buf =
     (let seq = highest - of_nat i; idx = ng_get_index hs seq;
          (info, request) = check (buf ! idx);
          (nacks, buf') = ng_scan check hs highest js (buf[idx := info])
      in (if request then seq # nacks else nacks, buf'))"

definition ng_span :: "nack_generator \<Rightarrow> int" where
  "ng_span s =
     (let span = seq_distance (ng_lowest_seq s) (ng_highest_seq s);
          span = (if span < 0 then span + 0x10000 else span)
      in if span > int (unat (ng_history_size s)) then int (unat (ng_history_size s)) else span)"

definition ng_get_nacks :: "int \<Rightarrow> nack_generator \<Rightarrow> u16 list \<times> nack_generator" where
  "ng_get_nacks now_ms s =
     (if \<not> ng_initialized s then ([], s)
      else (let backoff_ms = ng_rtt_ms s + 20;
                (nacks, buf) = ng_scan (ng_check (ng_max_retries s) backoff_ms now_ms)
                   (ng_history_size s) (ng_highest_seq s) [1..<nat (ng_span s)] (ng_buffer s)
            in (nacks, s\<lparr>ng_buffer := buf\<rparr>)))"

definition ng_update_rtt :: "int \<Rightarrow> nack_generator \<Rightarrow> nack_generator" where
  "ng_update_rtt rtt_ms s = s\<lparr>ng_rtt_ms := (ng_rtt_ms s * 7 + rtt_ms) sdiv 8\<rparr>"

section \<open>The ring\<close>

lemma of_int_sint_diff: "(b :: u16) = a + of_int (seq_distance a b)"
  by (simp add: seq_distance_def)

lemma seq_distance_bounds: "- 0x8000 \<le> seq_distance a b" "seq_distance a b < 0x8000"
  using sint_range_size [of "b - a"] by (auto simp: seq_distance_def word_size)

lemma seq_distance_of_nat: "i < 0x8000 \<Longrightarrow> seq_distance (b - of_nat i) b = int i"
  by (simp add: seq_distance_def signed_of_nat signed_take_bit_int_eq_self)

lemma ng_index_int:
  assumes "unat hs dvd 0x10000"
  shows "int (ng_get_index hs (h - of_nat i)) = (uint h - int i) mod int (unat hs)"
proof -
  have "uint (h - of_nat i) = (uint h - int i) mod 0x10000"
    by (simp add: uint_word_ariths unsigned_of_nat take_bit_eq_mod mod_diff_right_eq zmod_int)
  moreover have "int (unat hs) dvd 0x10000" using assms by (metis int_dvd_int_iff of_nat_numeral)
  ultimately have "uint (h - of_nat i) mod int (unat hs) = (uint h - int i) mod int (unat hs)"
    by (simp add: mod_mod_cancel)
  then show ?thesis by (simp add: ng_get_index_def zmod_int)
qed

lemma ng_index_inj:
  assumes "unat hs dvd 0x10000" "i < unat hs" "j < unat hs"
    and "ng_get_index hs (h - of_nat i) = ng_get_index hs (h - of_nat j)"
  shows "i = j"
proof -
  have "(uint h - int i) mod int (unat hs) = (uint h - int j) mod int (unat hs)"
    using assms(4) ng_index_int [OF assms(1)] by metis
  then have "int (unat hs) dvd (uint h - int i) - (uint h - int j)" by (simp add: mod_eq_dvd_iff)
  then have "int (unat hs) dvd int j - int i" by simp
  then have "int (unat hs) \<le> \<bar>int j - int i\<bar>" if "i \<noteq> j"
    using that dvd_imp_le_int [of "int j - int i" "int (unat hs)"] by (simp only: abs_of_nat)
  then show ?thesis using assms(2,3) by linarith
qed

lemma ng_index_less: "0 < unat hs \<Longrightarrow> ng_get_index hs seq < unat hs"
  by (simp add: ng_get_index_def)

section \<open>The loop of get_nacks\<close>

text \<open>On distinct entries the loop checks every entry once, in its state before the call.\<close>

lemma ng_scan_spec:
  assumes "distinct (map (\<lambda>i. ng_get_index hs (h - of_nat i)) js)"
    and "\<forall>i \<in> set js. ng_get_index hs (h - of_nat i) < length buf"
    and "ng_scan check hs h js buf = (nacks, buf')"
  shows "nacks = map (\<lambda>i. h - of_nat i)
           (filter (\<lambda>i. snd (check (buf ! ng_get_index hs (h - of_nat i)))) js) \<and>
    length buf' = length buf \<and>
    (\<forall>i \<in> set js. buf' ! ng_get_index hs (h - of_nat i) = fst (check (buf ! ng_get_index hs (h - of_nat i)))) \<and>
    (\<forall>k. k \<notin> (\<lambda>i. ng_get_index hs (h - of_nat i)) ` set js \<longrightarrow> buf' ! k = buf ! k)"
  using assms
proof (induction js arbitrary: buf nacks buf')
  case (Cons i js)
  let ?k = "\<lambda>i. ng_get_index hs (h - of_nat i)"
  obtain info req where c: "check (buf ! ?k i) = (info, req)" by (cases "check (buf ! ?k i)")
  obtain ns where r: "ng_scan check hs h js (buf[?k i := info]) = (ns, buf')"
    and n: "nacks = (if req then (h - of_nat i) # ns else ns)"
    using Cons.prems(3) c by (auto simp: Let_def split: prod.splits)
  have d: "distinct (map ?k js)" "\<forall>j \<in> set js. ?k j < length (buf[?k i := info])"
    using Cons.prems(1,2) by auto
  have ni: "?k i \<notin> ?k ` set js" using Cons.prems(1) by simp
  have ne: "\<forall>j \<in> set js. ?k j \<noteq> ?k i" using ni by (metis imageI)
  have same: "buf[?k i := info] ! ?k j = buf ! ?k j" if "j \<in> set js" for j
    using ne that by auto
  note IH = Cons.IH [OF d r]
  have "buf' ! ?k i = buf[?k i := info] ! ?k i" using IH ni by blast
  also have "\<dots> = info" using Cons.prems(2) by simp
  finally have "buf' ! ?k i = info" .
  with IH n c same show ?case by (auto cong: filter_cong)
qed auto

definition ng_wf :: "nack_generator \<Rightarrow> bool" where
  "ng_wf s \<longleftrightarrow>
     unat (ng_history_size s) dvd 0x10000 \<and> unat (ng_history_size s) \<le> 0x4000 \<and> 0 < unat (ng_history_size s) \<and>
     length (ng_buffer s) = unat (ng_history_size s) \<and>
     (\<forall>info \<in> set (ng_buffer s). ni_retry_count info \<le> ng_max_retries s) \<and>
     0 \<le> seq_distance (ng_lowest_seq s) (ng_highest_seq s) \<and>
     seq_distance (ng_lowest_seq s) (ng_highest_seq s) < int (unat (ng_history_size s))"

definition ng_entry :: "nack_generator \<Rightarrow> nat \<Rightarrow> nack_info" where
  "ng_entry s i = ng_buffer s ! ng_get_index (ng_history_size s) (ng_highest_seq s - of_nat i)"

lemma ng_get_nacks_eq:
  assumes "ng_wf s" "ng_initialized s" "ng_get_nacks now s = (nacks, s')"
  defines "ws \<equiv> [1..<nat (seq_distance (ng_lowest_seq s) (ng_highest_seq s))]"
  defines "check \<equiv> ng_check (ng_max_retries s) (ng_rtt_ms s + 20) now"
  shows "nacks = map (\<lambda>i. ng_highest_seq s - of_nat i) (filter (\<lambda>i. snd (check (ng_entry s i))) ws)"
    and "s' = s\<lparr>ng_buffer := ng_buffer s'\<rparr>" and "length (ng_buffer s') = length (ng_buffer s)"
    and "i < unat (ng_history_size s) \<Longrightarrow>
      ng_entry s' i = (if i \<in> set ws then fst (check (ng_entry s i)) else ng_entry s i)"
    and "set (ng_buffer s') \<subseteq> set (ng_buffer s) \<union> (\<lambda>info. fst (check info)) ` set (ng_buffer s)"
proof -
  let ?hs = "ng_history_size s" and ?h = "ng_highest_seq s"
  let ?k = "\<lambda>i. ng_get_index ?hs (?h - of_nat i)"
  have wf: "unat ?hs dvd 0x10000" "0 < unat ?hs" "length (ng_buffer s) = unat ?hs"
    "0 \<le> seq_distance (ng_lowest_seq s) ?h" "seq_distance (ng_lowest_seq s) ?h < int (unat ?hs)"
    using assms(1) by (auto simp: ng_wf_def)
  have "nat (seq_distance (ng_lowest_seq s) ?h) \<le> unat ?hs"
    using wf(5) by (simp only: nat_le_iff less_imp_le)
  then have ws: "\<forall>i \<in> set ws. i < unat ?hs" by (auto simp: ws_def)
  have span: "[1..<nat (ng_span s)] = ws" using wf(4,5) by (simp add: ng_span_def ws_def Let_def)
  obtain buf' where sc: "ng_scan check ?hs ?h ws (ng_buffer s) = (nacks, buf')"
    and s': "s' = s\<lparr>ng_buffer := buf'\<rparr>"
    using assms(2,3) by (auto simp: ng_get_nacks_def Let_def span check_def
        simp del: One_nat_def split: prod.splits)
  have inj: "inj_on ?k {..<unat ?hs}"
    by (rule inj_onI) (use ng_index_inj [OF wf(1)] in simp)
  have d: "distinct (map ?k ws)"
    using inj ws by (auto simp: distinct_map ws_def intro: inj_on_subset)
  have b: "\<forall>i \<in> set ws. ?k i < length (ng_buffer s)" using wf(2,3) by (simp add: ng_index_less)
  from ng_scan_spec [OF d b sc]
  have S: "nacks = map (\<lambda>i. ?h - of_nat i) (filter (\<lambda>i. snd (check (ng_buffer s ! ?k i))) ws)"
    "length buf' = length (ng_buffer s)" "\<forall>i \<in> set ws. buf' ! ?k i = fst (check (ng_buffer s ! ?k i))"
    "\<forall>k. k \<notin> ?k ` set ws \<longrightarrow> buf' ! k = ng_buffer s ! k" by blast+
  show "nacks = map (\<lambda>i. ?h - of_nat i) (filter (\<lambda>i. snd (check (ng_entry s i))) ws)"
    using S(1) by (simp add: ng_entry_def)
  show "s' = s\<lparr>ng_buffer := ng_buffer s'\<rparr>" "length (ng_buffer s') = length (ng_buffer s)"
    using s' S(2) by simp_all
  show "ng_entry s' i = (if i \<in> set ws then fst (check (ng_entry s i)) else ng_entry s i)"
    if "i < unat ?hs" for i
  proof (cases "i \<in> set ws")
    case False
    then have "?k i \<notin> ?k ` set ws" using inj ws that by (auto dest: inj_onD)
    with False S(4) s' show ?thesis by (simp add: ng_entry_def)
  qed (use S(3) s' in \<open>simp add: ng_entry_def\<close>)
  show "set (ng_buffer s') \<subseteq> set (ng_buffer s) \<union> (\<lambda>info. fst (check info)) ` set (ng_buffer s)"
  proof
    fix x assume "x \<in> set (ng_buffer s')"
    then obtain k where k: "k < length buf'" "x = buf' ! k" using s' by (auto simp: in_set_conv_nth)
    show "x \<in> set (ng_buffer s) \<union> (\<lambda>info. fst (check info)) ` set (ng_buffer s)"
    proof (cases "k \<in> ?k ` set ws")
      case True
      with S(3) k b show ?thesis by (auto intro!: imageI)
    next
      case False
      with S(2,4) k show ?thesis by simp
    qed
  qed
qed

section \<open>The abstract window\<close>

text \<open>
  The contract: the highest number received so far and the set of the numbers received among the
  \<open>width\<close> latest; nothing before the first packet.
\<close>

type_synonym nack_window = "(u16 \<times> u16 set) option"

definition nw_receive :: "int \<Rightarrow> u16 \<Rightarrow> nack_window \<Rightarrow> nack_window" where
  "nw_receive width seq A =
     (case A of None \<Rightarrow> Some (seq, {seq})
      | Some (h, G) \<Rightarrow>
          (let diff = seq_distance h seq
           in if diff \<le> 0 then Some (h, if diff > - width then insert seq G else G)
              else Some (seq, insert seq {x \<in> G. 0 \<le> seq_distance x seq \<and> seq_distance x seq < width})))"

definition ng_window :: "nack_generator \<Rightarrow> nat" where
  "ng_window s = nat (seq_distance (ng_lowest_seq s) (ng_highest_seq s))"

definition ng_implements :: "nack_generator \<Rightarrow> nack_window \<Rightarrow> bool" where
  "ng_implements s A \<longleftrightarrow> ng_wf s \<and>
     (case A of None \<Rightarrow> \<not> ng_initialized s
      | Some (h, G) \<Rightarrow> ng_initialized s \<and> ng_highest_seq s = h \<and> h \<in> G \<and>
          (\<forall>x \<in> G. \<exists>i < unat (ng_history_size s). x = h - of_nat i) \<and>
          (\<forall>i < unat (ng_history_size s). h - of_nat i \<in> G \<longrightarrow> ni_received (ng_entry s i)) \<and>
          (\<forall>i. 1 \<le> i \<longrightarrow> i < ng_window s \<longrightarrow> ni_received (ng_entry s i) \<longrightarrow>
             h - of_nat i \<in> G \<or> ng_max_retries s \<le> ni_retry_count (ng_entry s i)))"

lemma ng_wf_new:
  assumes "unat hs dvd 0x10000" "unat hs \<le> 0x4000" "0 < unat hs"
  shows "ng_wf (nack_generator_new hs max_retries rtt delay)"
proof -
  have "0 < int (unat hs)" using assms(3) by linarith
  then show ?thesis
    using assms by (simp add: ng_wf_def nack_generator_new_def nack_info_default_def seq_distance_def)
qed

lemma ng_index_eq_iff:
  assumes "unat hs dvd 0x10000" "i < unat hs" "j < unat hs"
  shows "ng_get_index hs (h - of_nat i) = ng_get_index hs (h - of_nat j) \<longleftrightarrow> i = j"
  using ng_index_inj [OF assms] by auto

lemma set_ng_mark:
  "k = ng_get_index hs seq \<Longrightarrow> k < length buf \<Longrightarrow> info \<in> set (ng_mark hs seq buf) \<Longrightarrow>
    info \<in> set buf \<or> info = (buf ! k)\<lparr>ni_received := True\<rparr>"
  using set_update_subset_insert [of buf k "(buf ! k)\<lparr>ni_received := True\<rparr>"] by (auto simp: ng_mark_def)

lemma ng_wf_mark:
  assumes "ng_wf s"
  shows "ng_wf (s\<lparr>ng_buffer := ng_mark (ng_history_size s) seq (ng_buffer s)\<rparr>)"
proof -
  let ?k = "ng_get_index (ng_history_size s) seq"
  have k: "?k < length (ng_buffer s)" using assms by (simp add: ng_wf_def ng_index_less)
  then have "ni_retry_count info \<le> ng_max_retries s"
    if "info \<in> set (ng_mark (ng_history_size s) seq (ng_buffer s))" for info
    using set_ng_mark [OF refl k that] assms k by (auto simp: ng_wf_def)
  with assms show ?thesis by (auto simp: ng_wf_def) (simp_all add: ng_mark_def)
qed

lemma ng_entry_mark:
  assumes "ng_wf s" "i < unat (ng_history_size s)" "j < unat (ng_history_size s)"
    "seq = ng_highest_seq s - of_nat j"
  shows "ng_entry (s\<lparr>ng_buffer := ng_mark (ng_history_size s) seq (ng_buffer s)\<rparr>) i =
    (if i = j then (ng_entry s i)\<lparr>ni_received := True\<rparr> else ng_entry s i)"
  using assms ng_index_eq_iff [of "ng_history_size s" i j "ng_highest_seq s"]
  by (auto simp: ng_entry_def ng_mark_def ng_wf_def ng_index_less nth_list_update)

text \<open>The buffer after the loop over the skipped numbers.\<close>

lemma length_fold_update: "length (fold (\<lambda>i buf. buf[f i := z]) js buf) = length buf"
  by (induction js arbitrary: buf) simp_all

lemma nth_fold_update:
  "k < length buf \<Longrightarrow> fold (\<lambda>i buf. buf[f i := z]) js buf ! k = (if k \<in> f ` set js then z else buf ! k)"
  by (induction js arbitrary: buf) (auto simp: nth_list_update)

lemma set_fold_update: "set (fold (\<lambda>i buf. buf[f i := z]) js buf) \<subseteq> insert z (set buf)"
proof (induction js arbitrary: buf)
  case (Cons j js)
  show ?case using Cons [of "buf[f j := z]"] set_update_subset_insert [of buf "f j" z] by auto
qed auto

text \<open>A new highest number less than a window ahead: the entries, seen from the new number.\<close>

lemma ng_advance:
  fixes d :: nat
  assumes "ng_wf s" "0 < d" "d < unat (ng_history_size s)" "seq = ng_highest_seq s + of_nat d"
  defines "t \<equiv> s\<lparr>ng_buffer := ng_mark (ng_history_size s) seq
      (ng_clear_between (ng_history_size s) (ng_highest_seq s) (int d) (ng_buffer s)), ng_highest_seq := seq\<rparr>"
  shows "length (ng_buffer t) = length (ng_buffer s)"
    and "\<forall>info \<in> set (ng_buffer t). ni_retry_count info \<le> ng_max_retries s"
    and "i < unat (ng_history_size s) \<Longrightarrow>
      (if i = 0 then ni_received (ng_entry t i) else if i < d then ng_entry t i = nack_info_default
       else ng_entry t i = ng_entry s (i - d))"
proof -
  let ?hs = "ng_history_size s" and ?h = "ng_highest_seq s"
  let ?b = "ng_clear_between ?hs ?h (int d) (ng_buffer s)"
  let ?k = "\<lambda>i. ng_get_index ?hs (seq - of_nat i)"
  have wf: "unat ?hs dvd 0x10000" "0 < unat ?hs" "length (ng_buffer s) = unat ?hs"
    "\<forall>info \<in> set (ng_buffer s). ni_retry_count info \<le> ng_max_retries s"
    using assms(1) by (auto simp: ng_wf_def)
  have kl: "?k i < unat ?hs" for i using wf(2) by (rule ng_index_less)
  have len: "length ?b = unat ?hs" using wf(3) by (simp add: ng_clear_between_def length_fold_update)
  show "length (ng_buffer t) = length (ng_buffer s)"
    using len wf(3) by (simp add: t_def ng_mark_def)
  have sub: "set ?b \<subseteq> insert nack_info_default (set (ng_buffer s))"
    unfolding ng_clear_between_def by (rule set_fold_update)
  have k0: "ng_get_index ?hs seq = ?k 0" by simp
  show "\<forall>info \<in> set (ng_buffer t). ni_retry_count info \<le> ng_max_retries s"
  proof
    fix info assume "info \<in> set (ng_buffer t)"
    then have "info \<in> set ?b \<or> info = (?b ! ?k 0)\<lparr>ni_received := True\<rparr>"
      using set_ng_mark [of "?k 0" ?hs seq ?b info] kl [of 0] len by (simp add: t_def)
    moreover have "?b ! ?k 0 \<in> set ?b" using kl [of 0] len by (intro nth_mem) simp
    ultimately show "ni_retry_count info \<le> ng_max_retries s"
      using sub wf(4) by (auto simp: nack_info_default_def)
  qed
  have cleared: "?b ! ?k i = (if \<exists>j. 1 \<le> j \<and> j < d \<and> ?k (d - j) = ?k i then nack_info_default else ng_buffer s ! ?k i)" for i
  proof -
    have e: "?h + of_nat j = seq - of_nat (d - j)" if "j < d" for j
      using that by (simp add: assms(4) of_nat_diff)
    then have "(\<lambda>j. ng_get_index ?hs (?h + of_nat j)) ` {1..<d} = (\<lambda>j. ?k (d - j)) ` {1..<d}"
      by (intro image_cong refl) (simp only: atLeastLessThan_iff)
    then have im: "?k i \<in> (\<lambda>j. ng_get_index ?hs (?h + of_nat j)) ` set [1..<nat (int d)] \<longleftrightarrow>
        (\<exists>j. 1 \<le> j \<and> j < d \<and> ?k (d - j) = ?k i)"
      unfolding nat_int set_upt by (simp only: image_iff Bex_def atLeastLessThan_iff) metis
    show ?thesis
      unfolding ng_clear_between_def im [symmetric] by (rule nth_fold_update) (use kl wf(3) in simp)
  qed
  show "if i = 0 then ni_received (ng_entry t i) else if i < d then ng_entry t i = nack_info_default
       else ng_entry t i = ng_entry s (i - d)" if i: "i < unat ?hs"
  proof -
    have et: "ng_entry t i = (if ?k i = ?k 0 then (?b ! ?k 0)\<lparr>ni_received := True\<rparr> else ?b ! ?k i)"
      using kl [of i] kl [of 0] len by (auto simp: ng_entry_def t_def ng_mark_def nth_list_update)
    have eq: "?k i = ?k j \<longleftrightarrow> i = j" if "j < unat ?hs" for j
      using ng_index_eq_iff [OF wf(1) i that] .
    have eq0: "?k i = ?k 0 \<longleftrightarrow> i = 0" by (rule eq [OF wf(2)])
    have "?k (d - j) = ?k i \<longleftrightarrow> d - j = i" for j using eq [of "d - j"] assms(3) by auto
    then have "(\<exists>j. 1 \<le> j \<and> j < d \<and> ?k (d - j) = ?k i) \<longleftrightarrow> (\<exists>j. 1 \<le> j \<and> j < d \<and> d - j = i)"
      by (simp only:)
    also have "\<dots> \<longleftrightarrow> 0 < i \<and> i < d" by (auto intro: exI [of _ "d - i"])
    finally have c: "?b ! ?k i = (if 0 < i \<and> i < d then nack_info_default else ng_buffer s ! ?k i)"
      using cleared [of i] by (simp only:)
    have old: "ng_buffer s ! ?k i = ng_entry s (i - d)" if "d \<le> i"
      using that by (simp add: ng_entry_def assms(4) of_nat_diff algebra_simps)
    consider "i = 0" | "0 < i" "i < d" | "0 < i" "d \<le> i" by linarith
    then show ?thesis
      using assms(2) c old et by cases (simp_all only: eq0, simp_all)
  qed
qed

section \<open>The ring implements the window\<close>

lemma of_nat_diff_eq_0:
  fixes x :: u16
  assumes "i < 0x8000" "j < 0x8000" "x - of_nat i = x - of_nat j"
  shows "i = j"
proof -
  have "(of_nat i :: u16) = of_nat j" using assms(3) by simp
  then have "unat (of_nat i :: u16) = unat (of_nat j :: u16)" by simp
  with assms(1,2) show ?thesis by (simp add: unat_of_nat take_bit_nat_eq_self)
qed

lemma ng_implementsI:
  assumes "ng_wf s" "ng_initialized s" "ng_highest_seq s = h" "h \<in> G"
    and "\<And>x. x \<in> G \<Longrightarrow> \<exists>i < unat (ng_history_size s). x = h - of_nat i"
    and "\<And>i. i < unat (ng_history_size s) \<Longrightarrow> h - of_nat i \<in> G \<Longrightarrow> ni_received (ng_entry s i)"
    and "\<And>i. 1 \<le> i \<Longrightarrow> i < ng_window s \<Longrightarrow> ni_received (ng_entry s i) \<Longrightarrow>
      h - of_nat i \<in> G \<or> ng_max_retries s \<le> ni_retry_count (ng_entry s i)"
  shows "ng_implements s (Some (h, G))"
  using assms by (simp add: ng_implements_def)

lemma ng_implements_receive:
  assumes "ng_implements s A"
  shows "ng_implements (ng_receive_packet seq s) (nw_receive (int (unat (ng_history_size s))) seq A)"
proof (cases A)
  case None
  have wf: "ng_wf s" "\<not> ng_initialized s" using assms None by (auto simp: ng_implements_def)
  let ?t = "ng_receive_packet seq s"
  have t: "?t = s\<lparr>ng_highest_seq := seq, ng_lowest_seq := seq, ng_initialized := True,
      ng_buffer := ng_mark (ng_history_size s) seq (ng_buffer s)\<rparr>"
    using wf(2) by (simp add: ng_receive_packet_def Let_def)
  have pos: "0 < unat (ng_history_size s)" "0 < int (unat (ng_history_size s))"
    using wf(1) by (auto simp: ng_wf_def)
  have w: "ng_wf ?t"
    using ng_wf_mark [OF wf(1), of seq] pos(2) unfolding t
    by (simp add: ng_wf_def seq_distance_def pos(1))
  have e: "ni_received (ng_entry ?t 0)"
    using wf(1) by (simp add: t ng_entry_def ng_mark_def ng_wf_def ng_index_less pos(1))
  have z: "i = 0" if "i < unat (ng_history_size s)" "seq - of_nat i = seq" for i
    using of_nat_diff_eq_0 [of i 0 seq] that wf(1) by (auto simp: ng_wf_def)
  have "ng_implements ?t (Some (seq, {seq}))"
    unfolding ng_implements_def using w e z
    by (auto simp: t ng_window_def seq_distance_def pos(1) intro!: exI [of _ 0])
  then show ?thesis by (simp add: None nw_receive_def)
next
  case (Some hG)
  obtain h G where A: "A = Some (h, G)" using Some by (cases hG) auto
  let ?hs = "ng_history_size s" and ?t = "ng_receive_packet seq s"
  let ?n = "unat ?hs"
  have R: "ng_wf s" "ng_initialized s" "ng_highest_seq s = h" "h \<in> G"
    "\<forall>x \<in> G. \<exists>i < ?n. x = h - of_nat i"
    "\<forall>i < ?n. h - of_nat i \<in> G \<longrightarrow> ni_received (ng_entry s i)"
    "\<forall>i. 1 \<le> i \<longrightarrow> i < ng_window s \<longrightarrow> ni_received (ng_entry s i) \<longrightarrow>
       h - of_nat i \<in> G \<or> ng_max_retries s \<le> ni_retry_count (ng_entry s i)"
    using assms A by (auto simp: ng_implements_def)
  have pos: "0 < ?n" "?n \<le> 0x4000" using R(1) by (auto simp: ng_wf_def)
  have win: "ng_window s < ?n"
    using R(1) unfolding ng_wf_def ng_window_def by linarith
  define diff where "diff = seq_distance h seq"
  have seq: "seq = h + of_int diff" unfolding diff_def by (rule of_int_sint_diff)
  have db: "- 0x8000 \<le> diff" "diff < 0x8000" unfolding diff_def by (rule seq_distance_bounds)+
  consider "diff \<le> - int ?n" | "- int ?n < diff" "diff \<le> 0" | "0 < diff" "diff < int ?n"
    | "0 < diff" "int ?n \<le> diff" by linarith
  then show ?thesis
  proof cases
    case 1
    have le: "diff \<le> 0" "\<not> - int ?n < diff" using 1 by linarith+
    have "?t = s" "nw_receive (int ?n) seq A = A"
      using le(2) R(2,3)
      by (simp_all add: ng_receive_packet_def Let_def A nw_receive_def le(1) flip: diff_def)
    with assms show ?thesis by simp
  next
    case 2
    define j where "j = nat (- diff)"
    have "j < ?n" unfolding j_def using 2 by (subst nat_less_iff) linarith+
    moreover have "seq = h - of_nat j" using 2(2) seq by (simp add: j_def)
    ultimately have j: "j < ?n" "seq = h - of_nat j" .
    have t: "?t = s\<lparr>ng_buffer := ng_mark ?hs seq (ng_buffer s)\<rparr>"
      "nw_receive (int ?n) seq A = Some (h, insert seq G)"
      using 2 R(2,3) by (simp_all add: ng_receive_packet_def Let_def A nw_receive_def flip: diff_def)
    have e: "ng_entry ?t i = (if i = j then (ng_entry s i)\<lparr>ni_received := True\<rparr> else ng_entry s i)"
      if "i < ?n" for i
      unfolding t by (rule ng_entry_mark [OF R(1) that j(1)]) (simp add: R(3) j(2))
    have z: "i = j" if "i < ?n" "h - of_nat i = seq" for i
      using of_nat_diff_eq_0 [of i j h] that j pos by simp
    have w: "ng_window ?t = ng_window s" "ng_history_size ?t = ?hs" "ng_max_retries ?t = ng_max_retries s"
      "ng_initialized ?t" "ng_highest_seq ?t = h"
      using R(2,3) by (simp_all add: t ng_window_def)
    have "ng_implements ?t (Some (h, insert seq G))"
    proof (rule ng_implementsI)
      show "ng_wf ?t" unfolding t(1) by (rule ng_wf_mark [OF R(1)])
      fix x assume "x \<in> insert seq G"
      then show "\<exists>i < unat (ng_history_size ?t). x = h - of_nat i" using R(5) j w(2) by auto
    next
      fix i assume i: "i < unat (ng_history_size ?t)" "h - of_nat i \<in> insert seq G"
      have n: "i < ?n" using i(1) unfolding w(2) .
      show "ni_received (ng_entry ?t i)"
      proof (cases "i = j")
        case True
        then show ?thesis unfolding e [OF n] by simp
      next
        case False
        then have "h - of_nat i \<in> G" using z [OF n] i(2) by blast
        then show ?thesis unfolding e [OF n] using R(6) n False by simp
      qed
    next
      fix i assume i: "1 \<le> i" "i < ng_window ?t" "ni_received (ng_entry ?t i)"
      then have "i < ?n" "i < ng_window s" using win w(1) by simp_all
      then show "h - of_nat i \<in> insert seq G \<or> ng_max_retries ?t \<le> ni_retry_count (ng_entry ?t i)"
        using i(1,3) R(7) e [of i] w(3) j(2) by (cases "i = j") (simp, metis insertCI)
    qed (use w R(4) in simp_all)
    then show ?thesis by (simp only: t(2))
  next
    case 3
    note of_nat_unat [simp del]
    define d where "d = nat diff"
    have d: "0 < d" "d < ?n" "int d = diff" using 3 by (auto simp: d_def nat_less_iff)
    have seqd: "seq = ng_highest_seq s + of_nat d" using seq R(3) unfolding d(3) [symmetric] by simp
    define t where "t = s\<lparr>ng_buffer := ng_mark ?hs seq (ng_clear_between ?hs (ng_highest_seq s) (int d) (ng_buffer s)),
        ng_highest_seq := seq\<rparr>"
    note adv = ng_advance [OF R(1) d(1,2) seqd, folded t_def]
    let ?d0 = "ng_window s"
    have low: "ng_lowest_seq s = seq - of_nat (?d0 + d)"
    proof -
      have "0 \<le> seq_distance (ng_lowest_seq s) h" using R(1,3) by (simp add: ng_wf_def)
      then have "(of_nat ?d0 :: u16) = of_int (seq_distance (ng_lowest_seq s) h)"
        by (simp add: ng_window_def R(3))
      then have "h = ng_lowest_seq s + of_nat ?d0"
        using of_int_sint_diff [of h "ng_lowest_seq s"] by (simp only:)
      then show ?thesis using seqd R(3) by simp
    qed
    have dist: "seq_distance (ng_lowest_seq s) seq = int (?d0 + d)"
      unfolding low by (rule seq_distance_of_nat) (use win d pos in linarith)
    define t' where "t' = (if int (?d0 + d) \<ge> int ?n then t\<lparr>ng_lowest_seq := seq - (?hs - 1)\<rparr> else t)"
    have rt: "?t = t'"
      using 3 R(2,3) d(3) dist unfolding ng_receive_packet_def Let_def t'_def t_def
      by (simp flip: diff_def)
    have hs1: "?hs - 1 = of_nat (?n - 1)" using pos by (simp add: of_nat_diff of_nat_unat)
    have win': "seq_distance (ng_lowest_seq t') seq = int (if ?d0 + d \<ge> ?n then ?n - 1 else ?d0 + d)"
    proof (cases "?d0 + d \<ge> ?n")
      case True
      have "seq_distance (seq - of_nat (?n - 1)) seq = int (?n - 1)"
        by (rule seq_distance_of_nat) (use pos in linarith)
      with True show ?thesis by (simp add: t'_def hs1 del: of_nat_diff)
    next
      case False
      with dist show ?thesis by (simp add: t'_def t_def)
    qed
    have same: "ng_entry t' i = ng_entry t i" "ng_history_size t' = ?hs" "ng_highest_seq t' = seq"
      "ng_buffer t' = ng_buffer t" "ng_max_retries t' = ng_max_retries s" "ng_initialized t'" for i
      using R(2) by (simp_all add: t'_def t_def ng_entry_def)
    have wft: "ng_wf t'"
      using R(1) adv(1,2) same win' pos unfolding ng_wf_def by (simp del: of_nat_diff)
    let ?G = "insert seq {x \<in> G. 0 \<le> seq_distance x seq \<and> seq_distance x seq < int ?n}"
    have shift: "h - of_nat j = seq - of_nat (j + d)" for j using seqd R(3) by simp
    have mem: "h - of_nat j \<in> ?G \<longleftrightarrow> h - of_nat j \<in> G \<and> j + d < ?n" if "j < ?n" for j
    proof -
      have "seq_distance (h - of_nat j) seq = int (j + d)"
        unfolding shift by (rule seq_distance_of_nat) (use that d pos in linarith)
      moreover have "seq - of_nat (j + d) \<noteq> seq"
        using of_nat_diff_eq_0 [of "j + d" 0 seq] that d pos by auto
      ultimately show ?thesis using shift by (auto simp del: of_nat_add)
    qed
    have "ng_implements t' (Some (seq, ?G))"
    proof (rule ng_implementsI)
      fix x assume x: "x \<in> ?G"
      show "\<exists>i < unat (ng_history_size t'). x = seq - of_nat i"
      proof (cases "x = seq")
        case False
        with x R(5) obtain j where j: "j < ?n" "x = h - of_nat j" by blast
        then have "j + d < ?n" using mem [OF j(1)] x by blast
        then show ?thesis unfolding same(2) j(2) shift by blast
      qed (use pos same(2) in \<open>auto intro!: exI [of _ 0]\<close>)
    next
      fix i assume i: "i < unat (ng_history_size t')" "seq - of_nat i \<in> ?G"
      show "ni_received (ng_entry t' i)"
      proof (cases "i = 0")
        case True
        then show ?thesis using adv(3) [of 0] pos same(1) by simp
      next
        case False
        have ne: "seq - of_nat i \<noteq> seq" using of_nat_diff_eq_0 [of i 0 seq] i(1) False pos same(2) by auto
        then have "seq - of_nat i \<in> G" using i(2) by simp
        then obtain j where j: "j < ?n" "seq - of_nat i = seq - of_nat (j + d)" "h - of_nat j \<in> G"
          using R(5) shift by metis
        then have "i = j + d" using of_nat_diff_eq_0 [of i "j + d" seq] i(1) d pos same(2) by simp
        moreover have "ni_received (ng_entry s j)" using R(6) j by blast
        ultimately show ?thesis using adv(3) [of i] i(1) same(1,2) d by simp
      qed
    next
      fix i assume i: "1 \<le> i" "i < ng_window t'" "ni_received (ng_entry t' i)"
      have iw: "i < ?n" "i < ?d0 + d" using i(2) win' same(3) by (auto simp: ng_window_def split: if_splits)
      then have e: "d \<le> i" "ng_entry t' i = ng_entry s (i - d)"
        using adv(3) [of i] i same(1) by (auto simp: nack_info_default_def split: if_splits)
      have "h - of_nat (i - d) \<in> G \<or> ng_max_retries s \<le> ni_retry_count (ng_entry s (i - d))"
      proof (cases "i = d")
        case False
        with e iw have "1 \<le> i - d" "i - d < ?d0" by auto
        then show ?thesis using R(7) i(3) e(2) by auto
      qed (use R(4) in simp)
      moreover have sh: "h - of_nat (i - d) = seq - of_nat i"
        using shift [of "i - d"] e(1) by (simp only: le_add_diff_inverse2)
      moreover have "h - of_nat (i - d) \<in> ?G \<longleftrightarrow> h - of_nat (i - d) \<in> G \<and> i - d + d < ?n"
        by (rule mem) (use iw(1) in linarith)
      then have "seq - of_nat i \<in> ?G \<longleftrightarrow> seq - of_nat i \<in> G"
        unfolding sh using e(1) iw(1) by (simp only: le_add_diff_inverse2 simp_thms)
      ultimately show "seq - of_nat i \<in> ?G \<or> ng_max_retries t' \<le> ni_retry_count (ng_entry t' i)"
        unfolding e(2) same(5) by (simp only:)
    qed (use same wft in simp_all)
    then show ?thesis
      using rt 3 A by (simp add: nw_receive_def Let_def flip: diff_def)
  next
    case 4
    note of_nat_unat [simp del]
    define b where "b = replicate (length (ng_buffer s)) nack_info_default"
    define t where "t = s\<lparr>ng_buffer := b, ng_lowest_seq := seq - (?hs - 1)\<rparr>"
    have hs1: "?hs - 1 = of_nat (?n - 1)" using pos by (simp add: of_nat_diff of_nat_unat)
    have dist: "seq_distance (seq - (?hs - 1)) seq = int (?n - 1)"
      unfolding hs1 by (rule seq_distance_of_nat) (use pos in linarith)
    let ?r = "t\<lparr>ng_highest_seq := seq, ng_buffer := ng_mark ?hs seq b\<rparr>"
    have lt: "\<not> int ?n \<le> seq_distance (seq - (?hs - 1)) seq" unfolding dist using pos by simp
    have rt: "?t = ?r"
      using 4 R(2,3) lt unfolding ng_receive_packet_def Let_def t_def b_def
      by (simp flip: diff_def)
    have tl: "length b = ?n" using R(1) by (simp add: ng_wf_def b_def)
    have "ng_wf (t\<lparr>ng_highest_seq := seq\<rparr>)"
      using R(1) dist pos by (auto simp: ng_wf_def t_def b_def nack_info_default_def)
    from ng_wf_mark [OF this, of seq] have wft: "ng_wf ?r" by (simp add: t_def)
    have e: "ng_entry ?r i = (if i = 0 then nack_info_default\<lparr>ni_received := True\<rparr> else nack_info_default)"
      if i: "i < ?n" for i
    proof -
      have dv: "?n dvd 0x10000" using R(1) by (simp add: ng_wf_def)
      have k: "ng_get_index ?hs (seq - of_nat j) < ?n" for j using pos(1) by (rule ng_index_less)
      have "ng_get_index ?hs (seq - of_nat i) = ng_get_index ?hs (seq - of_nat 0) \<longleftrightarrow> i = 0"
        by (rule ng_index_eq_iff [OF dv i pos(1)])
      then show ?thesis
        using tl k [of i] k [of 0] by (auto simp: ng_entry_def ng_mark_def t_def b_def nth_list_update)
    qed
    have far: "\<not> (0 \<le> seq_distance x seq \<and> seq_distance x seq < int ?n)" if "x \<in> G" for x
    proof -
      obtain j where j: "j < ?n" "x = h - of_nat j" using R(5) \<open>x \<in> G\<close> by blast
      define m where "m = nat diff + j"
      have m: "?n \<le> m" "m < 0x8000 + 0x4000" using 4 db j(1) pos by (auto simp: m_def)
      have "int (nat diff) = diff" using 4 by simp
      then have "seq = h + of_nat (nat diff)" using seq by (metis of_int_of_nat_eq)
      then have x: "x = seq - of_nat m" using j(2) by (simp add: m_def)
      show ?thesis
      proof (cases "m < 0x8000")
        case True
        then show ?thesis using m seq_distance_of_nat [OF True, of seq] x by simp
      next
        case False
        have "sint (of_nat m :: u16) = int m - 0x10000"
        proof -
          have "(of_nat m :: u16) = of_int (int m - 0x10000)" by simp
          moreover have "signed_take_bit 15 (int m - 0x10000) = int m - 0x10000"
            using False m by (intro signed_take_bit_int_eq_self) auto
          ultimately show ?thesis by (simp only: signed_of_int) simp
        qed
        then have "seq_distance x seq < 0" using m by (simp add: seq_distance_def x)
        then show ?thesis by simp
      qed
    qed
    then have G: "nw_receive (int ?n) seq A = Some (seq, {seq})"
      using 4 A pos by (auto simp: nw_receive_def Let_def simp flip: diff_def)
    have "ng_implements ?r (Some (seq, {seq}))"
    proof (rule ng_implementsI)
      fix i assume i: "1 \<le> i" "i < ng_window ?r" "ni_received (ng_entry ?r i)"
      have "i < ?n" using i(2) dist by (simp add: ng_window_def t_def)
      then show "seq - of_nat i \<in> {seq} \<or> ng_max_retries ?r \<le> ni_retry_count (ng_entry ?r i)"
        using e [of i] i(1,3) by (simp add: nack_info_default_def)
    next
      fix i assume i: "i < unat (ng_history_size ?r)" "seq - of_nat i \<in> {seq}"
      have "i < ?n" using i(1) by (simp add: t_def)
      moreover from this have "i = 0" using of_nat_diff_eq_0 [of i 0 seq] i(2) pos by simp
      ultimately show "ni_received (ng_entry ?r i)" using e [of i] by simp
    next
      fix x assume "x \<in> {seq}"
      then show "\<exists>i < unat (ng_history_size ?r). x = seq - of_nat i"
        using pos by (intro exI [of _ 0]) (simp add: t_def)
    qed (use wft R(2) in \<open>simp_all add: t_def\<close>)
    then show ?thesis unfolding rt G .
  qed
qed

lemma ng_check_props:
  fixes info :: nack_info
  shows "ni_received info \<Longrightarrow> ng_check m b now info = (info, False)"
    and "ni_received (fst (ng_check m b now info)) \<Longrightarrow>
      ni_received info \<or> m \<le> ni_retry_count (fst (ng_check m b now info))"
    and "ni_retry_count info \<le> m \<Longrightarrow> ni_retry_count (fst (ng_check m b now info)) \<le> m"
    and "snd (ng_check m b now info) \<Longrightarrow> \<not> ni_received info"
    and "ni_retry_count info \<le> m \<Longrightarrow> unat (ni_retry_count (fst (ng_check m b now info))) =
      unat (ni_retry_count info) + (if snd (ng_check m b now info) then 1 else 0)"
    and "\<not> ni_received info \<Longrightarrow> ni_retry_count info < m \<Longrightarrow>
      \<not> ni_nacked info \<or> now - ni_last_nack_time info \<ge> b \<Longrightarrow> snd (ng_check m b now info)"
proof -
  have le: "w < m \<Longrightarrow> w + 1 \<le> m" for w by (rule inc_le)
  have un: "unat (w + 1) = unat w + 1" if "w < m" for w
  proof -
    note that
    moreover have "unat m < 2 ^ LENGTH(8)" by (rule unsigned_less)
    ultimately show ?thesis by (simp add: word_less_nat_alt unat_word_ariths)
  qed
  show "ni_received info \<Longrightarrow> ng_check m b now info = (info, False)"
    by (simp add: ng_check_def)
  show "ni_received (fst (ng_check m b now info)) \<Longrightarrow>
      ni_received info \<or> m \<le> ni_retry_count (fst (ng_check m b now info))"
    by (auto simp: ng_check_def split: if_splits)
  show "ni_retry_count info \<le> m \<Longrightarrow> ni_retry_count (fst (ng_check m b now info)) \<le> m"
    by (auto simp: ng_check_def not_le le)
  show "snd (ng_check m b now info) \<Longrightarrow> \<not> ni_received info"
    by (auto simp: ng_check_def)
  show "ni_retry_count info \<le> m \<Longrightarrow> unat (ni_retry_count (fst (ng_check m b now info))) =
      unat (ni_retry_count info) + (if snd (ng_check m b now info) then 1 else 0)"
    by (auto simp: ng_check_def not_le un)
  show "\<not> ni_received info \<Longrightarrow> ni_retry_count info < m \<Longrightarrow>
      \<not> ni_nacked info \<or> now - ni_last_nack_time info \<ge> b \<Longrightarrow> snd (ng_check m b now info)"
    by (auto simp: ng_check_def)
qed

lemma ng_get_nacks_uninit: "\<not> ng_initialized s \<Longrightarrow> ng_get_nacks now s = ([], s)"
  by (simp add: ng_get_nacks_def)

lemma ng_get_nacks_same:
  assumes "ng_get_nacks now s = (nacks, s')"
  shows "ng_history_size s' = ng_history_size s" "ng_highest_seq s' = ng_highest_seq s"
    "ng_lowest_seq s' = ng_lowest_seq s" "ng_max_retries s' = ng_max_retries s"
    "ng_initialized s' = ng_initialized s" "ng_window s' = ng_window s"
  using assms by (auto simp: ng_get_nacks_def ng_window_def Let_def split: if_splits prod.splits)

lemma ng_wf_get_nacks:
  assumes "ng_wf s" "ng_get_nacks now s = (nacks, s')"
  shows "ng_wf s'"
proof (cases "ng_initialized s")
  case True
  note E = ng_get_nacks_eq [OF assms(1) True assms(2)]
  have "\<forall>info \<in> set (ng_buffer s'). ni_retry_count info \<le> ng_max_retries s"
  proof
    fix info assume "info \<in> set (ng_buffer s')"
    with E(5) obtain x where "x \<in> set (ng_buffer s)"
      "info = x \<or> info = fst (ng_check (ng_max_retries s) (ng_rtt_ms s + 20) now x)" by blast
    moreover from this have "ni_retry_count x \<le> ng_max_retries s"
      using assms(1) unfolding ng_wf_def by blast
    ultimately show "ni_retry_count info \<le> ng_max_retries s" using ng_check_props(3) by blast
  qed
  then show ?thesis
    using assms(1) E(3) unfolding ng_wf_def ng_get_nacks_same [OF assms(2)]
    by (elim conjE) (intro conjI, simp_all only:)
qed (use assms ng_get_nacks_uninit in auto)

lemma ng_implements_get_nacks:
  assumes "ng_implements s A" "ng_get_nacks now s = (nacks, s')"
  shows "ng_implements s' A"
proof (cases A)
  case None
  with assms show ?thesis by (auto simp: ng_implements_def ng_get_nacks_uninit)
next
  case (Some hG)
  obtain h G where A: "A = Some (h, G)" using Some by (cases hG) auto
  let ?n = "unat (ng_history_size s)"
  have R: "ng_wf s" "ng_initialized s" "ng_highest_seq s = h" "h \<in> G"
    "\<forall>x \<in> G. \<exists>i < ?n. x = h - of_nat i"
    "\<forall>i < ?n. h - of_nat i \<in> G \<longrightarrow> ni_received (ng_entry s i)"
    "\<forall>i. 1 \<le> i \<longrightarrow> i < ng_window s \<longrightarrow> ni_received (ng_entry s i) \<longrightarrow>
       h - of_nat i \<in> G \<or> ng_max_retries s \<le> ni_retry_count (ng_entry s i)"
    using assms A by (auto simp: ng_implements_def)
  have win: "ng_window s < ?n" using R(1) unfolding ng_wf_def ng_window_def by linarith
  note E = ng_get_nacks_eq [OF R(1,2) assms(2)]
  have same: "ng_history_size s' = ng_history_size s" "ng_highest_seq s' = ng_highest_seq s"
    "ng_max_retries s' = ng_max_retries s" "ng_initialized s'" "ng_window s' = ng_window s"
    using ng_get_nacks_same [OF assms(2)] R(2) by simp_all
  have "ng_implements s' (Some (h, G))"
  proof (rule ng_implementsI)
    fix i assume i: "i < unat (ng_history_size s')" "h - of_nat i \<in> G"
    have n: "i < ?n" using i(1) same(1) by simp
    with R(6) i(2) have "ni_received (ng_entry s i)" by blast
    then show "ni_received (ng_entry s' i)" unfolding E(4) [OF n] by (simp add: ng_check_props(1))
  next
    fix i assume i: "1 \<le> i" "i < ng_window s'" "ni_received (ng_entry s' i)"
    have n: "i < ?n" and w: "i < ng_window s" using i(2) same(5) win by simp_all
    have "ng_entry s' i = fst (ng_check (ng_max_retries s) (ng_rtt_ms s + 20) now (ng_entry s i))"
      using E(4) [OF n] i(1) w by (simp add: ng_window_def)
    then show "h - of_nat i \<in> G \<or> ng_max_retries s' \<le> ni_retry_count (ng_entry s' i)"
      using ng_check_props(1,2) R(7) i(1,3) w same(3) by (metis fst_conv)
  next
    fix x assume "x \<in> G"
    then show "\<exists>i < unat (ng_history_size s'). x = h - of_nat i" using R(5) same(1) by simp
  qed (use same R ng_wf_get_nacks [OF R(1) assms(2)] in simp_all)
  then show ?thesis by (simp add: A)
qed

section \<open>Runs of a generator\<close>

inductive ng_run :: "nack_generator \<Rightarrow> nack_window \<Rightarrow> bool" where
  ng_start: "unat hs dvd 0x10000 \<Longrightarrow> unat hs \<le> 0x4000 \<Longrightarrow>
    ng_run (nack_generator_new hs max_retries rtt delay) None"
| ng_receive: "ng_run s A \<Longrightarrow>
    ng_run (ng_receive_packet seq s) (nw_receive (int (unat (ng_history_size s))) seq A)"
| ng_poll: "ng_run s A \<Longrightarrow> ng_run (snd (ng_get_nacks now s)) A"
| ng_rtt: "ng_run s A \<Longrightarrow> ng_run (ng_update_rtt rtt s) A"

text \<open>
  C23: Refinement. After any sequence of received packets, NACK polls and round-trip updates, the
  ring of a generator whose size divides 65536 (the code uses 1024) implements the abstract window:
  it agrees on the highest number, every number of the window that was received is marked, and
  every entry marked strictly inside the scanned window is a received number or one that was given
  up after the maximal number of requests.
\<close>
theorem nack_run_implements:
  assumes "ng_run s A"
  shows "ng_implements s A"
  using assms
proof induction
  case (ng_start hs max_retries rtt delay)
  have "0 < unat hs" using dvd_pos_nat [OF _ ng_start(1)] by simp
  from ng_wf_new [OF ng_start this] show ?case by (simp add: ng_implements_def nack_generator_new_def)
next
  case (ng_poll s A now)
  then show ?case using ng_implements_get_nacks by (metis prod.collapse)
next
  case (ng_rtt s A rtt)
  then show ?case
    by (auto simp: ng_implements_def ng_update_rtt_def ng_wf_def ng_entry_def ng_window_def split: option.splits)
qed (rule ng_implements_receive)

lemma of_nat_seq_inj: "inj_on (\<lambda>i. (h :: u16) - of_nat i) {..<0x8000}"
  by (rule inj_onI) (use of_nat_diff_eq_0 in simp)

lemma distinct_window: "n \<le> 0x4000 \<Longrightarrow> distinct (map (\<lambda>i. (h :: u16) - of_nat i) (filter P [1..<n]))"
  unfolding distinct_map
  by (intro conjI distinct_filter distinct_upt inj_on_subset [OF of_nat_seq_inj]) auto

definition nack_sample :: nack_generator where
  "nack_sample = ng_receive_packet 2 (ng_receive_packet 65534 (nack_generator_new 8 10 100 10))"

lemma nack_sample_run:
  "ng_run nack_sample (nw_receive 8 2 (nw_receive 8 65534 None))"
  using ng_receive [OF ng_receive [OF ng_start [of 8 10 100 10], of 65534], of 2]
  by (simp add: nack_sample_def ng_receive_packet_def nack_generator_new_def Let_def)

theorem nack_run_implements_witness:
  "ng_implements nack_sample (nw_receive 8 2 (nw_receive 8 65534 None))"
  by (rule nack_run_implements [OF nack_sample_run])

text \<open>
  C24: What is requested. On every reachable generator the numbers \<open>get_nacks\<close> returns are distinct,
  lie strictly between the lowest and the highest number of the window, and were not received; and
  every number of that range that was not received, has requests left, and was never requested or
  last requested a round trip and 20 ms ago, is returned.
\<close>
theorem nack_requests_missing:
  assumes "ng_run s (Some (h, G))" "ng_get_nacks now s = (nacks, s')"
  shows "distinct nacks \<and>
    (\<forall>x \<in> set nacks. x \<notin> G \<and> (\<exists>i. 1 \<le> i \<and> i < ng_window s \<and> x = h - of_nat i)) \<and>
    (\<forall>i. 1 \<le> i \<longrightarrow> i < ng_window s \<longrightarrow> h - of_nat i \<notin> G \<longrightarrow>
       ni_retry_count (ng_entry s i) < ng_max_retries s \<longrightarrow>
       \<not> ni_nacked (ng_entry s i) \<or> now - ni_last_nack_time (ng_entry s i) \<ge> ng_rtt_ms s + 20 \<longrightarrow>
       h - of_nat i \<in> set nacks)"
proof -
  let ?n = "unat (ng_history_size s)" and ?ws = "[1..<ng_window s]"
  let ?check = "ng_check (ng_max_retries s) (ng_rtt_ms s + 20) now"
  have R: "ng_wf s" "ng_initialized s" "ng_highest_seq s = h"
    "\<forall>i < ?n. h - of_nat i \<in> G \<longrightarrow> ni_received (ng_entry s i)"
    "\<forall>i. 1 \<le> i \<longrightarrow> i < ng_window s \<longrightarrow> ni_received (ng_entry s i) \<longrightarrow>
       h - of_nat i \<in> G \<or> ng_max_retries s \<le> ni_retry_count (ng_entry s i)"
    using nack_run_implements [OF assms(1)] by (auto simp: ng_implements_def)
  have win: "ng_window s < ?n" "?n \<le> 0x4000"
    using R(1) unfolding ng_wf_def ng_window_def by linarith+
  have ns: "nacks = map (\<lambda>i. h - of_nat i) (filter (\<lambda>i. snd (?check (ng_entry s i))) ?ws)"
    using ng_get_nacks_eq(1) [OF R(1,2) assms(2)] by (simp add: R(3) ng_window_def)
  have "distinct nacks" unfolding ns by (rule distinct_window) (use win in linarith)
  moreover have "h - of_nat i \<notin> G" if "i < ng_window s" "snd (?check (ng_entry s i))" for i
    using that R(4) win(1) ng_check_props(4) by (meson less_trans)
  moreover have "snd (?check (ng_entry s i))"
    if "1 \<le> i" "i < ng_window s" "h - of_nat i \<notin> G" "ni_retry_count (ng_entry s i) < ng_max_retries s"
      "\<not> ni_nacked (ng_entry s i) \<or> now - ni_last_nack_time (ng_entry s i) \<ge> ng_rtt_ms s + 20" for i
    using that R(5) ng_check_props(6) by (meson not_le)
  ultimately show ?thesis unfolding ns by auto
qed

theorem nack_requests_missing_witness:
  "distinct (fst (ng_get_nacks 1000 nack_sample)) \<and>
   list_all (\<lambda>x. \<exists>i. 1 \<le> i \<and> i < ng_window nack_sample \<and> x = 2 - of_nat i)
      (fst (ng_get_nacks 1000 nack_sample))"
proof -
  obtain G where G: "nw_receive 8 2 (nw_receive 8 65534 None) = Some (2, G)"
    by (simp add: nw_receive_def seq_distance_def Let_def)
  obtain ns s' where ns: "ng_get_nacks 1000 nack_sample = (ns, s')" by fastforce
  show ?thesis using nack_requests_missing [OF nack_sample_run [unfolded G] ns] ns by (simp add: list_all_iff)
qed

text \<open>Successive polls with no packet in between.\<close>

fun ng_polls :: "int list \<Rightarrow> nack_generator \<Rightarrow> u16 list \<times> nack_generator" where
  "ng_polls [] s = ([], s)"
| "ng_polls (now # nows) s =
     (let (nacks, s1) = ng_get_nacks now s; (more, s2) = ng_polls nows s1 in (nacks @ more, s2))"

lemma count_list_distinct: "distinct xs \<Longrightarrow> count_list xs x = (if x \<in> set xs then 1 else 0)"
  by (induction xs) auto

lemma ng_get_nacks_count:
  assumes "ng_wf s" "ng_initialized s" "ng_get_nacks now s = (nacks, s')"
  shows "i < unat (ng_history_size s) \<Longrightarrow> unat (ni_retry_count (ng_entry s' i)) =
      unat (ni_retry_count (ng_entry s i)) + count_list nacks (ng_highest_seq s - of_nat i)"
    and "count_list nacks x \<noteq> 0 \<Longrightarrow> \<exists>i < unat (ng_history_size s). x = ng_highest_seq s - of_nat i"
proof -
  let ?n = "unat (ng_history_size s)" and ?h = "ng_highest_seq s" and ?ws = "[1..<ng_window s]"
  let ?check = "ng_check (ng_max_retries s) (ng_rtt_ms s + 20) now"
  have win: "ng_window s < ?n" "?n \<le> 0x4000" "0 < ?n" "length (ng_buffer s) = ?n"
    using assms(1) unfolding ng_wf_def ng_window_def by linarith+
  note E = ng_get_nacks_eq [OF assms, folded ng_window_def]
  have dis: "distinct nacks" unfolding E(1) by (rule distinct_window) (use win in linarith)
  show "\<exists>i < ?n. x = ?h - of_nat i" if "count_list nacks x \<noteq> 0"
  proof -
    have "x \<in> set nacks" using that by (simp add: count_list_0_iff)
    then show ?thesis unfolding E(1) using win(1) by (auto intro: less_trans)
  qed
  show "unat (ni_retry_count (ng_entry s' i)) =
      unat (ni_retry_count (ng_entry s i)) + count_list nacks (?h - of_nat i)" if i: "i < ?n"
  proof -
    have inj: "?h - of_nat i = ?h - of_nat j \<longleftrightarrow> i = j" if "j < ng_window s" for j
      using of_nat_diff_eq_0 [of i j ?h] i that win by auto
    have mem: "?h - of_nat i \<in> set nacks \<longleftrightarrow> i \<in> set ?ws \<and> snd (?check (ng_entry s i))"
      unfolding E(1) using inj by auto
    have "ng_entry s i \<in> set (ng_buffer s)"
      unfolding ng_entry_def using ng_index_less [OF win(3)] win(4) by (intro nth_mem) simp
    then have "ni_retry_count (ng_entry s i) \<le> ng_max_retries s"
      using assms(1) unfolding ng_wf_def by blast
    note c = ng_check_props(5) [OF this, of "ng_rtt_ms s + 20" now]
    show ?thesis
      unfolding E(4) [OF i] count_list_distinct [OF dis] mem using c by simp
  qed
qed

lemma ng_polls_count:
  assumes "ng_wf s" "ng_initialized s" "ng_polls nows s = (nacks, s')"
  shows "count_list nacks x \<le> unat (ng_max_retries s)"
proof -
  have "ng_wf s' \<and> ng_max_retries s' = ng_max_retries s \<and> ng_history_size s' = ng_history_size s \<and>
     (\<forall>i < unat (ng_history_size s). unat (ni_retry_count (ng_entry s' i)) =
       unat (ni_retry_count (ng_entry s i)) + count_list nacks (ng_highest_seq s - of_nat i)) \<and>
     (\<forall>x. count_list nacks x \<noteq> 0 \<longrightarrow> (\<exists>i < unat (ng_history_size s). x = ng_highest_seq s - of_nat i))"
    using assms
  proof (induction nows arbitrary: s nacks)
    case (Cons now nows)
    obtain n1 s1 where p: "ng_get_nacks now s = (n1, s1)" by fastforce
    obtain n2 where q: "ng_polls nows s1 = (n2, s')" and n: "nacks = n1 @ n2"
      using Cons.prems(3) p by (auto split: prod.splits)
    note same = ng_get_nacks_same [OF p]
    have "ng_wf s1" "ng_initialized s1" using ng_wf_get_nacks [OF Cons.prems(1) p] same Cons.prems(2) by simp_all
    from Cons.IH [OF this q] ng_get_nacks_count [OF Cons.prems(1,2) p] show ?case
      unfolding same n by (auto simp: add.assoc)
  qed simp
  note P = this
  show ?thesis
  proof (cases "count_list nacks x = 0")
    case False
    with P obtain i where i: "i < unat (ng_history_size s)" "x = ng_highest_seq s - of_nat i" by blast
    have w: "ng_wf s'" "0 < unat (ng_history_size s')" using P by (auto simp: ng_wf_def)
    have "ng_entry s' i \<in> set (ng_buffer s')"
      unfolding ng_entry_def using ng_index_less [OF w(2)] w(1) by (intro nth_mem) (simp add: ng_wf_def)
    then have "ni_retry_count (ng_entry s' i) \<le> ng_max_retries s"
      using w(1) P unfolding ng_wf_def by metis
    then show ?thesis using P i by (simp add: word_le_nat_alt)
  qed simp
qed

text \<open>
  No NACK storm. However often a reachable generator is polled before the next packet arrives,
  no sequence number is requested more than \<open>_max_retries\<close> times.
\<close>
theorem nack_retries_bounded:
  assumes "ng_run s (Some (h, G))" "ng_polls nows s = (nacks, s')"
  shows "count_list nacks x \<le> unat (ng_max_retries s)"
  using nack_run_implements [OF assms(1)] ng_polls_count [OF _ _ assms(2)]
  by (auto simp: ng_implements_def)

theorem nack_retries_bounded_witness:
  "count_list (fst (ng_polls [0, 200, 400] nack_sample)) 1 \<le> 10"
proof -
  obtain G where G: "nw_receive 8 2 (nw_receive 8 65534 None) = Some (2, G)"
    by (simp add: nw_receive_def seq_distance_def Let_def)
  obtain ns s' where ns: "ng_polls [0, 200, 400] nack_sample = (ns, s')" by fastforce
  have "ng_max_retries nack_sample = 10"
    by (simp add: nack_sample_def ng_receive_packet_def nack_generator_new_def Let_def)
  with nack_retries_bounded [OF nack_sample_run [unfolded G] ns, of 1] ns show ?thesis by simp
qed

end
