(* ===== verification/Twcc.thy ===== *)
theory Twcc
  imports Rtp Rtcp "HOL-Library.Signed_Division"
begin

text \<open>
  Transport-wide congestion control feedback of a receiver, \<open>src/twcc.cpp\<close>: \<open>handle_incoming\<close>
  records the arrival of the packets whose header extension 4 carries a transport sequence number,
  \<open>report\<close> turns the recorded arrivals into one feedback message. Instants are integers in
  nanoseconds since the epoch of the steady clock; \<open>clk i\<close> is the reading for the \<open>i\<close>-th element.
\<close>

record tcc_entry =
  te_seq :: u16
  te_ts :: int

record transport_cc =
  tw_recv :: "tcc_entry list"
  tw_next_report_seq :: u16
  tw_sender_ssrc :: u32
  tw_media_ssrc :: u32
  tw_fb_count :: u8

definition transport_cc_new :: "u16 \<Rightarrow> u16 \<Rightarrow> transport_cc" where
  "transport_cc_new sender_ssrc media_ssrc =
     \<lparr>tw_recv = [], tw_next_report_seq = 0, tw_sender_ssrc = ucast sender_ssrc,
      tw_media_ssrc = ucast media_ssrc, tw_fb_count = 0\<rparr>"

definition set_sender_ssrc :: "u32 \<Rightarrow> transport_cc \<Rightarrow> transport_cc" where
  "set_sender_ssrc ssrc s = s\<lparr>tw_sender_ssrc := ssrc\<rparr>"

definition set_media_ssrc :: "u32 \<Rightarrow> transport_cc \<Rightarrow> transport_cc" where
  "set_media_ssrc ssrc s = s\<lparr>tw_media_ssrc := ssrc\<rparr>"

abbreviation max_tcc_count :: nat where "max_tcc_count \<equiv> 100"

text \<open>
  \<open>lower_bound\<close> with the wrap-around comparison, and the insertion of a number that is not there yet.
\<close>

definition tcc_before :: "u16 \<Rightarrow> u16 \<Rightarrow> bool" where
  "tcc_before a b \<longleftrightarrow> sint (a - b) < 0"

definition tcc_insert :: "tcc_entry \<Rightarrow> tcc_entry list \<Rightarrow> tcc_entry list" where
  "tcc_insert e recv =
     (let front = takeWhile (\<lambda>a. tcc_before (te_seq a) (te_seq e)) recv;
          back = dropWhile (\<lambda>a. tcc_before (te_seq a) (te_seq e)) recv
      in if (case back of [] \<Rightarrow> True | b # _ \<Rightarrow> te_seq b \<noteq> te_seq e) then front @ e # back else recv)"

section \<open>Reports\<close>

definition tcc_delta :: "int \<Rightarrow> int \<Rightarrow> int" where
  "tcc_delta ts last_ts = ((ts - last_ts) sdiv 1000) sdiv 250"

definition tcc_classify :: "int \<Rightarrow> tcc_packet_info" where
  "tcc_classify delta =
     \<lparr>ti_status =
        (if delta < - 128 \<or> delta > 127
         then (if delta < - 32768 \<or> delta > 32767 then received_without_delta else large_delta)
         else small_delta),
      ti_delta = of_int delta\<rparr>"

text \<open>
  The inner loop, up to the number of the next entry: how many packets are reported missing, the
  next number to report, and whether the entry was reached before the report was full. \<open>n\<close> is
  \<open>packets.size()\<close>.
\<close>

function tcc_gap :: "u16 \<Rightarrow> u16 \<Rightarrow> nat \<Rightarrow> nat \<times> u16 \<times> bool" where
  "tcc_gap next_seq seq n =
     (if next_seq = seq then (0, next_seq, True)
      else if n \<ge> max_tcc_count then (0, next_seq, False)
      else (let (k, nx, reached) = tcc_gap (next_seq + 1) seq (n + 1) in (Suc k, nx, reached)))"
  by pat_completeness auto
termination
  by (relation "measure (\<lambda>(_, _, n). max_tcc_count - n)") auto

declare tcc_gap.simps [simp del]

definition missing :: tcc_packet_info where
  "missing = \<lparr>ti_status = not_received, ti_delta = 0\<rparr>"

fun tcc_collect :: "u16 \<Rightarrow> int \<Rightarrow> tcc_entry list \<Rightarrow> nat \<Rightarrow> tcc_packet_info list \<times> u16 \<times> tcc_entry list" where
  "tcc_collect next_seq last_ts [] n = ([], next_seq, [])"
| "tcc_collect next_seq last_ts (e # es) n =
     (if n \<ge> max_tcc_count then ([], next_seq, e # es)
      else (let (k, nx, reached) = tcc_gap next_seq (te_seq e) n
            in if reached
               then (let (ps, nx', rest) = tcc_collect (nx + 1) (te_ts e) es (n + k + 1)
                     in (replicate k missing @ tcc_classify (tcc_delta (te_ts e) last_ts) # ps, nx', rest))
               else (replicate k missing, nx, e # es)))"

definition tcc_base_us :: "int \<Rightarrow> u64" where
  "tcc_base_us ts = of_int (ts sdiv 1000)"

definition tcc_ref_64ms :: "int \<Rightarrow> u64" where
  "tcc_ref_64ms ts = tcc_base_us ts div 64000 * 64000"

definition tcc_report :: "binary_lib \<Rightarrow> transport_cc \<Rightarrow> bytes \<times> transport_cc" where
  "tcc_report B s =
     (case tw_recv s of [] \<Rightarrow> ([], s) | e # _ \<Rightarrow>
       (let next_seq = (if tw_fb_count s = 0 then te_seq e else tw_next_report_seq s);
            base_seq = next_seq;
            ref_64ms = tcc_ref_64ms (te_ts e);
            last_ts = te_ts e - int (unat (tcc_base_us (te_ts e) - ref_64ms)) * 1000;
            (packets, next', rest) = tcc_collect next_seq last_ts (tw_recv s) 0;
            fb_count = tw_fb_count s + 1
        in (build_transport_cc B
              \<lparr>tc_sender_ssrc = tw_sender_ssrc s, tc_media_ssrc = tw_media_ssrc s, tc_base_seq = base_seq,
               tc_status_count = of_nat (length packets),
               tc_reference_time = ucast (ref_64ms div 64000) AND 0xFFFFFF,
               tc_feedback_packet_count = fb_count,
               tc_packet_chunks = tcc_build_packet_status B packets\<rparr>,
            s\<lparr>tw_recv := rest, tw_next_report_seq := next', tw_fb_count := fb_count\<rparr>)))"

section \<open>What a report covers\<close>

lemma tcc_gap_spec:
  assumes "tcc_gap nx seq n = (k, nx', reached)"
  shows "nx' = nx + of_nat k \<and> (reached \<longrightarrow> nx' = seq) \<and> (\<not> reached \<longrightarrow> n + k \<ge> max_tcc_count) \<and>
    (n \<le> max_tcc_count \<longrightarrow> n + k \<le> max_tcc_count)"
  using assms
proof (induction nx seq n arbitrary: k rule: tcc_gap.induct)
  case (1 nx seq n)
  show ?case
  proof (cases "nx = seq \<or> n \<ge> max_tcc_count")
    case True
    with 1(2) show ?thesis by (subst (asm) tcc_gap.simps) (auto split: if_splits)
  next
    case False
    obtain j where j: "tcc_gap (nx + 1) seq (n + 1) = (j, nx', reached)" "k = Suc j"
      using 1(2) False by (subst (asm) tcc_gap.simps) (auto split: prod.splits)
    with 1(1) [of j] False show ?thesis by (auto simp: add.assoc)
  qed
qed

definition tcc_received :: "u16 \<Rightarrow> tcc_packet_info list \<Rightarrow> u16 list" where
  "tcc_received base ps =
     map (\<lambda>j. base + of_nat j) (filter (\<lambda>j. ti_status (ps ! j) \<noteq> not_received) [0..<length ps])"

lemma tcc_received_Nil [simp]: "tcc_received base [] = []"
  by (simp add: tcc_received_def)

lemma tcc_received_Cons:
  "tcc_received base (p # ps) = (if ti_status p \<noteq> not_received then [base] else []) @ tcc_received (base + 1) ps"
  by (simp add: tcc_received_def upt_conv_Cons map_Suc_upt [symmetric] filter_map comp_def add.assoc
      del: upt_Suc)

lemma tcc_received_missing:
  "tcc_received base (replicate k missing @ ps) = tcc_received (base + of_nat k) ps"
  by (induction k arbitrary: base) (simp_all add: tcc_received_Cons missing_def add.assoc)

lemma tcc_classify_received: "ti_status (tcc_classify delta) \<noteq> not_received"
  by (simp add: tcc_classify_def)

lemma tcc_collect_spec:
  assumes "tcc_collect nx last_ts es n = (ps, nx', rest)"
  shows "\<exists>cov. es = cov @ rest \<and> nx' = nx + of_nat (length ps) \<and>
    tcc_received nx ps = map te_seq cov \<and> (n \<le> max_tcc_count \<longrightarrow> n + length ps \<le> Suc max_tcc_count) \<and>
    (rest \<noteq> [] \<longrightarrow> n + length ps \<ge> max_tcc_count)"
  using assms
proof (induction nx last_ts es n arbitrary: ps nx' rest rule: tcc_collect.induct)
  case (2 nx last_ts e es n)
  obtain k m reached where g: "tcc_gap nx (te_seq e) n = (k, m, reached)" by (metis prod_cases3)
  note G = tcc_gap_spec [OF g]
  consider "n \<ge> max_tcc_count" | "n < max_tcc_count" "\<not> reached" | "n < max_tcc_count" "reached" by linarith
  then show ?case
  proof cases
    case 1
    with 2(2) show ?thesis by auto
  next
    case 2
    with \<open>tcc_collect nx last_ts (e # es) n = _\<close> g
    have "ps = replicate k missing" "nx' = m" "rest = e # es" by auto
    with 2 G tcc_received_missing [of nx k "[]"] show ?thesis by auto
  next
    case 3
    obtain qs where q: "tcc_collect (m + 1) (te_ts e) es (n + k + 1) = (qs, nx', rest)"
      and ps: "ps = replicate k missing @ tcc_classify (tcc_delta (te_ts e) last_ts) # qs"
      using 3 2(2) g by (auto split: prod.splits)
    have "\<not> n \<ge> max_tcc_count" using 3 by simp
    from 2(1) [OF this g [symmetric] refl refl _ q] 3(2)
    obtain cov where cov: "es = cov @ rest" "nx' = m + 1 + of_nat (length qs)"
      "tcc_received (m + 1) qs = map te_seq cov"
      "n + k + 1 \<le> max_tcc_count \<longrightarrow> n + k + 1 + length qs \<le> Suc max_tcc_count"
      "rest \<noteq> [] \<longrightarrow> n + k + 1 + length qs \<ge> max_tcc_count"
      by auto
    have len: "n + k \<le> max_tcc_count" "m = nx + of_nat k" "m = te_seq e" using G 3 by auto
    have "qs = []" if "n + k = max_tcc_count"
      using q that by (cases es) auto
    then have "n + length ps \<le> Suc max_tcc_count" using cov(4) len(1) ps by (cases "n + k = max_tcc_count") auto
    then show ?thesis
      using cov len tcc_classify_received
      by (intro exI [of _ "e # cov"]) (auto simp: ps tcc_received_missing tcc_received_Cons algebra_simps)
  qed
qed simp

lemma tcc_report_eq:
  assumes "tw_recv s = e # es"
  obtains nx lts ps nx' rest where
    "nx = (if tw_fb_count s = 0 then te_seq e else tw_next_report_seq s)"
    "tcc_collect nx lts (e # es) 0 = (ps, nx', rest)"
    "tcc_report B s = (build_transport_cc B
        \<lparr>tc_sender_ssrc = tw_sender_ssrc s, tc_media_ssrc = tw_media_ssrc s, tc_base_seq = nx,
         tc_status_count = of_nat (length ps),
         tc_reference_time = ucast (tcc_ref_64ms (te_ts e) div 64000) AND 0xFFFFFF,
         tc_feedback_packet_count = tw_fb_count s + 1,
         tc_packet_chunks = tcc_build_packet_status B ps\<rparr>,
      s\<lparr>tw_recv := rest, tw_next_report_seq := nx', tw_fb_count := tw_fb_count s + 1\<rparr>)"
proof -
  define nx where nx: "nx = (if tw_fb_count s = 0 then te_seq e else tw_next_report_seq s)"
  define lts where lts: "lts = te_ts e - int (unat (tcc_base_us (te_ts e) - tcc_ref_64ms (te_ts e))) * 1000"
  obtain ps nx' rest where c: "tcc_collect nx lts (e # es) 0 = (ps, nx', rest)" by (metis prod_cases3)
  show thesis
    by (rule that [OF nx c])
      (simp only: tcc_report_def assms list.case Let_def c prod.case flip: nx lts)
qed

lemma tcc_report_recv:
  assumes "tcc_report B s = (data, s')" "tw_recv s \<noteq> []"
  shows "length (tw_recv s') \<le> length (tw_recv s)" and "tw_fb_count s' = tw_fb_count s + 1"
    and "tw_fb_count s = 0 \<Longrightarrow> length (tw_recv s') < length (tw_recv s)"
proof -
  obtain e es where es: "tw_recv s = e # es" using assms(2) by (cases "tw_recv s") auto
  obtain nx lts ps nx' rest where nx: "nx = (if tw_fb_count s = 0 then te_seq e else tw_next_report_seq s)"
    and c: "tcc_collect nx lts (e # es) 0 = (ps, nx', rest)"
    and s': "tw_recv s' = rest" and fb: "tw_fb_count s' = tw_fb_count s + 1"
    by (rule tcc_report_eq [OF es, of B]) (use assms(1) in auto)
  obtain cov where "e # es = cov @ rest" using tcc_collect_spec [OF c] by blast
  then show "length (tw_recv s') \<le> length (tw_recv s)"
    unfolding s' es by (metis length_append le_add2)
  show "tw_fb_count s' = tw_fb_count s + 1" by (rule fb)
  assume "tw_fb_count s = 0"
  then have "nx = te_seq e" by (simp add: nx)
  then have "tcc_gap nx (te_seq e) 0 = (0, nx, True)" by (subst tcc_gap.simps) simp
  then obtain qs where q: "tcc_collect (nx + 1) (te_ts e) es 1 = (qs, nx', rest)"
    using c by (auto split: prod.splits)
  then show "length (tw_recv s') < length (tw_recv s)"
    using tcc_collect_spec [OF q] unfolding s' es by auto
qed

section \<open>Incoming packets\<close>

text \<open>The loop that reports while more than 200 arrivals are recorded: what is handed to the callback.\<close>

function tcc_drain :: "binary_lib \<Rightarrow> transport_cc \<Rightarrow> bytes list \<times> transport_cc" where
  "tcc_drain B s =
     (if length (tw_recv s) > 200
      then (case tcc_report B s of (data, s1) \<Rightarrow>
             (case tcc_drain B s1 of (outs, s2) \<Rightarrow> ((if data \<noteq> [] then data # outs else outs), s2)))
      else ([], s))"
  by pat_completeness auto
termination
proof (relation "inv_image (less_than <*lex*> less_than)
    (\<lambda>(B, s). (length (tw_recv s), if tw_fb_count s = 0 then 0 else 256 - unat (tw_fb_count s)))")
  fix B :: binary_lib and s s1 :: transport_cc and data
  assume long: "200 < length (tw_recv s)" and "(data, s1) = tcc_report B s"
  then have r: "tcc_report B s = (data, s1)" "tw_recv s \<noteq> []" by auto
  note R = tcc_report_recv [OF r]
  show "((B, s1), B, s) \<in> inv_image (less_than <*lex*> less_than)
    (\<lambda>(B, s). (length (tw_recv s), if tw_fb_count s = 0 then 0 else 256 - unat (tw_fb_count s)))"
  proof (cases "tw_fb_count s = 0 \<or> length (tw_recv s1) < length (tw_recv s)")
    case True
    with R(3) show ?thesis by auto
  next
    case False
    have "unat (tw_fb_count s) < 2 ^ LENGTH(8)" by (rule unsigned_less)
    moreover have "unat (tw_fb_count s + 1) = unat (tw_fb_count s) + 1" if "tw_fb_count s + 1 \<noteq> 0"
      using unatSuc [of "tw_fb_count s"] that by (simp add: add.commute)
    ultimately show ?thesis using False R(1,2) by auto
  qed
qed auto

declare tcc_drain.simps [simp del]

definition tcc_record :: "(nat \<Rightarrow> int) \<Rightarrow> bytes \<Rightarrow> transport_cc \<Rightarrow> transport_cc" where
  "tcc_record clk ext_data s =
     fold (\<lambda>(i, el) s.
        if ee_id el = 4 \<and> ee_length el = 2
        then s\<lparr>tw_recv := tcc_insert
                 \<lparr>te_seq = push_bit 8 (ucast (ee_data el ! 0)) OR ucast (ee_data el ! 1), te_ts = clk i\<rparr>
                 (tw_recv s)\<rparr>
        else s)
       (List.enumerate 0 (rtp_ext_elements ext_data)) s"

definition tcc_handle_incoming ::
  "binary_lib \<Rightarrow> (nat \<Rightarrow> int) \<Rightarrow> bytes \<Rightarrow> bool \<Rightarrow> transport_cc \<Rightarrow> bytes list \<times> transport_cc" where
  "tcc_handle_incoming B clk ext_data cb s =
     (case tcc_drain B (tcc_record clk ext_data s) of (outs, s') \<Rightarrow> (if cb then outs else [], s'))"

section \<open>Properties\<close>

lemma tcc_report_cover:
  assumes "big_endian B" "tw_recv s \<noteq> []" "tcc_report B s = (data, s')"
  shows "\<exists>p base ps time cov. rtcp_parse B data = Some (Some p) \<and> rc_type p = pt_RTPFB \<and> rc_report_count p = 15 \<and>
    rc_media_ssrc p = tw_media_ssrc s \<and>
    rc_payload p = be16_bytes base @ be16_bytes (of_nat (length ps)) @ time @ [tw_fb_count s + 1]
      @ concat (map be16_bytes (tcc_chunks ps)) @ concat (map tcc_delta_bytes ps) \<and> length time = 3 \<and>
    concat (map chunk_symbols (tcc_chunks ps)) = map (\<lambda>i. tcc_symbol (ti_status i)) ps
      @ replicate (7 * length (tcc_chunks ps) - length ps) 0 \<and>
    tcc_received base ps = map te_seq cov \<and> tw_recv s = cov @ tw_recv s' \<and>
    tw_next_report_seq s' = base + of_nat (length ps) \<and>
    base = (if tw_fb_count s = 0 then te_seq (hd (tw_recv s)) else tw_next_report_seq s) \<and>
    length ps \<le> 101 \<and> (tw_recv s' \<noteq> [] \<longrightarrow> length ps \<ge> 100)"
proof -
  obtain e es where es: "tw_recv s = e # es" using assms(2) by (cases "tw_recv s") auto
  obtain nx lts ps nx' rest where nx: "nx = (if tw_fb_count s = 0 then te_seq e else tw_next_report_seq s)"
    and c: "tcc_collect nx lts (e # es) 0 = (ps, nx', rest)"
    and r: "tcc_report B s = (build_transport_cc B
        \<lparr>tc_sender_ssrc = tw_sender_ssrc s, tc_media_ssrc = tw_media_ssrc s, tc_base_seq = nx,
         tc_status_count = of_nat (length ps),
         tc_reference_time = ucast (tcc_ref_64ms (te_ts e) div 64000) AND 0xFFFFFF,
         tc_feedback_packet_count = tw_fb_count s + 1,
         tc_packet_chunks = tcc_build_packet_status B ps\<rparr>,
      s\<lparr>tw_recv := rest, tw_next_report_seq := nx', tw_fb_count := tw_fb_count s + 1\<rparr>)"
    using tcc_report_eq [OF es, of B] by blast
  define fb where "fb = \<lparr>tc_sender_ssrc = tw_sender_ssrc s, tc_media_ssrc = tw_media_ssrc s, tc_base_seq = nx,
     tc_status_count = of_nat (length ps),
     tc_reference_time = ucast (tcc_ref_64ms (te_ts e) div 64000) AND 0xFFFFFF,
     tc_feedback_packet_count = tw_fb_count s + 1, tc_packet_chunks = tcc_build_packet_status B ps\<rparr>"
  have data: "data = build_transport_cc B fb" and s': "tw_recv s' = rest" "tw_next_report_seq s' = nx'"
    using assms(3) r by (auto simp: fb_def)
  obtain cov where cov: "e # es = cov @ rest" "nx' = nx + of_nat (length ps)"
    "tcc_received nx ps = map te_seq cov" "length ps \<le> 101" "rest \<noteq> [] \<longrightarrow> length ps \<ge> 100"
    using tcc_collect_spec [OF c] by auto
  have "length (concat (map tcc_delta_bytes ps)) \<le> 2 * length ps" for ps
    by (induction ps) (auto split: tcc_packet_status.splits)
  moreover have "length (concat (map be16_bytes cs)) = 2 * length cs" for cs by (induction cs) simp_all
  ultimately have "length (tcc_build_packet_status B ps) \<le> 2 * ((length ps + 6) div 7) + 2 * length ps"
    using conjunct2 [OF tcc_chunks_decode [of ps]] assms(1)
    by (simp add: tcc_build_packet_status_def be_simps add_mono)
  also have "\<dots> \<le> 0x30000" using cov(4) by linarith
  finally have "length (tc_packet_chunks fb) \<le> 0x30000" by (simp add: fb_def)
  from transport_cc_roundtrip [OF assms(1) this, folded data] obtain p where p:
    "rtcp_parse B data = Some (Some p)" "rc_type p = pt_RTPFB" "rc_report_count p = 15"
    "rc_media_ssrc p = tw_media_ssrc s" "rc_payload p = transport_cc_fci B fb"
    by (auto simp: fb_def)
  obtain time where time: "length time = 3" "transport_cc_fci B fb = be16_bytes nx @ be16_bytes (of_nat (length ps))
      @ time @ [tw_fb_count s + 1] @ concat (map be16_bytes (tcc_chunks ps)) @ concat (map tcc_delta_bytes ps)"
    using assms(1) that [of "[_, _, _]"]
    by (simp add: transport_cc_fci_def fb_def tcc_build_packet_status_def be_simps)
  have "nx = (if tw_fb_count s = 0 then te_seq (hd (tw_recv s)) else tw_next_report_seq s)"
    by (simp add: nx es)
  with p time cov s' conjunct1 [OF tcc_chunks_decode [of ps]] show ?thesis
    unfolding es [symmetric]
    by (intro exI [of _ p] exI [of _ nx] exI [of _ ps] exI [of _ time] exI [of _ cov]) (simp add: es)
qed

lemma tcc_report_covers_parse:
  assumes "big_endian B" "tw_recv s \<noteq> []" "tcc_report B s = (data, s')"
  shows "\<exists>p. rtcp_parse B data = Some (Some p) \<and> rc_type p = pt_RTPFB \<and> rc_report_count p = 15"
  using tcc_report_cover [OF assms] by blast

text \<open>
  C25: A feedback report says exactly what was received. On a generator with recorded arrivals the
  message parses as transport feedback; its control information starts with the first reported
  number and the number of statuses; the statuses read from its chunks are \<open>packets\<close>, followed by
  zeros; the numbers they report as received are, in order, the recorded arrivals that leave the
  record; the next report starts behind the last status. A report has at most 101 statuses (one more
  than \<open>max_tcc_count\<close>), and at least 100 when arrivals stay recorded.
\<close>
theorem tcc_report_covers:
  assumes "big_endian B" "tw_recv s \<noteq> []" "tcc_report B s = (data, s')"
  shows "\<exists>p base ps time cov. rtcp_parse B data = Some (Some p) \<and> rc_type p = pt_RTPFB \<and> rc_report_count p = 15 \<and>
    rc_media_ssrc p = tw_media_ssrc s \<and>
    rc_payload p = be16_bytes base @ be16_bytes (of_nat (length ps)) @ time @ [tw_fb_count s + 1]
      @ concat (map be16_bytes (tcc_chunks ps)) @ concat (map tcc_delta_bytes ps) \<and> length time = 3 \<and>
    concat (map chunk_symbols (tcc_chunks ps)) = map (\<lambda>i. tcc_symbol (ti_status i)) ps
      @ replicate (7 * length (tcc_chunks ps) - length ps) 0 \<and>
    tcc_received base ps = map te_seq cov \<and> tw_recv s = cov @ tw_recv s' \<and>
    tw_next_report_seq s' = base + of_nat (length ps) \<and>
    base = (if tw_fb_count s = 0 then te_seq (hd (tw_recv s)) else tw_next_report_seq s) \<and>
    length ps \<le> 101 \<and> (tw_recv s' \<noteq> [] \<longrightarrow> length ps \<ge> 100)"
  by (rule tcc_report_cover [OF assms])

definition tcc_sample :: "u16 \<Rightarrow> transport_cc" where
  "tcc_sample seq = (transport_cc_new 0 7)\<lparr>tw_recv := [\<lparr>te_seq = seq, te_ts = 5000000\<rparr>],
     tw_next_report_seq := 10, tw_fb_count := 1\<rparr>"

theorem tcc_report_covers_witness:
  "\<exists>p. rtcp_parse network_lib (fst (tcc_report network_lib (tcc_sample 12))) = Some (Some p) \<and>
     rc_type p = pt_RTPFB \<and> rc_media_ssrc p = 7"
proof -
  obtain data s' where r: "tcc_report network_lib (tcc_sample 12) = (data, s')" by fastforce
  have "tw_recv (tcc_sample 12) \<noteq> []" "tw_media_ssrc (tcc_sample 12) = 7"
    by (simp_all add: tcc_sample_def transport_cc_new_def)
  with tcc_report_covers [OF big_endian_network_lib _ r] r show ?thesis by auto
qed

lemma tcc_gap_far:
  assumes "unat (seq - nx) > max_tcc_count - n" "n \<le> max_tcc_count"
  shows "tcc_gap nx seq n = (max_tcc_count - n, nx + of_nat (max_tcc_count - n), False)"
  using assms
proof (induction nx seq n rule: tcc_gap.induct)
  case (1 nx seq n)
  have ne: "nx \<noteq> seq" using 1(2) by auto
  show ?case
  proof (cases "n = max_tcc_count")
    case False
    have "seq - nx \<noteq> 0" using ne by simp
    then have "unat (seq - nx - 1) = unat (seq - nx) - 1" by (rule unat_minus_one)
    then have d: "unat (seq - (nx + 1)) = unat (seq - nx) - 1" by (simp add: diff_diff_add)
    have "tcc_gap (nx + 1) seq (n + 1) = (max_tcc_count - (n + 1), nx + 1 + of_nat (max_tcc_count - (n + 1)), False)"
      using 1 False ne d by (intro 1(1)) auto
    moreover have "max_tcc_count - n = Suc (max_tcc_count - (n + 1))" using False 1(3) by simp
    ultimately show ?thesis
      using ne False 1(3) by (subst tcc_gap.simps) (simp add: add.assoc)
  qed (use ne in \<open>subst tcc_gap.simps, simp\<close>)
qed

text \<open>
  A report that starts more than 100 numbers before the first recorded arrival consumes nothing:
  it reports 100 numbers as not received, leaves the record as it is and moves on by 100. Because
  numbers are compared modulo 65536 this is also what happens when a packet arrives late, after
  numbers behind it were reported: the first recorded arrival is then nearly a cycle ahead of the
  next number to report.
\<close>
theorem tcc_report_late:
  assumes "tw_fb_count s \<noteq> 0" "tw_recv s = e # es"
    and "unat (te_seq e - tw_next_report_seq s) > 100"
  shows "\<exists>time. tcc_report B s =
    (build_transport_cc B
       \<lparr>tc_sender_ssrc = tw_sender_ssrc s, tc_media_ssrc = tw_media_ssrc s,
        tc_base_seq = tw_next_report_seq s, tc_status_count = 100, tc_reference_time = time,
        tc_feedback_packet_count = tw_fb_count s + 1,
        tc_packet_chunks = tcc_build_packet_status B (replicate 100 missing)\<rparr>,
     s\<lparr>tw_next_report_seq := tw_next_report_seq s + 100, tw_fb_count := tw_fb_count s + 1\<rparr>)"
proof -
  obtain nx lts ps nx' rest where nx: "nx = (if tw_fb_count s = 0 then te_seq e else tw_next_report_seq s)"
    and c: "tcc_collect nx lts (e # es) 0 = (ps, nx', rest)"
    and r: "tcc_report B s = (build_transport_cc B
        \<lparr>tc_sender_ssrc = tw_sender_ssrc s, tc_media_ssrc = tw_media_ssrc s, tc_base_seq = nx,
         tc_status_count = of_nat (length ps),
         tc_reference_time = ucast (tcc_ref_64ms (te_ts e) div 64000) AND 0xFFFFFF,
         tc_feedback_packet_count = tw_fb_count s + 1,
         tc_packet_chunks = tcc_build_packet_status B ps\<rparr>,
      s\<lparr>tw_recv := rest, tw_next_report_seq := nx', tw_fb_count := tw_fb_count s + 1\<rparr>)"
    using tcc_report_eq [OF assms(2), of B] by blast
  have nx2: "nx = tw_next_report_seq s" using nx assms(1) by simp
  have "tcc_gap nx (te_seq e) 0 = (100, nx + 100, False)"
    using tcc_gap_far [where seq = "te_seq e" and nx = nx and n = 0] assms(3) unfolding nx2 by simp
  with c have "ps = replicate 100 missing" "nx' = nx + 100" "rest = e # es" by auto
  with r nx2 assms(2) show ?thesis
    by (intro exI [of _ "ucast (tcc_ref_64ms (te_ts e) div 64000) AND 0xFFFFFF"]) simp
qed

theorem tcc_report_late_witness:
  "tw_recv (snd (tcc_report network_lib (tcc_sample 9))) = tw_recv (tcc_sample 9) \<and>
   tw_next_report_seq (snd (tcc_report network_lib (tcc_sample 9))) = 110"
proof -
  have d: "unat (9 - 10 :: u16) = 65535"
    by (simp add: unsigned_minus_1_eq_mask mask_eq_exp_minus_1)
  have "\<exists>time. tcc_report network_lib (tcc_sample 9) =
    (build_transport_cc network_lib
       \<lparr>tc_sender_ssrc = tw_sender_ssrc (tcc_sample 9), tc_media_ssrc = tw_media_ssrc (tcc_sample 9),
        tc_base_seq = tw_next_report_seq (tcc_sample 9), tc_status_count = 100, tc_reference_time = time,
        tc_feedback_packet_count = tw_fb_count (tcc_sample 9) + 1,
        tc_packet_chunks = tcc_build_packet_status network_lib (replicate 100 missing)\<rparr>,
     (tcc_sample 9)\<lparr>tw_next_report_seq := tw_next_report_seq (tcc_sample 9) + 100,
       tw_fb_count := tw_fb_count (tcc_sample 9) + 1\<rparr>)"
    by (rule tcc_report_late [of _ "\<lparr>te_seq = 9, te_ts = 5000000\<rparr>" "[]"])
      (use d in \<open>simp_all add: tcc_sample_def transport_cc_new_def\<close>)
  then show ?thesis by (auto simp: tcc_sample_def)
qed

lemma tcc_drain_short: "length (tw_recv (snd (tcc_drain B s))) \<le> 200"
proof (induction B s rule: tcc_drain.induct)
  case (1 B s)
  then show ?case
    by (subst tcc_drain.simps) (auto split: prod.splits)
qed

text \<open>
  C26: Handling a packet terminates and bounds the memory: however many arrivals one header extension
  adds, the reporting loop ends (although single reports may consume nothing, see above) with at most
  200 recorded arrivals, and every message it sends is a well-formed transport feedback packet.
\<close>
theorem tcc_handle_incoming_bounded:
  assumes "big_endian B" "tcc_handle_incoming B clk ext_data cb s = (outs, s')"
  shows "length (tw_recv s') \<le> 200 \<and>
    (\<forall>data \<in> set outs. \<exists>p. rtcp_parse B data = Some (Some p) \<and> rc_type p = pt_RTPFB \<and> rc_report_count p = 15)"
proof -
  let ?s = "tcc_record clk ext_data s"
  have "\<exists>p. rtcp_parse B data = Some (Some p) \<and> rc_type p = pt_RTPFB \<and> rc_report_count p = 15"
    if "data \<in> set (fst (tcc_drain B t))" for data t
    using assms(1) that
  proof (induction B t rule: tcc_drain.induct)
    case (1 B s)
    obtain d s1 where r: "tcc_report B s = (d, s1)" by fastforce
    obtain o2 s2 where q: "tcc_drain B s1 = (o2, s2)" by fastforce
    show ?case
    proof (cases "length (tw_recv s) > 200")
      case True
      then have ne: "tw_recv s \<noteq> []" by auto
      from 1(3) True r q have "data = d \<or> data \<in> set o2"
        by (subst (asm) tcc_drain.simps) (auto split: if_splits)
      with 1(1) [OF True r [symmetric] 1(2)] q tcc_report_covers_parse [OF 1(2) ne r] show ?thesis by auto
    next
      case False
      with 1(3) show ?thesis by (subst (asm) tcc_drain.simps) simp
    qed
  qed
  note sent = this
  obtain o2 s2 where d: "tcc_drain B ?s = (o2, s2)" by fastforce
  then have "s' = s2" "set outs \<subseteq> set o2"
    using assms(2) by (auto simp: tcc_handle_incoming_def split: if_splits)
  then show ?thesis using tcc_drain_short [of B ?s] sent [of _ ?s] d by auto
qed

theorem tcc_handle_incoming_bounded_witness:
  "length (tw_recv (snd (tcc_handle_incoming network_lib (\<lambda>i. 1000 * int i) [0x41, 0, 5, 0] True (transport_cc_new 0 0)))) \<le> 200"
proof -
  obtain outs s' where "tcc_handle_incoming network_lib (\<lambda>i. 1000 * int i) [0x41, 0, 5, 0] True (transport_cc_new 0 0) = (outs, s')"
    by fastforce
  with tcc_handle_incoming_bounded [OF big_endian_network_lib this] show ?thesis by simp
qed

end
