(* ===== verification/SsrcStats.thy ===== *)
theory SsrcStats
  imports Nack
begin

text \<open>
  The reception statistics of one source, \<open>src/ssrc_context.hpp\<close>: extended highest number, expected
  and received packets, interarrival jitter and the fraction lost of the reports. Unsigned counters
  keep their width. The jitter is computed in \<open>int\<close>: a result outside 32 bits is undefined behaviour
  and makes \<open>track_packet\<close> return \<open>None\<close>. Instants are nanoseconds of the steady clock.
\<close>

record ssrc_context =
  sc_ssrc :: u32
  sc_max_seq :: u32
  sc_cycles :: u64
  sc_base_seq :: u32
  sc_base_seq_set :: bool
  sc_packets_expected :: u64
  sc_packets_received :: u64
  sc_expected_prior :: u64
  sc_received_prior :: u64
  sc_jitter_q4 :: int
  sc_last_arrival_ts :: u32
  sc_last_rtp_ts :: u32
  sc_lsr :: u64
  sc_consecutive_lost :: int
  sc_lsr_time :: int
  sc_nack_gen :: nack_generator

definition ssrc_context_new :: "u32 \<Rightarrow> ssrc_context" where
  "ssrc_context_new ssrc =
     \<lparr>sc_ssrc = ssrc, sc_max_seq = 0, sc_cycles = 0, sc_base_seq = 0, sc_base_seq_set = False,
      sc_packets_expected = 0, sc_packets_received = 0, sc_expected_prior = 0, sc_received_prior = 0,
      sc_jitter_q4 = 0, sc_last_arrival_ts = 0, sc_last_rtp_ts = 0, sc_lsr = 0,
      sc_consecutive_lost = 0, sc_lsr_time = 0, sc_nack_gen = nack_generator_new 1024 10 100 10\<rparr>"

definition chk_int :: "int \<Rightarrow> int option" where
  "chk_int x = (if - (2 ^ 31) \<le> x \<and> x < 2 ^ 31 then Some x else None)"

definition sc_track_seq :: "u16 \<Rightarrow> ssrc_context \<Rightarrow> ssrc_context" where
  "sc_track_seq seq s =
     (let sq = ucast seq :: u32;
          s = (if \<not> sc_base_seq_set s then s\<lparr>sc_base_seq := sq, sc_base_seq_set := True\<rparr> else s);
          s = (if sq < sc_max_seq s
               then (if sc_max_seq s - sq > 0x8000
                     then s\<lparr>sc_cycles := sc_cycles s + 0x10000, sc_max_seq := sq\<rparr> else s)
               else s\<lparr>sc_max_seq := sq\<rparr>)
      in s\<lparr>sc_packets_expected := sc_cycles s + ucast (sc_max_seq s) - ucast (sc_base_seq s) + 1,
           sc_packets_received := sc_packets_received s + 1\<rparr>)"

definition arrival_ts :: "int \<Rightarrow> u32" where
  "arrival_ts now = of_int ((now sdiv 1000) sdiv 1000 * 90)"

text \<open>\<open>x >> 4\<close> on an \<open>int\<close> is the arithmetic shift.\<close>

definition sc_track_jitter :: "u32 \<Rightarrow> int \<Rightarrow> ssrc_context \<Rightarrow> ssrc_context option" where
  "sc_track_jitter rtp_ts now s = do {
     let arr_ts = arrival_ts now;
     j \<leftarrow> (if sc_last_arrival_ts s \<noteq> 0
           then do {
             transit \<leftarrow> chk_int (sint (arr_ts - sc_last_arrival_ts s) - sint (rtp_ts - sc_last_rtp_ts s));
             transit \<leftarrow> chk_int (if transit < 0 then - transit else transit);
             up \<leftarrow> chk_int (sc_jitter_q4 s + 8);
             step \<leftarrow> chk_int (transit - up div 16);
             chk_int (sc_jitter_q4 s + step) }
           else Some (sc_jitter_q4 s));
     Some (s\<lparr>sc_jitter_q4 := j, sc_last_arrival_ts := arr_ts, sc_last_rtp_ts := rtp_ts\<rparr>) }"

definition sc_track_packet :: "u16 \<Rightarrow> u32 \<Rightarrow> int \<Rightarrow> ssrc_context \<Rightarrow> ssrc_context option" where
  "sc_track_packet seq rtp_ts now s = sc_track_jitter rtp_ts now (sc_track_seq seq s)"

definition sc_check_gap :: "u64 \<Rightarrow> ssrc_context \<Rightarrow> bool" where
  "sc_check_gap prev_expected s =
     (if \<not> sc_base_seq_set s then False else sc_packets_expected s > prev_expected + 1)"

definition sc_inc_consecutive_lost :: "ssrc_context \<Rightarrow> ssrc_context" where
  "sc_inc_consecutive_lost s = s\<lparr>sc_consecutive_lost := sc_consecutive_lost s + 1\<rparr>"

definition sc_reset_consecutive_lost :: "ssrc_context \<Rightarrow> ssrc_context" where
  "sc_reset_consecutive_lost s = s\<lparr>sc_consecutive_lost := 0\<rparr>"

definition sc_record_sr :: "u64 \<Rightarrow> int \<Rightarrow> ssrc_context \<Rightarrow> ssrc_context" where
  "sc_record_sr ntp_ts now s = s\<lparr>sc_lsr := ntp_ts, sc_lsr_time := now\<rparr>"

definition sc_extended_max :: "ssrc_context \<Rightarrow> u32" where
  "sc_extended_max s = ucast (sc_cycles s + ucast (sc_max_seq s))"

definition sc_advance_prior :: "ssrc_context \<Rightarrow> ssrc_context" where
  "sc_advance_prior s =
     s\<lparr>sc_expected_prior := sc_packets_expected s, sc_received_prior := sc_packets_received s\<rparr>"

definition sc_fraction_lost :: "ssrc_context \<Rightarrow> u8" where
  "sc_fraction_lost s =
     (let ei = sc_packets_expected s - sc_expected_prior s;
          ri = sc_packets_received s - sc_received_prior s;
          li = sint ei - sint ri
      in if ei = 0 \<or> li \<le> 0 then 0 else ucast ((of_int (li * 256) :: u64) div ei))"

definition sc_reset_stats :: "ssrc_context \<Rightarrow> ssrc_context" where
  "sc_reset_stats s = ssrc_context_new (sc_ssrc s)"

section \<open>The counters\<close>

text \<open>
  \<open>n\<close> packets were tracked. The bound keeps the counters from wrapping: 2 to the 36 packets take
  decades at any rate a media stream has.
\<close>

definition sc_inv :: "nat \<Rightarrow> ssrc_context \<Rightarrow> bool" where
  "sc_inv n s \<longleftrightarrow>
     n < 2 ^ 36 \<and> unat (sc_packets_received s) = n \<and> unat (sc_max_seq s) < 0x10000 \<and>
     unat (sc_base_seq s) < 0x10000 \<and> unat (sc_cycles s) \<le> 0x10000 * n \<and>
     (sc_base_seq_set s \<longleftrightarrow> n > 0) \<and>
     unat (sc_base_seq s) \<le> unat (sc_cycles s) + unat (sc_max_seq s) \<and>
     unat (sc_packets_expected s) =
       (if n = 0 then 0 else unat (sc_cycles s) + unat (sc_max_seq s) - unat (sc_base_seq s) + 1) \<and>
     (n = 0 \<longrightarrow> sc_cycles s = 0 \<and> sc_max_seq s = 0) \<and>
     sc_expected_prior s \<le> sc_packets_expected s \<and> sc_received_prior s \<le> sc_packets_received s \<and>
     (sc_received_prior s = sc_packets_received s \<longrightarrow> sc_expected_prior s = sc_packets_expected s)"

lemma unat_ucast_u32_u64: "unat (ucast (w :: u32) :: u64) = unat w"
proof -
  have "unat w < 2 ^ LENGTH(32)" by (rule unsigned_less)
  then show ?thesis by (simp add: unsigned_ucast_eq take_bit_nat_eq_self)
qed

lemma unat_ucast_u16_u32: "unat (ucast (w :: u16) :: u32) = unat w"
proof -
  have "unat w < 2 ^ LENGTH(16)" by (rule unsigned_less)
  then show ?thesis by (simp add: unsigned_ucast_eq take_bit_nat_eq_self)
qed

lemma unat_add_small: "unat (a :: u64) + unat b < 2 ^ 64 \<Longrightarrow> unat (a + b) = unat a + unat b"
  by (simp add: unat_word_ariths)

lemma sc_expected_value:
  fixes c :: u64 and m b :: u32
  assumes "unat c < 2 ^ 60" "unat b \<le> unat c + unat m"
  shows "unat (c + ucast m - ucast b + 1) = unat c + unat m - unat b + 1"
proof -
  have "unat m < 2 ^ LENGTH(32)" by (rule unsigned_less)
  then have m: "unat m < 2 ^ 32" by simp
  have cm: "unat (c + ucast m) = unat c + unat m"
    using assms(1) m by (subst unat_add_small) (simp_all add: unat_ucast_u32_u64)
  have "ucast b \<le> c + ucast m" using assms(2) by (simp add: word_le_nat_alt cm unat_ucast_u32_u64)
  then have d: "unat (c + ucast m - ucast b) = unat c + unat m - unat b"
    by (simp add: unat_sub cm unat_ucast_u32_u64)
  show ?thesis
    using assms(1) m by (subst unat_add_small) (simp_all add: d)
qed

lemma sc_inv_step:
  assumes inv: "sc_inv n s" and n: "n + 1 < 2 ^ 36"
    and m: "unat m < 0x10000" and b: "unat b < 0x10000" and c: "unat c \<le> 0x10000 * (n + 1)"
    and le: "unat b \<le> unat c + unat m"
    and mono: "unat (sc_packets_expected s) \<le> unat c + unat m - unat b + 1"
    and t: "t = s\<lparr>sc_base_seq := b, sc_base_seq_set := True, sc_cycles := c, sc_max_seq := m,
        sc_packets_expected := c + ucast m - ucast b + 1, sc_packets_received := sc_packets_received s + 1\<rparr>"
  shows "sc_inv (n + 1) t" and "unat (sc_packets_expected s) \<le> unat (sc_packets_expected t)"
proof -
  have "unat c < 2 ^ 60" using c n by simp
  then have e: "unat (sc_packets_expected t) = unat c + unat m - unat b + 1"
    unfolding t using sc_expected_value [OF _ le] by simp
  show mono': "unat (sc_packets_expected s) \<le> unat (sc_packets_expected t)"
    unfolding e by (rule mono)
  have r: "unat (sc_packets_received s) = n" and p: "sc_expected_prior s \<le> sc_packets_expected s"
    "sc_received_prior s \<le> sc_packets_received s" using inv by (auto simp: sc_inv_def)
  have r': "unat (sc_packets_received s + 1) = n + 1"
    using r n by (subst unat_add_small) simp_all
  have "sc_expected_prior t \<le> sc_packets_expected t"
    using p(1) mono' unfolding word_le_nat_alt by (simp add: t)
  moreover have "sc_received_prior t < sc_packets_received t"
    using p(2) r r' unfolding word_le_nat_alt word_less_nat_alt by (simp add: t)
  then have "sc_received_prior t \<le> sc_packets_received t" "sc_received_prior t \<noteq> sc_packets_received t"
    by auto
  ultimately show "sc_inv (n + 1) t"
    using n m b c le e r' unfolding sc_inv_def
    by (simp add: t)
qed

text \<open>Tracking a number: the expected count never goes back.\<close>

lemma sc_track_seq_inv:
  assumes "sc_inv n s" "n + 1 < 2 ^ 36"
  shows "sc_inv (n + 1) (sc_track_seq seq s)"
    and "unat (sc_packets_expected s) \<le> unat (sc_packets_expected (sc_track_seq seq s))"
proof -
  let ?q = "ucast seq :: u32"
  have "unat seq < 2 ^ LENGTH(16)" by (rule unsigned_less)
  then have q: "unat ?q < 0x10000" by (simp add: unat_ucast_u16_u32)
  have I: "unat (sc_max_seq s) < 0x10000" "unat (sc_base_seq s) < 0x10000" "unat (sc_cycles s) \<le> 0x10000 * n"
    "sc_base_seq_set s \<longleftrightarrow> n > 0" "unat (sc_base_seq s) \<le> unat (sc_cycles s) + unat (sc_max_seq s)"
    "unat (sc_packets_expected s) =
       (if n = 0 then 0 else unat (sc_cycles s) + unat (sc_max_seq s) - unat (sc_base_seq s) + 1)"
    "n = 0 \<longrightarrow> sc_cycles s = 0 \<and> sc_max_seq s = 0"
    using assms(1) by (auto simp: sc_inv_def)
  have c1: "unat (sc_cycles s + 0x10000) = unat (sc_cycles s) + 0x10000"
    using I(3) assms(2) by (subst unat_add_small) simp_all
  note step = sc_inv_step [OF assms]
  consider (first) "n = 0" | (ahead) "n > 0" "\<not> ?q < sc_max_seq s"
    | (wrap) "n > 0" "?q < sc_max_seq s" "sc_max_seq s - ?q > 0x8000"
    | (late) "n > 0" "?q < sc_max_seq s" "\<not> sc_max_seq s - ?q > 0x8000" by blast
  then have "sc_inv (n + 1) (sc_track_seq seq s) \<and>
    unat (sc_packets_expected s) \<le> unat (sc_packets_expected (sc_track_seq seq s))"
  proof cases
    case first
    have "sc_track_seq seq s = s\<lparr>sc_base_seq := ?q, sc_base_seq_set := True, sc_cycles := 0, sc_max_seq := ?q,
        sc_packets_expected := 0 + ucast ?q - ucast ?q + 1, sc_packets_received := sc_packets_received s + 1\<rparr>"
      using first I(4,7) by (simp add: sc_track_seq_def Let_def)
    from step [OF q q _ _ _ this] I(6) first show ?thesis by simp
  next
    case ahead
    have "sc_track_seq seq s = s\<lparr>sc_base_seq := sc_base_seq s, sc_base_seq_set := True,
        sc_cycles := sc_cycles s, sc_max_seq := ?q,
        sc_packets_expected := sc_cycles s + ucast ?q - ucast (sc_base_seq s) + 1,
        sc_packets_received := sc_packets_received s + 1\<rparr>"
      using ahead I(4) by (simp add: sc_track_seq_def Let_def)
    from step [OF q I(2) _ _ _ this] I(3,5,6) ahead show ?thesis by (simp add: word_less_nat_alt)
  next
    case wrap
    have "sc_track_seq seq s = s\<lparr>sc_base_seq := sc_base_seq s, sc_base_seq_set := True,
        sc_cycles := sc_cycles s + 0x10000, sc_max_seq := ?q,
        sc_packets_expected := (sc_cycles s + 0x10000) + ucast ?q - ucast (sc_base_seq s) + 1,
        sc_packets_received := sc_packets_received s + 1\<rparr>"
      using wrap I(4) by (simp add: sc_track_seq_def Let_def)
    from step [OF q I(2) _ _ _ this] I(1,3,5,6) wrap c1 show ?thesis by simp
  next
    case late
    have "sc_track_seq seq s = s\<lparr>sc_base_seq := sc_base_seq s, sc_base_seq_set := True,
        sc_cycles := sc_cycles s, sc_max_seq := sc_max_seq s,
        sc_packets_expected := sc_cycles s + ucast (sc_max_seq s) - ucast (sc_base_seq s) + 1,
        sc_packets_received := sc_packets_received s + 1\<rparr>"
      using late I(4) by (simp add: sc_track_seq_def Let_def)
    from step [OF I(1,2) _ _ _ this] I(3,5,6) late show ?thesis by simp
  qed
  then show "sc_inv (n + 1) (sc_track_seq seq s)"
    and "unat (sc_packets_expected s) \<le> unat (sc_packets_expected (sc_track_seq seq s))" by auto
qed

section \<open>Runs\<close>

inductive sc_run :: "nat \<Rightarrow> ssrc_context \<Rightarrow> bool" where
  sc_start: "sc_run 0 (ssrc_context_new ssrc)"
| sc_track: "sc_run n s \<Longrightarrow> n + 1 < 2 ^ 36 \<Longrightarrow> sc_track_packet seq rtp_ts now s = Some t \<Longrightarrow> sc_run (n + 1) t"
| sc_prior: "sc_run n s \<Longrightarrow> sc_run n (sc_advance_prior s)"
| sc_sr: "sc_run n s \<Longrightarrow> sc_run n (sc_record_sr ntp now s)"
| sc_lost: "sc_run n s \<Longrightarrow> sc_run n (sc_inc_consecutive_lost s)"
| sc_found: "sc_run n s \<Longrightarrow> sc_run n (sc_reset_consecutive_lost s)"

lemma sc_track_jitter_same:
  assumes "sc_track_jitter rtp_ts now s = Some t"
  shows "\<exists>j a. t = s\<lparr>sc_jitter_q4 := j, sc_last_arrival_ts := a, sc_last_rtp_ts := rtp_ts\<rparr>"
  using assms by (auto simp: sc_track_jitter_def Let_def bind_eq_Some_conv)

lemma sc_inv_jitter:
  "sc_inv n (s\<lparr>sc_jitter_q4 := j, sc_last_arrival_ts := a, sc_last_rtp_ts := r\<rparr>) = sc_inv n s"
  by (simp add: sc_inv_def)

lemma sc_run_inv: "sc_run n s \<Longrightarrow> sc_inv n s"
proof (induction rule: sc_run.induct)
  case (sc_track n s seq rtp_ts now t)
  obtain j a where "t = (sc_track_seq seq s)\<lparr>sc_jitter_q4 := j, sc_last_arrival_ts := a, sc_last_rtp_ts := rtp_ts\<rparr>"
    using sc_track_jitter_same sc_track(3) unfolding sc_track_packet_def by blast
  then show ?case using sc_track_seq_inv(1) [OF sc_track.IH sc_track(2)] by (simp add: sc_inv_jitter)
next
  case (sc_start ssrc)
  show ?case by (simp add: sc_inv_def ssrc_context_new_def)
next
  case (sc_prior n s)
  then show ?case by (simp add: sc_inv_def sc_advance_prior_def)
qed (simp_all add: sc_inv_def sc_record_sr_def sc_inc_consecutive_lost_def sc_reset_consecutive_lost_def)

lemma sint_small: "unat (w :: u64) < 2 ^ 63 \<Longrightarrow> sint w = int (unat w)"
  by (simp add: sint_uint signed_take_bit_int_eq_self uint_nat del: of_nat_unat)

text \<open>
  The field in terms of the counters. In every run of fewer than 2 to the 36 packets, for the expected
  and received packets since the last report: when packets were expected at least one was received, so
  the quotient never leaves its eight bits.
\<close>
lemma sc_fraction_counters:
  assumes "sc_run n s"
  defines "ei \<equiv> unat (sc_packets_expected s) - unat (sc_expected_prior s)"
    and "ri \<equiv> unat (sc_packets_received s) - unat (sc_received_prior s)"
  shows "(ei > 0 \<longrightarrow> ri > 0) \<and>
    unat (sc_fraction_lost s) = (if ei \<le> ri then 0 else (ei - ri) * 256 div ei) \<and>
    unat (sc_packets_received s) = n"
proof -
  have I: "n < 2 ^ 36" "unat (sc_packets_received s) = n" "unat (sc_cycles s) \<le> 0x10000 * n"
    "unat (sc_max_seq s) < 0x10000"
    "sc_expected_prior s \<le> sc_packets_expected s" "sc_received_prior s \<le> sc_packets_received s"
    "sc_received_prior s = sc_packets_received s \<longrightarrow> sc_expected_prior s = sc_packets_expected s"
    "unat (sc_packets_expected s) \<le> unat (sc_cycles s) + unat (sc_max_seq s) + 1"
    using sc_run_inv [OF assms(1)] by (auto simp: sc_inv_def)
  have e: "unat (sc_packets_expected s - sc_expected_prior s) = ei"
    "unat (sc_packets_received s - sc_received_prior s) = ri"
    using I(5,6) by (simp_all add: ei_def ri_def unat_sub)
  have small: "ei < 2 ^ 53" "ri < 2 ^ 53" using I(1,2,3,4,8) by (auto simp: ei_def ri_def)
  have pos: "ri > 0" if "ei > 0"
  proof -
    have "sc_received_prior s \<noteq> sc_packets_received s" using that I(7) by (auto simp: ei_def)
    then have "sc_received_prior s < sc_packets_received s" using I(6) by simp
    then show ?thesis by (simp add: ri_def word_less_nat_alt)
  qed
  have s: "sint (sc_packets_expected s - sc_expected_prior s) = int ei"
    "sint (sc_packets_received s - sc_received_prior s) = int ri"
    using small by (simp_all add: sint_small e)
  have "unat (sc_fraction_lost s) = (if ei \<le> ri then 0 else (ei - ri) * 256 div ei)"
  proof (cases "ei \<le> ri")
    case True
    then show ?thesis by (simp add: sc_fraction_lost_def Let_def s)
  next
    case False
    then have ne: "sc_packets_expected s - sc_expected_prior s \<noteq> 0" using e(1) by auto
    have "(of_int ((int ei - int ri) * 256) :: u64) = of_nat ((ei - ri) * 256)"
      using False by (simp add: of_nat_diff)
    moreover have "ei < 9007199254740992" using small(1) by simp
    have "d * 256 < 18446744073709551616" if "d \<le> ei" for d
      using that \<open>ei < 9007199254740992\<close> by linarith
    then have "(ei - ri) * 256 < 18446744073709551616" using diff_le_self by blast
    then have "unat (of_nat ((ei - ri) * 256) :: u64) = (ei - ri) * 256"
      by (simp add: unat_of_nat take_bit_nat_eq_self del: of_nat_diff of_nat_mult)
    ultimately have v: "unat ((of_int ((int ei - int ri) * 256) :: u64) div (sc_packets_expected s - sc_expected_prior s))
        = (ei - ri) * 256 div ei"
      by (simp add: unat_div e del: of_nat_diff of_nat_mult)
    have "(ei - ri) * 256 < 256 * ei" using False pos by auto
    then have lt: "(ei - ri) * 256 div ei < 256" by (simp add: less_mult_imp_div_less)
    have "sc_fraction_lost s = ucast ((of_int ((int ei - int ri) * 256) :: u64) div (sc_packets_expected s - sc_expected_prior s))"
      using False ne by (simp add: sc_fraction_lost_def Let_def s)
    then have "unat (sc_fraction_lost s) = (ei - ri) * 256 div ei"
      using lt by (simp only: unsigned_ucast_eq v) (simp add: take_bit_nat_eq_self)
    with False show ?thesis by simp
  qed
  with pos I(2) show ?thesis by blast
qed

section \<open>The loss of a stream\<close>

text \<open>
  A sender numbers its packets 0, 1, 2 and so on, from a first number below 65536; a packet carries the
  lower 16 bits. A run keeps the full numbers \<open>es\<close> of the packets in the order they came, and how many
  of them, \<open>k\<close>, had come at the last report. A packet is in reach when it is fewer than 32768 ahead of
  the highest one, or at most 32768 behind it and not from before a wrap.
\<close>

definition sc_reach :: "nat list \<Rightarrow> nat \<Rightarrow> bool" where
  "sc_reach es e \<longleftrightarrow>
     (if es = [] then e < 0x10000
      else (let m = Max (set es)
            in if m < e then e < m + 0x8000 else e div 0x10000 = m div 0x10000 \<and> m \<le> e + 0x8000))"

inductive sc_stream :: "nat list \<Rightarrow> nat \<Rightarrow> ssrc_context \<Rightarrow> bool" where
  ss_start: "sc_stream [] 0 (ssrc_context_new ssrc)"
| ss_track: "sc_stream es k s \<Longrightarrow> length es + 1 < 2 ^ 36 \<Longrightarrow> sc_reach es e \<Longrightarrow>
    sc_track_packet (of_nat e) rtp_ts now s = Some t \<Longrightarrow> sc_stream (es @ [e]) k t"
| ss_prior: "sc_stream es k s \<Longrightarrow> sc_stream es (length es) (sc_advance_prior s)"
| ss_sr: "sc_stream es k s \<Longrightarrow> sc_stream es k (sc_record_sr ntp now s)"
| ss_lost: "sc_stream es k s \<Longrightarrow> sc_stream es k (sc_inc_consecutive_lost s)"
| ss_found: "sc_stream es k s \<Longrightarrow> sc_stream es k (sc_reset_consecutive_lost s)"

text \<open>How many packets the sender has sent, from the first that came to the highest that came.\<close>

definition sc_span :: "nat list \<Rightarrow> nat" where
  "sc_span es = (if es = [] then 0 else Max (set es) - hd es + 1)"

text \<open>The packets that the report after the first \<open>k\<close> arrivals is about.\<close>

definition sc_window :: "nat \<Rightarrow> nat list \<Rightarrow> nat set" where
  "sc_window k es = {(if k = 0 then hd es else Max (set (take k es)) + 1)..Max (set es)}"

definition sc_follows :: "nat list \<Rightarrow> nat \<Rightarrow> ssrc_context \<Rightarrow> bool" where
  "sc_follows es k s \<longleftrightarrow>
     k \<le> length es \<and> unat (sc_received_prior s) = k \<and> unat (sc_expected_prior s) = sc_span (take k es)
     \<and> (es \<noteq> [] \<longrightarrow> unat (sc_base_seq s) = hd es \<and> unat (sc_cycles s) + unat (sc_max_seq s) = Max (set es)
          \<and> unat (sc_cycles s) mod 0x10000 = 0)"

lemma sc_track_packet_seq:
  assumes "sc_track_packet seq ts now s = Some t"
  shows "sc_packets_received t = sc_packets_received (sc_track_seq seq s)"
    "sc_packets_expected t = sc_packets_expected (sc_track_seq seq s)"
    "sc_max_seq t = sc_max_seq (sc_track_seq seq s)" "sc_cycles t = sc_cycles (sc_track_seq seq s)"
    "sc_base_seq t = sc_base_seq (sc_track_seq seq s)" "sc_base_seq_set t = sc_base_seq_set (sc_track_seq seq s)"
    "sc_expected_prior t = sc_expected_prior s" "sc_received_prior t = sc_received_prior s"
proof -
  obtain j a where t: "t = (sc_track_seq seq s)\<lparr>sc_jitter_q4 := j, sc_last_arrival_ts := a, sc_last_rtp_ts := ts\<rparr>"
    using sc_track_jitter_same assms unfolding sc_track_packet_def by blast
  show "sc_packets_received t = sc_packets_received (sc_track_seq seq s)"
    "sc_packets_expected t = sc_packets_expected (sc_track_seq seq s)"
    "sc_max_seq t = sc_max_seq (sc_track_seq seq s)" "sc_cycles t = sc_cycles (sc_track_seq seq s)"
    "sc_base_seq t = sc_base_seq (sc_track_seq seq s)" "sc_base_seq_set t = sc_base_seq_set (sc_track_seq seq s)"
    "sc_expected_prior t = sc_expected_prior s" "sc_received_prior t = sc_received_prior s"
    by (simp_all add: t sc_track_seq_def Let_def)
qed

lemma sc_track_seq_ahead:
  assumes "sc_base_seq_set s" "\<not> ucast seq < sc_max_seq s"
  shows "sc_cycles (sc_track_seq seq s) = sc_cycles s" "sc_max_seq (sc_track_seq seq s) = ucast seq"
    "sc_base_seq (sc_track_seq seq s) = sc_base_seq s" "sc_base_seq_set (sc_track_seq seq s)"
  using assms by (simp_all add: sc_track_seq_def Let_def)

lemma sc_track_seq_wrap:
  assumes "sc_base_seq_set s" "ucast seq < sc_max_seq s" "sc_max_seq s - ucast seq > 0x8000"
  shows "sc_cycles (sc_track_seq seq s) = sc_cycles s + 0x10000" "sc_max_seq (sc_track_seq seq s) = ucast seq"
    "sc_base_seq (sc_track_seq seq s) = sc_base_seq s"
  using assms by (simp_all add: sc_track_seq_def Let_def)

lemma Max_snoc: "es \<noteq> [] \<Longrightarrow> Max (set (es @ [e])) = max (Max (set es)) e"
  by (simp add: max.commute)

lemma hd_le_Max: "es \<noteq> [] \<Longrightarrow> hd es \<le> Max (set es)"
  by simp

lemma reach_cases:
  fixes m e c x :: nat
  assumes "if m < e then e < m + 0x8000 else e div 0x10000 = c \<and> m \<le> e + 0x8000" "m = 0x10000 * c + x" "x < 0x10000"
  obtains "e div 0x10000 = c" "\<not> e mod 0x10000 < x" | "e div 0x10000 = c" "e mod 0x10000 < x" "x \<le> e mod 0x10000 + 0x8000"
    | "e div 0x10000 = c + 1" "e mod 0x10000 + 0x8000 < x"
proof -
  obtain d r where e: "e = 0x10000 * d + r" "e div 0x10000 = d" "e mod 0x10000 = r" "r < 0x10000"
    using that by (metis mod_less_divisor mult_div_mod_eq zero_less_numeral)
  show thesis
  proof (cases "d = c")
    case True
    have "x \<le> r + 0x8000" if "r < x"
    proof -
      have "\<not> m < e" using that e(1) assms(2) True by simp
      then show ?thesis using assms(1,2) e(1) True by simp
    qed
    then show ?thesis using that(1,2) e(2,3) True by (cases "r < x") auto
  next
    case False
    then have a: "m < e" "e < m + 0x8000" using assms(1) e(2) by (auto split: if_splits)
    then have "0x10000 * d < 0x10000 * (c + 2)" "0x10000 * c < 0x10000 * (d + 1)" using assms(2,3) e(1,4) by simp_all
    then have "d < c + 2" "c < d + 1" by (simp_all only: mult_less_cancel1)
    then have "d = c + 1" using False by simp
    then show ?thesis using that(3) a(2) assms(2) e(1-3) by simp
  qed
qed

lemma sc_follows_track:
  assumes f: "sc_follows es k s" and r: "sc_run (length es) s" "length es + 1 < 2 ^ 36" "sc_reach es e"
    and t: "sc_track_packet (of_nat e) rtp_ts now s = Some t"
  shows "sc_follows (es @ [e]) k t"
proof -
  let ?seq = "of_nat e :: u16" let ?q = "ucast ?seq :: u32"
  note T = sc_track_packet_seq [OF t]
  have q: "unat ?q = e mod 0x10000" by (simp add: unat_ucast_u16_u32 unat_of_nat take_bit_eq_mod)
  have I: "sc_base_seq_set s \<longleftrightarrow> es \<noteq> []" "es = [] \<longrightarrow> sc_cycles s = 0 \<and> sc_max_seq s = 0"
    "unat (sc_max_seq s) < 0x10000" "unat (sc_cycles s) \<le> 0x10000 * length es"
    using sc_run_inv [OF r(1)] by (auto simp: sc_inv_def)
  have c1: "unat (sc_cycles s + 0x10000) = unat (sc_cycles s) + 0x10000"
    using I(4) r(2) by (subst unat_add_small) simp_all
  have goal: "unat (sc_base_seq t) = hd (es @ [e]) \<and> unat (sc_cycles t) + unat (sc_max_seq t) = Max (set (es @ [e]))
      \<and> unat (sc_cycles t) mod 0x10000 = 0"
  proof (cases "es = []")
    case True
    then show ?thesis using I(1,2) q r(3) unfolding T by (simp add: sc_track_seq_def Let_def sc_reach_def)
  next
    case False
    let ?m = "Max (set es)"
    have m: "unat (sc_base_seq s) = hd es" "unat (sc_cycles s) + unat (sc_max_seq s) = ?m" "unat (sc_cycles s) mod 0x10000 = 0"
      using f False by (simp_all add: sc_follows_def)
    obtain c where c: "unat (sc_cycles s) = 0x10000 * c" using m(3) by (metis mod_0_imp_dvd dvdE)
    have M: "?m = 0x10000 * c + unat (sc_max_seq s)" using m(2) c by simp
    then have Md: "?m div 0x10000 = c" "?m mod 0x10000 = unat (sc_max_seq s)" using I(3) by simp_all
    have E: "e = 0x10000 * (e div 0x10000) + e mod 0x10000" by simp
    have reach: "if ?m < e then e < ?m + 0x8000 else e div 0x10000 = c \<and> ?m \<le> e + 0x8000"
      using r(3) unfolding sc_reach_def Let_def by (simp only: False Md(1) if_False)
    have hd: "hd (es @ [e]) = hd es" using False by simp
    consider (ahead) "e div 0x10000 = c" "\<not> e mod 0x10000 < unat (sc_max_seq s)"
      | (late) "e div 0x10000 = c" "e mod 0x10000 < unat (sc_max_seq s)" "unat (sc_max_seq s) \<le> e mod 0x10000 + 0x8000"
      | (wrap) "e div 0x10000 = c + 1" "e mod 0x10000 + 0x8000 < unat (sc_max_seq s)"
      by (rule reach_cases [OF reach M I(3)])
    then show ?thesis
    proof cases
      case ahead
      then have "\<not> ?q < sc_max_seq s" using q by (simp add: word_less_nat_alt)
      note u = sc_track_seq_ahead [OF _ this] 
      have "?m \<le> e" using E M ahead by linarith
      then show ?thesis unfolding T Max_snoc [OF False] hd using u I(1) False q E c ahead m(1) by (simp add: max_def)
    next
      case late
      then have lt: "?q < sc_max_seq s" using q by (simp add: word_less_nat_alt)
      then have "unat (sc_max_seq s - ?q) = unat (sc_max_seq s) - e mod 0x10000" using q by (simp add: unat_sub)
      then have "\<not> sc_max_seq s - ?q > 0x8000" using late by (simp add: word_less_nat_alt)
      then have "sc_cycles (sc_track_seq ?seq s) = sc_cycles s" "sc_max_seq (sc_track_seq ?seq s) = sc_max_seq s"
        "sc_base_seq (sc_track_seq ?seq s) = sc_base_seq s"
        using lt I(1) False by (simp_all add: sc_track_seq_def Let_def)
      moreover have "e \<le> ?m" using E M late by linarith
      ultimately show ?thesis unfolding T Max_snoc [OF False] hd using m by (simp add: max_def)
    next
      case wrap
      then have lt: "?q < sc_max_seq s" using q by (simp add: word_less_nat_alt)
      then have "unat (sc_max_seq s - ?q) = unat (sc_max_seq s) - e mod 0x10000" using q by (simp add: unat_sub)
      then have "sc_max_seq s - ?q > 0x8000" using wrap by (simp add: word_less_nat_alt)
      note u = sc_track_seq_wrap [OF _ lt this]
      have "e = unat (sc_cycles s) + 0x10000 + e mod 0x10000" using E c wrap(1) by linarith
      moreover have "?m \<le> e" using E M wrap I(3) by linarith
      ultimately show ?thesis unfolding T Max_snoc [OF False] hd using u I(1) False q c1 m(1,3) by (simp add: max_def)
    qed
  qed
  then show ?thesis using f T(7,8) by (simp add: sc_follows_def)
qed

lemma sc_stream_inv: "sc_stream es k s \<Longrightarrow> sc_run (length es) s \<and> sc_follows es k s"
proof (induction rule: sc_stream.induct)
  case (ss_start ssrc)
  show ?case using sc_start [of ssrc] by (simp add: sc_follows_def sc_span_def ssrc_context_new_def)
next
  case (ss_track es k s e rtp_ts now t)
  then have "sc_run (length es + 1) t" "sc_follows (es @ [e]) k t"
    using sc_track [of "length es" s "of_nat e" rtp_ts now t] sc_follows_track [of es k s e rtp_ts now t] by blast+
  then show ?case by simp
next
  case (ss_prior es k s)
  have "sc_inv (length es) s" using ss_prior.IH sc_run_inv by blast
  then have "unat (sc_packets_received s) = length es" "unat (sc_packets_expected s) = sc_span es"
    using ss_prior.IH by (auto simp: sc_inv_def sc_follows_def sc_span_def)
  then show ?case using ss_prior.IH sc_prior by (simp add: sc_follows_def sc_advance_prior_def)
qed (simp_all add: sc_follows_def sc_record_sr_def sc_inc_consecutive_lost_def sc_reset_consecutive_lost_def
    sc_sr [unfolded sc_record_sr_def] sc_lost [unfolded sc_inc_consecutive_lost_def] sc_found [unfolded sc_reset_consecutive_lost_def])

text \<open>The counters of a context are those of the stream.\<close>

lemma sc_stream_counts:
  assumes "sc_stream es k s"
  shows "unat (sc_packets_expected s) = sc_span es" "unat (sc_expected_prior s) = sc_span (take k es)"
    "unat (sc_packets_received s) = length es" "unat (sc_received_prior s) = k" "k \<le> length es"
  using sc_stream_inv [OF assms] sc_run_inv [of "length es" s] by (auto simp: sc_inv_def sc_follows_def sc_span_def)

lemma sc_window_missing:
  assumes "es \<noteq> []" "k \<le> length es" "distinct (drop k es)" "set (drop k es) \<subseteq> sc_window k es"
  shows "card (sc_window k es - set (drop k es)) = (sc_span es - sc_span (take k es)) - (length es - k)"
proof -
  have h: "hd (take k es) = hd es" if "k \<noteq> 0" using that by (cases es; cases k) simp_all
  have "card (sc_window k es) = sc_span es - sc_span (take k es)"
    using assms(1) h hd_le_Max [of "take k es"] by (auto simp: sc_window_def sc_span_def)
  moreover have "card (set (drop k es)) = length es - k" using distinct_card [OF assms(3)] by simp
  ultimately show ?thesis using card_Diff_subset [OF _ assms(4)] by simp
qed

text \<open>
  C27: The fraction lost of a report block is the loss of the stream. In every run whose packets come in
  reach of the highest one, across any number of wraps of the 16-bit numbers: the expected packets are
  those that the sender has sent from the first to the highest that came, the received ones those that
  came; and the field of a report is the difference of both since the last report, in units of 1/256 of
  the expected ones, rounded down, 0 when nothing is missing. When no packet came twice or after the
  report that it belongs to, that difference is the number of packets of the interval that did not come.
\<close>
theorem sc_fraction_lost_exact:
  assumes "sc_stream es k s"
  defines "ei \<equiv> sc_span es - sc_span (take k es)" and "ri \<equiv> length es - k"
  shows "unat (sc_packets_expected s) = sc_span es \<and> unat (sc_packets_received s) = length es
    \<and> unat (sc_fraction_lost s) = (if ei \<le> ri then 0 else (ei - ri) * 256 div ei)
    \<and> (es \<noteq> [] \<and> distinct (drop k es) \<and> set (drop k es) \<subseteq> sc_window k es
       \<longrightarrow> unat (sc_fraction_lost s) = card (sc_window k es - set (drop k es)) * 256 div ei)"
proof -
  note c = sc_stream_counts [OF assms(1)]
  have f: "unat (sc_fraction_lost s) = (if ei \<le> ri then 0 else (ei - ri) * 256 div ei)"
    using sc_fraction_counters [of "length es" s] sc_stream_inv [OF assms(1)] by (simp add: c(1-4) ei_def ri_def)
  moreover have "card (sc_window k es - set (drop k es)) = ei - ri"
    if "es \<noteq> []" "distinct (drop k es)" "set (drop k es) \<subseteq> sc_window k es"
    using sc_window_missing [OF that(1) c(5) that(2,3)] by (simp add: ei_def ri_def)
  ultimately show ?thesis using c(1,3) by auto
qed

text \<open>The first packets around a wrap, 65534, 65535 and 65537: one of four is missing.\<close>

theorem sc_fraction_lost_exact_witness:
  "\<exists>s. sc_stream [65534, 65535, 65537] 0 s \<and> unat (sc_packets_expected s) = 4 \<and> unat (sc_fraction_lost s) = 64"
proof -
  note d = sc_track_packet_def sc_track_jitter_def sc_track_seq_def ssrc_context_new_def arrival_ts_def Let_def
  obtain s1 s2 s3 where t: "sc_track_packet (of_nat 65534) 0 0 (ssrc_context_new 1) = Some s1"
    "sc_track_packet (of_nat 65535) 0 0 s1 = Some s2" "sc_track_packet (of_nat 65537) 0 0 s2 = Some s3"
    by (simp add: d)
  have "sc_stream ([] @ [65534]) 0 s1" by (rule ss_track [OF ss_start _ _ t(1)]) (simp_all add: sc_reach_def)
  then have "sc_stream (([] @ [65534]) @ [65535]) 0 s2" by (rule ss_track [OF _ _ _ t(2)]) (simp_all add: sc_reach_def)
  then have "sc_stream ((([] @ [65534]) @ [65535]) @ [65537]) 0 s3" by (rule ss_track [OF _ _ _ t(3)]) (simp_all add: sc_reach_def)
  then have r: "sc_stream [65534, 65535, 65537] 0 s3" by simp
  from sc_fraction_lost_exact [OF r] r show ?thesis by (auto simp: sc_span_def intro!: exI [of _ s3])
qed

section \<open>Loss-free streams and reordering\<close>

fun sc_track_all :: "(u16 \<times> u32 \<times> int) list \<Rightarrow> ssrc_context \<Rightarrow> ssrc_context option" where
  "sc_track_all [] s = Some s"
| "sc_track_all ((seq, ts, now) # ps) s =
     (case sc_track_packet seq ts now s of None \<Rightarrow> None | Some t \<Rightarrow> sc_track_all ps t)"

text \<open>The extended number of a stream without loss, as a natural number.\<close>

definition sc_in_order :: "nat \<Rightarrow> nat \<Rightarrow> ssrc_context \<Rightarrow> bool" where
  "sc_in_order b n s \<longleftrightarrow> sc_inv n s \<and> sc_expected_prior s = 0 \<and> sc_received_prior s = 0 \<and>
     (n > 0 \<longrightarrow> unat (sc_base_seq s) = b \<and> unat (sc_cycles s) + unat (sc_max_seq s) = b + n - 1 \<and>
        unat (sc_cycles s) mod 0x10000 = 0)"

lemma sc_in_order_step:
  assumes "sc_in_order b n s" "n + 1 < 2 ^ 36" "sc_track_packet (of_nat (b + n)) ts now s = Some t" "b < 0x10000"
  shows "sc_in_order b (n + 1) t"
proof -
  let ?seq = "of_nat (b + n) :: u16" let ?q = "ucast ?seq :: u32"
  note T = sc_track_packet_seq [OF assms(3)]
  have inv: "sc_inv n s" and P: "sc_expected_prior s = 0" "sc_received_prior s = 0"
    using assms(1) by (auto simp: sc_in_order_def)
  have q: "unat ?q = (b + n) mod 0x10000"
    by (simp add: unat_ucast_u16_u32 unat_of_nat take_bit_eq_mod del: of_nat_add)
  obtain j a where t: "t = (sc_track_seq ?seq s)\<lparr>sc_jitter_q4 := j, sc_last_arrival_ts := a, sc_last_rtp_ts := ts\<rparr>"
    using sc_track_jitter_same assms(3) unfolding sc_track_packet_def by blast
  have inv': "sc_inv (n + 1) t"
    unfolding t sc_inv_jitter by (rule sc_track_seq_inv(1) [OF inv assms(2)])
  have I: "unat (sc_max_seq s) < 0x10000" "sc_base_seq_set s \<longleftrightarrow> n > 0" "n = 0 \<longrightarrow> sc_cycles s = 0 \<and> sc_max_seq s = 0"
    "unat (sc_cycles s) \<le> 0x10000 * n"
    using inv by (auto simp: sc_inv_def)
  have c1: "unat (sc_cycles s + 0x10000) = unat (sc_cycles s) + 0x10000"
    using I(4) assms(2) by (subst unat_add_small) simp_all
  have "unat (sc_base_seq t) = b \<and> unat (sc_cycles t) + unat (sc_max_seq t) = b + n \<and> unat (sc_cycles t) mod 0x10000 = 0"
  proof (cases "n = 0")
    case True
    then show ?thesis
      using I(2,3) q assms(4) unfolding T by (simp add: sc_track_seq_def Let_def)
  next
    case False
    then have O: "unat (sc_base_seq s) = b" "unat (sc_cycles s) + unat (sc_max_seq s) = b + n - 1"
      "unat (sc_cycles s) mod 0x10000 = 0" using assms(1) by (auto simp: sc_in_order_def)
    have bn: "b + n = unat (sc_cycles s) + (unat (sc_max_seq s) + 1)" using O(2) False by simp
    show ?thesis
    proof (cases "unat (sc_max_seq s) = 0xFFFF")
      case True
      have "(b + n) mod 0x10000 = 0"
        unfolding bn True by (subst mod_add_left_eq [symmetric]) (simp add: O(3))
      then have q0: "unat ?q = 0" using q by simp
      then have "?q = 0" by (simp add: unat_eq_zero)
      moreover have "0 < sc_max_seq s" "sc_max_seq s - 0 > 0x8000" using True by (simp_all add: word_less_nat_alt)
      ultimately have w: "?q < sc_max_seq s" "sc_max_seq s - ?q > 0x8000" by (simp_all only:)
      have set: "sc_base_seq_set s" using I(2) False by simp
      have "unat (sc_base_seq t) = b" "unat (sc_cycles t) = unat (sc_cycles s) + 0x10000" "unat (sc_max_seq t) = 0"
        by (simp_all only: T sc_track_seq_wrap [OF set w] c1 q0 O(1))
      then show ?thesis using bn True O(3) by simp
    next
      case max: False
      then have "unat (sc_max_seq s) + 1 < 0x10000" using I(1) by simp
      then have "(b + n) mod 0x10000 = unat (sc_max_seq s) + 1"
        unfolding bn by (subst mod_add_left_eq [symmetric]) (simp add: O(3))
      then have qv: "unat ?q = unat (sc_max_seq s) + 1" by (simp only: q)
      have a: "\<not> ?q < sc_max_seq s" unfolding word_less_nat_alt qv by simp
      have set: "sc_base_seq_set s" using I(2) False by simp
      have "unat (sc_base_seq t) = b" "unat (sc_cycles t) = unat (sc_cycles s)"
        "unat (sc_max_seq t) = unat (sc_max_seq s) + 1"
        by (simp_all only: T sc_track_seq_ahead [OF set a] qv O(1))
      then show ?thesis using bn O(3) by simp
    qed
  qed
  then show ?thesis using inv' P T(7,8) by (simp add: sc_in_order_def)
qed

text \<open>
  A stream without loss and reordering is counted exactly, across any number of wraps of the
  16-bit number: after \<open>n\<close> packets with consecutive numbers from \<open>b\<close>, \<open>n\<close> are expected and \<open>n\<close>
  received, the fraction lost is 0 and the extended highest number is \<open>b + n - 1\<close>.
\<close>
theorem sc_lossless_stream:
  assumes "b < 0x10000" "0 < n" "n < 2 ^ 36"
    and "sc_track_all (map (\<lambda>i. (of_nat (b + i), ts i, now i)) [0..<n]) (ssrc_context_new ssrc) = Some s"
  shows "unat (sc_packets_expected s) = n \<and> unat (sc_packets_received s) = n \<and> sc_fraction_lost s = 0 \<and>
    sc_extended_max s = of_nat (b + n - 1)"
proof -
  have split: "sc_track_all (ps @ [p]) s = (case sc_track_all ps s of None \<Rightarrow> None | Some t \<Rightarrow> sc_track_all [p] t)" for ps p s
    by (induction ps s rule: sc_track_all.induct) (auto split: option.splits)
  have "sc_in_order b m t"
    if "m \<le> n" "sc_track_all (map (\<lambda>i. (of_nat (b + i), ts i, now i)) [0..<m]) (ssrc_context_new ssrc) = Some t" for m t
    using that
  proof (induction m arbitrary: t)
    case 0
    then have "t = ssrc_context_new ssrc" by simp
    then show ?case by (simp add: sc_in_order_def sc_inv_def ssrc_context_new_def)
  next
    case (Suc m)
    obtain u where u: "sc_track_all (map (\<lambda>i. (of_nat (b + i), ts i, now i)) [0..<m]) (ssrc_context_new ssrc) = Some u"
      "sc_track_packet (of_nat (b + m)) (ts m) (now m) u = Some t"
      using Suc.prems(2) by (auto simp: split split: option.splits)
    have "sc_in_order b m u" using Suc.IH [OF _ u(1)] Suc.prems(1) by simp
    from sc_in_order_step [OF this _ u(2) assms(1)] Suc.prems(1) assms(3) show ?case by simp
  qed
  from this [OF order.refl assms(4)] have O: "sc_in_order b n s" .
  then have e: "unat (sc_packets_expected s) = n" "unat (sc_packets_received s) = n"
    "unat (sc_cycles s) + unat (sc_max_seq s) = b + n - 1" "sc_expected_prior s = 0" "sc_received_prior s = 0"
    using assms(2) by (auto simp: sc_in_order_def sc_inv_def)
  have "sc_packets_expected s = sc_packets_received s" using e(1,2) by (simp add: word_unat_eq_iff)
  then have "sc_fraction_lost s = 0" using e(4,5) by (simp add: sc_fraction_lost_def)
  moreover have "unat (sc_cycles s + ucast (sc_max_seq s)) = b + n - 1"
    using e(3) assms(1,3) by (subst unat_add_small) (simp_all add: unat_ucast_u32_u64)
  then have "sc_extended_max s = of_nat (b + n - 1)"
    unfolding sc_extended_max_def by (metis of_nat_unat)
  ultimately show ?thesis using e by simp
qed

theorem sc_lossless_stream_witness:
  "\<exists>s. sc_track_all [(65535, 0, 0), (0, 0, 0)] (ssrc_context_new 1) = Some s \<and>
     unat (sc_packets_expected s) = 2 \<and> sc_extended_max s = 65536"
proof -
  have m: "map (\<lambda>i. (of_nat (65535 + i) :: u16, 0 :: u32, 0 :: int)) [0..<2] = [(65535, 0, 0), (0, 0, 0)]"
  proof -
    have "(65536 :: u16) = 0" by code_simp
    then show ?thesis by (simp only: numeral_2_eq_2 upt_Suc upt_0 list.map) simp
  qed
  obtain s where s: "sc_track_all [(65535, 0, 0), (0, 0, 0)] (ssrc_context_new 1) = Some s"
    by (simp add: sc_track_packet_def sc_track_jitter_def sc_track_seq_def ssrc_context_new_def Let_def
        arrival_ts_def)
  have "unat (sc_packets_expected s) = 2 \<and> unat (sc_packets_received s) = 2 \<and> sc_fraction_lost s = 0 \<and>
      sc_extended_max s = of_nat (65535 + 2 - 1)"
    by (rule sc_lossless_stream [of 65535 2 "\<lambda>_. 0" "\<lambda>_. 0" 1]) (simp_all only: m s, simp_all)
  with s show ?thesis by simp
qed

text \<open>
  Reordering around the wrap. When the highest number has just wrapped (\<open>m\<close>, small) and a
  packet from before the wrap arrives late, it becomes the highest number again, and the next packet
  in order counts a second wrap: the extended highest number and the expected count are 65536 too
  high from then on.
\<close>
theorem sc_late_wrap_inflates:
  assumes "sc_base_seq_set s" "unat (sc_max_seq s) = m" "unat late > m + 1 + 0x8000"
    and "unat (sc_cycles s) + 0x20000 < 2 ^ 64"
  defines "t \<equiv> sc_track_seq (of_nat (m + 1)) (sc_track_seq late s)"
  shows "unat (sc_cycles t) + unat (sc_max_seq t) = unat (sc_cycles s) + unat (sc_max_seq s) + 1 + 0x10000"
proof -
  let ?l = "ucast late :: u32" and ?n = "ucast (of_nat (m + 1) :: u16) :: u32"
  have "unat late < 2 ^ LENGTH(16)" by (rule unsigned_less)
  then have m: "m < 0x7FFF" using assms(3) by simp
  have l: "unat ?l = unat late" by (rule unat_ucast_u16_u32)
  have n: "unat ?n = m + 1"
    using m by (simp add: unat_ucast_u16_u32 unat_of_nat take_bit_nat_eq_self
        del: of_nat_add of_nat_Suc)
  have "\<not> ?l < sc_max_seq s" using assms(2,3) l by (simp add: word_less_nat_alt)
  note u = sc_track_seq_ahead [OF assms(1) this]
  have lt: "?n < ?l" using l n assms(3) by (simp add: word_less_nat_alt)
  have "?n \<le> ?l" using lt by simp
  then have "unat (?l - ?n) = unat ?l - unat ?n" by (rule unat_sub)
  then have "unat (?l - ?n) = unat late - (m + 1)" by (simp only: l n)
  then have gt: "?l - ?n > 0x8000" using assms(3) by (simp add: word_less_nat_alt)
  have "sc_cycles t = sc_cycles s + 0x10000" "sc_max_seq t = ?n"
    using sc_track_seq_wrap [OF u(4)] lt gt unfolding t_def u by (simp_all only:)
  moreover have "unat (sc_cycles s + 0x10000) = unat (sc_cycles s) + 0x10000"
    using assms(4) by (subst unat_add_small) simp_all
  ultimately show ?thesis using n assms(2) by simp
qed

theorem sc_late_wrap_inflates_witness:
  "sc_track_seq 3 (sc_track_seq 65535 ((ssrc_context_new 1)\<lparr>sc_base_seq_set := True, sc_max_seq := 2\<rparr>))
     = (ssrc_context_new 1)\<lparr>sc_base_seq_set := True, sc_cycles := 65536, sc_max_seq := 3,
         sc_packets_expected := 65540, sc_packets_received := 2\<rparr> \<and>
   unat (sc_cycles (sc_track_seq 3 (sc_track_seq 65535 ((ssrc_context_new 1)\<lparr>sc_base_seq_set := True, sc_max_seq := 2\<rparr>))))
     + 3 = 3 + 0x10000"
  using sc_late_wrap_inflates [of "(ssrc_context_new 1)\<lparr>sc_base_seq_set := True, sc_max_seq := 2\<rparr>" 2 65535]
  by (simp add: ssrc_context_new_def sc_track_seq_def Let_def)

end
