(* ===== verification/Packetizers.thy ===== *)
theory Packetizers
  imports Rtp
begin

text \<open>
  Framing of encoded media for RTP: the packetizers of \<open>src/rtp_packetizer\<close> (Opus, VP8, VP9, H.264),
  the VP8/VP9 payload descriptor, and the receiving side: \<open>depayload\<close> of \<open>src/connection_impl.cpp\<close>
  and the Annex B reassembly of \<open>src/media_track_impl.cpp\<close>. The interface \<open>rtp_packetizer_base\<close> is
  the locale \<open>packetizer\<close>, interpreted by all four packetizers.
\<close>

abbreviation kPacketMax :: nat where "kPacketMax \<equiv> 1200"

section \<open>The VP8 and VP9 payload descriptor\<close>

record vpx_payload_descriptor =
  vd_partition_start :: bool
  vd_partition_id :: u8
  vd_picture_id :: "u16 option"
  vd_tl0picidx :: "u8 option"
  vd_tid :: "(u8 \<times> u8) option"
  vd_keyidx :: "u8 option"

definition vpx_default :: vpx_payload_descriptor where
  "vpx_default = \<lparr>vd_partition_start = False, vd_partition_id = 0, vd_picture_id = None,
     vd_tl0picidx = None, vd_tid = None, vd_keyidx = None\<rparr>"

text \<open>
  \<open>parse\<close>: the descriptor and \<open>consumed\<close>. Every early return leaves \<open>consumed\<close> at 0 and the fields
  read so far. Steps return \<open>Inl d\<close> for an early return and \<open>Inr (d, pos)\<close> to go on.
\<close>

definition vpx_parse_picture ::
  "bytes \<Rightarrow> u8 \<Rightarrow> vpx_payload_descriptor \<times> nat \<Rightarrow> vpx_payload_descriptor + vpx_payload_descriptor \<times> nat" where
  "vpx_parse_picture data ext = (\<lambda>(d, pos).
     if ext AND 0x80 \<noteq> 0
     then (if length data < pos + 1 then Inl d
           else if data ! pos AND 0x80 \<noteq> 0
           then (if length data < pos + 2 then Inl d
                 else Inr (d\<lparr>vd_picture_id := Some (push_bit 8 (ucast (data ! pos AND 0x7F))
                             OR ucast (data ! (pos + 1)))\<rparr>, pos + 2))
           else Inr (d\<lparr>vd_picture_id := Some (ucast (data ! pos))\<rparr>, pos + 1))
     else Inr (d, pos))"

definition vpx_parse_tl0 ::
  "bytes \<Rightarrow> u8 \<Rightarrow> vpx_payload_descriptor \<times> nat \<Rightarrow> vpx_payload_descriptor + vpx_payload_descriptor \<times> nat" where
  "vpx_parse_tl0 data ext = (\<lambda>(d, pos).
     if ext AND 0x40 \<noteq> 0
     then (if length data < pos + 1 then Inl d
           else Inr (d\<lparr>vd_tl0picidx := Some (data ! pos)\<rparr>, pos + 1))
     else Inr (d, pos))"

definition vpx_parse_tid ::
  "bytes \<Rightarrow> u8 \<Rightarrow> vpx_payload_descriptor \<times> nat \<Rightarrow> vpx_payload_descriptor + vpx_payload_descriptor \<times> nat" where
  "vpx_parse_tid data ext = (\<lambda>(d, pos).
     if ext AND 0x30 \<noteq> 0
     then (if length data < pos + 1 then Inl d
           else (let tk = data ! pos;
                     d = (if ext AND 0x20 \<noteq> 0
                          then d\<lparr>vd_tid := Some (drop_bit 6 tk AND 3, drop_bit 5 tk AND 1)\<rparr> else d);
                     d = (if ext AND 0x10 \<noteq> 0 then d\<lparr>vd_keyidx := Some (tk AND 0x1F)\<rparr> else d)
                 in Inr (d, pos + 1)))
     else Inr (d, pos))"

definition bind_sum :: "'e + 'a \<Rightarrow> ('a \<Rightarrow> 'e + 'b) \<Rightarrow> 'e + 'b" where
  "bind_sum m f = (case m of Inl e \<Rightarrow> Inl e | Inr a \<Rightarrow> f a)"

definition vpx_parse :: "bytes \<Rightarrow> vpx_payload_descriptor \<times> nat" where
  "vpx_parse data =
     (if length data < 1 then (vpx_default, 0)
      else (let b0 = data ! 0;
                d = vpx_default\<lparr>vd_partition_start := drop_bit 4 b0 AND 1 \<noteq> 0,
                      vd_partition_id := b0 AND 0xF\<rparr>
            in if drop_bit 7 b0 AND 1 \<noteq> 0
               then (if length data < 2 then (d, 0)
                     else (let ext = data ! 1
                           in case bind_sum (bind_sum (vpx_parse_picture data ext (d, 2))
                                   (vpx_parse_tl0 data ext)) (vpx_parse_tid data ext) of
                                Inl d \<Rightarrow> (d, 0) | Inr (d, pos) \<Rightarrow> (d, pos)))
               else (d, 1)))"

definition opt_bytes :: "('a \<Rightarrow> bytes) \<Rightarrow> 'a option \<Rightarrow> bytes" where
  "opt_bytes f x = (case x of None \<Rightarrow> [] | Some a \<Rightarrow> f a)"

definition vpx_octet :: "vpx_payload_descriptor \<Rightarrow> u8" where
  "vpx_octet d = push_bit 4 (if vd_partition_start d then 1 else 0) OR (vd_partition_id d AND 0xF)"

definition vpx_ext_octet :: "vpx_payload_descriptor \<Rightarrow> u8" where
  "vpx_ext_octet d =
     (if vd_picture_id d \<noteq> None then 0x80 else 0) OR (if vd_tl0picidx d \<noteq> None then 0x40 else 0)
     OR (if vd_tid d \<noteq> None then 0x20 else 0) OR (if vd_keyidx d \<noteq> None then 0x10 else 0)"

definition vpx_picture_bytes :: "u16 \<Rightarrow> bytes" where
  "vpx_picture_bytes p =
     (if p < 128 then [ucast p]
      else (let v = 0x8000 OR p in [ucast (drop_bit 8 v), ucast (v AND 0xFF)]))"

definition vpx_tk :: "vpx_payload_descriptor \<Rightarrow> u8" where
  "vpx_tk d =
     (case vd_tid d of None \<Rightarrow> 0 | Some (a, b) \<Rightarrow> push_bit 6 a OR push_bit 5 b)
     OR (case vd_keyidx d of None \<Rightarrow> 0 | Some k \<Rightarrow> k AND 0x1F)"

definition vpx_bytes :: "vpx_payload_descriptor \<Rightarrow> bytes" where
  "vpx_bytes d =
     (if vd_picture_id d \<noteq> None \<or> vd_tl0picidx d \<noteq> None \<or> vd_tid d \<noteq> None \<or> vd_keyidx d \<noteq> None
      then [0x80 OR vpx_octet d, vpx_ext_octet d]
           @ opt_bytes vpx_picture_bytes (vd_picture_id d) @ opt_bytes (\<lambda>t. [t]) (vd_tl0picidx d)
           @ (if vd_tid d \<noteq> None \<or> vd_keyidx d \<noteq> None then [vpx_tk d] else [])
      else [vpx_octet d])"

definition vpx_wf :: "vpx_payload_descriptor \<Rightarrow> bool" where
  "vpx_wf d \<longleftrightarrow>
     vd_partition_id d < 16 \<and> pred_option (\<lambda>p. p < 0x8000) (vd_picture_id d) \<and>
     pred_option (\<lambda>(a, b). a < 4 \<and> b < 2) (vd_tid d) \<and> pred_option (\<lambda>k. k < 32) (vd_keyidx d)"

section \<open>Packetizers\<close>

lemma length_vpx_bytes: "1 \<le> length (vpx_bytes d) \<and> length (vpx_bytes d) \<le> 6"
  by (auto simp: vpx_bytes_def opt_bytes_def vpx_picture_bytes_def Let_def split: option.splits)

text \<open>The loop of \<open>Vp8Packetizer::pack\<close>; that of \<open>Vp9Packetizer::pack\<close> is the same.\<close>

function vpx_chunks :: "vpx_payload_descriptor \<Rightarrow> bytes \<Rightarrow> bytes list" where
  "vpx_chunks desc data =
     (if data = [] then []
      else (let dbytes = vpx_bytes desc;
                chunk = min (length data) (kPacketMax - length dbytes)
            in (dbytes @ take chunk data) # vpx_chunks (desc\<lparr>vd_partition_start := False\<rparr>) (drop chunk data)))"
  by pat_completeness auto
termination
proof (relation "measure (\<lambda>(_, d). length d)")
  fix desc :: vpx_payload_descriptor and data dbytes :: bytes and chunk
  assume "data \<noteq> []" "dbytes = vpx_bytes desc" "chunk = min (length data) (kPacketMax - length dbytes)"
  moreover have "length (vpx_bytes desc) \<le> 6" using length_vpx_bytes by simp
  ultimately show "((desc\<lparr>vd_partition_start := False\<rparr>, drop chunk data), desc, data)
      \<in> measure (\<lambda>(_, d). length d)"
    by (cases data) auto
qed simp

declare vpx_chunks.simps [simp del]

definition vpx_pack :: "u16 \<Rightarrow> bytes \<Rightarrow> bytes list \<times> u16" where
  "vpx_pack picture_id data =
     (vpx_chunks (vpx_default\<lparr>vd_partition_start := True, vd_partition_id := 0,
        vd_picture_id := Some picture_id\<rparr>) data,
      (picture_id + 1) AND 0x7FFF)"

definition vp8_pack :: "u16 \<Rightarrow> bytes \<Rightarrow> bytes list \<times> u16" where
  "vp8_pack picture_id data = vpx_pack picture_id data"

definition vp9_pack :: "u16 \<Rightarrow> bytes \<Rightarrow> bytes list \<times> u16" where
  "vp9_pack picture_id data = vpx_pack picture_id data"

text \<open>The constructors mask a random number.\<close>

definition vpx_packetizer_new :: "u32 \<Rightarrow> u16" where
  "vpx_packetizer_new random = ucast (random AND 0x7FFF)"

definition opus_pack :: "unit \<Rightarrow> bytes \<Rightarrow> bytes list \<times> unit" where
  "opus_pack s data = ([data], s)"

text \<open>The offset of the first start code and its length.\<close>

fun find_start_code :: "bytes \<Rightarrow> (nat \<times> nat) option" where
  "find_start_code (a # b # c # r) =
     (if a = 0 \<and> b = 0 \<and> c = 1 then Some (0, 3)
      else if a = 0 \<and> b = 0 \<and> c = 0 \<and> (case r of x # _ \<Rightarrow> x = 1 | [] \<Rightarrow> False) then Some (0, 4)
      else map_option (\<lambda>(i, n). (i + 1, n)) (find_start_code (b # c # r)))"
| "find_start_code _ = None"

lemma find_start_code_bound:
  "find_start_code d = Some (i, n) \<Longrightarrow> i + n \<le> length d \<and> 3 \<le> n"
  by (induction d arbitrary: i rule: find_start_code.induct)
     (auto split: if_splits list.splits)

text \<open>
  The NAL units of a frame, as the loop of \<open>H264Packetizer::pack\<close> cuts them. The unit begins
  \<open>code1_len\<close> bytes after \<open>off\<close>: the position of the start code is not added.
\<close>

function h264_nals :: "bytes \<Rightarrow> bytes list" where
  "h264_nals data =
     (case find_start_code data of None \<Rightarrow> []
      | Some (_, code1_len) \<Rightarrow>
          (let rest = drop code1_len data
           in case find_start_code rest of
                None \<Rightarrow> if rest = [] then [] else [rest]
              | Some (j, _) \<Rightarrow> (if j = 0 then [] else [take j rest]) @ h264_nals (drop j rest)))"
  by pat_completeness auto
termination
proof (relation "measure length")
  fix data x a n rest y j m
  assume "find_start_code data = Some x" "(a, n) = x" "rest = drop n data"
    "find_start_code rest = Some y" "(j, m) = y"
  then show "(drop j rest, data) \<in> measure length"
    using find_start_code_bound [of data a n] by auto
qed simp

declare h264_nals.simps [simp del]

function h264_fragments :: "u8 \<Rightarrow> bool \<Rightarrow> bytes \<Rightarrow> bytes list" where
  "h264_fragments nal_hdr first data =
     (if data = [] then []
      else (let frag_size = min (length data) (kPacketMax - 2);
                fu_indicator = (nal_hdr AND 0x60) OR 28;
                fu_header = (nal_hdr AND 0x1F) OR (if first then 0x80 else 0)
                  OR (if drop frag_size data = [] then 0x40 else 0)
            in (fu_indicator # fu_header # take frag_size data)
               # h264_fragments nal_hdr False (drop frag_size data)))"
  by pat_completeness auto
termination
  by (relation "measure (\<lambda>(_, _, d). length d)") auto

declare h264_fragments.simps [simp del]

definition h264_pack_nal :: "bytes \<Rightarrow> bytes list" where
  "h264_pack_nal nal =
     (if length nal \<le> kPacketMax then [nal] else h264_fragments (hd nal) True (tl nal))"

definition h264_pack :: "unit \<Rightarrow> bytes \<Rightarrow> bytes list \<times> unit" where
  "h264_pack s data = (concat (map h264_pack_nal (h264_nals data)), s)"

section \<open>Depacketisation\<close>

text \<open>The body of the branch of \<open>depayload\<close> for VP8 and VP9: the length of the descriptor is skipped.\<close>

definition vpx_depayload :: "bytes \<Rightarrow> bytes" where
  "vpx_depayload payload =
     (let dlen = length payload; b0 = payload ! 0;
          pos = (if drop_bit 7 b0 AND 1 \<noteq> 0 \<and> dlen > 1
                 then (let ext = payload ! 1; pos = 2;
                           pos = (if ext AND 0x80 \<noteq> 0 \<and> dlen > pos
                                  then pos + (if payload ! pos AND 0x80 \<noteq> 0 then 2 else 1) else pos);
                           pos = (if ext AND 0x40 \<noteq> 0 \<and> dlen > pos then pos + 1 else pos)
                       in if ext AND 0x30 \<noteq> 0 \<and> dlen > pos then pos + 1 else pos)
                 else 1)
      in if pos \<le> dlen then drop pos payload else payload)"

definition depayload :: "(string \<Rightarrow> string \<Rightarrow> bool) \<Rightarrow> string \<Rightarrow> bytes \<Rightarrow> bytes" where
  "depayload nceq codec_name payload =
     (if (nceq codec_name ''VP8'' \<or> nceq codec_name ''VP9'') \<and> payload \<noteq> []
      then vpx_depayload payload else payload)"

definition h264_start_code :: bytes where
  "h264_start_code = [0, 0, 1]"

text \<open>The units of an aggregation packet, behind its first octet.\<close>

function h264_stap :: "bytes \<Rightarrow> bytes" where
  "h264_stap d =
     (case d of a # b # r \<Rightarrow>
        (let sz = unat (be16 a b)
         in if sz = 0 \<or> sz > length r then []
            else h264_start_code @ take sz r @ h264_stap (drop sz r))
      | _ \<Rightarrow> [])"
  by pat_completeness auto
termination
  by (relation "measure length") auto

declare h264_stap.simps [simp del]

text \<open>One packet: the output so far, the accumulated fragments and whether a fragmented unit is open.\<close>

type_synonym annex_b_state = "bytes \<times> bytes \<times> bool"

definition h264_step :: "bytes \<Rightarrow> annex_b_state \<Rightarrow> annex_b_state" where
  "h264_step pl = (\<lambda>(out, partial, in_fu).
     if pl = [] then (out, partial, in_fu)
     else (let nal_type = hd pl AND 0x1F
           in if nal_type = 24 then (out @ h264_stap (tl pl), partial, in_fu)
              else if nal_type = 28
              then (if length pl < 2 then (out, partial, in_fu)
                    else (let fu_indicator = pl ! 0; fu_header = pl ! 1;
                              (partial, in_fu) =
                                (if fu_header AND 0x80 \<noteq> 0
                                 then (((fu_indicator AND 0xE0) OR (fu_header AND 0x1F)) # drop 2 pl, True)
                                 else if in_fu then (partial @ drop 2 pl, in_fu) else (partial, in_fu))
                          in if fu_header AND 0x40 \<noteq> 0
                             then (out @ h264_start_code @ partial, [], False)
                             else (out, partial, in_fu)))
              else if nal_type \<ge> 1 \<and> nal_type \<le> 23
              then (out @ h264_start_code @ pl, partial, in_fu)
              else (out, partial, in_fu)))"

definition h264_packets_to_annex_b :: "bytes list \<Rightarrow> bytes" where
  "h264_packets_to_annex_b payloads = fst (fold h264_step payloads ([], [], False))"

section \<open>The descriptor survives the wire\<close>

lemma u8_bits_less:
  "(w::u8) < 16 \<Longrightarrow> bit w k \<Longrightarrow> k < 4" "(w::u8) < 32 \<Longrightarrow> bit w k \<Longrightarrow> k < 5"
  "(w::u8) < 4 \<Longrightarrow> bit w k \<Longrightarrow> k < 2" "(w::u8) < 2 \<Longrightarrow> bit w k \<Longrightarrow> k < 1"
  using bit_less_exp [of w 4] bit_less_exp [of w 5] bit_less_exp [of w 2] bit_less_exp [of w 1] by auto

lemma vpx_octet_fields:
  assumes "i < (16 :: u8)" "s \<in> {0, 1 :: u8}"
  shows "drop_bit 7 (0x80 OR (push_bit 4 s OR (i AND 0xF))) AND 1 \<noteq> 0"
    and "drop_bit 7 (push_bit 4 s OR (i AND 0xF)) AND 1 = 0"
    and "drop_bit 4 (0x80 OR (push_bit 4 s OR (i AND 0xF))) AND 1 = s"
    and "drop_bit 4 (push_bit 4 s OR (i AND 0xF)) AND 1 = s"
    and "(0x80 OR (push_bit 4 s OR (i AND 0xF))) AND 0xF = i"
    and "(push_bit 4 s OR (i AND 0xF)) AND 0xF = i"
proof -
  have nb: "\<not> bit i 4" "\<not> bit i 5" "\<not> bit i 6" "\<not> bit i 7"
    using u8_bits_less(1) [OF assms(1)] by fastforce+
  have "bit (drop_bit 7 (0x80 OR (push_bit 4 s OR (i AND 0xF))) AND 1) 0"
    by (simp add: bit_simps)
  then show "drop_bit 7 (0x80 OR (push_bit 4 s OR (i AND 0xF))) AND 1 \<noteq> 0" by fastforce
  show "drop_bit 7 (push_bit 4 s OR (i AND 0xF)) AND 1 = 0"
    "drop_bit 4 (0x80 OR (push_bit 4 s OR (i AND 0xF))) AND 1 = s"
    "drop_bit 4 (push_bit 4 s OR (i AND 0xF)) AND 1 = s"
    "(0x80 OR (push_bit 4 s OR (i AND 0xF))) AND 0xF = i"
    "(push_bit 4 s OR (i AND 0xF)) AND 0xF = i"
    using assms(2) by (auto intro!: u8_eqI simp: bit_simps nb)
qed

lemma vpx_picture_fields:
  assumes "p < (0x8000 :: u16)"
  shows "p < 128 \<Longrightarrow> (ucast p :: u8) AND 0x80 = 0" and "p < 128 \<Longrightarrow> ucast (ucast p :: u8) = p"
    and "(ucast (drop_bit 8 (0x8000 OR p)) :: u8) AND 0x80 \<noteq> 0"
    and "push_bit 8 (ucast ((ucast (drop_bit 8 (0x8000 OR p)) :: u8) AND 0x7F)) OR ucast (ucast ((0x8000 OR p) AND 0xFF) :: u8) = p"
proof -
  have m: "(0x80::u8) = push_bit 7 1" "(0x8000::u16) = push_bit 15 1" "(0x7F::u8) = mask 7" "(0xFF::u16) = mask 8"
    by (simp_all add: mask_eq_exp_minus_1)
  have bits: "bit (0x8000::u16) n \<longleftrightarrow> n = 15" "bit (0x80::u16) n \<longleftrightarrow> n = 7" "bit (0x80::int) n \<longleftrightarrow> n = 7"
    "bit (0x8000::int) n \<longleftrightarrow> n = 15" for n
    using bit_push_bit_iff [of 15 "1::u16" n] bit_push_bit_iff [of 7 "1::u16" n]
      bit_push_bit_iff [of 7 "1::int" n] bit_push_bit_iff [of 15 "1::int" n] by (auto simp: bit_simps)
  have p15: "bit p k \<Longrightarrow> k < 15" for k using assms bit_less_exp [of p 15] by simp
  have p7: "p < 128 \<Longrightarrow> bit p k \<Longrightarrow> k < 7" for k using bit_less_exp [of p 7] by simp
  show "(ucast p :: u8) AND 0x80 = 0" if "p < 128"
    using p7 [OF that, of 7] by (auto intro!: u8_eqI simp: bit_simps)
  show "p < 128 \<Longrightarrow> ucast (ucast p :: u8) = p"
    by (rule bit_word_eqI) (auto simp: bit_simps dest: p7)
  have "bit ((ucast (drop_bit 8 (0x8000 OR p)) :: u8) AND 0x80) 7"
    unfolding m by (simp add: bit_simps)
  then show "(ucast (drop_bit 8 (0x8000 OR p)) :: u8) AND 0x80 \<noteq> 0" by fastforce
  show "push_bit 8 (ucast ((ucast (drop_bit 8 (0x8000 OR p)) :: u8) AND 0x7F)) OR ucast (ucast ((0x8000 OR p) AND 0xFF) :: u8) = p"
    unfolding m(3,4) by (rule bit_word_eqI) (auto simp: bit_simps bits dest: p15)
qed


lemma vpx_ext_fields:
  fixes P T I K :: bool
  defines "e \<equiv> (if P then 0x80 else 0) OR (if T then 0x40 else 0) OR (if I then 0x20 else 0)
    OR (if K then 0x10 else (0 :: u8))"
  shows "e AND 0x80 \<noteq> 0 \<longleftrightarrow> P" and "e AND 0x40 \<noteq> 0 \<longleftrightarrow> T" and "e AND 0x20 \<noteq> 0 \<longleftrightarrow> I"
    and "e AND 0x10 \<noteq> 0 \<longleftrightarrow> K" and "e AND 0x30 \<noteq> 0 \<longleftrightarrow> I \<or> K"
  by (cases P; cases T; cases I; cases K; simp add: e_def)+

lemma vpx_parse_picture_bytes:
  assumes "ext AND 0x80 \<noteq> 0 \<longleftrightarrow> P \<noteq> None" "vd_picture_id d = None" "pred_option (\<lambda>p. p < 0x8000) P" "length pre = pos"
  shows "vpx_parse_picture (pre @ opt_bytes vpx_picture_bytes P @ r) ext (d, pos)
    = Inr (d\<lparr>vd_picture_id := P\<rparr>, pos + length (opt_bytes vpx_picture_bytes P))"
proof (cases P)
  case None
  with assms show ?thesis by (cases d) (simp add: vpx_parse_picture_def opt_bytes_def)
next
  case (Some p)
  then have "p < 0x8000" using assms by simp
  then show ?thesis
    using Some assms vpx_picture_fields [of p]
    by (simp add: vpx_parse_picture_def opt_bytes_def vpx_picture_bytes_def Let_def nth_append)
qed

lemma vpx_parse_tl0_bytes:
  assumes "ext AND 0x40 \<noteq> 0 \<longleftrightarrow> T \<noteq> None" "vd_tl0picidx d = None" "length pre = pos"
  shows "vpx_parse_tl0 (pre @ opt_bytes (\<lambda>t. [t]) T @ r) ext (d, pos)
    = Inr (d\<lparr>vd_tl0picidx := T\<rparr>, pos + length (opt_bytes (\<lambda>t. [t]) T))"
  using assms by (cases d; cases T) (auto simp: vpx_parse_tl0_def opt_bytes_def)

lemma vpx_parse_tid_bytes:
  assumes "ext AND 0x20 \<noteq> 0 \<longleftrightarrow> vd_tid d' \<noteq> None" "ext AND 0x10 \<noteq> 0 \<longleftrightarrow> vd_keyidx d' \<noteq> None"
    "ext AND 0x30 \<noteq> 0 \<longleftrightarrow> vd_tid d' \<noteq> None \<or> vd_keyidx d' \<noteq> None"
    "vd_tid d = None" "vd_keyidx d = None" "vpx_wf d'" "length pre = pos"
  shows "vpx_parse_tid (pre @ (if vd_tid d' \<noteq> None \<or> vd_keyidx d' \<noteq> None then [vpx_tk d'] else []) @ r) ext (d, pos)
    = Inr (d\<lparr>vd_tid := vd_tid d', vd_keyidx := vd_keyidx d'\<rparr>,
         pos + length (if vd_tid d' \<noteq> None \<or> vd_keyidx d' \<noteq> None then [vpx_tk d'] else []))"
proof -
  have tid: "vd_tid d' = Some (a, b) \<Longrightarrow> a < 4 \<and> b < 2" for a b using assms(6) by (simp add: vpx_wf_def)
  have key: "vd_keyidx d' = Some k \<Longrightarrow> k < 32" for k using assms(6) by (simp add: vpx_wf_def)
  have 1: "drop_bit 6 (vpx_tk d') AND 3 = a \<and> drop_bit 5 (vpx_tk d') AND 1 = b" if "vd_tid d' = Some (a, b)" for a b
    using tid [OF that] key octet_2_1_5_fields [of a b 0] octet_2_1_5_fields [of a b "the (vd_keyidx d')"]
    by (cases "vd_keyidx d'") (auto simp: vpx_tk_def that)
  have 2: "vpx_tk d' AND 0x1F = k" if "vd_keyidx d' = Some k" for k
    using tid key [OF that] octet_2_1_5_fields(3) [of 0 0 k]
      octet_2_1_5_fields(3) [of "fst (the (vd_tid d'))" "snd (the (vd_tid d'))" k]
    by (cases "vd_tid d'") (auto simp: vpx_tk_def that or.assoc)
  show ?thesis
    using assms(1-5,7) 1 2 by (cases d; cases "vd_tid d'"; cases "vd_keyidx d'") (auto simp: vpx_parse_tid_def)
qed

lemma vpx_parse_bytes:
  assumes "vpx_wf d"
  shows "vpx_parse (vpx_bytes d @ rest) = (d, length (vpx_bytes d))"
proof -
  define s :: u8 where "s = (if vd_partition_start d then 1 else 0)"
  have s: "s \<in> {0, 1}" "s \<noteq> 0 \<longleftrightarrow> vd_partition_start d" by (auto simp: s_def)
  have i: "vd_partition_id d < 16" using assms by (simp add: vpx_wf_def)
  note oct = vpx_octet_fields [OF i s(1)]
  define ext where "ext = vpx_ext_octet d"
  have e: "ext AND 0x80 \<noteq> 0 \<longleftrightarrow> vd_picture_id d \<noteq> None" "ext AND 0x40 \<noteq> 0 \<longleftrightarrow> vd_tl0picidx d \<noteq> None"
    "ext AND 0x20 \<noteq> 0 \<longleftrightarrow> vd_tid d \<noteq> None" "ext AND 0x10 \<noteq> 0 \<longleftrightarrow> vd_keyidx d \<noteq> None"
    "ext AND 0x30 \<noteq> 0 \<longleftrightarrow> vd_tid d \<noteq> None \<or> vd_keyidx d \<noteq> None"
    unfolding ext_def vpx_ext_octet_def by (rule vpx_ext_fields)+
  show ?thesis
  proof (cases "vd_picture_id d \<noteq> None \<or> vd_tl0picidx d \<noteq> None \<or> vd_tid d \<noteq> None \<or> vd_keyidx d \<noteq> None")
    case False
    then have "vd_picture_id d = None" "vd_tl0picidx d = None" "vd_tid d = None" "vd_keyidx d = None"
      by blast+
    moreover have "vpx_octet d AND 0xF = vd_partition_id d" "drop_bit 7 (vpx_octet d) AND 1 = 0"
      "drop_bit 4 (vpx_octet d) AND 1 \<noteq> 0 \<longleftrightarrow> vd_partition_start d"
      using oct s by (simp_all add: vpx_octet_def s_def [symmetric])
    ultimately show ?thesis
      by (cases d) (simp add: vpx_bytes_def vpx_parse_def vpx_default_def Let_def)
  next
    case True
    define o0 where "o0 = 0x80 OR vpx_octet d"
    define P where "P = opt_bytes vpx_picture_bytes (vd_picture_id d)"
    define T where "T = opt_bytes (\<lambda>t. [t]) (vd_tl0picidx d)"
    define K where "K = (if vd_tid d \<noteq> None \<or> vd_keyidx d \<noteq> None then [vpx_tk d] else [])"
    have b: "vpx_bytes d @ rest = o0 # ext # P @ T @ K @ rest" "length (vpx_bytes d) = 2 + length P + length T + length K"
      using True by (auto simp: vpx_bytes_def o0_def ext_def P_def T_def K_def)
    define d0 where "d0 = vpx_default\<lparr>vd_partition_start := vd_partition_start d, vd_partition_id := vd_partition_id d\<rparr>"
    have "vpx_parse_picture ([o0, ext] @ P @ (T @ K @ rest)) ext (d0, 2)
        = Inr (d0\<lparr>vd_picture_id := vd_picture_id d\<rparr>, 2 + length P)" (is "_ = Inr (?d1, _)")
      unfolding P_def using e assms
      by (intro vpx_parse_picture_bytes) (auto simp: d0_def vpx_default_def vpx_wf_def)
    moreover have "vpx_parse_tl0 (([o0, ext] @ P) @ T @ (K @ rest)) ext (?d1, 2 + length P)
        = Inr (?d1\<lparr>vd_tl0picidx := vd_tl0picidx d\<rparr>, 2 + length P + length T)" (is "_ = Inr (?d2, _)")
      unfolding T_def using e by (intro vpx_parse_tl0_bytes) (auto simp: d0_def vpx_default_def)
    moreover have "vpx_parse_tid (([o0, ext] @ P @ T) @ K @ rest) ext (?d2, 2 + length P + length T)
        = Inr (?d2\<lparr>vd_tid := vd_tid d, vd_keyidx := vd_keyidx d\<rparr>, 2 + length P + length T + length K)"
      unfolding K_def using e assms by (intro vpx_parse_tid_bytes) (auto simp: d0_def vpx_default_def)
    moreover have "?d2\<lparr>vd_tid := vd_tid d, vd_keyidx := vd_keyidx d\<rparr> = d"
      by (cases d) (simp add: d0_def vpx_default_def)
    moreover have "drop_bit 7 o0 AND 1 \<noteq> 0" "vpx_default\<lparr>vd_partition_start := drop_bit 4 o0 AND 1 \<noteq> 0,
        vd_partition_id := o0 AND 0xF\<rparr> = d0"
      using oct s by (simp_all add: o0_def vpx_octet_def s_def [symmetric] d0_def)
    ultimately show ?thesis
      by (simp add: b vpx_parse_def bind_sum_def Let_def)
  qed
qed


section \<open>The interface of the packetizers\<close>

text \<open>
  \<open>rtp_packetizer_base::pack\<close> with the state of the packetizer passed explicitly, and the function the
  receiving side applies to the payloads of one frame. The laws: no payload exceeds the limit \<open>mtu\<close>
  of the frame, and the receiver gets the frame back.
\<close>

locale packetizer =
  fixes pack :: "'s \<Rightarrow> bytes \<Rightarrow> bytes list \<times> 's"
    and unpack :: "bytes list \<Rightarrow> bytes"
    and inv :: "'s \<Rightarrow> bool"
    and frame_ok :: "bytes \<Rightarrow> bool"
    and mtu :: "bytes \<Rightarrow> nat"
  assumes pack_inv: "inv s \<Longrightarrow> inv (snd (pack s f))"
    and unpack_pack: "inv s \<Longrightarrow> frame_ok f \<Longrightarrow> unpack (fst (pack s f)) = f"
    and pack_mtu: "inv s \<Longrightarrow> frame_ok f \<Longrightarrow> p \<in> set (fst (pack s f)) \<Longrightarrow> p \<noteq> [] \<and> length p \<le> mtu f"
begin

lemma pack_inj:
  "inv s \<Longrightarrow> inv t \<Longrightarrow> frame_ok f \<Longrightarrow> frame_ok g \<Longrightarrow> fst (pack s f) = fst (pack t g) \<Longrightarrow> f = g"
  by (metis unpack_pack)

end

interpretation opus: packetizer opus_pack concat "\<lambda>_. True" "\<lambda>f. f \<noteq> []" length
  by unfold_locales (auto simp: opus_pack_def)

subsection \<open>VP8 and VP9\<close>

lemma vpx_parse_depayload:
  assumes "vpx_parse pl = (d, pos)" "pos \<noteq> 0"
  shows "vpx_depayload pl = drop pos pl"
proof -
  have "pl \<noteq> []" using assms by (auto simp: vpx_parse_def)
  then have ne: "1 \<le> length pl" by (cases pl) auto
  show ?thesis
    using assms
    by (auto simp: vpx_parse_def vpx_depayload_def Let_def bind_sum_def vpx_parse_picture_def vpx_parse_tl0_def
          vpx_parse_tid_def split: if_splits sum.splits; (use ne in linarith)?; simp add: eval_nat_numeral)
qed

lemma vpx_depayload_bytes: "vpx_wf d \<Longrightarrow> vpx_depayload (vpx_bytes d @ x) = x"
  using vpx_parse_depayload [OF vpx_parse_bytes, of d x] length_vpx_bytes [of d]
  by (cases "vpx_bytes d") auto

lemma vpx_chunks_depayload:
  "vpx_wf desc \<Longrightarrow> concat (map vpx_depayload (vpx_chunks desc data)) = data"
proof (induction desc data rule: vpx_chunks.induct)
  case (1 desc data)
  show ?case
  proof (cases "data = []")
    case False
    moreover have "vpx_wf (desc\<lparr>vd_partition_start := False\<rparr>)" using 1(2) by (simp add: vpx_wf_def)
    ultimately show ?thesis
      using 1 by (subst vpx_chunks.simps) (simp add: Let_def vpx_depayload_bytes)
  qed (simp add: vpx_chunks.simps)
qed

text \<open>Every chunk carries at least one byte of the frame; only the first is marked as the start.\<close>

lemma vpx_chunks_mtu:
  "p \<in> set (vpx_chunks desc data) \<Longrightarrow> 1 < length p \<and> length p \<le> kPacketMax"
proof (induction desc data rule: vpx_chunks.induct)
  case (1 desc data)
  show ?case
  proof (cases "data = []")
    case False
    with 1(2) consider "p = vpx_bytes desc @ take (min (length data) (kPacketMax - length (vpx_bytes desc))) data"
      | "p \<in> set (vpx_chunks (desc\<lparr>vd_partition_start := False\<rparr>)
            (drop (min (length data) (kPacketMax - length (vpx_bytes desc))) data))"
      by (subst (asm) vpx_chunks.simps) (auto simp: Let_def)
    then show ?thesis
    proof cases
      case 1
      have "0 < length data" using False by simp
      moreover have "length p = length (vpx_bytes desc) + min (length data) (kPacketMax - length (vpx_bytes desc))"
        using 1 by simp
      moreover have "min (length data) (kPacketMax - length (vpx_bytes desc)) \<le> kPacketMax - length (vpx_bytes desc)"
        "length (vpx_bytes desc) \<le> 6" "1 \<le> length (vpx_bytes desc)"
        using length_vpx_bytes by simp_all
      moreover from this have "1 \<le> min (length data) (kPacketMax - length (vpx_bytes desc))"
        using False by (cases data) auto
      ultimately show ?thesis by linarith
    next
      case 2
      then show ?thesis using 1(1) [OF False refl refl] by simp
    qed
  qed (use 1(2) in \<open>simp add: vpx_chunks.simps\<close>)
qed

lemma vpx_chunks_start:
  "vpx_wf desc \<Longrightarrow> map (vd_partition_start \<circ> fst \<circ> vpx_parse) (vpx_chunks desc data)
     = (if data = [] then [] else vd_partition_start desc # replicate (length (vpx_chunks desc data) - 1) False)"
proof (induction desc data rule: vpx_chunks.induct)
  case (1 desc data)
  show ?case
  proof (cases "data = []")
    case False
    let ?n = "min (length data) (kPacketMax - length (vpx_bytes desc))"
    let ?r = "vpx_chunks (desc\<lparr>vd_partition_start := False\<rparr>) (drop ?n data)"
    have wf: "vpx_wf (desc\<lparr>vd_partition_start := False\<rparr>)" using 1(2) by (simp add: vpx_wf_def)
    have eq: "vpx_chunks desc data = (vpx_bytes desc @ take ?n data) # ?r"
      using False by (subst vpx_chunks.simps) (simp add: Let_def)
    define r where "r = ?r"
    have off: "vd_partition_start (desc\<lparr>vd_partition_start := False\<rparr>) = False" by simp
    have "map (vd_partition_start \<circ> fst \<circ> vpx_parse) r
        = (if drop ?n data = [] then [] else False # replicate (length r - 1) False)"
      using 1(1) [OF False refl refl wf] unfolding r_def by (simp only: off)
    then have "map (vd_partition_start \<circ> fst \<circ> vpx_parse) r = replicate (length r) False"
      by (cases r) (auto split: if_splits)
    then show ?thesis using False eq vpx_parse_bytes [OF 1(2)] by (simp add: r_def comp_def)
  qed (simp add: vpx_chunks.simps)
qed

lemma vpx_pack_wf: "p < 0x8000 \<Longrightarrow> vpx_wf (vpx_default\<lparr>vd_partition_start := True, vd_partition_id := 0, vd_picture_id := Some p\<rparr>)"
  by (simp add: vpx_wf_def vpx_default_def)


text \<open>A state is a picture id that fits in 15 bits, which the constructors and every call keep.\<close>

lemma and_0x7FFF_less: "(p AND 0x7FFF) < (0x8000 :: u16)"
proof -
  have "p AND 0x7FFF \<le> 0x7FFF" by (rule word_and_le1)
  then show ?thesis by (simp add: word_less_nat_alt word_le_nat_alt)
qed

lemma vpx_packetizer_new_less: "vpx_packetizer_new r < 0x8000"
proof -
  have "vpx_packetizer_new r = ucast r AND 0x7FFF"
    by (rule bit_word_eqI) (auto simp: vpx_packetizer_new_def bit_simps)
  then show ?thesis by (simp add: and_0x7FFF_less)
qed

section \<open>H.264\<close>

definition annex_b :: "bytes list \<Rightarrow> bytes" where
  "annex_b nals = concat (map (\<lambda>n. h264_start_code @ n) nals)"

text \<open>
  The NAL units the receiver reassembles: a type of 1 to 23, and the forbidden bit clear in a unit
  that has to be fragmented.
\<close>

definition h264_nal_ok :: "bytes \<Rightarrow> bool" where
  "h264_nal_ok nal \<longleftrightarrow> nal \<noteq> [] \<and> 1 \<le> hd nal AND 0x1F \<and> hd nal AND 0x1F \<le> 23 \<and>
     (length nal \<le> kPacketMax \<or> hd nal AND 0x80 = 0)"

lemma h264_header_bits:
  fixes h :: u8
  shows "((h AND 0x60) OR 28) AND 0x1F = 28"
    and "((h AND 0x1F OR (if f then 0x80 else 0)) OR (if l then 0x40 else 0)) AND 0x80 \<noteq> 0 \<longleftrightarrow> f"
    and "((h AND 0x1F OR (if f then 0x80 else 0)) OR (if l then 0x40 else 0)) AND 0x40 \<noteq> 0 \<longleftrightarrow> l"
    and "h AND 0x80 = 0 \<Longrightarrow> (((h AND 0x60) OR 28) AND 0xE0) OR
      (((h AND 0x1F OR (if f then 0x80 else 0)) OR (if l then 0x40 else 0)) AND 0x1F) = h"
proof -
  show "((h AND 0x60) OR 28) AND 0x1F = 28" by (rule u8_eqI) (simp_all add: bit_simps)
  have 1: "bit (((h AND 0x1F OR (if f then 0x80 else 0)) OR (if l then 0x40 else 0)) AND 0x80) 7 \<longleftrightarrow> f"
    "bit (((h AND 0x1F OR (if f then 0x80 else 0)) OR (if l then 0x40 else 0)) AND 0x40) 6 \<longleftrightarrow> l"
    by (simp_all add: bit_simps)
  show "((h AND 0x1F OR (if f then 0x80 else 0)) OR (if l then 0x40 else 0)) AND 0x80 \<noteq> 0 \<longleftrightarrow> f"
    using 1(1) by (cases f) (fastforce, auto intro!: u8_eqI simp: bit_simps)
  show "((h AND 0x1F OR (if f then 0x80 else 0)) OR (if l then 0x40 else 0)) AND 0x40 \<noteq> 0 \<longleftrightarrow> l"
    using 1(2) by (cases l) (fastforce, auto intro!: u8_eqI simp: bit_simps)
  assume "h AND 0x80 = 0"
  then have "\<not> bit (h AND 0x80) 7" by simp
  then have "\<not> bit h 7" by (simp add: bit_simps)
  then show "(((h AND 0x60) OR 28) AND 0xE0) OR
      (((h AND 0x1F OR (if f then 0x80 else 0)) OR (if l then 0x40 else 0)) AND 0x1F) = h"
    by (intro u8_eqI) (simp_all add: bit_simps)
qed

lemma h264_fragments_rest:
  "data \<noteq> [] \<Longrightarrow> fold h264_step (h264_fragments h False data) (out, p, True)
     = (out @ h264_start_code @ p @ data, [], False)"
proof (induction "length data" arbitrary: data p rule: less_induct)
  case less
  let ?n = "min (length data) (kPacketMax - 2)"
  show ?case
  proof (cases "drop ?n data = []")
    case True
    then show ?thesis
      using less.prems h264_header_bits(1) [of h] h264_header_bits(2,3) [of h False True]
      by (subst h264_fragments.simps) (simp add: Let_def h264_fragments.simps h264_step_def)
  next
    case False
    have "fold h264_step (h264_fragments h False (drop ?n data)) (out, p @ take ?n data, True)
        = (out @ h264_start_code @ (p @ take ?n data) @ drop ?n data, [], False)"
      using less.prems False by (intro less.hyps) auto
    then show ?thesis
      using less.prems False h264_header_bits(1) [of h] h264_header_bits(2,3) [of h False False]
      by (subst h264_fragments.simps) (simp add: Let_def h264_step_def)
  qed
qed


lemma h264_fragments_start:
  assumes "data \<noteq> []" "h AND 0x80 = 0"
  shows "fold h264_step (h264_fragments h True data) (out, p, b)
     = (out @ h264_start_code @ h # data, [], False)"
proof -
  let ?n = "min (length data) (kPacketMax - 2)"
  show ?thesis
  proof (cases "drop ?n data = []")
    case True
    then show ?thesis
      using assms h264_header_bits(1) [of h] h264_header_bits(2-4) [of h True True]
      by (subst h264_fragments.simps) (simp add: Let_def h264_fragments.simps h264_step_def or.assoc)
  next
    case False
    then show ?thesis
      using assms h264_header_bits(1) [of h] h264_header_bits(2-4) [of h True False]
        h264_fragments_rest [OF False, of h out "h # take ?n data"]
      by (subst h264_fragments.simps) (simp add: Let_def h264_step_def)
  qed
qed

lemma h264_step_pack_nal:
  assumes "h264_nal_ok nal"
  shows "fold h264_step (h264_pack_nal nal) (out, [], False) = (out @ h264_start_code @ nal, [], False)"
proof (cases "length nal \<le> kPacketMax")
  case True
  with assms show ?thesis by (auto simp: h264_pack_nal_def h264_step_def h264_nal_ok_def Let_def)
next
  case False
  then obtain h t where "nal = h # t" by (cases nal) auto
  moreover have "h AND 0x80 = 0" "t \<noteq> []" using assms False calculation by (auto simp: h264_nal_ok_def)
  ultimately show ?thesis using False h264_fragments_start [of t h] by (simp add: h264_pack_nal_def)
qed

lemma h264_unpack_nals:
  "list_all h264_nal_ok nals \<Longrightarrow>
   fold h264_step (concat (map h264_pack_nal nals)) (out, [], False) = (out @ annex_b nals, [], False)"
  by (induction nals arbitrary: out) (simp_all add: annex_b_def h264_step_pack_nal)

lemma h264_fragments_mtu: "p \<in> set (h264_fragments h b data) \<Longrightarrow> 2 < length p \<and> length p \<le> kPacketMax"
proof (induction h b data rule: h264_fragments.induct)
  case (1 h b data)
  then show ?case
    by (cases "data = []"; subst (asm) (2) h264_fragments.simps) (auto simp: Let_def)
qed

lemma h264_pack_nal_mtu: "nal \<noteq> [] \<Longrightarrow> p \<in> set (h264_pack_nal nal) \<Longrightarrow> p \<noteq> [] \<and> length p \<le> kPacketMax"
  using h264_fragments_mtu [of p "hd nal" True "tl nal"] by (auto simp: h264_pack_nal_def split: if_splits)

subsection \<open>Annex B framing\<close>

text \<open>A unit that can be delimited by start codes: it contains none and does not end in a zero byte.\<close>

definition h264_unit :: "bytes \<Rightarrow> bool" where
  "h264_unit nal \<longleftrightarrow> nal \<noteq> [] \<and> last nal \<noteq> 0 \<and> find_start_code nal = None"

lemma find_start_code_append:
  "find_start_code nal = None \<Longrightarrow> nal = [] \<or> last nal \<noteq> 0 \<Longrightarrow>
   find_start_code (nal @ 0 # 0 # 1 # r) = Some (length nal, 3)"
proof (induction nal)
  case (Cons a nal)
  have "find_start_code nal = None"
    using Cons.prems(1) by (cases nal; cases "tl nal") (auto split: if_splits)
  then have IH: "find_start_code (nal @ 0 # 0 # 1 # r) = Some (length nal, 3)"
    using Cons by (cases nal) auto
  show ?case
    using Cons.prems IH by (cases nal; cases "tl nal"; cases "tl (tl nal)") (auto split: if_splits)
qed simp

lemma find_start_code_append4:
  "find_start_code nal = None \<Longrightarrow> nal = [] \<or> last nal \<noteq> 0 \<Longrightarrow>
   find_start_code (nal @ 0 # 0 # 0 # 1 # r) = Some (length nal, 4)"
proof (induction nal)
  case (Cons a nal)
  have "find_start_code nal = None"
    using Cons.prems(1) by (cases nal; cases "tl nal") (auto split: if_splits)
  then have IH: "find_start_code (nal @ 0 # 0 # 0 # 1 # r) = Some (length nal, 4)"
    using Cons by (cases nal) auto
  show ?case
    using Cons.prems IH by (cases nal; cases "tl nal"; cases "tl (tl nal)") (auto split: if_splits)
qed simp

lemma find_start_code_nonzero: "list_all (\<lambda>x. x \<noteq> 0) d \<Longrightarrow> find_start_code d = None"
  by (induction d rule: find_start_code.induct) auto

text \<open>A stream whose units have start codes of three bytes, or of four where the flag says so.\<close>

definition start_code :: "bool \<Rightarrow> bytes" where
  "start_code long = (if long then [0, 0, 0, 1] else [0, 0, 1])"

definition annex_b_stream :: "(bool \<times> bytes) list \<Rightarrow> bytes" where
  "annex_b_stream us = concat (map (\<lambda>(long, n). start_code long @ n) us)"

lemma annex_b_stream_short: "annex_b_stream (map (Pair False) nals) = annex_b nals"
  by (simp add: annex_b_stream_def annex_b_def start_code_def h264_start_code_def comp_def)

lemma find_start_code_stream:
  "h264_unit n \<Longrightarrow> find_start_code (n @ start_code l @ r) = Some (length n, length (start_code l))"
  using find_start_code_append [of n r] find_start_code_append4 [of n r] by (simp add: h264_unit_def start_code_def)

lemma h264_nals_stream:
  "list_all (h264_unit \<circ> snd) us \<Longrightarrow> h264_nals (annex_b_stream us) = map snd us"
proof (induction us)
  case Nil
  show ?case by (subst h264_nals.simps) (simp add: annex_b_stream_def)
next
  case (Cons u us)
  obtain l n where u: "u = (l, n)" by (cases u)
  have n: "h264_unit n" "n \<noteq> []" "find_start_code n = None" using Cons.prems by (simp_all add: u h264_unit_def)
  have sc: "find_start_code (annex_b_stream (u # us)) = Some (0, length (start_code l))"
    "drop (length (start_code l)) (annex_b_stream (u # us)) = n @ annex_b_stream us"
    by (cases l; simp add: annex_b_stream_def u start_code_def)+
  show ?case
  proof (cases us)
    case Nil
    then show ?thesis using sc n u by (subst h264_nals.simps) (simp add: Let_def annex_b_stream_def)
  next
    case Cons2: (Cons v vs)
    obtain k m where "v = (k, m)" by (cases v)
    then have "find_start_code (n @ annex_b_stream us) = Some (length n, length (start_code k))"
      using find_start_code_stream [OF n(1), of k "m @ annex_b_stream vs"] by (simp add: Cons2 annex_b_stream_def)
    then show ?thesis using sc n Cons u by (subst h264_nals.simps) (simp add: Let_def)
  qed
qed

lemma h264_nals_annex_b: "list_all h264_unit nals \<Longrightarrow> h264_nals (annex_b nals) = nals"
  using h264_nals_stream [of "map (Pair False) nals"] by (simp add: annex_b_stream_short list.pred_map comp_def)


definition vpx_unpack :: "bytes list \<Rightarrow> bytes" where
  "vpx_unpack payloads = concat (map vpx_depayload payloads)"

lemma vpx_pack_laws:
  "p < 0x8000 \<Longrightarrow> vpx_unpack (fst (vpx_pack p f)) = f"
  "x \<in> set (fst (vpx_pack p f)) \<Longrightarrow> x \<noteq> [] \<and> length x \<le> kPacketMax"
  "snd (vpx_pack p f) < 0x8000"
  using vpx_chunks_mtu [of x]
  by (auto simp: vpx_pack_def vpx_unpack_def vpx_chunks_depayload [OF vpx_pack_wf] and_0x7FFF_less)

interpretation vp8: packetizer vp8_pack vpx_unpack "\<lambda>p. p < 0x8000" "\<lambda>_. True" "\<lambda>_. kPacketMax"
  by unfold_locales (auto simp: vp8_pack_def vpx_pack_laws)

interpretation vp9: packetizer vp9_pack vpx_unpack "\<lambda>p. p < 0x8000" "\<lambda>_. True" "\<lambda>_. kPacketMax"
  by unfold_locales (auto simp: vp9_pack_def vpx_pack_laws)

definition h264_frame_ok :: "bytes \<Rightarrow> bool" where
  "h264_frame_ok f \<longleftrightarrow> annex_b (h264_nals f) = f \<and> list_all h264_nal_ok (h264_nals f)"

interpretation h264: packetizer h264_pack h264_packets_to_annex_b "\<lambda>_. True" h264_frame_ok "\<lambda>_. kPacketMax"
proof
  fix f p and s :: unit
  assume f: "h264_frame_ok f"
  show "h264_packets_to_annex_b (fst (h264_pack s f)) = f"
    using f h264_unpack_nals [of "h264_nals f" "[]"]
    by (simp add: h264_pack_def h264_packets_to_annex_b_def h264_frame_ok_def)
  assume "p \<in> set (fst (h264_pack s f))"
  then obtain n where "n \<in> set (h264_nals f)" "p \<in> set (h264_pack_nal n)" by (auto simp: h264_pack_def)
  with f h264_pack_nal_mtu [of n p] show "p \<noteq> [] \<and> length p \<le> kPacketMax"
    by (auto simp: h264_frame_ok_def h264_nal_ok_def list_all_iff)
qed simp

section \<open>Properties\<close>

text \<open>
  A payload descriptor with fields in range, serialised and followed by any bytes, is parsed back
  to the same descriptor, and exactly its bytes are consumed.
\<close>
theorem vpx_descriptor_roundtrip:
  assumes "vpx_wf d"
  shows "vpx_parse (vpx_bytes d @ rest) = (d, length (vpx_bytes d))"
  using assms by (rule vpx_parse_bytes)

theorem vpx_descriptor_roundtrip_witness:
  "let d = \<lparr>vd_partition_start = True, vd_partition_id = 3, vd_picture_id = Some 300, vd_tl0picidx = Some 9,
      vd_tid = Some (2, 1), vd_keyidx = Some 17\<rparr>
   in vpx_wf d \<and> vpx_parse (vpx_bytes d @ [7, 7]) = (d, length (vpx_bytes d))"
  unfolding Let_def by (intro conjI vpx_descriptor_roundtrip) (simp_all add: vpx_wf_def)

text \<open>
  C28: A frame cut by the VP8 packetizer with a 15-bit picture id: every payload has at most 1200 bytes
  and at least one byte behind its descriptor, only the first payload is marked as the start of the
  partition, \<open>depayload\<close> of the receiving side gives the frame back in order, and the next
  picture id fits in 15 bits again.
\<close>
theorem vp8_frame_reassembles:
  assumes "p < 0x8000" "frame \<noteq> []" "nceq codec ''VP8''"
  shows "concat (map (depayload nceq codec) (fst (vp8_pack p frame))) = frame
    \<and> list_all (\<lambda>x. 1 < length x \<and> length x \<le> 1200) (fst (vp8_pack p frame))
    \<and> map (vd_partition_start \<circ> fst \<circ> vpx_parse) (fst (vp8_pack p frame))
        = True # replicate (length (fst (vp8_pack p frame)) - 1) False
    \<and> snd (vp8_pack p frame) < 0x8000"
proof -
  have len: "list_all (\<lambda>x. 1 < length x \<and> length x \<le> 1200) (fst (vp8_pack p frame))"
    by (auto simp: list_all_iff vp8_pack_def vpx_pack_def dest: vpx_chunks_mtu)
  then have "map (depayload nceq codec) (fst (vp8_pack p frame)) = map vpx_depayload (fst (vp8_pack p frame))"
    using assms(3) by (auto simp: depayload_def list_all_iff)
  then have "concat (map (depayload nceq codec) (fst (vp8_pack p frame))) = frame"
    using vp8.unpack_pack [OF assms(1), of frame] by (simp only: vpx_unpack_def simp_thms)
  moreover have "map (vd_partition_start \<circ> fst \<circ> vpx_parse) (fst (vp8_pack p frame))
      = True # replicate (length (fst (vp8_pack p frame)) - 1) False"
    using vpx_chunks_start [OF vpx_pack_wf [OF assms(1)], of frame] assms(2)
    by (simp add: vp8_pack_def vpx_pack_def)
  ultimately show ?thesis using len vp8.pack_inv [OF assms(1)] by simp
qed

theorem vp8_frame_reassembles_witness:
  "concat (map (depayload (=) ''VP8'') (fst (vp8_pack 300 [1, 2, 3]))) = [1, 2, 3]"
  using vp8_frame_reassembles [of 300 "[1, 2, 3]" "(=)" "''VP8''"] by simp

text \<open>
  C29: The units of a frame are restored. A frame is a stream of NAL units that start codes can delimit,
  each behind a start code of three or of four bytes; the units are of the types 1 to 23, with the
  forbidden bit clear in the ones above 1200 bytes. Packetising it and feeding the packets to the
  receiver's reassembly gives the same units in their order, each behind a code of three bytes (so the
  stream itself when it had no others), with no packet above 1200 bytes.
\<close>
theorem h264_frame_reassembles:
  assumes "list_all (h264_unit \<circ> snd) us" "list_all (h264_nal_ok \<circ> snd) us"
  shows "h264_packets_to_annex_b (fst (h264_pack () (annex_b_stream us))) = annex_b (map snd us)
    \<and> h264_nals (annex_b (map snd us)) = map snd us
    \<and> list_all (\<lambda>x. x \<noteq> [] \<and> length x \<le> 1200) (fst (h264_pack () (annex_b_stream us)))"
proof -
  have p: "fst (h264_pack () (annex_b_stream us)) = concat (map h264_pack_nal (map snd us))"
    using h264_nals_stream [OF assms(1)] by (simp add: h264_pack_def)
  have ok: "list_all h264_nal_ok (map snd us)" using assms(2) by (simp add: list.pred_map)
  have "list_all (\<lambda>x. x \<noteq> [] \<and> length x \<le> 1200) (fst (h264_pack () (annex_b_stream us)))"
    unfolding p using assms(2) h264_pack_nal_mtu by (fastforce simp: list_all_iff h264_nal_ok_def)
  moreover have "h264_nals (annex_b (map snd us)) = map snd us"
    using assms(1) by (simp add: h264_nals_annex_b list.pred_map)
  ultimately show ?thesis unfolding p h264_packets_to_annex_b_def using h264_unpack_nals [OF ok, of "[]"] by simp
qed

theorem h264_frame_reassembles_witness:
  "h264_packets_to_annex_b (fst (h264_pack () ([0, 0, 0, 1, 0x67, 1] @ [0, 0, 1, 0x65] @ replicate 1500 7)))
     = annex_b [[0x67, 1], 0x65 # replicate 1500 7]"
proof -
  let ?us = "[(True, [0x67, 1]), (False, 0x65 # replicate 1500 7)] :: (bool \<times> bytes) list"
  have "find_start_code (0x65 # replicate 1500 7) = None"
    by (rule find_start_code_nonzero) (simp add: list_all_iff)
  moreover have "annex_b_stream ?us = [0, 0, 0, 1, 0x67, 1] @ [0, 0, 1, 0x65] @ replicate 1500 7"
    by (simp add: annex_b_stream_def start_code_def)
  ultimately show ?thesis
    using h264_frame_reassembles [of ?us] by (simp add: h264_unit_def h264_nal_ok_def)
qed

text \<open>
  A byte before the first start code shifts every boundary of the first unit: the unit begins
  \<open>code1_len\<close> bytes behind the start of the buffer, inside the start code.
\<close>

lemma h264_leading_byte: "h264_nals [9, 0, 0, 1, 0x67, 5] = [[1, 0x67, 5]]"
  by (subst h264_nals.simps) (simp add: Let_def)

text \<open>An end fragment without its start puts a start code with no unit behind it into the stream.\<close>

lemma h264_orphan_end: "h264_packets_to_annex_b [[0x7C, 0x45, 9]] = [0, 0, 1]"
  by (simp add: h264_packets_to_annex_b_def h264_step_def h264_start_code_def Let_def)

end
