(* ===== verification/SdpText.thy ===== *)
theory SdpText
  imports Prelude "HOL-Library.Char_ord" "HOL-Library.List_Lexorder"
begin

text \<open>
  The text helpers of \<open>src/sdp.cpp\<close>: searching, trimming and splitting views, decimal numbers, and
  the operations on the parameter string of a codec. A \<open>string_view\<close> is the list of its characters.
  The functions of other packages that the parser calls (the case-insensitive comparison of the
  \<open>asioice\<close> submodule and the compile-time regular expressions) are the fields of \<open>sdp_lib\<close>.
\<close>

section \<open>Code outside the repository\<close>

text \<open>
  The matchers answer \<open>None\<close> when the regular expression named in the source does not match and its
  groups otherwise; \<open>rx_tokens\<close> and \<open>rx_digits\<close> are the two uses of \<open>search_all\<close>.
\<close>

record sdp_lib =
  nceq :: "string \<Rightarrow> string \<Rightarrow> bool"
  rx_crypto :: "string \<Rightarrow> (string \<times> string \<times> string \<times> string) option"
  rx_rtcp :: "string \<Rightarrow> (string \<times> (string \<times> string \<times> string) option) option"
  rx_rid :: "string \<Rightarrow> (string \<times> string \<times> string) option"
  rx_param :: "string \<Rightarrow> (string \<times> string) option"
  rx_tokens :: "string \<Rightarrow> string list"
  rx_digits :: "string \<Rightarrow> string list"

definition to_lower :: "char \<Rightarrow> char" where
  "to_lower c = (if of_char c \<ge> (65::nat) \<and> of_char c \<le> (90::nat) then char_of (of_char c + (32::nat)) else c)"

text \<open>The documented behaviour of \<open>nceq\<close>: equality without regard to the case of ASCII letters.\<close>

definition nceq_ok :: "sdp_lib \<Rightarrow> bool" where
  "nceq_ok L \<longleftrightarrow> (\<forall>a b. nceq L a b \<longleftrightarrow> map to_lower a = map to_lower b)"

section \<open>Views\<close>

definition is_space :: "char \<Rightarrow> bool" where
  "is_space c \<longleftrightarrow> c = CHR '' '' \<or> c = CHR 0x09 \<or> c = CHR 0x0A \<or> c = CHR 0x0D \<or> c = CHR 0x0C \<or> c = CHR 0x0B"

definition trim :: "string \<Rightarrow> string" where
  "trim s = rev (dropWhile is_space (rev (dropWhile is_space s)))"

text \<open>\<open>find(c)\<close> with the two views around the character: what is before it, and what is behind it if it occurs.\<close>

definition before :: "char \<Rightarrow> string \<Rightarrow> string" where
  "before c s = takeWhile (\<lambda>x. x \<noteq> c) s"

definition behind :: "char \<Rightarrow> string \<Rightarrow> string option" where
  "behind c s = (case dropWhile (\<lambda>x. x \<noteq> c) s of [] \<Rightarrow> None | _ # r \<Rightarrow> Some r)"

definition first_token :: "string \<Rightarrow> string" where
  "first_token s = before CHR '' '' s"

lemma behind_length: "behind c s = Some r \<Longrightarrow> length r < length s"
proof (induction s)
  case (Cons a s)
  then show ?case by (cases "a = c") (auto simp: behind_def)
qed (simp add: behind_def)

text \<open>\<open>split_lines\<close>: the lines of a text, without their line ends.\<close>

definition strip_cr :: "string \<Rightarrow> string" where
  "strip_cr l = (if l \<noteq> [] \<and> last l = CHR 0x0D then butlast l else l)"

function split_lines :: "string \<Rightarrow> string list" where
  "split_lines s =
     (if s = [] then []
      else (let line = strip_cr (before CHR 0x0A s)
            in case behind CHR 0x0A s of
                 None \<Rightarrow> if line \<noteq> [] then [line] else []
               | Some r \<Rightarrow> line # split_lines r))"
  by pat_completeness auto
termination
  by (relation "measure length") (auto simp: behind_length)

declare split_lines.simps [simp del]

definition split_attr :: "string \<Rightarrow> string \<times> string" where
  "split_attr a = (case behind CHR '':'' a of None \<Rightarrow> (a, []) | Some r \<Rightarrow> (before CHR '':'' a, r))"

text \<open>\<open>split_whitespace\<close>, which splits at spaces, and the extraction of words from a stream, which splits at white space.\<close>

function split_by :: "(char \<Rightarrow> bool) \<Rightarrow> string \<Rightarrow> string list" where
  "split_by p s =
     (case dropWhile p s of [] \<Rightarrow> []
      | c # r \<Rightarrow> (c # takeWhile (\<lambda>x. \<not> p x) r) # split_by p (dropWhile (\<lambda>x. \<not> p x) r))"
  by pat_completeness auto
termination
proof (relation "measure (\<lambda>(_, s). length s)")
  fix p s c r
  assume "dropWhile p s = c # r"
  moreover have "length (dropWhile p s) \<le> length s" by (rule length_dropWhile_le)
  moreover have "length (dropWhile (\<lambda>x. \<not> p x) r) \<le> length r" by (rule length_dropWhile_le)
  ultimately show "((p, dropWhile (\<lambda>x. \<not> p x) r), p, s) \<in> measure (\<lambda>(_, s). length s)" by simp
qed simp

declare split_by.simps [simp del]

definition split_whitespace :: "string \<Rightarrow> string list" where
  "split_whitespace s = split_by (\<lambda>c. c = CHR '' '') s"

definition stream_words :: "string \<Rightarrow> string list" where
  "stream_words s = split_by is_space s"

section \<open>Decimal numbers\<close>

definition is_digit :: "char \<Rightarrow> bool" where
  "is_digit c \<longleftrightarrow> 48 \<le> (of_char c :: nat) \<and> (of_char c :: nat) \<le> 57"

definition digit_val :: "char \<Rightarrow> nat" where
  "digit_val c = of_char c - 48"

definition dec_val :: "string \<Rightarrow> nat" where
  "dec_val s = foldl (\<lambda>n c. 10 * n + digit_val c) 0 s"

text \<open>
  \<open>std::from_chars\<close> on the whole view: digits only, at least one, and a value that fits the type.
\<close>

definition from_chars :: "nat \<Rightarrow> string \<Rightarrow> nat option" where
  "from_chars bits s =
     (if s \<noteq> [] \<and> list_all is_digit s \<and> dec_val s < 2 ^ bits then Some (dec_val s) else None)"

definition parse_uint8 :: "string \<Rightarrow> u8 option" where
  "parse_uint8 s = map_option of_nat (from_chars 8 s)"

definition parse_uint16 :: "string \<Rightarrow> u16 option" where
  "parse_uint16 s = map_option of_nat (from_chars 16 s)"

definition parse_uint32 :: "string \<Rightarrow> u32 option" where
  "parse_uint32 s = map_option of_nat (from_chars 32 s)"

fun show_nat :: "nat \<Rightarrow> string" where
  "show_nat n = (if n < 10 then [char_of (48 + n)] else show_nat (n div 10) @ [char_of (48 + n mod 10)])"

declare show_nat.simps [simp del]

definition show_word :: "'a::len word \<Rightarrow> string" where
  "show_word w = show_nat (unat w)"

section \<open>The parameter string of a codec\<close>

text \<open>\<open>find(name)\<close>: the first position at which the name occurs.\<close>

fun str_find :: "string \<Rightarrow> string \<Rightarrow> nat option" where
  "str_find pat s =
     (if take (length pat) s = pat then Some 0
      else case s of [] \<Rightarrow> None | _ # r \<Rightarrow> map_option Suc (str_find pat r))"

declare str_find.simps [simp del]

text \<open>The position of the next semicolon at or behind a position; the end of the string if there is none.\<close>

definition semicolon_from :: "nat \<Rightarrow> string \<Rightarrow> nat" where
  "semicolon_from p s = p + length (takeWhile (\<lambda>c. c \<noteq> CHR '';'') (drop p s))"

definition find_param :: "string \<Rightarrow> string \<Rightarrow> string option" where
  "find_param params name =
     (case str_find name params of None \<Rightarrow> None
      | Some pos \<Rightarrow>
          if pos + length name + 1 > length params then None
          else if params ! (pos + length name) \<noteq> CHR ''='' then None
          else (let b = pos + length name + 1
                in Some (take (semicolon_from b params - b) (drop b params))))"

definition add_param :: "string \<Rightarrow> string \<Rightarrow> string \<Rightarrow> string" where
  "add_param params name value =
     (if params = [] then name @ ''='' @ value
      else case str_find name params of
        None \<Rightarrow> params @ '';'' @ name @ ''='' @ value
      | Some pos \<Rightarrow>
          if pos + length name + 1 > length params then params
          else if params ! (pos + length name) \<noteq> CHR ''='' then params
          else (let b = pos + length name + 1
                in take b params @ value @ drop (semicolon_from b params) params))"

definition remove_param :: "string \<Rightarrow> string \<Rightarrow> string" where
  "remove_param params name =
     (case str_find name params of None \<Rightarrow> params
      | Some pos \<Rightarrow>
          (let e = semicolon_from (pos + length name) params;
               e = (if e = length params then e else e + 1)
           in take pos params @ drop e params))"

end
