(* ===== verification/SdpTypes.thy ===== *)
theory SdpTypes
  imports SdpText
begin

text \<open>
  The data of \<open>src/sdp.hpp\<close>: the enumerations with their names on the wire and the structures of a
  session description, and the operations of a media section on its codecs and feedback.
\<close>

section \<open>Enumerations\<close>

datatype sdp_media_type = mt_audio | mt_video | mt_application | mt_text | mt_message

datatype sdp_proto = UDP | RTP_AVP | RTP_SAVP | RTP_SAVPF | UDP_TLS_RTP_SAVPF | DTLS_SCTP
  | UDP_DTLS_SCTP | TCP_DTLS_SCTP

datatype sdp_setup_role = sr_active | sr_passive | sr_actpass | sr_holdconn

datatype sdp_rid_direction = rid_send | rid_recv

datatype sdp_direction = inactive | sendonly | recvonly | sendrecv

datatype sdp_bandwidth_type = bw_CT | bw_AS | bw_TIAS | bw_RS | bw_RR

text \<open>A chain of \<open>nceq\<close> tests: the value of the first name that compares equal.\<close>

fun parse_name :: "sdp_lib \<Rightarrow> (string \<times> 'a) list \<Rightarrow> string \<Rightarrow> 'a option" where
  "parse_name L [] s = None"
| "parse_name L ((n, v) # nvs) s = (if nceq L s n then Some v else parse_name L nvs s)"

fun media_type_str :: "sdp_media_type \<Rightarrow> string" where
  "media_type_str mt_audio = ''audio''"
| "media_type_str mt_video = ''video''"
| "media_type_str mt_application = ''application''"
| "media_type_str mt_text = ''text''"
| "media_type_str mt_message = ''message''"

definition parse_sdp_media_type :: "sdp_lib \<Rightarrow> string \<Rightarrow> sdp_media_type option" where
  "parse_sdp_media_type L s = parse_name L [(''audio'', mt_audio), (''video'', mt_video),
     (''application'', mt_application), (''text'', mt_text), (''message'', mt_message)] s"

fun proto_str :: "sdp_proto \<Rightarrow> string" where
  "proto_str UDP = ''UDP''"
| "proto_str RTP_AVP = ''RTP/AVP''"
| "proto_str RTP_SAVP = ''RTP/SAVP''"
| "proto_str RTP_SAVPF = ''RTP/SAVPF''"
| "proto_str UDP_TLS_RTP_SAVPF = ''UDP/TLS/RTP/SAVPF''"
| "proto_str DTLS_SCTP = ''DTLS/SCTP''"
| "proto_str UDP_DTLS_SCTP = ''UDP/DTLS/SCTP''"
| "proto_str TCP_DTLS_SCTP = ''TCP/DTLS/SCTP''"

definition parse_sdp_proto :: "sdp_lib \<Rightarrow> string \<Rightarrow> sdp_proto option" where
  "parse_sdp_proto L s = parse_name L [(''UDP'', UDP), (''RTP/AVP'', RTP_AVP), (''RTP/SAVP'', RTP_SAVP),
     (''RTP/SAVPF'', RTP_SAVPF), (''UDP/TLS/RTP/SAVPF'', UDP_TLS_RTP_SAVPF), (''DTLS/SCTP'', DTLS_SCTP),
     (''UDP/DTLS/SCTP'', UDP_DTLS_SCTP), (''TCP/DTLS/SCTP'', TCP_DTLS_SCTP)] s"

fun direction_str :: "sdp_direction \<Rightarrow> string" where
  "direction_str inactive = ''inactive''"
| "direction_str sendonly = ''sendonly''"
| "direction_str recvonly = ''recvonly''"
| "direction_str sendrecv = ''sendrecv''"

definition parse_sdp_direction :: "sdp_lib \<Rightarrow> string \<Rightarrow> sdp_direction option" where
  "parse_sdp_direction L s = parse_name L [(''inactive'', inactive), (''sendonly'', sendonly),
     (''recvonly'', recvonly), (''sendrecv'', sendrecv)] s"

fun setup_role_str :: "sdp_setup_role \<Rightarrow> string" where
  "setup_role_str sr_active = ''active''"
| "setup_role_str sr_passive = ''passive''"
| "setup_role_str sr_actpass = ''actpass''"
| "setup_role_str sr_holdconn = ''holdconn''"

definition parse_setup_role :: "sdp_lib \<Rightarrow> string \<Rightarrow> sdp_setup_role option" where
  "parse_setup_role L s = parse_name L [(''active'', sr_active), (''passive'', sr_passive),
     (''actpass'', sr_actpass), (''holdconn'', sr_holdconn)] s"

fun rid_direction_str :: "sdp_rid_direction \<Rightarrow> string" where
  "rid_direction_str rid_send = ''send''"
| "rid_direction_str rid_recv = ''recv''"

fun bandwidth_type_str :: "sdp_bandwidth_type \<Rightarrow> string" where
  "bandwidth_type_str bw_CT = ''CT''"
| "bandwidth_type_str bw_AS = ''AS''"
| "bandwidth_type_str bw_TIAS = ''TIAS''"
| "bandwidth_type_str bw_RS = ''RS''"
| "bandwidth_type_str bw_RR = ''RR''"

definition parse_bandwidth_type :: "sdp_lib \<Rightarrow> string \<Rightarrow> sdp_bandwidth_type option" where
  "parse_bandwidth_type L s = parse_name L [(''CT'', bw_CT), (''AS'', bw_AS), (''TIAS'', bw_TIAS),
     (''RS'', bw_RS), (''RR'', bw_RR)] s"

text \<open>The underlying values of \<open>sdp_direction\<close> and the bitwise negotiation.\<close>

fun direction_bits :: "sdp_direction \<Rightarrow> u8" where
  "direction_bits inactive = 0"
| "direction_bits sendonly = 1"
| "direction_bits recvonly = 2"
| "direction_bits sendrecv = 3"

definition direction_of_bits :: "u8 \<Rightarrow> sdp_direction" where
  "direction_of_bits b = (if b = 0 then inactive else if b = 1 then sendonly else if b = 2 then recvonly else sendrecv)"

fun reverse_direction :: "sdp_direction \<Rightarrow> sdp_direction" where
  "reverse_direction inactive = inactive"
| "reverse_direction sendrecv = sendrecv"
| "reverse_direction sendonly = recvonly"
| "reverse_direction recvonly = sendonly"

definition negotiate_direction :: "sdp_direction \<Rightarrow> sdp_direction \<Rightarrow> sdp_direction" where
  "negotiate_direction l r = direction_of_bits (direction_bits l AND direction_bits (reverse_direction r))"

section \<open>Structures\<close>

record sdp_rtcp_fb =
  fb_payload_type :: "u8 option"
  fb_type :: string
  fb_subtype :: string

record sdp_msid =
  ms_stream_id :: string
  ms_track_id :: string

record sdp_msid_semantic =
  mss_semantic :: string
  mss_stream_ids :: "string list"

record sdp_rtpmap =
  rm_payload_type :: u8
  rm_name :: string
  rm_clock_rate :: u32
  rm_channels :: "u8 option"
  rm_params :: string

record sdp_ssrc =
  ss_ssrc :: u32
  ss_attribute :: string
  ss_value :: string

record sdp_ssrc_group =
  sg_semantics :: string
  sg_ssrcs :: "u32 list"

record sdp_fingerprint =
  fp_algorithm :: string
  fp_value :: string

record sdp_rtcp =
  rt_nettype :: string
  rt_addrtype :: string
  rt_addr :: string
  rt_port :: u16

record sdp_crypto =
  cr_tag :: u32
  cr_suite :: string
  cr_key_params :: string
  cr_session_params :: string

record sdp_simulcast_stream =
  st_rid :: string
  st_paused :: bool

type_synonym sdp_simulcast_layer = "sdp_simulcast_stream list"

record sdp_simulcast =
  sim_send_layers :: "sdp_simulcast_layer list"
  sim_recv_layers :: "sdp_simulcast_layer list"

text \<open>The parameters of a restriction identifier are a \<open>std::map\<close>: an association list in key order.\<close>

record sdp_rid =
  rid_id :: string
  rid_direction :: sdp_rid_direction
  rid_payload_types :: "u8 list"
  rid_params :: "(string \<times> string) list"

record sdp_extmap =
  em_id :: u16
  em_uri :: string
  em_direction :: "sdp_direction option"
  em_attributes :: string

datatype sdp_formats = no_formats | pt_formats "u8 list" | str_formats "string list"

record sdp_media =
  md_media_type :: sdp_media_type
  md_port :: u16
  md_proto :: sdp_proto
  md_mid :: string
  md_direction :: sdp_direction
  md_extmaps :: "sdp_extmap list"
  md_ssrcs :: "sdp_ssrc list"
  md_ssrc_groups :: "sdp_ssrc_group list"
  md_candidates :: "string list"
  md_fingerprints :: "sdp_fingerprint list"
  md_setup :: "sdp_setup_role option"
  md_ice_ufrag :: string
  md_ice_pwd :: string
  md_ice_options :: "string list"
  md_rtcp_mux :: bool
  md_rtcp_mux_only :: bool
  md_rtcp_rsize :: bool
  md_rtcp :: "sdp_rtcp option"
  md_msids :: "sdp_msid list"
  md_cryptos :: "sdp_crypto list"
  md_sctp_port :: "u16 option"
  md_max_message_size :: "u32 option"
  md_simulcast :: sdp_simulcast
  md_rids :: "sdp_rid list"
  md_end_of_candidates :: bool
  md_extmap_allow_mixed :: bool
  md_conn :: "string \<times> string \<times> string"
  md_attributes :: "(string \<times> string) list"
  md_formats :: sdp_formats
  md_rtpmaps :: "sdp_rtpmap list"
  md_rtcp_fbs :: "sdp_rtcp_fb list"

text \<open>
  A media section with the default member initialisers. The media type has none: it is an argument.
  The packet times and the frame rate, which neither the parser nor the printer touches, are left out.
\<close>

definition sdp_media_default :: "sdp_media_type \<Rightarrow> sdp_media" where
  "sdp_media_default t = \<lparr>md_media_type = t, md_port = 9, md_proto = RTP_AVP, md_mid = [],
     md_direction = sendrecv, md_extmaps = [], md_ssrcs = [], md_ssrc_groups = [], md_candidates = [],
     md_fingerprints = [], md_setup = None, md_ice_ufrag = [], md_ice_pwd = [], md_ice_options = [],
     md_rtcp_mux = False, md_rtcp_mux_only = False, md_rtcp_rsize = False, md_rtcp = None,
     md_msids = [], md_cryptos = [], md_sctp_port = None, md_max_message_size = None,
     md_simulcast = \<lparr>sim_send_layers = [], sim_recv_layers = []\<rparr>, md_rids = [],
     md_end_of_candidates = False, md_extmap_allow_mixed = False, md_conn = ([], [], []),
     md_attributes = [], md_formats = no_formats, md_rtpmaps = [], md_rtcp_fbs = []\<rparr>"

record sdp_origin =
  or_username :: string
  or_session_id :: string
  or_session_version :: string
  or_nettype :: string
  or_addrtype :: string
  or_addr :: string

definition sdp_origin_default :: sdp_origin where
  "sdp_origin_default = \<lparr>or_username = ''-'', or_session_id = ''0'', or_session_version = ''0'',
     or_nettype = ''IN'', or_addrtype = ''IP4'', or_addr = ''0.0.0.0''\<rparr>"

record sdp_bandwidth =
  bw_type :: sdp_bandwidth_type
  bw_bandwidth :: u32

record sdp_group =
  gr_semantic :: string
  gr_items :: "string list"

record session_description =
  sd_sdp_type :: string
  sd_version :: u8
  sd_origin :: sdp_origin
  sd_session_name :: string
  sd_uri :: string
  sd_email :: string
  sd_phone_number :: string
  sd_conn :: "string \<times> string \<times> string"
  sd_direction :: "sdp_direction option"
  sd_bandwidths :: "sdp_bandwidth list"
  sd_attributes :: "(string \<times> string) list"
  sd_groups :: "sdp_group list"
  sd_ice_ufrag :: string
  sd_ice_pwd :: string
  sd_ice_options :: "string list"
  sd_ice_lite :: bool
  sd_fingerprints :: "sdp_fingerprint list"
  sd_setup :: "sdp_setup_role option"
  sd_extmap_allow_mixed :: bool
  sd_msid_semantic :: sdp_msid_semantic
  sd_candidates :: "string list"
  sd_medias :: "sdp_media list"

definition session_description_default :: "string \<Rightarrow> session_description" where
  "session_description_default t = \<lparr>sd_sdp_type = t, sd_version = 0, sd_origin = sdp_origin_default,
     sd_session_name = ''-'', sd_uri = [], sd_email = [], sd_phone_number = [],
     sd_conn = ([], [], []), sd_direction = None, sd_bandwidths = [], sd_attributes = [],
     sd_groups = [], sd_ice_ufrag = [], sd_ice_pwd = [], sd_ice_options = [], sd_ice_lite = False,
     sd_fingerprints = [], sd_setup = None, sd_extmap_allow_mixed = False,
     sd_msid_semantic = \<lparr>mss_semantic = [], mss_stream_ids = []\<rparr>, sd_candidates = [], sd_medias = []\<rparr>"

section \<open>Operations of a media section\<close>

definition payload_types :: "sdp_media \<Rightarrow> u8 list" where
  "payload_types m = (case md_formats m of pt_formats pts \<Rightarrow> pts | _ \<Rightarrow> [])"

definition formats :: "sdp_media \<Rightarrow> string list" where
  "formats m = (case md_formats m of str_formats fs \<Rightarrow> fs | _ \<Rightarrow> [])"

definition add_format :: "string \<Rightarrow> sdp_media \<Rightarrow> sdp_media" where
  "add_format f m = m\<lparr>md_formats := str_formats
     ((case md_formats m of str_formats fs \<Rightarrow> fs | _ \<Rightarrow> []) @ [f])\<rparr>"

definition find_rtpmap :: "sdp_media \<Rightarrow> u8 \<Rightarrow> sdp_rtpmap option" where
  "find_rtpmap m pt = find (\<lambda>r. rm_payload_type r = pt) (md_rtpmaps m)"

definition add_rtpmap :: "sdp_rtpmap \<Rightarrow> sdp_media \<Rightarrow> sdp_media" where
  "add_rtpmap r m =
     (if find_rtpmap m (rm_payload_type r) \<noteq> None then m
      else m\<lparr>md_rtpmaps := md_rtpmaps m @ [r],
             md_formats := pt_formats ((case md_formats m of pt_formats pts \<Rightarrow> pts | _ \<Rightarrow> []) @ [rm_payload_type r])\<rparr>)"

text \<open>\<open>set_params_string\<close> through the pointer that \<open>find_rtpmap\<close> returns: the first codec with the payload type.\<close>

fun set_rtpmap_params :: "u8 \<Rightarrow> string \<Rightarrow> sdp_rtpmap list \<Rightarrow> sdp_rtpmap list" where
  "set_rtpmap_params pt ps [] = []"
| "set_rtpmap_params pt ps (r # rs) =
     (if rm_payload_type r = pt then r\<lparr>rm_params := ps\<rparr> # rs else r # set_rtpmap_params pt ps rs)"

definition fb_eq :: "sdp_rtcp_fb \<Rightarrow> sdp_rtcp_fb \<Rightarrow> bool" where
  "fb_eq a b \<longleftrightarrow> fb_type a = fb_type b \<and> fb_subtype a = fb_subtype b"

definition add_feedback :: "sdp_rtcp_fb \<Rightarrow> sdp_media \<Rightarrow> sdp_media" where
  "add_feedback fb m =
     (if fb_type fb = [] then m
      else case fb_payload_type fb of
        Some pt \<Rightarrow>
          if list_ex (\<lambda>f. fb_eq f fb \<and> (case fb_payload_type f of None \<Rightarrow> True | Some p \<Rightarrow> p = pt)) (md_rtcp_fbs m)
          then m else m\<lparr>md_rtcp_fbs := md_rtcp_fbs m @ [fb]\<rparr>
      | None \<Rightarrow> m\<lparr>md_rtcp_fbs := filter (\<lambda>f. \<not> fb_eq f fb) (md_rtcp_fbs m) @ [fb]\<rparr>)"

section \<open>Codecs\<close>

datatype media_format = mf_unknown | mf_opus | mf_vp8 | mf_h264 | mf_vp9

record media_description =
  mdesc_format :: media_format
  mdesc_clock_rate :: u32
  mdesc_encoding_params :: string
  mdesc_channels :: "u8 option"

text \<open>The codec of a track description; \<open>None\<close> is the exception for any other format.\<close>

definition from_media_description :: "media_description \<Rightarrow> sdp_rtpmap option" where
  "from_media_description d =
     (let c = \<lparr>rm_payload_type = 0, rm_name = [], rm_clock_rate = mdesc_clock_rate d,
               rm_channels = mdesc_channels d, rm_params = mdesc_encoding_params d\<rparr>
      in case mdesc_format d of
           mf_opus \<Rightarrow> Some (c\<lparr>rm_name := ''opus'', rm_payload_type := 111\<rparr>)
         | mf_vp8 \<Rightarrow> Some (c\<lparr>rm_name := ''vp8'', rm_payload_type := 96\<rparr>)
         | mf_h264 \<Rightarrow> Some (c\<lparr>rm_name := ''h264'', rm_payload_type := 102,
             rm_params := add_param (rm_params c) ''profile-level-id'' ''42001f''\<rparr>)
         | mf_vp9 \<Rightarrow> Some (c\<lparr>rm_name := ''vp9'', rm_payload_type := 98\<rparr>)
         | mf_unknown \<Rightarrow> None)"

definition rtpmap_is_match :: "sdp_lib \<Rightarrow> sdp_rtpmap \<Rightarrow> sdp_rtpmap \<Rightarrow> bool" where
  "rtpmap_is_match L a b =
     (if \<not> nceq L (rm_name a) (rm_name b) \<or> rm_clock_rate a \<noteq> rm_clock_rate b \<or> rm_channels a \<noteq> rm_channels b
      then False
      else if nceq L (rm_name a) ''H264''
        \<and> find_param (rm_params a) ''profile-level-id'' \<noteq> find_param (rm_params b) ''profile-level-id''
      then False else True)"

end
