(* ===== verification/SdpParse.thy ===== *)
theory SdpParse
  imports SdpTypes
begin

text \<open>
  The parser of \<open>src/sdp.cpp\<close>: one function per attribute, the application of an attribute to the
  session or to the current media section, and the loop over the lines.
\<close>

section \<open>Attributes\<close>

definition parse_origin :: "string \<Rightarrow> sdp_origin" where
  "parse_origin s =
     (case stream_words s of
        a # b # c # d # e # f # _ \<Rightarrow>
          \<lparr>or_username = a, or_session_id = b, or_session_version = c, or_nettype = d,
           or_addrtype = e, or_addr = f\<rparr>
      | _ \<Rightarrow> sdp_origin_default)"

definition parse_rtpmap :: "string \<Rightarrow> sdp_rtpmap option" where
  "parse_rtpmap value = do {
     rest \<leftarrow> behind CHR '' '' value;
     let rest = trim rest;
     pt \<leftarrow> parse_uint8 (before CHR '' '' value);
     after_name \<leftarrow> behind CHR ''/'' rest;
     let res = \<lparr>rm_payload_type = pt, rm_name = before CHR ''/'' rest, rm_clock_rate = 0,
                rm_channels = None, rm_params = []\<rparr>;
     (case behind CHR ''/'' after_name of
        None \<Rightarrow> do { cr \<leftarrow> parse_uint32 after_name; Some (res\<lparr>rm_clock_rate := cr\<rparr>) }
      | Some chs \<Rightarrow> do {
          cr \<leftarrow> parse_uint32 (before CHR ''/'' after_name);
          ch \<leftarrow> parse_uint8 (trim chs);
          Some (res\<lparr>rm_clock_rate := cr, rm_channels := Some ch\<rparr>) })
   }"

definition parse_extmap_id :: "sdp_lib \<Rightarrow> string \<Rightarrow> (u16 \<times> sdp_direction option) option" where
  "parse_extmap_id L id_sv =
     (case behind CHR ''/'' id_sv of
        Some dir \<Rightarrow> do {
          i \<leftarrow> parse_uint16 (before CHR ''/'' id_sv);
          d \<leftarrow> parse_sdp_direction L dir;
          Some (i, Some d) }
      | None \<Rightarrow> Some (case parse_uint16 id_sv of Some i \<Rightarrow> i | None \<Rightarrow> 0, None))"

definition parse_extmap :: "sdp_lib \<Rightarrow> string \<Rightarrow> sdp_extmap option" where
  "parse_extmap L value = do {
     uri \<leftarrow> behind CHR '' '' value;
     (if uri = [] then None
      else do {
        (i, d) \<leftarrow> parse_extmap_id L (before CHR '' '' value);
        Some \<lparr>em_id = i, em_uri = before CHR '' '' uri, em_direction = d,
              em_attributes = (case behind CHR '' '' uri of None \<Rightarrow> [] | Some ext \<Rightarrow> trim ext)\<rparr> })
   }"

definition parse_rtcpfb :: "string \<Rightarrow> sdp_rtcp_fb option" where
  "parse_rtcpfb value = do {
     rest \<leftarrow> behind CHR '' '' value;
     let pt_str = before CHR '' '' value;
     pt \<leftarrow> (if pt_str = ''*'' then Some None else map_option Some (parse_uint8 pt_str));
     let rest = trim rest;
     Some \<lparr>fb_payload_type = pt, fb_type = before CHR '' '' rest,
           fb_subtype = (case behind CHR '' '' rest of None \<Rightarrow> [] | Some r \<Rightarrow> trim r)\<rparr>
   }"

definition parse_ssrc :: "string \<Rightarrow> sdp_ssrc option" where
  "parse_ssrc value = do {
     rest \<leftarrow> behind CHR '' '' value;
     ssrc \<leftarrow> parse_uint32 (before CHR '' '' value);
     Some \<lparr>ss_ssrc = ssrc, ss_attribute = before CHR '':'' rest,
           ss_value = (case behind CHR '':'' rest of None \<Rightarrow> [] | Some v \<Rightarrow> v)\<rparr>
   }"

fun parse_all :: "(string \<Rightarrow> 'a option) \<Rightarrow> string list \<Rightarrow> 'a list option" where
  "parse_all f [] = Some []"
| "parse_all f (p # ps) = do { x \<leftarrow> f p; xs \<leftarrow> parse_all f ps; Some (x # xs) }"

definition parse_ssrc_group :: "string \<Rightarrow> sdp_ssrc_group option" where
  "parse_ssrc_group value = do {
     rest \<leftarrow> behind CHR '' '' value;
     ssrcs \<leftarrow> parse_all parse_uint32 (split_whitespace rest);
     Some \<lparr>sg_semantics = before CHR '' '' value, sg_ssrcs = ssrcs\<rparr>
   }"

definition parse_fingerprint :: "string \<Rightarrow> sdp_fingerprint option" where
  "parse_fingerprint value = do {
     rest \<leftarrow> behind CHR '' '' value;
     Some \<lparr>fp_algorithm = before CHR '' '' value, fp_value = trim rest\<rparr>
   }"

definition parse_bandwidth :: "sdp_lib \<Rightarrow> string \<Rightarrow> sdp_bandwidth option" where
  "parse_bandwidth L value = do {
     bw_str \<leftarrow> behind CHR '':'' value;
     bt \<leftarrow> parse_bandwidth_type L (before CHR '':'' value);
     bw \<leftarrow> parse_uint32 bw_str;
     Some \<lparr>bw_type = bt, bw_bandwidth = bw\<rparr>
   }"

definition parse_crypto :: "sdp_lib \<Rightarrow> string \<Rightarrow> sdp_crypto option" where
  "parse_crypto L value = do {
     (g1, g2, g3, g4) \<leftarrow> rx_crypto L value;
     tag \<leftarrow> parse_uint32 g1;
     Some \<lparr>cr_tag = tag, cr_suite = g2, cr_key_params = g3, cr_session_params = g4\<rparr>
   }"

definition parse_rtcp :: "sdp_lib \<Rightarrow> string \<Rightarrow> sdp_rtcp option" where
  "parse_rtcp L value = do {
     (g1, a) \<leftarrow> rx_rtcp L value;
     port \<leftarrow> parse_uint16 g1;
     Some (case a of
       Some (nettype, addrtype, addr) \<Rightarrow>
         \<lparr>rt_nettype = nettype, rt_addrtype = addrtype, rt_addr = addr, rt_port = port\<rparr>
     | None \<Rightarrow> \<lparr>rt_nettype = [], rt_addrtype = [], rt_addr = [], rt_port = port\<rparr>)
   }"

definition parse_msid :: "string \<Rightarrow> sdp_msid" where
  "parse_msid value =
     \<lparr>ms_stream_id = before CHR '' '' value,
      ms_track_id = (case behind CHR '' '' value of None \<Rightarrow> [] | Some t \<Rightarrow> trim t)\<rparr>"

definition check_msid :: "sdp_media \<Rightarrow> bool" where
  "check_msid m =
     (case md_msids m of [] \<Rightarrow> True
      | i # is \<Rightarrow> list_all (\<lambda>x. ms_track_id x = ms_track_id i) is)"

text \<open>\<open>parts.front()\<close> of an empty vector is undefined behaviour: \<open>None\<close>.\<close>

definition parse_msid_semantic :: "string \<Rightarrow> sdp_msid_semantic option" where
  "parse_msid_semantic value =
     (case split_whitespace value of [] \<Rightarrow> None
      | s # ids \<Rightarrow> Some \<lparr>mss_semantic = s, mss_stream_ids = ids\<rparr>)"

definition parse_group :: "string \<Rightarrow> sdp_group option" where
  "parse_group value = do {
     mids \<leftarrow> behind CHR '' '' value;
     Some \<lparr>gr_semantic = before CHR '' '' value, gr_items = split_whitespace (trim mids)\<rparr>
   }"

text \<open>The pieces between separators; the loops stop when nothing is left behind a separator.\<close>

function split_char :: "char \<Rightarrow> string \<Rightarrow> string list" where
  "split_char c s =
     (if s = [] then []
      else before c s # (case behind c s of None \<Rightarrow> [] | Some r \<Rightarrow> split_char c r))"
  by pat_completeness auto
termination
  by (relation "measure (\<lambda>(_, s). length s)") (auto simp: behind_length)

declare split_char.simps [simp del]

definition parse_simulcast_stream :: "string \<Rightarrow> sdp_simulcast_stream list" where
  "parse_simulcast_stream token =
     (case trim token of [] \<Rightarrow> []
      | c # r \<Rightarrow> [if c = CHR ''~'' then \<lparr>st_rid = r, st_paused = True\<rparr>
                 else \<lparr>st_rid = c # r, st_paused = False\<rparr>])"

definition parse_simulcast_layers :: "string \<Rightarrow> sdp_simulcast_layer list" where
  "parse_simulcast_layers s =
     filter (\<lambda>l. l \<noteq> [])
       (map (\<lambda>group. concat (map parse_simulcast_stream (split_char CHR '','' group))) (split_char CHR '';'' s))"

definition simulcast_rest :: "string \<Rightarrow> string" where
  "simulcast_rest v =
     (if length (first_token v) = length v then [] else trim (drop (length (first_token v) + 1) v))"

lemma length_trim: "length (trim s) \<le> length s"
proof -
  have "length (dropWhile is_space s) \<le> length s" by (rule length_dropWhile_le)
  moreover have "length (dropWhile is_space (rev (dropWhile is_space s))) \<le> length (rev (dropWhile is_space s))"
    by (rule length_dropWhile_le)
  ultimately show ?thesis by (simp add: trim_def)
qed

lemma length_simulcast_rest: "simulcast_rest v \<noteq> [] \<Longrightarrow> length (simulcast_rest v) < length v"
  using length_trim [of "drop (length (first_token v) + 1) v"]
  by (cases v) (auto simp: simulcast_rest_def split: if_splits)

function parse_simulcast_loop :: "sdp_simulcast \<Rightarrow> string \<Rightarrow> sdp_simulcast" where
  "parse_simulcast_loop attr v =
     (if v = [] then attr
      else (let token = first_token v; rest = simulcast_rest v
            in if token = ''send'' \<and> rest \<noteq> []
               then (case str_find '' recv'' rest of
                       Some k \<Rightarrow> parse_simulcast_loop
                         (attr\<lparr>sim_send_layers := parse_simulcast_layers (trim (take k rest))\<rparr>) (drop (k + 1) rest)
                     | None \<Rightarrow> attr\<lparr>sim_send_layers := parse_simulcast_layers (trim rest)\<rparr>)
               else if token = ''recv'' \<and> rest \<noteq> []
               then (case str_find '' send'' rest of
                       Some k \<Rightarrow> parse_simulcast_loop
                         (attr\<lparr>sim_recv_layers := parse_simulcast_layers (trim (take k rest))\<rparr>) (drop (k + 1) rest)
                     | None \<Rightarrow> attr\<lparr>sim_recv_layers := parse_simulcast_layers (trim rest)\<rparr>)
               else attr))"
  by pat_completeness auto
termination
proof (relation "measure (\<lambda>(_, v). length v)", goal_cases)
  case (2 attr v token rest k)
  then show ?case using length_simulcast_rest [of v] by simp
next
  case (3 attr v token rest k)
  then show ?case using length_simulcast_rest [of v] by simp
qed simp

declare parse_simulcast_loop.simps [simp del]

definition parse_simulcast :: "string \<Rightarrow> sdp_simulcast" where
  "parse_simulcast value =
     parse_simulcast_loop \<lparr>sim_send_layers = [], sim_recv_layers = []\<rparr> (trim value)"

text \<open>\<open>std::map::emplace\<close> leaves an existing key alone.\<close>

fun params_emplace :: "string \<Rightarrow> string \<Rightarrow> (string \<times> string) list \<Rightarrow> (string \<times> string) list" where
  "params_emplace k v [] = [(k, v)]"
| "params_emplace k v ((k', v') # r) =
     (if k = k' then (k', v') # r
      else if k < k' then (k, v) # (k', v') # r
      else (k', v') # params_emplace k v r)"

definition rid_token :: "sdp_lib \<Rightarrow> string \<Rightarrow> sdp_rid \<times> bool \<Rightarrow> sdp_rid \<times> bool" where
  "rid_token L tok = (\<lambda>(rid, in_pt_list).
     let token = trim tok
     in case rx_param L token of
          Some (k, v) \<Rightarrow>
            (let key = trim k; val = trim v
             in if key = ''pt''
                then (rid\<lparr>rid_payload_types := rid_payload_types rid
                        @ List.map_filter parse_uint8 (rx_digits L val)\<rparr>, True)
                else (rid\<lparr>rid_params := params_emplace key val (rid_params rid)\<rparr>, False))
        | None \<Rightarrow>
            if in_pt_list
            then (case parse_uint8 token of
                    Some pt \<Rightarrow> (rid\<lparr>rid_payload_types := rid_payload_types rid @ [pt]\<rparr>, in_pt_list)
                  | None \<Rightarrow> (rid, in_pt_list))
            else (rid, in_pt_list))"

definition parse_rid :: "sdp_lib \<Rightarrow> string \<Rightarrow> sdp_rid option" where
  "parse_rid L value = do {
     (i, dir_str, params_str) \<leftarrow> rx_rid L value;
     let rid = \<lparr>rid_id = i, rid_direction = (if dir_str = ''send'' then rid_send else rid_recv),
                rid_payload_types = [], rid_params = []\<rparr>;
     (if params_str = [] then Some rid
      else Some (fst (fold (rid_token L) (rx_tokens L params_str) (rid, False))))
   }"

section \<open>Media lines\<close>

definition parse_media_port :: "string \<Rightarrow> u16 option" where
  "parse_media_port port_str =
     (case behind CHR ''/'' port_str of
        Some _ \<Rightarrow> Some (case parse_uint16 (before CHR ''/'' port_str) of Some p \<Rightarrow> p | None \<Rightarrow> 9)
      | None \<Rightarrow> parse_uint16 port_str)"

definition parse_media_line :: "sdp_lib \<Rightarrow> string \<Rightarrow> sdp_media option" where
  "parse_media_line L value =
     (case stream_words value of
        mts # ps # prs # fmts \<Rightarrow> do {
          mt \<leftarrow> parse_sdp_media_type L mts;
          p \<leftarrow> parse_media_port ps;
          let md = (sdp_media_default mt)\<lparr>md_port := p\<rparr>;
          let md = (case parse_sdp_proto L prs of Some tp \<Rightarrow> md\<lparr>md_proto := tp\<rparr> | None \<Rightarrow> md);
          Some (if mt = mt_application then fold add_format fmts md else md)
        }
      | _ \<Rightarrow> None)"

section \<open>Applying an attribute\<close>

text \<open>The result of a step of the parser: undefined behaviour, a rejected description, or a value.\<close>

datatype 'a parsed = Undefined | Rejected | Parsed 'a

definition from_option :: "'a option \<Rightarrow> 'a parsed" where
  "from_option x = (case x of None \<Rightarrow> Rejected | Some a \<Rightarrow> Parsed a)"

text \<open>
  A read by index, or of the last element: of an element that is not there it is undefined behaviour.
\<close>

definition with_elem :: "'a list \<Rightarrow> nat \<Rightarrow> ('a \<Rightarrow> 'b parsed) \<Rightarrow> 'b parsed" where
  "with_elem xs i f = (if i < length xs then f (xs ! i) else Undefined)"

definition with_back :: "'a list \<Rightarrow> ('a \<Rightarrow> 'b parsed) \<Rightarrow> 'b parsed" where
  "with_back xs f = (if xs = [] then Undefined else f (last xs))"

definition apply_session_attr ::
  "sdp_lib \<Rightarrow> session_description \<Rightarrow> string \<Rightarrow> string \<Rightarrow> session_description parsed" where
  "apply_session_attr L s name value =
     (if name = ''group''
      then from_option (map_option (\<lambda>g. s\<lparr>sd_groups := sd_groups s @ [g]\<rparr>) (parse_group value))
      else if name = ''ice-ufrag'' then Parsed (s\<lparr>sd_ice_ufrag := trim value\<rparr>)
      else if name = ''ice-pwd'' then Parsed (s\<lparr>sd_ice_pwd := trim value\<rparr>)
      else if name = ''ice-options''
      then Parsed (s\<lparr>sd_ice_options := sd_ice_options s @ split_whitespace value\<rparr>)
      else if name = ''ice-lite'' then Parsed (s\<lparr>sd_ice_lite := True\<rparr>)
      else if name = ''candidate''
      then Parsed (s\<lparr>sd_candidates := sd_candidates s @ [''candidate:'' @ value]\<rparr>)
      else if name = ''fingerprint''
      then from_option (map_option (\<lambda>f. s\<lparr>sd_fingerprints := sd_fingerprints s @ [f]\<rparr>) (parse_fingerprint value))
      else if name = ''setup''
      then from_option (map_option (\<lambda>r. s\<lparr>sd_setup := Some r\<rparr>) (parse_setup_role L value))
      else if name = ''extmap-allow-mixed'' then Parsed (s\<lparr>sd_extmap_allow_mixed := True\<rparr>)
      else if name = ''msid-semantic''
      then (case parse_msid_semantic value of None \<Rightarrow> Undefined | Some m \<Rightarrow> Parsed (s\<lparr>sd_msid_semantic := m\<rparr>))
      else case parse_sdp_direction L name of
        Some d \<Rightarrow> Parsed (s\<lparr>sd_direction := Some d\<rparr>)
      | None \<Rightarrow> Parsed (s\<lparr>sd_attributes := sd_attributes s @ [(name, value)]\<rparr>))"

text \<open>The branch of \<open>fmtp\<close>: the codec has to be known already.\<close>

definition apply_fmtp :: "sdp_media \<Rightarrow> string \<Rightarrow> sdp_media option" where
  "apply_fmtp m value = do {
     rest \<leftarrow> behind CHR '' '' value;
     pt \<leftarrow> parse_uint8 (before CHR '' '' value);
     _ \<leftarrow> find_rtpmap m pt;
     Some (m\<lparr>md_rtpmaps := set_rtpmap_params pt (trim rest) (md_rtpmaps m)\<rparr>)
   }"

definition nonempty :: "string \<Rightarrow> string option" where
  "nonempty s = (if s = [] then None else Some s)"

definition apply_media_attr :: "sdp_lib \<Rightarrow> sdp_media \<Rightarrow> string \<Rightarrow> string \<Rightarrow> sdp_media option" where
  "apply_media_attr L m name value =
     (if name = ''rtpmap'' then map_option (\<lambda>r. add_rtpmap r m) (parse_rtpmap value)
      else if name = ''fmtp'' then apply_fmtp m value
      else if name = ''rtcp-fb'' then map_option (\<lambda>f. add_feedback f m) (parse_rtcpfb value)
      else if name = ''extmap''
      then map_option (\<lambda>e. m\<lparr>md_extmaps := md_extmaps m @ [e]\<rparr>) (parse_extmap L value)
      else if name = ''ssrc'' then map_option (\<lambda>s. m\<lparr>md_ssrcs := md_ssrcs m @ [s]\<rparr>) (parse_ssrc value)
      else if name = ''ssrc-group''
      then map_option (\<lambda>g. m\<lparr>md_ssrc_groups := md_ssrc_groups m @ [g]\<rparr>) (parse_ssrc_group value)
      else if name = ''rtcp'' then map_option (\<lambda>r. m\<lparr>md_rtcp := Some r\<rparr>) (parse_rtcp L value)
      else if name = ''mid'' then map_option (\<lambda>v. m\<lparr>md_mid := v\<rparr>) (nonempty (trim value))
      else if name = ''msid'' then Some (m\<lparr>md_msids := md_msids m @ [parse_msid value]\<rparr>)
      else if name = ''ice-ufrag'' then map_option (\<lambda>v. m\<lparr>md_ice_ufrag := v\<rparr>) (nonempty (trim value))
      else if name = ''ice-pwd'' then map_option (\<lambda>v. m\<lparr>md_ice_pwd := v\<rparr>) (nonempty (trim value))
      else if name = ''ice-options''
      then map_option (\<lambda>v. m\<lparr>md_ice_options := md_ice_options m @ split_whitespace v\<rparr>) (nonempty (trim value))
      else if name = ''candidate''
      then Some (m\<lparr>md_candidates := md_candidates m @ [''candidate:'' @ value]\<rparr>)
      else if name = ''end-of-candidates'' then Some (m\<lparr>md_end_of_candidates := True\<rparr>)
      else if name = ''fingerprint''
      then map_option (\<lambda>f. m\<lparr>md_fingerprints := md_fingerprints m @ [f]\<rparr>) (parse_fingerprint value)
      else if name = ''setup'' then map_option (\<lambda>r. m\<lparr>md_setup := Some r\<rparr>) (parse_setup_role L value)
      else if name = ''crypto'' then map_option (\<lambda>c. m\<lparr>md_cryptos := md_cryptos m @ [c]\<rparr>) (parse_crypto L value)
      else if name = ''rtcp-mux'' then Some (m\<lparr>md_rtcp_mux := True\<rparr>)
      else if name = ''rtcp-mux-only'' then Some (m\<lparr>md_rtcp_mux_only := True\<rparr>)
      else if name = ''rtcp-rsize'' then Some (m\<lparr>md_rtcp_rsize := True\<rparr>)
      else if name = ''extmap-allow-mixed'' then Some (m\<lparr>md_extmap_allow_mixed := True\<rparr>)
      else if name = ''sctp-port'' then map_option (\<lambda>p. m\<lparr>md_sctp_port := Some p\<rparr>) (parse_uint16 value)
      else if name = ''max-message-size''
      then map_option (\<lambda>z. m\<lparr>md_max_message_size := Some z\<rparr>) (parse_uint32 value)
      else if name = ''simulcast'' then Some (m\<lparr>md_simulcast := parse_simulcast value\<rparr>)
      else if name = ''rid'' then map_option (\<lambda>r. m\<lparr>md_rids := md_rids m @ [r]\<rparr>) (parse_rid L value)
      else case parse_sdp_direction L name of
        Some d \<Rightarrow> Some (m\<lparr>md_direction := d\<rparr>)
      | None \<Rightarrow> Some (m\<lparr>md_attributes := md_attributes m @ [(name, value)]\<rparr>))"

section \<open>Lines\<close>

definition parse_line_type_value :: "string \<Rightarrow> (char \<times> string) parsed" where
  "parse_line_type_value line =
     (if length line < 2 then Rejected
      else with_elem line 1 (\<lambda>e. if e \<noteq> CHR ''='' then Rejected
        else with_elem line 0 (\<lambda>type. Parsed (type, drop 2 line))))"

definition session_line ::
  "sdp_lib \<Rightarrow> session_description \<Rightarrow> char \<Rightarrow> string \<Rightarrow> session_description parsed" where
  "session_line L s type val =
     (if type = CHR ''v''
      then Parsed (case parse_uint8 val of Some v \<Rightarrow> s\<lparr>sd_version := v\<rparr> | None \<Rightarrow> s)
      else if type = CHR ''o'' then Parsed (s\<lparr>sd_origin := parse_origin val\<rparr>)
      else if type = CHR ''s'' then Parsed (s\<lparr>sd_session_name := val\<rparr>)
      else if type = CHR ''u'' then Parsed (s\<lparr>sd_uri := val\<rparr>)
      else if type = CHR ''e'' then Parsed (s\<lparr>sd_email := val\<rparr>)
      else if type = CHR ''p'' then Parsed (s\<lparr>sd_phone_number := val\<rparr>)
      else if type = CHR ''b''
      then from_option (map_option (\<lambda>b. s\<lparr>sd_bandwidths := sd_bandwidths s @ [b]\<rparr>) (parse_bandwidth L val))
      else if type = CHR ''a'' then (case split_attr val of (n, v) \<Rightarrow> apply_session_attr L s n v)
      else Parsed s)"

text \<open>A line of the current media section, the last one of the session.\<close>

definition media_line ::
  "sdp_lib \<Rightarrow> session_description \<Rightarrow> char \<Rightarrow> string \<Rightarrow> session_description parsed" where
  "media_line L s type val =
     (if type = CHR ''a''
      then (case split_attr val of (n, v) \<Rightarrow>
              with_back (sd_medias s) (\<lambda>m. from_option (map_option (\<lambda>m. s\<lparr>sd_medias := butlast (sd_medias s) @ [m]\<rparr>)
                (apply_media_attr L m n v))))
      else Parsed s)"

definition do_parse_line ::
  "sdp_lib \<Rightarrow> string \<Rightarrow> session_description \<times> bool \<Rightarrow> (session_description \<times> bool) parsed" where
  "do_parse_line L l = (\<lambda>(s, in_media).
     let line = trim l
     in if line = [] then Parsed (s, in_media)
        else case parse_line_type_value line of
          Undefined \<Rightarrow> Undefined | Rejected \<Rightarrow> Rejected
        | Parsed (type, val) \<Rightarrow>
            if type = CHR ''m''
            then (if sd_medias s \<noteq> [] \<and> \<not> check_msid (last (sd_medias s)) then Rejected
                  else case parse_media_line L val of
                    None \<Rightarrow> Rejected
                  | Some m \<Rightarrow> Parsed (s\<lparr>sd_medias := sd_medias s @ [m]\<rparr>, True))
            else case (if in_media then media_line L s type val else session_line L s type val) of
              Undefined \<Rightarrow> Undefined | Rejected \<Rightarrow> Rejected | Parsed s' \<Rightarrow> Parsed (s', in_media))"

fun do_parse_lines ::
  "sdp_lib \<Rightarrow> string list \<Rightarrow> session_description \<times> bool \<Rightarrow> (session_description \<times> bool) parsed" where
  "do_parse_lines L [] st = Parsed st"
| "do_parse_lines L (l # ls) st =
     (case do_parse_line L l st of
        Undefined \<Rightarrow> Undefined | Rejected \<Rightarrow> Rejected | Parsed st' \<Rightarrow> do_parse_lines L ls st')"

definition do_parse :: "sdp_lib \<Rightarrow> string \<Rightarrow> string \<Rightarrow> session_description parsed" where
  "do_parse L sdp type =
     (case split_lines sdp of [] \<Rightarrow> Rejected
      | lines \<Rightarrow>
          (case do_parse_lines L lines (session_description_default type, False) of
             Undefined \<Rightarrow> Undefined | Rejected \<Rightarrow> Rejected | Parsed (s, _) \<Rightarrow> Parsed s))"

end
