(* ===== verification/SdpPrint.thy ===== *)
theory SdpPrint
  imports SdpTypes
begin

text \<open>
  The printer of \<open>src/sdp.cpp\<close>: one \<open>to_string\<close> per structure. Where the code appends a line and then
  \<open>"\r\n"\<close>, the model gives the list of the lines; \<open>to_string\<close> of the session joins them.
\<close>

definition crlf :: string where
  "crlf = [CHR 0x0D, CHR 0x0A]"

definition spaced :: "string list \<Rightarrow> string" where
  "spaced xs = concat (map (\<lambda>x. '' '' @ x) xs)"

definition origin_line :: "sdp_origin \<Rightarrow> string" where
  "origin_line o' = ''o='' @ or_username o' @ '' '' @ or_session_id o' @ '' '' @ or_session_version o' @ '' ''
     @ or_nettype o' @ '' '' @ or_addrtype o' @ '' '' @ or_addr o'"

definition rtpmap_line :: "sdp_rtpmap \<Rightarrow> string" where
  "rtpmap_line r = ''a=rtpmap:'' @ show_word (rm_payload_type r) @ '' '' @ rm_name r @ ''/''
     @ show_word (rm_clock_rate r) @ (case rm_channels r of None \<Rightarrow> [] | Some ch \<Rightarrow> ''/'' @ show_word ch)"

definition rtcp_fb_line :: "sdp_rtcp_fb \<Rightarrow> string" where
  "rtcp_fb_line f = ''a=rtcp-fb:'' @ (case fb_payload_type f of None \<Rightarrow> ''*'' | Some pt \<Rightarrow> show_word pt)
     @ '' '' @ fb_type f @ (if fb_subtype f \<noteq> [] then '' '' @ fb_subtype f else [])"

definition extmap_line :: "sdp_extmap \<Rightarrow> string" where
  "extmap_line e = ''a=extmap:'' @ show_word (em_id e)
     @ (case em_direction e of None \<Rightarrow> [] | Some d \<Rightarrow> ''/'' @ direction_str d) @ '' '' @ em_uri e
     @ (if em_attributes e \<noteq> [] then '' '' @ em_attributes e else [])"

definition ssrc_line :: "sdp_ssrc \<Rightarrow> string" where
  "ssrc_line s = ''a=ssrc:'' @ show_word (ss_ssrc s) @ '' '' @ ss_attribute s
     @ (if ss_value s \<noteq> [] then '':'' @ ss_value s else [])"

definition ssrc_group_line :: "sdp_ssrc_group \<Rightarrow> string" where
  "ssrc_group_line g = ''a=ssrc-group:'' @ sg_semantics g @ spaced (map show_word (sg_ssrcs g))"

definition rtcp_line :: "sdp_rtcp \<Rightarrow> string" where
  "rtcp_line r = ''a=rtcp:'' @ show_word (rt_port r)
     @ (if rt_nettype r \<noteq> [] \<and> rt_addrtype r \<noteq> [] \<and> rt_addr r \<noteq> []
        then '' '' @ rt_nettype r @ '' '' @ rt_addrtype r @ '' '' @ rt_addr r else [])"

definition fingerprint_line :: "sdp_fingerprint \<Rightarrow> string" where
  "fingerprint_line f = ''a=fingerprint:'' @ fp_algorithm f @ '' '' @ fp_value f"

definition crypto_line :: "sdp_crypto \<Rightarrow> string" where
  "crypto_line c = ''a=crypto:'' @ show_word (cr_tag c) @ '' '' @ cr_suite c @ '' '' @ cr_key_params c
     @ (if cr_session_params c \<noteq> [] then '' '' @ cr_session_params c else [])"

definition msid_line :: "sdp_msid \<Rightarrow> string" where
  "msid_line m = ''a=msid:'' @ ms_stream_id m @ (if ms_track_id m \<noteq> [] then '' '' @ ms_track_id m else [])"

definition group_line :: "sdp_group \<Rightarrow> string" where
  "group_line g = ''a=group:'' @ gr_semantic g @ spaced (gr_items g)"

text \<open>
  The separator behind the last stream of a layer is overwritten by the semicolon, and the semicolon
  behind the last layer is removed.
\<close>

definition simulcast_layers_str :: "sdp_simulcast_layer list \<Rightarrow> string" where
  "simulcast_layers_str layers =
     butlast (concat (map (\<lambda>layer. butlast (concat (map (\<lambda>s. (if st_paused s then ''~'' else []) @ st_rid s @ '','') layer)) @ '';'')
       (filter (\<lambda>l. l \<noteq> []) layers)))"

definition simulcast_lines :: "sdp_simulcast \<Rightarrow> string list" where
  "simulcast_lines a =
     (if sim_send_layers a = [] \<and> sim_recv_layers a = [] then []
      else [''a=simulcast:''
            @ (if sim_send_layers a \<noteq> [] then ''send '' @ simulcast_layers_str (sim_send_layers a) else [])
            @ (if sim_recv_layers a \<noteq> [] then '' recv '' @ simulcast_layers_str (sim_recv_layers a) else [])])"

definition joined :: "string \<Rightarrow> string list \<Rightarrow> string" where
  "joined sep xs = (case xs of [] \<Rightarrow> [] | x # r \<Rightarrow> x @ concat (map (\<lambda>y. sep @ y) r))"

definition rid_line :: "sdp_rid \<Rightarrow> string" where
  "rid_line r =
     (let parts = (if rid_payload_types r \<noteq> []
                   then [''pt='' @ joined '','' (map show_word (rid_payload_types r))] else [])
          @ map (\<lambda>k. k @ ''='' @ the (map_of (rid_params r) k)) (sort (map fst (rid_params r)))
      in ''a=rid:'' @ rid_id r @ '' '' @ rid_direction_str (rid_direction r)
         @ (if parts \<noteq> [] then '' '' @ joined '';'' parts else []))"

definition bandwidth_line :: "sdp_bandwidth \<Rightarrow> string" where
  "bandwidth_line b = ''b='' @ bandwidth_type_str (bw_type b) @ '':'' @ show_word (bw_bandwidth b)"

definition conn_line :: "string \<times> string \<times> string \<Rightarrow> string list" where
  "conn_line c = (case c of (n, t, a) \<Rightarrow> if n \<noteq> [] then [''c='' @ n @ '' '' @ t @ '' '' @ a] else [])"

definition opt_line :: "string \<Rightarrow> string \<Rightarrow> string list" where
  "opt_line prefix v = (if v \<noteq> [] then [prefix @ v] else [])"

definition flag_line :: "string \<Rightarrow> bool \<Rightarrow> string list" where
  "flag_line l b = (if b then [l] else [])"

definition attribute_line :: "string \<times> string \<Rightarrow> string" where
  "attribute_line a = (case a of (n, v) \<Rightarrow> ''a='' @ n @ (if v \<noteq> [] then '':'' @ v else []))"

definition ice_options_line :: "string list \<Rightarrow> string list" where
  "ice_options_line os = (if os \<noteq> [] then [''a=ice-options:'' @ joined '' '' os] else [])"

definition media_format_line :: "sdp_media \<Rightarrow> string" where
  "media_format_line m = ''m='' @ media_type_str (md_media_type m) @ '' '' @ show_word (md_port m) @ '' ''
     @ proto_str (md_proto m)
     @ (if payload_types m \<noteq> [] then spaced (map show_word (payload_types m)) else spaced (formats m))"

text \<open>The codec lines of one payload type: the codec, its parameters and the feedback that names it.\<close>

definition codec_lines :: "sdp_media \<Rightarrow> u8 \<Rightarrow> string list" where
  "codec_lines m pt =
     (case find_rtpmap m pt of None \<Rightarrow> []
      | Some r \<Rightarrow>
          rtpmap_line r # (if rm_params r \<noteq> [] then [''a=fmtp:'' @ show_word pt @ '' '' @ rm_params r] else [])
          @ map rtcp_fb_line (filter (\<lambda>f. fb_payload_type f = Some pt) (md_rtcp_fbs m)))"

definition sdp_media_lines :: "sdp_media \<Rightarrow> string list" where
  "sdp_media_lines m =
     [media_format_line m]
     @ conn_line (md_conn m)
     @ [''a='' @ direction_str (md_direction m)]
     @ opt_line ''a=mid:'' (md_mid m)
     @ map msid_line (md_msids m)
     @ opt_line ''a=ice-ufrag:'' (md_ice_ufrag m)
     @ opt_line ''a=ice-pwd:'' (md_ice_pwd m)
     @ ice_options_line (md_ice_options m)
     @ map (\<lambda>c. ''a='' @ c) (md_candidates m)
     @ map fingerprint_line (md_fingerprints m)
     @ (case md_setup m of None \<Rightarrow> [] | Some r \<Rightarrow> [''a=setup:'' @ setup_role_str r])
     @ flag_line ''a=extmap-allow-mixed'' (md_extmap_allow_mixed m)
     @ flag_line ''a=rtcp-mux'' (md_rtcp_mux m)
     @ flag_line ''a=rtcp-mux-only'' (md_rtcp_mux_only m)
     @ flag_line ''a=rtcp-rsize'' (md_rtcp_rsize m)
     @ (case md_rtcp m of None \<Rightarrow> [] | Some r \<Rightarrow> [rtcp_line r])
     @ map extmap_line (md_extmaps m)
     @ concat (map (codec_lines m) (payload_types m))
     @ map rtcp_fb_line (filter (\<lambda>f. fb_payload_type f = None) (md_rtcp_fbs m))
     @ map ssrc_line (md_ssrcs m)
     @ map ssrc_group_line (md_ssrc_groups m)
     @ map crypto_line (md_cryptos m)
     @ (case md_sctp_port m of None \<Rightarrow> [] | Some p \<Rightarrow> [''a=sctp-port:'' @ show_word p])
     @ (case md_max_message_size m of None \<Rightarrow> [] | Some z \<Rightarrow> [''a=max-message-size:'' @ show_word z])
     @ simulcast_lines (md_simulcast m)
     @ map rid_line (md_rids m)
     @ flag_line ''a=end-of-candidates'' (md_end_of_candidates m)
     @ map attribute_line (md_attributes m)"

definition session_lines :: "session_description \<Rightarrow> string list" where
  "session_lines s =
     [''v='' @ show_word (sd_version s), origin_line (sd_origin s), ''s='' @ sd_session_name s]
     @ opt_line ''u='' (sd_uri s)
     @ opt_line ''e='' (sd_email s)
     @ opt_line ''p='' (sd_phone_number s)
     @ conn_line (sd_conn s)
     @ map bandwidth_line (sd_bandwidths s)
     @ [''t=0 0'']
     @ (case sd_direction s of None \<Rightarrow> [] | Some d \<Rightarrow> [''a='' @ direction_str d])
     @ opt_line ''a=ice-ufrag:'' (sd_ice_ufrag s)
     @ opt_line ''a=ice-pwd:'' (sd_ice_pwd s)
     @ ice_options_line (sd_ice_options s)
     @ flag_line ''a=ice-lite'' (sd_ice_lite s)
     @ map fingerprint_line (sd_fingerprints s)
     @ (case sd_setup s of None \<Rightarrow> [] | Some r \<Rightarrow> [''a=setup:'' @ setup_role_str r])
     @ flag_line ''a=extmap-allow-mixed'' (sd_extmap_allow_mixed s)
     @ (if mss_stream_ids (sd_msid_semantic s) \<noteq> []
        then [''a=msid-semantic:'' @ mss_semantic (sd_msid_semantic s) @ spaced (mss_stream_ids (sd_msid_semantic s))]
        else [])
     @ map group_line (sd_groups s)
     @ map attribute_line (sd_attributes s)
     @ map (\<lambda>c. ''a='' @ c) (sd_candidates s)"

definition sdp_to_string :: "session_description \<Rightarrow> string" where
  "sdp_to_string s =
     concat (map (\<lambda>l. l @ crlf) (session_lines s @ concat (map sdp_media_lines (sd_medias s))))"

end
