(* ===== verification/SdpFacts.thy ===== *)
theory SdpFacts
  imports SdpParse SdpPrint
begin

text \<open>
  Facts about the text functions: how they act on printed text, decimal numbers read back, lines split
  again, names recognised again. The collection \<open>sdp_txt\<close> evaluates the parser on a printed line.
\<close>

named_theorems sdp_txt \<open>evaluation of the text functions on printed text\<close>

section \<open>Searching\<close>

lemma before_simps [sdp_txt, simp]:
  "before c [] = []" "before c (a # s) = (if a = c then [] else a # before c s)"
  by (simp_all add: before_def)

lemma behind_simps [sdp_txt, simp]:
  "behind c [] = None" "behind c (a # s) = (if a = c then Some s else behind c s)"
  by (simp_all add: behind_def)

lemma before_append [sdp_txt]: "c \<notin> set x \<Longrightarrow> before c (x @ c # y) = x"
  by (induction x) auto

lemma behind_append [sdp_txt]: "c \<notin> set x \<Longrightarrow> behind c (x @ c # y) = Some y"
  by (induction x) auto

lemma before_none [sdp_txt]: "c \<notin> set x \<Longrightarrow> before c x = x"
  by (induction x) auto

lemma behind_none [sdp_txt]: "c \<notin> set x \<Longrightarrow> behind c x = None"
  by (induction x) auto

section \<open>Words and lines\<close>

text \<open>A word has no white space; a text may have some inside, a line too but no line feed.\<close>

definition word_ok :: "string \<Rightarrow> bool" where
  "word_ok s \<longleftrightarrow> s \<noteq> [] \<and> list_all (\<lambda>c. \<not> is_space c) s"

definition text_ok :: "string \<Rightarrow> bool" where
  "text_ok s \<longleftrightarrow> s \<noteq> [] \<and> \<not> is_space (hd s) \<and> \<not> is_space (last s) \<and> CHR 0x0A \<notin> set s"

definition end_ok :: "string \<Rightarrow> bool" where
  "end_ok s \<longleftrightarrow> s \<noteq> [] \<and> \<not> is_space (last s) \<and> CHR 0x0A \<notin> set s"

lemma is_space_simps [simp]:
  "is_space CHR '' ''" "is_space CHR 0x0A" "is_space CHR 0x0D"
  by (simp_all add: is_space_def)

lemma word_ok_text: "word_ok s \<Longrightarrow> text_ok s"
  by (auto simp: word_ok_def text_ok_def list_all_iff)

lemma text_ok_end: "text_ok s \<Longrightarrow> end_ok s"
  by (simp add: text_ok_def end_ok_def)

lemma word_ok_no_space: "word_ok s \<Longrightarrow> CHR '' '' \<notin> set s"
  by (auto simp: word_ok_def list_all_iff)

lemma word_ok_no_lf: "word_ok s \<Longrightarrow> CHR 0x0A \<notin> set s"
  by (auto simp: word_ok_def list_all_iff)

lemma trim_text [sdp_txt]: "text_ok s \<Longrightarrow> trim s = s"
proof -
  assume t: "text_ok s"
  then obtain a r where "s = a # r" by (cases s) (auto simp: text_ok_def)
  moreover from this t have "dropWhile is_space s = s" by (simp add: text_ok_def)
  moreover have "dropWhile is_space (rev s) = rev s"
    using t by (cases "rev s") (auto simp: text_ok_def last_rev [symmetric] hd_rev)
  ultimately show ?thesis by (simp add: trim_def)
qed

lemma trim_Nil [sdp_txt, simp]: "trim [] = []"
  by (simp add: trim_def)

lemma text_ok_Cons: "text_ok (a # s) \<longleftrightarrow> \<not> is_space a \<and> a \<noteq> CHR 0x0A \<and> (s = [] \<or> end_ok s)"
  by (auto simp: text_ok_def end_ok_def)

lemma end_ok_Cons: "end_ok (a # s) \<longleftrightarrow> (s = [] \<and> \<not> is_space a \<or> end_ok s) \<and> a \<noteq> CHR 0x0A"
  by (auto simp: end_ok_def)

lemma end_ok_append: "end_ok y \<Longrightarrow> CHR 0x0A \<notin> set x \<Longrightarrow> end_ok (x @ y)"
  by (auto simp: end_ok_def)

lemma split_lines_crlf:
  "list_all text_ok ls \<Longrightarrow> split_lines (concat (map (\<lambda>l. l @ crlf) ls)) = ls"
proof (induction ls)
  case Nil
  show ?case by (simp add: split_lines.simps)
next
  case (Cons l ls)
  let ?rest = "concat (map (\<lambda>l. l @ crlf) ls)"
  have l: "text_ok l" "CHR 0x0A \<notin> set l" using Cons.prems by (auto simp: text_ok_def)
  then have "before CHR 0x0A ((l @ [CHR 0x0D]) @ CHR 0x0A # ?rest) = l @ [CHR 0x0D]"
    "behind CHR 0x0A ((l @ [CHR 0x0D]) @ CHR 0x0A # ?rest) = Some ?rest"
    by (intro before_append behind_append; simp)+
  then show ?case
    using Cons by (subst split_lines.simps) (simp add: crlf_def strip_cr_def)
qed

section \<open>Decimal numbers\<close>

lemma digit_char: "d < 10 \<Longrightarrow> is_digit (char_of (48 + d)) \<and> digit_val (char_of (48 + d)) = d"
  by (simp add: is_digit_def digit_val_def)

lemma show_nat_digits: "list_all is_digit (show_nat n)"
proof (induction n rule: show_nat.induct)
  case (1 n)
  then show ?case
    using digit_char [of n] digit_char [of "n mod 10"] by (subst show_nat.simps) auto
qed

lemma show_nat_nonempty [simp]: "show_nat n \<noteq> []"
  by (subst show_nat.simps) simp

lemma dec_val_show_nat: "dec_val (show_nat n) = n"
proof (induction n rule: show_nat.induct)
  case (1 n)
  then show ?case
    using digit_char [of n] digit_char [of "n mod 10"]
    by (subst show_nat.simps) (auto simp: dec_val_def)
qed

lemma parse_show_word [sdp_txt]:
  "parse_uint8 (show_word w) = Some w" "parse_uint16 (show_word v) = Some v" "parse_uint32 (show_word x) = Some x"
  using unsigned_less [of w] unsigned_less [of v] unsigned_less [of x]
  by (simp_all add: parse_uint8_def parse_uint16_def parse_uint32_def from_chars_def show_word_def
        show_nat_digits dec_val_show_nat)

lemma is_digit_not_space: "is_digit c \<Longrightarrow> \<not> is_space c"
  by (auto simp: is_digit_def is_space_def)

lemma show_word_word_ok [simp]: "word_ok (show_word w)"
  using show_nat_digits [of "unat w"] is_digit_not_space
  by (auto simp: word_ok_def show_word_def list_all_iff)

lemma show_word_no_special [sdp_txt, simp]:
  "CHR '' '' \<notin> set (show_word w)" "CHR ''/'' \<notin> set (show_word w)" "CHR '':'' \<notin> set (show_word w)"
  "CHR '','' \<notin> set (show_word w)" "CHR '';'' \<notin> set (show_word w)" "CHR ''='' \<notin> set (show_word w)"
  "CHR 0x0A \<notin> set (show_word w)"
  using show_nat_digits [of "unat w"] by (auto simp: show_word_def list_all_iff is_digit_def)

lemma show_word_not_star [sdp_txt, simp]: "show_word w \<noteq> ''*''"
  using show_nat_digits [of "unat w"] by (auto simp: show_word_def list_all_iff is_digit_def)

section \<open>Splitting\<close>

lemma split_by_word:
  assumes "x \<noteq> []" "list_all (\<lambda>c. \<not> p c) x" "r = [] \<or> p (hd r)"
  shows "split_by p (x @ r) = x # split_by p r"
proof -
  obtain a xs where x: "x = a # xs" using assms(1) by (cases x) auto
  have "takeWhile (\<lambda>c. \<not> p c) (xs @ r) = xs" "dropWhile (\<lambda>c. \<not> p c) (xs @ r) = r"
    using assms x by (auto simp: list_all_iff takeWhile_append dropWhile_append; cases r; auto)+
  then show ?thesis using assms x by (subst split_by.simps) simp
qed

lemma split_by_sep: "p c \<Longrightarrow> split_by p (c # s) = split_by p s"
  by (subst (1 2) split_by.simps) simp

lemma split_by_Nil [simp]: "split_by p [] = []"
  by (subst split_by.simps) simp

lemma split_by_spaced:
  assumes "list_all (\<lambda>x. x \<noteq> [] \<and> list_all (\<lambda>c. \<not> p c) x) xs" "p CHR '' ''"
  shows "split_by p (spaced xs) = xs"
  using assms(1)
proof (induction xs)
  case (Cons x xs)
  have "spaced (x # xs) = CHR '' '' # x @ spaced xs" by (simp add: spaced_def)
  moreover have "spaced xs = [] \<or> p (hd (spaced xs))" using assms(2) by (cases xs) (auto simp: spaced_def)
  ultimately show ?case using Cons assms(2) by (simp add: split_by_sep split_by_word)
qed (simp add: spaced_def)

lemma joined_spaced: "x # xs = ys \<Longrightarrow> joined '' '' ys = x @ spaced xs"
proof -
  have "(@) '' '' = (#) CHR '' ''" by (rule ext) simp
  then show "x # xs = ys \<Longrightarrow> joined '' '' ys = x @ spaced xs" by (auto simp: joined_def spaced_def)
qed

lemma word_ok_not_blank: "word_ok x \<Longrightarrow> x \<noteq> [] \<and> list_all (\<lambda>c. c \<noteq> CHR '' '') x"
  by (auto simp: word_ok_def list_all_iff)

lemma split_whitespace_spaced [sdp_txt]: "list_all word_ok xs \<Longrightarrow> split_whitespace (spaced xs) = xs"
  unfolding split_whitespace_def by (rule split_by_spaced) (auto simp: list_all_iff word_ok_not_blank dest: word_ok_no_space)

lemma split_whitespace_words [sdp_txt]:
  assumes "word_ok x" "list_all word_ok xs"
  shows "split_whitespace (x @ spaced xs) = x # xs"
proof -
  have "spaced xs = [] \<or> hd (spaced xs) = CHR '' ''" by (cases xs) (auto simp: spaced_def)
  then have "split_whitespace (x @ spaced xs) = x # split_whitespace (spaced xs)"
    unfolding split_whitespace_def
    using word_ok_not_blank [OF assms(1)] by (intro split_by_word) auto
  then show ?thesis using split_whitespace_spaced [OF assms(2)] by simp
qed

lemma stream_words_words [sdp_txt]:
  assumes "word_ok x" "list_all word_ok xs"
  shows "stream_words (x @ spaced xs) = x # xs"
proof -
  have "spaced xs = [] \<or> is_space (hd (spaced xs))" by (cases xs) (auto simp: spaced_def)
  moreover have "split_by is_space (spaced xs) = xs"
    using assms(2) by (intro split_by_spaced) (auto simp: list_all_iff word_ok_def)
  ultimately show ?thesis
    using assms(1) unfolding stream_words_def by (subst split_by_word) (auto simp: word_ok_def)
qed

lemma text_ok_words:
  assumes "word_ok x" "list_all word_ok xs"
  shows "text_ok (x @ spaced xs)"
proof -
  have "CHR 0x0A \<notin> set (x @ spaced xs)"
    using assms by (auto simp: spaced_def list_all_iff dest: word_ok_no_lf)
  moreover have "\<not> is_space (last (x @ spaced xs))"
  proof (cases xs rule: rev_cases)
    case (snoc ys y)
    then show ?thesis using assms by (auto simp: spaced_def word_ok_def list_all_iff)
  qed (use assms in \<open>auto simp: spaced_def word_ok_def list_all_iff\<close>)
  ultimately show ?thesis using assms(1) by (auto simp: text_ok_def word_ok_def list_all_iff)
qed

end
