(* ===== verification/SdpRound.thy ===== *)
theory SdpRound
  imports SdpFacts
begin

text \<open>
  Printing and parsing session descriptions are inverse: first each attribute, then a media section,
  then the session, for the descriptions whose texts are free of the separators of their lines.
\<close>

section \<open>Names\<close>

lemma to_lower_simps [sdp_txt]: "nceq_ok L \<Longrightarrow> nceq L a b \<longleftrightarrow> map to_lower a = map to_lower b"
  by (simp add: nceq_ok_def)

lemma names_roundtrip [sdp_txt]:
  assumes "nceq_ok L"
  shows "parse_sdp_media_type L (media_type_str t) = Some t"
    and "parse_sdp_proto L (proto_str p) = Some p"
    and "parse_sdp_direction L (direction_str d) = Some d"
    and "parse_setup_role L (setup_role_str r) = Some r"
    and "parse_bandwidth_type L (bandwidth_type_str b) = Some b"
proof -
  note [simp] = to_lower_simps [OF assms] to_lower_def
  show "parse_sdp_media_type L (media_type_str t) = Some t"
    by (cases t) (simp_all add: parse_sdp_media_type_def)
  show "parse_sdp_proto L (proto_str p) = Some p"
    by (cases p) (simp_all add: parse_sdp_proto_def)
  show "parse_sdp_direction L (direction_str d) = Some d"
    by (cases d) (simp_all add: parse_sdp_direction_def)
  show "parse_setup_role L (setup_role_str r) = Some r"
    by (cases r) (simp_all add: parse_setup_role_def)
  show "parse_bandwidth_type L (bandwidth_type_str b) = Some b"
    by (cases b) (simp_all add: parse_bandwidth_type_def)
qed

lemma names_word_ok [simp]:
  "word_ok (media_type_str t)" "word_ok (proto_str p)" "word_ok (direction_str d)" "word_ok (setup_role_str r)"
  "word_ok (bandwidth_type_str b)"
proof -
  note [simp] = word_ok_def is_space_def
  show "word_ok (media_type_str t)" by (cases t) simp_all
  show "word_ok (proto_str p)" by (cases p) simp_all
  show "word_ok (direction_str d)" by (cases d) simp_all
  show "word_ok (setup_role_str r)" by (cases r) simp_all
  show "word_ok (bandwidth_type_str b)" by (cases b) simp_all
qed

lemma direction_no_special [simp]: "CHR '':'' \<notin> set (direction_str d)" "CHR ''/'' \<notin> set (direction_str d)"
  "CHR '' '' \<notin> set (direction_str d)" "CHR '':'' \<notin> set (bandwidth_type_str b)"
  by (cases d; simp)+ (cases b; simp)

section \<open>Attributes\<close>

lemma end_ok_app: "end_ok (x @ y) \<longleftrightarrow> CHR 0x0A \<notin> set x \<and> (end_ok y \<or> y = [] \<and> end_ok x)"
  by (auto simp: end_ok_def last_append)

lemma text_ok_app: "word_ok x \<Longrightarrow> text_ok (x @ y) \<longleftrightarrow> y = [] \<or> end_ok y"
  by (auto simp: text_ok_def end_ok_def word_ok_def list_all_iff)

lemma show_word_end_ok [simp]: "end_ok (show_word w)" "text_ok (show_word w)"
  by (simp_all add: text_ok_end word_ok_text)

lemma letter_not_space [simp]:
  "\<not> is_space CHR ''a''" "\<not> is_space CHR ''b''" "\<not> is_space CHR ''c''" "\<not> is_space CHR ''d''" "\<not> is_space CHR ''e''" "\<not> is_space CHR ''f''"
  "\<not> is_space CHR ''g''" "\<not> is_space CHR ''h''" "\<not> is_space CHR ''i''" "\<not> is_space CHR ''j''" "\<not> is_space CHR ''k''" "\<not> is_space CHR ''l''"
  "\<not> is_space CHR ''m''" "\<not> is_space CHR ''n''" "\<not> is_space CHR ''o''" "\<not> is_space CHR ''p''" "\<not> is_space CHR ''q''" "\<not> is_space CHR ''r''"
  "\<not> is_space CHR ''s''" "\<not> is_space CHR ''t''" "\<not> is_space CHR ''u''" "\<not> is_space CHR ''v''" "\<not> is_space CHR ''w''" "\<not> is_space CHR ''x''"
  "\<not> is_space CHR ''y''" "\<not> is_space CHR ''z''" "\<not> is_space CHR ''0''" "\<not> is_space CHR ''*''"
  by (simp_all add: is_space_def)

lemmas word_ends = word_ok_text text_ok_end word_ok_no_space word_ok_no_lf
lemmas ends = end_ok_app text_ok_app end_ok_Cons text_ok_Cons

definition rtpmap_wf :: "sdp_rtpmap \<Rightarrow> bool" where
  "rtpmap_wf r \<longleftrightarrow> word_ok (rm_name r) \<and> CHR ''/'' \<notin> set (rm_name r) \<and> (rm_params r = [] \<or> text_ok (rm_params r))"

definition rtcp_fb_wf :: "sdp_rtcp_fb \<Rightarrow> bool" where
  "rtcp_fb_wf f \<longleftrightarrow> word_ok (fb_type f) \<and> (fb_subtype f = [] \<or> text_ok (fb_subtype f))"

definition extmap_wf :: "sdp_extmap \<Rightarrow> bool" where
  "extmap_wf e \<longleftrightarrow> word_ok (em_uri e) \<and> (em_attributes e = [] \<or> text_ok (em_attributes e))"

definition ssrc_wf :: "sdp_ssrc \<Rightarrow> bool" where
  "ssrc_wf s \<longleftrightarrow> word_ok (ss_attribute s) \<and> CHR '':'' \<notin> set (ss_attribute s) \<and> (ss_value s = [] \<or> end_ok (ss_value s))"

definition ssrc_group_wf :: "sdp_ssrc_group \<Rightarrow> bool" where
  "ssrc_group_wf g \<longleftrightarrow> word_ok (sg_semantics g) \<and> sg_ssrcs g \<noteq> []"

definition fingerprint_wf :: "sdp_fingerprint \<Rightarrow> bool" where
  "fingerprint_wf f \<longleftrightarrow> word_ok (fp_algorithm f) \<and> text_ok (fp_value f)"

definition msid_wf :: "sdp_msid \<Rightarrow> bool" where
  "msid_wf m \<longleftrightarrow> word_ok (ms_stream_id m) \<and> (ms_track_id m = [] \<or> text_ok (ms_track_id m))"

definition group_wf :: "sdp_group \<Rightarrow> bool" where
  "group_wf g \<longleftrightarrow> word_ok (gr_semantic g) \<and> gr_items g \<noteq> [] \<and> list_all word_ok (gr_items g)"

text \<open>The name and the value that a printed line is split into.\<close>

definition attr_of :: "string \<Rightarrow> string \<times> string" where
  "attr_of l = split_attr (drop 2 l)"

lemma parse_all_show: "parse_all parse_uint32 (map show_word ws) = Some ws"
  by (induction ws) (simp_all add: parse_show_word)

lemma rtpmap_line_parse:
  assumes "rtpmap_wf r"
  shows "attr_of (rtpmap_line r) = (''rtpmap'', drop 9 (rtpmap_line r))"
    and "parse_rtpmap (drop 9 (rtpmap_line r)) = Some (r\<lparr>rm_params := []\<rparr>)"
    and "text_ok (rtpmap_line r)"
proof -
  let ?tail = "show_word (rm_clock_rate r) @ (case rm_channels r of None \<Rightarrow> [] | Some ch \<Rightarrow> ''/'' @ show_word ch)"
  have n: "word_ok (rm_name r)" "CHR '' '' \<notin> set (rm_name r)" "CHR ''/'' \<notin> set (rm_name r)" "CHR 0x0A \<notin> set (rm_name r)"
    using assms by (auto simp: rtpmap_wf_def dest: word_ends)
  then have t: "text_ok (rm_name r @ ''/'' @ ?tail)"
    by (cases "rm_channels r") (simp_all add: ends)
  show "attr_of (rtpmap_line r) = (''rtpmap'', drop 9 (rtpmap_line r))"
    by (simp add: attr_of_def rtpmap_line_def split_attr_def)
  show "text_ok (rtpmap_line r)"
    using n by (cases "rm_channels r") (simp_all add: rtpmap_line_def ends)
  have "trim (rm_name r @ CHR ''/'' # ?tail) = rm_name r @ CHR ''/'' # ?tail" using trim_text [OF t] by simp
  then show "parse_rtpmap (drop 9 (rtpmap_line r)) = Some (r\<lparr>rm_params := []\<rparr>)"
    using n by (cases r; cases "rm_channels r")
      (simp_all add: rtpmap_line_def parse_rtpmap_def sdp_txt trim_text word_ok_text)
qed

lemma rtcp_fb_line_parse:
  assumes "rtcp_fb_wf f"
  shows "fst (attr_of (rtcp_fb_line f)) = ''rtcp-fb'' \<and> parse_rtcpfb (snd (attr_of (rtcp_fb_line f))) = Some f
    \<and> text_ok (rtcp_fb_line f)"
proof -
  have n: "word_ok (fb_type f)" "CHR '' '' \<notin> set (fb_type f)" "CHR 0x0A \<notin> set (fb_type f)" "end_ok (fb_type f)"
    "fb_subtype f \<noteq> [] \<Longrightarrow> text_ok (fb_subtype f) \<and> end_ok (fb_subtype f)" "text_ok (fb_type f)"
    using assms by (auto simp: rtcp_fb_wf_def dest: word_ends)
  then have "trim (fb_type f @ CHR '' '' # fb_subtype f) = fb_type f @ CHR '' '' # fb_subtype f" if "fb_subtype f \<noteq> []"
    using that by (intro trim_text) (simp add: ends)
  then show ?thesis
    using n by (cases f; cases "fb_payload_type f"; cases "fb_subtype f = []")
      (simp_all add: rtcp_fb_line_def attr_of_def split_attr_def parse_rtcpfb_def sdp_txt ends)
qed

lemma extmap_line_parse:
  assumes "extmap_wf e" "nceq_ok L"
  shows "fst (attr_of (extmap_line e)) = ''extmap'' \<and> parse_extmap L (snd (attr_of (extmap_line e))) = Some e
    \<and> text_ok (extmap_line e)"
proof -
  have n: "word_ok (em_uri e)" "CHR '' '' \<notin> set (em_uri e)" "CHR 0x0A \<notin> set (em_uri e)" "end_ok (em_uri e)"
    "em_uri e \<noteq> []" "em_attributes e \<noteq> [] \<Longrightarrow> text_ok (em_attributes e) \<and> end_ok (em_attributes e)"
    using assms(1) by (auto simp: extmap_wf_def dest: word_ends word_ok_not_blank)
  have d: "CHR '' '' \<notin> set (show_word i @ CHR ''/'' # direction_str d)" "CHR 0x0A \<notin> set (direction_str d)" for i d
    using word_ok_no_lf [of "direction_str d"] by simp_all
  have s: "before CHR '' '' (show_word i @ CHR ''/'' # direction_str d @ CHR '' '' # x)
      = show_word i @ CHR ''/'' # direction_str d"
    "behind CHR '' '' (show_word i @ CHR ''/'' # direction_str d @ CHR '' '' # x) = Some x" for i :: u16 and d x
    using before_append [OF d(1) [of i d], of x] behind_append [OF d(1) [of i d], of x] by simp_all
  show ?thesis
    using n d names_roundtrip(3) [OF assms(2)]
    by (cases e; cases "em_direction e"; cases "em_attributes e = []")
      (simp_all add: extmap_line_def attr_of_def split_attr_def parse_extmap_def parse_extmap_id_def sdp_txt s ends)
qed

lemma ssrc_line_parse:
  assumes "ssrc_wf s"
  shows "fst (attr_of (ssrc_line s)) = ''ssrc'' \<and> parse_ssrc (snd (attr_of (ssrc_line s))) = Some s
    \<and> text_ok (ssrc_line s)"
proof -
  have n: "CHR '':'' \<notin> set (ss_attribute s)" "CHR 0x0A \<notin> set (ss_attribute s)" "end_ok (ss_attribute s)"
    "ss_value s \<noteq> [] \<Longrightarrow> end_ok (ss_value s)"
    using assms by (auto simp: ssrc_wf_def dest: word_ends)
  then show ?thesis
    by (cases s; cases "ss_value s = []")
      (simp_all add: ssrc_line_def attr_of_def split_attr_def parse_ssrc_def sdp_txt ends)
qed

lemma map_show_word_ok: "list_all word_ok (map show_word ws)"
  by (simp add: list_all_iff)

lemma spaced_Cons: "spaced (x # xs) = CHR '' '' # x @ spaced xs"
  by (simp add: spaced_def)

lemma ssrc_group_line_parse:
  assumes "ssrc_group_wf g"
  shows "fst (attr_of (ssrc_group_line g)) = ''ssrc-group'' \<and> parse_ssrc_group (snd (attr_of (ssrc_group_line g))) = Some g
    \<and> text_ok (ssrc_group_line g)"
proof -
  have n: "word_ok (sg_semantics g)" "CHR '' '' \<notin> set (sg_semantics g)" "CHR 0x0A \<notin> set (sg_semantics g)"
    using assms by (auto simp: ssrc_group_wf_def dest: word_ends)
  obtain w ws where ws: "sg_ssrcs g = w # ws" using assms by (cases "sg_ssrcs g") (auto simp: ssrc_group_wf_def)
  have "end_ok (show_word w @ spaced (map show_word ws))"
    by (rule text_ok_end [OF text_ok_words [OF show_word_word_ok map_show_word_ok]])
  moreover have "parse_all parse_uint32 (split_whitespace (show_word w @ spaced (map show_word ws))) = Some (w # ws)"
    using split_whitespace_words [OF _ map_show_word_ok, of "show_word w" ws] parse_all_show [of "w # ws"] by simp
  ultimately show ?thesis
    using n ws by (cases g) (simp add: ssrc_group_line_def attr_of_def split_attr_def parse_ssrc_group_def sdp_txt
        spaced_Cons end_ok_app end_ok_Cons text_ok_Cons)
qed

lemma fingerprint_line_parse:
  assumes "fingerprint_wf f"
  shows "fst (attr_of (fingerprint_line f)) = ''fingerprint'' \<and> parse_fingerprint (snd (attr_of (fingerprint_line f))) = Some f
    \<and> text_ok (fingerprint_line f)"
proof -
  have n: "word_ok (fp_algorithm f)" "CHR '' '' \<notin> set (fp_algorithm f)" "CHR 0x0A \<notin> set (fp_algorithm f)"
    "text_ok (fp_value f)" "end_ok (fp_value f)"
    using assms by (auto simp: fingerprint_wf_def dest: word_ends)
  then show ?thesis
    by (cases f) (simp add: fingerprint_line_def attr_of_def split_attr_def parse_fingerprint_def sdp_txt ends)
qed

lemma msid_line_parse:
  assumes "msid_wf m"
  shows "fst (attr_of (msid_line m)) = ''msid'' \<and> parse_msid (snd (attr_of (msid_line m))) = m
    \<and> text_ok (msid_line m)"
proof -
  have n: "CHR '' '' \<notin> set (ms_stream_id m)" "CHR 0x0A \<notin> set (ms_stream_id m)" "end_ok (ms_stream_id m)"
    "ms_track_id m \<noteq> [] \<Longrightarrow> text_ok (ms_track_id m) \<and> end_ok (ms_track_id m)"
    using assms by (auto simp: msid_wf_def dest: word_ends)
  then show ?thesis
    by (cases m; cases "ms_track_id m = []")
      (simp_all add: msid_line_def attr_of_def split_attr_def parse_msid_def sdp_txt ends)
qed

lemma group_line_parse:
  assumes "group_wf g"
  shows "fst (attr_of (group_line g)) = ''group'' \<and> parse_group (snd (attr_of (group_line g))) = Some g
    \<and> text_ok (group_line g)"
proof -
  have n: "CHR '' '' \<notin> set (gr_semantic g)" "CHR 0x0A \<notin> set (gr_semantic g)"
    using assms by (auto simp: group_wf_def dest: word_ends)
  obtain w ws where ws: "gr_items g = w # ws" "word_ok w" "list_all word_ok ws"
    using assms by (cases "gr_items g") (auto simp: group_wf_def)
  note t = text_ok_words [OF ws(2,3)]
  show ?thesis
    using n ws split_whitespace_words [OF ws(2,3)] t text_ok_end [OF t]
    by (cases g) (simp add: group_line_def attr_of_def split_attr_def parse_group_def sdp_txt
        spaced_Cons end_ok_app end_ok_Cons text_ok_Cons)
qed

lemma bandwidth_line_parse:
  assumes "nceq_ok L"
  shows "parse_bandwidth L (drop 2 (bandwidth_line b)) = Some b \<and> text_ok (bandwidth_line b)"
  using names_roundtrip(5) [OF assms] word_ok_no_lf [of "bandwidth_type_str (bw_type b)"]
  by (cases b) (simp add: bandwidth_line_def parse_bandwidth_def sdp_txt ends)

section \<open>Simulcast\<close>

definition simulcast_stream_wf :: "sdp_simulcast_stream \<Rightarrow> bool" where
  "simulcast_stream_wf s \<longleftrightarrow> word_ok (st_rid s) \<and> CHR '','' \<notin> set (st_rid s) \<and> CHR '';'' \<notin> set (st_rid s)
     \<and> (st_paused s \<or> hd (st_rid s) \<noteq> CHR ''~'')"

definition simulcast_layers_wf :: "sdp_simulcast_layer list \<Rightarrow> bool" where
  "simulcast_layers_wf ls \<longleftrightarrow> list_all (\<lambda>l. l \<noteq> [] \<and> list_all simulcast_stream_wf l) ls"

definition simulcast_stream_str :: "sdp_simulcast_stream \<Rightarrow> string" where
  "simulcast_stream_str s = (if st_paused s then ''~'' else []) @ st_rid s"

lemma joined_simps [simp]: "joined sep [] = []" "joined sep [x] = x" "joined sep (x # y # ys) = x @ sep @ joined sep (y # ys)"
  by (simp_all add: joined_def)

lemma joined_butlast: "butlast (concat (map (\<lambda>x. x @ [c]) xs)) = joined [c] xs"
proof (induction xs)
  case (Cons x xs)
  then show ?case by (cases xs) (simp_all add: butlast_append)
qed simp

lemma split_char_joined:
  "list_all (\<lambda>x. x \<noteq> [] \<and> c \<notin> set x) xs \<Longrightarrow> split_char c (joined [c] xs) = xs"
proof (induction xs)
  case Nil
  show ?case by (simp add: split_char.simps)
next
  case (Cons x xs)
  then show ?case
    by (cases xs; subst split_char.simps) (simp_all add: before_none behind_none before_append behind_append split_char.simps)
qed

lemma joined_chars: "set (joined sep xs) \<subseteq> set sep \<union> (\<Union>x \<in> set xs. set x)"
proof (induction xs)
  case (Cons x xs)
  then show ?case by (cases xs) auto
qed simp

lemma joined_Nil: "joined sep xs = [] \<Longrightarrow> xs = [] \<or> hd xs = []"
  by (cases xs; cases "tl xs") auto

lemma joined_hd: "xs \<noteq> [] \<Longrightarrow> hd xs \<noteq> [] \<Longrightarrow> joined sep xs \<noteq> [] \<and> hd (joined sep xs) = hd (hd xs)"
  by (cases xs; cases "tl xs") auto

lemma simulcast_layers_str_joined:
  "simulcast_layers_wf ls \<Longrightarrow>
   simulcast_layers_str ls = joined '';'' (map (\<lambda>l. joined '','' (map simulcast_stream_str l)) ls)"
proof -
  assume wf: "simulcast_layers_wf ls"
  have j: "butlast (concat (map (\<lambda>s. (if st_paused s then ''~'' else []) @ st_rid s @ '','') l))
      = joined '','' (map simulcast_stream_str l)" for l
    using joined_butlast [of "CHR '',''" "map simulcast_stream_str l"]
    by (simp add: simulcast_stream_str_def comp_def)
  have "filter (\<lambda>l. l \<noteq> []) ls = ls" using wf by (simp add: simulcast_layers_wf_def list_all_iff filter_id_conv)
  then show ?thesis
    using joined_butlast [of "CHR '';''" "map (\<lambda>l. joined '','' (map simulcast_stream_str l)) ls"]
    by (simp add: simulcast_layers_str_def j comp_def)
qed

lemma simulcast_stream_parse:
  assumes "simulcast_stream_wf s"
  shows "parse_simulcast_stream (simulcast_stream_str s) = [s]" and "word_ok (simulcast_stream_str s)"
    and "CHR '','' \<notin> set (simulcast_stream_str s)" and "CHR '';'' \<notin> set (simulcast_stream_str s)"
proof -
  show w: "word_ok (simulcast_stream_str s)"
    using assms by (auto simp: simulcast_stream_wf_def simulcast_stream_str_def word_ok_def is_space_def)
  show "parse_simulcast_stream (simulcast_stream_str s) = [s]"
    using assms trim_text [OF word_ok_text [OF w]]
    by (cases s; cases "st_rid s") (auto simp: parse_simulcast_stream_def simulcast_stream_wf_def simulcast_stream_str_def word_ok_def)
qed (use assms in \<open>auto simp: simulcast_stream_wf_def simulcast_stream_str_def\<close>)

lemma concat_map_single: "(\<And>x. x \<in> set l \<Longrightarrow> f x = [x]) \<Longrightarrow> concat (map f l) = l"
  by (induction l) auto

lemma simulcast_layers_parse:
  assumes "simulcast_layers_wf ls"
  shows "parse_simulcast_layers (simulcast_layers_str ls) = ls"
    and "ls \<noteq> [] \<Longrightarrow> word_ok (simulcast_layers_str ls)"
proof -
  let ?layer = "\<lambda>l. joined '','' (map simulcast_stream_str l)"
  have str: "simulcast_layers_str ls = joined '';'' (map ?layer ls)" using simulcast_layers_str_joined [OF assms] .
  have s: "l \<noteq> []" "\<And>x. x \<in> set l \<Longrightarrow> simulcast_stream_wf x" if "l \<in> set ls" for l
    using assms that by (auto simp: simulcast_layers_wf_def list_all_iff)
  have l: "?layer l \<noteq> []" "CHR '';'' \<notin> set (?layer l)" "list_all (\<lambda>c. \<not> is_space c) (?layer l)"
    "concat (map parse_simulcast_stream (split_char CHR '','' (?layer l))) = l" if "l \<in> set ls" for l
  proof -
    note sp = simulcast_stream_parse [OF s(2) [OF that]]
    have "hd (map simulcast_stream_str l) \<noteq> []"
      using s(1) [OF that] sp(2) by (cases l) (auto simp: word_ok_def)
    then show "?layer l \<noteq> []" using joined_Nil s(1) [OF that] by fastforce
    show "CHR '';'' \<notin> set (?layer l)" using joined_chars [of "'',''" "map simulcast_stream_str l"] sp(4) by auto
    have "\<not> is_space CHR '',''" by (simp add: is_space_def)
    then show "list_all (\<lambda>c. \<not> is_space c) (?layer l)"
      using joined_chars [of "'',''" "map simulcast_stream_str l"] sp(2) by (fastforce simp: list_all_iff word_ok_def)
    have "split_char CHR '','' (?layer l) = map simulcast_stream_str l"
      using sp by (intro split_char_joined) (auto simp: list_all_iff word_ok_def)
    moreover have "concat (map (parse_simulcast_stream \<circ> simulcast_stream_str) l) = l"
      using sp(1) by (intro concat_map_single) simp
    ultimately show "concat (map parse_simulcast_stream (split_char CHR '','' (?layer l))) = l" by simp
  qed
  have "split_char CHR '';'' (joined '';'' (map ?layer ls)) = map ?layer ls"
    using l by (intro split_char_joined) (auto simp: list_all_iff)
  then show "parse_simulcast_layers (simulcast_layers_str ls) = ls"
    using l s(1) by (simp add: str parse_simulcast_layers_def comp_def map_idI filter_id_conv)
  assume ne: "ls \<noteq> []"
  then have "joined '';'' (map ?layer ls) \<noteq> []"
    using joined_Nil [of "'';''" "map ?layer ls"] l(1) by (cases ls) auto
  moreover have "\<not> is_space CHR '';''" by (simp add: is_space_def)
  ultimately show "word_ok (simulcast_layers_str ls)"
    using joined_chars [of "'';''" "map ?layer ls"] l(3) unfolding str word_ok_def list_all_iff by fastforce
qed

lemma str_find_none: "pat \<noteq> [] \<Longrightarrow> hd pat \<notin> set s \<Longrightarrow> str_find pat s = None"
proof (induction s)
  case Nil
  then show ?case by (subst str_find.simps) simp
next
  case (Cons a s)
  then show ?case by (cases pat; subst str_find.simps) auto
qed

lemma str_find_first: "pat \<noteq> [] \<Longrightarrow> hd pat \<notin> set x \<Longrightarrow> str_find pat (x @ pat @ y) = Some (length x)"
proof (induction x)
  case Nil
  then show ?case by (subst str_find.simps) simp
next
  case (Cons a x)
  then show ?case by (cases pat; subst str_find.simps) auto
qed

definition simulcast_wf :: "sdp_simulcast \<Rightarrow> bool" where
  "simulcast_wf a \<longleftrightarrow> simulcast_layers_wf (sim_send_layers a) \<and> simulcast_layers_wf (sim_recv_layers a)"

lemma simulcast_rest_word:
  assumes "w \<in> {''send'', ''recv''}" "text_ok r"
  shows "first_token (w @ CHR '' '' # r) = w" and "simulcast_rest (w @ CHR '' '' # r) = r"
  using assms by (auto simp: first_token_def simulcast_rest_def trim_text)

lemma parse_simulcast_str:
  assumes "simulcast_wf a" "sim_send_layers a \<noteq> [] \<or> sim_recv_layers a \<noteq> []"
  defines "v \<equiv> (if sim_send_layers a \<noteq> [] then ''send '' @ simulcast_layers_str (sim_send_layers a) else [])
            @ (if sim_recv_layers a \<noteq> [] then '' recv '' @ simulcast_layers_str (sim_recv_layers a) else [])"
  shows "parse_simulcast v = a" and "end_ok v"
proof -
  let ?S = "simulcast_layers_str (sim_send_layers a)" and ?R = "simulcast_layers_str (sim_recv_layers a)"
  have wf: "simulcast_layers_wf (sim_send_layers a)" "simulcast_layers_wf (sim_recv_layers a)"
    using assms(1) by (simp_all add: simulcast_wf_def)
  note S = simulcast_layers_parse [OF wf(1)] and R = simulcast_layers_parse [OF wf(2)]
  have R1: "parse_simulcast_loop x (''recv '' @ ?R) = x\<lparr>sim_recv_layers := sim_recv_layers a\<rparr>"
    if "sim_recv_layers a \<noteq> []" for x
  proof -
    note t = word_ok_text [OF R(2) [OF that]]
    have "str_find '' send'' ?R = None" using word_ok_no_space [OF R(2) [OF that]] by (simp add: str_find_none)
    then show ?thesis
      using simulcast_rest_word [of "''recv''" ?R] t R(1) trim_text [OF t]
      by (subst parse_simulcast_loop.simps) (auto simp: text_ok_def)
  qed
  show "parse_simulcast v = a"
  proof (cases "sim_send_layers a = []")
    case True
    then have ne: "sim_recv_layers a \<noteq> []" using assms(2) by simp
    have "trim v = ''recv '' @ ?R"
    proof -
      have "trim (CHR '' '' # s) = trim s" for s by (simp add: trim_def)
      moreover have "text_ok (''recv '' @ ?R)"
        using text_ok_end [OF word_ok_text [OF R(2) [OF ne]]] by (simp add: ends)
      ultimately show ?thesis using True ne trim_text by (simp add: v_def)
    qed
    then have "parse_simulcast v = \<lparr>sim_send_layers = [], sim_recv_layers = sim_recv_layers a\<rparr>"
      using R1 [OF ne, of "\<lparr>sim_send_layers = [], sim_recv_layers = []\<rparr>"]
      by (simp only: parse_simulcast_def sdp_simulcast.update_convs)
    then show ?thesis using True by (cases a) simp
  next
    case ne: False
    note t = word_ok_text [OF S(2) [OF ne]]
    have sp: "CHR '' '' \<notin> set ?S" using word_ok_no_space [OF S(2) [OF ne]] .
    show ?thesis
    proof (cases "sim_recv_layers a = []")
      case True
      have "text_ok v" using True ne text_ok_end [OF t] by (simp add: v_def ends)
      moreover have "str_find '' recv'' ?S = None" using sp by (simp add: str_find_none)
      moreover have "?S \<noteq> []" using t by (auto simp: text_ok_def)
      ultimately show ?thesis
        using True ne simulcast_rest_word [of "''send''" ?S] t S(1)
        by (cases a) (simp add: parse_simulcast_def trim_text v_def parse_simulcast_loop.simps [of _ "_ # _"])
    next
      case False
      let ?r = "?S @ '' recv'' @ '' '' @ ?R"
      have r: "text_ok ?r"
        using text_ok_end [OF word_ok_text [OF R(2) [OF False]]] S(2) [OF ne] by (simp add: ends word_ok_no_lf)
      have v: "v = ''send'' @ CHR '' '' # ?r" using False ne by (simp add: v_def)
      have "text_ok v" unfolding v using text_ok_end [OF r] by (simp add: text_ok_Cons end_ok_Cons)
      then have "parse_simulcast v = parse_simulcast_loop \<lparr>sim_send_layers = [], sim_recv_layers = []\<rparr> v"
        by (simp add: parse_simulcast_def trim_text)
      also have "\<dots> = parse_simulcast_loop \<lparr>sim_send_layers = sim_send_layers a, sim_recv_layers = []\<rparr> (''recv '' @ ?R)"
        using simulcast_rest_word [of "''send''" ?r] r S(1) trim_text [OF t] str_find_first [of "'' recv''" ?S "'' '' @ ?R"] sp
        unfolding v by (subst parse_simulcast_loop.simps) (simp add: text_ok_def)
      also have "\<dots> = a" using R1 [OF False] by (cases a) simp
      finally show ?thesis .
    qed
  qed
  have "end_ok ?S" if "sim_send_layers a \<noteq> []" using text_ok_end [OF word_ok_text [OF S(2) [OF that]]] .
  moreover have "end_ok ?R" if "sim_recv_layers a \<noteq> []" using text_ok_end [OF word_ok_text [OF R(2) [OF that]]] .
  moreover have "CHR 0x0A \<notin> set ?S" if "sim_send_layers a \<noteq> []" using word_ok_no_lf [OF S(2) [OF that]] .
  ultimately show "end_ok v" using assms(2) by (auto simp: v_def end_ok_app end_ok_Cons)
qed

end
