(* ===== verification/SdpRoundMedia.thy ===== *)
theory SdpRoundMedia
  imports SdpRound
begin

text \<open>
  The attributes that the parser reads with regular expressions, and the round trip of a whole media
  section: the lines that the printer emits, applied one after the other, rebuild the section.
\<close>

section \<open>The regular expressions\<close>

text \<open>
  The documented behaviour of the expressions in the source on the texts that the printer emits:
  \<open>^(\d+)\s+(\S+)\s+(\S+)(?:\s+(.*))?$\<close>, \<open>^(\d+)(?:\s+(\S+)\s+(\S+)\s+(\S+))?$\<close>,
  \<open>^(\S+)\s+(send|recv)(?:\s+(.*))?$\<close>, \<open>^([^=]+)=(.+)$\<close>, \<open>[^;]+\<close> and \<open>\d+\<close>.
\<close>

definition regex_ok :: "sdp_lib \<Rightarrow> bool" where
  "regex_ok L \<longleftrightarrow>
     (\<forall>n s k. word_ok s \<longrightarrow> word_ok k \<longrightarrow>
        rx_crypto L (show_nat n @ '' '' @ s @ '' '' @ k) = Some (show_nat n, s, k, []) \<and>
        (\<forall>p. text_ok p \<longrightarrow> rx_crypto L (show_nat n @ '' '' @ s @ '' '' @ k @ '' '' @ p) = Some (show_nat n, s, k, p))) \<and>
     (\<forall>n. rx_rtcp L (show_nat n) = Some (show_nat n, None)) \<and>
     (\<forall>n a b c. word_ok a \<longrightarrow> word_ok b \<longrightarrow> word_ok c \<longrightarrow>
        rx_rtcp L (show_nat n @ '' '' @ a @ '' '' @ b @ '' '' @ c) = Some (show_nat n, Some (a, b, c))) \<and>
     (\<forall>i d. word_ok i \<longrightarrow> d \<in> {''send'', ''recv''} \<longrightarrow>
        rx_rid L (i @ '' '' @ d) = Some (i, d, []) \<and>
        (\<forall>p. text_ok p \<longrightarrow> rx_rid L (i @ '' '' @ d @ '' '' @ p) = Some (i, d, p))) \<and>
     (\<forall>k v. k \<noteq> [] \<longrightarrow> CHR ''='' \<notin> set k \<longrightarrow> v \<noteq> [] \<longrightarrow> CHR 0x0A \<notin> set v \<longrightarrow> rx_param L (k @ ''='' @ v) = Some (k, v)) \<and>
     (\<forall>xs. xs \<noteq> [] \<longrightarrow> list_all (\<lambda>x. x \<noteq> [] \<and> CHR '';'' \<notin> set x) xs \<longrightarrow> rx_tokens L (joined '';'' xs) = xs) \<and>
     (\<forall>ns. rx_digits L (joined '','' (map show_nat ns)) = map show_nat ns)"

lemma regex_okD:
  assumes "regex_ok L"
  shows "k \<noteq> [] \<Longrightarrow> CHR ''='' \<notin> set k \<Longrightarrow> v \<noteq> [] \<Longrightarrow> CHR 0x0A \<notin> set v \<Longrightarrow> rx_param L (k @ ''='' @ v) = Some (k, v)"
    and "xs \<noteq> [] \<Longrightarrow> list_all (\<lambda>x. x \<noteq> [] \<and> CHR '';'' \<notin> set x) xs \<Longrightarrow> rx_tokens L (joined '';'' xs) = xs"
    and "rx_digits L (joined '','' (map show_nat ns)) = map show_nat ns"
    and "word_ok i \<Longrightarrow> d \<in> {''send'', ''recv''} \<Longrightarrow> rx_rid L (i @ '' '' @ d) = Some (i, d, [])"
    and "word_ok i \<Longrightarrow> d \<in> {''send'', ''recv''} \<Longrightarrow> text_ok p \<Longrightarrow> rx_rid L (i @ '' '' @ d @ '' '' @ p) = Some (i, d, p)"
  using assms unfolding regex_ok_def by blast+

definition crypto_wf :: "sdp_crypto \<Rightarrow> bool" where
  "crypto_wf c \<longleftrightarrow> word_ok (cr_suite c) \<and> word_ok (cr_key_params c) \<and> (cr_session_params c = [] \<or> text_ok (cr_session_params c))"

definition rtcp_wf :: "sdp_rtcp \<Rightarrow> bool" where
  "rtcp_wf r \<longleftrightarrow> rt_nettype r = [] \<and> rt_addrtype r = [] \<and> rt_addr r = [] \<or>
     word_ok (rt_nettype r) \<and> word_ok (rt_addrtype r) \<and> word_ok (rt_addr r)"

definition rid_param_wf :: "string \<times> string \<Rightarrow> bool" where
  "rid_param_wf p \<longleftrightarrow> word_ok (fst p) \<and> CHR ''='' \<notin> set (fst p) \<and> CHR '';'' \<notin> set (fst p) \<and> fst p \<noteq> ''pt''
     \<and> word_ok (snd p) \<and> CHR '';'' \<notin> set (snd p)"

definition rid_wf :: "sdp_rid \<Rightarrow> bool" where
  "rid_wf r \<longleftrightarrow> word_ok (rid_id r) \<and> sorted_wrt (<) (map fst (rid_params r)) \<and> list_all rid_param_wf (rid_params r)"

lemma crypto_line_parse:
  assumes "regex_ok L" "crypto_wf c"
  shows "fst (attr_of (crypto_line c)) = ''crypto'' \<and> parse_crypto L (snd (attr_of (crypto_line c))) = Some c
    \<and> text_ok (crypto_line c)"
proof -
  have n: "word_ok (cr_suite c)" "word_ok (cr_key_params c)" "CHR 0x0A \<notin> set (cr_suite c)"
    "CHR 0x0A \<notin> set (cr_key_params c)" "end_ok (cr_key_params c)" "text_ok (cr_key_params c)"
    "cr_session_params c \<noteq> [] \<Longrightarrow> text_ok (cr_session_params c) \<and> end_ok (cr_session_params c)"
    using assms(2) by (auto simp: crypto_wf_def dest: word_ends)
  have "rx_crypto L (show_nat n @ CHR '' '' # cr_suite c @ CHR '' '' # cr_key_params c)
      = Some (show_nat n, cr_suite c, cr_key_params c, [])"
    "cr_session_params c \<noteq> [] \<Longrightarrow>
      rx_crypto L (show_nat n @ CHR '' '' # cr_suite c @ CHR '' '' # cr_key_params c @ CHR '' '' # cr_session_params c)
      = Some (show_nat n, cr_suite c, cr_key_params c, cr_session_params c)" for n
    using assms(1) n by (auto simp: regex_ok_def)
  then show ?thesis
    using n parse_show_word(3) [of "cr_tag c"]
    by (cases c; cases "cr_session_params c = []")
      (simp_all add: crypto_line_def attr_of_def split_attr_def parse_crypto_def show_word_def ends
        show_word_no_special(7) [unfolded show_word_def])
qed

lemma rtcp_line_parse:
  assumes "regex_ok L" "rtcp_wf r"
  shows "fst (attr_of (rtcp_line r)) = ''rtcp'' \<and> parse_rtcp L (snd (attr_of (rtcp_line r))) = Some r
    \<and> text_ok (rtcp_line r)"
proof -
  have rx: "rx_rtcp L (show_nat n) = Some (show_nat n, None)"
    "word_ok a \<Longrightarrow> word_ok b \<Longrightarrow> word_ok c \<Longrightarrow>
      rx_rtcp L (show_nat n @ CHR '' '' # a @ CHR '' '' # b @ CHR '' '' # c) = Some (show_nat n, Some (a, b, c))" for n a b c
    using assms(1) by (auto simp: regex_ok_def)
  have w: "word_ok a \<Longrightarrow> a \<noteq> [] \<and> CHR 0x0A \<notin> set a \<and> end_ok a" for a
    by (auto simp: word_ok_def [of "[]"] dest: word_ends)
  have p: "parse_uint16 (show_nat (unat (rt_port r))) = Some (rt_port r)" "end_ok (show_nat (unat (rt_port r)))"
    "CHR 0x0A \<notin> set (show_nat (unat (rt_port r)))"
    using parse_show_word(2) [of "rt_port r"] show_word_end_ok(1) [of "rt_port r"] show_word_no_special(7) [of "rt_port r"]
    by (simp_all add: show_word_def)
  show ?thesis
  proof (cases "rt_nettype r = []")
    case True
    then show ?thesis using assms(2) rx p
      by (cases r) (auto simp: rtcp_wf_def rtcp_line_def attr_of_def split_attr_def parse_rtcp_def show_word_def ends word_ok_def)
  next
    case False
    then have "word_ok (rt_nettype r)" "word_ok (rt_addrtype r)" "word_ok (rt_addr r)"
      using assms(2) by (auto simp: rtcp_wf_def)
    then show ?thesis using rx w p
      by (cases r) (simp add: rtcp_line_def attr_of_def split_attr_def parse_rtcp_def show_word_def ends)
  qed
qed

lemma params_emplace_append:
  "sorted_wrt (<) (map fst ps @ [k]) \<Longrightarrow> params_emplace k v ps = ps @ [(k, v)]"
  by (induction ps) (auto simp: sorted_wrt_append)

lemma word_ok_simps: "word_ok [] = False" "word_ok (a # s) \<longleftrightarrow> \<not> is_space a \<and> (s = [] \<or> word_ok s)"
  "word_ok x \<Longrightarrow> word_ok (x @ y) \<longleftrightarrow> y = [] \<or> word_ok y"
  by (auto simp: word_ok_def list_all_iff)

lemma word_ok_joined:
  assumes "list_all (\<lambda>c. \<not> is_space c) sep" "xs \<noteq> []" "list_all word_ok xs"
  shows "word_ok (joined sep xs)"
proof -
  have "hd xs \<noteq> []" "\<forall>x \<in> set xs. word_ok x" using assms by (cases xs; auto simp: word_ok_def list_all_iff)+
  moreover from this have "joined sep xs \<noteq> []" using assms(2) by (meson joined_hd)
  ultimately show ?thesis
    using joined_chars [of sep xs] assms(1) by (fastforce simp: word_ok_def list_all_iff)
qed

definition pts_str :: "u8 list \<Rightarrow> string" where
  "pts_str pts = joined '','' (map show_word pts)"

definition param_str :: "string \<times> string \<Rightarrow> string" where
  "param_str p = fst p @ ''='' @ snd p"

lemma pts_str_ok:
  assumes "pts \<noteq> []"
  shows "word_ok (pts_str pts)" "CHR '';'' \<notin> set (pts_str pts)" "CHR ''='' \<notin> set (pts_str pts)"
proof -
  show "word_ok (pts_str pts)"
    unfolding pts_str_def using assms by (intro word_ok_joined) (auto simp: is_space_def list_all_iff)
  show "CHR '';'' \<notin> set (pts_str pts)" "CHR ''='' \<notin> set (pts_str pts)"
    unfolding pts_str_def using joined_chars [of "'',''" "map show_word pts"] by auto
qed

lemma rid_tokens_fold:
  assumes "regex_ok L" "list_all rid_param_wf ps" "sorted_wrt (<) (map fst (rid_params r @ ps))"
  shows "fold (rid_token L) (map param_str ps) (r, b) = (r\<lparr>rid_params := rid_params r @ ps\<rparr>, if ps = [] then b else False)"
  using assms(2,3)
proof (induction ps arbitrary: r b)
  case (Cons p ps)
  have p: "word_ok (fst p)" "CHR ''='' \<notin> set (fst p)" "fst p \<noteq> ''pt''" "word_ok (snd p)" "fst p \<noteq> []" "snd p \<noteq> []"
    "CHR 0x0A \<notin> set (snd p)"
    using Cons.prems(1) by (auto simp: rid_param_wf_def word_ok_simps(1) dest: word_ends)
  have "rx_param L (param_str p) = Some (fst p, snd p)"
    using regex_okD(1) [OF assms(1)] p unfolding param_str_def by blast
  moreover have "trim (param_str p) = param_str p"
    unfolding param_str_def using p by (intro trim_text word_ok_text) (simp add: word_ok_simps is_space_def)
  moreover have "params_emplace (fst p) (snd p) (rid_params r) = rid_params r @ [p]"
    using Cons.prems(2) by (subst params_emplace_append) (auto simp: sorted_wrt_append)
  ultimately have "rid_token L (param_str p) (r, b) = (r\<lparr>rid_params := rid_params r @ [p]\<rparr>, False)"
    using p trim_text [OF word_ok_text [OF p(1)]] trim_text [OF word_ok_text [OF p(4)]]
    by (simp add: rid_token_def Let_def split_beta)
  then show ?case using Cons.IH [of "r\<lparr>rid_params := rid_params r @ [p]\<rparr>" False] Cons.prems by simp
qed (cases r, simp)

lemma rid_token_pts:
  assumes "regex_ok L" "pts \<noteq> []"
  shows "rid_token L (''pt='' @ pts_str pts) (r, b) = (r\<lparr>rid_payload_types := rid_payload_types r @ pts\<rparr>, True)"
proof -
  note o = pts_str_ok [OF assms(2)]
  have "rx_param L (''pt'' @ ''='' @ pts_str pts) = Some (''pt'', pts_str pts)"
    using o word_ok_no_lf [OF o(1)] by (intro regex_okD(1) [OF assms(1)]) (auto simp: word_ok_simps)
  moreover have "rx_digits L (pts_str pts) = map show_word pts"
    using regex_okD(3) [OF assms(1), of "map unat pts"] by (simp add: pts_str_def show_word_def [abs_def] comp_def)
  moreover have "List.map_filter parse_uint8 (map show_word pts) = pts"
    by (induction pts) (simp_all add: List.map_filter_simps parse_show_word)
  moreover have "trim (''pt='' @ pts_str pts) = ''pt='' @ pts_str pts"
    using o(1) by (intro trim_text word_ok_text) (simp add: word_ok_simps is_space_def)
  moreover have "text_ok ''pt''" by (simp add: ends)
  ultimately show ?thesis
    using trim_text [OF word_ok_text [OF o(1)]] trim_text [of "''pt''"] by (simp add: rid_token_def Let_def)
qed

lemma rid_parts:
  assumes "rid_wf r"
  shows "map (\<lambda>k. k @ ''='' @ the (map_of (rid_params r) k)) (sort (map fst (rid_params r))) = map param_str (rid_params r)"
proof -
  have s: "sorted_wrt (<) (map fst (rid_params r))" using assms by (simp add: rid_wf_def)
  then have "sort (map fst (rid_params r)) = map fst (rid_params r)"
    by (simp add: sorted_sort_id strict_sorted_imp_sorted)
  moreover have "distinct (map fst (rid_params r))" using s by (simp add: strict_sorted_iff)
  ultimately show ?thesis by (auto simp: param_str_def comp_def)
qed

lemma rid_line_parse:
  assumes "regex_ok L" "rid_wf r"
  shows "fst (attr_of (rid_line r)) = ''rid'' \<and> parse_rid L (snd (attr_of (rid_line r))) = Some r \<and> text_ok (rid_line r)"
proof -
  define parts where "parts = (if rid_payload_types r \<noteq> [] then [''pt='' @ pts_str (rid_payload_types r)] else [])
    @ map param_str (rid_params r)"
  let ?d = "rid_direction_str (rid_direction r)"
  define v where "v = rid_id r @ '' '' @ ?d @ (if parts \<noteq> [] then '' '' @ joined '';'' parts else [])"
  have line: "rid_line r = ''a=rid:'' @ v"
    unfolding rid_line_def Let_def rid_parts [OF assms(2)] v_def parts_def pts_str_def by simp
  have i: "word_ok (rid_id r)" "CHR 0x0A \<notin> set (rid_id r)"
    and ps: "list_all rid_param_wf (rid_params r)" "sorted_wrt (<) (map fst (rid_params r))"
    using assms(2) by (auto simp: rid_wf_def dest: word_ends)
  have d: "?d \<in> {''send'', ''recv''}" "end_ok ?d" "CHR 0x0A \<notin> set ?d" by (cases "rid_direction r"; simp add: ends)+
  have pw: "list_all (\<lambda>x. word_ok x \<and> CHR '';'' \<notin> set x) parts"
  proof -
    have "word_ok (param_str p) \<and> CHR '';'' \<notin> set (param_str p)" if "rid_param_wf p" for p
      using that by (auto simp: rid_param_wf_def param_str_def word_ok_simps is_space_def)
    moreover have "word_ok (''pt='' @ pts_str pts) \<and> CHR '';'' \<notin> set (''pt='' @ pts_str pts)" if "pts \<noteq> []" for pts
      using pts_str_ok [OF that] by (simp add: word_ok_simps is_space_def)
    ultimately show ?thesis using ps(1) by (auto simp: parts_def list_all_iff)
  qed
  have jw: "parts \<noteq> [] \<Longrightarrow> word_ok (joined '';'' parts)"
    using pw by (intro word_ok_joined) (auto simp: list_all_iff is_space_def)
  have end_v: "end_ok v"
    using i d jw text_ok_end [OF word_ok_text [OF jw]] by (auto simp: v_def end_ok_app end_ok_Cons)
  define r0 where "r0 = \<lparr>rid_id = rid_id r, rid_direction = rid_direction r, rid_payload_types = [], rid_params = []\<rparr>"
  have dir: "(if ?d = ''send'' then rid_send else rid_recv) = rid_direction r" by (cases "rid_direction r") simp_all
  have "parse_rid L v = Some r"
  proof (cases "parts = []")
    case True
    then have "rid_payload_types r = []" "rid_params r = []" by (auto simp: parts_def split: if_splits)
    moreover have "rx_rid L v = Some (rid_id r, ?d, [])"
      using regex_okD(4) [OF assms(1) i(1) d(1)] True by (simp add: v_def)
    ultimately show ?thesis by (cases "rid_direction r"; cases r) (simp_all add: parse_rid_def)
  next
    case False
    have "rx_rid L v = Some (rid_id r, ?d, joined '';'' parts)"
      using regex_okD(5) [OF assms(1) i(1) d(1) word_ok_text [OF jw [OF False]]] False by (simp add: v_def)
    moreover have "rx_tokens L (joined '';'' parts) = parts"
      using pw False by (intro regex_okD(2) [OF assms(1)]) (auto simp: list_all_iff word_ok_simps(1))
    moreover have "joined '';'' parts \<noteq> []" using jw [OF False] by (auto simp: word_ok_simps(1))
    moreover have "fold (rid_token L) parts (r0, False) = (r, if rid_params r = [] then rid_payload_types r \<noteq> [] else False)"
      using rid_tokens_fold [OF assms(1) ps(1), of r0 False]
        rid_tokens_fold [OF assms(1) ps(1), of "r0\<lparr>rid_payload_types := rid_payload_types r\<rparr>" True]
        rid_token_pts [OF assms(1), of "rid_payload_types r" r0 False] ps(2)
      by (cases r) (auto simp: parts_def r0_def)
    ultimately show ?thesis using dir by (simp add: parse_rid_def r0_def Let_def)
  qed
  then show ?thesis
    using end_v by (simp add: line attr_of_def split_attr_def ends)
qed

section \<open>Attributes of a media section\<close>

text \<open>One line of a media section, and a list of them, as the loop of the parser applies them.\<close>

definition media_step :: "sdp_lib \<Rightarrow> string \<Rightarrow> sdp_media \<Rightarrow> sdp_media option" where
  "media_step L l m =
     (if hd l = CHR ''a'' then apply_media_attr L m (fst (attr_of l)) (snd (attr_of l)) else Some m)"

fun media_steps :: "sdp_lib \<Rightarrow> string list \<Rightarrow> sdp_media \<Rightarrow> sdp_media option" where
  "media_steps L [] m = Some m"
| "media_steps L (l # ls) m = Option.bind (media_step L l m) (media_steps L ls)"

lemma media_steps_append: "media_steps L (xs @ ys) m = Option.bind (media_steps L xs m) (media_steps L ys)"
  by (induction xs arbitrary: m) (auto split: bind_splits)

lemma media_steps_map:
  assumes "\<And>x m. x \<in> set xs \<Longrightarrow> media_step L (f x) m = Some (upd x m)"
  shows "media_steps L (map f xs) m = Some (fold upd xs m)"
  using assms by (induction xs arbitrary: m) auto

lemma fold_media_append:
  "fold (\<lambda>x m. m\<lparr>md_msids := md_msids m @ [x]\<rparr>) x0 m = m\<lparr>md_msids := md_msids m @ x0\<rparr>"
  "fold (\<lambda>x m. m\<lparr>md_candidates := md_candidates m @ [x]\<rparr>) x1 m = m\<lparr>md_candidates := md_candidates m @ x1\<rparr>"
  "fold (\<lambda>x m. m\<lparr>md_fingerprints := md_fingerprints m @ [x]\<rparr>) x2 m = m\<lparr>md_fingerprints := md_fingerprints m @ x2\<rparr>"
  "fold (\<lambda>x m. m\<lparr>md_extmaps := md_extmaps m @ [x]\<rparr>) x3 m = m\<lparr>md_extmaps := md_extmaps m @ x3\<rparr>"
  "fold (\<lambda>x m. m\<lparr>md_ssrcs := md_ssrcs m @ [x]\<rparr>) x4 m = m\<lparr>md_ssrcs := md_ssrcs m @ x4\<rparr>"
  "fold (\<lambda>x m. m\<lparr>md_ssrc_groups := md_ssrc_groups m @ [x]\<rparr>) x5 m = m\<lparr>md_ssrc_groups := md_ssrc_groups m @ x5\<rparr>"
  "fold (\<lambda>x m. m\<lparr>md_cryptos := md_cryptos m @ [x]\<rparr>) x6 m = m\<lparr>md_cryptos := md_cryptos m @ x6\<rparr>"
  "fold (\<lambda>x m. m\<lparr>md_rids := md_rids m @ [x]\<rparr>) x7 m = m\<lparr>md_rids := md_rids m @ x7\<rparr>"
  "fold (\<lambda>x m. m\<lparr>md_attributes := md_attributes m @ [x]\<rparr>) x8 m = m\<lparr>md_attributes := md_attributes m @ x8\<rparr>"
proof -
  show "fold (\<lambda>x m. m\<lparr>md_msids := md_msids m @ [x]\<rparr>) x0 m = m\<lparr>md_msids := md_msids m @ x0\<rparr>"
    by (induction x0 arbitrary: m) simp_all
  show "fold (\<lambda>x m. m\<lparr>md_candidates := md_candidates m @ [x]\<rparr>) x1 m = m\<lparr>md_candidates := md_candidates m @ x1\<rparr>"
    by (induction x1 arbitrary: m) simp_all
  show "fold (\<lambda>x m. m\<lparr>md_fingerprints := md_fingerprints m @ [x]\<rparr>) x2 m = m\<lparr>md_fingerprints := md_fingerprints m @ x2\<rparr>"
    by (induction x2 arbitrary: m) simp_all
  show "fold (\<lambda>x m. m\<lparr>md_extmaps := md_extmaps m @ [x]\<rparr>) x3 m = m\<lparr>md_extmaps := md_extmaps m @ x3\<rparr>"
    by (induction x3 arbitrary: m) simp_all
  show "fold (\<lambda>x m. m\<lparr>md_ssrcs := md_ssrcs m @ [x]\<rparr>) x4 m = m\<lparr>md_ssrcs := md_ssrcs m @ x4\<rparr>"
    by (induction x4 arbitrary: m) simp_all
  show "fold (\<lambda>x m. m\<lparr>md_ssrc_groups := md_ssrc_groups m @ [x]\<rparr>) x5 m = m\<lparr>md_ssrc_groups := md_ssrc_groups m @ x5\<rparr>"
    by (induction x5 arbitrary: m) simp_all
  show "fold (\<lambda>x m. m\<lparr>md_cryptos := md_cryptos m @ [x]\<rparr>) x6 m = m\<lparr>md_cryptos := md_cryptos m @ x6\<rparr>"
    by (induction x6 arbitrary: m) simp_all
  show "fold (\<lambda>x m. m\<lparr>md_rids := md_rids m @ [x]\<rparr>) x7 m = m\<lparr>md_rids := md_rids m @ x7\<rparr>"
    by (induction x7 arbitrary: m) simp_all
  show "fold (\<lambda>x m. m\<lparr>md_attributes := md_attributes m @ [x]\<rparr>) x8 m = m\<lparr>md_attributes := md_attributes m @ x8\<rparr>"
    by (induction x8 arbitrary: m) simp_all
qed

lemma media_step_lists:
  assumes "nceq_ok L" "regex_ok L"
  shows "msid_wf i \<Longrightarrow> media_step L (msid_line i) m = Some (m\<lparr>md_msids := md_msids m @ [i]\<rparr>)"
    and "fingerprint_wf f \<Longrightarrow> media_step L (fingerprint_line f) m = Some (m\<lparr>md_fingerprints := md_fingerprints m @ [f]\<rparr>)"
    and "extmap_wf e \<Longrightarrow> media_step L (extmap_line e) m = Some (m\<lparr>md_extmaps := md_extmaps m @ [e]\<rparr>)"
    and "ssrc_wf s \<Longrightarrow> media_step L (ssrc_line s) m = Some (m\<lparr>md_ssrcs := md_ssrcs m @ [s]\<rparr>)"
    and "ssrc_group_wf g \<Longrightarrow> media_step L (ssrc_group_line g) m = Some (m\<lparr>md_ssrc_groups := md_ssrc_groups m @ [g]\<rparr>)"
    and "crypto_wf c \<Longrightarrow> media_step L (crypto_line c) m = Some (m\<lparr>md_cryptos := md_cryptos m @ [c]\<rparr>)"
    and "rid_wf r \<Longrightarrow> media_step L (rid_line r) m = Some (m\<lparr>md_rids := md_rids m @ [r]\<rparr>)"
    and "rtcp_wf t \<Longrightarrow> media_step L (rtcp_line t) m = Some (m\<lparr>md_rtcp := Some t\<rparr>)"
    and "rtcp_fb_wf b \<Longrightarrow> media_step L (rtcp_fb_line b) m = Some (add_feedback b m)"
proof -
  have hd: "hd (msid_line i) = CHR ''a''" "hd (fingerprint_line f) = CHR ''a''" "hd (extmap_line e) = CHR ''a''"
    "hd (ssrc_line s) = CHR ''a''" "hd (ssrc_group_line g) = CHR ''a''" "hd (crypto_line c) = CHR ''a''"
    "hd (rid_line r) = CHR ''a''" "hd (rtcp_line t) = CHR ''a''" "hd (rtcp_fb_line b) = CHR ''a''"
    by (simp_all add: msid_line_def fingerprint_line_def extmap_line_def ssrc_line_def ssrc_group_line_def crypto_line_def
        rid_line_def rtcp_line_def rtcp_fb_line_def Let_def)
  note D = media_step_def apply_media_attr_def hd
  show "msid_wf i \<Longrightarrow> media_step L (msid_line i) m = Some (m\<lparr>md_msids := md_msids m @ [i]\<rparr>)"
    using msid_line_parse [of i] by (simp add: D)
  show "fingerprint_wf f \<Longrightarrow> media_step L (fingerprint_line f) m = Some (m\<lparr>md_fingerprints := md_fingerprints m @ [f]\<rparr>)"
    using fingerprint_line_parse [of f] by (simp add: D)
  show "extmap_wf e \<Longrightarrow> media_step L (extmap_line e) m = Some (m\<lparr>md_extmaps := md_extmaps m @ [e]\<rparr>)"
    using extmap_line_parse [of e L] assms by (simp add: D)
  show "ssrc_wf s \<Longrightarrow> media_step L (ssrc_line s) m = Some (m\<lparr>md_ssrcs := md_ssrcs m @ [s]\<rparr>)"
    using ssrc_line_parse [of s] by (simp add: D)
  show "ssrc_group_wf g \<Longrightarrow> media_step L (ssrc_group_line g) m = Some (m\<lparr>md_ssrc_groups := md_ssrc_groups m @ [g]\<rparr>)"
    using ssrc_group_line_parse [of g] by (simp add: D)
  show "crypto_wf c \<Longrightarrow> media_step L (crypto_line c) m = Some (m\<lparr>md_cryptos := md_cryptos m @ [c]\<rparr>)"
    using crypto_line_parse [OF assms(2), of c] by (simp add: D)
  show "rid_wf r \<Longrightarrow> media_step L (rid_line r) m = Some (m\<lparr>md_rids := md_rids m @ [r]\<rparr>)"
    using rid_line_parse [OF assms(2), of r] by (simp add: D)
  show "rtcp_wf t \<Longrightarrow> media_step L (rtcp_line t) m = Some (m\<lparr>md_rtcp := Some t\<rparr>)"
    using rtcp_line_parse [OF assms(2), of t] by (simp add: D)
  show "rtcp_fb_wf b \<Longrightarrow> media_step L (rtcp_fb_line b) m = Some (add_feedback b m)"
    using rtcp_fb_line_parse [of b] by (simp add: D)
qed

lemma media_step_values:
  assumes "nceq_ok L"
  shows "media_step L (''a='' @ direction_str d) m = Some (m\<lparr>md_direction := d\<rparr>)"
    and "text_ok v \<Longrightarrow> media_step L (''a=mid:'' @ v) m = Some (m\<lparr>md_mid := v\<rparr>)"
    and "text_ok v \<Longrightarrow> media_step L (''a=ice-ufrag:'' @ v) m = Some (m\<lparr>md_ice_ufrag := v\<rparr>)"
    and "text_ok v \<Longrightarrow> media_step L (''a=ice-pwd:'' @ v) m = Some (m\<lparr>md_ice_pwd := v\<rparr>)"
    and "media_step L (''a=candidate:'' @ v) m = Some (m\<lparr>md_candidates := md_candidates m @ [''candidate:'' @ v]\<rparr>)"
    and "media_step L (''a=setup:'' @ setup_role_str r) m = Some (m\<lparr>md_setup := Some r\<rparr>)"
    and "media_step L (''a=sctp-port:'' @ show_word p) m = Some (m\<lparr>md_sctp_port := Some p\<rparr>)"
    and "media_step L (''a=max-message-size:'' @ show_word z) m = Some (m\<lparr>md_max_message_size := Some z\<rparr>)"
    and "media_step L ''a=extmap-allow-mixed'' m = Some (m\<lparr>md_extmap_allow_mixed := True\<rparr>)"
    and "media_step L ''a=rtcp-mux'' m = Some (m\<lparr>md_rtcp_mux := True\<rparr>)"
    and "media_step L ''a=rtcp-mux-only'' m = Some (m\<lparr>md_rtcp_mux_only := True\<rparr>)"
    and "media_step L ''a=rtcp-rsize'' m = Some (m\<lparr>md_rtcp_rsize := True\<rparr>)"
    and "media_step L ''a=end-of-candidates'' m = Some (m\<lparr>md_end_of_candidates := True\<rparr>)"
    and "media_step L (''c='' @ v) m = Some m"
proof -
  note D = media_step_def apply_media_attr_def attr_of_def split_attr_def nonempty_def
  have d: "behind CHR '':'' (direction_str d) = None" by (simp add: behind_none)
  show "media_step L (''a='' @ direction_str d) m = Some (m\<lparr>md_direction := d\<rparr>)"
    using names_roundtrip(3) [OF assms, of d] by (cases d) (simp_all add: D)
  show "text_ok v \<Longrightarrow> media_step L (''a=mid:'' @ v) m = Some (m\<lparr>md_mid := v\<rparr>)"
    "text_ok v \<Longrightarrow> media_step L (''a=ice-ufrag:'' @ v) m = Some (m\<lparr>md_ice_ufrag := v\<rparr>)"
    "text_ok v \<Longrightarrow> media_step L (''a=ice-pwd:'' @ v) m = Some (m\<lparr>md_ice_pwd := v\<rparr>)"
    by (auto simp: D trim_text text_ok_def)
  show "media_step L (''a=candidate:'' @ v) m = Some (m\<lparr>md_candidates := md_candidates m @ [''candidate:'' @ v]\<rparr>)"
    "media_step L (''a=sctp-port:'' @ show_word p) m = Some (m\<lparr>md_sctp_port := Some p\<rparr>)"
    "media_step L (''a=max-message-size:'' @ show_word z) m = Some (m\<lparr>md_max_message_size := Some z\<rparr>)"
    "media_step L ''a=extmap-allow-mixed'' m = Some (m\<lparr>md_extmap_allow_mixed := True\<rparr>)"
    "media_step L ''a=rtcp-mux'' m = Some (m\<lparr>md_rtcp_mux := True\<rparr>)"
    "media_step L ''a=rtcp-mux-only'' m = Some (m\<lparr>md_rtcp_mux_only := True\<rparr>)"
    "media_step L ''a=rtcp-rsize'' m = Some (m\<lparr>md_rtcp_rsize := True\<rparr>)"
    "media_step L ''a=end-of-candidates'' m = Some (m\<lparr>md_end_of_candidates := True\<rparr>)"
    "media_step L (''c='' @ v) m = Some m"
    by (simp_all add: D parse_show_word)
  show "media_step L (''a=setup:'' @ setup_role_str r) m = Some (m\<lparr>md_setup := Some r\<rparr>)"
    using names_roundtrip(4) [OF assms, of r] by (simp add: D)
qed

lemma media_step_ice_options:
  assumes "os \<noteq> []" "list_all word_ok os"
  shows "media_step L (''a=ice-options:'' @ joined '' '' os) m = Some (m\<lparr>md_ice_options := md_ice_options m @ os\<rparr>)"
proof -
  obtain x xs where o': "os = x # xs" "word_ok x" "list_all word_ok xs" using assms by (cases os) auto
  then have j: "joined '' '' os = x @ spaced xs" using joined_spaced by blast
  show ?thesis
    using o' text_ok_words [OF o'(2,3)] split_whitespace_words [OF o'(2,3)] unfolding j
    by (auto simp: media_step_def apply_media_attr_def attr_of_def split_attr_def nonempty_def trim_text text_ok_def)
qed

lemma media_step_simulcast:
  assumes "simulcast_wf a" "simulcast_lines a = [l]"
  shows "media_step L l m = Some (m\<lparr>md_simulcast := a\<rparr>)"
proof -
  have ne: "sim_send_layers a \<noteq> [] \<or> sim_recv_layers a \<noteq> []"
    using assms(2) by (auto simp: simulcast_lines_def split: if_splits)
  then have "l = ''a=simulcast:'' @ (if sim_send_layers a \<noteq> [] then ''send '' @ simulcast_layers_str (sim_send_layers a) else [])
      @ (if sim_recv_layers a \<noteq> [] then '' recv '' @ simulcast_layers_str (sim_recv_layers a) else [])"
    using assms(2) by (auto simp: simulcast_lines_def)
  then show ?thesis
    using parse_simulcast_str(1) [OF assms(1) ne]
    by (simp add: media_step_def apply_media_attr_def attr_of_def split_attr_def)
qed

text \<open>A free attribute has a name of its own.\<close>

definition media_attr_names :: "string list" where
  "media_attr_names = [''rtpmap'', ''fmtp'', ''rtcp-fb'', ''extmap'', ''ssrc'', ''ssrc-group'', ''rtcp'', ''mid'',
     ''msid'', ''ice-ufrag'', ''ice-pwd'', ''ice-options'', ''candidate'', ''end-of-candidates'', ''fingerprint'',
     ''setup'', ''crypto'', ''rtcp-mux'', ''rtcp-mux-only'', ''rtcp-rsize'', ''extmap-allow-mixed'', ''sctp-port'',
     ''max-message-size'', ''simulcast'', ''rid'']"

definition attribute_wf :: "sdp_lib \<Rightarrow> string list \<Rightarrow> string \<times> string \<Rightarrow> bool" where
  "attribute_wf L names a \<longleftrightarrow> word_ok (fst a) \<and> CHR '':'' \<notin> set (fst a) \<and> fst a \<notin> set names
     \<and> parse_sdp_direction L (fst a) = None \<and> (snd a = [] \<or> end_ok (snd a))"

lemma attribute_line_attr:
  assumes "attribute_wf L names a"
  shows "attr_of (attribute_line a) = a" and "text_ok (attribute_line a)" and "hd (attribute_line a) = CHR ''a''"
proof -
  have n: "CHR '':'' \<notin> set (fst a)" "end_ok (fst a)" "CHR 0x0A \<notin> set (fst a)" "snd a = [] \<or> end_ok (snd a)"
    using assms by (auto simp: attribute_wf_def dest: word_ends)
  then show "attr_of (attribute_line a) = a"
    by (cases a) (simp add: attr_of_def attribute_line_def split_attr_def behind_none before_append behind_append)
  show "text_ok (attribute_line a)" using n by (cases a) (auto simp: attribute_line_def ends)
  show "hd (attribute_line a) = CHR ''a''" by (cases a) (simp add: attribute_line_def)
qed

lemma media_step_attribute:
  assumes "attribute_wf L media_attr_names a"
  shows "media_step L (attribute_line a) m = Some (m\<lparr>md_attributes := md_attributes m @ [a]\<rparr>)"
proof -
  have "fst a \<notin> set media_attr_names" "parse_sdp_direction L (fst a) = None"
    using assms by (simp_all add: attribute_wf_def)
  then show ?thesis
    using attribute_line_attr [OF assms]
    by (simp add: media_step_def apply_media_attr_def media_attr_names_def)
qed

section \<open>Codecs and feedback\<close>

text \<open>
  Two feedback entries clash when they name the same feedback for a common payload type. The list of a
  media section never holds a clash: \<open>add_feedback\<close> keeps it so.
\<close>

definition fb_clash :: "sdp_rtcp_fb \<Rightarrow> sdp_rtcp_fb \<Rightarrow> bool" where
  "fb_clash f g \<longleftrightarrow> fb_eq f g \<and>
     (fb_payload_type f = None \<or> fb_payload_type g = None \<or> fb_payload_type f = fb_payload_type g)"

definition fbs_ok :: "sdp_rtcp_fb list \<Rightarrow> bool" where
  "fbs_ok fbs \<longleftrightarrow> sorted_wrt (\<lambda>f g. \<not> fb_clash f g) fbs \<and> list_all (\<lambda>f. fb_type f \<noteq> []) fbs"

lemma add_feedback_new:
  assumes "fbs_ok (md_rtcp_fbs m @ [f])"
  shows "add_feedback f m = m\<lparr>md_rtcp_fbs := md_rtcp_fbs m @ [f]\<rparr>"
proof -
  have c: "\<not> fb_clash g f" if "g \<in> set (md_rtcp_fbs m)" for g
    using assms that by (simp add: fbs_ok_def sorted_wrt_append)
  have t: "fb_type f \<noteq> []" using assms by (simp add: fbs_ok_def)
  show ?thesis
  proof (cases "fb_payload_type f")
    case None
    then have "filter (\<lambda>g. \<not> fb_eq g f) (md_rtcp_fbs m) = md_rtcp_fbs m"
      using c by (auto simp: fb_clash_def filter_id_conv)
    then show ?thesis using t None by (simp add: add_feedback_def)
  next
    case (Some pt)
    then have "\<not> list_ex (\<lambda>g. fb_eq g f \<and> (case fb_payload_type g of None \<Rightarrow> True | Some p \<Rightarrow> p = pt)) (md_rtcp_fbs m)"
      using c by (fastforce simp: fb_clash_def list_ex_iff split: option.splits)
    then show ?thesis using t Some by (simp add: add_feedback_def)
  qed
qed

lemma fold_add_feedback:
  "fbs_ok (md_rtcp_fbs m @ fs) \<Longrightarrow> fold add_feedback fs m = m\<lparr>md_rtcp_fbs := md_rtcp_fbs m @ fs\<rparr>"
proof (induction fs arbitrary: m)
  case (Cons f fs)
  have "fbs_ok (md_rtcp_fbs m @ [f])"
    using Cons.prems by (auto simp: fbs_ok_def sorted_wrt_append)
  then show ?case using Cons.IH [of "m\<lparr>md_rtcp_fbs := md_rtcp_fbs m @ [f]\<rparr>"] Cons.prems by (simp add: add_feedback_new)
qed simp

definition fbs_of :: "sdp_rtcp_fb list \<Rightarrow> sdp_rtpmap list \<Rightarrow> sdp_rtcp_fb list" where
  "fbs_of fbs rs = concat (map (\<lambda>r. filter (\<lambda>f. fb_payload_type f = Some (rm_payload_type r)) fbs) rs)"

definition with_codecs :: "sdp_rtcp_fb list \<Rightarrow> sdp_rtpmap list \<Rightarrow> sdp_media \<Rightarrow> sdp_media" where
  "with_codecs fbs rs m = m\<lparr>md_formats := (if rs = [] then md_formats m else pt_formats (map rm_payload_type rs)),
     md_rtpmaps := rs, md_rtcp_fbs := fbs_of fbs rs\<rparr>"

lemma media_step_fmtp:
  assumes "rm_payload_type r \<notin> rm_payload_type ` set rs" "text_ok (rm_params r)" "md_rtpmaps m = rs @ [r\<lparr>rm_params := []\<rparr>]"
  shows "media_step L (''a=fmtp:'' @ show_word (rm_payload_type r) @ '' '' @ rm_params r) m
    = Some (m\<lparr>md_rtpmaps := rs @ [r]\<rparr>)"
proof -
  have set: "set_rtpmap_params (rm_payload_type r) (rm_params r) (rs @ [r\<lparr>rm_params := []\<rparr>]) = rs @ [r]"
    using assms(1) by (induction rs) (auto simp: image_iff)
  have "find_rtpmap m (rm_payload_type r) \<noteq> None"
    by (auto simp: find_rtpmap_def find_None_iff assms(3))
  then show ?thesis
    using assms(2,3) set by (auto simp: media_step_def attr_of_def split_attr_def apply_media_attr_def apply_fmtp_def
        before_append behind_append parse_show_word trim_text image_iff)
qed

lemma media_steps_codec:
  assumes "nceq_ok L" "regex_ok L" "rtpmap_wf r" "rm_payload_type r \<notin> rm_payload_type ` set rs"
    and "list_all rtcp_fb_wf fbs" "fbs_ok (fbs_of fbs (rs @ [r]))" "find_rtpmap m0 (rm_payload_type r) = Some r"
    and "md_rtcp_fbs m0 = fbs" "md_formats m = no_formats"
  shows "media_steps L (codec_lines m0 (rm_payload_type r)) (with_codecs fbs rs m) = Some (with_codecs fbs (rs @ [r]) m)"
proof -
  let ?fb = "filter (\<lambda>f. fb_payload_type f = Some (rm_payload_type r)) fbs"
  let ?m1 = "(with_codecs fbs rs m)\<lparr>md_rtpmaps := rs @ [r\<lparr>rm_params := []\<rparr>],
    md_formats := pt_formats (map rm_payload_type (rs @ [r]))\<rparr>"
  have fs: "fbs_of fbs (rs @ [r]) = fbs_of fbs rs @ ?fb" by (simp add: fbs_of_def)
  have "find_rtpmap (with_codecs fbs rs m) (rm_payload_type r) = None"
    using assms(4) by (auto simp: find_rtpmap_def find_None_iff with_codecs_def image_iff)
  then have "add_rtpmap (r\<lparr>rm_params := []\<rparr>) (with_codecs fbs rs m) = ?m1"
    using assms(9) by (cases "rs = []") (simp_all add: add_rtpmap_def with_codecs_def)
  then have 1: "media_step L (rtpmap_line r) (with_codecs fbs rs m) = Some ?m1"
    using rtpmap_line_parse [OF assms(3)] by (simp add: media_step_def apply_media_attr_def) (simp add: rtpmap_line_def)
  have 2: "media_steps L (if rm_params r \<noteq> [] then [''a=fmtp:'' @ show_word (rm_payload_type r) @ '' '' @ rm_params r] else []) ?m1
      = Some (?m1\<lparr>md_rtpmaps := rs @ [r]\<rparr>)"
    using assms(3) media_step_fmtp [OF assms(4), of ?m1 L] by (cases r) (auto simp: rtpmap_wf_def)
  have "media_steps L (map rtcp_fb_line ?fb) (?m1\<lparr>md_rtpmaps := rs @ [r]\<rparr>)
      = Some (fold add_feedback ?fb (?m1\<lparr>md_rtpmaps := rs @ [r]\<rparr>))"
    using media_step_lists(9) [OF assms(1,2)] assms(5) by (intro media_steps_map) (auto simp: list_all_iff)
  also have "fold add_feedback ?fb (?m1\<lparr>md_rtpmaps := rs @ [r]\<rparr>) = with_codecs fbs (rs @ [r]) m"
    using assms(6) fs by (subst fold_add_feedback) (simp_all add: with_codecs_def)
  finally show ?thesis
    using 1 2 assms(7,8) by (simp add: codec_lines_def media_steps_append)
qed

lemma fbs_ok_prefix: "fbs_ok (xs @ ys) \<Longrightarrow> fbs_ok xs"
  by (auto simp: fbs_ok_def sorted_wrt_append)

lemma media_steps_codecs:
  assumes "nceq_ok L" "regex_ok L" "list_all rtpmap_wf rs'" "distinct (map rm_payload_type (rs @ rs'))"
    and "list_all rtcp_fb_wf fbs" "fbs_ok (fbs_of fbs (rs @ rs'))"
    and "\<And>r. r \<in> set rs' \<Longrightarrow> find_rtpmap m0 (rm_payload_type r) = Some r"
    and "md_rtcp_fbs m0 = fbs" "md_formats m = no_formats"
  shows "media_steps L (concat (map (codec_lines m0) (map rm_payload_type rs'))) (with_codecs fbs rs m)
    = Some (with_codecs fbs (rs @ rs') m)"
  using assms(3,4,6,7)
proof (induction rs' arbitrary: rs)
  case (Cons r rs')
  have "fbs_ok (fbs_of fbs (rs @ [r]))"
  proof (rule fbs_ok_prefix)
    show "fbs_ok (fbs_of fbs (rs @ [r]) @ fbs_of fbs rs')" using Cons.prems(3) by (simp only: fbs_of_def map_append concat_append list.map concat.simps append_assoc append_Nil append_Nil2 append_Cons)
  qed
  moreover have "rm_payload_type r \<notin> rm_payload_type ` set rs" using Cons.prems(2) by auto
  moreover have "rtpmap_wf r" "find_rtpmap m0 (rm_payload_type r) = Some r"
    using Cons.prems(1) by simp (rule Cons.prems(4), simp)
  ultimately have "media_steps L (codec_lines m0 (rm_payload_type r)) (with_codecs fbs rs m) = Some (with_codecs fbs (rs @ [r]) m)"
    using assms by (intro media_steps_codec)
  moreover have "media_steps L (concat (map (codec_lines m0) (map rm_payload_type rs'))) (with_codecs fbs (rs @ [r]) m)
      = Some (with_codecs fbs ((rs @ [r]) @ rs') m)"
  proof (rule Cons.IH)
    show "list_all rtpmap_wf rs'" using Cons.prems(1) by simp
    show "distinct (map rm_payload_type ((rs @ [r]) @ rs'))" using Cons.prems(2) by simp
    show "fbs_ok (fbs_of fbs ((rs @ [r]) @ rs'))" using Cons.prems(3) by simp
    show "find_rtpmap m0 (rm_payload_type x) = Some x" if "x \<in> set rs'" for x using that by (intro Cons.prems(4)) simp
  qed
  ultimately show ?case by (simp add: media_steps_append)
qed simp

lemma find_distinct: "distinct (map f xs) \<Longrightarrow> x \<in> set xs \<Longrightarrow> find (\<lambda>y. f y = f x) xs = Some x"
  by (induction xs) (auto simp: image_iff)

section \<open>A media section\<close>

text \<open>
  A media section the printer can write: texts free of the separators of their lines, codecs with
  distinct payload types listed in the formats, feedback in the order it is printed and without
  clashes, one track for all streams.
\<close>

definition media_formats_wf :: "sdp_media \<Rightarrow> bool" where
  "media_formats_wf m \<longleftrightarrow>
     (case md_formats m of
        no_formats \<Rightarrow> md_rtpmaps m = []
      | pt_formats pts \<Rightarrow> md_rtpmaps m \<noteq> [] \<and> pts = map rm_payload_type (md_rtpmaps m)
      | str_formats fs \<Rightarrow> md_rtpmaps m = [] \<and> md_media_type m = mt_application \<and> fs \<noteq> [] \<and> list_all word_ok fs)
     \<and> (md_media_type m = mt_application \<longrightarrow> md_rtpmaps m = [])"

definition media_codecs_wf :: "sdp_media \<Rightarrow> bool" where
  "media_codecs_wf m \<longleftrightarrow>
     distinct (map rm_payload_type (md_rtpmaps m)) \<and> list_all rtpmap_wf (md_rtpmaps m) \<and>
     list_all rtcp_fb_wf (md_rtcp_fbs m) \<and> fbs_ok (md_rtcp_fbs m) \<and>
     md_rtcp_fbs m = fbs_of (md_rtcp_fbs m) (md_rtpmaps m) @ filter (\<lambda>f. fb_payload_type f = None) (md_rtcp_fbs m)"

definition candidate_wf :: "string \<Rightarrow> bool" where
  "candidate_wf c \<longleftrightarrow> take 10 c = ''candidate:'' \<and> end_ok (drop 10 c)"

definition conn_wf :: "string \<times> string \<times> string \<Rightarrow> bool" where
  "conn_wf c \<longleftrightarrow> (case c of (n, t, a) \<Rightarrow> n = [] \<or> CHR 0x0A \<notin> set n \<and> CHR 0x0A \<notin> set t \<and> end_ok a)"

definition sdp_media_wf :: "sdp_lib \<Rightarrow> sdp_media \<Rightarrow> bool" where
  "sdp_media_wf L m \<longleftrightarrow>
     media_formats_wf m \<and> media_codecs_wf m \<and> conn_wf (md_conn m) \<and> check_msid m \<and>
     list_all (\<lambda>v. v = [] \<or> text_ok v) [md_mid m, md_ice_ufrag m, md_ice_pwd m] \<and>
     list_all msid_wf (md_msids m) \<and> list_all word_ok (md_ice_options m) \<and>
     list_all candidate_wf (md_candidates m) \<and> list_all fingerprint_wf (md_fingerprints m) \<and>
     pred_option rtcp_wf (md_rtcp m) \<and> list_all extmap_wf (md_extmaps m) \<and>
     list_all ssrc_wf (md_ssrcs m) \<and> list_all ssrc_group_wf (md_ssrc_groups m) \<and>
     list_all crypto_wf (md_cryptos m) \<and> simulcast_wf (md_simulcast m) \<and> list_all rid_wf (md_rids m) \<and>
     list_all (attribute_wf L media_attr_names) (md_attributes m)"

lemma opt_line_steps:
  assumes "v = [] \<or> text_ok v" "text_ok v \<Longrightarrow> media_step L (p @ v) m = Some (upd v m)" "v = [] \<Longrightarrow> upd v m = m"
  shows "media_steps L (opt_line p v) m = Some (upd v m)"
  using assms by (auto simp: opt_line_def text_ok_def)

lemma flag_line_steps:
  assumes "media_step L l m = Some (upd True m)" "upd False m = m"
  shows "media_steps L (flag_line l b) m = Some (upd b m)"
  using assms by (cases b) (auto simp: flag_line_def)

text \<open>The section that the media line alone gives.\<close>

definition media_of_line :: "sdp_media \<Rightarrow> sdp_media" where
  "media_of_line m = (sdp_media_default (md_media_type m))\<lparr>md_port := md_port m, md_proto := md_proto m,
     md_formats := (case md_formats m of str_formats fs \<Rightarrow> str_formats fs | _ \<Rightarrow> no_formats)\<rparr>"

lemma fold_add_format: "fold add_format fs (m\<lparr>md_formats := str_formats xs\<rparr>) = m\<lparr>md_formats := str_formats (xs @ fs)\<rparr>"
  by (induction fs arbitrary: xs) (simp_all add: add_format_def)

lemma parse_media_format_line:
  assumes "nceq_ok L" "media_formats_wf m"
  shows "parse_media_line L (drop 2 (media_format_line m)) = Some (media_of_line m)"
    and "text_ok (media_format_line m)"
proof -
  define fs where "fs = (if payload_types m \<noteq> [] then map show_word (payload_types m) else formats m)"
  have fs: "list_all word_ok fs"
    using assms(2) by (auto simp: fs_def media_formats_wf_def formats_def list_all_iff split: sdp_formats.splits)
  have line: "media_format_line m = ''m='' @ media_type_str (md_media_type m)
      @ spaced (show_word (md_port m) # proto_str (md_proto m) # fs)"
    by (simp add: media_format_line_def fs_def spaced_def)
  have ws: "list_all word_ok (show_word (md_port m) # proto_str (md_proto m) # fs)" using fs by simp
  have words: "stream_words (drop 2 (media_format_line m))
      = media_type_str (md_media_type m) # show_word (md_port m) # proto_str (md_proto m) # fs"
    using stream_words_words [OF _ ws, of "media_type_str (md_media_type m)"] by (simp add: line)
  have "parse_media_port (show_word (md_port m)) = Some (md_port m)"
    by (simp add: parse_media_port_def behind_none parse_show_word)
  moreover have "(if md_media_type m = mt_application
      then fold add_format fs ((sdp_media_default (md_media_type m))\<lparr>md_port := md_port m, md_proto := md_proto m\<rparr>)
      else (sdp_media_default (md_media_type m))\<lparr>md_port := md_port m, md_proto := md_proto m\<rparr>) = media_of_line m"
  proof (cases fs)
    case Nil
    then show ?thesis using assms(2)
      by (auto simp: fs_def media_formats_wf_def formats_def payload_types_def media_of_line_def sdp_media_default_def
          split: sdp_formats.splits if_splits)
  next
    case (Cons x xs)
    then show ?thesis using assms(2) fold_add_format [where fs = xs and xs = "[x]"
          and m = "(sdp_media_default (md_media_type m))\<lparr>md_port := md_port m, md_proto := md_proto m\<rparr>"]
      by (auto simp: fs_def media_formats_wf_def formats_def payload_types_def media_of_line_def sdp_media_default_def
          add_format_def split: sdp_formats.splits if_splits)
  qed
  ultimately show "parse_media_line L (drop 2 (media_format_line m)) = Some (media_of_line m)"
    using names_roundtrip(1,2) [OF assms(1)] by (simp add: parse_media_line_def words)
  show "text_ok (media_format_line m)"
    using text_ok_end [OF text_ok_words [OF names_word_ok(1) ws]] by (simp add: line ends)
qed

text \<open>The groups of lines of a section, applied to any section.\<close>

lemma simulcast_empty:
  "sim_send_layers a = [] \<Longrightarrow> sim_recv_layers a = [] \<Longrightarrow> a = \<lparr>sim_send_layers = [], sim_recv_layers = []\<rparr>"
  by (cases a) simp

lemma media_group_steps:
  assumes "nceq_ok L" "regex_ok L" "sdp_media_wf L m"
  shows "media_steps L (conn_line (md_conn m)) x = Some x"
    and "media_steps L (opt_line ''a=mid:'' (md_mid m)) x = Some (if md_mid m = [] then x else x\<lparr>md_mid := md_mid m\<rparr>)"
    and "media_steps L (opt_line ''a=ice-ufrag:'' (md_ice_ufrag m)) x
      = Some (if md_ice_ufrag m = [] then x else x\<lparr>md_ice_ufrag := md_ice_ufrag m\<rparr>)"
    and "media_steps L (opt_line ''a=ice-pwd:'' (md_ice_pwd m)) x
      = Some (if md_ice_pwd m = [] then x else x\<lparr>md_ice_pwd := md_ice_pwd m\<rparr>)"
    and "media_steps L (map msid_line (md_msids m)) x = Some (x\<lparr>md_msids := md_msids x @ md_msids m\<rparr>)"
    and "media_steps L (ice_options_line (md_ice_options m)) x
      = Some (x\<lparr>md_ice_options := md_ice_options x @ md_ice_options m\<rparr>)"
    and "media_steps L (map (\<lambda>c. ''a='' @ c) (md_candidates m)) x
      = Some (x\<lparr>md_candidates := md_candidates x @ md_candidates m\<rparr>)"
    and "media_steps L (map fingerprint_line (md_fingerprints m)) x
      = Some (x\<lparr>md_fingerprints := md_fingerprints x @ md_fingerprints m\<rparr>)"
    and "media_steps L (map extmap_line (md_extmaps m)) x = Some (x\<lparr>md_extmaps := md_extmaps x @ md_extmaps m\<rparr>)"
    and "media_steps L (map ssrc_line (md_ssrcs m)) x = Some (x\<lparr>md_ssrcs := md_ssrcs x @ md_ssrcs m\<rparr>)"
    and "media_steps L (map ssrc_group_line (md_ssrc_groups m)) x
      = Some (x\<lparr>md_ssrc_groups := md_ssrc_groups x @ md_ssrc_groups m\<rparr>)"
    and "media_steps L (map crypto_line (md_cryptos m)) x = Some (x\<lparr>md_cryptos := md_cryptos x @ md_cryptos m\<rparr>)"
    and "media_steps L (map rid_line (md_rids m)) x = Some (x\<lparr>md_rids := md_rids x @ md_rids m\<rparr>)"
    and "media_steps L (map attribute_line (md_attributes m)) x
      = Some (x\<lparr>md_attributes := md_attributes x @ md_attributes m\<rparr>)"
    and "media_steps L (simulcast_lines (md_simulcast m)) x
      = Some (if md_simulcast m = \<lparr>sim_send_layers = [], sim_recv_layers = []\<rparr> then x else x\<lparr>md_simulcast := md_simulcast m\<rparr>)"
proof -
  note L = media_step_lists [OF assms(1,2)] and V = media_step_values [OF assms(1)]
  note wf = assms(3) [unfolded sdp_media_wf_def]
  note F = fold_media_append
  show "media_steps L (conn_line (md_conn m)) x = Some x"
    by (cases "md_conn m") (simp add: conn_line_def V(14) [simplified])
  show "media_steps L (opt_line ''a=mid:'' (md_mid m)) x = Some (if md_mid m = [] then x else x\<lparr>md_mid := md_mid m\<rparr>)"
    "media_steps L (opt_line ''a=ice-ufrag:'' (md_ice_ufrag m)) x
      = Some (if md_ice_ufrag m = [] then x else x\<lparr>md_ice_ufrag := md_ice_ufrag m\<rparr>)"
    "media_steps L (opt_line ''a=ice-pwd:'' (md_ice_pwd m)) x
      = Some (if md_ice_pwd m = [] then x else x\<lparr>md_ice_pwd := md_ice_pwd m\<rparr>)"
    using wf V(2-4) by (auto simp: opt_line_def)
  show "media_steps L (map msid_line (md_msids m)) x = Some (x\<lparr>md_msids := md_msids x @ md_msids m\<rparr>)"
    using wf L(1) by (subst F(1) [symmetric]) (intro media_steps_map, auto simp: list_all_iff)
  show "media_steps L (ice_options_line (md_ice_options m)) x
      = Some (x\<lparr>md_ice_options := md_ice_options x @ md_ice_options m\<rparr>)"
    using wf media_step_ice_options [of "md_ice_options m" L x] by (auto simp: ice_options_line_def)
  have "media_step L (''a='' @ c) y = Some (y\<lparr>md_candidates := md_candidates y @ [c]\<rparr>)" if "candidate_wf c" for c y
  proof -
    have "c = ''candidate:'' @ drop 10 c" using that append_take_drop_id [of 10 c] by (simp add: candidate_wf_def)
    then obtain v where "c = ''candidate:'' @ v" by blast
    then show ?thesis using V(5) [of v y] by simp
  qed
  then show "media_steps L (map (\<lambda>c. ''a='' @ c) (md_candidates m)) x
      = Some (x\<lparr>md_candidates := md_candidates x @ md_candidates m\<rparr>)"
    using wf by (subst F(2) [symmetric]) (intro media_steps_map, auto simp: list_all_iff)
  show "media_steps L (map fingerprint_line (md_fingerprints m)) x
      = Some (x\<lparr>md_fingerprints := md_fingerprints x @ md_fingerprints m\<rparr>)"
    using wf L(2) by (subst F(3) [symmetric]) (intro media_steps_map, auto simp: list_all_iff)
  show "media_steps L (map extmap_line (md_extmaps m)) x = Some (x\<lparr>md_extmaps := md_extmaps x @ md_extmaps m\<rparr>)"
    using wf L(3) by (subst F(4) [symmetric]) (intro media_steps_map, auto simp: list_all_iff)
  show "media_steps L (map ssrc_line (md_ssrcs m)) x = Some (x\<lparr>md_ssrcs := md_ssrcs x @ md_ssrcs m\<rparr>)"
    using wf L(4) by (subst F(5) [symmetric]) (intro media_steps_map, auto simp: list_all_iff)
  show "media_steps L (map ssrc_group_line (md_ssrc_groups m)) x
      = Some (x\<lparr>md_ssrc_groups := md_ssrc_groups x @ md_ssrc_groups m\<rparr>)"
    using wf L(5) by (subst F(6) [symmetric]) (intro media_steps_map, auto simp: list_all_iff)
  show "media_steps L (map crypto_line (md_cryptos m)) x = Some (x\<lparr>md_cryptos := md_cryptos x @ md_cryptos m\<rparr>)"
    using wf L(6) by (subst F(7) [symmetric]) (intro media_steps_map, auto simp: list_all_iff)
  show "media_steps L (map rid_line (md_rids m)) x = Some (x\<lparr>md_rids := md_rids x @ md_rids m\<rparr>)"
    using wf L(7) by (subst F(8) [symmetric]) (intro media_steps_map, auto simp: list_all_iff)
  show "media_steps L (map attribute_line (md_attributes m)) x
      = Some (x\<lparr>md_attributes := md_attributes x @ md_attributes m\<rparr>)"
    using wf media_step_attribute by (subst F(9) [symmetric]) (intro media_steps_map, auto simp: list_all_iff)
  show "media_steps L (simulcast_lines (md_simulcast m)) x
      = Some (if md_simulcast m = \<lparr>sim_send_layers = [], sim_recv_layers = []\<rparr> then x else x\<lparr>md_simulcast := md_simulcast m\<rparr>)"
  proof (cases "simulcast_lines (md_simulcast m)")
    case Nil
    then have "md_simulcast m = \<lparr>sim_send_layers = [], sim_recv_layers = []\<rparr>"
      using simulcast_empty by (metis list.distinct(1) simulcast_lines_def)
    then show ?thesis using Nil by (simp only: media_steps.simps if_True simp_thms)
  next
    case (Cons l ls)
    then have "simulcast_lines (md_simulcast m) = [l]" "md_simulcast m \<noteq> \<lparr>sim_send_layers = [], sim_recv_layers = []\<rparr>"
      by (auto simp: simulcast_lines_def split: if_splits)
    moreover have "simulcast_wf (md_simulcast m)" using wf by blast
    ultimately have "media_step L l x = Some (x\<lparr>md_simulcast := md_simulcast m\<rparr>)"
      using media_step_simulcast by blast
    then show ?thesis using \<open>simulcast_lines (md_simulcast m) = [l]\<close>
        \<open>md_simulcast m \<noteq> \<lparr>sim_send_layers = [], sim_recv_layers = []\<rparr>\<close> by (simp only: media_steps.simps bind.bind_lunit if_False)
  qed
qed

end
