(* ===== verification/SdpRoundSession.thy ===== *)
theory SdpRoundSession
  imports SdpRoundMedia
begin

text \<open>
  The round trip of a whole session description, and the properties of the parser and the printer.
\<close>

section \<open>A media section\<close>

definition clear_media_conn :: "sdp_media \<Rightarrow> sdp_media" where
  "clear_media_conn m = m\<lparr>md_conn := ([], [], [])\<rparr>"

lemma media_codec_steps:
  assumes "nceq_ok L" "regex_ok L" "sdp_media_wf L m"
    and "md_formats x = md_formats (media_of_line m)" "md_rtpmaps x = []" "md_rtcp_fbs x = []"
  shows "media_steps L (concat (map (codec_lines m) (payload_types m))
      @ map rtcp_fb_line (filter (\<lambda>f. fb_payload_type f = None) (md_rtcp_fbs m))) x
    = Some (x\<lparr>md_formats := md_formats m, md_rtpmaps := md_rtpmaps m, md_rtcp_fbs := md_rtcp_fbs m\<rparr>)"
proof -
  let ?fbs = "md_rtcp_fbs m" and ?rs = "md_rtpmaps m"
  let ?wild = "filter (\<lambda>f. fb_payload_type f = None) ?fbs"
  have cw: "media_codecs_wf m" and fw: "media_formats_wf m" using assms(3) unfolding sdp_media_wf_def by blast+
  have d: "distinct (map rm_payload_type ?rs)" "list_all rtpmap_wf ?rs" "list_all rtcp_fb_wf ?fbs" "fbs_ok ?fbs"
    and fbs: "?fbs = fbs_of ?fbs ?rs @ ?wild"
    using cw unfolding media_codecs_wf_def by blast+
  have pts: "payload_types m = map rm_payload_type ?rs"
    using fw by (auto simp: media_formats_wf_def payload_types_def split: sdp_formats.splits)
  have ok: "fbs_ok (fbs_of ?fbs ?rs)" using d(4) fbs fbs_ok_prefix by metis
  have codecs: "media_steps L (concat (map (codec_lines m) (payload_types m))) x = Some (with_codecs ?fbs ?rs x)"
  proof (cases "?rs = []")
    case True
    then show ?thesis using assms(5,6) by (cases x) (simp add: pts with_codecs_def fbs_of_def)
  next
    case False
    have "md_formats x = no_formats"
      using False assms(4) fw by (auto simp: media_of_line_def media_formats_wf_def split: sdp_formats.splits)
    moreover have "find_rtpmap m (rm_payload_type r) = Some r" if "r \<in> set ?rs" for r
      using find_distinct [OF d(1) that] by (simp add: find_rtpmap_def)
    ultimately have "media_steps L (concat (map (codec_lines m) (map rm_payload_type ?rs))) (with_codecs ?fbs [] x)
        = Some (with_codecs ?fbs ([] @ ?rs) x)"
      using d ok by (intro media_steps_codecs [OF assms(1,2)]) auto
    moreover have "with_codecs ?fbs [] x = x"
      using assms(5,6) by (cases x) (simp add: with_codecs_def fbs_of_def)
    ultimately show ?thesis by (simp add: pts)
  qed
  have "media_steps L (map rtcp_fb_line ?wild) (with_codecs ?fbs ?rs x) = Some (fold add_feedback ?wild (with_codecs ?fbs ?rs x))"
    using d(3) by (intro media_steps_map media_step_lists(9) [OF assms(1,2)]) (auto simp: list_all_iff)
  also have "fold add_feedback ?wild (with_codecs ?fbs ?rs x) = (with_codecs ?fbs ?rs x)\<lparr>md_rtcp_fbs := ?fbs\<rparr>"
    using d(4) fbs by (subst fold_add_feedback) (simp_all add: with_codecs_def)
  also have "\<dots> = x\<lparr>md_formats := md_formats m, md_rtpmaps := ?rs, md_rtcp_fbs := ?fbs\<rparr>"
  proof -
    have "(if ?rs = [] then md_formats x else pt_formats (map rm_payload_type ?rs)) = md_formats m"
      using assms(4) fw by (auto simp: media_of_line_def media_formats_wf_def split: sdp_formats.splits)
    then show ?thesis by (simp add: with_codecs_def)
  qed
  finally show ?thesis by (simp add: media_steps_append codecs)
qed

text \<open>The value a group of lines leaves in a field: the printed value unless it is the default.\<close>

definition keep :: "'a \<Rightarrow> 'a \<Rightarrow> 'a \<Rightarrow> 'a" where
  "keep d v old = (if v = d then old else v)"

lemma keep_default: "keep d v d = v"
  by (simp add: keep_def)

lemma media_roundtrip_steps:
  assumes "nceq_ok L" "regex_ok L" "sdp_media_wf L m"
  shows "media_steps L (tl (sdp_media_lines m)) (media_of_line m) = Some (clear_media_conn m)"
proof -
  note G0 = media_group_steps [OF assms]
  note V = media_step_values [OF assms(1)] media_step_lists(8) [OF assms(1,2)]
  have id: "x\<lparr>md_mid := md_mid x\<rparr> = x" "x\<lparr>md_ice_ufrag := md_ice_ufrag x\<rparr> = x" "x\<lparr>md_ice_pwd := md_ice_pwd x\<rparr> = x"
    "x\<lparr>md_simulcast := md_simulcast x\<rparr> = x" "x\<lparr>md_setup := md_setup x\<rparr> = x" "x\<lparr>md_rtcp := md_rtcp x\<rparr> = x"
    "x\<lparr>md_sctp_port := md_sctp_port x\<rparr> = x" "x\<lparr>md_max_message_size := md_max_message_size x\<rparr> = x"
    "x\<lparr>md_extmap_allow_mixed := md_extmap_allow_mixed x\<rparr> = x" "x\<lparr>md_rtcp_mux := md_rtcp_mux x\<rparr> = x"
    "x\<lparr>md_rtcp_mux_only := md_rtcp_mux_only x\<rparr> = x" "x\<lparr>md_rtcp_rsize := md_rtcp_rsize x\<rparr> = x"
    "x\<lparr>md_end_of_candidates := md_end_of_candidates x\<rparr> = x" for x :: sdp_media
    by simp_all
  have G2: "media_steps L (opt_line ''a=mid:'' (md_mid m)) x = Some (x\<lparr>md_mid := keep [] (md_mid m) (md_mid x)\<rparr>)"
    "media_steps L (opt_line ''a=ice-ufrag:'' (md_ice_ufrag m)) x
      = Some (x\<lparr>md_ice_ufrag := keep [] (md_ice_ufrag m) (md_ice_ufrag x)\<rparr>)"
    "media_steps L (opt_line ''a=ice-pwd:'' (md_ice_pwd m)) x
      = Some (x\<lparr>md_ice_pwd := keep [] (md_ice_pwd m) (md_ice_pwd x)\<rparr>)"
    "media_steps L (simulcast_lines (md_simulcast m)) x
      = Some (x\<lparr>md_simulcast := keep \<lparr>sim_send_layers = [], sim_recv_layers = []\<rparr> (md_simulcast m) (md_simulcast x)\<rparr>)" for x
    unfolding G0(2-4,15) keep_def by (simp_all only: id if_True if_False split: if_split) blast+
  note G = G0(1,5-14) G2
  have r: "media_steps L (case md_setup m of None \<Rightarrow> [] | Some r \<Rightarrow> [''a=setup:'' @ setup_role_str r]) x
      = Some (x\<lparr>md_setup := keep None (md_setup m) (md_setup x)\<rparr>)"
    "media_steps L (case md_rtcp m of None \<Rightarrow> [] | Some r \<Rightarrow> [rtcp_line r]) x
      = Some (x\<lparr>md_rtcp := keep None (md_rtcp m) (md_rtcp x)\<rparr>)"
    "media_steps L (case md_sctp_port m of None \<Rightarrow> [] | Some p \<Rightarrow> [''a=sctp-port:'' @ show_word p]) x
      = Some (x\<lparr>md_sctp_port := keep None (md_sctp_port m) (md_sctp_port x)\<rparr>)"
    "media_steps L (case md_max_message_size m of None \<Rightarrow> [] | Some p \<Rightarrow> [''a=max-message-size:'' @ show_word p]) x
      = Some (x\<lparr>md_max_message_size := keep None (md_max_message_size m) (md_max_message_size x)\<rparr>)"
    "media_steps L [''a='' @ direction_str (md_direction m)] x = Some (x\<lparr>md_direction := md_direction m\<rparr>)" for x
  proof -
    have w: "pred_option rtcp_wf (md_rtcp m)" using assms(3) unfolding sdp_media_wf_def by blast
    show "media_steps L (case md_setup m of None \<Rightarrow> [] | Some r \<Rightarrow> [''a=setup:'' @ setup_role_str r]) x
      = Some (x\<lparr>md_setup := keep None (md_setup m) (md_setup x)\<rparr>)"
      by (cases "md_setup m") (simp_all only: media_steps.simps V(6) bind.bind_lunit option.case id keep_def if_True if_False option.distinct option.simps simp_thms)
    show "media_steps L (case md_rtcp m of None \<Rightarrow> [] | Some r \<Rightarrow> [rtcp_line r]) x
      = Some (x\<lparr>md_rtcp := keep None (md_rtcp m) (md_rtcp x)\<rparr>)"
      using w V(15) by (cases "md_rtcp m") (simp_all add: id keep_def)
    show "media_steps L (case md_sctp_port m of None \<Rightarrow> [] | Some p \<Rightarrow> [''a=sctp-port:'' @ show_word p]) x
      = Some (x\<lparr>md_sctp_port := keep None (md_sctp_port m) (md_sctp_port x)\<rparr>)"
      by (cases "md_sctp_port m") (simp_all only: media_steps.simps V(7) bind.bind_lunit option.case id keep_def if_True if_False option.distinct option.simps simp_thms)
    show "media_steps L (case md_max_message_size m of None \<Rightarrow> [] | Some p \<Rightarrow> [''a=max-message-size:'' @ show_word p]) x
      = Some (x\<lparr>md_max_message_size := keep None (md_max_message_size m) (md_max_message_size x)\<rparr>)"
      by (cases "md_max_message_size m") (simp_all only: media_steps.simps V(8) bind.bind_lunit option.case id keep_def if_True if_False option.distinct option.simps simp_thms)
    show "media_steps L [''a='' @ direction_str (md_direction m)] x = Some (x\<lparr>md_direction := md_direction m\<rparr>)"
      by (simp only: media_steps.simps V(1) bind.bind_lunit)
  qed
  have f: "media_steps L (flag_line ''a=extmap-allow-mixed'' b) x = Some (x\<lparr>md_extmap_allow_mixed := b \<or> md_extmap_allow_mixed x\<rparr>)"
    "media_steps L (flag_line ''a=rtcp-mux'' b) x = Some (x\<lparr>md_rtcp_mux := b \<or> md_rtcp_mux x\<rparr>)"
    "media_steps L (flag_line ''a=rtcp-mux-only'' b) x = Some (x\<lparr>md_rtcp_mux_only := b \<or> md_rtcp_mux_only x\<rparr>)"
    "media_steps L (flag_line ''a=rtcp-rsize'' b) x = Some (x\<lparr>md_rtcp_rsize := b \<or> md_rtcp_rsize x\<rparr>)"
    "media_steps L (flag_line ''a=end-of-candidates'' b) x = Some (x\<lparr>md_end_of_candidates := b \<or> md_end_of_candidates x\<rparr>)" for b x
    using V(9-13) by (cases b; simp add: flag_line_def id)+
  define cands where "cands = map (\<lambda>c. ''a='' @ c) (md_candidates m)"
  define dir where "dir = [''a='' @ direction_str (md_direction m)]"
  have od: "media_steps L cands x = Some (x\<lparr>md_candidates := md_candidates x @ md_candidates m\<rparr>)"
    "media_steps L dir x = Some (x\<lparr>md_direction := md_direction m\<rparr>)" for x
    unfolding cands_def dir_def by (rule G r)+
  define pre where "pre = conn_line (md_conn m) @ dir
     @ opt_line ''a=mid:'' (md_mid m) @ map msid_line (md_msids m) @ opt_line ''a=ice-ufrag:'' (md_ice_ufrag m)
     @ opt_line ''a=ice-pwd:'' (md_ice_pwd m) @ ice_options_line (md_ice_options m)
     @ cands @ map fingerprint_line (md_fingerprints m)
     @ (case md_setup m of None \<Rightarrow> [] | Some r \<Rightarrow> [''a=setup:'' @ setup_role_str r])
     @ flag_line ''a=extmap-allow-mixed'' (md_extmap_allow_mixed m) @ flag_line ''a=rtcp-mux'' (md_rtcp_mux m)
     @ flag_line ''a=rtcp-mux-only'' (md_rtcp_mux_only m) @ flag_line ''a=rtcp-rsize'' (md_rtcp_rsize m)
     @ (case md_rtcp m of None \<Rightarrow> [] | Some r \<Rightarrow> [rtcp_line r]) @ map extmap_line (md_extmaps m)"
  define post where "post = map ssrc_line (md_ssrcs m) @ map ssrc_group_line (md_ssrc_groups m)
     @ map crypto_line (md_cryptos m)
     @ (case md_sctp_port m of None \<Rightarrow> [] | Some p \<Rightarrow> [''a=sctp-port:'' @ show_word p])
     @ (case md_max_message_size m of None \<Rightarrow> [] | Some z \<Rightarrow> [''a=max-message-size:'' @ show_word z])
     @ simulcast_lines (md_simulcast m) @ map rid_line (md_rids m)
     @ flag_line ''a=end-of-candidates'' (md_end_of_candidates m) @ map attribute_line (md_attributes m)"
  define mids where "mids = concat (map (codec_lines m) (payload_types m))
      @ map rtcp_fb_line (filter (\<lambda>f. fb_payload_type f = None) (md_rtcp_fbs m))"
  have tl: "tl (sdp_media_lines m) = pre @ mids @ post"
    by (simp add: sdp_media_lines_def pre_def mids_def post_def cands_def dir_def)
  let ?x = "media_of_line m"
  define x1 where "x1 = ?x\<lparr>md_mid := md_mid m, md_direction := md_direction m, md_extmaps := md_extmaps m,
    md_candidates := md_candidates m, md_fingerprints := md_fingerprints m, md_setup := md_setup m,
    md_ice_ufrag := md_ice_ufrag m, md_ice_pwd := md_ice_pwd m, md_ice_options := md_ice_options m,
    md_rtcp_mux := md_rtcp_mux m, md_rtcp_mux_only := md_rtcp_mux_only m, md_rtcp_rsize := md_rtcp_rsize m,
    md_rtcp := md_rtcp m, md_msids := md_msids m, md_extmap_allow_mixed := md_extmap_allow_mixed m\<rparr>"
  have pre: "media_steps L pre ?x = Some x1"
    by (simp add: pre_def media_steps_append G r f od media_of_line_def sdp_media_default_def x1_def keep_default)
  define x2 where "x2 = x1\<lparr>md_formats := md_formats m, md_rtpmaps := md_rtpmaps m, md_rtcp_fbs := md_rtcp_fbs m\<rparr>"
  have mid: "media_steps L mids x1 = Some x2"
    unfolding x2_def mids_def by (rule media_codec_steps [OF assms]) (simp_all add: x1_def media_of_line_def sdp_media_default_def)
  have post: "media_steps L post x2 = Some (clear_media_conn m)"
    by (simp add: post_def media_steps_append G r f x2_def x1_def clear_media_conn_def media_of_line_def
          sdp_media_default_def keep_default)
  show ?thesis by (simp add: tl media_steps_append pre mid post)
qed

section \<open>Lines\<close>

definition line_ok :: "string \<Rightarrow> bool" where
  "line_ok l \<longleftrightarrow> text_ok l \<and> 2 \<le> length l \<and> l ! 1 = CHR ''=''"

lemma line_ok_prefix: "text_ok (a # CHR ''='' # l) \<Longrightarrow> line_ok (a # CHR ''='' # l)"
  by (simp add: line_ok_def)

lemma attr_lines_ok:
  assumes "nceq_ok L" "regex_ok L"
  shows "msid_wf i \<Longrightarrow> line_ok (msid_line i)" "fingerprint_wf f \<Longrightarrow> line_ok (fingerprint_line f)"
    "extmap_wf e \<Longrightarrow> line_ok (extmap_line e)" "ssrc_wf s \<Longrightarrow> line_ok (ssrc_line s)"
    "ssrc_group_wf g \<Longrightarrow> line_ok (ssrc_group_line g)" "crypto_wf c \<Longrightarrow> line_ok (crypto_line c)"
    "rid_wf r \<Longrightarrow> line_ok (rid_line r)" "rtcp_wf t \<Longrightarrow> line_ok (rtcp_line t)" "rtcp_fb_wf b \<Longrightarrow> line_ok (rtcp_fb_line b)"
    "rtpmap_wf m \<Longrightarrow> line_ok (rtpmap_line m)" "group_wf h \<Longrightarrow> line_ok (group_line h)" "line_ok (bandwidth_line w)"
    "attribute_wf L names a \<Longrightarrow> line_ok (attribute_line a)"
proof -
  note T = msid_line_parse [of i] fingerprint_line_parse [of f] extmap_line_parse [OF _ assms(1), of e] ssrc_line_parse [of s]
    ssrc_group_line_parse [of g] crypto_line_parse [OF assms(2), of c] rid_line_parse [OF assms(2), of r]
    rtcp_line_parse [OF assms(2), of t] rtcp_fb_line_parse [of b] rtpmap_line_parse(3) [of m] group_line_parse [of h]
    bandwidth_line_parse [OF assms(1), of w] attribute_line_attr(2) [of L names a]
  have *: "l = x # CHR ''='' # y \<Longrightarrow> text_ok l \<Longrightarrow> line_ok l" for l x y by (simp add: line_ok_def)
  show "msid_wf i \<Longrightarrow> line_ok (msid_line i)" using T(1) by (auto simp: msid_line_def line_ok_def)
  show "fingerprint_wf f \<Longrightarrow> line_ok (fingerprint_line f)" using T(2) by (auto simp: fingerprint_line_def line_ok_def)
  show "extmap_wf e \<Longrightarrow> line_ok (extmap_line e)" using T(3) by (auto simp: extmap_line_def line_ok_def)
  show "ssrc_wf s \<Longrightarrow> line_ok (ssrc_line s)" using T(4) by (auto simp: ssrc_line_def line_ok_def)
  show "ssrc_group_wf g \<Longrightarrow> line_ok (ssrc_group_line g)" using T(5) by (auto simp: ssrc_group_line_def line_ok_def)
  show "crypto_wf c \<Longrightarrow> line_ok (crypto_line c)" using T(6) by (auto simp: crypto_line_def line_ok_def)
  show "rid_wf r \<Longrightarrow> line_ok (rid_line r)" using T(7) by (auto simp: rid_line_def line_ok_def Let_def)
  show "rtcp_wf t \<Longrightarrow> line_ok (rtcp_line t)" using T(8) by (auto simp: rtcp_line_def line_ok_def)
  show "rtcp_fb_wf b \<Longrightarrow> line_ok (rtcp_fb_line b)" using T(9) by (auto simp: rtcp_fb_line_def line_ok_def)
  show "rtpmap_wf m \<Longrightarrow> line_ok (rtpmap_line m)" using T(10) by (auto simp: rtpmap_line_def line_ok_def)
  show "group_wf h \<Longrightarrow> line_ok (group_line h)" using T(11) by (auto simp: group_line_def line_ok_def)
  show "line_ok (bandwidth_line w)" using T(12) by (auto simp: bandwidth_line_def line_ok_def)
  show "attribute_wf L names a \<Longrightarrow> line_ok (attribute_line a)" using T(13) by (cases a) (auto simp: attribute_line_def line_ok_def)
qed

lemma equals_not_space [simp]: "\<not> is_space CHR ''=''" "\<not> is_space CHR '':''"
  by (simp_all add: is_space_def)

lemma group_lines_ok:
  "v = [] \<or> end_ok v \<Longrightarrow> list_all line_ok (opt_line (a # CHR ''='' # p) v) \<longleftrightarrow> v = [] \<or> \<not> is_space a \<and> CHR 0x0A \<notin> set (a # p)"
  "conn_wf c \<Longrightarrow> list_all line_ok (conn_line c)"
  "list_all word_ok os \<Longrightarrow> list_all line_ok (ice_options_line os)"
  "candidate_wf d \<Longrightarrow> line_ok (''a='' @ d)"
proof -
  show "v = [] \<or> end_ok v \<Longrightarrow> list_all line_ok (opt_line (a # CHR ''='' # p) v) \<longleftrightarrow> v = [] \<or> \<not> is_space a \<and> CHR 0x0A \<notin> set (a # p)"
    by (auto simp: opt_line_def line_ok_def text_ok_Cons end_ok_Cons end_ok_app)
  show "conn_wf c \<Longrightarrow> list_all line_ok (conn_line c)"
    by (cases c) (auto simp: conn_wf_def conn_line_def line_ok_def ends)
  show "list_all line_ok (ice_options_line os)" if os: "list_all word_ok os"
  proof (cases os)
    case (Cons x xs)
    then have "end_ok (joined '' '' os)"
      using os joined_spaced [of x xs os] text_ok_end [OF text_ok_words [of x xs]] by simp
    then show ?thesis by (simp add: ice_options_line_def Cons line_ok_def ends)
  qed (simp add: ice_options_line_def)
  show "line_ok (''a='' @ d)" if "candidate_wf d"
  proof -
    have "d = ''candidate:'' @ drop 10 d" "end_ok (drop 10 d)"
      using that append_take_drop_id [of 10 d] by (auto simp: candidate_wf_def)
    moreover have "end_ok (''candidate:'' @ x)" if "end_ok x" for x using that by (simp add: ends)
    ultimately have "end_ok d" by metis
    then show ?thesis by (simp add: line_ok_def ends)
  qed
qed

lemma sdp_media_lines_ok:
  assumes "nceq_ok L" "regex_ok L" "sdp_media_wf L m"
  shows "list_all line_ok (sdp_media_lines m)"
proof -
  note A = attr_lines_ok [OF assms(1,2)] and wf = assms(3) [unfolded sdp_media_wf_def]
  have c: "media_codecs_wf m" "media_formats_wf m" using wf by blast+
  have "list_all line_ok (codec_lines m pt)" for pt
  proof (cases "find_rtpmap m pt")
    case (Some r)
    then have r: "rtpmap_wf r" using c(1) by (auto simp: find_rtpmap_def find_Some_iff media_codecs_wf_def list_all_length)
    then have "rm_params r \<noteq> [] \<Longrightarrow> line_ok (''a=fmtp:'' @ show_word pt @ '' '' @ rm_params r)"
      by (auto simp: rtpmap_wf_def line_ok_def ends intro: text_ok_end)
    then show ?thesis using Some r A(9,10) c(1) by (auto simp: codec_lines_def media_codecs_wf_def list_all_iff)
  qed (simp add: codec_lines_def)
  then have codecs: "list_all line_ok (concat (map (codec_lines m) (payload_types m)))"
    by (simp add: list_all_iff)
  have first: "line_ok (media_format_line m)"
    using parse_media_format_line(2) [OF assms(1) c(2)] by (simp add: line_ok_def media_format_line_def)
  have dir: "line_ok (''a='' @ direction_str (md_direction m))"
    using word_ok_text [OF names_word_ok(3)] by (simp add: line_ok_def ends text_ok_end)
  have vals: "list_all line_ok (opt_line ''a=mid:'' (md_mid m))" "list_all line_ok (opt_line ''a=ice-ufrag:'' (md_ice_ufrag m))"
    "list_all line_ok (opt_line ''a=ice-pwd:'' (md_ice_pwd m))"
    using wf by (subst group_lines_ok(1); auto intro: text_ok_end)+
  have flags: "list_all line_ok (flag_line ''a=extmap-allow-mixed'' b)" "list_all line_ok (flag_line ''a=rtcp-mux'' b)"
    "list_all line_ok (flag_line ''a=rtcp-mux-only'' b)" "list_all line_ok (flag_line ''a=rtcp-rsize'' b)"
    "list_all line_ok (flag_line ''a=end-of-candidates'' b)" for b
    by (cases b; simp add: flag_line_def line_ok_def ends)+
  have opts: "list_all line_ok (case md_setup m of None \<Rightarrow> [] | Some r \<Rightarrow> [''a=setup:'' @ setup_role_str r])"
    "list_all line_ok (case md_sctp_port m of None \<Rightarrow> [] | Some p \<Rightarrow> [''a=sctp-port:'' @ show_word p])"
    "list_all line_ok (case md_max_message_size m of None \<Rightarrow> [] | Some z \<Rightarrow> [''a=max-message-size:'' @ show_word z])"
    using word_ok_text [OF names_word_ok(4)] by (auto simp: line_ok_def ends text_ok_end split: option.splits)
  have rtcp: "list_all line_ok (case md_rtcp m of None \<Rightarrow> [] | Some r \<Rightarrow> [rtcp_line r])"
    using wf A(8) by (cases "md_rtcp m") auto
  have sim: "list_all line_ok (simulcast_lines (md_simulcast m))"
  proof -
    have "simulcast_wf (md_simulcast m)" using wf by blast
    from parse_simulcast_str(2) [OF this] show ?thesis
      by (auto simp: simulcast_lines_def line_ok_def text_ok_Cons end_ok_Cons)
  qed
  have lists: "list_all line_ok (map msid_line (md_msids m))" "list_all line_ok (map (\<lambda>c. ''a='' @ c) (md_candidates m))"
    "list_all line_ok (map fingerprint_line (md_fingerprints m))" "list_all line_ok (map extmap_line (md_extmaps m))"
    "list_all line_ok (map rtcp_fb_line (filter (\<lambda>f. fb_payload_type f = None) (md_rtcp_fbs m)))"
    "list_all line_ok (map ssrc_line (md_ssrcs m))" "list_all line_ok (map ssrc_group_line (md_ssrc_groups m))"
    "list_all line_ok (map crypto_line (md_cryptos m))" "list_all line_ok (map rid_line (md_rids m))"
    "list_all line_ok (map attribute_line (md_attributes m))"
    using wf c(1) A(1-7,9,13) group_lines_ok(4) unfolding media_codecs_wf_def list_all_iff by auto
  have "list_all line_ok (conn_line (md_conn m))" "list_all line_ok (ice_options_line (md_ice_options m))"
    using wf group_lines_ok(2,3) by blast+
  moreover have "list_all line_ok [media_format_line m]" "list_all line_ok [''a='' @ direction_str (md_direction m)]"
    using first dir by simp_all
  ultimately show ?thesis
    unfolding sdp_media_lines_def list_all_append by (intro conjI codecs vals flags opts rtcp sim lists)
qed

lemma do_parse_lines_append:
  "do_parse_lines L (xs @ ys) st =
     (case do_parse_lines L xs st of Undefined \<Rightarrow> Undefined | Rejected \<Rightarrow> Rejected | Parsed st' \<Rightarrow> do_parse_lines L ys st')"
  by (induction xs arbitrary: st) (auto split: parsed.splits)

lemma do_parse_line_ok:
  assumes "line_ok l"
  shows "do_parse_line L l (s, b) =
    (if hd l = CHR ''m''
     then (if sd_medias s \<noteq> [] \<and> \<not> check_msid (last (sd_medias s)) then Rejected
           else case parse_media_line L (drop 2 l) of None \<Rightarrow> Rejected
             | Some m \<Rightarrow> Parsed (s\<lparr>sd_medias := sd_medias s @ [m]\<rparr>, True))
     else case (if b then media_line L s (hd l) (drop 2 l) else session_line L s (hd l) (drop 2 l)) of
       Undefined \<Rightarrow> Undefined | Rejected \<Rightarrow> Rejected | Parsed s' \<Rightarrow> Parsed (s', b))"
proof -
  have "trim l = l" "l \<noteq> []" "l ! 0 = hd l" "parse_line_type_value l = Parsed (hd l, drop 2 l)"
    using assms by (auto simp: line_ok_def trim_text text_ok_def parse_line_type_value_def with_elem_def hd_conv_nth)
  then show ?thesis by (simp add: do_parse_line_def Let_def)
qed

lemma do_parse_media_lines:
  assumes "list_all line_ok ls" "list_all (\<lambda>l. hd l \<noteq> CHR ''m'') ls" "sd_medias s = ms"
  shows "do_parse_lines L ls (s\<lparr>sd_medias := ms @ [x]\<rparr>, True) =
    (case media_steps L ls x of None \<Rightarrow> Rejected | Some x' \<Rightarrow> Parsed (s\<lparr>sd_medias := ms @ [x']\<rparr>, True))"
  using assms(1,2)
proof (induction ls arbitrary: x)
  case (Cons l ls)
  have "do_parse_line L l (s\<lparr>sd_medias := ms @ [x]\<rparr>, True) =
    (case media_step L l x of None \<Rightarrow> Rejected | Some x' \<Rightarrow> Parsed (s\<lparr>sd_medias := ms @ [x']\<rparr>, True))"
    using Cons.prems
    by (auto simp: do_parse_line_ok media_line_def with_back_def media_step_def attr_of_def from_option_def split: option.splits prod.splits)
  then show ?case using Cons by (cases "media_step L l x") simp_all
qed simp

lemma media_lines_hd:
  assumes "sdp_media_wf L m"
  shows "list_all (\<lambda>l. hd l \<noteq> CHR ''m'') (tl (sdp_media_lines m))"
proof -
  have c: "list_all (\<lambda>l. hd l \<noteq> CHR ''m'') (codec_lines m pt)" for pt
    by (auto simp: codec_lines_def list_all_iff rtpmap_line_def rtcp_fb_line_def split: option.splits)
  then have "list_all (\<lambda>l. hd l \<noteq> CHR ''m'') (concat (map (codec_lines m) (payload_types m)))"
    by (simp add: list_all_iff)
  then show ?thesis
    by (auto simp: sdp_media_lines_def list_all_iff conn_line_def opt_line_def flag_line_def ice_options_line_def
        msid_line_def fingerprint_line_def rtcp_line_def extmap_line_def rtcp_fb_line_def ssrc_line_def
        ssrc_group_line_def crypto_line_def simulcast_lines_def rid_line_def attribute_line_def Let_def
        split: option.splits prod.splits)
qed

lemma do_parse_media:
  assumes "nceq_ok L" "regex_ok L" "sdp_media_wf L m" "list_all check_msid (sd_medias s)"
  shows "do_parse_lines L (sdp_media_lines m) (s, b) = Parsed (s\<lparr>sd_medias := sd_medias s @ [clear_media_conn m]\<rparr>, True)"
proof -
  have fw: "media_formats_wf m" using assms(3) unfolding sdp_media_wf_def by blast
  have ok: "list_all line_ok (sdp_media_lines m)" using sdp_media_lines_ok [OF assms(1-3)] .
  have eq: "sdp_media_lines m = media_format_line m # tl (sdp_media_lines m)" by (simp add: sdp_media_lines_def)
  have hd: "hd (media_format_line m) = CHR ''m''" by (simp add: media_format_line_def)
  have "sd_medias s = [] \<or> check_msid (last (sd_medias s))"
    using assms(4) by (metis list_all_iff last_in_set)
  moreover have "line_ok (media_format_line m)" "list_all line_ok (tl (sdp_media_lines m))"
    using ok eq by (metis list.pred_inject(2))+
  ultimately have "do_parse_line L (media_format_line m) (s, b) = Parsed (s\<lparr>sd_medias := sd_medias s @ [media_of_line m]\<rparr>, True)"
    using parse_media_format_line(1) [OF assms(1) fw] hd by (auto simp: do_parse_line_ok)
  then show ?thesis
    using do_parse_media_lines [OF \<open>list_all line_ok (tl (sdp_media_lines m))\<close> media_lines_hd [OF assms(3)] refl]
      media_roundtrip_steps [OF assms(1-3)]
    by (subst eq) simp
qed

section \<open>The session\<close>

definition session_attr_names :: "string list" where
  "session_attr_names = [''group'', ''ice-ufrag'', ''ice-pwd'', ''ice-options'', ''ice-lite'', ''candidate'',
     ''fingerprint'', ''setup'', ''extmap-allow-mixed'', ''msid-semantic'']"

definition origin_wf :: "sdp_origin \<Rightarrow> bool" where
  "origin_wf r \<longleftrightarrow> list_all word_ok [or_username r, or_session_id r, or_session_version r, or_nettype r, or_addrtype r, or_addr r]"

definition msid_semantic_wf :: "sdp_msid_semantic \<Rightarrow> bool" where
  "msid_semantic_wf m \<longleftrightarrow> (if mss_stream_ids m = [] then mss_semantic m = []
     else word_ok (mss_semantic m) \<and> list_all word_ok (mss_stream_ids m))"

definition session_wf :: "sdp_lib \<Rightarrow> session_description \<Rightarrow> bool" where
  "session_wf L s \<longleftrightarrow>
     origin_wf (sd_origin s) \<and> conn_wf (sd_conn s) \<and> msid_semantic_wf (sd_msid_semantic s) \<and>
     list_all (\<lambda>v. v = [] \<or> end_ok v) [sd_session_name s, sd_uri s, sd_email s, sd_phone_number s] \<and>
     list_all (\<lambda>v. v = [] \<or> text_ok v) [sd_ice_ufrag s, sd_ice_pwd s] \<and>
     list_all word_ok (sd_ice_options s) \<and> list_all fingerprint_wf (sd_fingerprints s) \<and>
     list_all group_wf (sd_groups s) \<and> list_all (attribute_wf L session_attr_names) (sd_attributes s) \<and>
     list_all candidate_wf (sd_candidates s) \<and> list_all (sdp_media_wf L) (sd_medias s)"

definition session_step :: "sdp_lib \<Rightarrow> string \<Rightarrow> session_description \<Rightarrow> session_description parsed" where
  "session_step L l s = session_line L s (hd l) (drop 2 l)"

lemma do_parse_session_line:
  "line_ok l \<Longrightarrow> hd l \<noteq> CHR ''m'' \<Longrightarrow> do_parse_lines L [l] (s, False) =
    (case session_step L l s of Undefined \<Rightarrow> Undefined | Rejected \<Rightarrow> Rejected | Parsed s' \<Rightarrow> Parsed (s', False))"
  by (auto simp: do_parse_line_ok session_step_def split: parsed.splits)

lemma session_lines_map:
  assumes "\<And>x s. x \<in> set xs \<Longrightarrow> line_ok (f x) \<and> hd (f x) \<noteq> CHR ''m'' \<and> session_step L (f x) s = Parsed (upd x s)"
  shows "do_parse_lines L (map f xs) (s, False) = Parsed (fold upd xs s, False)"
  using assms
proof (induction xs arbitrary: s)
  case (Cons x xs)
  have "do_parse_lines L [f x] (s, False) = Parsed (upd x s, False)"
    using Cons.prems [of x s] by (subst do_parse_session_line) auto
  then show ?case using Cons do_parse_lines_append [of L "[f x]" "map f xs"] by simp
qed simp

lemma fold_session_append:
  "fold (\<lambda>x s. s\<lparr>sd_bandwidths := sd_bandwidths s @ [x]\<rparr>) bs s = s\<lparr>sd_bandwidths := sd_bandwidths s @ bs\<rparr>"
  "fold (\<lambda>x s. s\<lparr>sd_fingerprints := sd_fingerprints s @ [x]\<rparr>) fs s = s\<lparr>sd_fingerprints := sd_fingerprints s @ fs\<rparr>"
  "fold (\<lambda>x s. s\<lparr>sd_groups := sd_groups s @ [x]\<rparr>) gs s = s\<lparr>sd_groups := sd_groups s @ gs\<rparr>"
  "fold (\<lambda>x s. s\<lparr>sd_attributes := sd_attributes s @ [x]\<rparr>) ts s = s\<lparr>sd_attributes := sd_attributes s @ ts\<rparr>"
  "fold (\<lambda>x s. s\<lparr>sd_candidates := sd_candidates s @ [x]\<rparr>) cs s = s\<lparr>sd_candidates := sd_candidates s @ cs\<rparr>"
proof -
  show "fold (\<lambda>x s. s\<lparr>sd_bandwidths := sd_bandwidths s @ [x]\<rparr>) bs s = s\<lparr>sd_bandwidths := sd_bandwidths s @ bs\<rparr>"
    by (induction bs arbitrary: s) simp_all
  show "fold (\<lambda>x s. s\<lparr>sd_fingerprints := sd_fingerprints s @ [x]\<rparr>) fs s = s\<lparr>sd_fingerprints := sd_fingerprints s @ fs\<rparr>"
    by (induction fs arbitrary: s) simp_all
  show "fold (\<lambda>x s. s\<lparr>sd_groups := sd_groups s @ [x]\<rparr>) gs s = s\<lparr>sd_groups := sd_groups s @ gs\<rparr>"
    by (induction gs arbitrary: s) simp_all
  show "fold (\<lambda>x s. s\<lparr>sd_attributes := sd_attributes s @ [x]\<rparr>) ts s = s\<lparr>sd_attributes := sd_attributes s @ ts\<rparr>"
    by (induction ts arbitrary: s) simp_all
  show "fold (\<lambda>x s. s\<lparr>sd_candidates := sd_candidates s @ [x]\<rparr>) cs s = s\<lparr>sd_candidates := sd_candidates s @ cs\<rparr>"
    by (induction cs arbitrary: s) simp_all
qed

lemma origin_line_parse:
  assumes "origin_wf r"
  shows "parse_origin (drop 2 (origin_line r)) = r" and "line_ok (origin_line r)"
proof -
  let ?ws = "[or_session_id r, or_session_version r, or_nettype r, or_addrtype r, or_addr r]"
  have line: "origin_line r = ''o='' @ or_username r @ spaced ?ws" by (simp add: origin_line_def spaced_def)
  have w: "word_ok (or_username r)" "list_all word_ok ?ws" using assms by (auto simp: origin_wf_def)
  show "parse_origin (drop 2 (origin_line r)) = r"
    using stream_words_words [OF w] by (simp add: parse_origin_def line)
  show "line_ok (origin_line r)"
    using text_ok_end [OF text_ok_words [OF w]] by (simp add: line line_ok_def text_ok_Cons end_ok_Cons)
qed

lemma session_attr_steps:
  assumes "nceq_ok L"
  shows "session_step L (''a='' @ direction_str d) s = Parsed (s\<lparr>sd_direction := Some d\<rparr>)"
    and "text_ok v \<Longrightarrow> session_step L (''a=ice-ufrag:'' @ v) s = Parsed (s\<lparr>sd_ice_ufrag := v\<rparr>)"
    and "text_ok v \<Longrightarrow> session_step L (''a=ice-pwd:'' @ v) s = Parsed (s\<lparr>sd_ice_pwd := v\<rparr>)"
    and "session_step L ''a=ice-lite'' s = Parsed (s\<lparr>sd_ice_lite := True\<rparr>)"
    and "session_step L ''a=extmap-allow-mixed'' s = Parsed (s\<lparr>sd_extmap_allow_mixed := True\<rparr>)"
    and "session_step L (''a=setup:'' @ setup_role_str r) s = Parsed (s\<lparr>sd_setup := Some r\<rparr>)"
    and "session_step L (''a=candidate:'' @ v) s = Parsed (s\<lparr>sd_candidates := sd_candidates s @ [''candidate:'' @ v]\<rparr>)"
    and "fingerprint_wf f \<Longrightarrow> session_step L (fingerprint_line f) s = Parsed (s\<lparr>sd_fingerprints := sd_fingerprints s @ [f]\<rparr>)"
    and "group_wf g \<Longrightarrow> session_step L (group_line g) s = Parsed (s\<lparr>sd_groups := sd_groups s @ [g]\<rparr>)"
    and "attribute_wf L session_attr_names a \<Longrightarrow>
      session_step L (attribute_line a) s = Parsed (s\<lparr>sd_attributes := sd_attributes s @ [a]\<rparr>)"
    and "list_all word_ok os \<Longrightarrow> os \<noteq> [] \<Longrightarrow>
      session_step L (''a=ice-options:'' @ joined '' '' os) s = Parsed (s\<lparr>sd_ice_options := sd_ice_options s @ os\<rparr>)"
    and "word_ok w \<Longrightarrow> list_all word_ok ws \<Longrightarrow> session_step L (''a=msid-semantic:'' @ w @ spaced ws) s
      = Parsed (s\<lparr>sd_msid_semantic := \<lparr>mss_semantic = w, mss_stream_ids = ws\<rparr>\<rparr>)"
proof -
  note D = session_step_def session_line_def apply_session_attr_def split_attr_def from_option_def
  have A: "hd l = CHR ''a'' \<Longrightarrow> session_step L l s = apply_session_attr L s (fst (attr_of l)) (snd (attr_of l))" for l
    by (simp add: session_step_def session_line_def attr_of_def split_beta)
  show "session_step L (''a='' @ direction_str d) s = Parsed (s\<lparr>sd_direction := Some d\<rparr>)"
    using names_roundtrip(3) [OF assms, of d] by (cases d) (simp_all add: D)
  show "session_step L (''a=setup:'' @ setup_role_str r) s = Parsed (s\<lparr>sd_setup := Some r\<rparr>)"
    using names_roundtrip(4) [OF assms, of r] by (simp add: D)
  show "text_ok v \<Longrightarrow> session_step L (''a=ice-ufrag:'' @ v) s = Parsed (s\<lparr>sd_ice_ufrag := v\<rparr>)"
    "text_ok v \<Longrightarrow> session_step L (''a=ice-pwd:'' @ v) s = Parsed (s\<lparr>sd_ice_pwd := v\<rparr>)"
    "session_step L ''a=ice-lite'' s = Parsed (s\<lparr>sd_ice_lite := True\<rparr>)"
    "session_step L ''a=extmap-allow-mixed'' s = Parsed (s\<lparr>sd_extmap_allow_mixed := True\<rparr>)"
    "session_step L (''a=candidate:'' @ v) s = Parsed (s\<lparr>sd_candidates := sd_candidates s @ [''candidate:'' @ v]\<rparr>)"
    by (simp_all add: D trim_text)
  show "fingerprint_wf f \<Longrightarrow> session_step L (fingerprint_line f) s = Parsed (s\<lparr>sd_fingerprints := sd_fingerprints s @ [f]\<rparr>)"
    using fingerprint_line_parse [of f]
    by (subst A) (simp_all add: apply_session_attr_def from_option_def, simp add: fingerprint_line_def)
  show "group_wf g \<Longrightarrow> session_step L (group_line g) s = Parsed (s\<lparr>sd_groups := sd_groups s @ [g]\<rparr>)"
    using group_line_parse [of g]
    by (subst A) (simp_all add: apply_session_attr_def from_option_def, simp add: group_line_def)
  show "session_step L (attribute_line a) s = Parsed (s\<lparr>sd_attributes := sd_attributes s @ [a]\<rparr>)"
    if a: "attribute_wf L session_attr_names a"
    using attribute_line_attr [OF a] a
    by (subst A) (simp_all add: apply_session_attr_def attribute_wf_def session_attr_names_def)
  show "session_step L (''a=ice-options:'' @ joined '' '' os) s = Parsed (s\<lparr>sd_ice_options := sd_ice_options s @ os\<rparr>)"
    if os: "list_all word_ok os" "os \<noteq> []"
  proof -
    obtain x xs where o': "os = x # xs" "word_ok x" "list_all word_ok xs" using os by (cases os) auto
    then have "joined '' '' os = x @ spaced xs" using joined_spaced by blast
    then show ?thesis using o' split_whitespace_words [OF o'(2,3)] by (simp add: D)
  qed
  show "word_ok w \<Longrightarrow> list_all word_ok ws \<Longrightarrow> session_step L (''a=msid-semantic:'' @ w @ spaced ws) s
      = Parsed (s\<lparr>sd_msid_semantic := \<lparr>mss_semantic = w, mss_stream_ids = ws\<rparr>\<rparr>)"
    by (simp add: D parse_msid_semantic_def split_whitespace_words)
qed

end
