(* ===== verification/Sdp.thy ===== *)
theory Sdp
  imports SdpRoundSession
begin

text \<open>
  The properties of the session description code of \<open>src/sdp.cpp\<close>: parsing what was printed, when the
  parser is defined, the negotiation of directions and the invariant of the feedback list.
\<close>

section \<open>The session part of a description\<close>

lemma session_group_lines:
  assumes "nceq_ok L" "regex_ok L" "session_wf L s"
  shows "do_parse_lines L [''v='' @ show_word (sd_version s), origin_line (sd_origin s), ''s='' @ sd_session_name s] (x, False)
      = Parsed (x\<lparr>sd_version := sd_version s, sd_origin := sd_origin s, sd_session_name := sd_session_name s\<rparr>, False)"
    and "do_parse_lines L (opt_line ''u='' (sd_uri s)) (x, False) = Parsed (x\<lparr>sd_uri := keep [] (sd_uri s) (sd_uri x)\<rparr>, False)"
    and "do_parse_lines L (opt_line ''e='' (sd_email s)) (x, False) = Parsed (x\<lparr>sd_email := keep [] (sd_email s) (sd_email x)\<rparr>, False)"
    and "do_parse_lines L (opt_line ''p='' (sd_phone_number s)) (x, False)
      = Parsed (x\<lparr>sd_phone_number := keep [] (sd_phone_number s) (sd_phone_number x)\<rparr>, False)"
    and "do_parse_lines L (conn_line (sd_conn s)) (x, False) = Parsed (x, False)"
    and "do_parse_lines L (map bandwidth_line (sd_bandwidths s)) (x, False)
      = Parsed (x\<lparr>sd_bandwidths := sd_bandwidths x @ sd_bandwidths s\<rparr>, False)"
    and "do_parse_lines L [''t=0 0''] (x, False) = Parsed (x, False)"
    and "do_parse_lines L (case sd_direction s of None \<Rightarrow> [] | Some d \<Rightarrow> [''a='' @ direction_str d]) (x, False)
      = Parsed (x\<lparr>sd_direction := keep None (sd_direction s) (sd_direction x)\<rparr>, False)"
proof -
  note wf = assms(3) [unfolded session_wf_def]
  note P = do_parse_session_line and D = session_step_def session_line_def
  have c: "do_parse_lines L (y # ys) (z, False) = (case do_parse_lines L [y] (z, False) of Undefined \<Rightarrow> Undefined
      | Rejected \<Rightarrow> Rejected | Parsed st' \<Rightarrow> do_parse_lines L ys st')" for y ys z
    using do_parse_lines_append [of L "[y]" ys] by simp
  have v: "line_ok (''v='' @ show_word (sd_version s))" by (simp add: line_ok_def ends)
  have n: "sd_session_name s = [] \<or> end_ok (sd_session_name s)" using wf by simp
  then have n': "line_ok (''s='' @ sd_session_name s)" by (auto simp: line_ok_def ends)
  have o': "line_ok (origin_line (sd_origin s))" "parse_origin (drop 2 (origin_line (sd_origin s))) = sd_origin s"
    using origin_line_parse [of "sd_origin s"] wf by blast+
  have "do_parse_lines L [''v='' @ show_word (sd_version s)] (y, False) = Parsed (y\<lparr>sd_version := sd_version s\<rparr>, False)"
    "do_parse_lines L [origin_line (sd_origin s)] (y, False) = Parsed (y\<lparr>sd_origin := sd_origin s\<rparr>, False)"
    "do_parse_lines L [''s='' @ sd_session_name s] (y, False) = Parsed (y\<lparr>sd_session_name := sd_session_name s\<rparr>, False)" for y
    using v o' n' by (subst P; simp add: D parse_show_word; simp add: origin_line_def)+
  then show "do_parse_lines L [''v='' @ show_word (sd_version s), origin_line (sd_origin s), ''s='' @ sd_session_name s] (x, False)
      = Parsed (x\<lparr>sd_version := sd_version s, sd_origin := sd_origin s, sd_session_name := sd_session_name s\<rparr>, False)"
    by (simp only: c [of _ "_ # _"] parsed.case)
  have u: "list_all line_ok (opt_line ''u='' (sd_uri s))" "list_all line_ok (opt_line ''e='' (sd_email s))"
    "list_all line_ok (opt_line ''p='' (sd_phone_number s))"
    using wf by (subst group_lines_ok(1); auto)+
  show "do_parse_lines L (opt_line ''u='' (sd_uri s)) (x, False) = Parsed (x\<lparr>sd_uri := keep [] (sd_uri s) (sd_uri x)\<rparr>, False)"
    using u(1) P [of "''u='' @ sd_uri s" L x] by (auto simp: opt_line_def keep_def D)
  show "do_parse_lines L (opt_line ''e='' (sd_email s)) (x, False) = Parsed (x\<lparr>sd_email := keep [] (sd_email s) (sd_email x)\<rparr>, False)"
    using u(2) P [of "''e='' @ sd_email s" L x] by (auto simp: opt_line_def keep_def D)
  show "do_parse_lines L (opt_line ''p='' (sd_phone_number s)) (x, False)
      = Parsed (x\<lparr>sd_phone_number := keep [] (sd_phone_number s) (sd_phone_number x)\<rparr>, False)"
    using u(3) P [of "''p='' @ sd_phone_number s" L x] by (auto simp: opt_line_def keep_def D)
  have "list_all line_ok (conn_line (sd_conn s))" using wf group_lines_ok(2) by blast
  then show "do_parse_lines L (conn_line (sd_conn s)) (x, False) = Parsed (x, False)"
    by (cases "sd_conn s") (auto simp: conn_line_def P [simplified] do_parse_line_ok D)
  have "hd (bandwidth_line b) = CHR ''b''" for b by (simp add: bandwidth_line_def)
  then have "line_ok (bandwidth_line b) \<and> hd (bandwidth_line b) \<noteq> CHR ''m''
      \<and> session_step L (bandwidth_line b) y = Parsed (y\<lparr>sd_bandwidths := sd_bandwidths y @ [b]\<rparr>)" for b y
    using attr_lines_ok(12) [OF assms(1,2), of b] bandwidth_line_parse [OF assms(1), of b]
    by (simp add: D from_option_def)
  then show "do_parse_lines L (map bandwidth_line (sd_bandwidths s)) (x, False)
      = Parsed (x\<lparr>sd_bandwidths := sd_bandwidths x @ sd_bandwidths s\<rparr>, False)"
    by (subst fold_session_append(1) [symmetric]) (rule session_lines_map)
  show "do_parse_lines L [''t=0 0''] (x, False) = Parsed (x, False)"
    by (subst P) (simp_all add: D line_ok_def ends)
  show "do_parse_lines L (case sd_direction s of None \<Rightarrow> [] | Some d \<Rightarrow> [''a='' @ direction_str d]) (x, False)
      = Parsed (x\<lparr>sd_direction := keep None (sd_direction s) (sd_direction x)\<rparr>, False)"
  proof (cases "sd_direction s")
    case (Some d)
    have "line_ok (''a='' @ direction_str d)"
      using word_ok_text [OF names_word_ok(3)] by (simp add: line_ok_def ends text_ok_end)
    then show ?thesis using Some session_attr_steps(1) [OF assms(1), of d x] P [of "''a='' @ direction_str d" L x] by (simp add: keep_def)
  qed (simp add: keep_def)
qed

lemma session_attr_lines:
  assumes "nceq_ok L" "regex_ok L" "session_wf L s"
  shows "do_parse_lines L (opt_line ''a=ice-ufrag:'' (sd_ice_ufrag s)) (x, False)
      = Parsed (x\<lparr>sd_ice_ufrag := keep [] (sd_ice_ufrag s) (sd_ice_ufrag x)\<rparr>, False)"
    and "do_parse_lines L (opt_line ''a=ice-pwd:'' (sd_ice_pwd s)) (x, False)
      = Parsed (x\<lparr>sd_ice_pwd := keep [] (sd_ice_pwd s) (sd_ice_pwd x)\<rparr>, False)"
    and "do_parse_lines L (ice_options_line (sd_ice_options s)) (x, False)
      = Parsed (x\<lparr>sd_ice_options := sd_ice_options x @ sd_ice_options s\<rparr>, False)"
    and "do_parse_lines L (flag_line ''a=ice-lite'' b) (x, False) = Parsed (x\<lparr>sd_ice_lite := b \<or> sd_ice_lite x\<rparr>, False)"
    and "do_parse_lines L (flag_line ''a=extmap-allow-mixed'' b) (x, False)
      = Parsed (x\<lparr>sd_extmap_allow_mixed := b \<or> sd_extmap_allow_mixed x\<rparr>, False)"
    and "do_parse_lines L (map fingerprint_line (sd_fingerprints s)) (x, False)
      = Parsed (x\<lparr>sd_fingerprints := sd_fingerprints x @ sd_fingerprints s\<rparr>, False)"
    and "do_parse_lines L (case sd_setup s of None \<Rightarrow> [] | Some r \<Rightarrow> [''a=setup:'' @ setup_role_str r]) (x, False)
      = Parsed (x\<lparr>sd_setup := keep None (sd_setup s) (sd_setup x)\<rparr>, False)"
    and "do_parse_lines L (if mss_stream_ids (sd_msid_semantic s) \<noteq> []
        then [''a=msid-semantic:'' @ mss_semantic (sd_msid_semantic s) @ spaced (mss_stream_ids (sd_msid_semantic s))]
        else []) (x, False)
      = Parsed (x\<lparr>sd_msid_semantic := keep \<lparr>mss_semantic = [], mss_stream_ids = []\<rparr> (sd_msid_semantic s) (sd_msid_semantic x)\<rparr>, False)"
    and "do_parse_lines L (map group_line (sd_groups s)) (x, False) = Parsed (x\<lparr>sd_groups := sd_groups x @ sd_groups s\<rparr>, False)"
    and "do_parse_lines L (map attribute_line (sd_attributes s)) (x, False)
      = Parsed (x\<lparr>sd_attributes := sd_attributes x @ sd_attributes s\<rparr>, False)"
    and "do_parse_lines L (map (\<lambda>c. ''a='' @ c) (sd_candidates s)) (x, False)
      = Parsed (x\<lparr>sd_candidates := sd_candidates x @ sd_candidates s\<rparr>, False)"
proof -
  note wf = assms(3) [unfolded session_wf_def]
  note P = do_parse_session_line and S = session_attr_steps [OF assms(1)] and A = attr_lines_ok [OF assms(1,2)]
  have "sd_ice_ufrag s = [] \<or> text_ok (sd_ice_ufrag s)" "sd_ice_pwd s = [] \<or> text_ok (sd_ice_pwd s)" using wf by simp_all
  then show "do_parse_lines L (opt_line ''a=ice-ufrag:'' (sd_ice_ufrag s)) (x, False)
      = Parsed (x\<lparr>sd_ice_ufrag := keep [] (sd_ice_ufrag s) (sd_ice_ufrag x)\<rparr>, False)"
    "do_parse_lines L (opt_line ''a=ice-pwd:'' (sd_ice_pwd s)) (x, False)
      = Parsed (x\<lparr>sd_ice_pwd := keep [] (sd_ice_pwd s) (sd_ice_pwd x)\<rparr>, False)"
    using P [of "''a=ice-ufrag:'' @ sd_ice_ufrag s" L x] P [of "''a=ice-pwd:'' @ sd_ice_pwd s" L x]
      S(2) [of "sd_ice_ufrag s" x] S(3) [of "sd_ice_pwd s" x]
    by (auto simp: opt_line_def keep_def line_ok_def ends text_ok_end)
  have "list_all word_ok (sd_ice_options s)" using wf by blast
  then show "do_parse_lines L (ice_options_line (sd_ice_options s)) (x, False)
      = Parsed (x\<lparr>sd_ice_options := sd_ice_options x @ sd_ice_options s\<rparr>, False)"
    using group_lines_ok(3) [of "sd_ice_options s"] P [of "''a=ice-options:'' @ joined '' '' (sd_ice_options s)" L x]
      S(11) [of "sd_ice_options s" x]
    by (auto simp: ice_options_line_def)
  show "do_parse_lines L (flag_line ''a=ice-lite'' b) (x, False) = Parsed (x\<lparr>sd_ice_lite := b \<or> sd_ice_lite x\<rparr>, False)"
    "do_parse_lines L (flag_line ''a=extmap-allow-mixed'' b) (x, False)
      = Parsed (x\<lparr>sd_extmap_allow_mixed := b \<or> sd_extmap_allow_mixed x\<rparr>, False)"
    using P [of "''a=ice-lite''" L x] S(4) [of x] P [of "''a=extmap-allow-mixed''" L x] S(5) [of x]
    by (auto simp: flag_line_def line_ok_def ends)
  have hd: "hd (fingerprint_line f) = CHR ''a''" "hd (group_line g) = CHR ''a''" for f g
    by (simp_all add: fingerprint_line_def group_line_def)
  have fs: "\<And>f. f \<in> set (sd_fingerprints s) \<Longrightarrow> fingerprint_wf f" "\<And>g. g \<in> set (sd_groups s) \<Longrightarrow> group_wf g"
    "\<And>a. a \<in> set (sd_attributes s) \<Longrightarrow> attribute_wf L session_attr_names a" "\<And>c. c \<in> set (sd_candidates s) \<Longrightarrow> candidate_wf c"
    using wf unfolding list_all_iff by blast+
  show "do_parse_lines L (map fingerprint_line (sd_fingerprints s)) (x, False)
      = Parsed (x\<lparr>sd_fingerprints := sd_fingerprints x @ sd_fingerprints s\<rparr>, False)"
    using A(2) S(8) hd(1) fs(1) by (subst fold_session_append(2) [symmetric]) (rule session_lines_map, simp)
  show "do_parse_lines L (map group_line (sd_groups s)) (x, False) = Parsed (x\<lparr>sd_groups := sd_groups x @ sd_groups s\<rparr>, False)"
    using A(11) S(9) hd(2) fs(2) by (subst fold_session_append(3) [symmetric]) (rule session_lines_map, simp)
  show "do_parse_lines L (map attribute_line (sd_attributes s)) (x, False)
      = Parsed (x\<lparr>sd_attributes := sd_attributes x @ sd_attributes s\<rparr>, False)"
    using A(13) [of session_attr_names] S(10) attribute_line_attr(3) [of L session_attr_names] fs(3)
    by (subst fold_session_append(4) [symmetric]) (rule session_lines_map, simp)
  have "session_step L (''a='' @ c) y = Parsed (y\<lparr>sd_candidates := sd_candidates y @ [c]\<rparr>)" if "candidate_wf c" for c y
  proof -
    have "c = ''candidate:'' @ drop 10 c" using that append_take_drop_id [of 10 c] by (simp add: candidate_wf_def)
    then obtain v where "c = ''candidate:'' @ v" by blast
    then show ?thesis using S(7) [of v y] by simp
  qed
  then show "do_parse_lines L (map (\<lambda>c. ''a='' @ c) (sd_candidates s)) (x, False)
      = Parsed (x\<lparr>sd_candidates := sd_candidates x @ sd_candidates s\<rparr>, False)"
    using group_lines_ok(4) fs(4) by (subst fold_session_append(5) [symmetric]) (rule session_lines_map, simp)
  show "do_parse_lines L (case sd_setup s of None \<Rightarrow> [] | Some r \<Rightarrow> [''a=setup:'' @ setup_role_str r]) (x, False)
      = Parsed (x\<lparr>sd_setup := keep None (sd_setup s) (sd_setup x)\<rparr>, False)"
  proof (cases "sd_setup s")
    case (Some r)
    have "line_ok (''a=setup:'' @ setup_role_str r)"
      using word_ok_text [OF names_word_ok(4)] by (simp add: line_ok_def ends text_ok_end)
    then show ?thesis using Some S(6) [of r x] P [of "''a=setup:'' @ setup_role_str r" L x] by (simp add: keep_def)
  qed (simp add: keep_def)
  let ?m = "sd_msid_semantic s"
  have m: "msid_semantic_wf ?m" using wf by blast
  show "do_parse_lines L (if mss_stream_ids ?m \<noteq> [] then [''a=msid-semantic:'' @ mss_semantic ?m @ spaced (mss_stream_ids ?m)]
        else []) (x, False)
      = Parsed (x\<lparr>sd_msid_semantic := keep \<lparr>mss_semantic = [], mss_stream_ids = []\<rparr> ?m (sd_msid_semantic x)\<rparr>, False)"
  proof (cases "mss_stream_ids ?m = []")
    case True
    then have "?m = \<lparr>mss_semantic = [], mss_stream_ids = []\<rparr>" using m by (cases ?m) (simp add: msid_semantic_wf_def)
    then show ?thesis by (simp add: keep_def)
  next
    case False
    then have w: "word_ok (mss_semantic ?m)" "list_all word_ok (mss_stream_ids ?m)" using m by (simp_all add: msid_semantic_wf_def)
    have ne: "?m \<noteq> \<lparr>mss_semantic = [], mss_stream_ids = []\<rparr>" using False by auto
    have "line_ok (''a=msid-semantic:'' @ mss_semantic ?m @ spaced (mss_stream_ids ?m))"
      using text_ok_end [OF text_ok_words [OF w]] by (simp add: line_ok_def text_ok_Cons end_ok_Cons)
    then have "do_parse_lines L [''a=msid-semantic:'' @ mss_semantic ?m @ spaced (mss_stream_ids ?m)] (x, False)
        = Parsed (x\<lparr>sd_msid_semantic := ?m\<rparr>, False)"
      using S(12) [OF w, of x] by (subst P) simp_all
    then show ?thesis using False ne by (simp only: keep_def if_True if_False simp_thms)
  qed
qed

definition clear_conn :: "session_description \<Rightarrow> session_description" where
  "clear_conn s = s\<lparr>sd_conn := ([], [], []), sd_medias := map clear_media_conn (sd_medias s)\<rparr>"

lemma session_lines_roundtrip:
  assumes "nceq_ok L" "regex_ok L" "session_wf L s"
  shows "do_parse_lines L (session_lines s) (session_description_default (sd_sdp_type s), False)
    = Parsed (s\<lparr>sd_conn := ([], [], []), sd_medias := []\<rparr>, False)"
proof -
  define cands where "cands = map (\<lambda>c. ''a='' @ c) (sd_candidates s)"
  define first where "first = [''v='' @ show_word (sd_version s), origin_line (sd_origin s), ''s='' @ sd_session_name s]"
  define tline where "tline = [''t=0 0'']"
  note G = session_group_lines [OF assms, folded first_def tline_def] session_attr_lines [OF assms, folded cands_def]
  show ?thesis
    unfolding session_lines_def first_def [symmetric] cands_def [symmetric] tline_def [symmetric]
    by (simp add: do_parse_lines_append G session_description_default_def keep_default)
qed

lemma session_lines_ok:
  assumes "nceq_ok L" "regex_ok L" "session_wf L s"
  shows "list_all line_ok (session_lines s)"
proof -
  note wf = assms(3) [unfolded session_wf_def] and A = attr_lines_ok [OF assms(1,2)]
  have n: "sd_session_name s = [] \<or> end_ok (sd_session_name s)" using wf by simp
  have first: "list_all line_ok [''v='' @ show_word (sd_version s), origin_line (sd_origin s), ''s='' @ sd_session_name s]"
    using origin_line_parse(2) [of "sd_origin s"] wf n by (auto simp: line_ok_def ends)
  have vals: "list_all line_ok (opt_line ''u='' (sd_uri s))" "list_all line_ok (opt_line ''e='' (sd_email s))"
    "list_all line_ok (opt_line ''p='' (sd_phone_number s))" "list_all line_ok (opt_line ''a=ice-ufrag:'' (sd_ice_ufrag s))"
    "list_all line_ok (opt_line ''a=ice-pwd:'' (sd_ice_pwd s))"
    using wf by (subst group_lines_ok(1); auto intro: text_ok_end)+
  have flags: "list_all line_ok (flag_line ''a=ice-lite'' b)" "list_all line_ok (flag_line ''a=extmap-allow-mixed'' b)"
    "list_all line_ok [''t=0 0'']" for b
    by (cases b; simp add: flag_line_def line_ok_def ends)+
  have opts: "list_all line_ok (case sd_direction s of None \<Rightarrow> [] | Some d \<Rightarrow> [''a='' @ direction_str d])"
    "list_all line_ok (case sd_setup s of None \<Rightarrow> [] | Some r \<Rightarrow> [''a=setup:'' @ setup_role_str r])"
    using word_ok_text [OF names_word_ok(4)] word_ok_text [OF names_word_ok(3)]
    by (auto simp: line_ok_def ends text_ok_end split: option.splits)
  have lists: "list_all line_ok (map bandwidth_line (sd_bandwidths s))" "list_all line_ok (map fingerprint_line (sd_fingerprints s))"
    "list_all line_ok (map group_line (sd_groups s))" "list_all line_ok (map attribute_line (sd_attributes s))"
    "list_all line_ok (map (\<lambda>c. ''a='' @ c) (sd_candidates s))"
    using wf A(2,11-13) group_lines_ok(4) unfolding list_all_iff by auto
  have ms: "list_all line_ok (if mss_stream_ids (sd_msid_semantic s) \<noteq> []
        then [''a=msid-semantic:'' @ mss_semantic (sd_msid_semantic s) @ spaced (mss_stream_ids (sd_msid_semantic s))] else [])"
  proof (cases "mss_stream_ids (sd_msid_semantic s) = []")
    case False
    then have w: "word_ok (mss_semantic (sd_msid_semantic s))" "list_all word_ok (mss_stream_ids (sd_msid_semantic s))"
      using wf by (simp_all add: msid_semantic_wf_def)
    then show ?thesis
      using False text_ok_end [OF text_ok_words [OF w]] by (simp add: line_ok_def text_ok_Cons end_ok_Cons)
  qed simp
  have "list_all line_ok (conn_line (sd_conn s))" "list_all line_ok (ice_options_line (sd_ice_options s))"
    using wf group_lines_ok(2,3) by blast+
  then show ?thesis
    unfolding session_lines_def list_all_append by (intro conjI first vals flags opts lists ms)
qed

lemma medias_roundtrip:
  assumes "nceq_ok L" "regex_ok L" "list_all (sdp_media_wf L) ms" "list_all check_msid (sd_medias s)"
  shows "\<exists>b'. do_parse_lines L (concat (map sdp_media_lines ms)) (s, b)
    = Parsed (s\<lparr>sd_medias := sd_medias s @ map clear_media_conn ms\<rparr>, b')"
  using assms(3,4)
proof (induction ms arbitrary: s b)
  case (Cons m ms)
  have "check_msid (clear_media_conn m)"
    using Cons.prems(1) by (simp add: sdp_media_wf_def check_msid_def clear_media_conn_def)
  then have "list_all check_msid (sd_medias (s\<lparr>sd_medias := sd_medias s @ [clear_media_conn m]\<rparr>))" using Cons.prems(2) by simp
  moreover have "do_parse_lines L (sdp_media_lines m) (s, b) = Parsed (s\<lparr>sd_medias := sd_medias s @ [clear_media_conn m]\<rparr>, True)"
    using Cons.prems by (intro do_parse_media assms(1,2)) simp_all
  ultimately show ?case
    using Cons.IH [of "s\<lparr>sd_medias := sd_medias s @ [clear_media_conn m]\<rparr>" True] Cons.prems(1)
    by (simp add: do_parse_lines_append)
qed simp

section \<open>Properties\<close>

text \<open>
  C30: Parsing a printed session description gives it back, for every description whose texts are free of
  the separators of their lines; only the connection data (\<open>c=\<close>), which the parser skips, is lost.
\<close>
theorem sdp_print_parse_roundtrip:
  assumes "nceq_ok L" "regex_ok L" "session_wf L s"
  shows "do_parse L (sdp_to_string s) (sd_sdp_type s) = Parsed (clear_conn s)"
proof -
  let ?ls = "session_lines s @ concat (map sdp_media_lines (sd_medias s))"
  have m: "list_all (sdp_media_wf L) (sd_medias s)" using assms(3) unfolding session_wf_def by blast
  then have "list_all line_ok ?ls"
    using session_lines_ok [OF assms] sdp_media_lines_ok [OF assms(1,2)] by (auto simp: list_all_iff)
  then have "list_all text_ok ?ls" by (simp add: list_all_iff line_ok_def)
  then have lines: "split_lines (sdp_to_string s) = ?ls" unfolding sdp_to_string_def by (rule split_lines_crlf)
  have ne: "?ls \<noteq> []" by (simp add: session_lines_def)
  obtain b where "do_parse_lines L (concat (map sdp_media_lines (sd_medias s))) (s\<lparr>sd_conn := ([], [], []), sd_medias := []\<rparr>, False)
      = Parsed (s\<lparr>sd_conn := ([], [], []), sd_medias := map clear_media_conn (sd_medias s)\<rparr>, b)"
    using medias_roundtrip [OF assms(1,2) m, of "s\<lparr>sd_conn := ([], [], []), sd_medias := []\<rparr>" False] by auto
  then have "do_parse_lines L ?ls (session_description_default (sd_sdp_type s), False) = Parsed (clear_conn s, b)"
    by (simp add: do_parse_lines_append session_lines_roundtrip [OF assms] clear_conn_def)
  then show ?thesis unfolding do_parse_def lines using ne by (auto split: list.splits)
qed

text \<open>A library with the documented behaviour, for evaluation.\<close>

definition sdp_sample_lib :: sdp_lib where
  "sdp_sample_lib =
     \<lparr>nceq = (\<lambda>a b. map to_lower a = map to_lower b),
       rx_crypto = (\<lambda>s. case behind CHR '' '' s of None \<Rightarrow> None | Some a \<Rightarrow> (case behind CHR '' '' a of None \<Rightarrow> None
         | Some b \<Rightarrow> Some (before CHR '' '' s, before CHR '' '' a, before CHR '' '' b, case behind CHR '' '' b of None \<Rightarrow> [] | Some p \<Rightarrow> p))),
       rx_rtcp = (\<lambda>s. case behind CHR '' '' s of None \<Rightarrow> Some (s, None) | Some a \<Rightarrow> (case behind CHR '' '' a of None \<Rightarrow> None
         | Some b \<Rightarrow> (case behind CHR '' '' b of None \<Rightarrow> None | Some c \<Rightarrow> Some (before CHR '' '' s, Some (before CHR '' '' a, before CHR '' '' b, c))))),
       rx_rid = (\<lambda>s. case behind CHR '' '' s of None \<Rightarrow> None
         | Some a \<Rightarrow> Some (before CHR '' '' s, before CHR '' '' a, case behind CHR '' '' a of None \<Rightarrow> [] | Some p \<Rightarrow> p)),
       rx_param = (\<lambda>s. case behind CHR ''='' s of None \<Rightarrow> None | Some v \<Rightarrow> Some (before CHR ''='' s, v)),
       rx_tokens = split_char CHR '';'',
       rx_digits = split_by (\<lambda>c. \<not> is_digit c)\<rparr>"

lemma split_by_joined:
  assumes "p c" "list_all (\<lambda>x. x \<noteq> [] \<and> list_all (\<lambda>c. \<not> p c) x) xs"
  shows "split_by p (joined [c] xs) = xs"
  using assms(2)
proof (induction xs)
  case (Cons x xs)
  then show ?case
    using assms(1) split_by_word [of x p "[]"] split_by_word [of x p "c # joined [c] xs"] by (cases xs) (simp_all add: split_by_sep)
qed simp

lemma sdp_sample_lib_ok: "nceq_ok sdp_sample_lib" "regex_ok sdp_sample_lib"
proof -
  show "nceq_ok sdp_sample_lib" by (simp add: nceq_ok_def sdp_sample_lib_def)
  have n: "CHR '' '' \<notin> set (show_nat n)" for n
    using show_nat_digits [of n] by (auto simp: list_all_iff is_digit_def)
  have d: "CHR '' '' \<notin> set d" if "d \<in> {''send'', ''recv''}" for d using that by auto
  have t: "rx_tokens sdp_sample_lib (joined '';'' xs) = xs" if "list_all (\<lambda>x. x \<noteq> [] \<and> CHR '';'' \<notin> set x) xs" for xs
    using that by (simp add: sdp_sample_lib_def split_char_joined)
  have g: "rx_digits sdp_sample_lib (joined '','' (map show_nat ns)) = map show_nat ns" for ns
    using show_nat_digits by (simp add: sdp_sample_lib_def) (intro split_by_joined, auto simp: list_all_iff is_digit_def)
  show "regex_ok sdp_sample_lib"
    unfolding regex_ok_def
  proof (intro conjI allI impI)
    fix i d p :: string assume "word_ok i" "d \<in> {''send'', ''recv''}" "text_ok p"
    then show "rx_rid sdp_sample_lib (i @ '' '' @ d @ '' '' @ p) = Some (i, d, p)"
      using d [of d] by (simp add: sdp_sample_lib_def sdp_txt word_ok_no_space Let_def)
  next
    fix i d :: string assume "word_ok i" "d \<in> {''send'', ''recv''}"
    then show "rx_rid sdp_sample_lib (i @ '' '' @ d) = Some (i, d, [])"
      using d [of d] by (simp add: sdp_sample_lib_def sdp_txt word_ok_no_space Let_def)
  qed (use n t g in \<open>simp_all add: sdp_sample_lib_def sdp_txt word_ok_no_space Let_def\<close>)
qed

definition sdp_sample :: session_description where
  "sdp_sample = (session_description_default ''offer'')\<lparr>sd_ice_ufrag := ''abcd'',
     sd_groups := [\<lparr>gr_semantic = ''BUNDLE'', gr_items = [''0'']\<rparr>],
     sd_medias := [(sdp_media_default mt_video)\<lparr>md_mid := ''0'', md_rtcp_mux := True,
       md_formats := pt_formats [96],
       md_rtpmaps := [\<lparr>rm_payload_type = 96, rm_name = ''VP8'', rm_clock_rate = 90000, rm_channels = None, rm_params = []\<rparr>],
       md_rtcp_fbs := [\<lparr>fb_payload_type = Some 96, fb_type = ''nack'', fb_subtype = ''pli''\<rparr>]\<rparr>]\<rparr>"

theorem sdp_print_parse_roundtrip_witness:
  "do_parse sdp_sample_lib (sdp_to_string sdp_sample) ''offer'' = Parsed sdp_sample"
proof -
  have "session_wf sdp_sample_lib sdp_sample"
    by (simp add: session_wf_def sdp_sample_def session_description_default_def sdp_origin_default_def origin_wf_def
        conn_wf_def msid_semantic_wf_def group_wf_def word_ok_def text_ok_def end_ok_def is_space_def sdp_media_wf_def
        sdp_media_default_def media_formats_wf_def media_codecs_wf_def check_msid_def simulcast_wf_def simulcast_layers_wf_def
        rtpmap_wf_def rtcp_fb_wf_def fbs_ok_def fbs_of_def)
  moreover have "clear_conn sdp_sample = sdp_sample" "sd_sdp_type sdp_sample = ''offer''"
    by (simp_all add: clear_conn_def clear_media_conn_def sdp_sample_def session_description_default_def sdp_media_default_def)
  ultimately show ?thesis
    using sdp_print_parse_roundtrip [OF sdp_sample_lib_ok, of sdp_sample] by simp
qed

section \<open>Directions, codecs and feedback\<close>

text \<open>
  Negotiation: this side sends exactly when it is willing to and the peer to receive, it receives
  when it is willing to and the peer to send, and the peer, negotiating from its side, comes to the
  mirrored direction.
\<close>
theorem negotiate_direction_correct:
  "(negotiate_direction l r \<in> {sendonly, sendrecv} \<longleftrightarrow> l \<in> {sendonly, sendrecv} \<and> r \<in> {recvonly, sendrecv})
   \<and> (negotiate_direction l r \<in> {recvonly, sendrecv} \<longleftrightarrow> l \<in> {recvonly, sendrecv} \<and> r \<in> {sendonly, sendrecv})
   \<and> negotiate_direction r l = reverse_direction (negotiate_direction l r)
   \<and> negotiate_direction (negotiate_direction l r) r = negotiate_direction l r"
  by (cases l; cases r; simp add: negotiate_direction_def direction_of_bits_def)

lemma add_feedback_keeps:
  assumes "fbs_ok (md_rtcp_fbs m)" "fb_type f \<noteq> []"
  shows "fbs_ok (md_rtcp_fbs (add_feedback f m))
    \<and> list_ex (\<lambda>g. fb_eq g f \<and> (fb_payload_type g = None \<or> fb_payload_type g = fb_payload_type f)) (md_rtcp_fbs (add_feedback f m))"
proof (cases "fb_payload_type f")
  case None
  have s: "sorted_wrt (\<lambda>f g. \<not> fb_clash f g) (filter (\<lambda>g. \<not> fb_eq g f) (md_rtcp_fbs m))"
    using assms(1) by (simp add: fbs_ok_def sorted_wrt_filter)
  have "list_all (\<lambda>g. fb_type g \<noteq> []) (filter (\<lambda>g. \<not> fb_eq g f) (md_rtcp_fbs m))"
    using assms(1) by (simp add: fbs_ok_def list_all_iff)
  then show ?thesis
    using s None assms(2) by (auto simp: add_feedback_def fbs_ok_def sorted_wrt_append fb_clash_def fb_eq_def)
next
  case (Some pt)
  show ?thesis
  proof (cases "list_ex (\<lambda>g. fb_eq g f \<and> (case fb_payload_type g of None \<Rightarrow> True | Some p \<Rightarrow> p = pt)) (md_rtcp_fbs m)")
    case True
    then obtain g where "g \<in> set (md_rtcp_fbs m)" "fb_eq g f" "fb_payload_type g = None \<or> fb_payload_type g = Some pt"
      by (cases "\<exists>g\<in>set (md_rtcp_fbs m). fb_eq g f \<and> fb_payload_type g = None")
        (fastforce simp: list_ex_iff split: option.splits)+
    moreover have "add_feedback f m = m" using Some True assms(2) by (simp add: add_feedback_def)
    ultimately show ?thesis using Some assms by (auto simp: list_ex_iff)
  next
    case False
    then have "\<not> fb_clash g f" if "g \<in> set (md_rtcp_fbs m)" for g
      using that Some by (auto simp: fb_clash_def list_ex_iff split: option.splits)
    then show ?thesis
      using False Some assms by (simp add: add_feedback_def fbs_ok_def sorted_wrt_append fb_eq_def)
  qed
qed

text \<open>
  The feedback list of a media section never holds two entries for the same feedback of a common
  payload type: \<open>add_feedback\<close> keeps it so, and afterwards the added feedback is covered by an entry.
\<close>
theorem add_feedback_invariant:
  assumes "fbs_ok (md_rtcp_fbs m)" "fb_type f \<noteq> []"
  shows "fbs_ok (md_rtcp_fbs (add_feedback f m))
    \<and> list_ex (\<lambda>g. fb_eq g f \<and> (fb_payload_type g = None \<or> fb_payload_type g = fb_payload_type f)) (md_rtcp_fbs (add_feedback f m))"
  using assms by (rule add_feedback_keeps)

theorem add_feedback_invariant_witness:
  "let f = \<lparr>fb_payload_type = None, fb_type = ''nack'', fb_subtype = []\<rparr>;
       m = (sdp_media_default mt_video)\<lparr>md_rtcp_fbs := [\<lparr>fb_payload_type = Some 96, fb_type = ''nack'', fb_subtype = []\<rparr>]\<rparr>
   in fbs_ok (md_rtcp_fbs (add_feedback f m))"
  unfolding Let_def
  by (rule add_feedback_invariant [THEN conjunct1]) (simp_all add: fbs_ok_def sdp_media_default_def)

lemma rtpmap_is_match_iff:
  assumes "nceq_ok L"
  shows "rtpmap_is_match L a b \<longleftrightarrow>
    map to_lower (rm_name a) = map to_lower (rm_name b)
    \<and> (rm_clock_rate a, rm_channels a) = (rm_clock_rate b, rm_channels b)
    \<and> (map to_lower (rm_name a) = map to_lower ''H264'' \<longrightarrow>
        find_param (rm_params a) ''profile-level-id'' = find_param (rm_params b) ''profile-level-id'')"
  using assms by (auto simp: rtpmap_is_match_def nceq_ok_def)

text \<open>
  Codec matching is an equivalence relation.
\<close>
theorem rtpmap_is_match_equivalence:
  assumes "nceq_ok L"
  shows "rtpmap_is_match L a a \<and> rtpmap_is_match L a b = rtpmap_is_match L b a
    \<and> (rtpmap_is_match L a b \<longrightarrow> rtpmap_is_match L b c \<longrightarrow> rtpmap_is_match L a c)"
  unfolding rtpmap_is_match_iff [OF assms] by metis

theorem rtpmap_is_match_equivalence_witness:
  "let a = \<lparr>rm_payload_type = 96, rm_name = ''VP8'', rm_clock_rate = 90000, rm_channels = None, rm_params = []\<rparr>;
       b = \<lparr>rm_payload_type = 120, rm_name = ''vp8'', rm_clock_rate = 90000, rm_channels = None, rm_params = []\<rparr>
   in rtpmap_is_match sdp_sample_lib a b = rtpmap_is_match sdp_sample_lib b a"
  unfolding Let_def using rtpmap_is_match_equivalence [OF sdp_sample_lib_ok(1)] by blast

section \<open>The parameter string of a codec\<close>

lemma str_find_Some:
  "str_find n s = Some p \<longleftrightarrow>
     p \<le> length s \<and> take (length n) (drop p s) = n \<and> (\<forall>q<p. take (length n) (drop q s) \<noteq> n)"
proof (induction n s arbitrary: p rule: str_find.induct)
  case (1 n s)
  show ?case
  proof (cases "take (length n) s = n")
    case True
    then show ?thesis by (subst str_find.simps) auto
  next
    case False
    show ?thesis
    proof (cases s)
      case Nil
      then show ?thesis using False by (subst str_find.simps) auto
    next
      case (Cons c r)
      have "str_find n s = Some p \<longleftrightarrow> (\<exists>k. p = Suc k \<and> str_find n r = Some k)"
        using False Cons by (subst str_find.simps) auto
      also have "\<dots> \<longleftrightarrow> p \<le> length s \<and> take (length n) (drop p s) = n \<and> (\<forall>q<p. take (length n) (drop q s) \<noteq> n)"
        using 1 [OF False Cons] False Cons by (cases p) (auto simp: All_less_Suc2)
      finally show ?thesis .
    qed
  qed
qed

lemma str_find_None:
  "str_find n s = None \<longleftrightarrow> (\<forall>q\<le>length s. take (length n) (drop q s) \<noteq> n)"
proof -
  have "str_find n s \<noteq> None \<longleftrightarrow> (\<exists>p. str_find n s = Some p)" by simp
  also have "\<dots> \<longleftrightarrow> (\<exists>p\<le>length s. take (length n) (drop p s) = n)"
    unfolding str_find_Some
    using exists_least_iff [of "\<lambda>p. p \<le> length s \<and> take (length n) (drop p s) = n"] by (auto dest: less_imp_le_nat order_trans)
  finally show ?thesis by blast
qed

lemma find_param_at:
  assumes "str_find n s = Some p" "drop (p + length n) s = CHR ''='' # v @ r"
    and "CHR '';'' \<notin> set v" "r = [] \<or> hd r = CHR '';''"
  shows "find_param s n = Some v"
proof -
  have l: "length s = p + length n + 1 + length v + length r"
    using arg_cong [OF assms(2), of length] by (cases "p + length n \<le> length s") auto
  then have n: "s ! (p + length n) = CHR ''=''" using nth_drop [of "p + length n" s 0] assms(2) by simp
  have d: "drop (p + length n + 1) s = v @ r"
    using arg_cong [OF assms(2), of tl] by (simp flip: drop_Suc drop_tl add: tl_drop)
  have "takeWhile (\<lambda>c. c \<noteq> CHR '';'') (v @ r) = v"
    using assms(3,4) by (cases r) (auto simp: takeWhile_append)
  then have "semicolon_from (p + length n + 1) s = p + length n + 1 + length v"
    using d by (simp add: semicolon_from_def)
  then show ?thesis using assms(1) l n d by (simp add: find_param_def Let_def)
qed

text \<open>
  Setting a parameter makes it readable: after \<open>add_param\<close> the name has the new value, unless
  its first occurrence is not followed by an equals sign, in which case the string is left alone.
\<close>
theorem add_param_find:
  assumes "name \<noteq> []" "CHR '';'' \<notin> set name" "CHR '';'' \<notin> set val"
  shows "find_param (add_param params name val) name = Some val
    \<or> (add_param params name val = params \<and> find_param params name = None \<and> str_find name params \<noteq> None)"
proof (cases "str_find name params")
  case None
  show ?thesis
  proof (cases "params = []")
    case True
    have "str_find name (name @ ''='' @ val) = Some 0" by (simp add: str_find_Some)
    then show ?thesis using find_param_at [of name _ 0 val "[]"] True assms by (simp add: add_param_def)
  next
    case False
    let ?s = "params @ '';'' @ name @ ''='' @ val"
    have "take (length name) (drop q ?s) \<noteq> name" if q: "q < length params + 1" for q
    proof
      assume eq: "take (length name) (drop q ?s) = name"
      show False
      proof (cases "q + length name \<le> length params")
        case True
        then have "take (length name) (drop q params) = name" using eq by simp
        then show False using None q True unfolding str_find_None by auto
      next
        case False
        have "name ! (length params - q) = take (length name) (drop q ?s) ! (length params - q)" by (simp only: eq)
        also have "\<dots> = CHR '';''" using False q by (simp add: nth_append)
        finally show False using assms(2) False q by (metis nth_mem add.commute less_diff_conv2 not_le Suc_eq_plus1 less_Suc_eq_le)
      qed
    qed
    then have "str_find name ?s = Some (length params + 1)" by (simp add: str_find_Some)
    then show ?thesis
      using find_param_at [of name ?s "length params + 1" val "[]"] None False assms by (simp add: add_param_def)
  qed
next
  case (Some p)
  show ?thesis
  proof (cases "p + length name + 1 > length params \<or> params ! (p + length name) \<noteq> CHR ''=''")
    case True
    have "params \<noteq> []" using Some assms(1) by (auto simp: str_find_Some)
    then have "add_param params name val = params" "find_param params name = None"
      using True Some by (auto simp: add_param_def find_param_def)
    then show ?thesis using Some by simp
  next
    case False
    let ?b = "p + length name + 1"
    let ?r = "drop (semicolon_from ?b params) params"
    let ?s = "take ?b params @ val @ ?r"
    have ne: "params \<noteq> []" using False by auto
    have pre: "take (length name) (drop q ?s) = take (length name) (drop q params)" if "q \<le> p" for q
      using that False by (simp add: take_drop)
    have "str_find name ?s = Some p"
      using Some False pre unfolding str_find_Some by (simp add: min_def)
    moreover have "drop (p + length name) ?s = CHR ''='' # val @ ?r"
      using False by (simp add: take_Suc_conv_app_nth)
    moreover have "?r = [] \<or> hd ?r = CHR '';''"
    proof -
      have "?r = dropWhile (\<lambda>c. c \<noteq> CHR '';'') (drop ?b params)"
        by (simp add: semicolon_from_def dropWhile_eq_drop add.commute)
      then show ?thesis using hd_dropWhile [of "\<lambda>c. c \<noteq> CHR '';''" "drop ?b params"] by auto
    qed
    ultimately have "find_param ?s name = Some val" using find_param_at assms(3) by blast
    then show ?thesis using Some False ne by (simp add: add_param_def Let_def)
  qed
qed

theorem add_param_find_witness:
  "find_param (add_param ''apt=96;rtx=1'' ''apt'' ''97'') ''apt'' = Some ''97''"
  using add_param_find [of "''apt''" "''97''" "''apt=96;rtx=1''"]
  by (auto simp: str_find.simps add_param_def)

text \<open>
  The name is searched as a substring: a longer name that contains it hides it, so that the shorter
  one is not found, or removed in the middle of the other.
\<close>

lemma find_param_substring:
  "find_param ''max-apt=5;apt=96'' ''apt'' = Some ''5''"
  "find_param ''apts=5;apt=96'' ''apt'' = None"
  "remove_param ''x=1;max-apt=5'' ''apt'' = ''x=1;max-''"
  by code_simp+

section \<open>What the parser guarantees\<close>

definition media_inv :: "sdp_media \<Rightarrow> bool" where
  "media_inv m \<longleftrightarrow>
     distinct (map rm_payload_type (md_rtpmaps m)) \<and> fbs_ok (md_rtcp_fbs m) \<and>
     (case md_formats m of
        pt_formats pts \<Rightarrow> pts = map rm_payload_type (md_rtpmaps m) | _ \<Rightarrow> md_rtpmaps m = [])"

lemma media_inv_add_rtpmap: "media_inv m \<Longrightarrow> media_inv (add_rtpmap r m)"
  by (auto simp: media_inv_def add_rtpmap_def find_rtpmap_def find_None_iff split: sdp_formats.splits)

lemma set_rtpmap_params_pts: "map rm_payload_type (set_rtpmap_params pt ps rs) = map rm_payload_type rs"
  by (induction rs) auto

lemma media_inv_add_feedback: "media_inv m \<Longrightarrow> media_inv (add_feedback f m)"
proof -
  assume "media_inv m"
  moreover have "add_feedback f m = m \<or> fb_type f \<noteq> []" by (simp add: add_feedback_def)
  moreover have "md_rtpmaps (add_feedback f m) = md_rtpmaps m" "md_formats (add_feedback f m) = md_formats m"
    by (auto simp: add_feedback_def split: option.splits)
  moreover have "fbs_ok (md_rtcp_fbs m) \<Longrightarrow> fb_type f \<noteq> [] \<Longrightarrow> fbs_ok (md_rtcp_fbs (add_feedback f m))"
    using add_feedback_keeps by blast
  ultimately show ?thesis by (cases "md_formats m") (auto simp: media_inv_def)
qed

lemma media_inv_attr:
  assumes "media_inv m" "apply_media_attr L m n v = Some m'"
  shows "media_inv m'"
proof (cases "n \<in> {''rtpmap'', ''fmtp'', ''rtcp-fb''}")
  case True
  then consider "n = ''rtpmap''" | "n = ''fmtp''" | "n = ''rtcp-fb''" by blast
  then show ?thesis
  proof cases
    case 1
    then show ?thesis using assms by (auto simp: apply_media_attr_def media_inv_add_rtpmap)
  next
    case 2
    then obtain pt ps where "m' = m\<lparr>md_rtpmaps := set_rtpmap_params pt ps (md_rtpmaps m)\<rparr>"
      using assms(2) by (auto simp: apply_media_attr_def apply_fmtp_def bind_eq_Some_conv)
    moreover have "set_rtpmap_params pt ps (md_rtpmaps m) = [] \<longleftrightarrow> md_rtpmaps m = []"
      using set_rtpmap_params_pts [of pt ps "md_rtpmaps m"] by (metis Nil_is_map_conv)
    ultimately show ?thesis using assms(1) by (auto simp: media_inv_def set_rtpmap_params_pts split: sdp_formats.splits)
  next
    case 3
    then show ?thesis using assms by (auto simp: apply_media_attr_def media_inv_add_feedback)
  qed
next
  case False
  then have "md_rtpmaps m' = md_rtpmaps m \<and> md_formats m' = md_formats m \<and> md_rtcp_fbs m' = md_rtcp_fbs m"
    using assms(2) by (auto simp: apply_media_attr_def split: if_splits option.splits)
  then show ?thesis using assms(1) by (cases "md_formats m") (simp_all add: media_inv_def)
qed

lemma media_inv_media_line: "parse_media_line L v = Some m \<Longrightarrow> media_inv m"
proof -
  have add: "media_inv (fold add_format fs (m::sdp_media)) \<and> md_rtpmaps (fold add_format fs m) = []"
    if "media_inv m \<and> md_rtpmaps m = []" for fs m
    using that
  proof (induction fs arbitrary: m)
    case (Cons f fs)
    have "media_inv (add_format f m) \<and> md_rtpmaps (add_format f m) = []"
      using Cons.prems by (auto simp: media_inv_def add_format_def split: sdp_formats.splits)
    then show ?case using Cons.IH by simp
  qed simp
  have d: "media_inv ((sdp_media_default t)\<lparr>md_port := q\<rparr>) \<and> md_rtpmaps ((sdp_media_default t)\<lparr>md_port := q\<rparr>) = []"
    "media_inv ((sdp_media_default t)\<lparr>md_port := q, md_proto := r\<rparr>)
     \<and> md_rtpmaps ((sdp_media_default t)\<lparr>md_port := q, md_proto := r\<rparr>) = []" for t q r
    by (simp_all add: media_inv_def sdp_media_default_def fbs_ok_def)
  assume "parse_media_line L v = Some m"
  then show ?thesis
    using add [OF d(1)] add [OF d(2)] d
    by (auto simp: parse_media_line_def bind_eq_Some_conv Let_def split: list.splits option.splits if_splits)
qed

text \<open>What the parser keeps: every section satisfies \<open>media_inv\<close> and every finished one passed \<open>check_msid\<close>.\<close>

definition session_inv :: "session_description \<times> bool \<Rightarrow> bool" where
  "session_inv = (\<lambda>(s, in_media).
     list_all media_inv (sd_medias s) \<and> list_all check_msid (butlast (sd_medias s))
     \<and> (in_media \<longleftrightarrow> sd_medias s \<noteq> []))"

lemma session_inv_session_line:
  assumes "session_line L s type v = Parsed s'" shows "sd_medias s' = sd_medias s"
  using assms
  by (auto simp: session_line_def apply_session_attr_def from_option_def
      split: if_splits option.splits prod.splits)

lemma session_inv_media_line:
  assumes "media_line L s type v = Parsed s'" "session_inv (s, True)" shows "session_inv (s', True)"
proof -
  have ne: "sd_medias s \<noteq> []" using assms(2) by (simp add: session_inv_def)
  then have "media_inv (last (sd_medias s))" using assms(2) by (simp add: session_inv_def list_all_iff)
  then have "s' = s \<or> (\<exists>m. media_inv m \<and> s' = s\<lparr>sd_medias := butlast (sd_medias s) @ [m]\<rparr>)"
    using assms(1) media_inv_attr
    by (fastforce simp: media_line_def with_back_def from_option_def split: if_splits option.splits prod.splits)
  moreover have "list_all media_inv (butlast (sd_medias s))"
    using assms(2) by (auto simp: session_inv_def list_all_iff dest: in_set_butlastD)
  ultimately show ?thesis using assms(2) by (auto simp: session_inv_def)
qed

lemma session_inv_line:
  assumes "do_parse_line L l st = Parsed st'" "session_inv st" shows "session_inv st'"
proof (cases st)
  case (Pair s b)
  show ?thesis
  proof (cases "trim l = []")
    case True
    then show ?thesis using assms Pair by (simp add: do_parse_line_def)
  next
    case False
    then obtain type v where lv: "parse_line_type_value (trim l) = Parsed (type, v)"
      using assms(1) Pair by (auto simp: do_parse_line_def Let_def split: parsed.splits)
    show ?thesis
    proof (cases "type = CHR ''m''")
      case True
      then obtain m where m: "parse_media_line L v = Some m" "st' = (s\<lparr>sd_medias := sd_medias s @ [m]\<rparr>, True)"
        and c: "sd_medias s = [] \<or> check_msid (last (sd_medias s))"
        using assms(1) False lv Pair by (auto simp: do_parse_line_def Let_def split: option.splits if_splits)
      have "list_all check_msid (sd_medias s)"
        using c assms(2) Pair by (cases "sd_medias s" rule: rev_cases) (auto simp: session_inv_def)
      then show ?thesis using m media_inv_media_line [OF m(1)] assms(2) Pair by (simp add: session_inv_def)
    next
      case other: False
      obtain s' where s': "(if b then media_line L s type v else session_line L s type v) = Parsed s'" "st' = (s', b)"
        using assms(1) False lv Pair other by (auto simp: do_parse_line_def Let_def split: parsed.splits)
      show ?thesis
      proof (cases b)
        case True
        then show ?thesis using s' session_inv_media_line assms(2) Pair by auto
      next
        case False
        then show ?thesis using s' session_inv_session_line [of L s type v s'] assms(2) Pair by (simp add: session_inv_def)
      qed
    qed
  qed
qed

lemma session_inv_lines:
  "do_parse_lines L ls st = Parsed st' \<Longrightarrow> session_inv st \<Longrightarrow> session_inv st'"
  by (induction ls arbitrary: st) (auto split: parsed.splits dest: session_inv_line)

text \<open>
  C31: What a parsed description satisfies whatever the peer sent: in every media section the payload
  types of the codecs are distinct and are the formats of the section, no two feedback entries clash,
  and every section but the last one passed the msid check.
\<close>
theorem do_parse_guarantees:
  assumes "do_parse L sdp type = Parsed s"
  shows "list_all media_inv (sd_medias s) \<and> list_all check_msid (butlast (sd_medias s))"
proof -
  obtain ls b where "do_parse_lines L ls (session_description_default type, False) = Parsed (s, b)"
    using assms by (auto simp: do_parse_def simp del: do_parse_lines.simps split: list.splits parsed.splits prod.splits)
  moreover have "session_inv (session_description_default type, False)"
    by (simp add: session_inv_def session_description_default_def)
  ultimately have "session_inv (s, b)" by (rule session_inv_lines)
  then show ?thesis by (simp add: session_inv_def)
qed

theorem do_parse_guarantees_witness:
  "let m = (sdp_media_default mt_audio)\<lparr>md_port := 9\<rparr>;
       s = (session_description_default ''offer'')\<lparr>sd_medias := [m]\<rparr>
   in do_parse sdp_sample_lib ''m=audio 9 RTP/AVP 0'' ''offer'' = Parsed s \<and> list_all media_inv (sd_medias s)"
proof -
  let ?l = "''m=audio 9 RTP/AVP 0''"
  let ?s = "(session_description_default ''offer'')\<lparr>sd_medias := [(sdp_media_default mt_audio)\<lparr>md_port := 9\<rparr>]\<rparr>"
  have "split_lines ?l = [?l]" by (subst split_lines.simps) (simp add: strip_cr_def)
  moreover have "parse_media_line sdp_sample_lib ''audio 9 RTP/AVP 0'' = Some ((sdp_media_default mt_audio)\<lparr>md_port := 9\<rparr>)"
  proof -
    have "stream_words ''audio 9 RTP/AVP 0'' = [''audio'', ''9'', ''RTP/AVP'', ''0'']" by code_simp
    moreover have "parse_media_port ''9'' = Some 9"
      by (simp add: parse_media_port_def parse_uint16_def from_chars_def dec_val_def digit_val_def is_digit_def behind_def before_def)
    moreover have "parse_sdp_media_type sdp_sample_lib ''audio'' = Some mt_audio"
      "parse_sdp_proto sdp_sample_lib ''RTP/AVP'' = Some (md_proto (sdp_media_default mt_audio))"
      using names_roundtrip(1) [OF sdp_sample_lib_ok(1), of mt_audio]
        names_roundtrip(2) [OF sdp_sample_lib_ok(1), of "md_proto (sdp_media_default mt_audio)"]
      by (simp_all add: sdp_media_default_def)
    ultimately show ?thesis by (simp add: parse_media_line_def)
  qed
  moreover have "trim ?l = ?l" "parse_line_type_value ?l = Parsed (CHR ''m'', ''audio 9 RTP/AVP 0'')" by code_simp+
  moreover have "sd_medias (session_description_default ''offer'') = []" by (simp add: session_description_default_def)
  ultimately have "do_parse sdp_sample_lib ?l ''offer'' = Parsed ?s"
    by (simp only: do_parse_def do_parse_line_def list.case do_parse_lines.simps parsed.case option.case prod.case
        Let_def if_True if_False list.distinct append_Nil simp_thms)
  then show ?thesis using do_parse_guarantees [of sdp_sample_lib ?l "''offer''" ?s] by (simp add: Let_def)
qed

section \<open>When the parser is defined\<close>

lemma trim_last: "trim s \<noteq> [] \<Longrightarrow> \<not> is_space (last (trim s))"
  by (simp add: trim_def last_rev hd_dropWhile)

lemma split_by_empty_iff: "split_by p s = [] \<longleftrightarrow> list_all p s"
proof -
  have "list_all p s \<longleftrightarrow> dropWhile p s = []" by (simp add: list_all_iff dropWhile_eq_Nil_conv)
  then show ?thesis by (subst split_by.simps) (cases "dropWhile p s"; simp only: list.case list.distinct simp_thms)
qed

text \<open>A line whose attribute is \<open>msid-semantic\<close> without a value, with or without the colon.\<close>

definition bare_semantic :: "string \<Rightarrow> bool" where
  "bare_semantic l \<longleftrightarrow> trim l = ''a=msid-semantic'' \<or> trim l = ''a=msid-semantic:''"

lemma bare_semantic_attr:
  assumes "trim l = CHR ''a'' # CHR ''='' # val" "split_attr val = (''msid-semantic'', v)" "split_whitespace v = []"
  shows "bare_semantic l"
proof (cases "behind CHR '':'' val")
  case None
  then show ?thesis using assms(1,2) by (simp add: split_attr_def bare_semantic_def)
next
  case (Some r)
  then have v: "v = r" "before CHR '':'' val = ''msid-semantic''" using assms(2) by (simp_all add: split_attr_def)
  have "val = before CHR '':'' val @ dropWhile (\<lambda>x. x \<noteq> CHR '':'') val" by (simp add: before_def)
  moreover have "dropWhile (\<lambda>x. x \<noteq> CHR '':'') val = CHR '':'' # r"
    using Some by (auto simp: behind_def dropWhile_eq_Cons_conv split: list.splits)
  ultimately have val: "val = ''msid-semantic:'' @ v" using v by simp
  have "v = []"
  proof (rule ccontr)
    assume ne: "v \<noteq> []"
    then have "last v = CHR '' ''" using assms(3) by (simp add: split_whitespace_def split_by_empty_iff list_all_iff)
    moreover have "last (trim l) = last v" using assms(1) ne by (simp add: val)
    ultimately show False using trim_last [of l] assms(1) by (simp add: is_space_def)
  qed
  then show ?thesis using assms(1) val by (simp add: bare_semantic_def)
qed

lemma bare_semantic_parts:
  assumes "bare_semantic l"
  shows "\<exists>val. trim l = CHR ''a'' # CHR ''='' # val \<and> split_attr val = (''msid-semantic'', [])"
  using assms by (auto simp: bare_semantic_def split_attr_def behind_def before_def)

lemma session_attr_undefined:
  "apply_session_attr L s n v = Undefined \<longleftrightarrow> n = ''msid-semantic'' \<and> split_whitespace v = []"
  by (auto simp: apply_session_attr_def from_option_def parse_msid_semantic_def split: option.splits list.splits)

lemma session_line_undefined:
  "session_line L s ty val = Undefined \<longleftrightarrow>
     ty = CHR ''a'' \<and> fst (split_attr val) = ''msid-semantic'' \<and> split_whitespace (snd (split_attr val)) = []"
  by (auto simp: session_line_def from_option_def session_attr_undefined split_beta split: option.splits)

lemma media_line_defined: "sd_medias s \<noteq> [] \<Longrightarrow> media_line L s ty val \<noteq> Undefined"
  by (simp add: media_line_def with_back_def from_option_def split_beta split: option.split)

lemma parse_line_type_value_cases:
  "parse_line_type_value line = (if length line < 2 \<or> line ! 1 \<noteq> CHR ''='' then Rejected else Parsed (line ! 0, drop 2 line))"
  by (auto simp: parse_line_type_value_def with_elem_def)

lemma line_undefined:
  assumes "session_inv (s, b)"
  shows "do_parse_line L l (s, b) = Undefined \<longleftrightarrow> \<not> b \<and> bare_semantic l"
proof
  assume u: "do_parse_line L l (s, b) = Undefined"
  then have t: "\<not> length (trim l) < 2" "trim l ! 1 = CHR ''=''"
    by (auto simp: do_parse_line_def parse_line_type_value_cases Let_def split: if_splits)
  then obtain ty val where l: "trim l = ty # CHR ''='' # val" by (cases "trim l"; cases "tl (trim l)") auto
  have m: "ty \<noteq> CHR ''m''"
    using u by (auto simp: do_parse_line_def parse_line_type_value_cases l Let_def split: if_splits option.splits)
  then have "(if b then media_line L s ty val else session_line L s ty val) = Undefined"
    using u by (cases "if b then media_line L s ty val else session_line L s ty val")
      (simp_all add: do_parse_line_def parse_line_type_value_cases l)
  moreover have "b \<longrightarrow> media_line L s ty val \<noteq> Undefined" using assms by (simp add: session_inv_def media_line_defined)
  ultimately have "\<not> b" "session_line L s ty val = Undefined" by (simp_all split: if_splits)
  then show "\<not> b \<and> bare_semantic l"
    using l bare_semantic_attr [of l val "snd (split_attr val)"] by (cases "split_attr val") (simp add: session_line_undefined)
next
  assume b: "\<not> b \<and> bare_semantic l"
  then obtain val where l: "trim l = CHR ''a'' # CHR ''='' # val" "split_attr val = (''msid-semantic'', [])"
    using bare_semantic_parts by blast
  then have "session_line L s CHR ''a'' val = Undefined" by (simp add: session_line_undefined split_whitespace_def split_by_empty_iff)
  then show "do_parse_line L l (s, b) = Undefined" using b l by (simp add: do_parse_line_def parse_line_type_value_cases)
qed

text \<open>Whether the parser is in a media section: after the first line that opens one.\<close>

definition opens_media :: "string \<Rightarrow> bool" where
  "opens_media l \<longleftrightarrow> take 2 (trim l) = ''m=''"

lemma line_in_media:
  assumes "do_parse_line L l (s, b) = Parsed (s', b')"
  shows "b' \<longleftrightarrow> b \<or> opens_media l"
proof (cases "trim l = []")
  case True
  then show ?thesis using assms by (simp add: do_parse_line_def opens_media_def)
next
  case False
  then have "\<not> length (trim l) < 2 \<and> trim l ! 1 = CHR ''=''"
    using assms by (auto simp: do_parse_line_def parse_line_type_value_cases Let_def split: if_splits)
  then obtain ty val where l: "trim l = ty # CHR ''='' # val" by (cases "trim l"; cases "tl (trim l)") auto
  show ?thesis using assms
    by (auto simp: do_parse_line_def parse_line_type_value_cases l opens_media_def Let_def split: if_splits option.splits parsed.splits)
qed

lemma lines_in_media:
  "do_parse_lines L ls (s, b) = Parsed (s', b') \<Longrightarrow> b' \<longleftrightarrow> b \<or> list_ex opens_media ls"
proof (induction ls arbitrary: s b)
  case (Cons l ls)
  then obtain s1 b1 where 1: "do_parse_line L l (s, b) = Parsed (s1, b1)" "do_parse_lines L ls (s1, b1) = Parsed (s', b')"
    by (auto split: parsed.splits)
  show ?case using Cons.IH [OF 1(2)] line_in_media [OF 1(1)] by auto
qed simp

lemma lines_undefined:
  "session_inv (s, b) \<Longrightarrow> do_parse_lines L ls (s, b) = Undefined \<longleftrightarrow>
     (\<exists>pre l post s'. ls = pre @ l # post \<and> bare_semantic l \<and> do_parse_lines L pre (s, b) = Parsed (s', False))"
proof (induction ls arbitrary: s b)
  case (Cons l ls)
  let ?P = "\<lambda>ls st. \<exists>pre k post s'. ls = pre @ k # post \<and> bare_semantic k \<and> do_parse_lines L pre st = Parsed (s', False)"
  have split: "?P (l # ls) (s, b) \<longleftrightarrow> \<not> b \<and> bare_semantic l \<or> (\<exists>st1. do_parse_line L l (s, b) = Parsed st1 \<and> ?P ls st1)"
  proof
    assume "?P (l # ls) (s, b)"
    then obtain pre k post s' where p: "l # ls = pre @ k # post" "bare_semantic k" "do_parse_lines L pre (s, b) = Parsed (s', False)" by blast
    show "\<not> b \<and> bare_semantic l \<or> (\<exists>st1. do_parse_line L l (s, b) = Parsed st1 \<and> ?P ls st1)"
    proof (cases pre)
      case Nil
      then show ?thesis using p by simp
    next
      case (Cons l' pre')
      then obtain st1 where "do_parse_line L l (s, b) = Parsed st1" "do_parse_lines L pre' st1 = Parsed (s', False)"
        using p by (auto split: parsed.splits)
      then show ?thesis using p Cons by auto
    qed
  next
    assume "\<not> b \<and> bare_semantic l \<or> (\<exists>st1. do_parse_line L l (s, b) = Parsed st1 \<and> ?P ls st1)"
    then show "?P (l # ls) (s, b)"
    proof
      assume "\<not> b \<and> bare_semantic l"
      then show ?thesis by (intro exI [of _ "[]"] exI [of _ l] exI [of _ ls] exI [of _ s]) simp
    next
      assume "\<exists>st1. do_parse_line L l (s, b) = Parsed st1 \<and> ?P ls st1"
      then obtain st1 pre k post s' where "do_parse_line L l (s, b) = Parsed st1" "ls = pre @ k # post" "bare_semantic k"
        "do_parse_lines L pre st1 = Parsed (s', False)" by blast
      then show ?thesis by (intro exI [of _ "l # pre"] exI [of _ k] exI [of _ post] exI [of _ s']) simp
    qed
  qed
  show ?case
  proof (cases "do_parse_line L l (s, b)")
    case Undefined
    then show ?thesis unfolding split using line_undefined [OF Cons.prems, of L l] by simp
  next
    case Rejected
    then show ?thesis unfolding split using line_undefined [OF Cons.prems, of L l] by simp
  next
    case (Parsed st1)
    then have "session_inv st1" by (rule session_inv_line [OF _ Cons.prems])
    then have "do_parse_lines L ls st1 = Undefined \<longleftrightarrow> ?P ls st1" using Cons.IH [of "fst st1" "snd st1"] by simp
    moreover have "\<not> (\<not> b \<and> bare_semantic l)" using line_undefined [OF Cons.prems, of L l] Parsed by simp
    ultimately show ?thesis unfolding split do_parse_lines.simps Parsed parsed.case parsed.inject by blast
  qed
qed simp

text \<open>
  C32: When parsing has undefined behaviour. Every read of an element of a line, of the lines or of the
  sections is of one that is there, except in one case: there is a line \<open>a=msid-semantic\<close> without a
  value (with the colon or without it) before the first media line, and what precedes it parses. Then,
  and only then, the parser takes the first of no tokens.
\<close>
theorem sdp_parse_defined:
  "do_parse L sdp type = Undefined \<longleftrightarrow>
     (\<exists>pre l post st. split_lines sdp = pre @ l # post
        \<and> (trim l = ''a=msid-semantic'' \<or> trim l = ''a=msid-semantic:'')
        \<and> \<not> list_ex (\<lambda>k. take 2 (trim k) = ''m='') pre
        \<and> do_parse_lines L pre (session_description_default type, False) = Parsed st)"
proof -
  let ?i = "(session_description_default type, False)"
  have inv: "session_inv ?i" by (simp add: session_inv_def session_description_default_def)
  have "do_parse L sdp type = Undefined \<longleftrightarrow> do_parse_lines L (split_lines sdp) ?i = Undefined"
    by (auto simp: do_parse_def split: list.splits parsed.splits)
  also have "\<dots> \<longleftrightarrow> (\<exists>pre l post st. split_lines sdp = pre @ l # post \<and> bare_semantic l \<and> \<not> list_ex opens_media pre
        \<and> do_parse_lines L pre ?i = Parsed st)"
    unfolding lines_undefined [OF inv] using lines_in_media by (metis (full_types) surj_pair)
  finally show ?thesis by (simp add: bare_semantic_def opens_media_def [abs_def])
qed

theorem sdp_parse_defined_witness:
  "do_parse sdp_sample_lib ''a=msid-semantic:'' ''offer'' = Undefined \<and> do_parse sdp_sample_lib ''a=msid-semantic: WMS'' ''offer'' \<noteq> Undefined"
proof -
  have l: "split_lines ''a=msid-semantic:'' = [''a=msid-semantic:'']" "split_lines ''a=msid-semantic: WMS'' = [''a=msid-semantic: WMS'']"
    by (subst split_lines.simps, simp add: strip_cr_def)+
  have t: "trim ''a=msid-semantic:'' = ''a=msid-semantic:''" "trim ''a=msid-semantic: WMS'' = ''a=msid-semantic: WMS''" by code_simp+
  have "do_parse sdp_sample_lib ''a=msid-semantic:'' ''offer'' = Undefined"
    unfolding sdp_parse_defined [of sdp_sample_lib "''a=msid-semantic:''"] l(1)
    by (intro exI [of _ "[]"] exI [of _ "''a=msid-semantic:''"] exI) (simp add: t)
  moreover have "do_parse sdp_sample_lib ''a=msid-semantic: WMS'' ''offer'' \<noteq> Undefined"
    unfolding sdp_parse_defined [of sdp_sample_lib "''a=msid-semantic: WMS''"] l(2)
    by (auto simp: t Cons_eq_append_conv)
  ultimately show ?thesis by blast
qed

end
