(* ===== verification/Transceiver.thy ===== *)
theory Transceiver
  imports SdpFacts SdpRound Jitter SsrcStats Packetizers
begin

text \<open>
  \<open>src/rtp_transceiver.cpp\<close> with \<open>rtp_transceiver.hpp\<close>, \<open>rtp_stream.hpp\<close> and the track of a receiver
  (\<open>media_track_impl\<close>): the two halves of a media section, the section they offer, the one they
  answer with, and what they take from the sections of the peer. The task handles, the back
  references and the mutexes of the coroutines are left out; the random track identifier of a new
  track is an argument.
\<close>

section \<open>Data\<close>

datatype media_kind = mk_audio | mk_video

record history_entry =
  he_payload :: bytes
  he_seq :: u16
  he_timestamp :: u32

record rtp_stream =
  sm_ssrc :: u32
  sm_rtx_ssrc :: u32
  sm_rtx_pt :: u8
  sm_seq :: u16
  sm_rtx_seq :: u16
  sm_rid :: string
  sm_packet_count :: u32
  sm_octet_count :: u32
  sm_ntp_timestamp :: u64
  sm_rtp_timestamp :: u32
  sm_history :: "history_entry option list"

definition HISTORY_SIZE :: nat where
  "HISTORY_SIZE = 128"

definition rtp_stream_default :: rtp_stream where
  "rtp_stream_default = \<lparr>sm_ssrc = 0, sm_rtx_ssrc = 0, sm_rtx_pt = 97, sm_seq = 0, sm_rtx_seq = 0,
     sm_rid = [], sm_packet_count = 0, sm_octet_count = 0, sm_ntp_timestamp = 0, sm_rtp_timestamp = 0,
     sm_history = replicate HISTORY_SIZE None\<rparr>"

text \<open>The parameters of an encoding; the scaling factor, which nothing reads, is left out.\<close>

record rtp_encoding_parameters =
  ep_active :: bool
  ep_max_bitrate :: "u32 option"
  ep_scalability_mode :: string
  ep_rid :: string

text \<open>A track of the application: what the interface \<open>media_track\<close> answers.\<close>

record media_track =
  tk_id :: string
  tk_kind :: media_kind
  tk_description :: media_description

datatype rtp_packetizer = H264Packetizer | Vp9Packetizer u16 | Vp8Packetizer u16 | OpusPacketizer

record rtp_sender =
  sn_track :: "media_track option"
  sn_stopped :: bool
  sn_encodings :: "rtp_encoding_parameters list"
  sn_msids :: "string list"
  sn_packetizer :: "rtp_packetizer option"
  sn_streams :: "rtp_stream list"

definition rtp_sender_default :: rtp_sender where
  "rtp_sender_default = \<lparr>sn_track = None, sn_stopped = False, sn_encodings = [], sn_msids = [],
     sn_packetizer = None, sn_streams = []\<rparr>"

record media_track_impl =
  mt_codec :: sdp_rtpmap
  mt_id :: string
  mt_ended :: bool
  mt_jitter :: jitter_buffer

definition media_track_impl_new :: "sdp_lib \<Rightarrow> string \<Rightarrow> sdp_rtpmap \<Rightarrow> media_track_impl" where
  "media_track_impl_new L uuid codec = \<lparr>mt_codec = codec, mt_id = uuid, mt_ended = False,
     mt_jitter = jitter_buffer_new 500 (\<not> nceq L (rm_name codec) ''opus'')\<rparr>"

definition set_rtpmap :: "sdp_rtpmap \<Rightarrow> media_track_impl \<Rightarrow> media_track_impl" where
  "set_rtpmap r t = t\<lparr>mt_codec := r\<rparr>"

definition track_kind :: "sdp_lib \<Rightarrow> media_track_impl \<Rightarrow> media_kind" where
  "track_kind L t = (if nceq L ''opus'' (rm_name (mt_codec t)) then mk_audio else mk_video)"

definition track_format :: "sdp_lib \<Rightarrow> media_track_impl \<Rightarrow> media_format" where
  "track_format L t =
     (if nceq L (rm_name (mt_codec t)) ''H264'' then mf_h264
      else if nceq L (rm_name (mt_codec t)) ''VP8'' then mf_vp8
      else if nceq L (rm_name (mt_codec t)) ''VP9'' then mf_vp9
      else if nceq L (rm_name (mt_codec t)) ''opus'' then mf_opus
      else mf_unknown)"

definition track_description :: "sdp_lib \<Rightarrow> media_track_impl \<Rightarrow> media_description" where
  "track_description L t = \<lparr>mdesc_format = track_format L t, mdesc_clock_rate = rm_clock_rate (mt_codec t),
     mdesc_encoding_params = rm_params (mt_codec t), mdesc_channels = rm_channels (mt_codec t)\<rparr>"

definition track_stop :: "media_track_impl \<Rightarrow> media_track_impl" where
  "track_stop t = t\<lparr>mt_ended := True\<rparr>"

definition push_frame :: "rtp_packet \<Rightarrow> media_track_impl \<Rightarrow> media_track_impl" where
  "push_frame p t = t\<lparr>mt_jitter := jb_push p (mt_jitter t)\<rparr>"

record rtp_receiver =
  rc_track :: "media_track_impl option"
  rc_stopped :: bool
  rc_extensions :: "sdp_extmap list"
  rc_rtcp_ssrc :: u32
  rc_ssrcs :: "ssrc_context list"

definition rtp_receiver_default :: rtp_receiver where
  "rtp_receiver_default = \<lparr>rc_track = None, rc_stopped = False, rc_extensions = [], rc_rtcp_ssrc = 0, rc_ssrcs = []\<rparr>"

record rtp_transceiver =
  tr_m_idx :: "nat option"
  tr_mid :: string
  tr_direction :: sdp_direction
  tr_sender :: rtp_sender
  tr_receiver :: rtp_receiver
  tr_codec :: sdp_rtpmap
  tr_stopped :: bool
  tr_send_encodings :: "rtp_encoding_parameters list"

definition rtp_transceiver_new :: "sdp_rtpmap \<Rightarrow> rtp_transceiver" where
  "rtp_transceiver_new codec = \<lparr>tr_m_idx = None, tr_mid = [], tr_direction = sendrecv,
     tr_sender = rtp_sender_default, tr_receiver = rtp_receiver_default, tr_codec = codec,
     tr_stopped = False, tr_send_encodings = []\<rparr>"

section \<open>Operations\<close>

definition get_media_type :: "media_kind \<Rightarrow> sdp_media_type" where
  "get_media_type k = (if k = mk_audio then mt_audio else mt_video)"

definition tr_kind :: "sdp_lib \<Rightarrow> rtp_transceiver \<Rightarrow> media_kind" where
  "tr_kind L t = (if nceq L (rm_name (tr_codec t)) ''opus'' then mk_audio else mk_video)"

definition tr_stop :: "rtp_transceiver \<Rightarrow> rtp_transceiver" where
  "tr_stop t =
     (if tr_stopped t then t
      else t\<lparr>tr_stopped := True, tr_sender := (tr_sender t)\<lparr>sn_stopped := True\<rparr>,
             tr_receiver := (tr_receiver t)\<lparr>rc_stopped := True\<rparr>\<rparr>)"

text \<open>The URIs of the header extensions.\<close>

definition uri_mid :: string where
  "uri_mid = ''urn:ietf:params:rtp-hdrext:sdes:mid''"
definition uri_rid :: string where
  "uri_rid = ''urn:ietf:params:rtp-hdrext:sdes:rtp-stream-id''"
definition uri_abs :: string where
  "uri_abs = ''http://www.webrtc.org/experiments/rtp-hdrext/abs-send-time''"
definition uri_tcc :: string where
  "uri_tcc = ''http://www.ietf.org/id/draft-holmer-rmcat-transport-wide-cc-extensions-01''"

definition extmap :: "u16 \<Rightarrow> string \<Rightarrow> sdp_extmap" where
  "extmap i uri = \<lparr>em_id = i, em_uri = uri, em_direction = None, em_attributes = []\<rparr>"

definition wildcard_conn :: "string \<times> string \<times> string" where
  "wildcard_conn = (''IN'', ''IP4'', ''0.0.0.0'')"

text \<open>The retransmission codec that accompanies a video codec in an offer.\<close>

definition rtx_rtpmap :: "sdp_rtpmap \<Rightarrow> sdp_rtpmap" where
  "rtx_rtpmap codec = \<lparr>rm_payload_type = rm_payload_type codec + 1, rm_name = ''rtx'',
     rm_clock_rate = rm_clock_rate codec, rm_channels = None,
     rm_params = add_param [] ''apt'' (show_word (rm_payload_type codec))\<rparr>"

definition offer_video :: "sdp_rtpmap \<Rightarrow> sdp_media \<Rightarrow> sdp_media" where
  "offer_video codec m =
     (let pt = rm_payload_type codec;
          m = add_rtpmap (rtx_rtpmap codec) m;
          m = m\<lparr>md_extmaps := [extmap 1 uri_mid, extmap 2 uri_rid, extmap 3 uri_abs, extmap 4 uri_tcc]\<rparr>;
          m = add_feedback \<lparr>fb_payload_type = Some pt, fb_type = ''nack'', fb_subtype = []\<rparr> m;
          m = add_feedback \<lparr>fb_payload_type = Some pt, fb_type = ''nack'', fb_subtype = ''pli''\<rparr> m
      in add_feedback \<lparr>fb_payload_type = Some pt, fb_type = ''goog-remb'', fb_subtype = []\<rparr> m)"

definition to_offer_sdp_media :: "sdp_lib \<Rightarrow> string \<Rightarrow> rtp_transceiver \<Rightarrow> sdp_media" where
  "to_offer_sdp_media L mid t =
     (let codec = tr_codec t;
          m = (sdp_media_default (get_media_type (tr_kind L t)))
                \<lparr>md_mid := mid, md_port := 9, md_proto := UDP_TLS_RTP_SAVPF, md_conn := wildcard_conn,
                 md_rtcp_mux := True\<rparr>;
          m = add_rtpmap codec m
      in if tr_stopped t then m\<lparr>md_port := 0, md_direction := inactive\<rparr>
         else (let m = m\<lparr>md_direction := tr_direction t\<rparr>;
                   m = (case sn_track (tr_sender t) of None \<Rightarrow> m
                        | Some tk \<Rightarrow> m\<lparr>md_msids := md_msids m @
                            map (\<lambda>ms. \<lparr>ms_stream_id = ms, ms_track_id = tk_id tk\<rparr>) (sn_msids (tr_sender t))\<rparr>);
                   m = (if tr_kind L t = mk_video then offer_video codec m
                        else m\<lparr>md_extmaps := [extmap 1 uri_mid, extmap 4 uri_tcc]\<rparr>)
               in if tr_direction t = sendrecv \<or> tr_direction t = sendonly
                  then m\<lparr>md_rids := map (\<lambda>p. \<lparr>rid_id = ep_rid p, rid_direction = rid_send,
                         rid_payload_types = [], rid_params = []\<rparr>)
                         (filter (\<lambda>p. ep_rid p \<noteq> []) (sn_encodings (tr_sender t)))\<rparr>
                  else m))"

definition match_offer_rtpmaps :: "sdp_lib \<Rightarrow> sdp_media \<Rightarrow> rtp_transceiver \<Rightarrow> sdp_rtpmap list" where
  "match_offer_rtpmaps L offer t =
     (case find (rtpmap_is_match L (tr_codec t)) (md_rtpmaps offer) of None \<Rightarrow> [] | Some c \<Rightarrow> [c])"

text \<open>The codecs of an answer: the matching one, or the first of the offer if none matches.\<close>

definition answer_codecs :: "sdp_lib \<Rightarrow> sdp_media \<Rightarrow> rtp_transceiver \<Rightarrow> sdp_media \<Rightarrow> sdp_media" where
  "answer_codecs L remote t m =
     (let m = fold add_rtpmap (match_offer_rtpmaps L remote t) m
      in case (md_rtpmaps m, md_rtpmaps remote) of
           ([], r # _) \<Rightarrow> add_rtpmap r m
         | _ \<Rightarrow> m)"

text \<open>The source attributes of an answer.\<close>

definition answer_ssrcs :: "rtp_transceiver \<Rightarrow> sdp_ssrc list" where
  "answer_ssrcs t =
     (case sn_streams (tr_sender t) of [] \<Rightarrow> []
      | s # _ \<Rightarrow>
          (let tid = (case sn_track (tr_sender t) of Some tk \<Rightarrow> tk_id tk | None \<Rightarrow> tr_mid t)
           in \<lparr>ss_ssrc = sm_ssrc s, ss_attribute = ''cname'', ss_value = ''asiortc''\<rparr>
              # map (\<lambda>ms. \<lparr>ss_ssrc = sm_ssrc s, ss_attribute = ''msid'', ss_value = ms @ '' '' @ tid\<rparr>)
                  (sn_msids (tr_sender t))))"

definition to_answer_sdp_media :: "sdp_lib \<Rightarrow> sdp_media \<Rightarrow> rtp_transceiver \<Rightarrow> sdp_media" where
  "to_answer_sdp_media L remote t =
     (let m = (sdp_media_default (md_media_type remote))
                \<lparr>md_mid := tr_mid t, md_proto := md_proto remote, md_conn := wildcard_conn,
                 md_rtcp_mux := md_rtcp_mux remote, md_msids := md_msids remote,
                 md_direction := negotiate_direction (tr_direction t) (md_direction remote)\<rparr>;
          m = answer_codecs L remote t m
      in if tr_stopped t \<or> md_direction m = inactive
         then m\<lparr>md_port := 0, md_direction := inactive\<rparr>
         else m\<lparr>md_ssrcs := answer_ssrcs t, md_port := 9, md_extmaps := md_extmaps remote,
                md_msids := md_msids remote\<rparr>)"

text \<open>
  The codec of the peer that this side can use. Both functions below test the negotiated direction,
  then look for the codec; the section is given up when there is none.
\<close>

definition remote_codec :: "sdp_lib \<Rightarrow> sdp_media \<Rightarrow> rtp_transceiver \<Rightarrow> sdp_rtpmap option" where
  "remote_codec L remote t = find (\<lambda>c. rtpmap_is_match L c (tr_codec t)) (md_rtpmaps remote)"

definition from_remote_offer :: "sdp_lib \<Rightarrow> string \<Rightarrow> sdp_media \<Rightarrow> rtp_transceiver \<Rightarrow> rtp_transceiver" where
  "from_remote_offer L uuid remote t =
     (let t = t\<lparr>tr_direction := negotiate_direction (tr_direction t) (md_direction remote)\<rparr>
      in if tr_direction t = inactive then t
         else case remote_codec L remote t of
           None \<Rightarrow> t\<lparr>tr_direction := inactive\<rparr>
         | Some c \<Rightarrow>
             (let r = tr_receiver t;
                  t = (if tr_direction t = recvonly \<or> tr_direction t = sendrecv
                       then t\<lparr>tr_receiver := r\<lparr>rc_track := Some (case rc_track r of
                                 None \<Rightarrow> media_track_impl_new L uuid c
                               | Some tk \<Rightarrow> set_rtpmap c tk),
                               rc_extensions := md_extmaps remote\<rparr>\<rparr>
                       else t)
              in t\<lparr>tr_codec := (tr_codec t)\<lparr>rm_payload_type := rm_payload_type c\<rparr>\<rparr>))"

definition from_remote_answer :: "sdp_lib \<Rightarrow> string \<Rightarrow> sdp_media \<Rightarrow> rtp_transceiver \<Rightarrow> rtp_transceiver" where
  "from_remote_answer L uuid remote t =
     (let t = t\<lparr>tr_direction := negotiate_direction (tr_direction t) (md_direction remote)\<rparr>
      in if tr_direction t = inactive then t
         else case remote_codec L remote t of
           None \<Rightarrow> t\<lparr>tr_direction := inactive\<rparr>
         | Some c \<Rightarrow>
             (let r = tr_receiver t
              in if tr_direction t = recvonly \<or> tr_direction t = sendrecv
                 then (case rc_track r of
                         None \<Rightarrow> t\<lparr>tr_receiver := r\<lparr>rc_track := Some (media_track_impl_new L uuid (tr_codec t))\<rparr>\<rparr>
                       | Some _ \<Rightarrow> t)
                 else t))"

text \<open>
  \<open>create_ssrc_context\<close>. The contexts belong to the list of a receiver; the set of the connection
  links to them. Here it maps an SSRC to the receiver that owns the context, in key order. The
  receiver is named by its number.
\<close>

type_synonym ssrc_context_set = "(u32 \<times> nat) list"

fun ssrc_set_insert :: "u32 \<Rightarrow> nat \<Rightarrow> ssrc_context_set \<Rightarrow> ssrc_context_set" where
  "ssrc_set_insert k r [] = [(k, r)]"
| "ssrc_set_insert k r ((k', r') # s) =
     (if k < k' then (k, r) # (k', r') # s
      else if k = k' then (k', r') # s
      else (k', r') # ssrc_set_insert k r s)"

fun ssrc_reset :: "u32 \<Rightarrow> ssrc_context list \<Rightarrow> ssrc_context list" where
  "ssrc_reset k [] = []"
| "ssrc_reset k (c # cs) = (if sc_ssrc c = k then sc_reset_stats c # cs else c # ssrc_reset k cs)"

definition create_ssrc_context ::
  "nat \<Rightarrow> u32 \<Rightarrow> rtp_receiver \<Rightarrow> ssrc_context_set \<Rightarrow> rtp_receiver \<times> ssrc_context_set" where
  "create_ssrc_context r ssrc rc S =
     (if map_of S ssrc \<noteq> None then (rc, S)
      else if list_ex (\<lambda>c. sc_ssrc c = ssrc) (rc_ssrcs rc)
      then (rc\<lparr>rc_ssrcs := ssrc_reset ssrc (rc_ssrcs rc)\<rparr>, ssrc_set_insert ssrc r S)
      else (rc\<lparr>rc_ssrcs := rc_ssrcs rc @ [ssrc_context_new ssrc]\<rparr>, ssrc_set_insert ssrc r S))"

end
