(* ===== verification/Connection.thy ===== *)
theory Connection
  imports Transceiver Twcc
begin

text \<open>
  The state of \<open>src/connection_impl.cpp\<close> that negotiation and the media path work on, and the
  operations that configure a connection: transceivers, tracks, data channels, the maps of the
  router and the application of a pair of descriptions.

  The ICE agent, the DTLS, SRTP and SCTP transports and the certificate are objects of other
  packages. What the connection asks of the agent is a list of calls in their order; what the code
  reads from them (local credentials, the fingerprint of the certificate, whether a candidate line
  or a fingerprint is one) is the parameter \<open>agent_lib\<close>. Random numbers are arguments.
\<close>

section \<open>Data\<close>

datatype signaling_state = stable | have_local_offer | have_remote_offer | have_local_pranswer
  | have_remote_pranswer | closed

datatype connection_state = cs_init | cs_connecting | cs_connected | cs_disconnected | cs_failed | cs_closed

datatype gathering_state = gs_init | gs_gathering | gs_complete

datatype sig_error = Logic_error | Runtime_error | Invalid_argument

record agent_lib =
  al_username :: string
  al_password :: string
  al_hash_name :: string
  al_hash_value :: string
  al_candidate :: "string \<Rightarrow> bool"
  al_fingerprint :: "string \<Rightarrow> bool"

datatype agent_call = Set_remote_username string | Set_remote_password string | Create_transports
  | Expect_fingerprint string | Add_candidate string | No_more_candidates | Gather | Connect

text \<open>The arguments of a call of the track callback: receiver, track identifier and streams.\<close>

type_synonym track_event = "nat \<times> string option \<times> string list"

record connection =
  cn_signaling :: signaling_state
  cn_connection_state :: connection_state
  cn_gathering :: gathering_state
  cn_local_desc :: "session_description option"
  cn_remote_desc :: "session_description option"
  cn_transceivers :: "rtp_transceiver list"
  cn_ssrc_set :: ssrc_context_set
  cn_mid_ext_id :: "u16 option"
  cn_rtx_pt_to_pt :: "u8 \<rightharpoonup> u8"
  cn_rtx_ssrc_to_ssrc :: "u32 \<rightharpoonup> u32"
  cn_need_sctp :: bool
  cn_sctp_transport :: bool
  cn_srtp_transport :: bool
  cn_roles_set :: bool
  cn_ice_controlling :: bool
  cn_trickle_ice :: bool
  cn_session_version :: u64
  cn_mid_counter :: u16
  cn_on_track :: bool
  cn_tracks :: "track_event list"
  cn_agent :: "agent_call list"

text \<open>The state a connection starts in; the trickle flag is the default of the agent's configuration.\<close>

definition connection_new :: "bool \<Rightarrow> connection" where
  "connection_new trickle = \<lparr>cn_signaling = stable, cn_connection_state = cs_init, cn_gathering = gs_init,
     cn_local_desc = None, cn_remote_desc = None, cn_transceivers = [], cn_ssrc_set = [],
     cn_mid_ext_id = None, cn_rtx_pt_to_pt = Map.empty, cn_rtx_ssrc_to_ssrc = Map.empty,
     cn_need_sctp = False, cn_sctp_transport = False, cn_srtp_transport = False, cn_roles_set = False,
     cn_ice_controlling = False, cn_trickle_ice = trickle, cn_session_version = 0, cn_mid_counter = 0,
     cn_on_track = False, cn_tracks = [], cn_agent = []\<rparr>"

definition calls :: "agent_call list \<Rightarrow> connection \<Rightarrow> connection" where
  "calls cs c = c\<lparr>cn_agent := cn_agent c @ cs\<rparr>"

section \<open>What a description says about the transport\<close>

definition ice_ufrag_from :: "session_description \<Rightarrow> string" where
  "ice_ufrag_from s = (if sd_ice_ufrag s \<noteq> [] then sd_ice_ufrag s
     else case sd_medias s of m # _ \<Rightarrow> md_ice_ufrag m | [] \<Rightarrow> [])"

definition ice_pwd_from :: "session_description \<Rightarrow> string" where
  "ice_pwd_from s = (if sd_ice_pwd s \<noteq> [] then sd_ice_pwd s
     else case sd_medias s of m # _ \<Rightarrow> md_ice_pwd m | [] \<Rightarrow> [])"

definition fingerprint_text :: "sdp_fingerprint \<Rightarrow> string" where
  "fingerprint_text f = fp_algorithm f @ '' '' @ fp_value f"

definition fingerprint_from :: "session_description \<Rightarrow> string" where
  "fingerprint_from s =
     (case sd_fingerprints s of f # _ \<Rightarrow> fingerprint_text f
      | [] \<Rightarrow> (case sd_medias s of m # _ \<Rightarrow> (case md_fingerprints m of f # _ \<Rightarrow> fingerprint_text f | [] \<Rightarrow> []) | [] \<Rightarrow> []))"

definition setup_from :: "session_description \<Rightarrow> sdp_setup_role" where
  "setup_from s =
     (case sd_setup s of Some r \<Rightarrow> r
      | None \<Rightarrow> (case sd_medias s of m # _ \<Rightarrow> (case md_setup m of Some r \<Rightarrow> r | None \<Rightarrow> sr_passive)
                 | [] \<Rightarrow> sr_passive))"

definition candidates_from :: "session_description \<Rightarrow> string list" where
  "candidates_from s = sd_candidates s @ (case sd_medias s of m # _ \<Rightarrow> md_candidates m | [] \<Rightarrow> [])"

definition ice_options_trickle_from :: "session_description \<Rightarrow> bool" where
  "ice_options_trickle_from s \<longleftrightarrow>
     ''trickle'' \<in> set (sd_ice_options s) \<or> list_ex (\<lambda>m. ''trickle'' \<in> set (md_ice_options m)) (sd_medias s)"

section \<open>Applying the descriptions\<close>

definition apply_descriptions :: "agent_lib \<Rightarrow> connection \<Rightarrow> connection" where
  "apply_descriptions A c =
     (case (cn_local_desc c, cn_remote_desc c) of
        (Some _, Some remote) \<Rightarrow>
          if cn_roles_set c then c
          else (let trickle = ice_options_trickle_from remote;
                    c = c\<lparr>cn_roles_set := True, cn_trickle_ice := trickle\<rparr>;
                    ufrag = ice_ufrag_from remote; pwd = ice_pwd_from remote; fp = fingerprint_from remote;
                    c = calls ((if ufrag \<noteq> [] then [Set_remote_username ufrag] else [])
                          @ (if pwd \<noteq> [] then [Set_remote_password pwd] else [])
                          @ [Create_transports]
                          @ (if al_fingerprint A fp then [Expect_fingerprint fp] else [])
                          @ map Add_candidate (filter (al_candidate A) (candidates_from remote))) c
                in if trickle then c else calls [No_more_candidates] c)
      | _ \<Rightarrow> c)"

definition start_gathering :: "connection \<Rightarrow> connection" where
  "start_gathering c = calls [Gather] (c\<lparr>cn_gathering := gs_gathering\<rparr>)"

text \<open>
  Connecting begins at once: the coroutine \<open>do_connect\<close> runs until it first waits, for the candidates or for
  the agent, which is noted as a call. Its whole course, once the agent and the transports have answered, is
  \<open>do_connect\<close> of theory Negotiation.
\<close>

definition begin_connect :: "connection \<Rightarrow> connection" where
  "begin_connect c = calls [Connect] (c\<lparr>cn_connection_state := cs_connecting\<rparr>)"

definition start_connecting :: "connection \<Rightarrow> connection" where
  "start_connecting c = (if cn_local_desc c \<noteq> None \<and> cn_remote_desc c \<noteq> None then begin_connect c else c)"

text \<open>A batch of local candidates; an empty one ends the gathering.\<close>

definition do_on_candidates :: "string list \<Rightarrow> connection \<Rightarrow> connection" where
  "do_on_candidates cc c =
     (let c = c\<lparr>cn_local_desc := map_option (\<lambda>d. d\<lparr>sd_candidates := sd_candidates d @ cc\<rparr>) (cn_local_desc c)\<rparr>
      in if cc = [] \<and> cn_gathering c = gs_gathering then c\<lparr>cn_gathering := gs_complete\<rparr> else c)"

section \<open>The maps of the router\<close>

text \<open>\<open>std::from_chars\<close> that stops at the first other character: the code tests only the error.\<close>

definition from_chars_prefix :: "nat \<Rightarrow> string \<Rightarrow> nat option" where
  "from_chars_prefix bits s = from_chars bits (takeWhile is_digit s)"

definition rtx_apt :: "sdp_lib \<Rightarrow> sdp_rtpmap \<Rightarrow> u8 option" where
  "rtx_apt L r =
     (if \<not> nceq L ''rtx'' (rm_name r) then None
      else case find_param (rm_params r) ''apt'' of
        None \<Rightarrow> None
      | Some apt \<Rightarrow> if apt = [] then None else map_option of_nat (from_chars_prefix 8 apt))"

definition add_rtx_pt :: "sdp_lib \<Rightarrow> sdp_rtpmap \<Rightarrow> (u8 \<rightharpoonup> u8) \<Rightarrow> (u8 \<rightharpoonup> u8)" where
  "add_rtx_pt L r m = (case rtx_apt L r of None \<Rightarrow> m | Some pt \<Rightarrow> m(rm_payload_type r \<mapsto> pt))"

definition repair_pair :: "string \<Rightarrow> sdp_ssrc_group \<Rightarrow> (u32 \<times> u32) option" where
  "repair_pair sem g = (if sg_semantics g \<noteq> sem then None
     else case sg_ssrcs g of [p, r] \<Rightarrow> Some (p, r) | _ \<Rightarrow> None)"

definition add_fid :: "sdp_ssrc_group \<Rightarrow> (u32 \<rightharpoonup> u32) \<Rightarrow> (u32 \<rightharpoonup> u32)" where
  "add_fid g m = (case repair_pair ''FID'' g of None \<Rightarrow> m | Some (p, r) \<Rightarrow> m(r \<mapsto> p))"

definition repair_ssrcs :: "sdp_media \<Rightarrow> u32 list" where
  "repair_ssrcs rm = map snd (List.map_filter (repair_pair ''FID'') (md_ssrc_groups rm)
     @ List.map_filter (repair_pair ''FEC'') (md_ssrc_groups rm))"

text \<open>Updating one transceiver of the connection.\<close>

definition put_transceiver :: "nat \<Rightarrow> rtp_transceiver \<Rightarrow> connection \<Rightarrow> connection" where
  "put_transceiver i t c = c\<lparr>cn_transceivers := (cn_transceivers c)[i := t]\<rparr>"

definition add_ssrc :: "nat \<Rightarrow> u32 \<Rightarrow> connection \<Rightarrow> connection" where
  "add_ssrc i ssrc c =
     (let t = cn_transceivers c ! i;
          (rc, S) = create_ssrc_context i ssrc (tr_receiver t) (cn_ssrc_set c)
      in (put_transceiver i (t\<lparr>tr_receiver := rc\<rparr>) c)\<lparr>cn_ssrc_set := S\<rparr>)"

definition build_ssrc_map :: "sdp_lib \<Rightarrow> nat \<Rightarrow> sdp_media \<Rightarrow> connection \<Rightarrow> connection" where
  "build_ssrc_map L i rm c =
     (if md_port rm = 0 \<or> md_direction rm = recvonly then c
      else (let c = c\<lparr>cn_rtx_pt_to_pt := fold (add_rtx_pt L) (md_rtpmaps rm) (cn_rtx_pt_to_pt c),
                      cn_rtx_ssrc_to_ssrc := fold add_fid (md_ssrc_groups rm) (cn_rtx_ssrc_to_ssrc c)\<rparr>
            in fold (add_ssrc i)
                 (filter (\<lambda>s. s \<notin> set (repair_ssrcs rm)) (map ss_ssrc (md_ssrcs rm))) c))"

section \<open>Transceivers, tracks and data channels\<close>

record rtp_transceiver_init =
  in_direction :: sdp_direction
  in_send_encodings :: "rtp_encoding_parameters list"
  in_streams :: "string list"

definition rtp_transceiver_init_default :: rtp_transceiver_init where
  "rtp_transceiver_init_default = \<lparr>in_direction = sendrecv, in_send_encodings = [], in_streams = []\<rparr>"

definition packetizer_for :: "u32 \<Rightarrow> media_format \<Rightarrow> rtp_packetizer option" where
  "packetizer_for r fmt =
     (case fmt of mf_h264 \<Rightarrow> Some H264Packetizer
      | mf_vp9 \<Rightarrow> Some (Vp9Packetizer (vpx_packetizer_new r))
      | mf_vp8 \<Rightarrow> Some (Vp8Packetizer (vpx_packetizer_new r))
      | mf_opus \<Rightarrow> Some OpusPacketizer
      | mf_unknown \<Rightarrow> None)"

text \<open>The streams of a sender: the \<open>i\<close>-th takes the random numbers \<open>2 * i\<close> and \<open>2 * i + 1\<close>.\<close>

definition new_stream :: "(nat \<Rightarrow> u32) \<Rightarrow> bool \<Rightarrow> u8 \<Rightarrow> nat \<Rightarrow> string \<Rightarrow> rtp_stream" where
  "new_stream rnd video rtx_pt i rid =
     (let s = rtp_stream_default\<lparr>sm_ssrc := rnd (if video then 2 * i else i), sm_rid := rid\<rparr>
      in if video then s\<lparr>sm_rtx_ssrc := rnd (2 * i + 1), sm_rtx_pt := rtx_pt + of_nat (2 * i)\<rparr> else s)"

definition new_streams :: "(nat \<Rightarrow> u32) \<Rightarrow> bool \<Rightarrow> u8 \<Rightarrow> rtp_encoding_parameters list \<Rightarrow> rtp_stream list" where
  "new_streams rnd video rtx_pt encs =
     (if encs = [] then [new_stream rnd video rtx_pt 0 []]
      else map (\<lambda>(i, e). new_stream rnd video rtx_pt i (ep_rid e)) (enumerate 0 encs))"

definition add_transceiver_desc ::
  "sdp_lib \<Rightarrow> (nat \<Rightarrow> u32) \<Rightarrow> u32 \<Rightarrow> media_description \<Rightarrow> rtp_transceiver_init \<Rightarrow> connection
   \<Rightarrow> sig_error + connection" where
  "add_transceiver_desc L rnd pic desc init c =
     (if in_direction init = inactive then Inl Invalid_argument
      else case from_media_description desc of
        None \<Rightarrow> Inl Invalid_argument
      | Some codec \<Rightarrow>
          (let t = rtp_transceiver_new codec;
               streams = new_streams rnd (tr_kind L t = mk_video) (rm_payload_type codec + 1) (in_send_encodings init);
               t = t\<lparr>tr_direction := in_direction init, tr_send_encodings := in_send_encodings init,
                     tr_sender := (tr_sender t)\<lparr>sn_msids := in_streams init,
                       sn_packetizer := packetizer_for pic (mdesc_format desc), sn_streams := streams\<rparr>,
                     tr_receiver := (tr_receiver t)\<lparr>rc_rtcp_ssrc := sm_ssrc (hd streams)\<rparr>\<rparr>
           in Inr (c\<lparr>cn_transceivers := cn_transceivers c @ [t]\<rparr>)))"

definition set_track :: "media_track \<Rightarrow> rtp_transceiver \<Rightarrow> rtp_transceiver" where
  "set_track tk t = t\<lparr>tr_sender := (tr_sender t)\<lparr>sn_track := Some tk\<rparr>\<rparr>"

definition add_transceiver_track ::
  "sdp_lib \<Rightarrow> (nat \<Rightarrow> u32) \<Rightarrow> u32 \<Rightarrow> media_track \<Rightarrow> rtp_transceiver_init \<Rightarrow> connection
   \<Rightarrow> sig_error + connection" where
  "add_transceiver_track L rnd pic tk init c =
     (case add_transceiver_desc L rnd pic (tk_description tk) init c of
        Inl e \<Rightarrow> Inl e
      | Inr c \<Rightarrow> Inr (c\<lparr>cn_transceivers := butlast (cn_transceivers c) @ [set_track tk (last (cn_transceivers c))]\<rparr>))"

fun media_format_name :: "media_format \<Rightarrow> string" where
  "media_format_name mf_opus = ''opus''"
| "media_format_name mf_vp8 = ''vp8''"
| "media_format_name mf_h264 = ''h264''"
| "media_format_name mf_vp9 = ''vp9''"
| "media_format_name mf_unknown = ''unknown''"

definition can_take_track :: "sdp_lib \<Rightarrow> media_description \<Rightarrow> rtp_transceiver \<Rightarrow> bool" where
  "can_take_track L d t \<longleftrightarrow>
     \<not> tr_stopped t \<and> sn_track (tr_sender t) = None
     \<and> nceq L (rm_name (tr_codec t)) (media_format_name (mdesc_format d))
     \<and> rm_clock_rate (tr_codec t) = mdesc_clock_rate d \<and> rm_channels (tr_codec t) = mdesc_channels d
     \<and> rm_params (tr_codec t) = mdesc_encoding_params d"

fun sending_direction :: "sdp_direction \<Rightarrow> sdp_direction" where
  "sending_direction sendrecv = sendrecv"
| "sending_direction sendonly = sendonly"
| "sending_direction recvonly = sendrecv"
| "sending_direction inactive = sendonly"

text \<open>The position of the first element with a property.\<close>

fun find_index :: "('a \<Rightarrow> bool) \<Rightarrow> 'a list \<Rightarrow> nat option" where
  "find_index P [] = None"
| "find_index P (x # xs) = (if P x then Some 0 else map_option Suc (find_index P xs))"

definition add_track ::
  "sdp_lib \<Rightarrow> (nat \<Rightarrow> u32) \<Rightarrow> u32 \<Rightarrow> media_track option \<Rightarrow> string list \<Rightarrow> connection \<Rightarrow> sig_error + connection" where
  "add_track L rnd pic track streams c =
     (case track of None \<Rightarrow> Inl Runtime_error
      | Some tk \<Rightarrow>
          (case find_index (can_take_track L (tk_description tk)) (cn_transceivers c) of
             None \<Rightarrow> add_transceiver_track L rnd pic tk (rtp_transceiver_init_default\<lparr>in_streams := streams\<rparr>) c
           | Some i \<Rightarrow>
               (let t = set_track tk (cn_transceivers c ! i)
                in Inr (put_transceiver i (t\<lparr>tr_sender := (tr_sender t)\<lparr>sn_msids := streams\<rparr>,
                     tr_direction := sending_direction (tr_direction t)\<rparr>) c))))"

definition create_data_channel :: "connection \<Rightarrow> sig_error + connection" where
  "create_data_channel c =
     (if cn_roles_set c \<and> \<not> cn_sctp_transport c then Inl Runtime_error else Inr (c\<lparr>cn_need_sctp := True\<rparr>))"

section \<open>Closing\<close>

definition close :: "connection \<Rightarrow> connection" where
  "close c = c\<lparr>cn_connection_state := cs_closed, cn_ssrc_set := [], cn_sctp_transport := False,
     cn_srtp_transport := False, cn_transceivers := [], cn_mid_ext_id := None,
     cn_local_desc := None, cn_remote_desc := None\<rparr>"

end
