(* ===== verification/Negotiation.thy ===== *)
theory Negotiation
  imports Connection
begin

text \<open>
  The offer/answer exchange of \<open>src/connection_impl.cpp\<close>: building an offer and an answer, applying a
  local and a remote description, the roles of the DTLS handshake and the outcome of connecting. A
  function that throws gives the exception and the state it leaves behind.
\<close>

section \<open>Creating an offer\<close>

record media_entry =
  me_tr :: "nat option"
  me_index :: nat
  me_mid :: string
  me_sctp :: bool

text \<open>\<open>flat_map\<close>: assignment and erasure by key.\<close>

fun fm_set :: "'k::linorder \<Rightarrow> 'v \<Rightarrow> ('k \<times> 'v) list \<Rightarrow> ('k \<times> 'v) list" where
  "fm_set k v [] = [(k, v)]"
| "fm_set k v ((k', v') # m) =
     (if k < k' then (k, v) # (k', v') # m
      else if k = k' then (k, v) # m
      else (k', v') # fm_set k v m)"

definition fm_erase :: "'k \<Rightarrow> ('k \<times> 'v) list \<Rightarrow> ('k \<times> 'v) list" where
  "fm_erase k m = filter (\<lambda>(k', _). k' \<noteq> k) m"

text \<open>The working state of the collection of the media entries.\<close>

record offer_state =
  os_entries :: "media_entry list"
  os_mid_to_index :: "(string \<times> nat) list"
  os_recyclable :: "nat list"
  os_next :: nat

text \<open>What the current local description says: its named sections, the rejected ones, the SCTP one.\<close>

definition scan_media :: "nat \<times> sdp_media \<Rightarrow> (string \<times> nat) list \<times> nat list \<times> nat option
    \<Rightarrow> (string \<times> nat) list \<times> nat list \<times> nat option" where
  "scan_media = (\<lambda>(i, m) (mids, rec, sctp).
     if md_mid m = [] then (mids, rec, sctp)
     else (let mids = fm_set (md_mid m) i mids
           in if md_media_type m = mt_application then (mids, rec, Some i)
              else (mids, if md_port m = 0 then rec @ [i] else rec, sctp)))"

definition scan_current :: "session_description option \<Rightarrow> (string \<times> nat) list \<times> nat list \<times> nat option" where
  "scan_current cur = (case cur of None \<Rightarrow> ([], [], None)
     | Some d \<Rightarrow> fold scan_media (enumerate 0 (sd_medias d)) ([], [], None))"

definition existing_entry :: "nat option \<Rightarrow> nat \<times> rtp_transceiver \<Rightarrow> offer_state \<Rightarrow> offer_state" where
  "existing_entry sctp = (\<lambda>(k, t) s.
     if tr_mid t = [] then s
     else case map_of (os_mid_to_index s) (tr_mid t) of
       None \<Rightarrow> s
     | Some i \<Rightarrow>
         if Some i = sctp then s
         else s\<lparr>os_entries := os_entries s @ [\<lparr>me_tr = Some k, me_index = i, me_mid = tr_mid t, me_sctp = False\<rparr>],
                os_recyclable := filter (\<lambda>j. j \<noteq> i) (os_recyclable s),
                os_mid_to_index := fm_erase (tr_mid t) (os_mid_to_index s)\<rparr>)"

definition get_index :: "session_description option \<Rightarrow> offer_state \<Rightarrow> nat \<times> offer_state" where
  "get_index cur s =
     (case (os_recyclable s, cur) of
        (i # rest, Some d) \<Rightarrow>
          (i, s\<lparr>os_recyclable := rest, os_mid_to_index := fm_erase (md_mid (sd_medias d ! i)) (os_mid_to_index s)\<rparr>)
      | _ \<Rightarrow> (os_next s, s\<lparr>os_next := os_next s + 1\<rparr>))"

definition append_entry :: "session_description option \<Rightarrow> nat option \<Rightarrow> bool \<Rightarrow> offer_state \<Rightarrow> offer_state" where
  "append_entry cur k sctp s =
     (let (i, s) = get_index cur s
      in s\<lparr>os_entries := os_entries s @ [\<lparr>me_tr = k, me_index = i, me_mid = [], me_sctp = sctp\<rparr>]\<rparr>)"

definition sctp_entry :: "session_description option \<Rightarrow> nat option \<Rightarrow> bool \<Rightarrow> offer_state \<Rightarrow> offer_state" where
  "sctp_entry cur sctp need s =
     (case (sctp, cur) of
        (Some i, Some d) \<Rightarrow>
          s\<lparr>os_entries := os_entries s @ [\<lparr>me_tr = None, me_index = i, me_mid = md_mid (sd_medias d ! i), me_sctp = True\<rparr>]\<rparr>
      | _ \<Rightarrow> if need then append_entry cur None True s else s)"

definition new_entry :: "session_description option \<Rightarrow> nat \<times> rtp_transceiver \<Rightarrow> offer_state \<Rightarrow> offer_state" where
  "new_entry cur = (\<lambda>(k, t) s.
     if tr_mid t \<noteq> [] \<or> tr_stopped t then s else append_entry cur (Some k) False s)"

text \<open>
  The entries in the order of their sections. Entries of one index are left in the order of their
  creation; \<open>std::ranges::sort\<close> leaves it open.
\<close>

definition media_entries :: "connection \<Rightarrow> media_entry list" where
  "media_entries c =
     (let cur = cn_local_desc c;
          (mids, rec, sctp) = scan_current cur;
          ts = enumerate 0 (cn_transceivers c);
          s = \<lparr>os_entries = [], os_mid_to_index = mids, os_recyclable = rec,
               os_next = (case cur of None \<Rightarrow> 0 | Some d \<Rightarrow> length (sd_medias d))\<rparr>;
          s = fold (existing_entry sctp) ts s;
          s = sctp_entry cur sctp (cn_need_sctp c) s;
          s = fold (new_entry cur) ts s;
          gaps = map (\<lambda>(mid, i). \<lparr>me_tr = None, me_index = i, me_mid = mid, me_sctp = False\<rparr>) (os_mid_to_index s)
      in sort_key me_index (os_entries s @ gaps))"

text \<open>
  \<open>next_mid\<close>: the first unused number behind the counter, which wraps. There are 65536 numbers to
  try; when all are used the loop does not end (\<open>None\<close>).
\<close>

fun next_mid_from :: "nat \<Rightarrow> string list \<Rightarrow> u16 \<Rightarrow> (string \<times> u16) option" where
  "next_mid_from 0 used n = None"
| "next_mid_from (Suc fuel) used n =
     (if show_word n \<in> set used then next_mid_from fuel used (n + 1) else Some (show_word n, n + 1))"

definition next_mid :: "string list \<Rightarrow> u16 \<Rightarrow> (string \<times> u16) option" where
  "next_mid used n = next_mid_from 65536 used n"

fun name_entries :: "string list \<Rightarrow> u16 \<Rightarrow> media_entry list \<Rightarrow> (media_entry list \<times> u16) option" where
  "name_entries used n [] = Some ([], n)"
| "name_entries used n (e # es) =
     (if me_mid e \<noteq> [] then map_option (\<lambda>(es, n). (e # es, n)) (name_entries used n es)
      else case next_mid used n of
        None \<Rightarrow> None
      | Some (mid, n) \<Rightarrow> map_option (\<lambda>(es, n). (e\<lparr>me_mid := mid\<rparr> # es, n)) (name_entries (mid # used) n es))"

text \<open>The groups of sections that share a stream.\<close>

fun sync_add :: "string \<Rightarrow> string \<Rightarrow> (string \<times> string list) list \<Rightarrow> (string \<times> string list) list" where
  "sync_add mid msid [] = [(msid, [mid])]"
| "sync_add mid msid ((k, v) # g) =
     (if msid < k then (msid, [mid]) # (k, v) # g
      else if msid = k then (k, v @ [mid]) # g
      else (k, v) # sync_add mid msid g)"

definition sync_groups :: "rtp_transceiver list \<Rightarrow> media_entry list \<Rightarrow> (string \<times> string list) list" where
  "sync_groups ts es =
     fold (\<lambda>e g. case me_tr e of None \<Rightarrow> g
        | Some k \<Rightarrow> fold (sync_add (me_mid e)) (sn_msids (tr_sender (ts ! k))) g) es []"

definition sctp_media :: "session_description \<Rightarrow> bool \<Rightarrow> string \<Rightarrow> sdp_media" where
  "sctp_media offer active mid =
     add_format ''webrtc-datachannel''
       ((sdp_media_default mt_application)
          \<lparr>md_mid := mid, md_port := (if active then 9 else 0), md_proto := UDP_DTLS_SCTP,
           md_conn := wildcard_conn, md_direction := sendrecv, md_sctp_port := Some 5000,
           md_ice_ufrag := sd_ice_ufrag offer, md_ice_pwd := sd_ice_pwd offer,
           md_fingerprints := sd_fingerprints offer, md_setup := sd_setup offer\<rparr>)"

definition rtp_media :: "sdp_lib \<Rightarrow> session_description \<Rightarrow> string \<Rightarrow> rtp_transceiver \<Rightarrow> sdp_media" where
  "rtp_media L offer mid t =
     (to_offer_sdp_media L mid t)
       \<lparr>md_ice_ufrag := sd_ice_ufrag offer, md_ice_pwd := sd_ice_pwd offer,
        md_fingerprints := sd_fingerprints offer, md_setup := sd_setup offer\<rparr>"

text \<open>One entry: its section is appended, and its transceiver learns the number of the section.\<close>

definition offer_entry ::
  "sdp_lib \<Rightarrow> session_description option \<Rightarrow> bool \<Rightarrow> media_entry
   \<Rightarrow> session_description \<times> rtp_transceiver list \<Rightarrow> session_description \<times> rtp_transceiver list" where
  "offer_entry L cur need e = (\<lambda>(offer, ts).
     let push = (\<lambda>m. offer\<lparr>sd_medias := sd_medias offer @ [m]\<rparr>)
     in if me_sctp e then (push (sctp_media offer need (me_mid e)), ts)
        else case me_tr e of
          None \<Rightarrow> (case cur of None \<Rightarrow> (offer, ts)
            | Some d \<Rightarrow> (push ((sd_medias d ! me_index e)\<lparr>md_port := 0, md_direction := inactive\<rparr>), ts))
        | Some k \<Rightarrow> (push (rtp_media L offer (me_mid e) (ts ! k)),
                     ts[k := (ts ! k)\<lparr>tr_m_idx := Some (length (sd_medias offer))\<rparr>]))"

text \<open>
  The session part. \<open>session_version\<close> is a string: assigning the counter to it assigns one character.
\<close>

definition offer_session :: "agent_lib \<Rightarrow> connection \<Rightarrow> session_description" where
  "offer_session A c =
     (let offer = session_description_default ''offer'';
          offer = (case cn_local_desc c of
             Some d \<Rightarrow> offer\<lparr>sd_origin := sdp_origin_default\<lparr>or_session_version :=
                              [char_of (unat (cn_session_version c))]\<rparr>,
                            sd_session_name := sd_session_name d\<rparr>
           | None \<Rightarrow> offer)
      in offer\<lparr>sd_ice_ufrag := al_username A, sd_ice_pwd := al_password A,
               sd_fingerprints := [\<lparr>fp_algorithm = al_hash_name A, fp_value = al_hash_value A\<rparr>],
               sd_setup := Some sr_actpass\<rparr>)"

definition ls_groups :: "(string \<times> string list) list \<Rightarrow> sdp_group list" where
  "ls_groups g = map (\<lambda>(_, mids). \<lparr>gr_semantic = ''LS'', gr_items = mids\<rparr>) (filter (\<lambda>(_, mids). length mids > 1) g)"

definition finish_offer :: "session_description \<Rightarrow> session_description" where
  "finish_offer offer =
     (let mids = map md_mid (filter (\<lambda>m. md_port m \<noteq> 0) (sd_medias offer));
          offer = (if mids \<noteq> [] then offer\<lparr>sd_groups := sd_groups offer @ [\<lparr>gr_semantic = ''BUNDLE'', gr_items = mids\<rparr>]\<rparr> else offer);
          offer = (if sd_medias offer \<noteq> [] then offer\<lparr>sd_msid_semantic := \<lparr>mss_semantic = ''WMS'', mss_stream_ids = [''*'']\<rparr>\<rparr> else offer)
      in offer\<lparr>sd_ice_options := sd_ice_options offer @ [''trickle'']\<rparr>)"

text \<open>\<open>None\<close>: the search for a free identifier does not end.\<close>

definition create_offer :: "sdp_lib \<Rightarrow> agent_lib \<Rightarrow> connection \<Rightarrow> (session_description \<times> connection) option" where
  "create_offer L A c = do {
     let es = media_entries c;
     (es, n) \<leftarrow> name_entries (map me_mid (filter (\<lambda>e. me_mid e \<noteq> []) es)) (cn_mid_counter c) es;
     let offer = (offer_session A c)\<lparr>sd_groups := ls_groups (sync_groups (cn_transceivers c) es)\<rparr>;
     let (offer, ts) = fold (offer_entry L (cn_local_desc c) (cn_need_sctp c)) es (offer, cn_transceivers c);
     Some (finish_offer offer,
           c\<lparr>cn_session_version := cn_session_version c + 1, cn_mid_counter := n, cn_transceivers := ts\<rparr>)
   }"

section \<open>Creating an answer\<close>

text \<open>Whether this side takes the active role towards a peer with the setup of the description.\<close>

definition we_are_active :: "session_description \<Rightarrow> bool" where
  "we_are_active remote \<longleftrightarrow> setup_from remote \<noteq> sr_active"

definition answer_media :: "sdp_lib \<Rightarrow> rtp_transceiver list \<Rightarrow> sdp_media \<Rightarrow> sdp_media" where
  "answer_media L ts rm =
     (if md_media_type rm = mt_application
      then (sdp_media_default mt_application)
             \<lparr>md_mid := md_mid rm, md_port := 9, md_proto := md_proto rm, md_formats := str_formats (formats rm),
              md_conn := wildcard_conn, md_direction := md_direction rm, md_sctp_port := md_sctp_port rm\<rparr>
      else (case find (\<lambda>t. tr_mid t = md_mid rm) ts of
              Some t \<Rightarrow> to_answer_sdp_media L rm t
            | None \<Rightarrow> (sdp_media_default (md_media_type rm))
                \<lparr>md_mid := md_mid rm, md_port := 0, md_proto := md_proto rm, md_direction := inactive\<rparr>)
           \<lparr>md_conn := wildcard_conn\<rparr>)"

definition create_answer :: "sdp_lib \<Rightarrow> agent_lib \<Rightarrow> connection \<Rightarrow> sig_error + session_description" where
  "create_answer L A c =
     (case cn_remote_desc c of
        None \<Rightarrow> Inl Runtime_error
      | Some remote \<Rightarrow>
          if cn_signaling c \<noteq> have_remote_offer then Inl Runtime_error
          else (let answer = (session_description_default ''answer'')
                      \<lparr>sd_ice_ufrag := al_username A, sd_ice_pwd := al_password A,
                       sd_fingerprints := [\<lparr>fp_algorithm = al_hash_name A, fp_value = al_hash_value A\<rparr>],
                       sd_setup := Some (if we_are_active remote then sr_active else sr_passive),
                       sd_medias := map (answer_media L (cn_transceivers c)) (sd_medias remote)\<rparr>;
                    mids = map md_mid (sd_medias answer);
                    answer = (if mids \<noteq> [] then answer\<lparr>sd_groups := [\<lparr>gr_semantic = ''BUNDLE'', gr_items = mids\<rparr>]\<rparr> else answer);
                    answer = (if ice_options_trickle_from remote then answer\<lparr>sd_ice_options := [''trickle'']\<rparr> else answer)
                in Inr (answer\<lparr>sd_msid_semantic := \<lparr>mss_semantic = ''WMS'', mss_stream_ids = [''*'']\<rparr>\<rparr>)))"

section \<open>Setting the local description\<close>

text \<open>The guard on the signaling state: the error it throws, if any.\<close>

definition local_guard :: "signaling_state \<Rightarrow> string \<Rightarrow> bool" where
  "local_guard st type \<longleftrightarrow>
     (st \<in> {stable, closed} \<and> type = ''offer'') \<or> (st = have_remote_offer \<and> type = ''answer'')"

definition offer_fits :: "session_description \<Rightarrow> rtp_transceiver \<Rightarrow> bool" where
  "offer_fits desc t \<longleftrightarrow>
     (case tr_m_idx t of None \<Rightarrow> True
      | Some i \<Rightarrow> i < length (sd_medias desc) \<and> (tr_mid t = [] \<or> tr_mid t = md_mid (sd_medias desc ! i)))"

definition take_mid :: "session_description \<Rightarrow> rtp_transceiver \<Rightarrow> rtp_transceiver" where
  "take_mid desc t =
     (case tr_m_idx t of None \<Rightarrow> t
      | Some i \<Rightarrow> if tr_mid t = [] then t\<lparr>tr_mid := md_mid (sd_medias desc ! i)\<rparr> else t)"

definition set_local_description ::
  "agent_lib \<Rightarrow> session_description \<Rightarrow> connection \<Rightarrow> sig_error + connection" where
  "set_local_description A desc c =
     (if \<not> local_guard (cn_signaling c) (sd_sdp_type desc) then Inl Logic_error
      else (let is_offer = (sd_sdp_type desc = ''offer'')
            in if is_offer \<and> \<not> list_all (offer_fits desc) (cn_transceivers c) then Inl Runtime_error
               else (let c = (if is_offer
                              then c\<lparr>cn_transceivers := map (take_mid desc) (cn_transceivers c),
                                     cn_local_desc := Some desc, cn_signaling := have_local_offer\<rparr>
                              else c\<lparr>cn_local_desc := Some desc, cn_signaling := have_local_pranswer\<rparr>);
                         c = c\<lparr>cn_ice_controlling := is_offer\<rparr>
                     in Inr (start_connecting (start_gathering (apply_descriptions A c))))))"

section \<open>Setting the remote description\<close>

definition remote_guard :: "signaling_state \<Rightarrow> string \<Rightarrow> bool" where
  "remote_guard st type \<longleftrightarrow>
     (st \<in> {stable, closed} \<and> type = ''offer'') \<or> (st = have_local_offer \<and> type = ''answer'')"

definition bundle_of :: "session_description \<Rightarrow> sdp_group option" where
  "bundle_of desc = find (\<lambda>g. gr_semantic g = ''BUNDLE'') (sd_groups desc)"

text \<open>The receiving half of a section: the map of its sources, and the call of the track callback.\<close>

definition receives :: "rtp_transceiver \<Rightarrow> bool" where
  "receives t \<longleftrightarrow> tr_direction t = sendrecv \<or> tr_direction t = recvonly"

definition announce_track :: "sdp_lib \<Rightarrow> nat \<Rightarrow> sdp_media \<Rightarrow> connection \<Rightarrow> connection" where
  "announce_track L i rm c =
     (if receives (cn_transceivers c ! i)
      then (let c = build_ssrc_map L i rm c
            in if cn_on_track c
               then c\<lparr>cn_tracks := cn_tracks c @
                      [(i, map_option mt_id (rc_track (tr_receiver (cn_transceivers c ! i))), map ms_stream_id (md_msids rm))]\<rparr>
               else c)
      else c)"

definition mid_ext_of :: "sdp_media \<Rightarrow> u16 option" where
  "mid_ext_of rm = map_option em_id (find (\<lambda>e. em_uri e = uri_mid) (md_extmaps rm))"

definition section_kind :: "sdp_media \<Rightarrow> media_kind option" where
  "section_kind rm = (case md_media_type rm of mt_audio \<Rightarrow> Some mk_audio | mt_video \<Rightarrow> Some mk_video | _ \<Rightarrow> None)"

definition free_transceiver :: "sdp_lib \<Rightarrow> media_kind \<Rightarrow> rtp_transceiver \<Rightarrow> bool" where
  "free_transceiver L k t \<longleftrightarrow> tr_mid t = [] \<and> \<not> tr_stopped t \<and> tr_kind L t = k"

text \<open>One media section of an offer: the state, and the exception if it throws.\<close>

definition remote_offer_section ::
  "sdp_lib \<Rightarrow> string \<Rightarrow> sdp_media \<Rightarrow> connection \<Rightarrow> connection \<times> sig_error option" where
  "remote_offer_section L uuid rm c =
     (case section_kind rm of None \<Rightarrow> (c, None)
      | Some k \<Rightarrow>
          if md_mid rm = [] then (c, Some Invalid_argument)
          else case find_index (free_transceiver L k) (cn_transceivers c) of
            None \<Rightarrow> (c, None)
          | Some i \<Rightarrow>
              (let t = from_remote_offer L uuid rm ((cn_transceivers c ! i)\<lparr>tr_mid := md_mid rm\<rparr>);
                   c = put_transceiver i t c
               in if tr_direction t = inactive then (c, None)
                  else (let c = announce_track L i rm c
                        in (case mid_ext_of rm of None \<Rightarrow> c | Some e \<Rightarrow> c\<lparr>cn_mid_ext_id := Some e\<rparr>, None))))"

fun remote_offer_sections ::
  "sdp_lib \<Rightarrow> (nat \<Rightarrow> string) \<Rightarrow> nat \<Rightarrow> sdp_media list \<Rightarrow> connection \<Rightarrow> connection \<times> sig_error option" where
  "remote_offer_sections L uuid n [] c = (c, None)"
| "remote_offer_sections L uuid n (rm # rms) c =
     (case remote_offer_section L (uuid n) rm c of
        (c, Some e) \<Rightarrow> (c, Some e)
      | (c, None) \<Rightarrow> remote_offer_sections L uuid (n + 1) rms c)"

text \<open>One transceiver against an answer.\<close>

definition remote_answer_transceiver ::
  "sdp_lib \<Rightarrow> (nat \<Rightarrow> string) \<Rightarrow> session_description \<Rightarrow> nat \<Rightarrow> connection \<Rightarrow> connection" where
  "remote_answer_transceiver L uuid desc i c =
     (let t = cn_transceivers c ! i
      in case find (\<lambda>rm. md_mid rm = tr_mid t) (sd_medias desc) of
           None \<Rightarrow> put_transceiver i (tr_stop (t\<lparr>tr_direction := inactive\<rparr>)) c
         | Some rm \<Rightarrow>
             (let t = from_remote_answer L (uuid i) rm t
              in if tr_direction t = inactive then put_transceiver i (tr_stop t) c
                 else announce_track L i rm (put_transceiver i t c)))"

definition remote_prepare ::
  "sdp_lib \<Rightarrow> (nat \<Rightarrow> string) \<Rightarrow> session_description \<Rightarrow> connection \<Rightarrow> connection \<times> sig_error option" where
  "remote_prepare L uuid desc c =
     (if sd_sdp_type desc = ''offer''
      then (case bundle_of desc of
              None \<Rightarrow> (c, Some Logic_error)
            | Some b \<Rightarrow>
                if list_ex (\<lambda>rm. md_media_type rm = mt_application \<and> md_mid rm \<notin> set (gr_items b)) (sd_medias desc)
                then (c, Some Logic_error)
                else remote_offer_sections L uuid 0 (sd_medias desc) c)
      else (fold (remote_answer_transceiver L uuid desc) [0..<length (cn_transceivers c)] c, None))"

definition set_remote_description ::
  "sdp_lib \<Rightarrow> agent_lib \<Rightarrow> (nat \<Rightarrow> string) \<Rightarrow> session_description \<Rightarrow> connection \<Rightarrow> connection \<times> sig_error option" where
  "set_remote_description L A uuid desc c =
     (if \<not> remote_guard (cn_signaling c) (sd_sdp_type desc) then (c, Some Logic_error)
      else case remote_prepare L uuid desc c of
        (c, Some e) \<Rightarrow> (c, Some e)
      | (c, None) \<Rightarrow>
          (let is_offer = (sd_sdp_type desc = ''offer'');
               c = c\<lparr>cn_remote_desc := Some desc,
                     cn_signaling := (if is_offer then have_remote_offer else have_remote_pranswer),
                     cn_ice_controlling := \<not> is_offer\<rparr>
           in (start_connecting (apply_descriptions A c), None)))"

section \<open>Connecting\<close>

datatype dtls_role = dtls_client | dtls_server

definition dtls_role_for :: "session_description \<Rightarrow> dtls_role" where
  "dtls_role_for remote = (if we_are_active remote then dtls_client else dtls_server)"

definition needs_srtp :: "session_description \<Rightarrow> bool" where
  "needs_srtp remote \<longleftrightarrow> list_ex (\<lambda>m. md_media_type m = mt_audio \<or> md_media_type m = mt_video) (sd_medias remote)"

definition needs_sctp :: "bool \<Rightarrow> session_description \<Rightarrow> bool" where
  "needs_sctp need remote \<longleftrightarrow> need \<or> list_ex (\<lambda>m. md_media_type m = mt_application) (sd_medias remote)"

text \<open>
  What the transports report: the ICE check, the DTLS handshake, whether it exports SRTP keys of a
  profile, whether the SRTP transport takes them (it throws otherwise), and the SCTP association.
  Connecting fails at the first stage that does not succeed.
\<close>

record transport_result =
  tp_ice :: bool
  tp_dtls :: bool
  tp_srtp_keys :: bool
  tp_srtp_setup :: bool
  tp_sctp :: bool

text \<open>The stages up to the one that fails, or to the end; where the function returns early, the state stays.\<close>

definition connect_stages :: "transport_result \<Rightarrow> session_description \<Rightarrow> connection \<Rightarrow> connection" where
  "connect_stages r remote c =
     (if \<not> tp_ice r \<or> \<not> tp_dtls r then c
      else (let keys = needs_srtp remote \<and> tp_srtp_keys r;
                c = (if keys then c\<lparr>cn_srtp_transport := True\<rparr> else c)
            in if keys \<and> \<not> tp_srtp_setup r then c
               else if \<not> needs_sctp (cn_need_sctp c) remote then c\<lparr>cn_connection_state := cs_connected\<rparr>
               else (let c = c\<lparr>cn_sctp_transport := True\<rparr>
                     in if \<not> tp_sctp r then c else c\<lparr>cn_connection_state := cs_connected\<rparr>)))"

text \<open>Every way out of the function passes the guard \<open>on_exit\<close>.\<close>

definition connect_on_exit :: "connection \<Rightarrow> connection" where
  "connect_on_exit c = (if cn_connection_state c = cs_connecting then c\<lparr>cn_connection_state := cs_failed\<rparr> else c)"

definition do_connect :: "transport_result \<Rightarrow> connection \<Rightarrow> connection" where
  "do_connect r c =
     (case cn_remote_desc c of None \<Rightarrow> c
      | Some remote \<Rightarrow> connect_on_exit (connect_stages r remote (c\<lparr>cn_connection_state := cs_connecting\<rparr>)))"

end
