(* ===== verification/Handshake.thy ===== *)
theory Handshake
  imports Negotiation Sdp
begin

text \<open>
  What the offer/answer exchange guarantees: the two sides of a section agree on direction and codec,
  answers are aligned with offers, the signaling state only moves forward, and a first exchange
  between two connections runs to its end.
\<close>

section \<open>One section on both sides\<close>

lemma negotiate_mirror:
  "negotiate_direction (negotiate_direction l r) r = negotiate_direction l r"
  "negotiate_direction r (negotiate_direction l r) = reverse_direction (negotiate_direction l r)"
  "negotiate_direction inactive r = inactive" "negotiate_direction l inactive = inactive"
  "reverse_direction l = inactive \<longleftrightarrow> l = inactive"
  by (cases l; cases r; simp add: negotiate_direction_def direction_of_bits_def)+

text \<open>The codec of a transceiver of \<open>add_transceiver\<close>: a media codec, not a retransmission one.\<close>

definition codec_ok :: "rtp_transceiver \<Rightarrow> bool" where
  "codec_ok t \<longleftrightarrow> map to_lower (rm_name (tr_codec t)) \<noteq> map to_lower ''rtx''"

lemma offer_fields:
  shows "md_direction (to_offer_sdp_media L mid t) = (if tr_stopped t then inactive else tr_direction t)"
    and "md_mid (to_offer_sdp_media L mid t) = mid"
    and "md_media_type (to_offer_sdp_media L mid t) = get_media_type (tr_kind L t)"
    and "md_port (to_offer_sdp_media L mid t) = (if tr_stopped t then 0 else 9)"
    and "\<exists>rs. md_rtpmaps (to_offer_sdp_media L mid t) = tr_codec t # rs \<and> set rs \<subseteq> {rtx_rtpmap (tr_codec t)}"
  by (auto simp: to_offer_sdp_media_def offer_video_def add_rtpmap_def find_rtpmap_def add_feedback_def
      sdp_media_default_def Let_def split: option.splits)

lemma match_payload:
  "rtpmap_is_match L a (b\<lparr>rm_payload_type := p\<rparr>) = rtpmap_is_match L a b"
  "rtpmap_is_match L (a\<lparr>rm_payload_type := p\<rparr>) b = rtpmap_is_match L a b"
  by (simp_all add: rtpmap_is_match_def)

lemma match_refl_sym:
  assumes "nceq_ok L"
  shows "rtpmap_is_match L a a" "rtpmap_is_match L a b \<Longrightarrow> rtpmap_is_match L b a"
  using assms by (auto simp: rtpmap_is_match_def nceq_ok_def split: if_splits)

lemma rtx_no_match:
  assumes "nceq_ok L" "codec_ok t"
  shows "\<not> rtpmap_is_match L (rtx_rtpmap c) (tr_codec t)" "\<not> rtpmap_is_match L (tr_codec t) (rtx_rtpmap c)"
  using assms by (auto simp: rtpmap_is_match_def nceq_ok_def rtx_rtpmap_def codec_ok_def)

lemma find_offer:
  assumes "P (tr_codec a) \<or> \<not> P (rtx_rtpmap (tr_codec a))"
  shows "find P (md_rtpmaps (to_offer_sdp_media L mid a)) = (if P (tr_codec a) then Some (tr_codec a) else None)"
proof -
  obtain rs where "md_rtpmaps (to_offer_sdp_media L mid a) = tr_codec a # rs" "set rs \<subseteq> {rtx_rtpmap (tr_codec a)}"
    using offer_fields(5) by blast
  then show ?thesis using assms by (auto simp: find_None_iff)
qed

text \<open>What the answering side makes of an offer, and the section it answers with.\<close>

lemma answering_side:
  fixes a b :: rtp_transceiver and mid u :: string
  assumes L: "nceq_ok L" and b: "codec_ok b" "\<not> tr_stopped b" and a: "\<not> tr_stopped a"
  defines "offer \<equiv> to_offer_sdp_media L mid a"
  defines "b' \<equiv> from_remote_offer L u offer b"
  defines "d \<equiv> (if rtpmap_is_match L (tr_codec a) (tr_codec b) then negotiate_direction (tr_direction b) (tr_direction a) else inactive)"
  shows "tr_direction b' = d" and "\<not> tr_stopped b'"
    and "d \<noteq> inactive \<Longrightarrow> tr_codec b' = (tr_codec b)\<lparr>rm_payload_type := rm_payload_type (tr_codec a)\<rparr>"
    and "receives b' \<Longrightarrow> \<exists>t. rc_track (tr_receiver b') = Some t \<and> mt_codec t = tr_codec a"
    and "md_direction (to_answer_sdp_media L offer b') = d"
    and "md_rtpmaps (to_answer_sdp_media L offer b') = [tr_codec a]"
    and "md_port (to_answer_sdp_media L offer b') = (if d = inactive then 0 else 9)"
proof -
  have rc: "remote_codec L offer (t::rtp_transceiver) = (if rtpmap_is_match L (tr_codec a) (tr_codec b) then Some (tr_codec a) else None)"
    if "tr_codec t = tr_codec b" for t
    unfolding remote_codec_def offer_def using find_offer rtx_no_match [OF L b(1)] that by simp
  have od: "md_direction offer = tr_direction a" using a by (simp add: offer_def offer_fields)
  show dir: "tr_direction b' = d" and st: "\<not> tr_stopped b'"
    and "d \<noteq> inactive \<Longrightarrow> tr_codec b' = (tr_codec b)\<lparr>rm_payload_type := rm_payload_type (tr_codec a)\<rparr>"
    using b by (auto simp: b'_def d_def from_remote_offer_def rc od Let_def split: option.splits)
  show "receives b' \<Longrightarrow> \<exists>t. rc_track (tr_receiver b') = Some t \<and> mt_codec t = tr_codec a"
    by (auto simp: b'_def receives_def from_remote_offer_def rc od Let_def media_track_impl_new_def set_rtpmap_def
        split: option.splits if_splits)
  have cb: "rtpmap_is_match L (tr_codec b') c = rtpmap_is_match L (tr_codec b) c" for c
    by (simp add: b'_def from_remote_offer_def rc Let_def match_payload split: option.splits)
  have m: "match_offer_rtpmaps L offer b' = (if rtpmap_is_match L (tr_codec b) (tr_codec a) then [tr_codec a] else [])"
    unfolding match_offer_rtpmaps_def offer_def using find_offer [of "rtpmap_is_match L (tr_codec b')" a L mid]
      rtx_no_match [OF L b(1)] by (simp add: cb)
  obtain rs where rs: "md_rtpmaps offer = tr_codec a # rs" using offer_fields(5) offer_def by blast
  have rtp: "md_rtpmaps (answer_codecs L offer b' m) = [tr_codec a]" "md_direction (answer_codecs L offer b' m) = md_direction m"
    if "md_rtpmaps m = []" for m :: sdp_media
    using that by (auto simp: answer_codecs_def \<open>match_offer_rtpmaps L offer b' = _\<close> rs add_rtpmap_def find_rtpmap_def)
  have neg: "negotiate_direction d (tr_direction a) = d" by (simp add: d_def negotiate_mirror)
  show "md_direction (to_answer_sdp_media L offer b') = d" "md_rtpmaps (to_answer_sdp_media L offer b') = [tr_codec a]"
    "md_port (to_answer_sdp_media L offer b') = (if d = inactive then 0 else 9)"
    using st by (simp_all add: to_answer_sdp_media_def Let_def rtp dir od neg sdp_media_default_def)
qed

text \<open>
  C2: The two ends of a section agree after an exchange: their directions are mirror images, the answer
  carries the offerer's codec under the offerer's payload type, and when the section is in use the
  codecs match, both sides use that payload type and each receiving side has a track.
\<close>
theorem offer_answer_agree:
  assumes "nceq_ok L" "codec_ok b" "\<not> tr_stopped a" "\<not> tr_stopped b"
  shows "let offer = to_offer_sdp_media L mid a; b' = from_remote_offer L u offer b;
             ans = to_answer_sdp_media L offer b'; a' = from_remote_answer L v ans a
    in tr_direction b' = reverse_direction (tr_direction a')
       \<and> md_rtpmaps ans = [tr_codec a]
       \<and> (if tr_direction b' = inactive then md_port ans = 0
          else rtpmap_is_match L (tr_codec a) (tr_codec b)
            \<and> rm_payload_type (tr_codec b') = rm_payload_type (tr_codec a') \<and> md_port ans = 9)
       \<and> (receives a' \<longrightarrow> rc_track (tr_receiver a') \<noteq> None)
       \<and> (receives b' \<longrightarrow> rc_track (tr_receiver b') \<noteq> None)"
proof -
  let ?offer = "to_offer_sdp_media L mid a"
  let ?b = "from_remote_offer L u ?offer b"
  let ?ans = "to_answer_sdp_media L ?offer ?b"
  let ?a = "from_remote_answer L v ?ans a"
  note ans = answering_side [OF assms(1,2,4,3), where mid = mid and u = u]
  have c: "remote_codec L ?ans t = Some (tr_codec a)" if "tr_codec t = tr_codec a" for t
    using that match_refl_sym(1) [OF assms(1)] by (simp add: remote_codec_def ans(6))
  have "tr_direction ?a = negotiate_direction (tr_direction a) (md_direction ?ans)"
    "tr_codec ?a = tr_codec a" "receives ?a \<longrightarrow> rc_track (tr_receiver ?a) \<noteq> None"
    by (auto simp: from_remote_answer_def c receives_def Let_def split: option.splits)
  moreover have "negotiate_direction (tr_direction a) (md_direction ?ans) = reverse_direction (tr_direction ?b)"
    unfolding ans(1,5) by (simp add: negotiate_mirror)
  moreover have "reverse_direction (reverse_direction x) = x" for x by (cases x) auto
  ultimately show ?thesis using ans by (auto simp: Let_def split: if_splits)
qed

definition sample_codec :: sdp_rtpmap where
  "sample_codec = \<lparr>rm_payload_type = 96, rm_name = ''VP8'', rm_clock_rate = 90000, rm_channels = None, rm_params = []\<rparr>"

theorem offer_answer_agree_witness:
  "let a = rtp_transceiver_new sample_codec; b = a\<lparr>tr_direction := recvonly\<rparr>;
       offer = to_offer_sdp_media sdp_sample_lib ''0'' a
   in md_rtpmaps (to_answer_sdp_media sdp_sample_lib offer (from_remote_offer sdp_sample_lib ''t'' offer b)) = [sample_codec]"
proof -
  have "codec_ok ((rtp_transceiver_new sample_codec)\<lparr>tr_direction := recvonly\<rparr>)"
    by (simp add: codec_ok_def rtp_transceiver_new_def sample_codec_def to_lower_def)
  moreover have "tr_codec (rtp_transceiver_new sample_codec) = sample_codec" by (simp add: rtp_transceiver_new_def)
  ultimately show ?thesis
    using offer_answer_agree [OF sdp_sample_lib_ok(1), of "(rtp_transceiver_new sample_codec)\<lparr>tr_direction := recvonly\<rparr>"
        "rtp_transceiver_new sample_codec" "''0''" "''t''" "''u''"]
    by (simp add: Let_def rtp_transceiver_new_def)
qed

section \<open>Answers follow offers\<close>

text \<open>An answered section against the offered one.\<close>

definition answers :: "sdp_media \<Rightarrow> sdp_media \<Rightarrow> bool" where
  "answers rm m \<longleftrightarrow>
     md_mid m = md_mid rm \<and> md_media_type m = md_media_type rm \<and> set (md_rtpmaps m) \<subseteq> set (md_rtpmaps rm)
     \<and> (if md_media_type rm = mt_application then md_formats m = str_formats (formats rm) \<and> md_port m = 9
        else md_direction m = negotiate_direction (md_direction m) (md_direction rm)
          \<and> (md_port m = 0 \<longleftrightarrow> md_direction m = inactive))"

lemma find_Some_set: "find P xs = Some x \<Longrightarrow> x \<in> set xs \<and> P x"
  by (auto simp: find_Some_iff)

lemma answer_codecs_fields:
  "md_direction (answer_codecs L rm t m) = md_direction m" "md_mid (answer_codecs L rm t m) = md_mid m"
  "md_media_type (answer_codecs L rm t m) = md_media_type m" "md_port (answer_codecs L rm t m) = md_port m"
  by (auto simp: answer_codecs_def match_offer_rtpmaps_def add_rtpmap_def Let_def
      split: option.splits list.splits)

lemma set_answer_codecs:
  assumes "md_rtpmaps m = []"
  shows "set (md_rtpmaps (answer_codecs L rm t m)) \<subseteq> set (md_rtpmaps rm)"
proof (cases "find (rtpmap_is_match L (tr_codec t)) (md_rtpmaps rm)")
  case None
  then show ?thesis using assms
    by (auto simp: answer_codecs_def match_offer_rtpmaps_def add_rtpmap_def Let_def split: list.splits if_splits)
next
  case (Some c)
  then have "c \<in> set (md_rtpmaps rm)" using find_Some_set by fast
  then show ?thesis using assms Some
    by (auto simp: answer_codecs_def match_offer_rtpmaps_def add_rtpmap_def find_rtpmap_def split: list.splits)
qed

lemma to_answer_answers:
  assumes "md_media_type rm \<noteq> mt_application" "tr_mid t = md_mid rm"
  shows "answers rm (to_answer_sdp_media L rm t)"
proof -
  define m where "m = (sdp_media_default (md_media_type rm))
                \<lparr>md_mid := tr_mid t, md_proto := md_proto rm, md_conn := wildcard_conn,
                 md_rtcp_mux := md_rtcp_mux rm, md_msids := md_msids rm,
                 md_direction := negotiate_direction (tr_direction t) (md_direction rm)\<rparr>"
  have f: "md_rtpmaps m = []" "md_mid m = md_mid rm" "md_media_type m = md_media_type rm"
    "md_direction m = negotiate_direction (tr_direction t) (md_direction rm)"
    using assms(2) by (simp_all add: m_def sdp_media_default_def)
  have "to_answer_sdp_media L rm t =
      (let m = answer_codecs L rm t m in if tr_stopped t \<or> md_direction m = inactive
         then m\<lparr>md_port := 0, md_direction := inactive\<rparr>
         else m\<lparr>md_ssrcs := answer_ssrcs t, md_port := 9, md_extmaps := md_extmaps rm, md_msids := md_msids rm\<rparr>)"
    by (simp add: to_answer_sdp_media_def m_def)
  then show ?thesis
    using assms(1) f set_answer_codecs [OF f(1), of L rm t]
    by (simp add: answers_def Let_def answer_codecs_fields negotiate_mirror)
qed

lemma answer_media_answers: "answers rm (answer_media L ts rm)"
proof (cases "md_media_type rm = mt_application")
  case True
  then show ?thesis by (simp add: answer_media_def answers_def sdp_media_default_def)
next
  case False
  show ?thesis
  proof (cases "find (\<lambda>t. tr_mid t = md_mid rm) ts")
    case None
    then show ?thesis using False by (simp add: answer_media_def answers_def sdp_media_default_def negotiate_mirror)
  next
    case (Some t)
    then have "tr_mid t = md_mid rm" by (auto simp: find_Some_iff)
    then have "answers rm (to_answer_sdp_media L rm t)" by (rule to_answer_answers [OF False])
    then show ?thesis using False Some by (simp add: answer_media_def answers_def)
  qed
qed

text \<open>
  C3: An answer has one section for each section of the offer, in its order, with its identifier and
  type, a direction the offer allows and codecs the offer names; its bundle lists them all, and the two
  sides take opposite roles in the DTLS handshake.
\<close>
theorem create_answer_aligned:
  assumes "create_answer L A c = Inr ans" "cn_remote_desc c = Some remote"
  shows "list_all2 answers (sd_medias remote) (sd_medias ans)
    \<and> sd_sdp_type ans = ''answer'' \<and> dtls_role_for ans \<noteq> dtls_role_for remote
    \<and> (sd_medias remote = [] \<or> bundle_of ans = Some \<lparr>gr_semantic = ''BUNDLE'', gr_items = map md_mid (sd_medias remote)\<rparr>)"
proof -
  have mids: "map md_mid (map (answer_media L ts) ms) = map md_mid ms" for ts ms
    using answer_media_answers by (simp add: answers_def)
  have "sd_medias ans = map (answer_media L (cn_transceivers c)) (sd_medias remote)"
    "sd_sdp_type ans = ''answer''" "sd_setup ans = Some (if we_are_active remote then sr_active else sr_passive)"
    "sd_medias remote = [] \<or> sd_groups ans = [\<lparr>gr_semantic = ''BUNDLE'', gr_items = map md_mid (map (answer_media L (cn_transceivers c)) (sd_medias remote))\<rparr>]"
    using assms by (auto simp: create_answer_def session_description_default_def Let_def split: if_splits)
  moreover have "list_all2 answers ms (map (answer_media L ts) ms)" for ts ms
    by (simp add: list_all2_conv_all_nth answer_media_answers)
  ultimately show ?thesis
    unfolding mids by (auto simp: dtls_role_for_def we_are_active_def setup_from_def bundle_of_def)
qed

definition sample_agent :: agent_lib where
  "sample_agent = \<lparr>al_username = ''user'', al_password = ''password'', al_hash_name = ''sha-256'',
     al_hash_value = ''00'', al_candidate = (\<lambda>_. True), al_fingerprint = (\<lambda>_. True)\<rparr>"

definition sample_remote :: session_description where
  "sample_remote = (session_description_default ''offer'')\<lparr>sd_medias := [sdp_media_default mt_audio]\<rparr>"

theorem create_answer_aligned_witness:
  "\<exists>ans. create_answer sdp_sample_lib sample_agent
       ((connection_new True)\<lparr>cn_signaling := have_remote_offer, cn_remote_desc := Some sample_remote\<rparr>) = Inr ans
     \<and> list_all2 answers (sd_medias sample_remote) (sd_medias ans)"
proof -
  let ?c = "(connection_new True)\<lparr>cn_signaling := have_remote_offer, cn_remote_desc := Some sample_remote\<rparr>"
  obtain ans where "create_answer sdp_sample_lib sample_agent ?c = Inr ans" by (simp add: create_answer_def Let_def)
  moreover have "cn_remote_desc ?c = Some sample_remote" by simp
  ultimately show ?thesis using create_answer_aligned by blast
qed

section \<open>The signaling state\<close>

text \<open>The operations of a connection that the application or the transports trigger.\<close>

inductive sig_step :: "sdp_lib \<Rightarrow> agent_lib \<Rightarrow> connection \<Rightarrow> connection \<Rightarrow> bool" for L A where
  local: "set_local_description A d c = Inr c' \<Longrightarrow> sig_step L A c c'"
| remote: "set_remote_description L A uuid d c = (c', e) \<Longrightarrow> sig_step L A c c'"
| offer: "create_offer L A c = Some (d, c') \<Longrightarrow> sig_step L A c c'"
| transceiver: "add_transceiver_desc L rnd pic md init c = Inr c' \<Longrightarrow> sig_step L A c c'"
| transceiver_track: "add_transceiver_track L rnd pic tk init c = Inr c' \<Longrightarrow> sig_step L A c c'"
| track: "add_track L rnd pic tko streams c = Inr c' \<Longrightarrow> sig_step L A c c'"
| channel: "create_data_channel c = Inr c' \<Longrightarrow> sig_step L A c c'"
| candidates: "sig_step L A c (do_on_candidates cc c)"
| connecting: "sig_step L A c (do_connect r c)"
| closing: "sig_step L A c (close c)"

text \<open>The abstract machine: the state with the types of the two descriptions.\<close>

type_synonym sig_view = "signaling_state \<times> string option \<times> string option"

definition view :: "connection \<Rightarrow> sig_view" where
  "view c = (cn_signaling c, map_option sd_sdp_type (cn_local_desc c), map_option sd_sdp_type (cn_remote_desc c))"

inductive view_step :: "sig_view \<Rightarrow> sig_view \<Rightarrow> bool" where
  stay: "view_step v v"
| local_offer: "view_step (stable, l, r) (have_local_offer, Some ''offer'', r)"
| remote_offer: "view_step (stable, l, r) (have_remote_offer, l, Some ''offer'')"
| local_answer: "view_step (have_remote_offer, l, r) (have_local_pranswer, Some ''answer'', r)"
| remote_answer: "view_step (have_local_offer, l, r) (have_remote_pranswer, l, Some ''answer'')"
| view_close: "view_step (s, l, r) (s, None, None)"

lemma view_apply [simp]:
  "view (apply_descriptions A c) = view c" "view (start_gathering c) = view c" "view (start_connecting c) = view c"
  "view (put_transceiver i t c) = view c"
  by (auto simp: view_def apply_descriptions_def start_gathering_def start_connecting_def begin_connect_def calls_def put_transceiver_def
      Let_def split: option.splits)

lemma view_add_ssrc: "view (add_ssrc i s c) = view c"
  by (simp add: view_def add_ssrc_def put_transceiver_def Let_def split: prod.splits)

lemma view_build [simp]: "view (build_ssrc_map L i rm c) = view c"
proof -
  have f: "view (fold (add_ssrc i) ss c) = view c" for ss c
    by (induction ss arbitrary: c) (simp_all add: view_add_ssrc)
  show ?thesis by (simp add: build_ssrc_map_def Let_def f) (simp add: view_def)
qed

lemma view_announce [simp]: "view (announce_track L i rm c) = view c"
proof -
  have "view (c\<lparr>cn_tracks := x\<rparr>) = view c" for x c by (simp add: view_def)
  then show ?thesis by (simp add: announce_track_def Let_def)
qed

lemma view_remote_sections:
  "view (fst (remote_offer_sections L uuid n rms c)) = view c"
proof (induction rms arbitrary: n c)
  case (Cons rm rms)
  have e: "view (c\<lparr>cn_mid_ext_id := x\<rparr>) = view c" for x c by (simp add: view_def)
  have "view (fst (remote_offer_section L (uuid n) rm c)) = view c"
    by (auto simp: remote_offer_section_def Let_def e split: option.splits)
  then show ?case using Cons.IH by (auto split: prod.splits option.splits)
qed simp

lemma view_remote_prepare: "remote_prepare L uuid d c = (c', e) \<Longrightarrow> view c' = view c"
proof -
  have s: "view (remote_answer_transceiver L uuid d i c) = view c" for i c
    by (simp add: remote_answer_transceiver_def Let_def split: option.splits)
  have "view (fold (remote_answer_transceiver L uuid d) is c) = view c" for "is" c
    by (induction "is" arbitrary: c) (simp_all add: s)
  then show "remote_prepare L uuid d c = (c', e) \<Longrightarrow> view c' = view c"
    using view_remote_sections [of L uuid 0 "sd_medias d" c]
    by (auto simp: remote_prepare_def split: if_splits option.splits)
qed

lemma view_fields [simp]:
  "view (c\<lparr>cn_transceivers := ts\<rparr>) = view c" "view (c\<lparr>cn_need_sctp := b\<rparr>) = view c"
  "view (c\<lparr>cn_connection_state := s\<rparr>) = view c" "view (c\<lparr>cn_ice_controlling := b\<rparr>) = view c"
  "view (c\<lparr>cn_gathering := g\<rparr>) = view c" "view (c\<lparr>cn_srtp_transport := b\<rparr>) = view c" "view (c\<lparr>cn_sctp_transport := b\<rparr>) = view c"
  by (simp_all add: view_def)

lemma view_transceiver: "add_transceiver_desc L rnd pic md init c = Inr c' \<Longrightarrow> view c' = view c"
  "add_transceiver_track L rnd pic tk init c = Inr c' \<Longrightarrow> view c' = view c"
proof -
  show d: "view c' = view c" if "add_transceiver_desc L rnd pic md init c = Inr c'" for md init c'
    using that by (auto simp: add_transceiver_desc_def Let_def split: if_splits option.splits)
  show "view c' = view c" if "add_transceiver_track L rnd pic tk init c = Inr c'"
    using that d by (auto simp: add_transceiver_track_def split: sum.splits)
qed

lemma view_do_connect: "view (do_connect r c) = view c"
  by (simp add: do_connect_def connect_stages_def connect_on_exit_def Let_def split: option.splits)

lemma view_local:
  assumes "set_local_description A d c = Inr c'"
  shows "view_step (view c) (view c') \<or> cn_signaling c = closed"
proof -
  have v: "view c' = (if sd_sdp_type d = ''offer'' then (have_local_offer, Some ''offer'', map_option sd_sdp_type (cn_remote_desc c))
      else (have_local_pranswer, Some (sd_sdp_type d), map_option sd_sdp_type (cn_remote_desc c)))"
    using assms by (auto simp: set_local_description_def Let_def split: if_splits) (simp_all add: view_def)
  have g: "local_guard (cn_signaling c) (sd_sdp_type d)"
    using assms by (simp add: set_local_description_def split: if_splits)
  then show ?thesis unfolding v using view_step.intros
    by (auto simp: local_guard_def view_def)
qed

lemma view_remote:
  assumes "set_remote_description L A uuid d c = (c', e)"
  shows "view_step (view c) (view c') \<or> cn_signaling c = closed"
proof (cases "remote_guard (cn_signaling c) (sd_sdp_type d)")
  case False
  then show ?thesis using assms by (simp add: set_remote_description_def view_step.stay)
next
  case True
  obtain c1 e1 where p: "remote_prepare L uuid d c = (c1, e1)" by fastforce
  then have v1: "view c1 = view c" by (rule view_remote_prepare)
  show ?thesis
  proof (cases e1)
    case (Some x)
    then show ?thesis using assms True p v1 by (simp add: set_remote_description_def view_step.stay)
  next
    case None
    then have "view c' = (if sd_sdp_type d = ''offer'' then have_remote_offer else have_remote_pranswer,
        map_option sd_sdp_type (cn_local_desc c1), Some (sd_sdp_type d))"
      using assms True p by (auto simp: set_remote_description_def Let_def) (simp_all add: view_def)
    then show ?thesis using v1 True view_step.intros by (auto simp: remote_guard_def view_def)
  qed
qed

lemma sig_step_view:
  assumes "sig_step L A c c'" "cn_signaling c \<noteq> closed"
  shows "view_step (view c) (view c')"
  using assms
proof cases
  case (local d)
  then show ?thesis using view_local assms(2) by blast
next
  case (remote uuid d e)
  then show ?thesis using view_remote assms(2) by blast
next
  case (offer d)
  then have "view c' = view c"
    by (auto simp: create_offer_def bind_eq_Some_conv Let_def view_def split_beta)
  then show ?thesis by (simp add: view_step.stay)
next
  case (transceiver rnd pic md init)
  then show ?thesis using view_transceiver(1) by (metis view_step.stay)
next
  case (transceiver_track rnd pic tk init)
  then show ?thesis using view_transceiver(2) by (metis view_step.stay)
next
  case (track rnd pic tko streams)
  then have "view c' = view c"
    using view_transceiver(2) by (auto simp: add_track_def Let_def split: option.splits)
  then show ?thesis by (simp add: view_step.stay)
next
  case channel
  then have "view c' = view c" by (auto simp: create_data_channel_def split: if_splits)
  then show ?thesis by (simp add: view_step.stay)
next
  case (candidates cc)
  then have "view c' = view c"
    by (cases "cn_local_desc c") (auto simp: do_on_candidates_def Let_def view_def)
  then show ?thesis by (simp add: view_step.stay)
next
  case (connecting r)
  then show ?thesis by (simp add: view_do_connect view_step.stay)
next
  case closing
  then show ?thesis by (simp add: view_def close_def view_step.view_close)
qed

text \<open>The invariant of the abstract machine.\<close>

definition view_inv :: "sig_view \<Rightarrow> bool" where
  "view_inv = (\<lambda>(s, l, r). s \<noteq> closed \<and>
     (case s of stable \<Rightarrow> l = None \<and> r = None
      | have_local_offer \<Rightarrow> l \<in> {None, Some ''offer''} \<and> r = None
      | have_remote_offer \<Rightarrow> l = None \<and> r \<in> {None, Some ''offer''}
      | have_local_pranswer \<Rightarrow> l \<in> {None, Some ''answer''} \<and> r \<in> {None, Some ''offer''}
      | have_remote_pranswer \<Rightarrow> l \<in> {None, Some ''offer''} \<and> r \<in> {None, Some ''answer''}
      | closed \<Rightarrow> False))"

lemma view_step_inv: "view_step v w \<Longrightarrow> view_inv v \<Longrightarrow> view_inv w"
  by (induction rule: view_step.induct) (auto simp: view_inv_def split: signaling_state.splits)

lemma reachable_view_inv:
  assumes "(sig_step L A)\<^sup>*\<^sup>* (connection_new t) c" shows "view_inv (view c)"
  using assms
proof (induction rule: rtranclp_induct)
  case base
  show ?case by (simp add: view_inv_def view_def connection_new_def)
next
  case (step c c')
  then have "cn_signaling c \<noteq> closed" by (auto simp: view_inv_def view_def)
  then show ?case using sig_step_view step view_step_inv by blast
qed

text \<open>How far an exchange has come.\<close>

fun sig_rank :: "signaling_state \<Rightarrow> nat" where
  "sig_rank stable = 0"
| "sig_rank have_local_offer = 1"
| "sig_rank have_remote_offer = 1"
| "sig_rank have_local_pranswer = 2"
| "sig_rank have_remote_pranswer = 2"
| "sig_rank closed = 3"

text \<open>
  C4: Whatever the application does, the signaling state is never \<open>closed\<close>, the descriptions held are
  those of the state (when both are set, one is an offer, the other its answer), and a step either
  keeps the state or moves it one step on, from \<open>stable\<close> over an offer to a provisional answer.
\<close>
theorem signaling_reachable:
  assumes "(sig_step L A)\<^sup>*\<^sup>* (connection_new t) c" "sig_step L A c c'"
  shows "view_inv (view c)
    \<and> (cn_signaling c' = cn_signaling c \<or> sig_rank (cn_signaling c') = sig_rank (cn_signaling c) + 1)"
proof -
  have i: "view_inv (view c)" using assms(1) by (rule reachable_view_inv)
  then have "cn_signaling c \<noteq> closed" by (auto simp: view_inv_def view_def)
  then have "view_step (view c) (view c')" using sig_step_view assms(2) by blast
  then show ?thesis using i by cases (auto simp: view_def)
qed

theorem signaling_reachable_witness:
  "view_inv (view (close (connection_new True)))"
proof -
  let ?S = "sig_step sdp_sample_lib sample_agent" and ?c = "connection_new True"
  have s: "?S c (close c)" for c by (rule sig_step.closing)
  show ?thesis using signaling_reachable [OF r_into_rtranclp [of ?S, OF s [of ?c]] s] by blast
qed

text \<open>
  C5: An exchange cannot be repeated: after an answer, in either direction, every further description
  is refused, whatever else the application does with the connection.
\<close>
theorem negotiation_is_final:
  assumes "sig_rank (cn_signaling c) = 2" "(sig_step L A)\<^sup>*\<^sup>* c c'"
  shows "cn_signaling c' = cn_signaling c \<and> set_local_description A d c' = Inl Logic_error
    \<and> set_remote_description L A uuid d c' = (c', Some Logic_error)"
proof -
  have "cn_signaling c' = cn_signaling c" using assms(2)
  proof (induction rule: rtranclp_induct)
    case (step c1 c2)
    then have r: "sig_rank (cn_signaling c1) = 2" using assms(1) by simp
    then have "view_step (view c1) (view c2)" using sig_step_view step(2) by fastforce
    then have "cn_signaling c2 = cn_signaling c1" using r by cases (auto simp: view_def)
    then show ?case using step.IH by simp
  qed simp
  moreover have "\<not> local_guard (cn_signaling c) s \<and> \<not> remote_guard (cn_signaling c) s" for s
    using assms(1) by (cases "cn_signaling c") (auto simp: local_guard_def remote_guard_def)
  ultimately show ?thesis by (simp add: set_local_description_def set_remote_description_def)
qed

theorem negotiation_is_final_witness:
  "set_local_description sample_agent sample_remote ((connection_new True)\<lparr>cn_signaling := have_local_pranswer\<rparr>) = Inl Logic_error"
  using negotiation_is_final [of "(connection_new True)\<lparr>cn_signaling := have_local_pranswer\<rparr>" sdp_sample_lib sample_agent]
  by simp

section \<open>Identifiers of sections\<close>

lemma next_mid_from_None: "next_mid_from fuel used n = None \<Longrightarrow> i < fuel \<Longrightarrow> show_word (n + of_nat i) \<in> set used"
proof (induction fuel arbitrary: n i)
  case (Suc fuel)
  then have "show_word n \<in> set used" "next_mid_from fuel used (n + 1) = None" by (auto split: if_splits)
  then show ?case using Suc.IH [of "n + 1" "i - 1"] Suc.prems(2) by (cases i) (simp_all add: ac_simps)
qed simp

lemma next_mid_from_Some: "next_mid_from fuel used n = Some (mid, n') \<Longrightarrow> mid \<notin> set used \<and> (\<exists>w::u16. mid = show_word w)"
  by (induction fuel used n rule: next_mid_from.induct) (auto split: if_splits)

lemma show_word_inj: "show_word (a :: u16) = show_word b \<Longrightarrow> a = b"
  using parse_show_word(2) by (metis option.inject)

lemma show_word_nonempty: "show_word (w :: 'a::len word) \<noteq> []"
  by (simp add: show_word_def show_nat.simps)

text \<open>As long as an identifier is free, one is found, and it is a new one.\<close>

lemma next_mid_ok:
  assumes "length used < 65536"
  obtains mid n' where "next_mid used n = Some (mid, n')" "mid \<notin> set used" "mid \<noteq> []"
proof (cases "next_mid used n")
  case None
  have "show_word w \<in> set used" for w :: u16
  proof -
    have "n + of_nat (unat (w - n)) = w" by simp
    moreover have "unat (w - n) < 65536" using unsigned_less [of "w - n"] by simp
    ultimately show ?thesis using next_mid_from_None [of 65536 used n] None by (metis next_mid_def)
  qed
  then have "card (range (show_word :: u16 \<Rightarrow> string)) \<le> card (set used)"
    by (intro card_mono) auto
  moreover have "card (range (show_word :: u16 \<Rightarrow> string)) = 65536"
    by (subst card_image) (auto intro!: injI show_word_inj simp: card_word)
  ultimately show ?thesis using assms card_length [of used] by simp
next
  case (Some r)
  then obtain mid n' where r: "next_mid used n = Some (mid, n')" by (cases r) auto
  then have "mid \<notin> set used \<and> (\<exists>w::u16. mid = show_word w)"
    unfolding next_mid_def by (rule next_mid_from_Some)
  moreover then have "mid \<noteq> []" by (auto simp: show_word_nonempty)
  ultimately show ?thesis using that r by blast
qed

lemma name_entries_ok:
  assumes "length used + length es < 65536" "\<forall>e \<in> set es. me_mid e \<noteq> [] \<longrightarrow> me_mid e \<in> set used"
  shows "\<exists>es' n'. name_entries used n es = Some (es', n')
    \<and> list_all2 (\<lambda>e e'. me_mid e' \<noteq> [] \<and> me_tr e' = me_tr e \<and> me_sctp e' = me_sctp e \<and> me_index e' = me_index e
        \<and> (me_mid e = [] \<longrightarrow> me_mid e' \<notin> set used) \<and> (me_mid e \<noteq> [] \<longrightarrow> me_mid e' = me_mid e)) es es'"
  using assms
proof (induction es arbitrary: used n)
  case (Cons e es)
  show ?case
  proof (cases "me_mid e = []")
    case True
    obtain mid m where mid: "next_mid used n = Some (mid, m)" "mid \<notin> set used" "mid \<noteq> []"
      using next_mid_ok [of used n] Cons.prems(1) by auto
    have p: "length (mid # used) + length es < 65536" "\<forall>e \<in> set es. me_mid e \<noteq> [] \<longrightarrow> me_mid e \<in> set (mid # used)"
      using Cons.prems by auto
    obtain es' n' where ih: "name_entries (mid # used) m es = Some (es', n')"
      "list_all2 (\<lambda>e e'. me_mid e' \<noteq> [] \<and> me_tr e' = me_tr e \<and> me_sctp e' = me_sctp e \<and> me_index e' = me_index e
        \<and> (me_mid e = [] \<longrightarrow> me_mid e' \<notin> set (mid # used)) \<and> (me_mid e \<noteq> [] \<longrightarrow> me_mid e' = me_mid e)) es es'"
      using Cons.IH [OF p] by blast
    have "list_all2 (\<lambda>e e'. me_mid e' \<noteq> [] \<and> me_tr e' = me_tr e \<and> me_sctp e' = me_sctp e \<and> me_index e' = me_index e
        \<and> (me_mid e = [] \<longrightarrow> me_mid e' \<notin> set used) \<and> (me_mid e \<noteq> [] \<longrightarrow> me_mid e' = me_mid e)) es es'"
      using ih(2) by (rule list_all2_mono) auto
    then show ?thesis using mid ih(1) True by simp
  next
    case False
    then show ?thesis using Cons.IH [of used n] Cons.prems by auto
  qed
qed simp

section \<open>The offer of a new connection\<close>

definition fresh :: "connection \<Rightarrow> bool" where
  "fresh c \<longleftrightarrow> cn_signaling c = stable \<and> cn_local_desc c = None \<and>
     list_all (\<lambda>t. tr_mid t = [] \<and> tr_m_idx t = None) (cn_transceivers c)"

text \<open>The transceivers that get a section, and whether there is an SCTP section in front of them.\<close>

definition live :: "rtp_transceiver list \<Rightarrow> nat list" where
  "live ts = filter (\<lambda>k. \<not> tr_stopped (ts ! k)) [0..<length ts]"

lemma existing_fresh:
  "list_all (\<lambda>t. tr_mid t = []) ts \<Longrightarrow> fold (existing_entry sctp) (enumerate n ts) s = s"
  by (induction ts arbitrary: n s) (auto simp: existing_entry_def)

lemma new_fresh:
  assumes "list_all (\<lambda>t. tr_mid t = []) ts" "os_recyclable s = []"
  shows "\<exists>es. fold (new_entry cur) (enumerate n ts) s = s\<lparr>os_entries := os_entries s @ es, os_next := os_next s + length es\<rparr>
    \<and> map me_index es = [os_next s..<os_next s + length es]
    \<and> map me_tr es = map (\<lambda>k. Some (n + k)) (live ts) \<and> list_all (\<lambda>e. me_mid e = [] \<and> \<not> me_sctp e) es"
  using assms
proof (induction ts arbitrary: n s)
  case Nil
  show ?case by (rule exI [of _ "[]"]) (simp add: live_def)
next
  case (Cons t ts)
  have live: "live (t # ts) = (if tr_stopped t then [] else [0]) @ map Suc (live ts)"
  proof -
    have "[0..<length (t # ts)] = 0 # map Suc [0..<length ts]" by (simp add: map_Suc_upt upt_conv_Cons del: upt_Suc)
    then show ?thesis by (simp add: live_def filter_map comp_def)
  qed
  show ?case
  proof (cases "tr_stopped t")
    case True
    then show ?thesis using Cons.IH [of s "Suc n"] Cons.prems by (simp add: new_entry_def live comp_def)
  next
    case False
    let ?e = "\<lparr>me_tr = Some n, me_index = os_next s, me_mid = [], me_sctp = False\<rparr>"
    let ?s = "s\<lparr>os_next := os_next s + 1, os_entries := os_entries s @ [?e]\<rparr>"
    have n: "new_entry cur (n, t) s = ?s"
      using False Cons.prems by (simp add: new_entry_def append_entry_def get_index_def)
    obtain es where es: "fold (new_entry cur) (enumerate (Suc n) ts) ?s
        = ?s\<lparr>os_entries := os_entries ?s @ es, os_next := os_next ?s + length es\<rparr>"
      "map me_index es = [os_next ?s..<os_next ?s + length es]"
      "map me_tr es = map (\<lambda>k. Some (Suc n + k)) (live ts)" "list_all (\<lambda>e. me_mid e = [] \<and> \<not> me_sctp e) es"
      using Cons.IH [of ?s "Suc n"] Cons.prems by auto
    show ?thesis
    proof (rule exI [of _ "?e # es"], intro conjI)
      show "fold (new_entry cur) (enumerate n (t # ts)) s
          = s\<lparr>os_entries := os_entries s @ ?e # es, os_next := os_next s + length (?e # es)\<rparr>"
        using es(1) n by simp
      show "map me_index (?e # es) = [os_next s..<os_next s + length (?e # es)]"
        using es(2) by (simp add: upt_conv_Cons del: upt_Suc)
      show "map me_tr (?e # es) = map (\<lambda>k. Some (n + k)) (live (t # ts))"
        using es(3) False by (simp add: live)
      show "list_all (\<lambda>e. me_mid e = [] \<and> \<not> me_sctp e) (?e # es)" using es(4) by simp
    qed
  qed
qed

lemma fresh_entries:
  assumes "fresh c"
  obtains es where "media_entries c = (if cn_need_sctp c then [\<lparr>me_tr = None, me_index = 0, me_mid = [], me_sctp = True\<rparr>] else []) @ es"
    "map me_tr es = map Some (live (cn_transceivers c))" "list_all (\<lambda>e. me_mid e = [] \<and> \<not> me_sctp e) es"
proof -
  let ?ts = "cn_transceivers c"
  let ?p = "if cn_need_sctp c then [\<lparr>me_tr = None, me_index = 0, me_mid = [], me_sctp = True\<rparr>] else []"
  let ?init = "\<lparr>os_entries = [], os_mid_to_index = [], os_recyclable = [], os_next = 0\<rparr>"
  let ?s = "\<lparr>os_entries = ?p, os_mid_to_index = [], os_recyclable = [], os_next = length ?p\<rparr>"
  have m: "list_all (\<lambda>t. tr_mid t = []) ?ts" using assms by (auto simp: fresh_def list_all_iff)
  have s: "sctp_entry None None (cn_need_sctp c) ?init = ?s"
    by (cases "cn_need_sctp c") (simp_all add: sctp_entry_def append_entry_def get_index_def)
  obtain es where es: "fold (new_entry None) (enumerate 0 ?ts) ?s = ?s\<lparr>os_entries := os_entries ?s @ es, os_next := os_next ?s + length es\<rparr>"
    "map me_index es = [os_next ?s..<os_next ?s + length es]"
    "map me_tr es = map (\<lambda>k. Some (0 + k)) (live ?ts)" "list_all (\<lambda>e. me_mid e = [] \<and> \<not> me_sctp e) es"
    using new_fresh [OF m, of ?s None 0] by auto
  have l: "cn_local_desc c = None" using assms by (simp add: fresh_def)
  have "media_entries c = sort_key me_index (?p @ es)"
    unfolding media_entries_def l by (simp add: scan_current_def existing_fresh [OF m] s es(1) Let_def)
  moreover have "map me_index (?p @ es) = [0..<length (?p @ es)]"
    using es(2) by (cases "cn_need_sctp c") (simp_all add: upt_conv_Cons del: upt_Suc)
  then have "sorted (map me_index (?p @ es))" by (metis sorted_upt)
  then have "sort_key me_index (?p @ es) = ?p @ es" by (rule sort_key_id_if_sorted)
  ultimately show ?thesis using that es(3,4) by simp
qed

text \<open>The sections of a list of entries, and the transceivers that learn their numbers.\<close>

definition entry_ok :: "nat \<Rightarrow> media_entry \<Rightarrow> bool" where
  "entry_ok n e \<longleftrightarrow> me_mid e \<noteq> [] \<and> (if me_sctp e then True else case me_tr e of None \<Rightarrow> False | Some k \<Rightarrow> k < n)"

lemma entry_ok_tr: "entry_ok n e \<Longrightarrow> \<not> me_sctp e \<Longrightarrow> \<exists>k. me_tr e = Some k \<and> k < n"
  by (auto simp: entry_ok_def split: option.splits)

lemma offer_entries:
  assumes "list_all (entry_ok (length ts)) es" "distinct (map me_tr (filter (\<lambda>e. \<not> me_sctp e) es))"
    and "\<forall>e \<in> set es. \<not> me_sctp e \<longrightarrow> \<not> tr_stopped (ts ! the (me_tr e)) \<and> tr_m_idx (ts ! the (me_tr e)) = None"
    and "\<forall>e \<in> set es. me_sctp e \<longrightarrow> need"
    and "fold (offer_entry L cur need) es (offer, ts) = (offer', ts')"
  shows "\<exists>ms. sd_medias offer' = sd_medias offer @ ms \<and> map md_mid ms = map me_mid es
      \<and> list_all (\<lambda>m. md_port m \<noteq> 0) ms
      \<and> length ts' = length ts
      \<and> (\<forall>k < length ts. tr_mid (ts' ! k) = tr_mid (ts ! k) \<and> (tr_m_idx (ts' ! k) = tr_m_idx (ts ! k)
           \<or> (\<exists>i < length ms. tr_m_idx (ts' ! k) = Some (length (sd_medias offer) + i))))
      \<and> offer' = offer\<lparr>sd_medias := sd_medias offer'\<rparr>"
  using assms
proof (induction es arbitrary: offer ts)
  case (Cons e es)
  have ok: "entry_ok (length ts) e" using Cons.prems(1) by simp
  define m where "m = (if me_sctp e then sctp_media offer need (me_mid e) else rtp_media L offer (me_mid e) (ts ! the (me_tr e)))"
  define ts1 where "ts1 = (if me_sctp e then ts
      else ts[the (me_tr e) := (ts ! the (me_tr e))\<lparr>tr_m_idx := Some (length (sd_medias offer))\<rparr>])"
  define offer1 where "offer1 = offer\<lparr>sd_medias := sd_medias offer @ [m]\<rparr>"
  have step: "offer_entry L cur need e (offer, ts) = (offer1, ts1)"
  proof (cases "me_sctp e")
    case True
    then show ?thesis by (simp add: offer_entry_def m_def ts1_def offer1_def)
  next
    case False
    then obtain k where "me_tr e = Some k" using ok by (auto simp: entry_ok_def split: option.splits)
    then show ?thesis using False by (simp add: offer_entry_def m_def ts1_def offer1_def)
  qed
  have m: "md_mid m = me_mid e" "md_port m \<noteq> 0"
    using Cons.prems(3,4) by (simp_all add: m_def sctp_media_def rtp_media_def offer_fields add_format_def sdp_media_default_def)
  have l: "length ts1 = length ts" by (simp add: ts1_def)
  have others: "ts1 ! the (me_tr e') = ts ! the (me_tr e')" if "e' \<in> set es" "\<not> me_sctp e'" for e'
  proof (cases "me_sctp e")
    case False
    then have "me_tr e' \<noteq> me_tr e" using Cons.prems(2) that by (force simp: image_iff)
    moreover have "entry_ok (length ts) e'" using Cons.prems(1) that(1) by (simp add: list_all_iff)
    then have "me_tr e' \<noteq> None" "me_tr e \<noteq> None" using entry_ok_tr that(2) ok False by fastforce+
    ultimately have "the (me_tr e) \<noteq> the (me_tr e')" by auto
    then show ?thesis by (simp add: ts1_def)
  qed (simp add: ts1_def)
  have ih: "\<exists>ms. sd_medias offer' = sd_medias offer1 @ ms \<and> map md_mid ms = map me_mid es
      \<and> list_all (\<lambda>m. md_port m \<noteq> 0) ms
      \<and> length ts' = length ts1
      \<and> (\<forall>k < length ts1. tr_mid (ts' ! k) = tr_mid (ts1 ! k) \<and> (tr_m_idx (ts' ! k) = tr_m_idx (ts1 ! k)
           \<or> (\<exists>i < length ms. tr_m_idx (ts' ! k) = Some (length (sd_medias offer1) + i))))
      \<and> offer' = offer1\<lparr>sd_medias := sd_medias offer'\<rparr>"
  proof (rule Cons.IH)
    show "list_all (entry_ok (length ts1)) es" using Cons.prems(1) l by simp
    show "distinct (map me_tr (filter (\<lambda>e. \<not> me_sctp e) es))" using Cons.prems(2) by (auto split: if_splits)
    show "\<forall>e\<in>set es. \<not> me_sctp e \<longrightarrow> \<not> tr_stopped (ts1 ! the (me_tr e)) \<and> tr_m_idx (ts1 ! the (me_tr e)) = None"
      using Cons.prems(3) others by auto
    show "fold (offer_entry L cur need) es (offer1, ts1) = (offer', ts')" using Cons.prems(5) step by simp
    show "\<forall>e \<in> set es. me_sctp e \<longrightarrow> need" using Cons.prems(4) by simp
  qed
  then obtain ms where ms: "sd_medias offer' = sd_medias offer1 @ ms" "map md_mid ms = map me_mid es"
      "list_all (\<lambda>m. md_port m \<noteq> 0) ms" "length ts' = length ts1"
      "\<And>k. k < length ts1 \<Longrightarrow> tr_mid (ts' ! k) = tr_mid (ts1 ! k) \<and> (tr_m_idx (ts' ! k) = tr_m_idx (ts1 ! k)
           \<or> (\<exists>i < length ms. tr_m_idx (ts' ! k) = Some (length (sd_medias offer1) + i)))"
      "offer' = offer1\<lparr>sd_medias := sd_medias offer'\<rparr>"
    by blast
  have k: "tr_mid (ts' ! k) = tr_mid (ts ! k) \<and> (tr_m_idx (ts' ! k) = tr_m_idx (ts ! k)
           \<or> (\<exists>i < length (m # ms). tr_m_idx (ts' ! k) = Some (length (sd_medias offer) + i)))" if "k < length ts" for k
  proof -
    have "tr_mid (ts1 ! k) = tr_mid (ts ! k) \<and> (tr_m_idx (ts1 ! k) = tr_m_idx (ts ! k) \<or> tr_m_idx (ts1 ! k) = Some (length (sd_medias offer)))"
      using that by (cases "k = the (me_tr e)") (auto simp: ts1_def)
    moreover have "length (sd_medias offer1) = Suc (length (sd_medias offer))" by (simp add: offer1_def)
    ultimately show ?thesis using ms(5) [of k] that l
      by (metis add_0_right add_Suc_right add_Suc_shift length_Cons not_less_eq zero_less_Suc)
  qed
  show ?case
    by (rule exI [of _ "m # ms"]) (use m ms(1-4,6) k l in \<open>auto simp: offer1_def\<close>)
qed auto

lemma name_entries_distinct:
  assumes "list_all (\<lambda>e. me_mid e = []) es" "name_entries used n es = Some (es', n')"
  shows "distinct (map me_mid es') \<and> set (map me_mid es') \<inter> set used = {}"
  using assms
proof (induction es arbitrary: used n es')
  case (Cons e es)
  then obtain mid m fs where m: "next_mid used n = Some (mid, m)" "name_entries (mid # used) m es = Some (fs, n')"
    "es' = e\<lparr>me_mid := mid\<rparr> # fs"
    by (auto split: option.splits)
  have "mid \<notin> set used" using next_mid_from_Some m(1) unfolding next_mid_def by blast
  then show ?case using Cons.IH [OF _ m(2)] Cons.prems(1) m(3) by auto
qed simp

lemma finish_offer_facts:
  assumes "list_all (\<lambda>m. md_port m \<noteq> 0) (sd_medias s)" "sd_medias s \<noteq> []"
    and "list_all (\<lambda>g. gr_semantic g \<noteq> ''BUNDLE'') (sd_groups s)"
  shows "bundle_of (finish_offer s) = Some \<lparr>gr_semantic = ''BUNDLE'', gr_items = map md_mid (sd_medias s)\<rparr>"
proof -
  have "find (\<lambda>g. gr_semantic g = ''BUNDLE'') (gs @ [\<lparr>gr_semantic = ''BUNDLE'', gr_items = x\<rparr>]) = Some \<lparr>gr_semantic = ''BUNDLE'', gr_items = x\<rparr>"
    if "list_all (\<lambda>g. gr_semantic g \<noteq> ''BUNDLE'') gs" for gs x
    using that by (induction gs) auto
  moreover have "filter (\<lambda>m. md_port m \<noteq> 0) (sd_medias s) = sd_medias s"
    using assms(1) by (simp add: filter_id_conv list_all_iff)
  ultimately show ?thesis using assms(2,3) by (simp add: finish_offer_def bundle_of_def Let_def)
qed

lemma finish_offer_medias:
  "sd_medias (finish_offer s) = sd_medias s" "sd_sdp_type (finish_offer s) = sd_sdp_type s"
  by (simp_all add: finish_offer_def Let_def)

lemma fresh_offer:
  assumes f: "fresh c" and n: "length (cn_transceivers c) < 65535"
  obtains offer c' where "create_offer L A c = Some (offer, c')"
    "sd_sdp_type offer = ''offer''" "cn_signaling c' = stable" "list_all (offer_fits offer) (cn_transceivers c')"
    "list_all (\<lambda>m. md_mid m \<noteq> []) (sd_medias offer)" "distinct (map md_mid (sd_medias offer))"
    "length (sd_medias offer) = (if cn_need_sctp c then 1 else 0) + length (live (cn_transceivers c))"
    "sd_medias offer \<noteq> [] \<Longrightarrow> bundle_of offer = Some \<lparr>gr_semantic = ''BUNDLE'', gr_items = map md_mid (sd_medias offer)\<rparr>"
proof -
  let ?ts = "cn_transceivers c"
  let ?n = "(if cn_need_sctp c then 1 else 0) + length (live ?ts) :: nat"
  obtain es where es: "media_entries c = (if cn_need_sctp c then [\<lparr>me_tr = None, me_index = 0, me_mid = [], me_sctp = True\<rparr>] else []) @ es"
    "map me_tr es = map Some (live ?ts)" "list_all (\<lambda>e. me_mid e = [] \<and> \<not> me_sctp e) es"
    using fresh_entries [OF f] by blast
  let ?es = "media_entries c"
  have e0: "list_all (\<lambda>e. me_mid e = []) ?es" using es by (auto simp: list_all_iff)
  have len: "length ?es = ?n" using es(1) arg_cong [OF es(2), of length] by simp
  have "length (live ?ts) \<le> length ?ts" unfolding live_def by (metis length_filter_le length_upt diff_zero)
  then have "length [] + length ?es < 65536" using len n by simp
  moreover have used: "map me_mid (filter (\<lambda>e. me_mid e \<noteq> []) ?es) = []" using e0 by (simp add: filter_empty_conv list_all_iff)
  moreover have "\<forall>e \<in> set ?es. me_mid e \<noteq> [] \<longrightarrow> me_mid e \<in> set []" using e0 by (simp add: list_all_iff)
  ultimately obtain fs m where nm: "name_entries [] (cn_mid_counter c) ?es = Some (fs, m)"
    and all2: "list_all2 (\<lambda>e e'. me_mid e' \<noteq> [] \<and> me_tr e' = me_tr e \<and> me_sctp e' = me_sctp e \<and> me_index e' = me_index e
        \<and> (me_mid e = [] \<longrightarrow> me_mid e' \<notin> set []) \<and> (me_mid e \<noteq> [] \<longrightarrow> me_mid e' = me_mid e)) ?es fs"
    using name_entries_ok [of "[]" ?es "cn_mid_counter c"] by blast
  have d: "distinct (map me_mid fs)" using name_entries_distinct [OF e0 nm] by simp
  have sctp: "map me_sctp fs = map me_sctp ?es" "map me_tr fs = map me_tr ?es" "length fs = length ?es"
    using all2 by (auto simp: list_all2_conv_all_nth intro!: nth_equalityI)
  have trs: "map me_tr (filter (\<lambda>e. \<not> me_sctp e) fs) = map Some (live ?ts)"
  proof -
    have "map me_tr (filter (\<lambda>e. \<not> me_sctp e) xs) = map fst (filter (\<lambda>p. \<not> snd p) (zip (map me_tr xs) (map me_sctp xs)))" for xs
      by (induction xs) auto
    then have "map me_tr (filter (\<lambda>e. \<not> me_sctp e) fs) = map me_tr (filter (\<lambda>e. \<not> me_sctp e) ?es)"
      using sctp by metis
    also have "filter (\<lambda>e. \<not> me_sctp e) ?es = es" using es(1,3) by (simp add: filter_id_conv list_all_iff)
    finally show ?thesis using es(2) by simp
  qed
  have tr: "\<exists>k < length ?ts. me_tr e = Some k \<and> \<not> tr_stopped (?ts ! k)" if "e \<in> set fs" "\<not> me_sctp e" for e
  proof -
    have "me_tr e \<in> set (map me_tr (filter (\<lambda>e. \<not> me_sctp e) fs))" using that by simp
    then show ?thesis unfolding trs by (auto simp: live_def)
  qed
  have mids: "me_mid e \<noteq> []" if "e \<in> set fs" for e
    using all2 that by (metis (mono_tags, lifting) in_set_conv_nth list_all2_conv_all_nth)
  have ok: "list_all (entry_ok (length ?ts)) fs"
    using tr mids by (fastforce simp: list_all_iff entry_ok_def)
  have dist: "distinct (map me_tr (filter (\<lambda>e. \<not> me_sctp e) fs))"
    unfolding trs by (simp add: live_def distinct_map)
  have fresh_t: "tr_mid (?ts ! k) = []" "tr_m_idx (?ts ! k) = None" if "k < length ?ts" for k
    using f that by (auto simp: fresh_def list_all_length)
  then have st: "\<forall>e \<in> set fs. \<not> me_sctp e \<longrightarrow> \<not> tr_stopped (?ts ! the (me_tr e)) \<and> tr_m_idx (?ts ! the (me_tr e)) = None"
    using tr by fastforce
  have need: "\<forall>e \<in> set fs. me_sctp e \<longrightarrow> cn_need_sctp c"
  proof -
    have "list_all (\<lambda>b. b \<longrightarrow> cn_need_sctp c) (map me_sctp ?es)" using es(1,3) by (auto simp: list_all_iff)
    then show ?thesis unfolding sctp(1) [symmetric] by (simp add: list_all_iff)
  qed
  define offer0 where "offer0 = (offer_session A c)\<lparr>sd_groups := ls_groups (sync_groups ?ts fs)\<rparr>"
  have s0: "sd_medias offer0 = []" "sd_sdp_type offer0 = ''offer''" "list_all (\<lambda>g. gr_semantic g \<noteq> ''BUNDLE'') (sd_groups offer0)"
    by (auto simp: offer0_def offer_session_def session_description_default_def Let_def ls_groups_def list_all_iff split: option.splits)
  obtain offer1 ts' where fo: "fold (offer_entry L (cn_local_desc c) (cn_need_sctp c)) fs (offer0, ?ts) = (offer1, ts')"
    by fastforce
  obtain ms where ms: "sd_medias offer1 = ms" "map md_mid ms = map me_mid fs"
    "list_all (\<lambda>m. md_port m \<noteq> 0) ms" "length ts' = length ?ts"
    "\<And>k. k < length ?ts \<Longrightarrow> tr_mid (ts' ! k) = [] \<and> (tr_m_idx (ts' ! k) = None \<or> (\<exists>i < length ms. tr_m_idx (ts' ! k) = Some i))"
    "offer1 = offer0\<lparr>sd_medias := sd_medias offer1\<rparr>"
    using offer_entries [OF ok dist st need fo] s0(1) fresh_t by auto
  have co: "create_offer L A c = Some (finish_offer offer1,
       c\<lparr>cn_session_version := cn_session_version c + 1, cn_mid_counter := m, cn_transceivers := ts'\<rparr>)"
    using nm fo used by (simp add: create_offer_def offer0_def)
  have ty: "sd_sdp_type offer1 = ''offer''" "list_all (\<lambda>g. gr_semantic g \<noteq> ''BUNDLE'') (sd_groups offer1)"
    using s0(2,3) by (subst ms(6), simp)+
  have fits: "offer_fits (finish_offer offer1) (ts' ! k)" if "k < length ?ts" for k
    using ms(5) [OF that] ms(1) by (auto simp: offer_fits_def finish_offer_medias)
  show thesis
  proof (rule that [OF co])
    show "list_all (offer_fits (finish_offer offer1)) (cn_transceivers (c\<lparr>cn_session_version := cn_session_version c + 1, cn_mid_counter := m, cn_transceivers := ts'\<rparr>))"
      using ms(4) fits by (simp add: list_all_length)
    show "list_all (\<lambda>m. md_mid m \<noteq> []) (sd_medias (finish_offer offer1))"
      using mids ms(1) arg_cong [OF ms(2), of set] by (auto simp: list_all_iff finish_offer_medias) (metis image_eqI image_iff)
    show "length (sd_medias (finish_offer offer1)) = ?n"
      using ms(1) arg_cong [OF ms(2), of length] len sctp(3) by (simp add: finish_offer_medias)
    show "bundle_of (finish_offer offer1) = Some \<lparr>gr_semantic = ''BUNDLE'', gr_items = map md_mid (sd_medias (finish_offer offer1))\<rparr>"
      if "sd_medias (finish_offer offer1) \<noteq> []"
      using finish_offer_facts [of offer1] ms(1,3) ty(2) that by (simp add: finish_offer_medias)
  qed (use ms d ty f in \<open>simp_all add: finish_offer_medias fresh_def\<close>)
qed

section \<open>A first exchange\<close>

lemma set_local_ok:
  assumes "local_guard (cn_signaling c) (sd_sdp_type d)" "sd_sdp_type d = ''offer'' \<Longrightarrow> list_all (offer_fits d) (cn_transceivers c)"
  obtains c' where "set_local_description A d c = Inr c'"
    "cn_signaling c' = (if sd_sdp_type d = ''offer'' then have_local_offer else have_local_pranswer)"
    "cn_local_desc c' = Some d" "cn_remote_desc c' = cn_remote_desc c"
    "cn_remote_desc c \<noteq> None \<Longrightarrow> Connect \<in> set (cn_agent c') \<and> cn_connection_state c' = cs_connecting"
    "cn_ice_controlling c' \<longleftrightarrow> sd_sdp_type d = ''offer''"
proof -
  have keep: "cn_signaling (start_connecting (start_gathering (apply_descriptions A c))) = cn_signaling c"
    "cn_local_desc (start_connecting (start_gathering (apply_descriptions A c))) = cn_local_desc c"
    "cn_remote_desc (start_connecting (start_gathering (apply_descriptions A c))) = cn_remote_desc c"
    "cn_ice_controlling (start_connecting (start_gathering (apply_descriptions A c))) = cn_ice_controlling c"
    "cn_local_desc c \<noteq> None \<Longrightarrow> cn_remote_desc c \<noteq> None \<Longrightarrow>
       Connect \<in> set (cn_agent (start_connecting (start_gathering (apply_descriptions A c))))
       \<and> cn_connection_state (start_connecting (start_gathering (apply_descriptions A c))) = cs_connecting" for c
    by (auto simp: apply_descriptions_def start_gathering_def start_connecting_def begin_connect_def calls_def Let_def split: option.splits)
  show ?thesis
  proof (cases "sd_sdp_type d = ''offer''")
    case True
    then show ?thesis using assms that [OF _] keep by (simp add: set_local_description_def Let_def)
  next
    case False
    then show ?thesis using assms that [OF _] keep by (simp add: set_local_description_def Let_def)
  qed
qed

lemma set_remote_ok:
  assumes "remote_guard (cn_signaling c) (sd_sdp_type d)" "remote_prepare L uuid d c = (c1, None)"
  obtains c' where "set_remote_description L A uuid d c = (c', None)"
    "cn_signaling c' = (if sd_sdp_type d = ''offer'' then have_remote_offer else have_remote_pranswer)"
    "cn_remote_desc c' = Some d"
    "cn_local_desc c \<noteq> None \<Longrightarrow> Connect \<in> set (cn_agent c') \<and> cn_connection_state c' = cs_connecting"
    "cn_ice_controlling c' \<longleftrightarrow> sd_sdp_type d \<noteq> ''offer''"
proof -
  have keep: "cn_signaling (start_connecting (apply_descriptions A c)) = cn_signaling c"
    "cn_remote_desc (start_connecting (apply_descriptions A c)) = cn_remote_desc c"
    "cn_ice_controlling (start_connecting (apply_descriptions A c)) = cn_ice_controlling c"
    "cn_local_desc c \<noteq> None \<Longrightarrow> cn_remote_desc c \<noteq> None \<Longrightarrow> Connect \<in> set (cn_agent (start_connecting (apply_descriptions A c)))
       \<and> cn_connection_state (start_connecting (apply_descriptions A c)) = cs_connecting" for c
    by (auto simp: apply_descriptions_def start_connecting_def begin_connect_def calls_def Let_def split: option.splits)
  have "cn_local_desc c1 \<noteq> None \<longleftrightarrow> cn_local_desc c \<noteq> None"
    using view_remote_prepare [OF assms(2)] by (cases "cn_local_desc c"; cases "cn_local_desc c1") (auto simp: view_def)
  then show ?thesis using assms that [OF _] keep by (simp add: set_remote_description_def Let_def)
qed

lemma remote_sections_ok:
  "list_all (\<lambda>m. md_mid m \<noteq> []) rms \<Longrightarrow> snd (remote_offer_sections L uuid n rms c) = None"
proof (induction rms arbitrary: n c)
  case (Cons rm rms)
  have "snd (remote_offer_section L (uuid n) rm c) = None"
    using Cons.prems by (auto simp: remote_offer_section_def Let_def split: option.splits)
  then show ?case using Cons by (auto split: prod.splits option.splits)
qed simp

lemma do_connect_connected:
  assumes "cn_remote_desc c \<noteq> None" "tp_ice r" "tp_dtls r" "tp_srtp_setup r" "tp_sctp r"
  shows "cn_connection_state (do_connect r c) = cs_connected"
  using assms by (auto simp: do_connect_def connect_stages_def connect_on_exit_def Let_def)

text \<open>
  C1: A first exchange runs to its end. Of two connections that have not negotiated, the one with
  something to offer makes an offer that it accepts as its own, the other accepts it and answers, and
  the answer is accepted on both sides. The sections carry distinct identifiers and the answer repeats
  them. Both sides are connecting then and have asked their agents to connect; the offerer is the one
  that controls ICE, the two sides take opposite roles in the DTLS handshake, and both come to the
  connected state when no stage of the connecting fails.
\<close>
theorem handshake_completes:
  assumes "fresh a" "cn_signaling b = stable" "length (cn_transceivers a) < 65535"
    and "cn_need_sctp a \<or> live (cn_transceivers a) \<noteq> []"
  shows "\<exists>offer a1 a2 b1 ans b2 a3.
    create_offer L A a = Some (offer, a1) \<and> set_local_description A offer a1 = Inr a2
    \<and> set_remote_description L B u offer b = (b1, None) \<and> create_answer L B b1 = Inr ans
    \<and> set_local_description B ans b1 = Inr b2 \<and> set_remote_description L A v ans a2 = (a3, None)
    \<and> distinct (map md_mid (sd_medias offer)) \<and> map md_mid (sd_medias ans) = map md_mid (sd_medias offer)
    \<and> length (sd_medias offer) = (if cn_need_sctp a then 1 else 0) + length (live (cn_transceivers a))
    \<and> dtls_role_for ans \<noteq> dtls_role_for offer
    \<and> cn_ice_controlling a3 \<and> \<not> cn_ice_controlling b2
    \<and> cn_connection_state a3 = cs_connecting \<and> cn_connection_state b2 = cs_connecting
    \<and> Connect \<in> set (cn_agent a3) \<and> Connect \<in> set (cn_agent b2)
    \<and> (\<forall>r. tp_ice r \<and> tp_dtls r \<and> tp_srtp_setup r \<and> tp_sctp r \<longrightarrow>
          cn_connection_state (do_connect r a3) = cs_connected \<and> cn_connection_state (do_connect r b2) = cs_connected)"
proof -
  obtain offer a1 where off: "create_offer L A a = Some (offer, a1)"
    "sd_sdp_type offer = ''offer''" "cn_signaling a1 = stable" "list_all (offer_fits offer) (cn_transceivers a1)"
    "list_all (\<lambda>m. md_mid m \<noteq> []) (sd_medias offer)" "distinct (map md_mid (sd_medias offer))"
    "length (sd_medias offer) = (if cn_need_sctp a then 1 else 0) + length (live (cn_transceivers a))"
    "sd_medias offer \<noteq> [] \<Longrightarrow> bundle_of offer = Some \<lparr>gr_semantic = ''BUNDLE'', gr_items = map md_mid (sd_medias offer)\<rparr>"
    using fresh_offer [OF assms(1,3)] by blast
  have "sd_medias offer \<noteq> []" using off(7) assms(4) by (auto split: if_splits)
  then have bdl: "bundle_of offer = Some \<lparr>gr_semantic = ''BUNDLE'', gr_items = map md_mid (sd_medias offer)\<rparr>" by (rule off(8))
  obtain a2 where a2: "set_local_description A offer a1 = Inr a2" "cn_signaling a2 = have_local_offer" "cn_local_desc a2 = Some offer"
    using set_local_ok [of a1 offer A] off(2,3,4) by (auto simp: local_guard_def)
  have "\<not> list_ex (\<lambda>rm. md_media_type rm = mt_application \<and> md_mid rm \<notin> set (map md_mid (sd_medias offer))) (sd_medias offer)"
    by (auto simp: list_ex_iff)
  then have "snd (remote_prepare L u offer b) = None"
    using remote_sections_ok [OF off(5)] by (simp add: remote_prepare_def off(2) bdl)
  then obtain b0 where "remote_prepare L u offer b = (b0, None)" by (metis prod.collapse)
  then obtain b1 where b1: "set_remote_description L B u offer b = (b1, None)" "cn_signaling b1 = have_remote_offer"
    "cn_remote_desc b1 = Some offer"
    using set_remote_ok [of b offer L u b0 B] assms(2) off(2) by (auto simp: remote_guard_def)
  obtain ans where ans: "create_answer L B b1 = Inr ans"
    using b1 by (simp add: create_answer_def Let_def)
  note al = create_answer_aligned [OF ans b1(3)]
  obtain b2 where b2: "set_local_description B ans b1 = Inr b2" "Connect \<in> set (cn_agent b2)"
    "cn_connection_state b2 = cs_connecting" "\<not> cn_ice_controlling b2" "cn_remote_desc b2 \<noteq> None"
    using set_local_ok [of b1 ans B] al b1(2,3) by (auto simp: local_guard_def)
  have "snd (remote_prepare L v ans a2) = None" using al by (simp add: remote_prepare_def)
  then obtain a0 where "remote_prepare L v ans a2 = (a0, None)" by (metis prod.collapse)
  then obtain a3 where a3: "set_remote_description L A v ans a2 = (a3, None)" "Connect \<in> set (cn_agent a3)"
    "cn_connection_state a3 = cs_connecting" "cn_ice_controlling a3" "cn_remote_desc a3 \<noteq> None"
  proof -
    have "remote_guard (cn_signaling a2) (sd_sdp_type ans)" using a2(2) al by (simp add: remote_guard_def)
    from set_remote_ok [OF this \<open>remote_prepare L v ans a2 = (a0, None)\<close>, of A] obtain c where
      "set_remote_description L A v ans a2 = (c, None)" "cn_remote_desc c = Some ans"
      "cn_local_desc a2 \<noteq> None \<Longrightarrow> Connect \<in> set (cn_agent c) \<and> cn_connection_state c = cs_connecting"
      "cn_ice_controlling c \<longleftrightarrow> sd_sdp_type ans \<noteq> ''offer''" by blast
    then show thesis using that [of c] a2(3) al by simp
  qed
  have "map md_mid (sd_medias ans) = map md_mid (sd_medias offer)"
    using al by (auto simp: list_all2_conv_all_nth answers_def intro!: nth_equalityI)
  moreover have "\<forall>r. tp_ice r \<and> tp_dtls r \<and> tp_srtp_setup r \<and> tp_sctp r \<longrightarrow>
      cn_connection_state (do_connect r a3) = cs_connected \<and> cn_connection_state (do_connect r b2) = cs_connected"
    using do_connect_connected a3(5) b2(5) by blast
  ultimately show ?thesis using off(1,6,7) a2(1) b1(1) ans b2(1-4) a3(1-4) al by blast
qed

theorem handshake_completes_witness:
  "\<exists>offer a1. create_offer sdp_sample_lib sample_agent ((connection_new True)\<lparr>cn_need_sctp := True\<rparr>) = Some (offer, a1)
     \<and> length (sd_medias offer) = 1"
proof -
  have "fresh ((connection_new True)\<lparr>cn_need_sctp := True\<rparr>)" by (simp add: fresh_def connection_new_def)
  then show ?thesis
    using handshake_completes [of "(connection_new True)\<lparr>cn_need_sctp := True\<rparr>" "connection_new True" sdp_sample_lib sample_agent
        sample_agent "\<lambda>_. ''t''" "\<lambda>_. ''u''"]
    by (auto simp: connection_new_def live_def)
qed

section \<open>Where an exchange goes wrong\<close>

text \<open>
  An offer made while a description with a data channel is already set holds the section of the data
  channel twice: its identifier is not erased from the map that fills the gaps.
\<close>

lemma offer_repeats_sctp:
  "let d = (session_description_default ''offer'')\<lparr>sd_medias := [(sdp_media_default mt_application)\<lparr>md_mid := ''0''\<rparr>]\<rparr>;
       c = (connection_new True)\<lparr>cn_need_sctp := True, cn_local_desc := Some d\<rparr>
   in map (\<lambda>e. (me_index e, me_mid e, me_sctp e)) (media_entries c) = [(0, ''0'', True), (0, ''0'', False)]"
  by (simp add: media_entries_def scan_current_def scan_media_def session_description_default_def sdp_media_default_def
      connection_new_def sctp_entry_def)

text \<open>The version of its origin is not a number but the character with the number of the counter.\<close>

lemma offer_version_is_a_character:
  "or_session_version (sd_origin (offer_session A ((connection_new True)\<lparr>cn_local_desc := Some d, cn_session_version := 1\<rparr>))) = [CHR 0x01]"
proof -
  have "char_of (Suc 0) = CHR 0x01" by code_simp
  then show ?thesis by (simp add: offer_session_def Let_def)
qed

text \<open>
  A section without an identifier is refused only when its turn comes: the sections in front of it
  have changed their transceivers by then.
\<close>

lemma refused_offer_changes_transceivers:
  "let m = (sdp_media_default mt_video)\<lparr>md_mid := ''0'', md_rtpmaps := [sample_codec]\<rparr>;
       d = (session_description_default ''offer'')\<lparr>sd_medias := [m, sdp_media_default mt_video],
             sd_groups := [\<lparr>gr_semantic = ''BUNDLE'', gr_items = [''0'']\<rparr>]\<rparr>;
       c = (connection_new True)\<lparr>cn_transceivers := [rtp_transceiver_new sample_codec]\<rparr>;
       (c', e) = set_remote_description sdp_sample_lib sample_agent (\<lambda>_. ''t'') d c
   in e = Some Invalid_argument \<and> map tr_mid (cn_transceivers c') = [''0'']"
proof -
  have n: "nceq sdp_sample_lib a b \<longleftrightarrow> map to_lower a = map to_lower b" for a b
    using sdp_sample_lib_ok(1) by (simp add: nceq_ok_def)
  show ?thesis
    by (simp add: set_remote_description_def remote_prepare_def bundle_of_def session_description_default_def
        remote_guard_def connection_new_def remote_offer_section_def section_kind_def sdp_media_default_def
        free_transceiver_def rtp_transceiver_new_def tr_kind_def sample_codec_def n to_lower_def
        from_remote_offer_def remote_codec_def rtpmap_is_match_def put_transceiver_def announce_track_def
        build_ssrc_map_def receives_def mid_ext_of_def negotiate_direction_def direction_of_bits_def
        add_rtx_pt_def rtx_apt_def repair_ssrcs_def rtp_receiver_default_def Let_def List.map_filter_def)
qed

end
