(* ===== verification/MediaPath.thy ===== *)
theory MediaPath
  imports Negotiation Rtcp
begin

text \<open>
  The media path of \<open>src/connection_impl.cpp\<close>: building and sending RTP packets, the history they leave
  and the retransmissions it serves, the routing of received packets to a track, the reports and the
  feedback, and the frames a track delivers (\<open>media_track_impl::recv\<close>).

  The SRTP transport is an object of another package: what is handed to it is recorded in its order,
  when the connection has one. Clock readings are arguments: \<open>now\<close> in nanoseconds of the steady clock.
  As in theory Rtp, an outer \<open>None\<close> is undefined behaviour.
\<close>

section \<open>State\<close>

record twcc_sent_entry =
  tse_transport_seq :: u16
  tse_ssrc :: u32
  tse_size :: nat
  tse_send_time :: int

definition TWCC_SENT_SIZE :: nat where
  "TWCC_SENT_SIZE = 256"

text \<open>The remote statistics; \<open>double\<close> values are kept as the integers they are computed from.\<close>

record remote_outbound =
  ro_ssrc :: u32
  ro_packets_sent :: u32
  ro_bytes_sent :: u32
  ro_remote_timestamp :: u64

record remote_inbound =
  ri_ssrc :: u32
  ri_packets_lost :: u32
  ri_jitter :: u32
  ri_fraction_lost_256 :: u8
  ri_round_trip_us :: "int option"

record media_path =
  mp_conn :: connection
  mp_twcc :: transport_cc
  mp_rx_packets :: u64
  mp_rx_bytes :: u64
  mp_tx_packets :: u64
  mp_tx_bytes :: u64
  mp_wide_seq :: u16
  mp_twcc_sent :: "twcc_sent_entry option list"
  mp_outbound :: "u32 \<rightharpoonup> remote_outbound"
  mp_inbound :: "u32 \<rightharpoonup> remote_inbound"
  mp_sent_rtp :: "bytes list"
  mp_sent_rtcp :: "bytes list"

definition media_path_new :: "connection \<Rightarrow> transport_cc \<Rightarrow> media_path" where
  "media_path_new c tw = \<lparr>mp_conn = c, mp_twcc = tw, mp_rx_packets = 0, mp_rx_bytes = 0, mp_tx_packets = 0,
     mp_tx_bytes = 0, mp_wide_seq = 1, mp_twcc_sent = replicate TWCC_SENT_SIZE None,
     mp_outbound = Map.empty, mp_inbound = Map.empty, mp_sent_rtp = [], mp_sent_rtcp = []\<rparr>"

definition sync_send_rtp :: "bytes \<Rightarrow> media_path \<Rightarrow> media_path" where
  "sync_send_rtp d s = (if cn_srtp_transport (mp_conn s) then s\<lparr>mp_sent_rtp := mp_sent_rtp s @ [d]\<rparr> else s)"

definition sync_send_rtcp :: "bytes \<Rightarrow> media_path \<Rightarrow> media_path" where
  "sync_send_rtcp d s = (if cn_srtp_transport (mp_conn s) then s\<lparr>mp_sent_rtcp := mp_sent_rtcp s @ [d]\<rparr> else s)"

section \<open>Building a packet\<close>

text \<open>The identifier negotiated for a header extension, 0 if there is none.\<close>

definition ext_id :: "sdp_extmap list \<Rightarrow> string \<Rightarrow> nat" where
  "ext_id exts uri = (case find (\<lambda>e. em_uri e = uri) exts of None \<Rightarrow> 0 | Some e \<Rightarrow> unat (em_id e))"

definition ext_usable :: "nat \<Rightarrow> bool" where
  "ext_usable i \<longleftrightarrow> 0 < i \<and> i < 15"

definition ext_header :: "nat \<Rightarrow> nat \<Rightarrow> u8" where
  "ext_header i len = push_bit 4 (of_nat i) OR (of_nat len - 1)"

definition char_byte :: "char \<Rightarrow> u8" where
  "char_byte c = of_nat (of_char c)"

definition mid_element :: "sdp_extmap list \<Rightarrow> string \<Rightarrow> bytes" where
  "mid_element exts mid =
     (let i = ext_id exts uri_mid
      in if ext_usable i then [ext_header i 1, char_byte (case mid of [] \<Rightarrow> CHR ''0'' | c # _ \<Rightarrow> c)] else [])"

definition rid_element :: "sdp_extmap list \<Rightarrow> string \<Rightarrow> bytes" where
  "rid_element exts rid =
     (let i = ext_id exts uri_rid
      in if ext_usable i \<and> rid \<noteq> [] then ext_header i (length rid) # map char_byte rid else [])"

definition abs_element :: "sdp_extmap list \<Rightarrow> u64 \<Rightarrow> bytes" where
  "abs_element exts ntp =
     (let i = ext_id exts uri_abs; abs = ucast (if ntp \<noteq> 0 then drop_bit 14 ntp AND 0xFFFFFF else 0) :: u32
      in if ext_usable i
         then [ext_header i 3, ucast (drop_bit 16 abs AND 0xFF), ucast (drop_bit 8 abs AND 0xFF), ucast (abs AND 0xFF)]
         else [])"

text \<open>The element and the advanced counter; the returned number is 0 when there is no element.\<close>

definition tcc_element :: "sdp_extmap list \<Rightarrow> u16 \<Rightarrow> bytes \<times> u16 \<times> u16" where
  "tcc_element exts wide =
     (let i = ext_id exts uri_tcc
      in if ext_usable i
         then (let n = wide + 1
               in ([ext_header i 2, ucast (drop_bit 8 n AND 0xFF), ucast (n AND 0xFF)], n, n))
         else ([], 0, wide))"

definition make_ext_data :: "sdp_lib \<Rightarrow> rtp_transceiver \<Rightarrow> rtp_stream \<Rightarrow> u16 \<Rightarrow> bytes \<times> u16 \<times> u16" where
  "make_ext_data L t s wide =
     (let exts = rc_extensions (tr_receiver t);
          (tcc, n, wide) = tcc_element exts wide
      in (pad_to_word (mid_element exts (tr_mid t) @ rid_element exts (sm_rid s)
            @ (if tr_kind L t = mk_video then abs_element exts (sm_ntp_timestamp (hd (sn_streams (tr_sender t)))) else [])
            @ tcc), n, wide))"

definition make_packet :: "u8 \<Rightarrow> rtp_stream \<Rightarrow> bytes \<Rightarrow> bytes \<Rightarrow> u32 \<Rightarrow> u16 \<Rightarrow> bool \<Rightarrow> rtp_packet" where
  "make_packet pt s ext payload ts seq marker =
     (let p = rtp_packet_default\<lparr>rp_payload_type := pt, rp_marker := (if marker then 1 else 0),
                rp_sequence_number := seq, rp_timestamp := ts, rp_ssrc := sm_ssrc s, rp_payload := payload\<rparr>
      in if ext \<noteq> [] then p\<lparr>rp_extension := 1, rp_extension_profile := 0xBEDE, rp_extension_data := ext\<rparr> else p)"

text \<open>The bytes, the transport-wide number they carry (0: none) and the advanced counter.\<close>

definition make_rtp ::
  "binary_lib \<Rightarrow> sdp_lib \<Rightarrow> rtp_transceiver \<Rightarrow> rtp_stream \<Rightarrow> bytes \<Rightarrow> u32 \<Rightarrow> u16 \<Rightarrow> bool \<Rightarrow> u16
   \<Rightarrow> (bytes \<times> u16 \<times> u16) option" where
  "make_rtp B L t s payload ts seq marker wide =
     (let (ext, n, wide) = make_ext_data L t s wide;
          p = make_packet (rm_payload_type (tr_codec t)) s ext payload ts seq marker
      in map_option (\<lambda>(buf, _). (buf, n, wide)) (rtp_write_to B p (replicate (rtp_serialized_size p) 0)))"

section \<open>Sending a frame\<close>

definition packetizer_pack :: "bytes \<Rightarrow> rtp_packetizer \<Rightarrow> bytes list \<times> rtp_packetizer" where
  "packetizer_pack d p =
     (case p of H264Packetizer \<Rightarrow> (fst (h264_pack () d), H264Packetizer)
      | Vp8Packetizer i \<Rightarrow> map_prod id Vp8Packetizer (vp8_pack i d)
      | Vp9Packetizer i \<Rightarrow> map_prod id Vp9Packetizer (vp9_pack i d)
      | OpusPacketizer \<Rightarrow> (fst (opus_pack () d), OpusPacketizer))"

definition remember :: "history_entry \<Rightarrow> rtp_stream \<Rightarrow> rtp_stream" where
  "remember e s = s\<lparr>sm_history := (sm_history s)[unat (he_seq e) mod HISTORY_SIZE := Some e]\<rparr>"

text \<open>\<open>update_send_stats\<close>; \<open>us\<close> is the wall clock in microseconds.\<close>

definition stream_send_stats :: "bytes \<Rightarrow> u32 \<Rightarrow> int \<Rightarrow> rtp_stream \<Rightarrow> rtp_stream" where
  "stream_send_stats payload ts us s =
     s\<lparr>sm_octet_count := sm_octet_count s + of_nat (length payload), sm_packet_count := sm_packet_count s + 1,
       sm_ntp_timestamp := (of_int us * 65536) div 1000000, sm_rtp_timestamp := ts\<rparr>"

definition conn_send_stats :: "rtp_stream \<Rightarrow> nat \<Rightarrow> u16 \<Rightarrow> int \<Rightarrow> media_path \<Rightarrow> media_path" where
  "conn_send_stats s octets twcc_seq now m =
     (let m = m\<lparr>mp_tx_packets := mp_tx_packets m + 1, mp_tx_bytes := mp_tx_bytes m + of_nat octets\<rparr>
      in if twcc_seq \<noteq> 0
         then m\<lparr>mp_twcc_sent := (mp_twcc_sent m)[unat twcc_seq mod TWCC_SENT_SIZE :=
                  Some \<lparr>tse_transport_seq = twcc_seq, tse_ssrc = sm_ssrc s, tse_size = octets, tse_send_time = now\<rparr>]\<rparr>
         else m)"

definition upd_stream :: "nat \<Rightarrow> (rtp_stream \<Rightarrow> rtp_stream) \<Rightarrow> rtp_transceiver \<Rightarrow> rtp_transceiver" where
  "upd_stream si f t =
     t\<lparr>tr_sender := (tr_sender t)\<lparr>sn_streams := (sn_streams (tr_sender t))[si := f (sn_streams (tr_sender t) ! si)]\<rparr>\<rparr>"

text \<open>
  One packet of the frame of the \<open>si\<close>-th stream: the transceiver, the connection and the bytes handed to
  the SRTP transport; when it reports an error (\<open>ok\<close> is false) the statistics are not updated.
\<close>

definition send_packet ::
  "binary_lib \<Rightarrow> sdp_lib \<Rightarrow> nat \<Rightarrow> bytes \<Rightarrow> u32 \<Rightarrow> bool \<Rightarrow> bool \<Rightarrow> int \<Rightarrow> int
   \<Rightarrow> rtp_transceiver \<times> media_path \<Rightarrow> (rtp_transceiver \<times> media_path) option" where
  "send_packet B L si payload ts marker ok us now = (\<lambda>(t, m). do {
     let t = upd_stream si (\<lambda>s. s\<lparr>sm_seq := sm_seq s + 1\<rparr>) t;
     let s = sn_streams (tr_sender t) ! si;
     (buf, n, wide) \<leftarrow> make_rtp B L t s payload ts (sm_seq s) marker (mp_wide_seq m);
     let t = upd_stream si (remember \<lparr>he_payload = payload, he_seq = sm_seq s, he_timestamp = ts\<rparr>) t;
     let m = m\<lparr>mp_wide_seq := wide, mp_sent_rtp := mp_sent_rtp m @ [buf]\<rparr>;
     Some (if ok then (upd_stream si (stream_send_stats payload ts us) t, conn_send_stats s (length buf) n now m)
           else (t, m)) })"

text \<open>The payloads of a frame, up to the first the transport refuses.\<close>

fun send_payloads ::
  "binary_lib \<Rightarrow> sdp_lib \<Rightarrow> nat \<Rightarrow> u32 \<Rightarrow> (nat \<Rightarrow> bool) \<Rightarrow> (nat \<Rightarrow> int) \<Rightarrow> (nat \<Rightarrow> int) \<Rightarrow> nat \<Rightarrow> bytes list
   \<Rightarrow> rtp_transceiver \<times> media_path \<Rightarrow> (rtp_transceiver \<times> media_path) option" where
  "send_payloads B L si ts ok us now i [] tm = Some tm"
| "send_payloads B L si ts ok us now i (p # ps) tm =
     (case send_packet B L si p ts (ps = []) (ok i) (us i) (now i) tm of
        None \<Rightarrow> None
      | Some tm \<Rightarrow> if ok i then send_payloads B L si ts ok us now (i + 1) ps tm else Some tm)"

text \<open>The frame of one stream; an empty frame, or a sender without packetizer, sends nothing.\<close>

definition send_frame ::
  "binary_lib \<Rightarrow> sdp_lib \<Rightarrow> nat \<Rightarrow> bytes \<Rightarrow> u32 \<Rightarrow> (nat \<Rightarrow> bool) \<Rightarrow> (nat \<Rightarrow> int) \<Rightarrow> (nat \<Rightarrow> int)
   \<Rightarrow> rtp_transceiver \<times> media_path \<Rightarrow> (rtp_transceiver \<times> media_path) option" where
  "send_frame B L si d ts ok us now = (\<lambda>(t, m).
     case sn_packetizer (tr_sender t) of None \<Rightarrow> Some (t, m)
     | Some pk \<Rightarrow>
         if d = [] then Some (t, m)
         else (let (ps, pk) = packetizer_pack d pk
               in send_payloads B L si ts ok us now 0 ps
                    (t\<lparr>tr_sender := (tr_sender t)\<lparr>sn_packetizer := Some pk\<rparr>\<rparr>, m)))"

section \<open>Retransmission\<close>

definition rtx_bytes :: "binary_lib \<Rightarrow> history_entry \<Rightarrow> rtp_stream \<Rightarrow> bytes" where
  "rtx_bytes B e s =
     [0x80, sm_rtx_pt s] @ write_big16 B (sm_rtx_seq s) @ write_big32 B (he_timestamp e) @ write_big32 B (sm_rtx_ssrc s)
     @ write_big16 B (he_seq e) @ he_payload e"

definition history_find :: "u16 \<Rightarrow> rtp_stream \<Rightarrow> history_entry option" where
  "history_find seq s =
     (case sm_history s ! (unat seq mod HISTORY_SIZE) of
        Some e \<Rightarrow> if he_seq e = seq then Some e else None | None \<Rightarrow> None)"

text \<open>The streams of one sender: the first that still has the packet sends it again.\<close>

fun retransmit_streams ::
  "binary_lib \<Rightarrow> u32 \<Rightarrow> u16 \<Rightarrow> rtp_stream list \<Rightarrow> rtp_stream list \<times> bytes option" where
  "retransmit_streams B media_ssrc seq [] = ([], None)"
| "retransmit_streams B media_ssrc seq (s # ss) =
     (case (if media_ssrc \<noteq> 0 \<and> sm_ssrc s \<noteq> media_ssrc then None else history_find seq s) of
        Some e \<Rightarrow> (let s = s\<lparr>sm_rtx_seq := sm_rtx_seq s + 1\<rparr> in (s # ss, Some (rtx_bytes B e s)))
      | None \<Rightarrow> (case retransmit_streams B media_ssrc seq ss of (ss, r) \<Rightarrow> (s # ss, r)))"

definition set_conn :: "(connection \<Rightarrow> connection) \<Rightarrow> media_path \<Rightarrow> media_path" where
  "set_conn f m = m\<lparr>mp_conn := f (mp_conn m)\<rparr>"

definition retransmit_transceiver :: "binary_lib \<Rightarrow> u32 \<Rightarrow> u16 \<Rightarrow> nat \<Rightarrow> media_path \<Rightarrow> media_path" where
  "retransmit_transceiver B media_ssrc seq i m =
     (let t = cn_transceivers (mp_conn m) ! i;
          (ss, r) = retransmit_streams B media_ssrc seq (sn_streams (tr_sender t));
          m = set_conn (put_transceiver i (t\<lparr>tr_sender := (tr_sender t)\<lparr>sn_streams := ss\<rparr>\<rparr>)) m
      in case r of None \<Rightarrow> m | Some d \<Rightarrow> sync_send_rtp d m)"

definition retransmit :: "binary_lib \<Rightarrow> u32 \<Rightarrow> u16 \<Rightarrow> media_path \<Rightarrow> media_path" where
  "retransmit B media_ssrc seq m =
     fold (retransmit_transceiver B media_ssrc seq) [0..<length (cn_transceivers (mp_conn m))] m"

section \<open>Receiving\<close>

definition get_ctx :: "u32 \<Rightarrow> connection \<Rightarrow> ssrc_context option" where
  "get_ctx ssrc c =
     (case map_of (cn_ssrc_set c) ssrc of None \<Rightarrow> None
      | Some i \<Rightarrow> find (\<lambda>x. sc_ssrc x = ssrc) (rc_ssrcs (tr_receiver (cn_transceivers c ! i))))"

fun replace_ctx :: "ssrc_context \<Rightarrow> ssrc_context list \<Rightarrow> ssrc_context list" where
  "replace_ctx x [] = []"
| "replace_ctx x (c # cs) = (if sc_ssrc c = sc_ssrc x then x # cs else c # replace_ctx x cs)"

definition put_ctx :: "ssrc_context \<Rightarrow> connection \<Rightarrow> connection" where
  "put_ctx x c =
     (case map_of (cn_ssrc_set c) (sc_ssrc x) of None \<Rightarrow> c
      | Some i \<Rightarrow>
          (let t = cn_transceivers c ! i
           in put_transceiver i (t\<lparr>tr_receiver := (tr_receiver t)\<lparr>rc_ssrcs := replace_ctx x (rc_ssrcs (tr_receiver t))\<rparr>\<rparr>) c))"

text \<open>\<open>rewrite_rtx_packet\<close>: the original packet of a retransmission, when both maps know it.\<close>

definition rewrite_rtx_packet :: "binary_lib \<Rightarrow> connection \<Rightarrow> rtp_packet \<Rightarrow> rtp_packet option" where
  "rewrite_rtx_packet B c p =
     (if length (rp_payload p) \<le> 2 then Some p
      else case (cn_rtx_pt_to_pt c (rp_payload_type p), cn_rtx_ssrc_to_ssrc c (rp_ssrc p)) of
        (Some pt, Some ssrc) \<Rightarrow> do {
          seq \<leftarrow> read_big16_at B (rp_payload p) 0;
          Some (p\<lparr>rp_payload_type := pt, rp_ssrc := ssrc, rp_sequence_number := seq, rp_payload := drop 2 (rp_payload p)\<rparr>) }
      | _ \<Rightarrow> Some p)"

definition byte_char :: "u8 \<Rightarrow> char" where
  "byte_char b = char_of (unat b)"

text \<open>The receiver: by the identifier of the section in the header extension, else by the SSRC.\<close>

definition mid_of_packet :: "u16 \<Rightarrow> bytes \<Rightarrow> string" where
  "mid_of_packet i ext =
     (case find (\<lambda>e. ucast (ee_id e) = i) (rtp_ext_elements ext) of None \<Rightarrow> [] | Some e \<Rightarrow> map byte_char (ee_data e))"

definition receiver_by_mid :: "rtp_packet \<Rightarrow> connection \<Rightarrow> nat option" where
  "receiver_by_mid p c =
     (if rp_extension_data p = [] then None
      else case cn_mid_ext_id c of None \<Rightarrow> None
      | Some i \<Rightarrow>
          (let mid = mid_of_packet i (rp_extension_data p)
           in if mid = [] then None else find_index (\<lambda>t. tr_mid t = mid) (cn_transceivers c)))"

definition find_receiver :: "rtp_packet \<Rightarrow> connection \<Rightarrow> nat option" where
  "find_receiver p c =
     (case receiver_by_mid p c of Some i \<Rightarrow> Some i | None \<Rightarrow> map_of (cn_ssrc_set c) (rp_ssrc p))"

definition pli_bytes :: "binary_lib \<Rightarrow> u32 \<Rightarrow> bytes" where
  "pli_bytes B ssrc = psfb_bytes B \<lparr>ps_fmt = 1, ps_sender_ssrc = 0, ps_media_ssrc = ssrc, ps_fci = []\<rparr>"

text \<open>The context counts the packet; after three gaps in a row a key frame is asked for (the flag).\<close>

definition track_received :: "bool \<Rightarrow> rtp_packet \<Rightarrow> int \<Rightarrow> ssrc_context \<Rightarrow> (ssrc_context \<times> bool) option" where
  "track_received srtp p now x = do {
     let prev = sc_packets_expected x;
     x \<leftarrow> sc_track_packet (rp_sequence_number p) (rp_timestamp p) now x;
     let nack = (\<lambda>x. x\<lparr>sc_nack_gen := ng_receive_packet (rp_sequence_number p) (sc_nack_gen x)\<rparr>);
     Some (if sc_check_gap prev x
           then (let x = nack (sc_inc_consecutive_lost x)
                 in if sc_consecutive_lost x \<ge> 3 \<and> srtp then (sc_reset_consecutive_lost x, True) else (x, False))
           else (nack (sc_reset_consecutive_lost x), False)) }"

definition count_received :: "binary_lib \<Rightarrow> rtp_packet \<Rightarrow> int \<Rightarrow> media_path \<Rightarrow> media_path option" where
  "count_received B p now m =
     (case get_ctx (rp_ssrc p) (mp_conn m) of None \<Rightarrow> Some m
      | Some x \<Rightarrow> do {
          (x, pli) \<leftarrow> track_received (cn_srtp_transport (mp_conn m)) p now x;
          let m = set_conn (put_ctx x) m;
          Some (if pli then sync_send_rtcp (pli_bytes B (rp_ssrc p)) m else m) })"

text \<open>
  The last part: the callback of the receiver (it may change the packet, and refuse it), the framing
  of the codec, the jitter buffer of the track. The result says whether the packet was delivered.
\<close>

definition deliver :: "sdp_lib \<Rightarrow> (nat \<Rightarrow> rtp_packet \<Rightarrow> bool \<times> rtp_packet) \<Rightarrow> nat \<Rightarrow> rtp_packet \<Rightarrow> connection
   \<Rightarrow> bool \<times> connection" where
  "deliver L cb i p c =
     (let (go, p) = cb i p; t = cn_transceivers c ! i; r = tr_receiver t
      in if \<not> go then (False, c)
         else case rc_track r of None \<Rightarrow> (False, c)
         | Some tk \<Rightarrow>
             (let p = p\<lparr>rp_payload := depayload (nceq L) (rm_name (mt_codec tk)) (rp_payload p)\<rparr>
              in if rp_payload p = [] then (False, c)
                 else (True, put_transceiver i (t\<lparr>tr_receiver := r\<lparr>rc_track := Some (push_frame p tk)\<rparr>\<rparr>) c)))"

definition dispatch_rtp ::
  "binary_lib \<Rightarrow> sdp_lib \<Rightarrow> (nat \<Rightarrow> rtp_packet \<Rightarrow> bool \<times> rtp_packet) \<Rightarrow> int \<Rightarrow> rtp_packet \<Rightarrow> media_path
   \<Rightarrow> (bool \<times> media_path) option" where
  "dispatch_rtp B L cb now p m = do {
     p \<leftarrow> rewrite_rtx_packet B (mp_conn m) p;
     (case find_receiver p (mp_conn m) of None \<Rightarrow> Some (False, m)
      | Some i \<Rightarrow> do {
          m \<leftarrow> count_received B p now m;
          let (done, c) = deliver L cb i p (mp_conn m);
          Some (done, m\<lparr>mp_conn := c\<rparr>) }) }"

section \<open>Reports of the peer\<close>

definition on_sender_report :: "rtcp_packet \<Rightarrow> int \<Rightarrow> media_path \<Rightarrow> media_path" where
  "on_sender_report cp now m =
     (let m = (case get_ctx (rc_ssrc cp) (mp_conn m) of None \<Rightarrow> m
               | Some x \<Rightarrow> set_conn (put_ctx (sc_record_sr (rc_ntp_timestamp cp) now x)) m)
      in m\<lparr>mp_outbound := (mp_outbound m)(rc_ssrc cp \<mapsto>
             \<lparr>ro_ssrc = rc_ssrc cp, ro_packets_sent = rc_sender_packet_count cp,
              ro_bytes_sent = rc_sender_octet_count cp, ro_remote_timestamp = rc_ntp_timestamp cp\<rparr>)\<rparr>)"

text \<open>The round trip in microseconds of a report block about a source that has sent a report.\<close>

definition round_trip :: "report_block \<Rightarrow> int \<Rightarrow> ssrc_context \<Rightarrow> int" where
  "round_trip b now x = (now - sc_lsr_time x) sdiv 1000 - uint (rb_dlsr b) * 1000000 div 65536"

definition on_report_block :: "int \<Rightarrow> report_block \<Rightarrow> media_path \<Rightarrow> media_path" where
  "on_report_block now b m =
     (let old = (case mp_inbound m (rb_ssrc b) of None \<Rightarrow> None | Some r \<Rightarrow> ri_round_trip_us r);
          rtt = (if rb_lsr b \<noteq> 0 \<and> rb_dlsr b \<noteq> 0
                 then (case get_ctx (rb_ssrc b) (mp_conn m) of None \<Rightarrow> None
                       | Some x \<Rightarrow> if sc_lsr_time x > 0 \<and> round_trip b now x > 0
                                   then Some (x, round_trip b now x) else None)
                 else None);
          m = (case rtt of None \<Rightarrow> m
               | Some (x, us) \<Rightarrow> set_conn (put_ctx (x\<lparr>sc_nack_gen := ng_update_rtt (us div 1000) (sc_nack_gen x)\<rparr>)) m)
      in m\<lparr>mp_inbound := (mp_inbound m)(rb_ssrc b \<mapsto>
             \<lparr>ri_ssrc = rb_ssrc b, ri_packets_lost = rb_cumulative_lost b, ri_jitter = rb_jitter b,
              ri_fraction_lost_256 = rb_fraction_lost b,
              ri_round_trip_us = (case rtt of None \<Rightarrow> old | Some (_, us) \<Rightarrow> Some us)\<rparr>)\<rparr>)"

definition on_rtcp_packet :: "binary_lib \<Rightarrow> int \<Rightarrow> rtcp_packet \<Rightarrow> media_path \<Rightarrow> media_path option" where
  "on_rtcp_packet B now cp m =
     (if rc_type cp = pt_SR then Some (on_sender_report cp now m)
      else if rc_type cp = pt_RR then Some (fold (on_report_block now) (rc_blocks cp) m)
      else if rc_type cp = pt_PSFB then Some m
      else if rc_type cp = pt_RTPFB \<and> rc_report_count cp = 1
      then map_option (\<lambda>lost. fold (retransmit B (rc_media_ssrc cp)) lost m) (parse_nack B (rc_payload cp))
      else Some m)"

fun on_rtcp_packets :: "binary_lib \<Rightarrow> int \<Rightarrow> rtcp_packet list \<Rightarrow> media_path \<Rightarrow> media_path option" where
  "on_rtcp_packets B now [] m = Some m"
| "on_rtcp_packets B now (cp # cps) m =
     (case on_rtcp_packet B now cp m of None \<Rightarrow> None | Some m \<Rightarrow> on_rtcp_packets B now cps m)"

text \<open>A decrypted packet. \<open>clk\<close> gives the readings for the arrival times of the transport-wide numbers.\<close>

definition do_on_rtp_rtcp_packet ::
  "binary_lib \<Rightarrow> sdp_lib \<Rightarrow> (nat \<Rightarrow> rtp_packet \<Rightarrow> bool \<times> rtp_packet) \<Rightarrow> (nat \<Rightarrow> int) \<Rightarrow> int \<Rightarrow> bytes \<Rightarrow> media_path
   \<Rightarrow> media_path option" where
  "do_on_rtp_rtcp_packet B L cb clk now d m = do {
     let m = m\<lparr>mp_rx_packets := mp_rx_packets m + 1, mp_rx_bytes := mp_rx_bytes m + of_nat (length d)\<rparr>;
     r \<leftarrow> rtp_parse B d;
     (case r of
        Some p \<Rightarrow> do {
          let (outs, tw) = tcc_handle_incoming B clk (rp_extension_data p) True (set_media_ssrc (rp_ssrc p) (mp_twcc m));
          let m = fold sync_send_rtcp outs (m\<lparr>mp_twcc := tw\<rparr>);
          map_option snd (dispatch_rtp B L cb now p m) }
      | None \<Rightarrow> do {
          cps \<leftarrow> parse_compound B d;
          on_rtcp_packets B now cps m }) }"

section \<open>Own reports and feedback\<close>

definition sdes_asiortc :: "binary_lib \<Rightarrow> bytes" where
  "sdes_asiortc B = sdes_bytes B 0 (map char_byte ''asiortc'')"

definition write_new :: "binary_lib \<Rightarrow> rtcp_packet \<Rightarrow> bytes option" where
  "write_new B p = map_option fst (rtcp_write_to B p (replicate (rtcp_serialized_size p) 0))"

definition sender_report :: "rtp_stream \<Rightarrow> rtcp_packet" where
  "sender_report s = rtcp_packet_default\<lparr>rc_type := pt_SR, rc_ssrc := sm_ssrc s, rc_ntp_timestamp := sm_ntp_timestamp s,
     rc_rtp_timestamp := sm_rtp_timestamp s, rc_sender_packet_count := sm_packet_count s,
     rc_sender_octet_count := sm_octet_count s\<rparr>"

text \<open>A round of \<open>_sender_rtcp_loop\<close>: the compound packet of a sender.\<close>

definition sender_compound :: "binary_lib \<Rightarrow> rtp_stream list \<Rightarrow> bytes option" where
  "sender_compound B ss =
     map_option (\<lambda>bs. concat bs @ sdes_asiortc B) (those (map (\<lambda>s. write_new B (sender_report s)) ss))"

text \<open>
  The block for one source. The time since the last report is computed in \<open>double\<close>; its value is that
  of the exact quotient, whose distance from the next integer is larger than the rounding error.
\<close>

definition receiver_block :: "int \<Rightarrow> ssrc_context \<Rightarrow> report_block" where
  "receiver_block now x =
     (let lost = sint (sc_packets_expected x) - sint (sc_packets_received x);
          lost = (if lost < 0 then 0 else lost);
          lost = (if lost > 0x7FFFFF then 0x7FFFFF else lost);
          us = (now - sc_lsr_time x) sdiv 1000
      in \<lparr>rb_ssrc = sc_ssrc x, rb_fraction_lost = sc_fraction_lost x, rb_cumulative_lost = of_int lost,
          rb_ext_highest_seq = sc_extended_max x, rb_jitter = of_int (sc_jitter_q4 x div 16),
          rb_lsr = ucast (drop_bit 16 (sc_lsr x) AND 0xFFFFFFFF),
          rb_dlsr = (if sc_lsr x \<noteq> 0 \<and> 0 < us \<and> us < 65536 * 1000000 then of_int (us * 65536 div 1000000) else 0)\<rparr>)"

text \<open>A round of \<open>_receiver_rtcp_loop\<close> over the contexts of a receiver, in the order of their SSRCs.\<close>

fun receiver_reports :: "binary_lib \<Rightarrow> nat \<Rightarrow> int \<Rightarrow> (u32 \<times> nat) list \<Rightarrow> connection \<Rightarrow> (bytes \<times> connection) option" where
  "receiver_reports B i now [] c = Some ([], c)"
| "receiver_reports B i now ((ssrc, r) # S) c =
     (case (if r \<noteq> i then None else get_ctx ssrc c) of
        None \<Rightarrow> receiver_reports B i now S c
      | Some x \<Rightarrow>
          if sc_packets_received x = 0 then receiver_reports B i now S c
          else do {
            rr \<leftarrow> write_new B (rtcp_packet_default\<lparr>rc_type := pt_RR, rc_report_count := 1, rc_blocks := [receiver_block now x]\<rparr>);
            (rest, c) \<leftarrow> receiver_reports B i now S (put_ctx (sc_advance_prior x) c);
            Some (rr @ rest, c) })"

definition receiver_compound :: "binary_lib \<Rightarrow> nat \<Rightarrow> int \<Rightarrow> connection \<Rightarrow> (bytes \<times> connection) option" where
  "receiver_compound B i now c =
     map_option (\<lambda>(d, c). (if d = [] then [] else d @ sdes_asiortc B, c)) (receiver_reports B i now (cn_ssrc_set c) c)"

text \<open>A tick of \<open>_nack_loop\<close>: the requests of every source, then the transport-wide report.\<close>

fun nack_ticks :: "binary_lib \<Rightarrow> int \<Rightarrow> (u32 \<times> nat) list \<Rightarrow> media_path \<Rightarrow> media_path" where
  "nack_ticks B now_ms [] m = m"
| "nack_ticks B now_ms ((ssrc, r) # S) m =
     (case get_ctx ssrc (mp_conn m) of None \<Rightarrow> nack_ticks B now_ms S m
      | Some x \<Rightarrow>
          (let (nacks, g) = ng_get_nacks now_ms (sc_nack_gen x);
               m = set_conn (put_ctx (x\<lparr>sc_nack_gen := g\<rparr>)) m;
               fb = \<lparr>fb_fmt = 1, fb_sender_ssrc = rc_rtcp_ssrc (tr_receiver (cn_transceivers (mp_conn m) ! r)),
                     fb_media_ssrc = ssrc, fb_lost = nacks\<rparr>
           in nack_ticks B now_ms S (if nacks \<noteq> [] then sync_send_rtcp (rtpfb_bytes B fb) m else m)))"

definition nack_tick :: "binary_lib \<Rightarrow> int \<Rightarrow> media_path \<Rightarrow> media_path" where
  "nack_tick B now_ms m =
     (let m = nack_ticks B now_ms (cn_ssrc_set (mp_conn m)) m;
          m = (case cn_transceivers (mp_conn m) of [] \<Rightarrow> m
               | t # _ \<Rightarrow> (case sn_streams (tr_sender t) of [] \<Rightarrow> m
                   | s # _ \<Rightarrow> m\<lparr>mp_twcc := set_sender_ssrc (sm_ssrc s) (mp_twcc m)\<rparr>));
          (d, tw) = tcc_report B (mp_twcc m);
          m = m\<lparr>mp_twcc := tw\<rparr>
      in if d \<noteq> [] then sync_send_rtcp d m else m)"

section \<open>Packets of the application\<close>

definition rewrite_rtp_packet :: "binary_lib \<Rightarrow> bytes \<Rightarrow> rtp_stream list \<Rightarrow> bytes \<times> rtp_stream list" where
  "rewrite_rtp_packet B d ss =
     (case ss of [] \<Rightarrow> (d, ss)
      | s # ss' \<Rightarrow>
          if length d < 12 then (d, ss)
          else (let s = s\<lparr>sm_seq := sm_seq s + 1\<rparr>
                in (take 2 d @ write_big16 B (sm_seq s) @ take 4 (drop 4 d) @ write_big32 B (sm_ssrc s) @ drop 12 d, s # ss')))"

definition update_sender_status :: "nat \<Rightarrow> nat \<Rightarrow> nat \<Rightarrow> media_path \<Rightarrow> media_path" where
  "update_sender_status octet encrypted i m =
     (let m = m\<lparr>mp_tx_packets := mp_tx_packets m + 1, mp_tx_bytes := mp_tx_bytes m + of_nat encrypted\<rparr>;
          t = cn_transceivers (mp_conn m) ! i
      in case sn_streams (tr_sender t) of [] \<Rightarrow> m
         | s # ss \<Rightarrow> set_conn (put_transceiver i (t\<lparr>tr_sender := (tr_sender t)\<lparr>sn_streams :=
              s\<lparr>sm_packet_count := sm_packet_count s + 1, sm_octet_count := sm_octet_count s + of_nat octet\<rparr> # ss\<rparr>\<rparr>)) m)"

section \<open>Frames of a track\<close>

record rtp_frame_info =
  fi_rtp_timestamp :: u32
  fi_ssrc :: u32
  fi_clock_rate :: u32
  fi_first_sequence_number :: u16
  fi_marker :: bool

record media_frame =
  mf_kind :: media_kind
  mf_format :: media_format
  mf_timestamp :: u32
  mf_data :: bytes
  mf_info :: "rtp_frame_info option"

text \<open>The frame of the packets that the jitter buffer gives out; the receive time is left out.\<close>

definition frame_of_packets :: "sdp_lib \<Rightarrow> media_track_impl \<Rightarrow> rtp_packet list \<Rightarrow> media_frame option" where
  "frame_of_packets L t ps =
     (case ps of [] \<Rightarrow> None
      | p # _ \<Rightarrow>
          Some \<lparr>mf_kind = track_kind L t, mf_format = track_format L t, mf_timestamp = rp_timestamp p,
            mf_data = (if track_format L t = mf_h264 then h264_packets_to_annex_b (map rp_payload ps)
                       else concat (map rp_payload ps)),
            mf_info = Some \<lparr>fi_rtp_timestamp = rp_timestamp p, fi_ssrc = rp_ssrc p,
              fi_clock_rate = rm_clock_rate (mt_codec t), fi_first_sequence_number = rp_sequence_number p,
              fi_marker = rp_marker (last ps) \<noteq> 0\<rparr>\<rparr>)"

text \<open>One turn of the loop of \<open>recv\<close>: a frame, or nothing yet.\<close>

definition track_poll :: "sdp_lib \<Rightarrow> int \<Rightarrow> int \<Rightarrow> media_track_impl \<Rightarrow> media_frame option \<times> media_track_impl" where
  "track_poll L now1 now2 t =
     (let (ps, j) = jb_pop_frame now1 now2 (mt_jitter t) in (frame_of_packets L t ps, t\<lparr>mt_jitter := j\<rparr>))"

end
