(* ===== verification/MediaFacts.thy ===== *)
theory MediaFacts
  imports MediaPath Sdp
begin

text \<open>
  What the media path does: the packets of a frame are the ones the sender built, a peer takes the
  frame back from them in whatever order they arrive, the history serves the last 128 packets again,
  and a retransmission is turned back into the packet that was lost.
\<close>

section \<open>One packet\<close>

definition stream_ok :: "rtp_transceiver \<Rightarrow> rtp_stream \<Rightarrow> bool" where
  "stream_ok t s \<longleftrightarrow> rm_payload_type (tr_codec t) < 128 \<and> length (sm_rid s) \<le> 255"

lemma length_pad_to_word: "length (pad_to_word d) mod 4 = 0" "length (pad_to_word d) \<le> length d + 3"
proof -
  have "(n + (4 - n mod 4) mod 4) mod 4 = 0" for n :: nat
  proof -
    have "n mod 4 \<in> {0, 1, 2, 3}" by auto
    then show ?thesis by (auto simp: mod_add_left_eq [symmetric, of n])
  qed
  then show "length (pad_to_word d) mod 4 = 0" by (simp add: pad_to_word_def)
  have "(4 - length d mod 4) mod 4 < 4" by simp
  then show "length (pad_to_word d) \<le> length d + 3" unfolding pad_to_word_def length_append length_replicate by linarith
qed

lemma length_ext_data:
  "length (fst (make_ext_data L t s wide)) mod 4 = 0"
  "length (fst (make_ext_data L t s wide)) \<le> length (sm_rid s) + 13"
proof -
  let ?d = "mid_element (rc_extensions (tr_receiver t)) (tr_mid t) @ rid_element (rc_extensions (tr_receiver t)) (sm_rid s)
            @ (if tr_kind L t = mk_video then abs_element (rc_extensions (tr_receiver t)) (sm_ntp_timestamp (hd (sn_streams (tr_sender t)))) else [])
            @ fst (tcc_element (rc_extensions (tr_receiver t)) wide)"
  have e: "fst (make_ext_data L t s wide) = pad_to_word ?d"
    by (simp add: make_ext_data_def split_beta Let_def)
  have "length ?d \<le> length (sm_rid s) + 10"
    by (simp add: mid_element_def rid_element_def abs_element_def tcc_element_def Let_def)
  with length_pad_to_word [of ?d] show "length (fst (make_ext_data L t s wide)) mod 4 = 0"
    "length (fst (make_ext_data L t s wide)) \<le> length (sm_rid s) + 13" unfolding e by auto
qed

lemma make_packet_wf:
  assumes "pt < 128" "length ext mod 4 = 0" "length ext < 2 ^ 18"
  shows "rtp_wf (make_packet pt s ext payload ts seq marker)"
  using assms by (auto simp: rtp_wf_def make_packet_def Let_def rtp_packet_default_def)

text \<open>The datagram is the packet; the parser reads it back.\<close>

lemma make_rtp_parses:
  fixes payload ts seq marker
  assumes be: "big_endian B" and ok: "stream_ok t s" and e: "make_ext_data L t s wide = (ext, n, wide')"
  defines "p \<equiv> make_packet (rm_payload_type (tr_codec t)) s ext payload ts seq marker"
  shows "make_rtp B L t s payload ts seq marker wide = Some (rtp_body_bytes B p, n, wide')"
    and "rtp_parse B (rtp_body_bytes B p) = Some (Some p)"
proof -
  have "length ext mod 4 = 0" "length ext < 2 ^ 18"
    using length_ext_data [of L t s wide] ok e by (auto simp: stream_ok_def)
  then have wf: "rtp_wf p" using ok make_packet_wf by (simp add: p_def stream_ok_def)
  then have cs: "length (rp_csrcs p) = unat (rp_csrc_count p)" by (simp add: rtp_wf_def)
  have pad: "rp_padding p = 0" by (simp add: p_def make_packet_def Let_def rtp_packet_default_def)
  then have "rtp_write_to B p (replicate (rtp_serialized_size p) 0)
      = Some (rtp_body_bytes B p, int (rtp_serialized_size p))"
    using rtp_write_to_eq(1) [OF be cs, of "replicate (rtp_serialized_size p) 0"]
    by (simp add: rtp_pad_bytes_def)
  then show "make_rtp B L t s payload ts seq marker wide = Some (rtp_body_bytes B p, n, wide')"
    by (simp add: make_rtp_def e p_def Let_def)
  show "rtp_parse B (rtp_body_bytes B p) = Some (Some p)"
    using rtp_parse_body [OF be wf, of "[]"] pad by (simp add: rtp_strip_padding_def)
qed

lemma make_packet_fields [simp]:
  "rp_payload (make_packet pt s ext pl ts seq mk) = pl"
  "rp_timestamp (make_packet pt s ext pl ts seq mk) = ts"
  "rp_sequence_number (make_packet pt s ext pl ts seq mk) = seq"
  "rp_ssrc (make_packet pt s ext pl ts seq mk) = sm_ssrc s"
  "rp_payload_type (make_packet pt s ext pl ts seq mk) = pt"
  "rp_marker (make_packet pt s ext pl ts seq mk) = (if mk then 1 else 0)"
  "rp_extension_data (make_packet pt s ext pl ts seq mk) = ext"
  "rp_padding (make_packet pt s ext pl ts seq mk) = 0"
  by (simp_all add: make_packet_def Let_def rtp_packet_default_def)

subsection \<open>The identifier of the section\<close>

lemma u8_small:
  assumes "n < (16::nat)"
  shows "(of_nat n :: u8) < 16" "unat (of_nat n :: u8) = n" "ucast (of_nat n :: u8) = (of_nat n :: u16)"
proof -
  show u: "unat (of_nat n :: u8) = n" using assms by (simp add: unat_of_nat take_bit_nat_eq_self)
  then show "(of_nat n :: u8) < 16" using assms by (simp add: word_less_nat_alt)
  have "(ucast (of_nat n :: u8) :: u16) = of_nat (unat (of_nat n :: u8))" by simp
  then show "ucast (of_nat n :: u8) = (of_nat n :: u16)" by (simp only: u)
qed

lemma ext_header_fields:
  assumes "ext_usable i" "1 \<le> n" "n \<le> 16"
  shows "drop_bit 4 (ext_header i n) AND 15 = of_nat i" "unat (ext_header i n AND 15) = n - 1"
proof -
  have n: "(of_nat n - 1 :: u8) = of_nat (n - 1)" using assms by (simp add: of_nat_diff)
  have i: "(of_nat i :: u8) < 16" "(of_nat (n - 1) :: u8) < 16"
    using assms u8_small(1) [of i] u8_small(1) [of "n - 1"] by (simp_all only: ext_usable_def) linarith+
  define a c where "a = (of_nat i :: u8)" and "c = (of_nat (n - 1) :: u8)"
  have ac: "a < 16" "c < 16" using i by (simp_all only: a_def c_def)
  have b: "\<not> bit a 4" "\<not> bit a 5" "\<not> bit a 6" "\<not> bit a 7" "\<not> bit c 4" "\<not> bit c 5" "\<not> bit c 6" "\<not> bit c 7"
    using u8_bits_less(1) [OF ac(1)] u8_bits_less(1) [OF ac(2)] by fastforce+
  have h: "ext_header i n = push_bit 4 a OR c" by (simp add: ext_header_def n a_def c_def)
  have "drop_bit 4 (ext_header i n) AND 15 = a"
    unfolding h by (rule u8_eqI) (simp_all add: bit_simps b)
  then show "drop_bit 4 (ext_header i n) AND 15 = of_nat i" by (simp only: a_def)
  have "ext_header i n AND 15 = c"
    unfolding h by (rule u8_eqI) (simp_all add: bit_simps b)
  then show "unat (ext_header i n AND 15) = n - 1"
    using assms u8_small(2) [of "n - 1"] by (simp add: c_def)
qed

lemma byte_char_byte [simp]: "byte_char (char_byte c) = c"
proof -
  have "of_char c < (256::nat)" by (rule nat_of_char_less_256)
  then show ?thesis by (simp add: byte_char_def char_byte_def unat_of_nat take_bit_nat_eq_self)
qed

lemma mid_of_packet_first:
  assumes "ext_usable i"
  shows "mid_of_packet (of_nat i) (ext_header i 1 # char_byte c # rest) = [c]"
  using ext_header_fields [OF assms, of 1] assms u8_small(3) [of i]
  by (simp add: mid_of_packet_def rtp_ext_elements.simps [of "_ # _"] Let_def ext_usable_def)

lemma ext_data_mid:
  assumes "ext_usable (ext_id (rc_extensions (tr_receiver t)) uri_mid)" "tr_mid t = c # cs"
    and "make_ext_data L t s wide = (ext, n, wide')"
  shows "\<exists>rest. ext = ext_header (ext_id (rc_extensions (tr_receiver t)) uri_mid) 1 # char_byte c # rest"
  using assms by (auto simp: make_ext_data_def split_beta Let_def pad_to_word_def mid_element_def)


text \<open>The packets of a transceiver whose peer negotiated the extension carry the first character of its mid.\<close>

definition labelled :: "rtp_transceiver \<Rightarrow> rtp_packet \<Rightarrow> bool" where
  "labelled t p \<longleftrightarrow>
     (let i = ext_id (rc_extensions (tr_receiver t)) uri_mid
      in case tr_mid t of [] \<Rightarrow> True
         | c # _ \<Rightarrow> ext_usable i \<longrightarrow> rp_extension_data p \<noteq> [] \<and> mid_of_packet (of_nat i) (rp_extension_data p) = [c])"

lemma make_packet_labelled:
  assumes "make_ext_data L t s wide = (ext, n, wide')"
  shows "labelled t (make_packet pt s' ext pl ts seq mk)"
proof (cases "tr_mid t")
  case (Cons c cs)
  show ?thesis
    using ext_data_mid [OF _ Cons assms] mid_of_packet_first [of "ext_id (rc_extensions (tr_receiver t)) uri_mid" c]
    by (auto simp: labelled_def Cons Let_def)
qed (simp add: labelled_def)

section \<open>The packets of a frame\<close>

abbreviation stream_of :: "nat \<Rightarrow> rtp_transceiver \<Rightarrow> rtp_stream" where
  "stream_of si t \<equiv> sn_streams (tr_sender t) ! si"

lemma upd_stream_simps [simp]:
  "tr_codec (upd_stream si f t) = tr_codec t" "tr_receiver (upd_stream si f t) = tr_receiver t"
  "tr_mid (upd_stream si f t) = tr_mid t"
  "length (sn_streams (tr_sender (upd_stream si f t))) = length (sn_streams (tr_sender t))"
  "si < length (sn_streams (tr_sender t)) \<Longrightarrow> stream_of si (upd_stream si f t) = f (stream_of si t)"
  by (simp_all add: upd_stream_def)

lemma upd_stream_upd [simp]:
  "si < length (sn_streams (tr_sender t)) \<Longrightarrow> upd_stream si f (upd_stream si g t) = upd_stream si (f \<circ> g) t"
  by (simp add: upd_stream_def)

text \<open>
  The packets that carry the payloads of a frame: consecutive numbers behind the last one of the
  stream, one time stamp, the marker on the last, and bytes that parse to them.
\<close>

definition carries :: "binary_lib \<Rightarrow> u8 \<Rightarrow> rtp_stream \<Rightarrow> u32 \<Rightarrow> bytes list \<Rightarrow> rtp_packet list \<Rightarrow> bool" where
  "carries B pt s ts pls ps \<longleftrightarrow>
     map rp_payload ps = pls
     \<and> map rp_sequence_number ps = map (\<lambda>k. sm_seq s + 1 + of_nat k) [0..<length pls]
     \<and> list_all (\<lambda>p. rp_timestamp p = ts \<and> rp_ssrc p = sm_ssrc s \<and> rp_payload_type p = pt
                     \<and> rtp_parse B (rtp_body_bytes B p) = Some (Some p) \<and> rp_padding p = 0) ps
     \<and> map rp_marker ps = (if pls = [] then [] else replicate (length pls - 1) 0 @ [1])"

lemma carries_Nil: "carries B pt s ts [] []"
  by (simp add: carries_def)

lemma carries_Cons:
  assumes "rp_payload p = pl" "rp_sequence_number p = sm_seq s + 1" "rp_timestamp p = ts" "rp_ssrc p = sm_ssrc s"
    "rp_payload_type p = pt" "rtp_parse B (rtp_body_bytes B p) = Some (Some p)"
    "rp_marker p = (if pls = [] then 1 else 0)"
    and "carries B pt s' ts pls ps" "sm_seq s' = sm_seq s + 1" "sm_ssrc s' = sm_ssrc s" "rp_padding p = 0"
  shows "carries B pt s ts (pl # pls) (p # ps)"
proof -
  have "map (\<lambda>k. sm_seq s + 1 + of_nat k) [0..<length (pl # pls)]
      = (sm_seq s + 1) # map (\<lambda>k. sm_seq s' + 1 + of_nat k) [0..<length pls]"
    by (simp add: map_upt_Suc assms(9) ac_simps del: upt_Suc)
  moreover have "replicate (length (pl # pls) - 1) 0 @ [1 :: u8] = 0 # (replicate (length pls - 1) 0 @ [1])"
    if "pls \<noteq> []" using that by (cases pls) simp_all
  ultimately show ?thesis using assms by (cases "pls = []") (simp_all add: carries_def)
qed

fun frame_entries :: "u16 \<Rightarrow> u32 \<Rightarrow> bytes list \<Rightarrow> history_entry list" where
  "frame_entries seq ts [] = []"
| "frame_entries seq ts (pl # pls) =
     \<lparr>he_payload = pl, he_seq = seq + 1, he_timestamp = ts\<rparr> # frame_entries (seq + 1) ts pls"

text \<open>Sending leaves the identity of the stream alone and remembers what it sent.\<close>

definition stream_sent :: "history_entry list \<Rightarrow> rtp_stream \<Rightarrow> rtp_stream \<Rightarrow> bool" where
  "stream_sent es s s' \<longleftrightarrow>
     sm_ssrc s' = sm_ssrc s \<and> sm_rtx_ssrc s' = sm_rtx_ssrc s \<and> sm_rtx_pt s' = sm_rtx_pt s \<and> sm_rid s' = sm_rid s
     \<and> sm_rtx_seq s' = sm_rtx_seq s
     \<and> sm_seq s' = sm_seq s + of_nat (length es) \<and> sm_history s' = sm_history (fold remember es s)"

definition transceiver_sent :: "nat \<Rightarrow> rtp_transceiver \<Rightarrow> rtp_transceiver \<Rightarrow> bool" where
  "transceiver_sent si t t' \<longleftrightarrow>
     tr_codec t' = tr_codec t \<and> tr_receiver t' = tr_receiver t \<and> tr_mid t' = tr_mid t
     \<and> length (sn_streams (tr_sender t')) = length (sn_streams (tr_sender t))
     \<and> map (\<lambda>s. (sm_ssrc s, sm_rid s)) (sn_streams (tr_sender t')) = map (\<lambda>s. (sm_ssrc s, sm_rid s)) (sn_streams (tr_sender t))
     \<and> (\<forall>k. k \<noteq> si \<longrightarrow> stream_of k t' = stream_of k t)"

lemma transceiver_sent_trans:
  "transceiver_sent si t t' \<Longrightarrow> transceiver_sent si t' t'' \<Longrightarrow> transceiver_sent si t t''"
  by (simp add: transceiver_sent_def)

lemma labelled_sent: "transceiver_sent si t t' \<Longrightarrow> labelled t' = labelled t"
  by (simp add: labelled_def transceiver_sent_def fun_eq_iff)

lemma transceiver_sent_upd:
  assumes "si < length (sn_streams (tr_sender t))" "\<And>s. sm_ssrc (f s) = sm_ssrc s" "\<And>s. sm_rid (f s) = sm_rid s"
  shows "transceiver_sent si t (upd_stream si f t)"
  using assms by (auto simp: transceiver_sent_def upd_stream_def map_update intro!: list_update_same_conv [THEN iffD2])

lemma sm_history_fold_remember:
  "sm_history s = sm_history s' \<Longrightarrow> sm_history (fold remember es s) = sm_history (fold remember es s')"
  by (induction es arbitrary: s s') (simp_all add: remember_def)

lemma send_packet_ok:
  assumes be: "big_endian B" and si: "si < length (sn_streams (tr_sender t))" and ok: "stream_ok t (stream_of si t)"
  shows "\<exists>t' m' p. send_packet B L si pl ts mk True us now (t, m) = Some (t', m')
    \<and> mp_sent_rtp m' = mp_sent_rtp m @ [rtp_body_bytes B p]
    \<and> rp_payload p = pl \<and> rp_sequence_number p = sm_seq (stream_of si t) + 1 \<and> rp_timestamp p = ts
    \<and> rp_ssrc p = sm_ssrc (stream_of si t) \<and> rp_payload_type p = rm_payload_type (tr_codec t)
    \<and> rp_marker p = (if mk then 1 else 0) \<and> rtp_parse B (rtp_body_bytes B p) = Some (Some p) \<and> labelled t p
    \<and> transceiver_sent si t t' \<and> mp_conn m' = mp_conn m
    \<and> stream_sent [\<lparr>he_payload = pl, he_seq = sm_seq (stream_of si t) + 1, he_timestamp = ts\<rparr>]
        (stream_of si t) (stream_of si t') \<and> rp_padding p = 0"
proof -
  define t1 where "t1 = upd_stream si (\<lambda>s. s\<lparr>sm_seq := sm_seq s + 1\<rparr>) t"
  define s where "s = stream_of si t1"
  obtain ext n w where e: "make_ext_data L t1 s (mp_wide_seq m) = (ext, n, w)" by (cases "make_ext_data L t1 s (mp_wide_seq m)")
  have s: "s = (stream_of si t)\<lparr>sm_seq := sm_seq (stream_of si t) + 1\<rparr>" using si by (simp add: s_def t1_def)
  have "stream_ok t1 s" using ok si by (simp add: stream_ok_def s t1_def)
  note r = make_rtp_parses [OF be this e, of pl ts "sm_seq s" mk]
  define p where "p = make_packet (rm_payload_type (tr_codec t)) s ext pl ts (sm_seq s) mk"
  define en where "en = \<lparr>he_payload = pl, he_seq = sm_seq (stream_of si t) + 1, he_timestamp = ts\<rparr>"
  define t3 where "t3 = upd_stream si (stream_send_stats pl ts us \<circ> (remember en \<circ> (\<lambda>s. s\<lparr>sm_seq := sm_seq s + 1\<rparr>))) t"
  define m3 where "m3 = conn_send_stats s (length (rtp_body_bytes B p)) n now (m\<lparr>mp_wide_seq := w, mp_sent_rtp := mp_sent_rtp m @ [rtp_body_bytes B p]\<rparr>)"
  have c: "tr_codec t1 = tr_codec t" using si by (simp add: t1_def)
  have "send_packet B L si pl ts mk True us now (t, m) = Some (t3, m3)"
    using r(1) si by (simp add: send_packet_def t1_def [symmetric] s_def [symmetric] c p_def [symmetric] Let_def m3_def)
      (simp add: t3_def t1_def en_def s comp_def)
  moreover have "mp_sent_rtp m3 = mp_sent_rtp m @ [rtp_body_bytes B p]" "mp_conn m3 = mp_conn m"
    by (simp_all add: m3_def conn_send_stats_def Let_def)
  moreover have "transceiver_sent si t t3"
    unfolding t3_def by (rule transceiver_sent_upd [OF si]) (simp_all add: stream_send_stats_def remember_def)
  moreover have "stream_sent [en] (stream_of si t) (stream_of si t3)"
    using si by (simp add: stream_sent_def t3_def stream_send_stats_def remember_def)
  moreover have "labelled t p"
    using make_packet_labelled [OF e, of "rm_payload_type (tr_codec t)" s pl ts "sm_seq s" mk]
    unfolding p_def labelled_def t1_def upd_stream_simps .
  ultimately show ?thesis using r(2) unfolding c p_def [symmetric] en_def
    by (intro exI [of _ t3] exI [of _ m3] exI [of _ p]) (simp add: p_def s)
qed

lemma stream_sent_Cons:
  assumes "stream_sent [e] s s1" "stream_sent es s1 s2"
  shows "stream_sent (e # es) s s2"
  using assms sm_history_fold_remember [of s1 "remember e s" es]
  by (simp add: stream_sent_def ac_simps)

lemma send_payloads_ok:
  assumes be: "big_endian B"
  shows "si < length (sn_streams (tr_sender t)) \<Longrightarrow> stream_ok t (stream_of si t) \<Longrightarrow>
    \<exists>t' m' ps. send_payloads B L si ts (\<lambda>_. True) us now i pls (t, m) = Some (t', m')
      \<and> mp_sent_rtp m' = mp_sent_rtp m @ map (rtp_body_bytes B) ps
      \<and> carries B (rm_payload_type (tr_codec t)) (stream_of si t) ts pls ps \<and> list_all (labelled t) ps
      \<and> transceiver_sent si t t' \<and> mp_conn m' = mp_conn m
      \<and> stream_sent (frame_entries (sm_seq (stream_of si t)) ts pls) (stream_of si t) (stream_of si t')"
proof (induction pls arbitrary: t m i)
  case Nil
  then show ?case by (auto simp: carries_Nil transceiver_sent_def stream_sent_def)
next
  case (Cons pl pls)
  from send_packet_ok [OF be Cons.prems, of L pl ts "pls = []" "us i" "now i" m]
  obtain t1 m1 p where 1: "send_packet B L si pl ts (pls = []) True (us i) (now i) (t, m) = Some (t1, m1)"
    "mp_sent_rtp m1 = mp_sent_rtp m @ [rtp_body_bytes B p]" "rp_payload p = pl"
    "rp_sequence_number p = sm_seq (stream_of si t) + 1" "rp_timestamp p = ts"
    "rp_ssrc p = sm_ssrc (stream_of si t)" "rp_payload_type p = rm_payload_type (tr_codec t)"
    "rp_marker p = (if pls = [] then 1 else 0)" "rtp_parse B (rtp_body_bytes B p) = Some (Some p)"
    "transceiver_sent si t t1" "mp_conn m1 = mp_conn m"
    "stream_sent [\<lparr>he_payload = pl, he_seq = sm_seq (stream_of si t) + 1, he_timestamp = ts\<rparr>]
       (stream_of si t) (stream_of si t1)" "labelled t p" "rp_padding p = 0" by blast
  have "si < length (sn_streams (tr_sender t1))" "stream_ok t1 (stream_of si t1)"
    using Cons.prems 1(10,12) by (simp_all add: transceiver_sent_def stream_sent_def stream_ok_def)
  from Cons.IH [OF this, of "i + 1" m1] obtain t2 m2 ps where
    2: "send_payloads B L si ts (\<lambda>_. True) us now (i + 1) pls (t1, m1) = Some (t2, m2)"
    "mp_sent_rtp m2 = mp_sent_rtp m1 @ map (rtp_body_bytes B) ps"
    "carries B (rm_payload_type (tr_codec t1)) (stream_of si t1) ts pls ps"
    "transceiver_sent si t1 t2" "mp_conn m2 = mp_conn m1"
    "stream_sent (frame_entries (sm_seq (stream_of si t1)) ts pls) (stream_of si t1) (stream_of si t2)" "list_all (labelled t1) ps" by blast
  have s1: "sm_seq (stream_of si t1) = sm_seq (stream_of si t) + 1" "sm_ssrc (stream_of si t1) = sm_ssrc (stream_of si t)"
    using 1(12) by (simp_all add: stream_sent_def)
  have "carries B (rm_payload_type (tr_codec t)) (stream_of si t) ts (pl # pls) (p # ps)"
    using 2(3) 1(10) by (intro carries_Cons [OF 1(3,4,5,6,7,9,8) _ s1 1(14)]) (simp add: transceiver_sent_def)
  moreover have "stream_sent (frame_entries (sm_seq (stream_of si t)) ts (pl # pls)) (stream_of si t) (stream_of si t2)"
    using stream_sent_Cons [OF 1(12)] 2(6) s1(1) by simp
  ultimately show ?case
    using 1(1,2,11,13) 2(1,2,5,7) transceiver_sent_trans [OF 1(10) 2(4)] labelled_sent [OF 1(10)]
    by (intro exI [of _ t2] exI [of _ m2] exI [of _ "p # ps"]) simp
qed


section \<open>The history and retransmission\<close>

lemma slot_add: "unat (x + of_nat k :: u16) mod 128 = (unat x + k) mod 128"
proof -
  have "unat (x + of_nat k :: u16) = (unat x + unat (of_nat k :: u16)) mod 2 ^ 16"
    using unat_word_ariths(1) [of x "of_nat k"] by simp
  also have "\<dots> = (unat x + k) mod 2 ^ 16"
    by (simp add: unat_of_nat take_bit_eq_mod mod_add_right_eq)
  finally show ?thesis by (simp add: mod_mod_cancel)
qed

lemma slot_distinct: "0 < k \<Longrightarrow> k < 128 \<Longrightarrow> (n :: nat) mod 128 \<noteq> (n + k) mod 128"
proof
  assume k: "0 < k" "k < 128" and "n mod 128 = (n + k) mod 128"
  then have "128 dvd (n + k) - n" by (metis le_add1 mod_eq_dvd_iff_nat)
  with k show False by (simp add: dvd_imp_le not_le nat_dvd_not_less)
qed

lemma history_find_remember:
  assumes "length (sm_history s) = HISTORY_SIZE"
  shows "history_find (he_seq e) (remember e s) = Some e"
    and "unat q mod HISTORY_SIZE \<noteq> unat (he_seq e) mod HISTORY_SIZE \<Longrightarrow> history_find q (remember e s) = history_find q s"
  using assms by (simp_all add: history_find_def remember_def HISTORY_SIZE_def)

lemma length_history_remember [simp]: "length (sm_history (fold remember es s)) = length (sm_history s)"
  by (induction es arbitrary: s) (simp_all add: remember_def)

lemma history_find_keep:
  assumes "length (sm_history s) = HISTORY_SIZE"
    and "\<forall>e \<in> set es. unat q mod HISTORY_SIZE \<noteq> unat (he_seq e) mod HISTORY_SIZE"
  shows "history_find q (fold remember es s) = history_find q s"
  using assms
proof (induction es arbitrary: s)
  case (Cons e es)
  then show ?case using history_find_remember(2) [of s q e] by (simp add: remember_def)
qed simp

lemma history_find_cong: "sm_history s = sm_history s' \<Longrightarrow> history_find q s = history_find q s'"
  by (simp add: history_find_def)

lemma frame_entries_append:
  "frame_entries seq ts (xs @ ys) = frame_entries seq ts xs @ frame_entries (seq + of_nat (length xs)) ts ys"
  by (induction xs arbitrary: seq) (simp_all add: ac_simps)

lemma length_frame_entries [simp]: "length (frame_entries seq ts pls) = length pls"
  by (induction pls arbitrary: seq) simp_all

lemma frame_entries_seq:
  "e \<in> set (frame_entries seq ts pls) \<Longrightarrow> \<exists>k < length pls. he_seq e = seq + 1 + of_nat k"
proof (induction pls arbitrary: seq)
  case (Cons pl pls)
  then show ?case
  proof (cases "he_seq e = seq + 1")
    case False
    with Cons.prems have "e \<in> set (frame_entries (seq + 1) ts pls)" by auto
    from Cons.IH [OF this] obtain k where "k < length pls" "he_seq e = seq + 1 + 1 + of_nat k" by blast
    then show ?thesis by (intro exI [of _ "Suc k"]) (simp add: ac_simps)
  qed (auto intro: exI [of _ 0])
qed simp

text \<open>The last 128 packets of a stream are remembered.\<close>

lemma history_recent:
  assumes "length (sm_history s) = HISTORY_SIZE" "i < length pls" "length pls \<le> i + HISTORY_SIZE"
  shows "history_find (seq + 1 + of_nat i) (fold remember (frame_entries seq ts pls) s)
    = Some \<lparr>he_payload = pls ! i, he_seq = seq + 1 + of_nat i, he_timestamp = ts\<rparr>"
proof -
  let ?q = "seq + 1 + of_nat i :: u16"
  let ?e = "\<lparr>he_payload = pls ! i, he_seq = ?q, he_timestamp = ts\<rparr>"
  let ?rest = "frame_entries ?q ts (drop (Suc i) pls)"
  have "pls = take i pls @ pls ! i # drop (Suc i) pls" using assms(2) by (rule id_take_nth_drop)
  then have "frame_entries seq ts pls = frame_entries seq ts (take i pls) @ frame_entries (seq + of_nat i) ts (pls ! i # drop (Suc i) pls)"
    using frame_entries_append [of seq ts "take i pls" "pls ! i # drop (Suc i) pls"] assms(2) by simp
  then have es: "frame_entries seq ts pls = frame_entries seq ts (take i pls) @ ?e # ?rest"
    by (simp add: ac_simps)
  have "unat ?q mod HISTORY_SIZE \<noteq> unat (he_seq e) mod HISTORY_SIZE" if "e \<in> set ?rest" for e
  proof -
    from frame_entries_seq [OF that] obtain k where k: "k < length pls - Suc i" "he_seq e = ?q + of_nat (Suc k)"
      by (auto simp: ac_simps)
    with assms(2,3) have "0 < Suc k" "Suc k < 128" by (auto simp: HISTORY_SIZE_def)
    then have "unat ?q mod 128 \<noteq> (unat ?q + Suc k) mod 128" by (rule slot_distinct)
    then show ?thesis using slot_add [of ?q "Suc k"] k(2) by (simp only: HISTORY_SIZE_def) simp
  qed
  then have "history_find ?q (fold remember ?rest (remember ?e (fold remember (frame_entries seq ts (take i pls)) s)))
      = history_find ?q (remember ?e (fold remember (frame_entries seq ts (take i pls)) s))"
    by (intro history_find_keep) (simp_all add: remember_def assms(1))
  also have "\<dots> = Some ?e" using history_find_remember(1) [of "fold remember (frame_entries seq ts (take i pls)) s" ?e] assms(1) by simp
  finally show ?thesis unfolding es by simp
qed

text \<open>The retransmission as a packet, and what the peer's router makes of it.\<close>

definition rtx_packet :: "history_entry \<Rightarrow> rtp_stream \<Rightarrow> binary_lib \<Rightarrow> rtp_packet" where
  "rtx_packet e s B = make_packet (sm_rtx_pt s) (s\<lparr>sm_ssrc := sm_rtx_ssrc s\<rparr>) []
     (write_big16 B (he_seq e) @ he_payload e) (he_timestamp e) (sm_rtx_seq s) False"

lemma rtx_bytes_packet:
  assumes be: "big_endian B" and pt: "sm_rtx_pt s < 128"
  shows "rtp_parse B (rtx_bytes B e s) = Some (Some (rtx_packet e s B))"
proof -
  let ?p = "rtx_packet e s B"
  have "rtp_wf ?p" unfolding rtx_packet_def by (rule make_packet_wf [OF pt]) simp_all
  moreover have pad: "rp_padding ?p = 0" by (simp add: rtx_packet_def make_packet_def rtp_packet_default_def)
  ultimately have "rtp_parse B (rtp_body_bytes B ?p) = Some (Some ?p)"
    using rtp_parse_body [OF be, of ?p "[]"] by (simp add: rtp_strip_padding_def)
  moreover have "rtp_body_bytes B ?p = rtx_bytes B e s"
    using be and_127_less [OF pt]
    by (simp add: rtp_body_bytes_def rtp_header_bytes_def rtp_extension_bytes_def rtx_bytes_def rtx_packet_def
        make_packet_def rtp_packet_default_def Let_def be_simps)
  ultimately show ?thesis by simp
qed

lemma rewrite_rtx_packet_restores:
  assumes be: "big_endian B" and pl: "he_payload e \<noteq> []"
    and maps: "cn_rtx_pt_to_pt c (sm_rtx_pt s) = Some pt" "cn_rtx_ssrc_to_ssrc c (sm_rtx_ssrc s) = Some (sm_ssrc s)"
  shows "rewrite_rtx_packet B c (rtx_packet e s B) = Some (make_packet pt s [] (he_payload e) (he_timestamp e) (he_seq e) False)"
proof -
  have len: "\<not> length (be16_bytes (he_seq e) @ he_payload e) \<le> 2" using pl by (cases "he_payload e") auto
  have "read_big16_at B (be16_bytes (he_seq e) @ he_payload e) 0 = Some (he_seq e)"
    using at_here [OF be] by simp
  then show ?thesis
    using be len maps by (simp add: rewrite_rtx_packet_def rtx_packet_def be_simps make_packet_def Let_def rtp_packet_default_def)
qed


lemma retransmit_streams_other:
  "x \<noteq> 0 \<Longrightarrow> \<forall>s \<in> set ss. sm_ssrc s \<noteq> x \<Longrightarrow> retransmit_streams B x q ss = (ss, None)"
  by (induction ss) simp_all

lemma retransmit_streams_found:
  assumes "x \<noteq> 0"
  shows "j < length ss \<Longrightarrow> sm_ssrc (ss ! j) = x \<Longrightarrow> \<forall>k < j. sm_ssrc (ss ! k) \<noteq> x \<Longrightarrow> history_find q (ss ! j) = Some e \<Longrightarrow>
    retransmit_streams B x q ss = (ss[j := (ss ! j)\<lparr>sm_rtx_seq := sm_rtx_seq (ss ! j) + 1\<rparr>],
      Some (rtx_bytes B e ((ss ! j)\<lparr>sm_rtx_seq := sm_rtx_seq (ss ! j) + 1\<rparr>)))"
proof (induction ss arbitrary: j)
  case (Cons s ss)
  show ?case
  proof (cases j)
    case 0
    with Cons.prems show ?thesis by (simp add: Let_def)
  next
    case (Suc k)
    have "sm_ssrc s \<noteq> x" using Cons.prems(3) Suc by (metis nth_Cons_0 zero_less_Suc)
    moreover have "\<forall>i < k. sm_ssrc (ss ! i) \<noteq> x" using Cons.prems(3) Suc by (metis Suc_less_eq nth_Cons_Suc)
    ultimately show ?thesis using Cons.IH [of k] Cons.prems Suc assms by simp
  qed
qed simp

text \<open>One stream of one transceiver has the SSRC.\<close>

definition ssrc_unique :: "u32 \<Rightarrow> nat \<Rightarrow> nat \<Rightarrow> rtp_transceiver list \<Rightarrow> bool" where
  "ssrc_unique x ti si ts \<longleftrightarrow> ti < length ts \<and> si < length (sn_streams (tr_sender (ts ! ti)))
     \<and> list_all (\<lambda>k. list_all (\<lambda>j. (sm_ssrc (stream_of j (ts ! k)) = x) = (k = ti \<and> j = si))
         [0..<length (sn_streams (tr_sender (ts ! k)))]) [0..<length ts]"

lemma fold_unchanged: "(\<And>x. x \<in> set xs \<Longrightarrow> f x m = m) \<Longrightarrow> fold f xs m = m"
  by (induction xs) simp_all

lemma retransmit_transceiver_other:
  assumes "x \<noteq> 0" "\<forall>s \<in> set (sn_streams (tr_sender (cn_transceivers (mp_conn m) ! i))). sm_ssrc s \<noteq> x"
  shows "retransmit_transceiver B x q i m = m"
  using retransmit_streams_other [OF assms]
  by (simp add: retransmit_transceiver_def set_conn_def put_transceiver_def)

lemma retransmit_unique:
  assumes x: "x \<noteq> 0" and u: "ssrc_unique x ti si (cn_transceivers (mp_conn m))"
    and srtp: "cn_srtp_transport (mp_conn m)"
    and h: "history_find q (stream_of si (cn_transceivers (mp_conn m) ! ti)) = Some e"
  shows "mp_sent_rtp (retransmit B x q m) = mp_sent_rtp m @
    [rtx_bytes B e ((stream_of si (cn_transceivers (mp_conn m) ! ti))
       \<lparr>sm_rtx_seq := sm_rtx_seq (stream_of si (cn_transceivers (mp_conn m) ! ti)) + 1\<rparr>)]"
proof -
  let ?ts = "cn_transceivers (mp_conn m)"
  let ?s = "stream_of si (?ts ! ti)"
  let ?r = "rtx_bytes B e (?s\<lparr>sm_rtx_seq := sm_rtx_seq ?s + 1\<rparr>)"
  let ?m' = "retransmit_transceiver B x q ti m"
  have ti: "ti < length ?ts" and si: "si < length (sn_streams (tr_sender (?ts ! ti)))"
    using u by (simp_all add: ssrc_unique_def)
  have uq: "(sm_ssrc (stream_of j (?ts ! k)) = x) = (k = ti \<and> j = si)"
    if "k < length ?ts" "j < length (sn_streams (tr_sender (?ts ! k)))" for k j
    using u that unfolding ssrc_unique_def list_all_iff by (metis atLeastLessThan_iff le0 set_upt)
  have other: "\<forall>s \<in> set (sn_streams (tr_sender (?ts ! k))). sm_ssrc s \<noteq> x" if "k < length ?ts" "k \<noteq> ti" for k
  proof
    fix s assume "s \<in> set (sn_streams (tr_sender (?ts ! k)))"
    then obtain j where "j < length (sn_streams (tr_sender (?ts ! k)))" "s = stream_of j (?ts ! k)"
      by (auto simp: in_set_conv_nth)
    with uq [OF that(1)] that(2) show "sm_ssrc s \<noteq> x" by blast
  qed
  have found: "retransmit_streams B x q (sn_streams (tr_sender (?ts ! ti)))
      = ((sn_streams (tr_sender (?ts ! ti)))[si := ?s\<lparr>sm_rtx_seq := sm_rtx_seq ?s + 1\<rparr>], Some ?r)"
    using uq [OF ti] si by (intro retransmit_streams_found [OF x si _ _ h]) auto
  have m': "mp_sent_rtp ?m' = mp_sent_rtp m @ [?r]" "length (cn_transceivers (mp_conn ?m')) = length ?ts"
    "\<And>k. k \<noteq> ti \<Longrightarrow> cn_transceivers (mp_conn ?m') ! k = ?ts ! k"
    using found srtp by (simp_all add: retransmit_transceiver_def sync_send_rtp_def set_conn_def put_transceiver_def Let_def)
  have split: "[0..<length ?ts] = [0..<ti] @ ti # [Suc ti..<length ?ts]"
    using ti upt_add_eq_append [of 0 ti "length ?ts - ti"] by (simp add: upt_conv_Cons)
  have "fold (retransmit_transceiver B x q) [0..<ti] m = m"
    using ti by (intro fold_unchanged retransmit_transceiver_other [OF x] other) auto
  moreover have "fold (retransmit_transceiver B x q) [Suc ti..<length ?ts] ?m' = ?m'"
  proof (intro fold_unchanged retransmit_transceiver_other [OF x])
    fix k assume "k \<in> set [Suc ti..<length ?ts]"
    then have "k < length ?ts" "k \<noteq> ti" by auto
    with other [OF this] m'(3) show "\<forall>s \<in> set (sn_streams (tr_sender (cn_transceivers (mp_conn ?m') ! k))). sm_ssrc s \<noteq> x"
      by simp
  qed
  ultimately show ?thesis unfolding retransmit_def split using m'(1) by simp
qed


lemma ssrc_unique_sent:
  assumes "ssrc_unique x ti si ts" "transceiver_sent si (ts ! ti) t'"
  shows "ssrc_unique x ti si (ts[ti := t'])"
proof -
  have len: "length (sn_streams (tr_sender t')) = length (sn_streams (tr_sender (ts ! ti)))"
    using assms(2) by (simp add: transceiver_sent_def)
  have "map sm_ssrc (sn_streams (tr_sender t')) = map fst (map (\<lambda>s. (sm_ssrc s, sm_rid s)) (sn_streams (tr_sender t')))"
    by simp
  also have "\<dots> = map sm_ssrc (sn_streams (tr_sender (ts ! ti)))"
    using assms(2) by (simp add: transceiver_sent_def del: map_map) simp
  finally have "sm_ssrc (stream_of j t') = sm_ssrc (stream_of j (ts ! ti))"
    if "j < length (sn_streams (tr_sender (ts ! ti)))" for j
    using that len by (metis nth_map)
  then have "list_all (\<lambda>j. (sm_ssrc (stream_of j (ts[ti := t'] ! k)) = x) = (k = ti \<and> j = si))
         [0..<length (sn_streams (tr_sender (ts[ti := t'] ! k)))]" if "k < length ts" for k
    using assms(1) that len by (cases "k = ti") (auto simp: ssrc_unique_def list_all_iff)
  then show ?thesis using assms(1) len by (simp add: ssrc_unique_def list_all_iff)
qed

lemma send_frame_ok:
  assumes be: "big_endian B" and si: "si < length (sn_streams (tr_sender t))" and ok: "stream_ok t (stream_of si t)"
    and pk: "sn_packetizer (tr_sender t) = Some pk" and d: "d \<noteq> []"
  defines "pls \<equiv> fst (packetizer_pack d pk)"
  shows "\<exists>t' m' ps. send_frame B L si d ts (\<lambda>_. True) us now (t, m) = Some (t', m')
      \<and> mp_sent_rtp m' = mp_sent_rtp m @ map (rtp_body_bytes B) ps
      \<and> carries B (rm_payload_type (tr_codec t)) (stream_of si t) ts pls ps \<and> list_all (labelled t) ps
      \<and> transceiver_sent si t t' \<and> mp_conn m' = mp_conn m
      \<and> stream_sent (frame_entries (sm_seq (stream_of si t)) ts pls) (stream_of si t) (stream_of si t')"
proof -
  define t0 where "t0 = t\<lparr>tr_sender := (tr_sender t)\<lparr>sn_packetizer := Some (snd (packetizer_pack d pk))\<rparr>\<rparr>"
  have t0: "tr_codec t0 = tr_codec t" "sn_streams (tr_sender t0) = sn_streams (tr_sender t)"
    "transceiver_sent si t0 t' = transceiver_sent si t t'" "stream_ok t0 s = stream_ok t s" "labelled t0 = labelled t" for t' s
    by (simp_all add: t0_def transceiver_sent_def stream_ok_def labelled_def fun_eq_iff)
  have "send_frame B L si d ts (\<lambda>_. True) us now (t, m) = send_payloads B L si ts (\<lambda>_. True) us now 0 pls (t0, m)"
    using pk d by (simp add: send_frame_def t0_def pls_def split_beta Let_def)
  then show ?thesis
    using send_payloads_ok [OF be, of si t0 L ts us now 0 pls m] si ok unfolding t0 by simp
qed


section \<open>Properties\<close>

text \<open>
  C8: A negative acknowledgement for one of the last 128 packets of a frame that was sent makes the
  sender send one packet more, and a peer whose maps know the retransmission payload type and SSRC
  turns this packet back into the one that was lost: payload, number, time stamp, SSRC and payload
  type (the header extension and the marker are not retransmitted).
\<close>
theorem nack_recovers:
  assumes "big_endian B" "si < length (sn_streams (tr_sender t))" "stream_ok t (stream_of si t)"
    and "sn_packetizer (tr_sender t) = Some pk" "d \<noteq> []"
    and "length (sm_history (stream_of si t)) = HISTORY_SIZE"
    and "i < length (fst (packetizer_pack d pk))" "length (fst (packetizer_pack d pk)) \<le> i + HISTORY_SIZE"
    and "fst (packetizer_pack d pk) ! i \<noteq> []"
    and "cn_transceivers (mp_conn m) ! ti = t" "cn_srtp_transport (mp_conn m)" "sm_ssrc (stream_of si t) \<noteq> 0"
    and "ssrc_unique (sm_ssrc (stream_of si t)) ti si (cn_transceivers (mp_conn m))"
    and "sm_rtx_pt (stream_of si t) < 128"
    and "cn_rtx_pt_to_pt peer (sm_rtx_pt (stream_of si t)) = Some pt"
    and "cn_rtx_ssrc_to_ssrc peer (sm_rtx_ssrc (stream_of si t)) = Some (sm_ssrc (stream_of si t))"
    and "send_frame B L si d ts (\<lambda>_. True) us now (t, m) = Some (t', m')"
    and "q = sm_seq (stream_of si t) + 1 + of_nat i"
  shows "\<exists>rtx p p'. mp_sent_rtp (retransmit B (sm_ssrc (stream_of si t)) q (set_conn (put_transceiver ti t') m'))
       = mp_sent_rtp m' @ [rtx]
    \<and> rtp_parse B rtx = Some (Some p) \<and> rewrite_rtx_packet B peer p = Some p'
    \<and> rp_payload p' = fst (packetizer_pack d pk) ! i \<and> rp_sequence_number p' = q \<and> rp_timestamp p' = ts
    \<and> rp_ssrc p' = sm_ssrc (stream_of si t) \<and> rp_payload_type p' = pt"
proof -
  let ?s = "stream_of si t" and ?s' = "stream_of si t'" and ?pls = "fst (packetizer_pack d pk)"
  let ?m2 = "set_conn (put_transceiver ti t') m'"
  let ?r = "?s'\<lparr>sm_rtx_seq := sm_rtx_seq ?s' + 1\<rparr>"
  define e where "e = \<lparr>he_payload = ?pls ! i, he_seq = q, he_timestamp = ts\<rparr>"
  have sent: "transceiver_sent si t t'" "mp_conn m' = mp_conn m"
    "stream_sent (frame_entries (sm_seq ?s) ts ?pls) ?s ?s'"
    using send_frame_ok [OF assms(1-5), of L ts us now m] assms(17) by auto
  have id: "sm_ssrc ?r = sm_ssrc ?s" "sm_rtx_ssrc ?r = sm_rtx_ssrc ?s" "sm_rtx_pt ?r = sm_rtx_pt ?s"
    using sent(3) by (simp_all add: stream_sent_def)
  have ti: "ti < length (cn_transceivers (mp_conn m))" using assms(13) by (simp add: ssrc_unique_def)
  have t': "cn_transceivers (mp_conn ?m2) = (cn_transceivers (mp_conn m))[ti := t']"
    by (simp add: set_conn_def put_transceiver_def sent(2))
  have "history_find q ?s' = Some e"
    using history_recent [OF assms(6-8), of "sm_seq ?s" ts] sent(3) assms(18)
    by (simp add: e_def stream_sent_def history_find_cong [of ?s' "fold remember (frame_entries (sm_seq ?s) ts ?pls) ?s"])
  then have h: "history_find q (stream_of si (cn_transceivers (mp_conn ?m2) ! ti)) = Some e"
    using ti by (simp add: t')
  have u: "ssrc_unique (sm_ssrc ?s) ti si (cn_transceivers (mp_conn ?m2))"
    unfolding t' using assms(10,13) sent(1) by (intro ssrc_unique_sent) simp_all
  have "cn_srtp_transport (mp_conn ?m2)" using assms(11) by (simp add: set_conn_def put_transceiver_def sent(2))
  note r = retransmit_unique [OF assms(12) u this h, of B]
  have "mp_sent_rtp (retransmit B (sm_ssrc ?s) q ?m2) = mp_sent_rtp m' @ [rtx_bytes B e ?r]"
    using r ti by (simp add: t') (simp add: set_conn_def)
  moreover have "rtp_parse B (rtx_bytes B e ?r) = Some (Some (rtx_packet e ?r B))"
    using assms(14) by (intro rtx_bytes_packet [OF assms(1)]) (simp add: id)
  moreover have "rewrite_rtx_packet B peer (rtx_packet e ?r B)
      = Some (make_packet pt ?r [] (he_payload e) (he_timestamp e) (he_seq e) False)"
    using assms(9,15,16) by (intro rewrite_rtx_packet_restores [OF assms(1)]) (simp_all add: id e_def)
  ultimately show ?thesis using id(1) by (simp add: e_def)
qed


definition opus_codec :: sdp_rtpmap where
  "opus_codec = \<lparr>rm_payload_type = 111, rm_name = ''opus'', rm_clock_rate = 48000, rm_channels = Some 2, rm_params = []\<rparr>"

definition sample_sender :: rtp_transceiver where
  "sample_sender = (rtp_transceiver_new opus_codec)\<lparr>tr_mid := ''0'',
     tr_receiver := rtp_receiver_default\<lparr>rc_extensions := [extmap 1 uri_mid]\<rparr>,
     tr_sender := rtp_sender_default\<lparr>sn_packetizer := Some OpusPacketizer,
       sn_streams := [rtp_stream_default\<lparr>sm_ssrc := 7, sm_rtx_ssrc := 8\<rparr>]\<rparr>\<rparr>"

definition sample_path :: media_path where
  "sample_path = media_path_new ((connection_new False)\<lparr>cn_transceivers := [sample_sender], cn_srtp_transport := True\<rparr>)
     (transport_cc_new 0 0)"

lemmas sample_sender_simps = sample_sender_def opus_codec_def rtp_transceiver_new_def rtp_sender_default_def
  rtp_receiver_default_def rtp_stream_default_def

theorem nack_recovers_witness:
  "\<exists>t' m' rtx p p'. send_frame network_lib sdp_sample_lib 0 [1, 2] 90 (\<lambda>_. True) (\<lambda>_. 0) (\<lambda>_. 0) (sample_sender, sample_path) = Some (t', m')
     \<and> mp_sent_rtp (retransmit network_lib 7 1 (set_conn (put_transceiver 0 t') m')) = mp_sent_rtp m' @ [rtx]
     \<and> rtp_parse network_lib rtx = Some (Some p)
     \<and> rewrite_rtx_packet network_lib ((connection_new False)\<lparr>cn_rtx_pt_to_pt := [97 \<mapsto> 111], cn_rtx_ssrc_to_ssrc := [8 \<mapsto> 7]\<rparr>) p = Some p'
     \<and> rp_payload p' = [1, 2] \<and> rp_sequence_number p' = 1"
proof -
  have s: "0 < length (sn_streams (tr_sender sample_sender))" "stream_ok sample_sender (stream_of 0 sample_sender)"
    "sn_packetizer (tr_sender sample_sender) = Some OpusPacketizer" "[1, 2 :: u8] \<noteq> []"
    by (simp_all add: sample_sender_simps stream_ok_def)
  from send_frame_ok [OF big_endian_network_lib s, of sdp_sample_lib 90 "\<lambda>_. 0" "\<lambda>_. 0" sample_path] obtain t' m' where
    f: "send_frame network_lib sdp_sample_lib 0 [1, 2] 90 (\<lambda>_. True) (\<lambda>_. 0) (\<lambda>_. 0) (sample_sender, sample_path) = Some (t', m')"
    by blast
  have pls: "fst (packetizer_pack [1, 2] OpusPacketizer) = [[1, 2]]" by (simp add: packetizer_pack_def opus_pack_def)
  have u: "ssrc_unique (sm_ssrc (stream_of 0 sample_sender)) 0 0 (cn_transceivers (mp_conn sample_path))"
    by (simp add: ssrc_unique_def sample_path_def media_path_new_def sample_sender_simps)
  have fields: "sm_ssrc (stream_of 0 sample_sender) = 7" "sm_rtx_ssrc (stream_of 0 sample_sender) = 8"
    "sm_rtx_pt (stream_of 0 sample_sender) = 97" "sm_seq (stream_of 0 sample_sender) = 0"
    "length (sm_history (stream_of 0 sample_sender)) = HISTORY_SIZE"
    by (simp_all add: sample_sender_simps)
  have "\<exists>rtx p p'. mp_sent_rtp (retransmit network_lib (sm_ssrc (stream_of 0 sample_sender)) 1 (set_conn (put_transceiver 0 t') m'))
       = mp_sent_rtp m' @ [rtx]
    \<and> rtp_parse network_lib rtx = Some (Some p)
    \<and> rewrite_rtx_packet network_lib ((connection_new False)\<lparr>cn_rtx_pt_to_pt := [97 \<mapsto> 111], cn_rtx_ssrc_to_ssrc := [8 \<mapsto> 7]\<rparr>) p = Some p'
    \<and> rp_payload p' = fst (packetizer_pack [1, 2] OpusPacketizer) ! 0 \<and> rp_sequence_number p' = 1 \<and> rp_timestamp p' = 90
    \<and> rp_ssrc p' = sm_ssrc (stream_of 0 sample_sender) \<and> rp_payload_type p' = 111"
    by (rule nack_recovers [OF big_endian_network_lib s(1-4) fields(5), where i = 0 and m = sample_path, OF _ _ _ _ _ _ u _ _ _ f])
       (simp_all add: pls fields HISTORY_SIZE_def, simp_all add: sample_path_def media_path_new_def)
  then show ?thesis using f by (auto simp: pls fields(1))
qed

end
