(* ===== verification/FramePath.thy ===== *)
theory FramePath
  imports MediaFacts Sdp
begin

text \<open>
  A frame from the sender to the track of the peer: packetised, sent, parsed, delivered in any order
  and with repetitions, reordered by the jitter buffer and put together again.
\<close>

section \<open>What the codecs guarantee\<close>

text \<open>The packetizer of the sender and the codec of the receiving track belong together.\<close>

definition codec_matches :: "sdp_lib \<Rightarrow> rtp_packetizer \<Rightarrow> sdp_rtpmap \<Rightarrow> bool" where
  "codec_matches L pk codec \<longleftrightarrow>
     nceq L (rm_name codec) (case pk of H264Packetizer \<Rightarrow> ''H264'' | Vp8Packetizer _ \<Rightarrow> ''VP8''
                             | Vp9Packetizer _ \<Rightarrow> ''VP9'' | OpusPacketizer \<Rightarrow> ''opus'')"

definition frame_fits :: "rtp_packetizer \<Rightarrow> bytes \<Rightarrow> bool" where
  "frame_fits pk d \<longleftrightarrow> d \<noteq> [] \<and>
     (case pk of H264Packetizer \<Rightarrow> h264_frame_ok d | Vp8Packetizer i \<Rightarrow> i < 0x8000
      | Vp9Packetizer i \<Rightarrow> i < 0x8000 | OpusPacketizer \<Rightarrow> True)"

definition payloads_frame :: "sdp_lib \<Rightarrow> sdp_rtpmap \<Rightarrow> bytes list \<Rightarrow> bytes" where
  "payloads_frame L codec pls =
     (if nceq L (rm_name codec) ''H264'' then h264_packets_to_annex_b pls else concat pls)"

lemma nceq_names:
  assumes "nceq_ok L" "codec_matches L pk codec"
  shows "nceq L (rm_name codec) ''H264'' \<longleftrightarrow> pk = H264Packetizer"
    "nceq L (rm_name codec) ''VP8'' \<longleftrightarrow> (\<exists>i. pk = Vp8Packetizer i)"
    "nceq L (rm_name codec) ''VP9'' \<longleftrightarrow> (\<exists>i. pk = Vp9Packetizer i)"
    "nceq L (rm_name codec) ''opus'' \<longleftrightarrow> pk = OpusPacketizer"
    "nceq L ''opus'' (rm_name codec) \<longleftrightarrow> pk = OpusPacketizer"
  using assms by (cases pk; auto simp: codec_matches_def nceq_ok_def to_lower_def)+

lemma vpx_chunks_nonempty:
  "vpx_wf desc \<Longrightarrow> list_all (\<lambda>p. p \<noteq> [] \<and> vpx_depayload p \<noteq> []) (vpx_chunks desc data)"
proof (induction desc data rule: vpx_chunks.induct)
  case (1 desc data)
  show ?case
  proof (cases "data = []")
    case False
    have wf: "vpx_wf (desc\<lparr>vd_partition_start := False\<rparr>)" using 1(2) by (simp add: vpx_wf_def)
    have "length (vpx_bytes desc) \<le> 6" "1 \<le> length (vpx_bytes desc)" using length_vpx_bytes by simp_all
    then have "take (min (length data) (kPacketMax - length (vpx_bytes desc))) data \<noteq> []" "vpx_bytes desc \<noteq> []"
      using False by (cases data; auto)+
    then show ?thesis
      using False 1(1) [OF False refl refl wf] vpx_depayload_bytes [OF 1(2)]
      by (subst vpx_chunks.simps) (simp add: Let_def)
  qed (simp add: vpx_chunks.simps)
qed

lemma vpx_received:
  assumes "i < 0x8000" "nceq' name ''VP8'' \<or> nceq' name ''VP9''"
  shows "concat (map (depayload nceq' name) (fst (vpx_pack i d))) = d"
    "list_all (\<lambda>p. depayload nceq' name p \<noteq> []) (fst (vpx_pack i d))"
proof -
  note c = vpx_chunks_nonempty [OF vpx_pack_wf [OF assms(1)], of d]
  then have eq: "map (depayload nceq' name) (fst (vpx_pack i d)) = map vpx_depayload (fst (vpx_pack i d))"
    using assms(2) by (auto simp: depayload_def list_all_iff vpx_pack_def)
  show "concat (map (depayload nceq' name) (fst (vpx_pack i d))) = d"
    unfolding eq using vpx_pack_laws(1) [OF assms(1), of d] by (simp add: vpx_unpack_def)
  show "list_all (\<lambda>p. depayload nceq' name p \<noteq> []) (fst (vpx_pack i d))"
    using c assms(2) by (auto simp: depayload_def list_all_iff vpx_pack_def)
qed

lemma h264_nonempty: "h264_frame_ok d \<Longrightarrow> d \<noteq> [] \<Longrightarrow> fst (h264_pack () d) \<noteq> []"
  using h264.unpack_pack [where s = "()" and f = d] by (auto simp: h264_packets_to_annex_b_def)

text \<open>What arrives is what was sent, packet by packet not empty.\<close>

lemma frame_received:
  assumes L: "nceq_ok L" and m: "codec_matches L pk codec" and f: "frame_fits pk d"
  defines "pls \<equiv> fst (packetizer_pack d pk)"
  shows "payloads_frame L codec (map (depayload (nceq L) (rm_name codec)) pls) = d"
    and "list_all (\<lambda>p. depayload (nceq L) (rm_name codec) p \<noteq> []) pls" and "pls \<noteq> []"
proof -
  note n = nceq_names [OF L m]
  have d: "d \<noteq> []" using f by (simp add: frame_fits_def)
  have "payloads_frame L codec (map (depayload (nceq L) (rm_name codec)) pls) = d
      \<and> list_all (\<lambda>p. depayload (nceq L) (rm_name codec) p \<noteq> []) pls \<and> pls \<noteq> []"
  proof (cases pk)
    case H264Packetizer
    then have same: "depayload (nceq L) (rm_name codec) = (\<lambda>p. p)" using n by (simp add: depayload_def fun_eq_iff)
    have h: "h264_frame_ok d" using f H264Packetizer by (simp add: frame_fits_def)
    have "list_all (\<lambda>p. p \<noteq> []) (fst (h264_pack () d))"
      using h264.pack_mtu [where s = "()" and f = d] h by (simp add: list_all_iff)
    then show ?thesis
      using H264Packetizer n h264.unpack_pack [where s = "()" and f = d] h h264_nonempty [OF h d]
      by (simp add: pls_def packetizer_pack_def payloads_frame_def same)
  next
    case (Vp9Packetizer i)
    then have "i < 0x8000" "nceq L (rm_name codec) ''VP9''" using f n by (auto simp: frame_fits_def)
    with Vp9Packetizer n vpx_received [of i "nceq L" "rm_name codec" d] d show ?thesis
      by (auto simp: pls_def packetizer_pack_def payloads_frame_def vp9_pack_def)
  next
    case (Vp8Packetizer i)
    then have "i < 0x8000" "nceq L (rm_name codec) ''VP8''" using f n by (auto simp: frame_fits_def)
    with Vp8Packetizer n vpx_received [of i "nceq L" "rm_name codec" d] d show ?thesis
      by (auto simp: pls_def packetizer_pack_def payloads_frame_def vp8_pack_def)
  next
    case OpusPacketizer
    then show ?thesis using n d by (simp add: pls_def packetizer_pack_def payloads_frame_def opus_pack_def depayload_def)
  qed
  then show "payloads_frame L codec (map (depayload (nceq L) (rm_name codec)) pls) = d"
    and "list_all (\<lambda>p. depayload (nceq L) (rm_name codec) p \<noteq> []) pls" and "pls \<noteq> []" by blast+
qed

section \<open>Reordering\<close>

lemma ucast_plus_u16: "(ucast (ucast a + of_nat k :: u32) :: u16) = a + of_nat k"
  by (transfer, simp add: take_bit_eq_mod mod_add_left_eq mod_mod_cancel mod_add_right_eq) 

lemma unat_key:
  fixes a :: u16
  assumes "k < 0x8000"
  shows "unat (ucast a + of_nat k :: u32) = unat a + k"
proof -
  have a: "unat a < 65536" using unsigned_less [of a] by simp
  have "unat (ucast a :: u32) = unat a" by (rule unat_ucast_u16_u32)
  moreover have "unat (of_nat k :: u32) = k" using assms by (simp add: unat_of_nat take_bit_nat_eq_self)
  ultimately show ?thesis using a assms by (simp add: unat_word_ariths)
qed

lemma extend_key:
  fixes a :: u16
  assumes "k < 0x8000"
  shows "extend_seq (a + of_nat k) (ucast a) = ucast a + of_nat k"
proof -
  have a: "unat a < 65536" using unsigned_less [of a] by simp
  have "(unat a + k) div 65536 < 2" using a assms by (intro less_mult_imp_div_less) simp
  then have "(unat a + k) div 65536 = 0 \<or> (unat a + k) div 65536 = 1" by linarith
  with extend_seq_recovers [of "ucast a + of_nat k :: u32" "ucast a"] a assms show ?thesis
    by (auto simp: unat_key unat_ucast_u16_u32 ucast_plus_u16)
qed

lemma extend_key_start: "extend_seq (a :: u16) 0 = ucast a"
proof -
  have a: "unat a < 65536" using unsigned_less [of a] by simp
  then show ?thesis
    using extend_seq_recovers [of "ucast a" 0] ucast_plus_u16 [of a 0] by (simp add: unat_ucast_u16_u32)
qed

text \<open>
  A run of packets with consecutive numbers from \<open>a\<close> on, as a map of the buffer. Pushed in any order
  and with repetitions, the first packet first, they end up as this map.
\<close>

definition run_map :: "u16 \<Rightarrow> rtp_packet list \<Rightarrow> jb_map" where
  "run_map a ps = map (\<lambda>k. (ucast a + of_nat k, ps ! k)) [0..<length ps]"

definition numbered :: "u16 \<Rightarrow> rtp_packet list \<Rightarrow> bool" where
  "numbered a ps \<longleftrightarrow> length ps \<le> 0x8000 \<and> map rp_sequence_number ps = map (\<lambda>k. a + of_nat k) [0..<length ps]"

lemma run_map_facts:
  assumes "numbered a ps"
  shows "sorted_wrt (<) (map fst (run_map a ps))" "map snd (run_map a ps) = ps"
    and "set (run_map a ps) = (\<lambda>p. (extend_seq (rp_sequence_number p) (ucast a), p)) ` set ps"
proof -
  have len: "length ps \<le> 0x8000" using assms by (simp only: numbered_def)
  have seq: "rp_sequence_number (ps ! k) = a + of_nat k" if "k < length ps" for k
  proof -
    have "map rp_sequence_number ps ! k = map (\<lambda>k. a + of_nat k) [0..<length ps] ! k"
      using assms by (simp only: numbered_def)
    with that show ?thesis by simp
  qed
  show "sorted_wrt (<) (map fst (run_map a ps))"
    using len by (simp add: run_map_def comp_def sorted_wrt_iff_nth_less word_less_nat_alt unat_key)
  show "map snd (run_map a ps) = ps" by (simp add: run_map_def comp_def map_nth)
  have "extend_seq (rp_sequence_number (ps ! k)) (ucast a) = ucast a + of_nat k" if "k < length ps" for k
    using extend_key [of k a] seq [OF that] len that by simp
  then have "run_map a ps = map (\<lambda>p. (extend_seq (rp_sequence_number p) (ucast a), p)) ps"
    by (intro nth_equalityI) (simp_all add: run_map_def)
  then show "set (run_map a ps) = (\<lambda>p. (extend_seq (rp_sequence_number p) (ucast a), p)) ` set ps" by simp
qed

definition buffer_with :: "jitter_buffer \<Rightarrow> u32 \<Rightarrow> jb_map \<Rightarrow> jitter_buffer" where
  "buffer_with j next m = j\<lparr>jb_first := False, jb_next := next, jb_sorted := m\<rparr>"

lemma jb_push_run:
  fixes a :: u16
  assumes n: "numbered a ps" and p: "p \<in> set ps" and m: "sorted_wrt (<) (map fst m)" "set m \<subseteq> set (run_map a ps)"
  shows "\<exists>m'. jb_push p (buffer_with j (ucast a) m) = buffer_with j (ucast a) m' \<and> sorted_wrt (<) (map fst m')
    \<and> set m' = insert (extend_seq (rp_sequence_number p) (ucast a), p) (set m)"
proof -
  let ?k = "extend_seq (rp_sequence_number p) (ucast a)"
  have kp: "(?k, p) \<in> set (run_map a ps)" using p by (simp add: run_map_facts(3) [OF n])
  have "\<not> ?k < ucast a"
  proof -
    obtain i where "i < length ps" "?k = ucast a + of_nat i" using kp by (auto simp: run_map_def)
    moreover from this n have "unat ?k = unat a + i" by (simp add: numbered_def unat_key)
    ultimately show ?thesis by (simp add: word_less_nat_alt unat_ucast_u16_u32)
  qed
  show ?thesis
  proof (cases "map_find ?k m")
    case None
    then show ?thesis
      using \<open>\<not> ?k < ucast a\<close> m(1) sorted_map_emplace [of m ?k p] set_map_emplace [of ?k m p]
      by (intro exI [of _ "map_emplace ?k p m"]) (simp add: jb_push_def buffer_with_def Let_def)
  next
    case (Some q)
    then have "(?k, q) \<in> set m" by (simp add: map_find_def map_of_SomeD)
    with m(2) kp run_map_facts(1) [OF n] have "q = p"
      by (metis eq_key_imp_eq_value strict_sorted_iff subsetD)
    with Some \<open>(?k, q) \<in> set m\<close> \<open>\<not> ?k < ucast a\<close> m(1) show ?thesis
      by (intro exI [of _ m]) (auto simp: jb_push_def buffer_with_def Let_def)
  qed
qed

lemma jb_push_all:
  fixes a :: u16
  assumes n: "numbered a ps"
  shows "set qs \<subseteq> set ps \<Longrightarrow> sorted_wrt (<) (map fst m) \<Longrightarrow> set m \<subseteq> set (run_map a ps) \<Longrightarrow>
    \<exists>m'. fold jb_push qs (buffer_with j (ucast a) m) = buffer_with j (ucast a) m' \<and> sorted_wrt (<) (map fst m')
      \<and> set m' = (\<lambda>p. (extend_seq (rp_sequence_number p) (ucast a), p)) ` set qs \<union> set m"
proof (induction qs arbitrary: m)
  case (Cons q qs)
  from jb_push_run [OF n _ Cons.prems(2,3), of q j] Cons.prems(1) obtain m1 where
    1: "jb_push q (buffer_with j (ucast a) m) = buffer_with j (ucast a) m1" "sorted_wrt (<) (map fst m1)"
    "set m1 = insert (extend_seq (rp_sequence_number q) (ucast a), q) (set m)" by auto
  have "set m1 \<subseteq> set (run_map a ps)" using 1(3) Cons.prems(1,3) by (auto simp: run_map_facts(3) [OF n])
  from Cons.IH [OF _ 1(2) this] Cons.prems(1) 1 show ?case by auto
qed (auto intro: exI)

lemma jb_any_order:
  assumes n: "numbered a ps" and qs: "set qs = set ps" "qs \<noteq> []" "hd qs = hd ps" and pl: "rp_payload (hd ps) \<noteq> []"
  shows "fold jb_push qs (jitter_buffer_new delay video) = buffer_with (jitter_buffer_new delay video) (ucast a) (run_map a ps)"
proof -
  let ?j = "jitter_buffer_new delay video"
  obtain q qs' where q: "qs = q # qs'" using qs(2) by (cases qs) auto
  have "ps \<noteq> []" using qs by auto
  then have len: "0 < length ps" by simp
  with n have a: "rp_sequence_number q = a" using q qs(3) \<open>ps \<noteq> []\<close>
    by (cases ps) (auto simp: numbered_def map_upt_Suc simp del: upt_Suc)
  have "jb_push q ?j = buffer_with ?j (ucast a) [(ucast a, q)]"
    using pl q qs(3) a extend_key_start [of a]
    by (auto simp: jb_push_def jitter_buffer_new_def map_find_def buffer_with_def Let_def)
  moreover have "(ucast a, q) \<in> set (run_map a ps)"
    unfolding run_map_facts(3) [OF n]
    by (rule image_eqI [of _ _ q]) (use q qs(1) a extend_key [of 0 a] in auto)
  ultimately obtain m where m: "fold jb_push qs ?j = buffer_with ?j (ucast a) m" "sorted_wrt (<) (map fst m)"
    "set m = (\<lambda>p. (extend_seq (rp_sequence_number p) (ucast a), p)) ` set qs' \<union> {(ucast a, q)}"
    using jb_push_all [OF n, of qs' "[(ucast a, q)]" ?j] q qs(1) by auto
  have "set m = set (run_map a ps)"
    using m(3) q qs(1) extend_key [of 0 a] a by (auto simp: run_map_facts(3) [OF n] image_iff)
  then have "m = run_map a ps"
    using m(2) run_map_facts(1) [OF n]
    by (intro map_sorted_distinct_set_unique [of fst])
       (auto simp: strict_sorted_iff distinct_map inj_on_def)
  with m(1) show ?thesis by simp
qed


section \<open>The frame comes out\<close>

lemma jb_scan_run:
  "\<forall>p \<in> set ps. rp_timestamp p = ts \<Longrightarrow>
    jb_scan ts x (map (\<lambda>k. (x + of_nat k, ps ! k)) [0..<length ps]) = (ps, x + of_nat (length ps), [])"
proof (induction ps arbitrary: x)
  case (Cons p ps)
  have "map (\<lambda>k. (x + of_nat k, (p # ps) ! k)) [0..<length (p # ps)]
      = (x, p) # map (\<lambda>k. ((x + 1) + of_nat k, ps ! k)) [0..<length ps]"
    by (simp add: map_upt_Suc ac_simps del: upt_Suc)
  then show ?case using Cons.IH [of "x + 1"] Cons.prems by (simp add: ac_simps)
qed simp

lemma run_map_hd: "ps \<noteq> [] \<Longrightarrow> \<exists>m. run_map a ps = (ucast a, hd ps) # m"
  by (cases ps) (auto simp: run_map_def map_upt_Suc simp del: upt_Suc)

text \<open>The frame is given out at once, for video when 250 ms have passed since the buffer first had it.\<close>

lemma jb_pop_run:
  assumes ps: "ps \<noteq> []" and ts: "\<forall>p \<in> set ps. rp_timestamp p = ts"
    and s: "s = buffer_with (jitter_buffer_new 500 video) (ucast a) (run_map a ps)"
  shows "if video then \<exists>s'. jb_pop_frame a1 a2 s = ([], s') \<and> (a2 + 250000000 \<le> b2 \<longrightarrow> fst (jb_pop_frame b1 b2 s') = ps)
     else fst (jb_pop_frame a1 a2 s) = ps"
proof -
  obtain m where m: "run_map a ps = (ucast a, hd ps) # m" using run_map_hd [OF ps] by blast
  have hd: "rp_timestamp (hd ps) = ts" using ps ts by simp
  have scan: "jb_scan ts (ucast a) ((ucast a, hd ps) # m) = (ps, ucast a + of_nat (length ps), [])"
    using jb_scan_run [OF ts, of "ucast a"] by (simp add: run_map_def flip: m)
  have pop: "jb_pop_frame n1 n2 t = jb_take_frame n2 t" if "jb_sorted t = (ucast a, hd ps) # m" "jb_next t = ucast a" for n1 n2 t
    using that by (simp add: jb_pop_frame.simps [of _ _ t])
  show ?thesis
  proof (cases video)
    case False
    then show ?thesis
      by (simp add: s pop buffer_with_def m jb_take_frame_def hd scan jitter_buffer_new_def Let_def del: jb_scan.simps)
  next
    case True
    let ?s' = "s\<lparr>jb_gap_start := None, jb_video_wait := Some a2\<rparr>"
    have "jb_pop_frame a1 a2 s = ([], ?s')"
      using True by (simp add: s pop buffer_with_def m jb_take_frame_def hd scan jitter_buffer_new_def ms_ns_def Let_def del: jb_scan.simps)
    moreover have "fst (jb_pop_frame b1 b2 ?s') = ps" if "a2 + 250000000 \<le> b2"
      using True that by (simp add: s pop buffer_with_def m jb_take_frame_def hd scan jitter_buffer_new_def ms_ns_def Let_def del: jb_scan.simps)
    ultimately show ?thesis using True by auto
  qed
qed

section \<open>Receiving\<close>

text \<open>The datagrams in the order of their arrival; the callback of the receiver accepts every packet.\<close>

fun receive_all :: "binary_lib \<Rightarrow> sdp_lib \<Rightarrow> (nat \<Rightarrow> int) \<Rightarrow> bytes list \<Rightarrow> media_path \<Rightarrow> media_path option" where
  "receive_all B L clk [] m = Some m"
| "receive_all B L clk (d # ds) m =
     (case do_on_rtp_rtcp_packet B L (\<lambda>_ p. (True, p)) clk (clk 0) d m of
        None \<Rightarrow> None | Some m \<Rightarrow> receive_all B L clk ds m)"

text \<open>What routing depends on, and the track of a receiver.\<close>

definition route_view :: "connection \<Rightarrow> _" where
  "route_view c = (cn_mid_ext_id c, map tr_mid (cn_transceivers c), cn_ssrc_set c, cn_rtx_pt_to_pt c, cn_rtx_ssrc_to_ssrc c)"

definition track_of :: "nat \<Rightarrow> connection \<Rightarrow> media_track_impl option" where
  "track_of i c = rc_track (tr_receiver (cn_transceivers c ! i))"

lemma route_view_length: "route_view c = route_view c' \<Longrightarrow> length (cn_transceivers c) = length (cn_transceivers c')"
  unfolding route_view_def by (metis Pair_inject length_map)

lemma find_index_mid: "find_index (\<lambda>t. tr_mid t = x) ts = find_index (\<lambda>m. m = x) (map tr_mid ts)"
  by (induction ts) simp_all

lemma find_receiver_view: "route_view c = route_view c' \<Longrightarrow> find_receiver p c = find_receiver p c'"
  by (simp add: find_receiver_def receiver_by_mid_def find_index_mid route_view_def Let_def split: option.split)

lemma rewrite_view: "route_view c = route_view c' \<Longrightarrow> rewrite_rtx_packet B c p = rewrite_rtx_packet B c' p"
  by (simp add: rewrite_rtx_packet_def route_view_def)

lemma put_transceiver_view:
  assumes "tr_mid t = tr_mid (cn_transceivers c ! i)"
  shows "route_view (put_transceiver i t c) = route_view c"
    "i < length (cn_transceivers c) \<Longrightarrow> track_of i (put_transceiver i t c) = rc_track (tr_receiver t)"
    "j \<noteq> i \<Longrightarrow> track_of j (put_transceiver i t c) = track_of j c"
  using assms by (simp_all add: route_view_def put_transceiver_def track_of_def map_update)
    (metis list_update_id map_update)

lemma put_ctx_view: "route_view (put_ctx x c) = route_view c" "track_of i (put_ctx x c) = track_of i c"
proof -
  show "route_view (put_ctx x c) = route_view c"
    by (simp add: put_ctx_def put_transceiver_view Let_def split: option.split)
  show "track_of i (put_ctx x c) = track_of i c"
  proof (cases "map_of (cn_ssrc_set c) (sc_ssrc x)")
    case (Some k)
    then show ?thesis
      by (cases "k = i"; cases "i < length (cn_transceivers c)")
         (auto simp: put_ctx_def track_of_def put_transceiver_def list_update_beyond Let_def)
  qed (simp add: put_ctx_def)
qed

lemma sync_send_rtcp_conn [simp]: "mp_conn (sync_send_rtcp d m) = mp_conn m"
  by (simp add: sync_send_rtcp_def)

lemma fold_sync_send_rtcp_conn [simp]: "mp_conn (fold sync_send_rtcp ds m) = mp_conn m"
  by (induction ds arbitrary: m) simp_all

lemma count_received_view:
  assumes "count_received B p now m = Some m'"
  shows "route_view (mp_conn m') = route_view (mp_conn m)" "track_of i (mp_conn m') = track_of i (mp_conn m)"
  using assms by (auto simp: count_received_def set_conn_def put_ctx_view bind_eq_Some_conv Let_def split: option.splits if_splits)

lemma count_received_unknown: "map_of (cn_ssrc_set (mp_conn m)) (rp_ssrc p) = None \<Longrightarrow> count_received B p now m = Some m"
  by (simp add: count_received_def get_ctx_def)

lemma deliver_pushes:
  assumes "i < length (cn_transceivers c)" "track_of i c = Some tk"
    and "depayload (nceq L) (rm_name (mt_codec tk)) (rp_payload p) \<noteq> []"
  shows "track_of i (snd (deliver L (\<lambda>_ p. (True, p)) i p c))
      = Some (push_frame (p\<lparr>rp_payload := depayload (nceq L) (rm_name (mt_codec tk)) (rp_payload p)\<rparr>) tk)"
    and "route_view (snd (deliver L (\<lambda>_ p. (True, p)) i p c)) = route_view c"
  using assms by (simp_all add: deliver_def track_of_def put_transceiver_view put_transceiver_view [unfolded track_of_def] Let_def)

text \<open>One datagram of a packet that is routed to a receiver.\<close>

lemma receive_one:
  assumes "rtp_parse B d = Some (Some p)" "rewrite_rtx_packet B (mp_conn m) p = Some p"
    and "find_receiver p (mp_conn m) = Some i" "i < length (cn_transceivers (mp_conn m))"
    and "track_of i (mp_conn m) = Some tk" "depayload (nceq L) (rm_name (mt_codec tk)) (rp_payload p) \<noteq> []"
  shows "map_of (cn_ssrc_set (mp_conn m)) (rp_ssrc p) = None \<Longrightarrow>
      do_on_rtp_rtcp_packet B L (\<lambda>_ p. (True, p)) clk now d m \<noteq> None"
    and "do_on_rtp_rtcp_packet B L (\<lambda>_ p. (True, p)) clk now d m = Some m' \<Longrightarrow>
      route_view (mp_conn m') = route_view (mp_conn m) \<and>
      track_of i (mp_conn m') = Some (push_frame (p\<lparr>rp_payload := depayload (nceq L) (rm_name (mt_codec tk)) (rp_payload p)\<rparr>) tk)"
proof -
  obtain m1 where m1: "mp_conn m1 = mp_conn m"
    "do_on_rtp_rtcp_packet B L (\<lambda>_ p. (True, p)) clk now d m = map_option snd (dispatch_rtp B L (\<lambda>_ p. (True, p)) now p m1)"
  proof
    let ?m = "m\<lparr>mp_rx_packets := mp_rx_packets m + 1, mp_rx_bytes := mp_rx_bytes m + of_nat (length d)\<rparr>"
    let ?r = "tcc_handle_incoming B clk (rp_extension_data p) True (set_media_ssrc (rp_ssrc p) (mp_twcc m))"
    show "mp_conn (fold sync_send_rtcp (fst ?r) (?m\<lparr>mp_twcc := snd ?r\<rparr>)) = mp_conn m" by simp
    show "do_on_rtp_rtcp_packet B L (\<lambda>_ p. (True, p)) clk now d m
        = map_option snd (dispatch_rtp B L (\<lambda>_ p. (True, p)) now p (fold sync_send_rtcp (fst ?r) (?m\<lparr>mp_twcc := snd ?r\<rparr>)))"
      by (simp add: do_on_rtp_rtcp_packet_def assms(1) split_beta Let_def)
  qed
  have d: "dispatch_rtp B L (\<lambda>_ p. (True, p)) now p m1 = do {
      m \<leftarrow> count_received B p now m1;
      let (done, c) = deliver L (\<lambda>_ p. (True, p)) i p (mp_conn m);
      Some (done, m\<lparr>mp_conn := c\<rparr>) }"
    by (simp add: dispatch_rtp_def m1(1) assms(2,3))
  show "do_on_rtp_rtcp_packet B L (\<lambda>_ p. (True, p)) clk now d m \<noteq> None"
    if "map_of (cn_ssrc_set (mp_conn m)) (rp_ssrc p) = None"
    using that count_received_unknown [of m1 p B now] by (simp add: m1 d split_beta)
  assume "do_on_rtp_rtcp_packet B L (\<lambda>_ p. (True, p)) clk now d m = Some m'"
  then obtain m2 where m2: "count_received B p now m1 = Some m2"
    "mp_conn m' = snd (deliver L (\<lambda>_ p. (True, p)) i p (mp_conn m2))"
    by (auto simp: m1(2) d bind_eq_Some_conv split_beta)
  note v = count_received_view [OF m2(1), unfolded m1(1)]
  have "i < length (cn_transceivers (mp_conn m2))" "track_of i (mp_conn m2) = Some tk"
    using route_view_length [OF v(1)] v(2) assms(4,5) by simp_all
  with deliver_pushes [of i "mp_conn m2" tk L p] assms(6) v(1) m2(2)
  show "route_view (mp_conn m') = route_view (mp_conn m) \<and>
      track_of i (mp_conn m') = Some (push_frame (p\<lparr>rp_payload := depayload (nceq L) (rm_name (mt_codec tk)) (rp_payload p)\<rparr>) tk)"
    by simp
qed


definition dep :: "sdp_lib \<Rightarrow> sdp_rtpmap \<Rightarrow> rtp_packet \<Rightarrow> rtp_packet" where
  "dep L codec p = p\<lparr>rp_payload := depayload (nceq L) (rm_name codec) (rp_payload p)\<rparr>"

lemma dep_fields [simp]:
  "rp_sequence_number (dep L codec p) = rp_sequence_number p" "rp_timestamp (dep L codec p) = rp_timestamp p"
  "rp_ssrc (dep L codec p) = rp_ssrc p" "rp_marker (dep L codec p) = rp_marker p"
  "rp_payload (dep L codec p) = depayload (nceq L) (rm_name codec) (rp_payload p)"
  by (simp_all add: dep_def)

lemma push_frame_codec [simp]: "mt_codec (push_frame p tk) = mt_codec tk"
  by (simp add: push_frame_def)

lemma fold_push_frame: "fold push_frame ps tk = tk\<lparr>mt_jitter := fold jb_push ps (mt_jitter tk)\<rparr>"
  by (induction ps arbitrary: tk) (simp_all add: push_frame_def)

text \<open>The packets one after the other, all routed to the same receiver.\<close>

definition routed :: "binary_lib \<Rightarrow> sdp_lib \<Rightarrow> connection \<Rightarrow> nat \<Rightarrow> sdp_rtpmap \<Rightarrow> rtp_packet \<Rightarrow> bool" where
  "routed B L c i codec p \<longleftrightarrow>
     rtp_parse B (rtp_body_bytes B p) = Some (Some p) \<and> rewrite_rtx_packet B c p = Some p
     \<and> find_receiver p c = Some i \<and> depayload (nceq L) (rm_name codec) (rp_payload p) \<noteq> []"

lemma receive_all_pushes:
  assumes "list_all (routed B L c i (mt_codec tk)) qs" "route_view (mp_conn m) = route_view c"
    "i < length (cn_transceivers (mp_conn m))" "track_of i (mp_conn m) = Some tk"
  shows "list_all (\<lambda>p. map_of (cn_ssrc_set c) (rp_ssrc p) = None) qs \<Longrightarrow> receive_all B L clk (map (rtp_body_bytes B) qs) m \<noteq> None"
    and "receive_all B L clk (map (rtp_body_bytes B) qs) m = Some m' \<Longrightarrow>
      track_of i (mp_conn m') = Some (fold push_frame (map (dep L (mt_codec tk)) qs) tk)"
  using assms
proof (induction qs arbitrary: m tk)
  case (Cons q qs)
  let ?d = "rtp_body_bytes B q" and ?step = "do_on_rtp_rtcp_packet B L (\<lambda>_ p. (True, p)) clk (clk 0) (rtp_body_bytes B q)"
  have q: "rtp_parse B ?d = Some (Some q)" "rewrite_rtx_packet B (mp_conn m) q = Some q"
    "find_receiver q (mp_conn m) = Some i" "depayload (nceq L) (rm_name (mt_codec tk)) (rp_payload q) \<noteq> []"
    if "list_all (routed B L c i (mt_codec tk)) (q # qs)" "route_view (mp_conn m) = route_view c" for m tk
    using that find_receiver_view [OF that(2), of q] rewrite_view [OF that(2), of B q] by (simp_all add: routed_def)
  { case 1
    note one = receive_one [OF q(1-3) [OF 1(2,3)] 1(4,5) q(4) [OF 1(2,3)]]
    have "map_of (cn_ssrc_set (mp_conn m)) (rp_ssrc q) = None" using 1(1,3) by (simp add: route_view_def)
    from one(1) [OF this, of clk "clk 0"] obtain m1 where m1: "?step m = Some m1" by auto
    note v = one(2) [OF m1]
    have "i < length (cn_transceivers (mp_conn m1))" using v 1(4) route_view_length by metis
    with Cons.IH(1) [of "push_frame (dep L (mt_codec tk) q) tk" m1] v 1 m1 show ?case by (simp add: dep_def)
  next
    case 2
    note one = receive_one [OF q(1-3) [OF 2(2,3)] 2(4,5) q(4) [OF 2(2,3)]]
    from 2(1) obtain m1 where m1: "?step m = Some m1" "receive_all B L clk (map (rtp_body_bytes B) qs) m1 = Some m'"
      by (auto split: option.splits)
    note v = one(2) [OF m1(1)]
    have "i < length (cn_transceivers (mp_conn m1))" using v 2(4) route_view_length by metis
    with Cons.IH(2) [of m1 "push_frame (dep L (mt_codec tk) q) tk"] v 2 m1 show ?case by (simp add: dep_def)
  }
qed auto


text \<open>The datagrams of the packets, and the packets of datagrams that arrive in another order.\<close>

lemma arrived_packets:
  assumes p: "list_all (\<lambda>p. rtp_parse B (rtp_body_bytes B p) = Some (Some p)) ps"
    and ds: "set ds = set (map (rtp_body_bytes B) ps)" "hd ds = hd (map (rtp_body_bytes B) ps)" and ps: "ps \<noteq> []"
  shows "\<exists>qs. ds = map (rtp_body_bytes B) qs \<and> set qs = set ps \<and> hd qs = hd ps \<and> qs \<noteq> []"
proof -
  let ?f = "\<lambda>d. the (the (rtp_parse B d))"
  have inv: "?f (rtp_body_bytes B p) = p" if "p \<in> set ps" for p using p that by (simp add: list_all_iff)
  have ne: "ds \<noteq> []" using ds(1) ps by auto
  have "map (rtp_body_bytes B) (map ?f ds) = ds"
    using ds(1) inv by (auto intro!: map_idI)
  moreover have "set (map ?f ds) = set ps"
    using inv by (auto simp: ds(1)[simplified] image_iff)
  moreover have "hd (map ?f ds) = hd ps" using ds(2) ps ne inv by (simp add: hd_map)
  ultimately show ?thesis using ne by (intro exI [of _ "map ?f ds"]) simp
qed

text \<open>The track that has got the packets of a frame gives the frame.\<close>

definition frame_info :: "rtp_stream \<Rightarrow> u32 \<Rightarrow> sdp_rtpmap \<Rightarrow> rtp_frame_info" where
  "frame_info s ts codec = \<lparr>fi_rtp_timestamp = ts, fi_ssrc = sm_ssrc s, fi_clock_rate = rm_clock_rate codec,
     fi_first_sequence_number = sm_seq s + 1, fi_marker = True\<rparr>"

lemma carries_dep:
  fixes L codec
  assumes c: "carries B pt s ts pls ps" and pls: "pls \<noteq> []" "length pls \<le> 0x8000"
  defines "ps' \<equiv> map (dep L codec) ps"
  shows "numbered (sm_seq s + 1) ps'" "\<forall>p \<in> set ps'. rp_timestamp p = ts" "ps' \<noteq> []" "rp_marker (last ps') = 1"
    "rp_ssrc (hd ps') = sm_ssrc s" "rp_sequence_number (hd ps') = sm_seq s + 1" "rp_timestamp (hd ps') = ts"
    "map rp_payload ps' = map (depayload (nceq L) (rm_name codec)) pls"
proof -
  have len: "length ps = length pls" using c unfolding carries_def by (metis length_map)
  then have ps: "ps \<noteq> []" using pls by auto
  then show ps': "ps' \<noteq> []" by (simp add: ps'_def)
  have seq: "map rp_sequence_number ps = map (\<lambda>k. sm_seq s + 1 + of_nat k) [0..<length ps]"
    using c len by (simp add: carries_def)
  then show "numbered (sm_seq s + 1) ps'" using pls(2) len by (simp add: numbered_def ps'_def comp_def)
  show "\<forall>p \<in> set ps'. rp_timestamp p = ts" using c by (auto simp: carries_def ps'_def list_all_iff)
  then show "rp_timestamp (hd ps') = ts" using ps' by simp
  have "last (map rp_marker ps) = 1" using c pls(1) by (simp add: carries_def)
  then show "rp_marker (last ps') = 1" using ps by (simp add: ps'_def last_map)
  show "rp_ssrc (hd ps') = sm_ssrc s" using c ps by (simp add: carries_def ps'_def list_all_iff hd_map)
  have "hd (map rp_sequence_number ps) = sm_seq s + 1"
    unfolding seq using ps by (cases ps) (simp_all add: map_upt_Suc del: upt_Suc)
  then show "rp_sequence_number (hd ps') = sm_seq s + 1" using ps by (simp add: ps'_def hd_map)
  show "map rp_payload ps' = map (depayload (nceq L) (rm_name codec)) pls"
    using c by (auto simp: carries_def ps'_def comp_def)
qed

lemma frame_from_packets:
  assumes L: "nceq_ok L" "codec_matches L pk codec" "frame_fits pk d"
    and c: "carries B pt s ts (fst (packetizer_pack d pk)) ps" and len: "length (fst (packetizer_pack d pk)) \<le> 0x8000"
    and t: "mt_codec t = codec"
  shows "\<exists>f. frame_of_packets L t (map (dep L codec) ps) = Some f \<and> mf_data f = d \<and> mf_timestamp f = ts
    \<and> mf_info f = Some (frame_info s ts codec)"
proof -
  note r = frame_received [OF L]
  note p = carries_dep [OF c r(3) len, of L codec]
  have h: "track_format L t = mf_h264 \<longleftrightarrow> nceq L (rm_name codec) ''H264''" by (simp add: track_format_def t)
  obtain q qs where q: "map (dep L codec) ps = q # qs" using p(3) by (cases "map (dep L codec) ps") auto
  have fields: "rp_timestamp q = ts" "rp_ssrc q = sm_ssrc s" "rp_sequence_number q = sm_seq s + 1" "rp_marker (last (q # qs)) = 1"
    using p(4-7) unfolding q by simp_all
  have pl: "map rp_payload (q # qs) = map (depayload (nceq L) (rm_name codec)) (fst (packetizer_pack d pk))"
    using p(8) unfolding q .
  have data: "(if track_format L t = mf_h264 then h264_packets_to_annex_b (map rp_payload (q # qs))
      else concat (map rp_payload (q # qs))) = d"
    unfolding pl h using r(1) by (simp only: payloads_frame_def)
  have "frame_of_packets L t (q # qs) = Some \<lparr>mf_kind = track_kind L t, mf_format = track_format L t, mf_timestamp = ts,
      mf_data = d, mf_info = Some (frame_info s ts codec)\<rparr>"
    using data by (simp only: frame_of_packets_def list.case fields frame_info_def t) simp
  then show ?thesis unfolding q by simp
qed

lemma frame_of_packets_codec:
  "mt_codec t = mt_codec t' \<Longrightarrow> frame_of_packets L t ps = frame_of_packets L t' ps"
  by (cases ps) (simp_all add: frame_of_packets_def track_kind_def track_format_def)

lemma track_poll_run:
  assumes ps: "ps \<noteq> []" "\<forall>p \<in> set ps. rp_timestamp p = ts"
    and t: "mt_jitter t = buffer_with (jitter_buffer_new 500 video) (ucast a) (run_map a ps)"
    and f: "\<And>t'. mt_codec t' = mt_codec t \<Longrightarrow> frame_of_packets L t' ps = Some f" and w: "a2 + 250000000 \<le> b2"
  shows "if video then fst (track_poll L a1 a2 t) = None \<and> fst (track_poll L b1 b2 (snd (track_poll L a1 a2 t))) = Some f
    else fst (track_poll L a1 a2 t) = Some f"
proof (cases video)
  case True
  from jb_pop_run [OF ps t, of a1 a2 b2 b1] True w obtain s' where
    "jb_pop_frame a1 a2 (mt_jitter t) = ([], s')" "fst (jb_pop_frame b1 b2 s') = ps" by auto
  moreover have "frame_of_packets L t' [] = None" for t' by (simp add: frame_of_packets_def)
  ultimately show ?thesis using True f [of "t\<lparr>mt_jitter := s'\<rparr>"] by (simp add: track_poll_def split_beta Let_def)
next
  case False
  with jb_pop_run [OF ps t, of a1 a2] f [of t] show ?thesis
    by (simp add: track_poll_def split_beta Let_def)
qed


section \<open>Properties\<close>

lemma frame_reaches_track_aux:
  assumes be: "big_endian B" and L: "nceq_ok L" "codec_matches L pk codec" "frame_fits pk d"
    and c: "carries B pt s ts (fst (packetizer_pack d pk)) ps" and len: "length (fst (packetizer_pack d pk)) \<le> 0x8000"
    and ds: "set ds = set (map (rtp_body_bytes B) ps)" "hd ds = hd (map (rtp_body_bytes B) ps)"
    and route: "\<forall>p \<in> set ps. find_receiver p (mp_conn r) = Some i" "cn_rtx_ssrc_to_ssrc (mp_conn r) (sm_ssrc s) = None"
    and i: "i < length (cn_transceivers (mp_conn r))" "track_of i (mp_conn r) = Some (media_track_impl_new L uuid codec)"
    and w: "a2 + 250000000 \<le> b2"
    and run: "map_of (cn_ssrc_set (mp_conn r)) (sm_ssrc s) = None \<or> receive_all B L clk ds r \<noteq> None"
  shows "\<exists>r' t f. receive_all B L clk ds r = Some r' \<and> track_of i (mp_conn r') = Some t
    \<and> (if pk = OpusPacketizer then fst (track_poll L a1 a2 t) = Some f
       else fst (track_poll L a1 a2 t) = None \<and> fst (track_poll L b1 b2 (snd (track_poll L a1 a2 t))) = Some f)
    \<and> mf_data f = d \<and> mf_timestamp f = ts \<and> mf_info f = Some (frame_info s ts codec)"
proof -
  let ?t0 = "media_track_impl_new L uuid codec"
  have codec: "mt_codec ?t0 = codec" by (simp add: media_track_impl_new_def)
  note fr = frame_received [OF L] and p = carries_dep [OF c frame_received(3) [OF L] len, of L codec]
  have parse: "list_all (\<lambda>p. rtp_parse B (rtp_body_bytes B p) = Some (Some p)) ps"
    and ssrc: "\<forall>p \<in> set ps. rp_ssrc p = sm_ssrc s" and pl: "map rp_payload ps = fst (packetizer_pack d pk)"
    using c by (auto simp: carries_def list_all_iff)
  have ps: "ps \<noteq> []" using p(3) by auto
  obtain qs where qs: "ds = map (rtp_body_bytes B) qs" "set qs = set ps" "hd qs = hd ps" "qs \<noteq> []"
    using arrived_packets [OF parse ds ps] by blast
  have "depayload (nceq L) (rm_name codec) (rp_payload p) \<noteq> []" if "p \<in> set ps" for p
  proof -
    have "rp_payload p \<in> set (fst (packetizer_pack d pk))" using that unfolding pl [symmetric] by simp
    with fr(2) show ?thesis by (simp add: list_all_iff)
  qed
  then have "list_all (routed B L (mp_conn r) i codec) qs"
    using parse route ssrc by (auto simp: routed_def list_all_iff qs(2) rewrite_rtx_packet_def split: option.split)
  then have ok: "list_all (routed B L (mp_conn r) i (mt_codec ?t0)) qs" by (simp add: codec)
  have "receive_all B L clk ds r \<noteq> None"
    using run receive_all_pushes(1) [OF ok refl i, of clk] ssrc by (auto simp: qs(1,2) list_all_iff)
  then obtain r' where r': "receive_all B L clk ds r = Some r'" by auto
  let ?qs = "map (dep L codec) qs" and ?ps = "map (dep L codec) ps"
  let ?t = "fold push_frame ?qs ?t0"
  have t: "track_of i (mp_conn r') = Some ?t"
    using receive_all_pushes(2) [OF ok refl i, of clk r'] r' by (simp add: qs(1) codec)
  have "mt_jitter ?t = fold jb_push ?qs (jitter_buffer_new 500 (pk \<noteq> OpusPacketizer))"
    using nceq_names(4) [OF L(1,2)] by (simp add: fold_push_frame media_track_impl_new_def)
  also have "\<dots> = buffer_with (jitter_buffer_new 500 (pk \<noteq> OpusPacketizer)) (ucast (sm_seq s + 1)) (run_map (sm_seq s + 1) ?ps)"
  proof (rule jb_any_order [OF p(1)])
    show "rp_payload (hd ?ps) \<noteq> []" using fr(2,3) p(3,8) by (cases ?ps; cases "fst (packetizer_pack d pk)") auto
  qed (use qs ps in \<open>simp_all add: hd_map\<close>)
  finally have j: "mt_jitter ?t = buffer_with (jitter_buffer_new 500 (pk \<noteq> OpusPacketizer)) (ucast (sm_seq s + 1)) (run_map (sm_seq s + 1) ?ps)" .
  have tc: "mt_codec ?t = codec" by (simp add: fold_push_frame codec)
  obtain f where f: "frame_of_packets L ?t ?ps = Some f" "mf_data f = d" "mf_timestamp f = ts"
    "mf_info f = Some (frame_info s ts codec)"
    using frame_from_packets [OF L c len tc] by blast
  have "frame_of_packets L t' ?ps = Some f" if "mt_codec t' = mt_codec ?t" for t'
    using frame_of_packets_codec [OF that] f(1) by (rule trans)
  from track_poll_run [OF p(3,2) j this w, of a1 b1] show ?thesis
    using r' t f(2-4) by (intro exI [of _ r'] exI [of _ ?t] exI [of _ f]) (auto split: if_splits)
qed


text \<open>
  The two ways a packet of a sender finds the receiver of the peer: by the first character of its mid,
  when the extension was negotiated, or by its SSRC, when the peer expects no mid.
\<close>

definition routes_to :: "rtp_transceiver \<Rightarrow> u32 \<Rightarrow> connection \<Rightarrow> nat \<Rightarrow> bool" where
  "routes_to t ssrc c i \<longleftrightarrow>
     (let x = ext_id (rc_extensions (tr_receiver t)) uri_mid
      in ext_usable x \<and> tr_mid t \<noteq> [] \<and> cn_mid_ext_id c = Some (of_nat x)
         \<and> find_index (\<lambda>r. tr_mid r = [hd (tr_mid t)]) (cn_transceivers c) = Some i)
     \<or> cn_mid_ext_id c = None \<and> map_of (cn_ssrc_set c) ssrc = Some i"

lemma routes_to_receiver:
  assumes "routes_to t (rp_ssrc p) c i" "labelled t p"
  shows "find_receiver p c = Some i"
  using assms by (cases "tr_mid t")
    (auto simp: routes_to_def labelled_def find_receiver_def receiver_by_mid_def Let_def)

text \<open>
  C6: A frame sent without transport error reaches the track of the peer: when its datagrams arrive in
  any order, with repetitions, the first one first, and are routed to a receiver with a fresh track of
  the codec, this track gives out one frame with the bytes, the time stamp, the source and the first
  number of the frame that was sent, at once for Opus, for video at the first poll 250 ms after the
  one that saw it first. Processing the datagrams is defined whenever the source has no statistics.
\<close>
theorem frame_reaches_track:
  assumes "big_endian B" "nceq_ok L" "codec_matches L pk codec" "frame_fits pk d"
    and "si < length (sn_streams (tr_sender t))" "stream_ok t (stream_of si t)" "sn_packetizer (tr_sender t) = Some pk"
    and "length (fst (packetizer_pack d pk)) \<le> 0x8000"
    and "send_frame B L si d ts (\<lambda>_. True) us now (t, m) = Some (t', m')" "mp_sent_rtp m' = mp_sent_rtp m @ sent"
    and "set ds = set sent" "hd ds = hd sent"
    and "routes_to t (sm_ssrc (stream_of si t)) (mp_conn r) i"
    and "cn_rtx_ssrc_to_ssrc (mp_conn r) (sm_ssrc (stream_of si t)) = None"
    and "i < length (cn_transceivers (mp_conn r))" "track_of i (mp_conn r) = Some (media_track_impl_new L uuid codec)"
    and "a2 + 250000000 \<le> b2"
    and "map_of (cn_ssrc_set (mp_conn r)) (sm_ssrc (stream_of si t)) = None \<or> receive_all B L clk ds r \<noteq> None"
  shows "\<exists>r' tk f. receive_all B L clk ds r = Some r' \<and> track_of i (mp_conn r') = Some tk
    \<and> (if pk = OpusPacketizer then fst (track_poll L a1 a2 tk) = Some f
       else fst (track_poll L a1 a2 tk) = None \<and> fst (track_poll L b1 b2 (snd (track_poll L a1 a2 tk))) = Some f)
    \<and> mf_data f = d \<and> mf_timestamp f = ts \<and> mf_info f = Some (frame_info (stream_of si t) ts codec)"
proof -
  have "d \<noteq> []" using assms(4) by (simp add: frame_fits_def)
  from send_frame_ok [OF assms(1,5-7) this, of L ts us now m] assms(9) obtain ps where
    ps: "mp_sent_rtp m' = mp_sent_rtp m @ map (rtp_body_bytes B) ps"
    "carries B (rm_payload_type (tr_codec t)) (stream_of si t) ts (fst (packetizer_pack d pk)) ps"
    "list_all (labelled t) ps" by auto
  have sent: "sent = map (rtp_body_bytes B) ps" using ps(1) assms(10) by simp
  have "\<forall>p \<in> set ps. find_receiver p (mp_conn r) = Some i"
    using ps(2,3) assms(13) by (auto simp: carries_def list_all_iff intro: routes_to_receiver)
  from frame_reaches_track_aux [OF assms(1-4) ps(2) assms(8) _ _ this assms(14-18)] assms(11,12) show ?thesis
    unfolding sent by blast
qed


definition sample_peer :: connection where
  "sample_peer = (connection_new False)\<lparr>cn_mid_ext_id := Some 1,
     cn_transceivers := [(rtp_transceiver_new opus_codec)\<lparr>tr_mid := ''0'',
       tr_receiver := rtp_receiver_default\<lparr>rc_track := Some (media_track_impl_new sdp_sample_lib ''t'' opus_codec)\<rparr>\<rparr>]\<rparr>"

theorem frame_reaches_track_witness:
  "\<exists>ds r' tk f. receive_all network_lib sdp_sample_lib (\<lambda>_. 0) ds (media_path_new sample_peer (transport_cc_new 0 0)) = Some r'
     \<and> track_of 0 (mp_conn r') = Some tk \<and> fst (track_poll sdp_sample_lib 0 0 tk) = Some f \<and> mf_data f = [1, 2]"
proof -
  let ?r = "media_path_new sample_peer (transport_cc_new 0 0)"
  have f: "frame_fits OpusPacketizer [1, 2]" by (simp add: frame_fits_def)
  have s: "0 < length (sn_streams (tr_sender sample_sender))" "stream_ok sample_sender (stream_of 0 sample_sender)"
    "sn_packetizer (tr_sender sample_sender) = Some OpusPacketizer" "[1, 2 :: u8] \<noteq> []"
    by (simp_all add: sample_sender_simps stream_ok_def)
  from send_frame_ok [OF big_endian_network_lib s, of sdp_sample_lib 90 "\<lambda>_. 0" "\<lambda>_. 0" sample_path] obtain t' m' ps where
    snd: "send_frame network_lib sdp_sample_lib 0 [1, 2] 90 (\<lambda>_. True) (\<lambda>_. 0) (\<lambda>_. 0) (sample_sender, sample_path) = Some (t', m')"
    "mp_sent_rtp m' = mp_sent_rtp sample_path @ map (rtp_body_bytes network_lib) ps" by blast
  have m: "codec_matches sdp_sample_lib OpusPacketizer opus_codec"
    using sdp_sample_lib_ok(1) by (simp add: codec_matches_def opus_codec_def nceq_ok_def)
  have len: "length (fst (packetizer_pack [1, 2] OpusPacketizer)) \<le> 0x8000" by (simp add: packetizer_pack_def opus_pack_def)
  have conn: "mp_conn ?r = sample_peer" by (simp add: media_path_new_def)
  have r: "routes_to sample_sender (sm_ssrc (stream_of 0 sample_sender)) (mp_conn ?r) 0"
    "cn_rtx_ssrc_to_ssrc (mp_conn ?r) (sm_ssrc (stream_of 0 sample_sender)) = None"
    "0 < length (cn_transceivers (mp_conn ?r))" "track_of 0 (mp_conn ?r) = Some (media_track_impl_new sdp_sample_lib ''t'' opus_codec)"
    "map_of (cn_ssrc_set (mp_conn ?r)) (sm_ssrc (stream_of 0 sample_sender)) = None"
    unfolding conn by (simp_all add: sample_peer_def sample_sender_simps routes_to_def track_of_def connection_new_def
        ext_id_def extmap_def ext_usable_def)
  from frame_reaches_track [OF big_endian_network_lib sdp_sample_lib_ok(1) m f s(1-3) len snd refl refl r(1-4),
      of 0 250000000 "\<lambda>_. 0" 0 0] r(5)
  show ?thesis by auto
qed

end
