(* ===== verification/Interop.thy ===== *)
theory Interop
  imports FramePath Handshake
begin

text \<open>
  Two connections of this library with each other: what the receiver of one makes of the packets and
  reports of the other, after the exchange of theory Handshake has run.
\<close>

section \<open>Reports as packets\<close>

text \<open>
  Every datagram is tried as RTP first. One of version 2 without padding and extension bit is an RTP
  packet as soon as the CSRC list that its counter asks for fits.
\<close>

definition plain_header :: "bytes \<Rightarrow> bool" where
  "plain_header d \<longleftrightarrow>
     (case d of [] \<Rightarrow> False
      | b # _ \<Rightarrow> drop_bit 6 b = 2 \<and> drop_bit 5 b AND 1 = 0 \<and> drop_bit 4 b AND 1 = 0
          \<and> 12 + 4 * unat (b AND 15) \<le> length d)"

lemma plain_header_parses:
  assumes "plain_header d"
  shows "\<exists>p. rtp_parse B d = Some (Some p) \<and> rp_extension_data p = [] \<and> ntoh32_at B d 8 = Some (rp_ssrc p)"
proof -
  obtain b r where d: "d = b # r" "drop_bit 6 b = 2" "drop_bit 5 b AND 1 = 0" "drop_bit 4 b AND 1 = 0"
    "12 + 4 * unat (b AND 15) \<le> length d" using assms by (cases d) (auto simp: plain_header_def)
  then have len: "12 \<le> length d" by simp
  obtain b1 sn ts ss where h: "rd8 d 0 = Some b" "rd8 d 1 = Some b1" "ntoh16_at B d 2 = Some sn"
    "ntoh32_at B d 4 = Some ts" "ntoh32_at B d 8 = Some ss"
  proof -
    have "rd8 d 0 = Some b" by (simp add: d(1) rd8_def)
    moreover have "\<exists>x. rd8 d 1 = Some x" "\<exists>x. ntoh16_at B d 2 = Some x" "\<exists>x. ntoh32_at B d 4 = Some x" "\<exists>x. ntoh32_at B d 8 = Some x"
      using len by (auto simp: not_None_eq [symmetric] simp del: not_None_eq)
    ultimately show thesis using that by blast
  qed
  have ok: "is_rtp_packet d = Some True" using len d(2) h(1) by (simp add: is_rtp_packet_def)
  obtain r1 where r1: "rtp_parse_csrcs B d 12 (b AND 15) = Some r1" using rtp_parse_csrcs_safe [of 12 d B "b AND 15"] len by auto
  have "r1 \<noteq> None" using r1 d(5) by (auto simp: rtp_parse_csrcs_def bind_eq_Some_conv split: if_splits)
  then obtain cs off where r1: "rtp_parse_csrcs B d 12 (b AND 15) = Some (Some (cs, off))" "off \<le> length d"
    using r1 rtp_parse_csrcs_safe [of 12 d B "b AND 15"] len by auto
  obtain rest where rest: "rd_rest d off = Some rest" using r1(2) by (simp add: rd_rest_def)
  show ?thesis
    using h d(3,4) r1(1) rest by (simp add: rtp_parse_def ok rtp_parse_extension_def rtp_strip_padding_def Let_def)
qed

text \<open>What receiving a packet leaves alone.\<close>

definition same_stats :: "media_path \<Rightarrow> media_path \<Rightarrow> bool" where
  "same_stats m m' \<longleftrightarrow> mp_rx_packets m' = mp_rx_packets m \<and> mp_rx_bytes m' = mp_rx_bytes m
     \<and> mp_outbound m' = mp_outbound m \<and> mp_inbound m' = mp_inbound m \<and> mp_sent_rtp m' = mp_sent_rtp m
     \<and> map tr_sender (cn_transceivers (mp_conn m')) = map tr_sender (cn_transceivers (mp_conn m))"

lemma same_stats_trans: "same_stats a b \<Longrightarrow> same_stats b c \<Longrightarrow> same_stats a c"
  by (simp add: same_stats_def)

lemma same_stats_rtcp: "same_stats m (sync_send_rtcp d m)" "same_stats m (fold sync_send_rtcp ds m)"
proof -
  show s: "same_stats m (sync_send_rtcp d m)" for d m by (simp add: same_stats_def sync_send_rtcp_def)
  show "same_stats m (fold sync_send_rtcp ds m)"
  proof (induction ds arbitrary: m)
    case (Cons d ds)
    show ?case using same_stats_trans [OF s Cons.IH] by simp
  qed (simp add: same_stats_def)
qed

lemma map_put:
  assumes "f t = f (cn_transceivers c ! i)"
  shows "map f (cn_transceivers (put_transceiver i t c)) = map f (cn_transceivers c)"
proof (cases "i < length (cn_transceivers c)")
  case True
  then have "(map f (cn_transceivers c))[i := f t] = map f (cn_transceivers c)"
    using assms by (simp add: list_update_same_conv)
  then show ?thesis by (simp add: put_transceiver_def map_update)
qed (simp add: put_transceiver_def list_update_beyond)

lemma same_stats_conn:
  "map tr_sender (cn_transceivers c) = map tr_sender (cn_transceivers (mp_conn m)) \<Longrightarrow> same_stats m (m\<lparr>mp_conn := c\<rparr>)"
  by (simp add: same_stats_def)

lemma same_stats_count:
  assumes "count_received B p now m = Some m'" shows "same_stats m m'"
proof -
  have c: "map tr_sender (cn_transceivers (put_ctx x c)) = map tr_sender (cn_transceivers c)" for x c
    by (simp add: put_ctx_def Let_def map_put split: option.split)
  have s: "same_stats m (set_conn (put_ctx x) m)" for x unfolding set_conn_def by (rule same_stats_conn) (rule c)
  show ?thesis
  proof (cases "get_ctx (rp_ssrc p) (mp_conn m)")
    case None
    then show ?thesis using assms by (simp add: count_received_def same_stats_def)
  next
    case (Some x)
    then obtain y pli where "m' = (if pli then sync_send_rtcp (pli_bytes B (rp_ssrc p)) (set_conn (put_ctx y) m) else set_conn (put_ctx y) m)"
      using assms by (auto simp: count_received_def bind_eq_Some_conv Let_def)
    then show ?thesis using s same_stats_trans [OF s same_stats_rtcp(1)] by (cases pli) simp_all
  qed
qed

lemma senders_deliver: "map tr_sender (cn_transceivers (snd (deliver L cb i p c))) = map tr_sender (cn_transceivers c)"
  by (simp add: deliver_def Let_def split_beta map_put split: option.split)

lemma same_stats_dispatch:
  assumes "dispatch_rtp B L cb now p m = Some (b, m')" shows "same_stats m m'"
proof -
  obtain q where q: "rewrite_rtx_packet B (mp_conn m) p = Some q"
    "(case find_receiver q (mp_conn m) of None \<Rightarrow> Some (False, m)
      | Some i \<Rightarrow> do {
          m \<leftarrow> count_received B q now m;
          let (done, c) = deliver L cb i q (mp_conn m);
          Some (done, m\<lparr>mp_conn := c\<rparr>) }) = Some (b, m')"
    using assms by (auto simp: dispatch_rtp_def bind_eq_Some_conv)
  show ?thesis
  proof (cases "find_receiver q (mp_conn m)")
    case None
    then show ?thesis using q(2) by (simp add: same_stats_def)
  next
    case (Some i)
    then obtain m1 where m1: "count_received B q now m = Some m1" "m' = m1\<lparr>mp_conn := snd (deliver L cb i q (mp_conn m1))\<rparr>"
      using q(2) by (auto simp: bind_eq_Some_conv split_beta Let_def)
    show ?thesis unfolding m1(2)
      by (rule same_stats_trans [OF same_stats_count [OF m1(1)] same_stats_conn]) (rule senders_deliver)
  qed
qed

text \<open>A datagram with a plain header is handled as a packet.\<close>

lemma plain_header_received:
  assumes "plain_header d"
  obtains p outs tw where "rtp_parse B d = Some (Some p)" "rp_extension_data p = []" "ntoh32_at B d 8 = Some (rp_ssrc p)"
    "do_on_rtp_rtcp_packet B L cb clk now d m = map_option snd (dispatch_rtp B L cb now p
       (fold sync_send_rtcp outs (m\<lparr>mp_rx_packets := mp_rx_packets m + 1, mp_rx_bytes := mp_rx_bytes m + of_nat (length d),
          mp_twcc := tw\<rparr>)))"
proof -
  from plain_header_parses [OF assms, of B] obtain p where p: "rtp_parse B d = Some (Some p)" "rp_extension_data p = []"
    "ntoh32_at B d 8 = Some (rp_ssrc p)" by blast
  obtain outs tw where "tcc_handle_incoming B clk [] True (set_media_ssrc (rp_ssrc p) (mp_twcc m)) = (outs, tw)" by fastforce
  then show thesis using that [OF p] by (simp add: do_on_rtp_rtcp_packet_def p(1,2))
qed

lemma conn_sync_send [simp]: "mp_conn (fold sync_send_rtcp ds m) = mp_conn m"
  by (induction ds arbitrary: m) (simp_all add: sync_send_rtcp_def)

lemma rewrite_defined: "\<exists>q. rewrite_rtx_packet B c p = Some q"
proof (cases "read_big16_at B (rp_payload p) 0")
  case None
  then have "length (rp_payload p) \<le> 2" by (simp add: at_defs rd_bytes_def split: if_splits)
  then show ?thesis by (simp add: rewrite_rtx_packet_def)
qed (simp add: rewrite_rtx_packet_def split: option.split)

text \<open>
  Then the packet goes to the receivers; when it belongs to none of them, the counters are all that
  changes.
\<close>

definition counted :: "bytes \<Rightarrow> bytes list \<Rightarrow> transport_cc \<Rightarrow> media_path \<Rightarrow> media_path" where
  "counted d outs tw m = fold sync_send_rtcp outs (m\<lparr>mp_rx_packets := mp_rx_packets m + 1,
     mp_rx_bytes := mp_rx_bytes m + of_nat (length d), mp_twcc := tw\<rparr>)"

lemma counted_simps [simp]:
  "mp_rx_packets (counted d outs tw m) = mp_rx_packets m + 1"
  "mp_rx_bytes (counted d outs tw m) = mp_rx_bytes m + of_nat (length d)"
  "mp_outbound (counted d outs tw m) = mp_outbound m" "mp_inbound (counted d outs tw m) = mp_inbound m"
  "mp_sent_rtp (counted d outs tw m) = mp_sent_rtp m" "mp_conn (counted d outs tw m) = mp_conn m"
  using same_stats_rtcp(2) [of "m\<lparr>mp_rx_packets := mp_rx_packets m + 1, mp_rx_bytes := mp_rx_bytes m + of_nat (length d), mp_twcc := tw\<rparr>" outs]
  by (simp_all add: same_stats_def counted_def)

lemma plain_header_ignored:
  assumes "plain_header d"
  shows "\<exists>p outs tw m1. rtp_parse B d = Some (Some p) \<and> rp_extension_data p = [] \<and> ntoh32_at B d 8 = Some (rp_ssrc p)
    \<and> tcc_handle_incoming B clk [] True (set_media_ssrc (rp_ssrc p) (mp_twcc m)) = (outs, tw)
    \<and> m1 = counted d outs tw m
    \<and> do_on_rtp_rtcp_packet B L cb clk now d m = map_option snd (dispatch_rtp B L cb now p m1)
    \<and> (\<forall>q. rewrite_rtx_packet B (mp_conn m) p = Some q \<and> map_of (cn_ssrc_set (mp_conn m)) (rp_ssrc q) = None \<longrightarrow>
          do_on_rtp_rtcp_packet B L cb clk now d m = Some m1)
    \<and> (\<forall>m'. do_on_rtp_rtcp_packet B L cb clk now d m = Some m' \<longrightarrow> same_stats m1 m')"
proof -
  from plain_header_parses [OF assms, of B] obtain p where p: "rtp_parse B d = Some (Some p)" "rp_extension_data p = []"
    "ntoh32_at B d 8 = Some (rp_ssrc p)" by blast
  obtain outs tw where t: "tcc_handle_incoming B clk [] True (set_media_ssrc (rp_ssrc p) (mp_twcc m)) = (outs, tw)" by fastforce
  define m1 where "m1 = counted d outs tw m"
  have d: "do_on_rtp_rtcp_packet B L cb clk now d m = map_option snd (dispatch_rtp B L cb now p m1)"
    using t by (simp add: do_on_rtp_rtcp_packet_def p(1,2) m1_def counted_def)
  have c: "mp_conn m1 = mp_conn m" by (simp add: m1_def counted_def)
  have "do_on_rtp_rtcp_packet B L cb clk now d m = Some m1"
    if q: "rewrite_rtx_packet B (mp_conn m) p = Some q" "map_of (cn_ssrc_set (mp_conn m)) (rp_ssrc q) = None" for q
  proof -
    have "rp_extension_data q = []" using q(1) p(2)
      by (auto simp: rewrite_rtx_packet_def bind_eq_Some_conv split: if_splits option.splits)
    then have "find_receiver q (mp_conn m) = None" using q(2) by (simp add: find_receiver_def receiver_by_mid_def)
    then show ?thesis unfolding d using q(1) by (simp add: dispatch_rtp_def c)
  qed
  moreover have "same_stats m1 m'" if "do_on_rtp_rtcp_packet B L cb clk now d m = Some m'" for m'
    using that unfolding d by (auto intro: same_stats_dispatch)
  ultimately show ?thesis using p t d m1_def by blast
qed

text \<open>The reports that this library sends: requests, and the compound packets of senders and receivers.\<close>

definition own_report :: "binary_lib \<Rightarrow> bytes \<Rightarrow> bool" where
  "own_report B d \<longleftrightarrow>
     (\<exists>fb. fb_lost fb \<noteq> [] \<and> d = rtpfb_bytes B fb)
     \<or> (\<exists>ss. ss \<noteq> [] \<and> sender_compound B ss = Some d)
     \<or> (\<exists>i now c c'. d \<noteq> [] \<and> receiver_compound B i now c = Some (d, c'))"

lemma write_new_eq:
  assumes "big_endian B" shows "write_new B p = Some (rtcp_bytes B p)"
  using rtcp_write_to_eq [OF assms, of p "replicate (rtcp_serialized_size p) 0"] by (simp add: write_new_def)

lemma plain_header_append: "plain_header d \<Longrightarrow> plain_header (d @ r)"
  by (cases d) (auto simp: plain_header_def)

lemma plain_request:
  assumes "big_endian B" "fb_lost fb \<noteq> []" shows "plain_header (rtpfb_bytes B fb)"
proof -
  have "length (concat (map (\<lambda>s. write_big16 B s @ [0, 0]) xs)) = 4 * length xs" for xs
    using assms(1) by (induction xs) (simp_all add: be_simps)
  moreover have "1 \<le> length (fb_lost fb)" using assms(2) by (cases "fb_lost fb") simp_all
  ultimately show ?thesis using assms(1) by (simp add: rtpfb_bytes_def plain_header_def Let_def be_simps)
qed

lemma plain_report:
  assumes "big_endian B" "rc_version p = 2" "rc_padding p = 0"
    and "rc_type p = pt_SR \<and> rc_report_count p = 0 \<or> rc_type p = pt_RR \<and> rc_report_count p = 1 \<and> length (rc_blocks p) = 1"
  shows "plain_header (rtcp_bytes B p)"
proof -
  have "length (rtcp_bytes B p) \<ge> 12 + 4 * unat (rc_report_count p)"
    unfolding length_rtcp_bytes [OF assms(1)] using assms(3,4) by (auto simp: rtcp_serialized_size_def Let_def)
  moreover have "\<exists>r. rtcp_bytes B p = (push_bit 6 2 OR rc_report_count p AND 31) # r"
    using assms(2,3) by (simp add: rtcp_bytes_def rtcp_body_bytes_def rtcp_header_bytes_def)
  ultimately show ?thesis using assms(4) by (auto simp: plain_header_def)
qed

lemma receiver_reports_plain:
  assumes "big_endian B"
  shows "receiver_reports B i now S c = Some (d, c') \<Longrightarrow> d = [] \<or> plain_header d"
proof (induction S arbitrary: c d c')
  case (Cons x S)
  obtain ssrc r where x: "x = (ssrc, r)" by (cases x)
  show ?case
  proof (cases "if r \<noteq> i then None else get_ctx ssrc c")
    case None
    then show ?thesis using Cons x by simp
  next
    case (Some y)
    have "plain_header (rtcp_bytes B (rtcp_packet_default\<lparr>rc_type := pt_RR, rc_report_count := 1, rc_blocks := [receiver_block now y]\<rparr>))"
      by (rule plain_report [OF assms]) (simp_all add: rtcp_packet_default_def)
    then show ?thesis using Cons x Some plain_header_append
      by (auto simp: write_new_eq [OF assms] bind_eq_Some_conv split: if_splits)
  qed
qed simp

lemma own_report_plain:
  assumes "big_endian B" "own_report B d" shows "plain_header d"
proof -
  have s: "plain_header (rtcp_bytes B (sender_report s))" for s
    by (rule plain_report [OF assms(1)]) (simp_all add: sender_report_def rtcp_packet_default_def)
  have t: "those (map (\<lambda>s. write_new B (sender_report s)) ss) = Some (map (\<lambda>s. rtcp_bytes B (sender_report s)) ss)" for ss
    by (induction ss) (simp_all add: write_new_eq [OF assms(1)])
  have "sender_compound B ss = Some (concat (map (\<lambda>s. rtcp_bytes B (sender_report s)) ss) @ sdes_asiortc B)" for ss
    unfolding sender_compound_def t by simp
  then have "plain_header d" if "ss \<noteq> []" "sender_compound B ss = Some d" for ss
    using that s plain_header_append by (cases ss) auto
  moreover have "plain_header d" if "d \<noteq> []" "receiver_compound B i now c = Some (d, c')" for i now c c'
    using that receiver_reports_plain [OF assms(1)] plain_header_append
    by (fastforce simp: receiver_compound_def split: if_splits)
  ultimately show ?thesis using assms plain_request unfolding own_report_def by blast
qed

text \<open>
  C11: The reports of this library are not reports to this library. A request for retransmission, the
  sender reports and the receiver reports it sends all parse as RTP packets without header extension, and
  the connection that receives one hands it to its receivers as such a packet. Unless a source happens to
  have the SSRC that bytes 8 to 11 spell, its whole effect is the count of a received packet, and the turn
  that every packet gives the transport-wide feedback. In any case nothing is retransmitted, no statistics
  of the remote side are recorded and no sender changes.
\<close>
theorem own_reports_ignored:
  assumes "big_endian B" "own_report B d"
  shows "\<exists>p outs tw m1. rtp_parse B d = Some (Some p) \<and> rp_extension_data p = [] \<and> ntoh32_at B d 8 = Some (rp_ssrc p)
    \<and> tcc_handle_incoming B clk [] True (set_media_ssrc (rp_ssrc p) (mp_twcc m)) = (outs, tw)
    \<and> m1 = counted d outs tw m
    \<and> do_on_rtp_rtcp_packet B L cb clk now d m = map_option snd (dispatch_rtp B L cb now p m1)
    \<and> (\<forall>q. rewrite_rtx_packet B (mp_conn m) p = Some q \<and> map_of (cn_ssrc_set (mp_conn m)) (rp_ssrc q) = None \<longrightarrow>
          do_on_rtp_rtcp_packet B L cb clk now d m = Some m1)
    \<and> (\<forall>m'. do_on_rtp_rtcp_packet B L cb clk now d m = Some m' \<longrightarrow>
          mp_rx_packets m' = mp_rx_packets m + 1 \<and> mp_rx_bytes m' = mp_rx_bytes m + of_nat (length d)
          \<and> mp_outbound m' = mp_outbound m \<and> mp_inbound m' = mp_inbound m \<and> mp_sent_rtp m' = mp_sent_rtp m
          \<and> map tr_sender (cn_transceivers (mp_conn m')) = map tr_sender (cn_transceivers (mp_conn m)))"
proof -
  from plain_header_ignored [OF own_report_plain [OF assms], of B clk m L cb now] obtain p outs tw m1 where
    p: "rtp_parse B d = Some (Some p)" "rp_extension_data p = []" "ntoh32_at B d 8 = Some (rp_ssrc p)"
      "tcc_handle_incoming B clk [] True (set_media_ssrc (rp_ssrc p) (mp_twcc m)) = (outs, tw)" "m1 = counted d outs tw m"
      "do_on_rtp_rtcp_packet B L cb clk now d m = map_option snd (dispatch_rtp B L cb now p m1)"
      "\<forall>q. rewrite_rtx_packet B (mp_conn m) p = Some q \<and> map_of (cn_ssrc_set (mp_conn m)) (rp_ssrc q) = None \<longrightarrow>
          do_on_rtp_rtcp_packet B L cb clk now d m = Some m1"
    and s: "\<forall>m'. do_on_rtp_rtcp_packet B L cb clk now d m = Some m' \<longrightarrow> same_stats m1 m'" by (elim exE conjE) (rule that)
  have "\<forall>m'. do_on_rtp_rtcp_packet B L cb clk now d m = Some m' \<longrightarrow>
      mp_rx_packets m' = mp_rx_packets m + 1 \<and> mp_rx_bytes m' = mp_rx_bytes m + of_nat (length d)
      \<and> mp_outbound m' = mp_outbound m \<and> mp_inbound m' = mp_inbound m \<and> mp_sent_rtp m' = mp_sent_rtp m
      \<and> map tr_sender (cn_transceivers (mp_conn m')) = map tr_sender (cn_transceivers (mp_conn m))"
    using s by (simp add: same_stats_def p(5))
  with p show ?thesis by (intro exI conjI)
qed

theorem own_reports_ignored_witness:
  "let d = rtpfb_bytes network_lib \<lparr>fb_fmt = 1, fb_sender_ssrc = 1, fb_media_ssrc = 7, fb_lost = [1]\<rparr>
   in \<exists>m'. do_on_rtp_rtcp_packet network_lib sdp_sample_lib (\<lambda>_ p. (True, p)) (\<lambda>_. 0) 0 d sample_path = Some m'
     \<and> mp_rx_packets m' = mp_rx_packets sample_path + 1 \<and> mp_sent_rtp m' = mp_sent_rtp sample_path"
proof -
  let ?d = "rtpfb_bytes network_lib \<lparr>fb_fmt = 1, fb_sender_ssrc = 1, fb_media_ssrc = 7, fb_lost = [1]\<rparr>"
  have r: "own_report network_lib ?d"
    unfolding own_report_def by (rule disjI1) (rule exI, rule conjI [OF _ refl], simp)
  have e: "cn_ssrc_set (mp_conn sample_path) = []" by (simp add: sample_path_def media_path_new_def connection_new_def)
  let ?do = "do_on_rtp_rtcp_packet network_lib sdp_sample_lib (\<lambda>_ p. (True, p)) (\<lambda>_. 0) 0 ?d sample_path"
  from own_reports_ignored [OF big_endian_network_lib r, of "\<lambda>_. 0" sample_path sdp_sample_lib "\<lambda>_ p. (True, p)" 0]
  obtain p outs tw m1 where m1: "m1 = counted ?d outs tw sample_path"
    and p: "\<forall>q. rewrite_rtx_packet network_lib (mp_conn sample_path) p = Some q
        \<and> map_of (cn_ssrc_set (mp_conn sample_path)) (rp_ssrc q) = None \<longrightarrow> ?do = Some m1"
    by (elim exE conjE) (rule that)
  obtain q where "rewrite_rtx_packet network_lib (mp_conn sample_path) p = Some q" using rewrite_defined by blast
  then have "?do = Some m1" using p e by (metis map_of.simps(1))
  then show ?thesis by (simp add: Let_def m1)
qed

section \<open>The media of an offerer\<close>

text \<open>What decides how a transceiver labels its packets.\<close>

definition labelling :: "rtp_transceiver \<Rightarrow> sdp_rtpmap \<times> sdp_extmap list" where
  "labelling t = (tr_codec t, rc_extensions (tr_receiver t))"

abbreviation labellings :: "connection \<Rightarrow> (sdp_rtpmap \<times> sdp_extmap list) list" where
  "labellings c \<equiv> map labelling (cn_transceivers c)"

lemma labelling_start [simp]:
  "labellings (apply_descriptions A c) = labellings c" "labellings (start_gathering c) = labellings c"
  "labellings (start_connecting c) = labellings c"
  by (simp_all add: apply_descriptions_def start_gathering_def start_connecting_def begin_connect_def calls_def Let_def split: option.split)

lemma labelling_add_ssrc: "labellings (add_ssrc i ssrc c) = labellings c"
proof -
  have "rc_extensions (fst (create_ssrc_context i ssrc r S)) = rc_extensions r" for r S
    by (simp add: create_ssrc_context_def)
  then show ?thesis by (simp add: add_ssrc_def Let_def split_beta map_put labelling_def)
qed

lemma labelling_announce: "labellings (announce_track L i rm c) = labellings c"
proof -
  have f: "labellings (fold (add_ssrc i) ss c) = labellings c" for ss c
    by (induction ss arbitrary: c) (simp_all add: labelling_add_ssrc)
  have "labellings (build_ssrc_map L i rm c) = labellings c" by (simp add: build_ssrc_map_def Let_def f)
  then show ?thesis by (simp add: announce_track_def Let_def)
qed

lemma labelling_answer: "labelling (from_remote_answer L u rm t) = labelling t" "labelling (tr_stop t) = labelling t"
  by (auto simp: labelling_def from_remote_answer_def tr_stop_def Let_def split: option.splits)

lemma labelling_remote_answer:
  "labellings (fold (remote_answer_transceiver L u desc) is c) = labellings c"
proof (induction "is" arbitrary: c)
  case (Cons i ids)
  have "labelling (t\<lparr>tr_direction := d\<rparr>) = labelling t" for t d by (simp add: labelling_def)
  then have "labellings (remote_answer_transceiver L u desc i c) = labellings c"
    by (simp add: remote_answer_transceiver_def Let_def map_put labelling_answer labelling_announce split: option.split)
  then show ?case using Cons.IH by simp
qed simp

text \<open>The sections of an offer name no sources.\<close>

definition no_sources :: "sdp_media \<Rightarrow> bool" where
  "no_sources m \<longleftrightarrow> md_ssrcs m = [] \<and> md_ssrc_groups m = []"

lemma no_sources_sections: "no_sources (rtp_media L offer mid t)" "no_sources (sctp_media offer active mid)"
proof -
  show "no_sources (rtp_media L offer mid t)"
    by (simp add: rtp_media_def to_offer_sdp_media_def no_sources_def add_rtpmap_def find_rtpmap_def sdp_media_default_def
        offer_video_def add_feedback_def Let_def split: option.split)
  show "no_sources (sctp_media offer active mid)"
    by (simp add: sctp_media_def no_sources_def add_format_def sdp_media_default_def)
qed

lemma offer_without_sources:
  assumes "create_offer L A c = Some (offer, c')" "cn_local_desc c = None"
  shows "list_all no_sources (sd_medias offer)" "labellings c' = labellings c"
proof -
  have e: "list_all no_sources (sd_medias (fst (fold (offer_entry L None need) es (offer, ts)))) = list_all no_sources (sd_medias offer)
      \<and> map labelling (snd (fold (offer_entry L None need) es (offer, ts))) = map labelling ts" for need es offer ts
  proof (induction es arbitrary: offer ts)
    case (Cons e es)
    have l: "map labelling (ts[k := (ts ! k)\<lparr>tr_m_idx := x\<rparr>]) = map labelling ts" for k x
      by (cases "k < length ts") (simp_all add: map_update labelling_def list_update_beyond list_update_same_conv)
    show ?case using Cons.IH l by (simp add: offer_entry_def no_sources_sections Let_def split: option.split)
  qed simp
  show "list_all no_sources (sd_medias offer)" "labellings c' = labellings c"
    using assms e by (auto simp: create_offer_def bind_eq_Some_conv Let_def split_beta finish_offer_medias
        offer_session_def session_description_default_def)
qed

text \<open>A peer that takes such an offer learns no source from it.\<close>

definition sources :: "connection \<Rightarrow> ssrc_context_set \<times> (u32 \<rightharpoonup> u32)" where
  "sources c = (cn_ssrc_set c, cn_rtx_ssrc_to_ssrc c)"

lemma sources_start [simp]:
  "sources (apply_descriptions A c) = sources c" "sources (start_gathering c) = sources c"
  "sources (start_connecting c) = sources c" "sources (put_transceiver i t c) = sources c"
  "sources (do_connect r c) = sources c"
  by (simp_all add: sources_def apply_descriptions_def start_gathering_def start_connecting_def begin_connect_def calls_def put_transceiver_def
      do_connect_def connect_stages_def connect_on_exit_def Let_def split: option.split)

lemma sources_announce: "no_sources rm \<Longrightarrow> sources (announce_track L i rm c) = sources c"
  by (simp add: announce_track_def build_ssrc_map_def sources_def no_sources_def Let_def)

lemma sources_remote_offer:
  "list_all no_sources rms \<Longrightarrow> sources (fst (remote_offer_sections L u n rms c)) = sources c"
proof (induction rms arbitrary: n c)
  case (Cons rm rms)
  have e: "sources (c\<lparr>cn_mid_ext_id := x\<rparr>) = sources c" for x c by (simp add: sources_def)
  have "sources (fst (remote_offer_section L (u n) rm c)) = sources c"
    using Cons.prems by (simp add: remote_offer_section_def Let_def e sources_announce split: option.split)
  then show ?case using Cons by (auto split: prod.splits option.splits)
qed simp

lemma offer_type: "create_offer L A c = Some (offer, c') \<Longrightarrow> sd_sdp_type offer = ''offer''"
proof -
  have "sd_sdp_type (fst (fold (offer_entry L cur need) es (d, ts))) = sd_sdp_type d" for cur need es d ts
    by (cases cur; induction es arbitrary: d ts; simp add: offer_entry_def Let_def split: option.split)
  then show "create_offer L A c = Some (offer, c') \<Longrightarrow> sd_sdp_type offer = ''offer''"
    by (auto simp: create_offer_def bind_eq_Some_conv Let_def split_beta finish_offer_medias
        offer_session_def session_description_default_def split: option.splits)
qed

lemma local_keeps:
  assumes "set_local_description A d c = Inr c'"
  shows "labellings c' = labellings c" "sources c' = sources c"
    "sd_sdp_type d = ''offer'' \<Longrightarrow> cn_signaling c' = have_local_offer"
proof -
  have t: "labelling (take_mid d t) = labelling t" for t by (simp add: take_mid_def labelling_def split: option.split)
  have s: "cn_signaling (start_connecting (start_gathering (apply_descriptions A c))) = cn_signaling c" for c
    by (simp add: apply_descriptions_def start_gathering_def start_connecting_def begin_connect_def calls_def Let_def split: option.split)
  show "labellings c' = labellings c"
    using assms by (auto simp: set_local_description_def Let_def t comp_def split: if_splits)
  show "sources c' = sources c"
    using assms by (auto simp: set_local_description_def Let_def split: if_splits) (simp_all add: sources_def)
  show "sd_sdp_type d = ''offer'' \<Longrightarrow> cn_signaling c' = have_local_offer"
    using assms by (auto simp: set_local_description_def Let_def s split: if_splits)
qed

lemma remote_answer_keeps:
  assumes "cn_signaling c = have_local_offer" "set_remote_description L A v d c = (c', e)"
  shows "labellings c' = labellings c"
proof (cases "sd_sdp_type d = ''answer''")
  case True
  then have "remote_prepare L v d c = (fold (remote_answer_transceiver L v d) [0..<length (cn_transceivers c)] c, None)"
    by (simp add: remote_prepare_def)
  then show ?thesis using assms True labelling_remote_answer by (auto simp: set_remote_description_def remote_guard_def Let_def)
qed (use assms in \<open>simp add: set_remote_description_def remote_guard_def\<close>)

lemma remote_offer_keeps:
  assumes "sd_sdp_type d = ''offer''" "list_all no_sources (sd_medias d)" "set_remote_description L A u d c = (c', e)"
  shows "sources c' = sources c"
proof -
  have p: "sources (fst (remote_prepare L u d c)) = sources c"
    using assms(1,2) sources_remote_offer by (simp add: remote_prepare_def split: option.split)
  show ?thesis
  proof (cases "snd (remote_prepare L u d c)")
    case None
    then have "\<exists>x y z. c' = start_connecting (apply_descriptions A ((fst (remote_prepare L u d c))\<lparr>cn_remote_desc := x,
        cn_signaling := y, cn_ice_controlling := z\<rparr>)) \<or> c' = c"
      using assms(3) by (auto simp: set_remote_description_def Let_def split_beta split: if_splits prod.splits)
    then show ?thesis using p by (auto simp: sources_def [of "_\<lparr>cn_remote_desc := _, cn_signaling := _, cn_ice_controlling := _\<rparr>"]) (auto simp: sources_def)
  next
    case (Some x)
    then show ?thesis using assms(3) p by (auto simp: set_remote_description_def split: if_splits prod.splits)
  qed
qed

text \<open>A packet without header extension of a source that the receiver does not know is dropped.\<close>

lemma unlabelled_dropped:
  assumes "big_endian B" "rtp_parse B d = Some (Some p)" "rp_extension_data p = []"
    and "map_of (cn_ssrc_set (mp_conn m)) (rp_ssrc p) = None" "cn_rtx_ssrc_to_ssrc (mp_conn m) (rp_ssrc p) = None"
  shows "\<exists>m'. do_on_rtp_rtcp_packet B L cb clk now d m = Some m' \<and> mp_conn m' = mp_conn m"
proof -
  obtain outs tw where t: "tcc_handle_incoming B clk [] True (set_media_ssrc (rp_ssrc p) (mp_twcc m)) = (outs, tw)" by fastforce
  have "rewrite_rtx_packet B (mp_conn m) p = Some p" using assms(5) by (simp add: rewrite_rtx_packet_def split: option.split)
  moreover have "find_receiver p (mp_conn m) = None" using assms(3,4) by (simp add: find_receiver_def receiver_by_mid_def)
  ultimately show ?thesis by (simp add: do_on_rtp_rtcp_packet_def assms(2,3) t dispatch_rtp_def)
qed

lemma unlabelled_packet:
  assumes "big_endian B" "stream_ok t s" "rc_extensions (tr_receiver t) = []"
  obtains d n w p where "make_rtp B L t s pl ts seq mk wide = Some (d, n, w)" "rtp_parse B d = Some (Some p)"
    "p = make_packet (rm_payload_type (tr_codec t)) s [] pl ts seq mk"
proof -
  have "make_ext_data L t s wide = ([], 0, wide)"
    by (simp add: make_ext_data_def assms(3) mid_element_def rid_element_def abs_element_def tcc_element_def ext_id_def
        ext_usable_def pad_to_word_def Let_def)
  from make_rtp_parses [OF assms(1,2) this, of pl ts seq mk] show thesis by (rule that [OF _ _ refl])
qed

text \<open>
  C12: The offerer of an exchange between two connections of this library cannot be heard: an offer
  names no sources, and the offerer does not take the header extensions from the answer, so its packets
  carry neither a known SSRC nor an identifier. Whatever the answer is, each of them parses as the RTP
  packet that was to be sent, with its payload, payload type, number, time stamp, marker and SSRC, and the
  answerer drops it: its connection with all receivers and tracks stays as it was.
\<close>
theorem offered_media_is_dropped:
  assumes "big_endian B" "create_offer L A a = Some (offer, a1)" "cn_local_desc a = None"
    and "set_local_description A offer a1 = Inr a2" "set_remote_description L G u offer b = (b1, e)"
    and "set_local_description G ans b1 = Inr b2" "set_remote_description L A v ans a2 = (a3, e')"
    and "k < length (cn_transceivers a)" "rc_extensions (tr_receiver (cn_transceivers a ! k)) = []"
    and "stream_ok (cn_transceivers a ! k) s"
    and "map_of (cn_ssrc_set b) (sm_ssrc s) = None" "cn_rtx_ssrc_to_ssrc b (sm_ssrc s) = None"
    and "mp_conn m = do_connect r b2"
  shows "\<exists>d n w p m'. make_rtp B L (cn_transceivers a3 ! k) s pl ts seq mk wide = Some (d, n, w)
    \<and> rtp_parse B d = Some (Some p) \<and> rp_payload p = pl \<and> rp_timestamp p = ts \<and> rp_sequence_number p = seq
    \<and> rp_ssrc p = sm_ssrc s \<and> rp_payload_type p = rm_payload_type (tr_codec (cn_transceivers a ! k))
    \<and> rp_marker p = (if mk then 1 else 0) \<and> rp_extension_data p = []
    \<and> do_on_rtp_rtcp_packet B L cb clk now d m = Some m' \<and> mp_conn m' = mp_conn m"
proof -
  note off = offer_without_sources [OF assms(2,3)] and ty = offer_type [OF assms(2)]
  note loc = local_keeps [OF assms(4)]
  have "labellings a3 = labellings a"
    using remote_answer_keeps [OF loc(3) [OF ty] assms(7)] loc(1) off(2) by simp
  then have "labelling (cn_transceivers a3 ! k) = labelling (cn_transceivers a ! k)"
    using assms(8) by (metis length_map nth_map)
  then have co: "tr_codec (cn_transceivers a3 ! k) = tr_codec (cn_transceivers a ! k)"
    and l: "stream_ok (cn_transceivers a3 ! k) s" "rc_extensions (tr_receiver (cn_transceivers a3 ! k)) = []"
    using assms(9,10) by (simp_all add: labelling_def stream_ok_def)
  have "sources (mp_conn m) = sources b"
    using local_keeps(2) [OF assms(6)] remote_offer_keeps [OF ty off(1) assms(5)] by (simp add: assms(13))
  then have s: "map_of (cn_ssrc_set (mp_conn m)) (sm_ssrc s) = None" "cn_rtx_ssrc_to_ssrc (mp_conn m) (sm_ssrc s) = None"
    using assms(11,12) by (simp_all add: sources_def)
  from unlabelled_packet [OF assms(1) l] obtain d n w p where
    p: "make_rtp B L (cn_transceivers a3 ! k) s pl ts seq mk wide = Some (d, n, w)" "rtp_parse B d = Some (Some p)"
      "p = make_packet (rm_payload_type (tr_codec (cn_transceivers a3 ! k))) s [] pl ts seq mk" .
  have f: "rp_payload p = pl" "rp_timestamp p = ts" "rp_sequence_number p = seq" "rp_ssrc p = sm_ssrc s"
    "rp_payload_type p = rm_payload_type (tr_codec (cn_transceivers a ! k))" "rp_marker p = (if mk then 1 else 0)"
    "rp_extension_data p = []" by (simp_all add: p(3) co)
  from unlabelled_dropped [OF assms(1) p(2) f(7), of m L cb clk now] s f(4) obtain m' where
    "do_on_rtp_rtcp_packet B L cb clk now d m = Some m'" "mp_conn m' = mp_conn m" by auto
  with p(1,2) f show ?thesis by blast
qed

definition sample_offerer :: connection where
  "sample_offerer = (connection_new True)\<lparr>cn_transceivers := [sample_sender\<lparr>tr_mid := [], tr_receiver := rtp_receiver_default\<rparr>]\<rparr>"

theorem offered_media_is_dropped_witness:
  "\<exists>offer a1 a2 b1 ans b2 a3 e d n w m'. create_offer sdp_sample_lib sample_agent sample_offerer = Some (offer, a1)
     \<and> set_local_description sample_agent offer a1 = Inr a2
     \<and> set_remote_description sdp_sample_lib sample_agent (\<lambda>_. ''t'') offer (connection_new True) = (b1, None)
     \<and> create_answer sdp_sample_lib sample_agent b1 = Inr ans \<and> set_local_description sample_agent ans b1 = Inr b2
     \<and> set_remote_description sdp_sample_lib sample_agent (\<lambda>_. ''u'') ans a2 = (a3, e)
     \<and> make_rtp network_lib sdp_sample_lib (cn_transceivers a3 ! 0) (stream_of 0 sample_sender) [1] 0 1 True 0 = Some (d, n, w)
     \<and> do_on_rtp_rtcp_packet network_lib sdp_sample_lib (\<lambda>_ p. (True, p)) (\<lambda>_. 0) 0 d
         (media_path_new (do_connect \<lparr>tp_ice = True, tp_dtls = True, tp_srtp_keys = True, tp_srtp_setup = True, tp_sctp = True\<rparr> b2) (transport_cc_new 0 0))
       = Some m'
     \<and> mp_conn m' = do_connect \<lparr>tp_ice = True, tp_dtls = True, tp_srtp_keys = True, tp_srtp_setup = True, tp_sctp = True\<rparr> b2"
proof -
  let ?L = sdp_sample_lib and ?A = sample_agent and ?b = "connection_new True"
  have f: "fresh sample_offerer" "length (cn_transceivers sample_offerer) < 65535" "\<not> cn_need_sctp sample_offerer"
    by (simp_all add: fresh_def sample_offerer_def connection_new_def sample_sender_simps)
  obtain offer a1 where off: "create_offer ?L ?A sample_offerer = Some (offer, a1)"
    "sd_sdp_type offer = ''offer''" "cn_signaling a1 = stable" "list_all (offer_fits offer) (cn_transceivers a1)"
    "list_all (\<lambda>m. md_mid m \<noteq> []) (sd_medias offer)"
    "sd_medias offer \<noteq> [] \<Longrightarrow> bundle_of offer = Some \<lparr>gr_semantic = ''BUNDLE'', gr_items = map md_mid (sd_medias offer)\<rparr>"
    "length (sd_medias offer) = length (live (cn_transceivers sample_offerer))"
    by (rule fresh_offer [OF f(1,2), of ?L ?A]) (rule that, simp_all add: f(3))
  have "sd_medias offer \<noteq> []"
    using off(7) by (auto simp: sample_offerer_def live_def sample_sender_simps)
  then have bdl: "bundle_of offer = Some \<lparr>gr_semantic = ''BUNDLE'', gr_items = map md_mid (sd_medias offer)\<rparr>" by (rule off(6))
  obtain a2 where a2: "set_local_description ?A offer a1 = Inr a2"
    using set_local_ok [of a1 offer ?A] off(2-4) by (auto simp: local_guard_def)
  have "snd (remote_prepare ?L (\<lambda>_. ''t'') offer ?b) = None"
    using remote_sections_ok [OF off(5)] by (auto simp: remote_prepare_def off(2) bdl list_ex_iff)
  then obtain b0 where "remote_prepare ?L (\<lambda>_. ''t'') offer ?b = (b0, None)" by (metis prod.collapse)
  then obtain b1 where b1: "set_remote_description ?L ?A (\<lambda>_. ''t'') offer ?b = (b1, None)" "cn_signaling b1 = have_remote_offer"
    "cn_remote_desc b1 = Some offer"
    using set_remote_ok [of ?b offer ?L "\<lambda>_. ''t''" b0 ?A] off(2) by (auto simp: remote_guard_def connection_new_def)
  obtain ans where ans: "create_answer ?L ?A b1 = Inr ans" "sd_sdp_type ans = ''answer''"
    using b1 by (auto simp: create_answer_def Let_def session_description_default_def)
  obtain b2 where b2: "set_local_description ?A ans b1 = Inr b2"
    using set_local_ok [of b1 ans ?A] ans(2) b1(2) by (auto simp: local_guard_def)
  obtain a3 e where a3: "set_remote_description ?L ?A (\<lambda>_. ''u'') ans a2 = (a3, e)" by fastforce
  let ?c = "do_connect \<lparr>tp_ice = True, tp_dtls = True, tp_srtp_keys = True, tp_srtp_setup = True, tp_sctp = True\<rparr> b2"
  have m: "mp_conn (media_path_new ?c (transport_cc_new 0 0)) = ?c" by (simp add: media_path_new_def)
  have "cn_local_desc sample_offerer = None" "0 < length (cn_transceivers sample_offerer)"
    "rc_extensions (tr_receiver (cn_transceivers sample_offerer ! 0)) = []"
    "stream_ok (cn_transceivers sample_offerer ! 0) (stream_of 0 sample_sender)"
    "map_of (cn_ssrc_set ?b) (sm_ssrc (stream_of 0 sample_sender)) = None"
    "cn_rtx_ssrc_to_ssrc ?b (sm_ssrc (stream_of 0 sample_sender)) = None"
    by (simp_all add: sample_offerer_def connection_new_def sample_sender_simps stream_ok_def)
  note h = this
  from offered_media_is_dropped [OF big_endian_network_lib off(1) h(1) a2 b1(1) b2 a3 h(2-6) m, of "[1]" 0 1 True 0
      "\<lambda>_ p. (True, p)" "\<lambda>_. 0" 0]
  show ?thesis using off(1) a2 b1(1) ans(1) b2 a3 unfolding m by blast
qed

end
