(* ===== verification/Srtp.thy ===== *)
theory Srtp
  imports MediaPath SdpText
begin

text \<open>
  The SRTP transport of \<open>src/srtp_transport.cpp\<close> and \<open>src/srtp_transport.hpp\<close>: the choice of the keys,
  protecting what is sent, the demultiplexing of what arrives with the admission of new sources, and
  the small reader of a remote description.

  The cipher is libsrtp, a library outside the repository: the record \<open>srtp_lib\<close> holds the calls the
  code makes, over a type \<open>'s\<close> of sessions. A call gives \<open>None\<close> for every status but success.
\<close>

section \<open>Parameters and state\<close>

datatype srtp_profile = srtp_none | srtp_aes128_cm_sha1_80 | srtp_aes128_cm_sha1_32 | srtp_aead_aes_128_gcm
  | srtp_aead_aes_256_gcm

record 's srtp_lib =
  sl_create :: "bytes \<Rightarrow> bytes \<Rightarrow> srtp_profile \<Rightarrow> bool \<Rightarrow> 's option"
  sl_protect :: "'s \<Rightarrow> bytes \<Rightarrow> nat \<Rightarrow> bytes option \<times> 's"
  sl_unprotect :: "'s \<Rightarrow> bytes \<Rightarrow> nat \<Rightarrow> bytes option \<times> 's"
  sl_protect_rtcp :: "'s \<Rightarrow> bytes \<Rightarrow> nat \<Rightarrow> bytes option \<times> 's"
  sl_unprotect_rtcp :: "'s \<Rightarrow> bytes \<Rightarrow> nat \<Rightarrow> bytes option \<times> 's"
  sl_stream_remove :: "'s \<Rightarrow> u32 \<Rightarrow> 's"

text \<open>What the DTLS handshake exports.\<close>

record srtp_key_material =
  km_profile :: srtp_profile
  km_client_write_key :: bytes
  km_client_write_salt :: bytes
  km_server_write_key :: bytes
  km_server_write_salt :: bytes

datatype srtp_role = srtp_client | srtp_server

definition MAX_ACTIVE_SSRCS :: nat where
  "MAX_ACTIVE_SSRCS = 32"

record 's srtp_transport =
  st_send :: "'s option"
  st_recv :: "'s option"
  st_profile :: srtp_profile
  st_active :: "u32 set"

definition srtp_transport_new :: "'s srtp_transport" where
  "srtp_transport_new = \<lparr>st_send = None, st_recv = None, st_profile = srtp_none, st_active = {}\<rparr>"

section \<open>Keys\<close>

definition to_libsrtp_profile :: "srtp_profile \<Rightarrow> srtp_profile option" where
  "to_libsrtp_profile p = (if p = srtp_none then None else Some p)"

text \<open>The last argument of \<open>create_session\<close> says whether the session is for any outbound SSRC.\<close>

definition create_session :: "'s srtp_lib \<Rightarrow> bytes \<Rightarrow> bytes \<Rightarrow> srtp_profile \<Rightarrow> bool \<Rightarrow> sig_error + 's" where
  "create_session S key salt profile outbound =
     (case sl_create S key salt profile outbound of None \<Rightarrow> Inl Runtime_error | Some s \<Rightarrow> Inr s)"

text \<open>The state, and the exception if \<open>setup\<close> throws.\<close>

definition srtp_setup ::
  "'s srtp_lib \<Rightarrow> srtp_key_material \<Rightarrow> srtp_role \<Rightarrow> 's srtp_transport \<Rightarrow> 's srtp_transport \<times> sig_error option" where
  "srtp_setup S keys role t =
     (let client = (role = srtp_client);
          send_key = (if client then km_client_write_key keys else km_server_write_key keys);
          send_salt = (if client then km_client_write_salt keys else km_server_write_salt keys);
          recv_key = (if client then km_server_write_key keys else km_client_write_key keys);
          recv_salt = (if client then km_server_write_salt keys else km_client_write_salt keys)
      in case to_libsrtp_profile (km_profile keys) of
           None \<Rightarrow> (t, Some Runtime_error)
         | Some profile \<Rightarrow>
             (case create_session S send_key send_salt profile True of
                Inl e \<Rightarrow> (t, Some e)
              | Inr s \<Rightarrow>
                  (let t = t\<lparr>st_send := Some s\<rparr>
                   in case create_session S recv_key recv_salt profile False of
                        Inl e \<Rightarrow> (t, Some e)
                      | Inr r \<Rightarrow> (t\<lparr>st_recv := Some r, st_profile := km_profile keys\<rparr>, None))))"

definition destroy_sessions :: "'s srtp_transport \<Rightarrow> 's srtp_transport" where
  "destroy_sessions t = t\<lparr>st_send := None, st_recv := None\<rparr>"

section \<open>Protecting and unprotecting\<close>

text \<open>
  The four calls: the bytes, none on failure. A call without a session is one that the code must not
  make (\<open>None\<close>).
\<close>

definition protect_rtp :: "'s srtp_lib \<Rightarrow> bytes \<Rightarrow> nat \<Rightarrow> 's srtp_transport \<Rightarrow> (bytes \<times> 's srtp_transport) option" where
  "protect_rtp S d cap t =
     (case st_send t of None \<Rightarrow> None
      | Some s \<Rightarrow> (case sl_protect S s d cap of (r, s) \<Rightarrow>
          Some (case r of None \<Rightarrow> [] | Some e \<Rightarrow> e, t\<lparr>st_send := Some s\<rparr>)))"

definition protect_rtcp :: "'s srtp_lib \<Rightarrow> bytes \<Rightarrow> nat \<Rightarrow> 's srtp_transport \<Rightarrow> (bytes \<times> 's srtp_transport) option" where
  "protect_rtcp S d cap t =
     (case st_send t of None \<Rightarrow> None
      | Some s \<Rightarrow> (case sl_protect_rtcp S s d cap of (r, s) \<Rightarrow>
          Some (case r of None \<Rightarrow> [] | Some e \<Rightarrow> e, t\<lparr>st_send := Some s\<rparr>)))"

definition unprotect_rtp :: "'s srtp_lib \<Rightarrow> bytes \<Rightarrow> nat \<Rightarrow> 's srtp_transport \<Rightarrow> (bytes \<times> 's srtp_transport) option" where
  "unprotect_rtp S d cap t =
     (case st_recv t of None \<Rightarrow> None
      | Some s \<Rightarrow> (case sl_unprotect S s d cap of (r, s) \<Rightarrow>
          Some (case r of None \<Rightarrow> [] | Some e \<Rightarrow> e, t\<lparr>st_recv := Some s\<rparr>)))"

definition unprotect_rtcp :: "'s srtp_lib \<Rightarrow> bytes \<Rightarrow> nat \<Rightarrow> 's srtp_transport \<Rightarrow> (bytes \<times> 's srtp_transport) option" where
  "unprotect_rtcp S d cap t =
     (case st_recv t of None \<Rightarrow> None
      | Some s \<Rightarrow> (case sl_unprotect_rtcp S s d cap of (r, s) \<Rightarrow>
          Some (case r of None \<Rightarrow> [] | Some e \<Rightarrow> e, t\<lparr>st_recv := Some s\<rparr>)))"

section \<open>Receiving a datagram\<close>

definition srtp_is_rtcp :: "bytes \<Rightarrow> bool option" where
  "srtp_is_rtcp d =
     (if length d < 8 then Some False
      else do { pt \<leftarrow> rd8 d 1; Some (200 \<le> pt \<and> pt \<le> 204) })"

text \<open>
  The RTP part: a new source is admitted by the callback while there is room, and stays admitted only
  if its packet is authentic. The result says whether the datagram was taken, and holds the packet
  that is handed on.
\<close>

definition rtp_received ::
  "binary_lib \<Rightarrow> 's srtp_lib \<Rightarrow> (u32 \<Rightarrow> bytes \<Rightarrow> bool) option \<Rightarrow> bytes \<Rightarrow> 's srtp_transport
   \<Rightarrow> (bool \<times> bytes option \<times> 's srtp_transport) option" where
  "rtp_received B S on_new_ssrc d t = do {
     first \<leftarrow> rd8 d 0;
     if length d < 12 \<or> first AND 0xC0 \<noteq> 0x80 then Some (False, None, t)
     else do {
       ssrc \<leftarrow> rtp_get_ssrc B d;
       let active = (ssrc \<in> st_active t);
       let accept = (case on_new_ssrc of None \<Rightarrow> False | Some cb \<Rightarrow> cb ssrc d);
       if \<not> active \<and> (card (st_active t) \<ge> MAX_ACTIVE_SSRCS \<or> \<not> accept) then Some (False, None, t)
       else do {
         let t = t\<lparr>st_active := insert ssrc (st_active t)\<rparr>;
         (result, t) \<leftarrow> unprotect_rtp S d (length d) t;
         Some (if result = [] then (True, None, if active then t else t\<lparr>st_active := st_active t - {ssrc}\<rparr>)
               else (True, Some result, t)) } } }"

definition rtcp_received ::
  "'s srtp_lib \<Rightarrow> bytes \<Rightarrow> 's srtp_transport \<Rightarrow> (bool \<times> bytes option \<times> 's srtp_transport) option" where
  "rtcp_received S d t = do {
     (result, t) \<leftarrow> unprotect_rtcp S d (length d) t;
     Some (True, if result = [] then None else Some result, t) }"

definition datagram_received ::
  "binary_lib \<Rightarrow> 's srtp_lib \<Rightarrow> (u32 \<Rightarrow> bytes \<Rightarrow> bool) option \<Rightarrow> bytes \<Rightarrow> 's srtp_transport
   \<Rightarrow> (bool \<times> bytes option \<times> 's srtp_transport) option" where
  "datagram_received B S on_new_ssrc d t =
     (if length d < 8 then Some (False, None, t)
      else do {
        first \<leftarrow> rd8 d 0;
        if first < 128 \<or> first > 191 then Some (False, None, t)
        else if st_recv t = None then Some (True, None, t)
        else do {
          rtcp \<leftarrow> srtp_is_rtcp d;
          if rtcp then rtcp_received S d t else rtp_received B S on_new_ssrc d t } })"

definition remove_incoming_ssrc :: "'s srtp_lib \<Rightarrow> u32 \<Rightarrow> 's srtp_transport \<Rightarrow> 's srtp_transport" where
  "remove_incoming_ssrc S ssrc t =
     t\<lparr>st_active := st_active t - {ssrc}, st_recv := map_option (\<lambda>s. sl_stream_remove S s ssrc) (st_recv t)\<rparr>"

text \<open>
  \<open>do_on_new_ssrc\<close> of the connection: what it installs as the callback. The datagram is still encrypted.
\<close>

definition do_on_new_ssrc :: "binary_lib \<Rightarrow> (u32 \<Rightarrow> bytes \<Rightarrow> bool) option \<Rightarrow> u32 \<Rightarrow> bytes \<Rightarrow> bool" where
  "do_on_new_ssrc B cb ssrc d =
     (case rtp_parse B d of
        Some (Some p) \<Rightarrow> (case cb of None \<Rightarrow> True | Some f \<Rightarrow> f ssrc d)
      | _ \<Rightarrow> False)"

section \<open>A remote description in brief\<close>

record remote_sdp =
  rs_ice_ufrag :: string
  rs_ice_pwd :: string
  rs_fingerprint :: string
  rs_setup :: string
  rs_candidates :: "string list"

definition remote_sdp_empty :: remote_sdp where
  "remote_sdp_empty = \<lparr>rs_ice_ufrag = [], rs_ice_pwd = [], rs_fingerprint = [], rs_setup = [], rs_candidates = []\<rparr>"

definition starts_with :: "string \<Rightarrow> string \<Rightarrow> bool" where
  "starts_with p l \<longleftrightarrow> take (length p) l = p"

definition remote_sdp_line :: "string \<Rightarrow> remote_sdp \<Rightarrow> remote_sdp" where
  "remote_sdp_line l d =
     (if starts_with ''a=ice-ufrag:'' l then d\<lparr>rs_ice_ufrag := drop 12 l\<rparr>
      else if starts_with ''a=ice-pwd:'' l then d\<lparr>rs_ice_pwd := drop 10 l\<rparr>
      else if starts_with ''a=fingerprint:'' l then d\<lparr>rs_fingerprint := drop 14 l\<rparr>
      else if starts_with ''a=setup:'' l then d\<lparr>rs_setup := drop 8 l\<rparr>
      else if starts_with ''a='' l \<and> starts_with ''candidate:'' (drop 2 l)
      then d\<lparr>rs_candidates := rs_candidates d @ [drop 2 l]\<rparr>
      else d)"

definition crlf :: string where
  "crlf = [CHR 0x0D, CHR 0x0A]"

text \<open>The end of the line: the first CR LF anywhere, and only without one the first LF.\<close>

definition line_end :: "string \<Rightarrow> nat option" where
  "line_end r = (case str_find crlf r of Some p \<Rightarrow> Some p | None \<Rightarrow> str_find [CHR 0x0A] r)"

definition next_line :: "string \<Rightarrow> string \<times> string" where
  "next_line r =
     (case line_end r of None \<Rightarrow> (r, [])
      | Some p \<Rightarrow>
          (let l = take p r
           in (l, drop (p + (if length l < length r \<and> r ! length l = CHR 0x0D then 2 else 1)) r)))"

function remote_sdp_lines :: "string \<Rightarrow> remote_sdp \<Rightarrow> remote_sdp" where
  "remote_sdp_lines r d =
     (if r = [] then d else case next_line r of (l, r) \<Rightarrow> remote_sdp_lines r (remote_sdp_line l d))"
  by pat_completeness auto
termination
proof (relation "measure (\<lambda>(r, _). length r)")
  fix r l r' and d :: remote_sdp
  assume "r \<noteq> []" "(l, r') = next_line r"
  then have "length r' < length r"
    by (cases "line_end r") (auto simp: next_line_def Let_def)
  then show "((r', remote_sdp_line l d), r, d) \<in> measure (\<lambda>(r, _). length r)" by simp
qed auto

declare remote_sdp_lines.simps [simp del]

definition parse_remote_sdp :: "string \<Rightarrow> remote_sdp" where
  "parse_remote_sdp s = remote_sdp_lines s remote_sdp_empty"

section \<open>What the cipher promises\<close>

text \<open>
  The documented behaviour of libsrtp for two sessions that \<open>J\<close> relates: sessions created for the two
  ends from the same key are related; the header of a protected packet stays in clear; an end takes
  back the packets of the other in their order; and SRTP and SRTCP packets have different
  authentication keys.
\<close>

definition protected_from :: "nat \<Rightarrow> bytes \<Rightarrow> bytes \<Rightarrow> bool" where
  "protected_from h d e \<longleftrightarrow> take h e = take h d \<and> length d \<le> length e"

definition rtp_law :: "binary_lib \<Rightarrow> 's srtp_lib \<Rightarrow> ('s \<Rightarrow> 's \<Rightarrow> bool) \<Rightarrow> 's \<Rightarrow> 's \<Rightarrow> bytes \<Rightarrow> nat \<Rightarrow> bool" where
  "rtp_law B S J s r d cap \<longleftrightarrow>
     (case sl_protect S s d cap of
        (None, s') \<Rightarrow> J s' r
      | (Some e, s') \<Rightarrow> protected_from 12 d e
          \<and> (\<forall>p. rtp_parse B d = Some (Some p) \<and> rp_padding p = 0 \<longrightarrow> (\<exists>q. rtp_parse B e = Some (Some q)))
          \<and> (\<exists>r'. sl_unprotect S r e (length e) = (Some d, r') \<and> J s' r'))"

definition rtcp_law :: "'s srtp_lib \<Rightarrow> ('s \<Rightarrow> 's \<Rightarrow> bool) \<Rightarrow> 's \<Rightarrow> 's \<Rightarrow> bytes \<Rightarrow> nat \<Rightarrow> bool" where
  "rtcp_law S J s r d cap \<longleftrightarrow>
     (case sl_protect_rtcp S s d cap of
        (None, s') \<Rightarrow> J s' r
      | (Some e, s') \<Rightarrow> protected_from 8 d e
          \<and> (\<exists>r'. sl_unprotect_rtcp S r e (length e) = (Some d, r') \<and> J s' r')
          \<and> fst (sl_unprotect S r e (length e)) = None)"

definition srtp_lib_ok :: "binary_lib \<Rightarrow> 's srtp_lib \<Rightarrow> ('s \<Rightarrow> 's \<Rightarrow> bool) \<Rightarrow> bool" where
  "srtp_lib_ok B S J \<longleftrightarrow>
     (\<forall>k salt pf s r. sl_create S k salt pf True = Some s \<and> sl_create S k salt pf False = Some r \<longrightarrow> J s r)
     \<and> (\<forall>s r d cap. J s r \<longrightarrow> rtp_law B S J s r d cap \<and> rtcp_law S J s r d cap)"

lemma srtp_lib_laws:
  assumes "srtp_lib_ok B S J" "J s r"
  shows "rtp_law B S J s r d cap" "rtcp_law S J s r d cap"
  using assms by (auto simp: srtp_lib_ok_def)

section \<open>A channel\<close>

text \<open>Messages that go one by one over two ends: the datagram, and what comes out of it.\<close>

fun transfer ::
  "('m \<Rightarrow> 'a \<Rightarrow> ('e \<times> 'a) option) \<Rightarrow> ('e \<Rightarrow> 'b \<Rightarrow> ('p option \<times> 'b) option) \<Rightarrow> 'm list \<Rightarrow> 'a \<Rightarrow> 'b
   \<Rightarrow> (('e \<times> 'p option) list \<times> 'a \<times> 'b) option" where
  "transfer send recv [] a b = Some ([], a, b)"
| "transfer send recv (m # ms) a b = do {
     (e, a) \<leftarrow> send m a;
     (p, b) \<leftarrow> recv e b;
     (ps, a, b) \<leftarrow> transfer send recv ms a b;
     Some ((e, p) # ps, a, b) }"

locale packet_channel =
  fixes send :: "'m \<Rightarrow> 'a \<Rightarrow> ('e \<times> 'a) option"
    and recv :: "'e \<Rightarrow> 'b \<Rightarrow> ('p option \<times> 'b) option"
    and fits :: "'m \<Rightarrow> bool"
    and good :: "'m \<Rightarrow> 'e \<times> 'p option \<Rightarrow> bool"
    and joined :: "'a \<Rightarrow> 'b \<Rightarrow> bool"
  assumes arrives: "joined a b \<Longrightarrow> fits m \<Longrightarrow>
    \<exists>e a' p b'. send m a = Some (e, a') \<and> recv e b = Some (p, b') \<and> good m (e, p) \<and> joined a' b'"
begin

lemma all_arrive:
  "joined a b \<Longrightarrow> list_all fits ms \<Longrightarrow>
   \<exists>ps a' b'. transfer send recv ms a b = Some (ps, a', b') \<and> list_all2 good ms ps \<and> joined a' b'"
proof (induction ms arbitrary: a b)
  case (Cons m ms)
  then obtain e a1 p b1 where 1: "send m a = Some (e, a1)" "recv e b = Some (p, b1)" "good m (e, p)" "joined a1 b1"
    using arrives by (metis list.pred_inject(2))
  then obtain ps a2 b2 where "transfer send recv ms a1 b1 = Some (ps, a2, b2)" "list_all2 good ms ps" "joined a2 b2"
    using Cons.IH Cons.prems(2) by (metis list.pred_inject(2))
  then show ?case using 1 by auto
qed simp

end

text \<open>The transport as a channel: RTP packets, and RTCP packets with the mark that they are such.\<close>

definition srtp_send :: "'s srtp_lib \<Rightarrow> nat \<Rightarrow> bool \<times> bytes \<Rightarrow> 's srtp_transport \<Rightarrow> (bytes \<times> 's srtp_transport) option" where
  "srtp_send S cap = (\<lambda>(rtcp, d) t. if rtcp then protect_rtcp S d cap t else protect_rtp S d cap t)"

definition srtp_recv :: "binary_lib \<Rightarrow> 's srtp_lib \<Rightarrow> bytes \<Rightarrow> 's srtp_transport \<Rightarrow> (bytes option \<times> 's srtp_transport) option" where
  "srtp_recv B S e t = map_option snd (datagram_received B S (Some (do_on_new_ssrc B None)) e t)"

definition srtp_fits :: "binary_lib \<Rightarrow> u32 set \<Rightarrow> bool \<times> bytes \<Rightarrow> bool" where
  "srtp_fits B W = (\<lambda>(rtcp, d).
     if rtcp then length d \<ge> 8 \<and> 128 \<le> d ! 0 \<and> d ! 0 \<le> 191 \<and> 200 \<le> d ! 1 \<and> d ! 1 \<le> 204
     else \<not> (200 \<le> d ! 1 \<and> d ! 1 \<le> 204)
       \<and> (\<exists>p. rtp_parse B d = Some (Some p) \<and> rp_padding p = 0 \<and> rp_ssrc p \<in> W))"

definition srtp_joined :: "binary_lib \<Rightarrow> 's srtp_lib \<Rightarrow> ('s \<Rightarrow> 's \<Rightarrow> bool) \<Rightarrow> u32 set \<Rightarrow> 's srtp_transport \<Rightarrow> 's srtp_transport \<Rightarrow> bool" where
  "srtp_joined B S J W a b \<longleftrightarrow>
     srtp_lib_ok B S J \<and> finite W \<and> card W \<le> MAX_ACTIVE_SSRCS \<and> st_active b \<subseteq> W
     \<and> (\<exists>s r. st_send a = Some s \<and> st_recv b = Some r \<and> J s r)"

definition srtp_good :: "bool \<times> bytes \<Rightarrow> bytes \<times> bytes option \<Rightarrow> bool" where
  "srtp_good = (\<lambda>(_, d) (e, r). r = (if e = [] then None else Some d))"

text \<open>
  Every message that a side may hand over. The other side tells RTCP from RTP by the second byte alone,
  so RTCP of any other type than 200 to 204 never comes out. A padded packet has to come from a source in
  \<open>V\<close>, one that the receiver has taken already: it looks for the padding of a new source in the
  encrypted bytes. RTP packets with a second byte of 200 to 204 are left out.
\<close>

definition srtp_type :: "bytes \<Rightarrow> bool" where
  "srtp_type d \<longleftrightarrow> 200 \<le> d ! 1 \<and> d ! 1 \<le> 204"

definition srtp_message :: "binary_lib \<Rightarrow> u32 set \<Rightarrow> u32 set \<Rightarrow> bool \<times> bytes \<Rightarrow> bool" where
  "srtp_message B W V = (\<lambda>(rtcp, d).
     if rtcp then length d \<ge> 8 \<and> 128 \<le> d ! 0 \<and> d ! 0 \<le> 191
     else \<not> srtp_type d \<and> (\<exists>p. rtp_parse B d = Some (Some p) \<and> rp_ssrc p \<in> W \<and> (rp_padding p = 0 \<or> rp_ssrc p \<in> V)))"

definition srtp_outcome :: "bool \<times> bytes \<Rightarrow> bytes \<Rightarrow> bytes option" where
  "srtp_outcome = (\<lambda>(rtcp, d) e. if e = [] \<or> rtcp \<and> \<not> srtp_type d then None else Some d)"

text \<open>
  SRTCP packets carry their index, so an end stays in step when one is lost, and a packet that fails
  authentication changes nothing that matters.
\<close>

definition rtcp_loss_law :: "'s srtp_lib \<Rightarrow> ('s \<Rightarrow> 's \<Rightarrow> bool) \<Rightarrow> bool" where
  "rtcp_loss_law S J \<longleftrightarrow>
     (\<forall>s r d cap e s'. J s r \<and> sl_protect_rtcp S s d cap = (Some e, s') \<longrightarrow>
        J s' r \<and> (\<forall>x r'. sl_unprotect S r e (length e) = (x, r') \<longrightarrow> J s' r'))"

definition srtp_open :: "binary_lib \<Rightarrow> 's srtp_lib \<Rightarrow> ('s \<Rightarrow> 's \<Rightarrow> bool) \<Rightarrow> u32 set \<Rightarrow> u32 set \<Rightarrow> 's srtp_transport \<Rightarrow> 's srtp_transport \<Rightarrow> bool" where
  "srtp_open B S J W V a b \<longleftrightarrow> srtp_joined B S J W a b \<and> V \<subseteq> st_active b \<and> rtcp_loss_law S J"

text \<open>What the reader of the first bytes sees of a protected packet.\<close>

lemma protected_nth: "protected_from h d e \<Longrightarrow> i < h \<Longrightarrow> i < length d \<Longrightarrow> e ! i = d ! i \<and> i < length e"
  unfolding protected_from_def by (metis nth_take order_less_le_trans)

lemma rtp_version_bits:
  fixes w :: u8
  assumes "drop_bit 6 w = 2" shows "128 \<le> w" "w \<le> 191" "w AND 0xC0 = 0x80"
proof -
  have "unat w div 64 = 2" using arg_cong [OF assms, of unat] by (simp add: unat_drop_bit_eq drop_bit_nat_def)
  then have "128 \<le> unat w" "unat w \<le> 191" by linarith+
  then show "128 \<le> w" "w \<le> 191" by (simp_all add: word_le_nat_alt)
  have "bit (drop_bit 6 w) 0 = bit (2 :: u8) 0" "bit (drop_bit 6 w) 1 = bit (2 :: u8) 1" using assms by simp_all
  then have "\<not> bit w 6" "bit w 7" by (simp_all add: bit_simps bit_numeral_rec)
  then show "w AND 0xC0 = 0x80" by (intro u8_eqI) (simp_all add: bit_simps bit_numeral_rec)
qed

lemma rtp_parse_first:
  assumes "rtp_parse B d = Some (Some p)"
  shows "12 \<le> length d" "drop_bit 6 (d ! 0) = 2" "rtp_get_ssrc B d = Some (rp_ssrc p)"
proof -
  show l: "12 \<le> length d" "drop_bit 6 (d ! 0) = 2"
    using assms by (auto simp: rtp_parse_def is_rtp_packet_def rd8_def split: if_splits)
  then show "rtp_get_ssrc B d = Some (rp_ssrc p)"
    using assms by (auto simp: rtp_parse_def is_rtp_packet_def rd8_def rtp_get_ssrc_def bind_eq_Some_conv Let_def split: option.splits if_splits)
qed

lemma protected_ssrc:
  assumes "protected_from 12 d e" "12 \<le> length d"
  shows "rtp_get_ssrc B e = rtp_get_ssrc B d"
proof -
  have "take 4 (drop 8 e) = take 4 (drop 8 d)"
    using assms(1) by (simp add: protected_from_def take_drop)
  then show ?thesis using assms by (auto simp: rtp_get_ssrc_def at_defs rd_bytes_def protected_from_def)
qed

lemma rtp_version_of:
  assumes "e ! 0 = d ! 0" "drop_bit 6 (d ! 0) = (2 :: u8)"
  shows "128 \<le> e ! 0" "e ! 0 \<le> 191" "e ! 0 AND 0xC0 = 0x80"
  using rtp_version_bits [OF assms(2)] assms(1) by simp_all

lemma rtp_received_open:
  assumes j: "srtp_joined B S J W a b" and ty: "\<not> srtp_type d"
    and p: "rtp_parse B d = Some (Some p)" "rp_ssrc p \<in> W" "rp_padding p = 0 \<or> rp_ssrc p \<in> st_active b"
  shows "\<exists>e a' b'. protect_rtp S d cap a = Some (e, a') \<and> srtp_recv B S e b = Some (if e = [] then None else Some d, b')
    \<and> srtp_joined B S J W a' b' \<and> st_active b \<subseteq> st_active b'"
proof -
  obtain s r where sr: "st_send a = Some s" "st_recv b = Some r" "J s r" using j by (auto simp: srtp_joined_def)
  have law: "rtp_law B S J s r d cap" using j sr(3) srtp_lib_laws(1) by (auto simp: srtp_joined_def)
  obtain x s' where e: "sl_protect S s d cap = (x, s')" by fastforce
  show ?thesis
  proof (cases x)
    case None
    then show ?thesis using law j sr e
      by (auto simp: rtp_law_def protect_rtp_def srtp_recv_def datagram_received_def srtp_joined_def)
  next
    case (Some e1)
    then obtain r' where l: "protected_from 12 d e1" "sl_unprotect S r e1 (length e1) = (Some d, r')" "J s' r'"
      "rp_padding p = 0 \<Longrightarrow> \<exists>q. rtp_parse B e1 = Some (Some q)"
      using law e p(1) by (auto simp: rtp_law_def)
    note d = rtp_parse_first [OF p(1)]
    have "d \<noteq> []" using d(1) by auto
    then have n: "e1 ! 0 = d ! 0" "e1 ! 1 = d ! 1" "12 \<le> length e1"
      using protected_nth [OF l(1), of 0] protected_nth [OF l(1), of 1] d(1) l(1) by (simp_all add: protected_from_def)
    have ssrc: "rtp_get_ssrc B e1 = Some (rp_ssrc p)" using protected_ssrc [OF l(1) d(1)] d(3) by simp
    note v = rtp_version_of [OF n(1) d(2)]
    have room: "rp_ssrc p \<in> st_active b \<or> card (st_active b) < MAX_ACTIVE_SSRCS"
    proof (cases "rp_ssrc p \<in> st_active b")
      case False
      then have "st_active b \<subset> W" using j p(2) by (auto simp: srtp_joined_def)
      moreover have "finite W" "card W \<le> MAX_ACTIVE_SSRCS" using j by (simp_all add: srtp_joined_def)
      ultimately show ?thesis using psubset_card_mono [of W "st_active b"] by linarith
    qed simp
    have ne: "e1 \<noteq> []" "d \<noteq> []" using n(3) d(1) by auto
    have rtcp: "srtp_is_rtcp e1 = Some False" using n ty by (auto simp: srtp_is_rtcp_def rd8_def srtp_type_def)
    have "rp_ssrc p \<in> st_active b \<or> (\<exists>q. rtp_parse B e1 = Some (Some q))" using p(3) l(4) by blast
    then have "rtp_received B S (Some (do_on_new_ssrc B None)) e1 b
        = Some (True, Some d, b\<lparr>st_active := insert (rp_ssrc p) (st_active b), st_recv := Some r'\<rparr>)"
      using n(3) v(3) ssrc room ne
      by (auto simp: rtp_received_def rd8_def do_on_new_ssrc_def l(2) unprotect_rtp_def sr(2) Let_def not_le)
    then have "srtp_recv B S e1 b = Some (Some d, b\<lparr>st_active := insert (rp_ssrc p) (st_active b), st_recv := Some r'\<rparr>)"
      using n(3) v(1,2) rtcp ne by (auto simp: srtp_recv_def datagram_received_def rd8_def sr(2) not_less)
    moreover have "protect_rtp S d cap a = Some (e1, a\<lparr>st_send := Some s'\<rparr>)" by (simp add: protect_rtp_def sr(1) e Some)
    ultimately show ?thesis using ne(1) j l(3) p(2) by (auto simp: srtp_joined_def)
  qed
qed

lemma rtp_received_joined:
  assumes "srtp_joined B S J W a b" "srtp_fits B W (False, d)"
  shows "\<exists>e a' p b'. protect_rtp S d cap a = Some (e, a') \<and> srtp_recv B S e b = Some (p, b')
    \<and> p = (if e = [] then None else Some d) \<and> srtp_joined B S J W a' b'"
proof -
  obtain p where p: "rtp_parse B d = Some (Some p)" "rp_ssrc p \<in> W" "rp_padding p = 0" "\<not> srtp_type d"
    using assms(2) by (auto simp: srtp_fits_def srtp_type_def)
  from rtp_received_open [OF assms(1) p(4,1,2) disjI1 [OF p(3)], of cap] show ?thesis
    by (elim exE conjE) (intro exI conjI, assumption+, rule refl, assumption)
qed

lemma rtcp_received_joined:
  assumes j: "srtp_joined B S J W a b" and f: "srtp_fits B W (True, d)"
  shows "\<exists>e a' b'. protect_rtcp S d cap a = Some (e, a') \<and> srtp_recv B S e b = Some (if e = [] then None else Some d, b')
    \<and> srtp_joined B S J W a' b' \<and> st_active b' = st_active b"
proof -
  obtain s r where sr: "st_send a = Some s" "st_recv b = Some r" "J s r" using j by (auto simp: srtp_joined_def)
  have d: "8 \<le> length d" "128 \<le> d ! 0" "d ! 0 \<le> 191" "200 \<le> d ! 1" "d ! 1 \<le> 204" using f by (auto simp: srtp_fits_def)
  have law: "rtcp_law S J s r d cap" using j sr(3) srtp_lib_laws(2) by (auto simp: srtp_joined_def)
  obtain x s' where e: "sl_protect_rtcp S s d cap = (x, s')" by fastforce
  show ?thesis
  proof (cases x)
    case None
    then show ?thesis using law j sr e
      by (auto simp: rtcp_law_def protect_rtcp_def srtp_recv_def datagram_received_def srtp_joined_def)
  next
    case (Some e1)
    then obtain r' where l: "protected_from 8 d e1" "sl_unprotect_rtcp S r e1 (length e1) = (Some d, r')" "J s' r'"
      using law e by (auto simp: rtcp_law_def)
    have ne: "e1 \<noteq> []" "d \<noteq> []" using d(1) l(1) by (auto simp: protected_from_def)
    have n: "e1 ! 0 = d ! 0" "e1 ! 1 = d ! 1" "8 \<le> length e1"
      using protected_nth [OF l(1), of 0] protected_nth [OF l(1), of 1] d(1) l(1) ne by (simp_all add: protected_from_def)
    have "srtp_recv B S e1 b = Some (Some d, b\<lparr>st_recv := Some r'\<rparr>)"
      using n d ne by (auto simp: srtp_recv_def datagram_received_def rd8_def sr(2) srtp_is_rtcp_def rtcp_received_def
          unprotect_rtcp_def l(2) not_less)
    moreover have "protect_rtcp S d cap a = Some (e1, a\<lparr>st_send := Some s'\<rparr>)" by (simp add: protect_rtcp_def sr(1) e Some)
    ultimately show ?thesis using ne(1) j l(3) by (auto simp: srtp_joined_def)
  qed
qed

interpretation srtp: packet_channel "srtp_send S cap" "srtp_recv B S" "srtp_fits B W" srtp_good "srtp_joined B S J W"
  for S cap B W J
proof
  fix a b and m :: "bool \<times> bytes"
  assume j: "srtp_joined B S J W a b" and f: "srtp_fits B W m"
  obtain rtcp d where m: "m = (rtcp, d)" by (cases m)
  show "\<exists>e a' p b'. srtp_send S cap m a = Some (e, a') \<and> srtp_recv B S e b = Some (p, b') \<and> srtp_good m (e, p)
      \<and> srtp_joined B S J W a' b'"
  proof (cases rtcp)
    case True
    then have "srtp_fits B W (True, d)" using f m by simp
    from rtcp_received_joined [OF j this, of cap] show ?thesis
      by (elim exE conjE) (intro exI conjI, simp_all add: m True srtp_send_def srtp_good_def)
  next
    case False
    then have "srtp_fits B W (False, d)" using f m by simp
    from rtp_received_joined [OF j this, of cap] show ?thesis
      by (elim exE conjE) (intro exI conjI, simp_all add: m False srtp_send_def srtp_good_def)
  qed
qed

text \<open>RTCP of another type: the other end takes it for RTP, and refuses it.\<close>

lemma rtcp_refused:
  assumes j: "srtp_joined B S J W a b" and c: "rtcp_loss_law S J" and d: "8 \<le> length d" "\<not> srtp_type d"
  shows "\<exists>e a' b'. protect_rtcp S d cap a = Some (e, a') \<and> srtp_recv B S e b = Some (None, b')
    \<and> srtp_joined B S J W a' b' \<and> st_active b' = st_active b"
proof -
  obtain s r where sr: "st_send a = Some s" "st_recv b = Some r" "J s r" using j by (auto simp: srtp_joined_def)
  have law: "rtcp_law S J s r d cap" using j sr(3) srtp_lib_laws(2) by (auto simp: srtp_joined_def)
  obtain x s' where e: "sl_protect_rtcp S s d cap = (x, s')" by fastforce
  show ?thesis
  proof (cases x)
    case None
    then show ?thesis using law j sr e
      by (auto simp: rtcp_law_def protect_rtcp_def srtp_recv_def datagram_received_def srtp_joined_def)
  next
    case (Some e1)
    then have l1: "protected_from 8 d e1" "fst (sl_unprotect S r e1 (length e1)) = None" using law e by (auto simp: rtcp_law_def)
    then obtain r' where l2: "sl_unprotect S r e1 (length e1) = (None, r')" by (metis prod.collapse)
    then have "J s' r" "J s' r'" using c sr(3) e Some unfolding rtcp_loss_law_def by blast+
    note l = l1(1) l2 this
    have n: "e1 ! 1 = d ! 1" "8 \<le> length e1" using protected_nth [OF l(1), of 1] d(1) l(1) by (simp_all add: protected_from_def)
    then have ne: "e1 \<noteq> []" by auto
    have rtcp: "srtp_is_rtcp e1 = Some False" using n d(2) by (auto simp: srtp_is_rtcp_def rd8_def srtp_type_def)
    have f: "rd8 e1 0 = Some (e1 ! 0)" using ne by (simp add: rd8_def)
    have "\<exists>h b'. rtp_received B S cb e1 b = Some (h, None, b') \<and> (b' = b \<or> b' = b\<lparr>st_recv := Some r'\<rparr>)" for cb
    proof (cases "length e1 < 12")
      case False
      then obtain ssrc where "rtp_get_ssrc B e1 = Some ssrc" by (auto simp: rtp_get_ssrc_def at_defs rd_bytes_def)
      then show ?thesis using f by (auto simp: rtp_received_def unprotect_rtp_def sr(2) l(2) Let_def insert_absorb)
    qed (auto simp: rtp_received_def f)
    then obtain h b' where "rtp_received B S (Some (do_on_new_ssrc B None)) e1 b = Some (h, None, b')" "b' = b \<or> b' = b\<lparr>st_recv := Some r'\<rparr>"
      by blast
    then have "\<exists>b'. srtp_recv B S e1 b = Some (None, b') \<and> (b' = b \<or> b' = b\<lparr>st_recv := Some r'\<rparr>)"
      using n(2) f rtcp by (auto simp: srtp_recv_def datagram_received_def sr(2))
    moreover have "protect_rtcp S d cap a = Some (e1, a\<lparr>st_send := Some s'\<rparr>)" by (simp add: protect_rtcp_def sr(1) e Some)
    ultimately show ?thesis using j l(3,4) sr(2) by (auto simp: srtp_joined_def)
  qed
qed

interpretation srtp_all: packet_channel "srtp_send S cap" "srtp_recv B S" "srtp_message B W V"
    "\<lambda>m (e, r). r = srtp_outcome m e" "srtp_open B S J W V"
  for S cap B W V J
proof
  fix a b and m :: "bool \<times> bytes"
  assume o: "srtp_open B S J W V a b" and f: "srtp_message B W V m"
  obtain rtcp d where m: "m = (rtcp, d)" by (cases m)
  note j = o [unfolded srtp_open_def, THEN conjunct1] and c = o [unfolded srtp_open_def, THEN conjunct2, THEN conjunct2]
  have V: "V \<subseteq> st_active b" using o by (simp add: srtp_open_def)
  have "\<exists>e a' b'. srtp_send S cap m a = Some (e, a') \<and> srtp_recv B S e b = Some (srtp_outcome m e, b')
      \<and> srtp_joined B S J W a' b' \<and> st_active b \<subseteq> st_active b'"
  proof (cases rtcp)
    case False
    then obtain p where "rtp_parse B d = Some (Some p)" "rp_ssrc p \<in> W" "rp_padding p = 0 \<or> rp_ssrc p \<in> st_active b" "\<not> srtp_type d"
      using f V by (auto simp: m srtp_message_def)
    from rtp_received_open [OF j this(4,1-3), of cap] obtain e a' b' where "protect_rtp S d cap a = Some (e, a')"
      "srtp_recv B S e b = Some (if e = [] then None else Some d, b')" "srtp_joined B S J W a' b'" "st_active b \<subseteq> st_active b'"
      by (elim exE conjE) (rule that)
    then show ?thesis using False
      by (intro exI [of _ e] exI [of _ a'] exI [of _ b']) (simp add: m srtp_send_def srtp_outcome_def)
  next
    case True
    then have d: "8 \<le> length d" "128 \<le> d ! 0" "d ! 0 \<le> 191" using f by (simp_all add: m srtp_message_def)
    show ?thesis
    proof (cases "srtp_type d")
      case t: True
      then have "srtp_fits B W (True, d)" using d by (simp add: srtp_fits_def srtp_type_def)
      from rtcp_received_joined [OF j this, of cap] obtain e a' b' where "protect_rtcp S d cap a = Some (e, a')"
        "srtp_recv B S e b = Some (if e = [] then None else Some d, b')" "srtp_joined B S J W a' b'" "st_active b' = st_active b"
        by (elim exE conjE) (rule that)
      then show ?thesis using t True
        by (intro exI [of _ e] exI [of _ a'] exI [of _ b']) (simp add: m srtp_send_def srtp_outcome_def)
    next
      case False
      from rtcp_refused [OF j c d(1) False, of cap] True False show ?thesis
        by (simp add: m srtp_send_def srtp_outcome_def) blast
    qed
  qed
  then show "\<exists>e a' p b'. srtp_send S cap m a = Some (e, a') \<and> srtp_recv B S e b = Some (p, b')
      \<and> (case (e, p) of (e, r) \<Rightarrow> r = srtp_outcome m e) \<and> srtp_open B S J W V a' b'"
    using V c unfolding srtp_open_def by auto
qed

section \<open>Properties\<close>

fun other_role :: "srtp_role \<Rightarrow> srtp_role" where
  "other_role srtp_client = srtp_server"
| "other_role srtp_server = srtp_client"

lemma setup_joined:
  assumes "srtp_setup S keys role a0 = (a, None)" "srtp_setup S keys (other_role role) b0 = (b, None)"
    and "srtp_lib_ok B S J" "finite W" "card W \<le> MAX_ACTIVE_SSRCS" "st_active b0 \<subseteq> W"
  shows "srtp_joined B S J W a b"
proof -
  have c: "sl_create S k sa pf True = Some s \<Longrightarrow> sl_create S k sa pf False = Some r \<Longrightarrow> J s r" for k sa pf s r
    using assms(3) by (auto simp: srtp_lib_ok_def)
  show ?thesis
    using assms(1,2,4-6) c
    by (cases role) (auto simp: srtp_joined_def assms(3) srtp_setup_def create_session_def Let_def split: option.splits)
qed

lemma setup_active: "srtp_setup S keys role t = (t', e) \<Longrightarrow> st_active t' = st_active t"
  by (auto simp: srtp_setup_def Let_def split: option.splits sum.splits)

text \<open>
  C9: What comes out of the transport. Two ends are set up with the keys of one handshake in opposite
  roles, whatever the direction, and one end protects messages one after the other: RTP packets of at
  most 32 sources, the padded ones only of sources that the other end has taken already, none with a
  second byte of 200 to 204, and RTCP packets of any type. Of the messages that could be protected, the
  other end hands on the RTP packets and the RTCP packets of the types 200 to 204, unchanged and in their
  order, and none of the RTCP packets of other types, the feedback of this library among them.
\<close>
theorem srtp_transparent:
  assumes "srtp_lib_ok B S J" "rtcp_loss_law S J"
    and "srtp_setup S keys role a0 = (a, None)" "srtp_setup S keys (other_role role) b0 = (b, None)"
    and "finite W" "card W \<le> MAX_ACTIVE_SSRCS" "st_active b0 \<subseteq> W" "list_all (srtp_message B W (st_active b0)) ms"
  shows "\<exists>ps a' b'. transfer (srtp_send S cap) (srtp_recv B S) ms a b = Some (ps, a', b') \<and> length ps = length ms
    \<and> map snd ps = map (\<lambda>((rtcp, d), (e, _)). if e = [] \<or> rtcp \<and> \<not> (200 \<le> d ! 1 \<and> d ! 1 \<le> 204) then None else Some d) (zip ms ps)"
proof -
  have "srtp_joined B S J W a b" using assms(1,3-7) by (intro setup_joined)
  then have "srtp_open B S J W (st_active b0) a b"
    using assms(2) setup_active [OF assms(4)] by (simp add: srtp_open_def)
  from srtp_all.all_arrive [OF this assms(8), of cap] obtain ps a' b' where
    r: "transfer (srtp_send S cap) (srtp_recv B S) ms a b = Some (ps, a', b')"
      "list_all2 (\<lambda>m (e, r). r = srtp_outcome m e) ms ps" by blast
  have "map snd ps = map (\<lambda>((rtcp, d), (e, _)). if e = [] \<or> rtcp \<and> \<not> (200 \<le> d ! 1 \<and> d ! 1 \<le> 204) then None else Some d) (zip ms ps)"
    using r(2) by (induction rule: list_all2_induct) (auto simp: srtp_outcome_def srtp_type_def)
  then show ?thesis using r list_all2_lengthD [OF r(2)] by auto
qed

text \<open>What happens at a receiving transport: datagrams, and sources that the connection gives up.\<close>

datatype srtp_event = Datagram bytes | Removed u32

text \<open>The run keeps the datagrams whose packets were handed on.\<close>

fun srtp_run ::
  "binary_lib \<Rightarrow> 's srtp_lib \<Rightarrow> (u32 \<Rightarrow> bytes \<Rightarrow> bool) option \<Rightarrow> srtp_event list \<Rightarrow> 's srtp_transport
   \<Rightarrow> (bytes list \<times> 's srtp_transport) option" where
  "srtp_run B S cb [] t = Some ([], t)"
| "srtp_run B S cb (Datagram d # es) t = do {
     (_, p, t) \<leftarrow> datagram_received B S cb d t;
     (log, t) \<leftarrow> srtp_run B S cb es t;
     Some (if p = None then log else d # log, t) }"
| "srtp_run B S cb (Removed ssrc # es) t = srtp_run B S cb es (remove_incoming_ssrc S ssrc t)"

text \<open>
  What admits a source: a datagram with its SSRC that the callback consents to, and that the cipher takes
  for authentic.
\<close>

definition admitted :: "binary_lib \<Rightarrow> 's srtp_lib \<Rightarrow> (u32 \<Rightarrow> bytes \<Rightarrow> bool) option \<Rightarrow> u32 \<Rightarrow> bytes \<Rightarrow> bool" where
  "admitted B S cb ssrc d \<longleftrightarrow>
     rtp_get_ssrc B d = Some ssrc \<and> (\<exists>f. cb = Some f \<and> f ssrc d)
     \<and> (\<exists>s. fst (sl_unprotect S s d (length d)) \<noteq> None)"

lemma datagram_received_active:
  assumes "card (st_active t) \<le> MAX_ACTIVE_SSRCS"
  shows "\<exists>h p t'. datagram_received B S cb d t = Some (h, p, t') \<and> card (st_active t') \<le> MAX_ACTIVE_SSRCS
    \<and> (\<forall>ssrc \<in> st_active t' - st_active t. p \<noteq> None \<and> admitted B S cb ssrc d)"
proof -
  have u: "\<exists>r s. unprotect_rtp S d n x = Some (r, x\<lparr>st_recv := s\<rparr>) \<and> (r \<noteq> [] \<longrightarrow> (\<exists>z. fst (sl_unprotect S z d n) \<noteq> None))"
    if r: "st_recv x \<noteq> None" for n x
  proof -
    obtain z where "st_recv x = Some z" using r by blast
    then show ?thesis
      by (cases "sl_unprotect S z d n"; cases "fst (sl_unprotect S z d n)") (auto simp: unprotect_rtp_def intro!: exI [of _ z])
  qed
  have rtcp: "\<exists>p t'. rtcp_received S d t = Some (True, p, t') \<and> st_active t' = st_active t" if "st_recv t \<noteq> None"
    using that by (cases "st_recv t") (auto simp: rtcp_received_def unprotect_rtcp_def split: prod.split)
  have rtp: "\<exists>h p t'. rtp_received B S cb d t = Some (h, p, t') \<and> card (st_active t') \<le> MAX_ACTIVE_SSRCS
    \<and> (\<forall>ssrc \<in> st_active t' - st_active t. p \<noteq> None \<and> admitted B S cb ssrc d)"
    if recv: "st_recv t \<noteq> None" and len: "\<not> length d < 8"
  proof -
    obtain first where f: "rd8 d 0 = Some first" using len by (cases d) (auto simp: rd8_def)
    show ?thesis
    proof (cases "length d < 12 \<or> first AND 0xC0 \<noteq> 0x80")
      case True
      then show ?thesis using assms f by (auto simp: rtp_received_def)
    next
      case False
      then obtain ssrc where ssrc: "rtp_get_ssrc B d = Some ssrc" by (auto simp: rtp_get_ssrc_def at_defs rd_bytes_def)
      let ?accept = "case cb of None \<Rightarrow> False | Some f \<Rightarrow> f ssrc d"
      show ?thesis
      proof (cases "ssrc \<in> st_active t \<or> (card (st_active t) < MAX_ACTIVE_SSRCS \<and> ?accept)")
        case False
        then show ?thesis using assms f \<open>\<not> (length d < 12 \<or> first AND 0xC0 \<noteq> 0x80)\<close> ssrc
          by (auto simp: rtp_received_def Let_def not_less)
      next
        case True
        obtain r s where r: "unprotect_rtp S d (length d) (t\<lparr>st_active := insert ssrc (st_active t)\<rparr>)
            = Some (r, t\<lparr>st_active := insert ssrc (st_active t), st_recv := s\<rparr>)"
          "r \<noteq> [] \<Longrightarrow> \<exists>z. fst (sl_unprotect S z d (length d)) \<noteq> None"
          using u [of "t\<lparr>st_active := insert ssrc (st_active t)\<rparr>" "length d"] recv by fastforce
        have "ssrc \<in> st_active t \<or> (\<exists>g. cb = Some g \<and> g ssrc d)" using True by (auto split: option.splits)
        then have "r \<noteq> [] \<Longrightarrow> ssrc \<notin> st_active t \<Longrightarrow> admitted B S cb ssrc d" using ssrc r(2) by (simp add: admitted_def)
        moreover have "card (insert ssrc (st_active t)) \<le> MAX_ACTIVE_SSRCS"
          using True assms card_insert_le_m1 [of "Suc (card (st_active t))" "st_active t" ssrc] by (auto simp: insert_absorb)
        ultimately show ?thesis using assms f \<open>\<not> (length d < 12 \<or> first AND 0xC0 \<noteq> 0x80)\<close> ssrc r(1) True
          by (auto simp: rtp_received_def Let_def insert_absorb)
      qed
    qed
  qed
  show ?thesis
  proof (cases "length d < 8")
    case True
    then show ?thesis using assms by (auto simp: datagram_received_def)
  next
    case False
    then have "rd8 d 0 = Some (d ! 0)" "rd8 d 1 = Some (d ! 1)" by (intro rd8_Some, linarith)+
    then obtain first b where f: "rd8 d 0 = Some first" "srtp_is_rtcp d = Some b"
      using False by (simp add: srtp_is_rtcp_def)
    consider "first < 128 \<or> first > 191" | "\<not> (first < 128 \<or> first > 191)" "st_recv t = None"
      | "\<not> (first < 128 \<or> first > 191)" "st_recv t \<noteq> None" by blast
    then show ?thesis
    proof cases
      case 3
      then show ?thesis using f False rtcp [OF 3(2)] rtp [OF 3(2) False] assms
        by (cases b) (auto simp: datagram_received_def)
    qed (use f False assms in \<open>auto simp: datagram_received_def\<close>)
  qed
qed

text \<open>
  C13: Admission of sources. Whatever arrives at a transport with no source yet, and whatever its callback
  admits, processing it is defined, and at most 32 sources are active at any time. Each of them has sent
  a packet that was handed on, to which the callback had consented, and which the cipher found authentic;
  without a callback there is no source.
\<close>
theorem srtp_admission:
  assumes "st_active t = {}"
  shows "\<exists>log t'. srtp_run B S cb es t = Some (log, t') \<and> card (st_active t') \<le> 32
    \<and> (\<forall>ssrc \<in> st_active t'. \<exists>d \<in> set log. rtp_get_ssrc B d = Some ssrc \<and> (\<exists>f. cb = Some f \<and> f ssrc d)
         \<and> (\<exists>s. fst (sl_unprotect S s d (length d)) \<noteq> None))"
proof -
  have "\<exists>log t'. srtp_run B S cb es t = Some (log, t') \<and> card (st_active t') \<le> MAX_ACTIVE_SSRCS
    \<and> (\<forall>ssrc \<in> st_active t' - st_active t. \<exists>d \<in> set log. admitted B S cb ssrc d)"
    if "card (st_active t) \<le> MAX_ACTIVE_SSRCS" for t
    using that
  proof (induction es arbitrary: t)
    case (Cons e es)
    show ?case
    proof (cases e)
      case (Datagram d)
      from datagram_received_active [OF Cons.prems, of B S cb d] obtain h p t1 where
        1: "datagram_received B S cb d t = Some (h, p, t1)" "card (st_active t1) \<le> MAX_ACTIVE_SSRCS"
        "\<forall>ssrc \<in> st_active t1 - st_active t. p \<noteq> None \<and> admitted B S cb ssrc d" by (elim exE conjE) (rule that)
      from Cons.IH [OF 1(2)] obtain log t2 where
        "srtp_run B S cb es t1 = Some (log, t2)" "card (st_active t2) \<le> MAX_ACTIVE_SSRCS"
        "\<forall>ssrc \<in> st_active t2 - st_active t1. \<exists>d \<in> set log. admitted B S cb ssrc d" by blast
      then show ?thesis using 1 Datagram by (cases p) (simp_all, blast+)
    next
      case (Removed ssrc)
      have "card (st_active t - {ssrc}) \<le> MAX_ACTIVE_SSRCS" using Cons.prems card_Diff1_le [of "st_active t" ssrc] by linarith
      with Cons.IH [of "remove_incoming_ssrc S ssrc t"] Removed show ?thesis
        by (fastforce simp: remove_incoming_ssrc_def)
    qed
  qed simp
  from this [of t] assms show ?thesis by (simp add: MAX_ACTIVE_SSRCS_def admitted_def)
qed

text \<open>
  C14: The feedback of this library does not pass its own transport. Retransmission requests and the other
  RTP feedback (type 205), and payload-specific feedback (206), are protected as RTCP but are not taken
  for RTCP at the other end: they are unprotected as RTP, fail, and are dropped; no source is admitted.
\<close>
theorem feedback_is_refused:
  assumes "big_endian B" "srtp_joined B S J W a b" "protect_rtcp S d cap a = Some (e, a')"
    and "d = rtpfb_bytes B fb \<or> d = psfb_bytes B ps"
  shows "\<exists>h b'. datagram_received B S cb e b = Some (h, None, b') \<and> st_active b' = st_active b"
proof -
  obtain s r where sr: "st_send a = Some s" "st_recv b = Some r" "J s r" "srtp_lib_ok B S J"
    using assms(2) by (auto simp: srtp_joined_def)
  have law: "rtcp_law S J s r d cap" using sr(4,3) by (rule srtp_lib_laws(2))
  have d: "12 \<le> length d" "d ! 1 = pt_RTPFB \<or> d ! 1 = pt_PSFB"
  proof -
    have "12 \<le> length (rtpfb_bytes B fb) \<and> rtpfb_bytes B fb ! 1 = pt_RTPFB"
      using assms(1) by (simp add: rtpfb_bytes_def Let_def be_simps)
    moreover have "12 \<le> length (psfb_bytes B ps) \<and> psfb_bytes B ps ! 1 = pt_PSFB"
      using assms(1) by (simp add: psfb_bytes_def Let_def be_simps)
    ultimately show "12 \<le> length d" "d ! 1 = pt_RTPFB \<or> d ! 1 = pt_PSFB" using assms(4) by auto
  qed
  show ?thesis
  proof (cases "fst (sl_protect_rtcp S s d cap)")
    case None
    then have "e = []" using assms(3) by (auto simp: protect_rtcp_def sr(1) split: prod.splits)
    then show ?thesis by (auto simp: datagram_received_def)
  next
    case (Some e1)
    then obtain s' where p: "sl_protect_rtcp S s d cap = (Some e1, s')" by (metis prod.collapse)
    then have e: "e1 = e" using assms(3) by (simp add: protect_rtcp_def sr(1))
    have l: "protected_from 8 d e" "fst (sl_unprotect S r e (length e)) = None"
      using law p e by (auto simp: rtcp_law_def)
    then obtain r' where u: "sl_unprotect S r e (length e) = (None, r')" by (metis prod.collapse)
    have "e ! 1 = d ! 1" "12 \<le> length e" using protected_nth [OF l(1), of 1] d(1) l(1) by (auto simp: protected_from_def)
    then have "srtp_is_rtcp e = Some False" "12 \<le> length e" "rd8 e 0 = Some (e ! 0)"
      using d(2) by (auto simp: srtp_is_rtcp_def rd8_def)
    then show ?thesis
      by (auto simp: datagram_received_def sr(2) rtp_received_def unprotect_rtp_def u Let_def insert_absorb
          rtp_get_ssrc_def at_defs rd_bytes_def)
  qed
qed

text \<open>A remote description whose lines all end with CR LF, or all with LF, is read line by line.\<close>

definition plain_line :: "string \<Rightarrow> bool" where
  "plain_line l \<longleftrightarrow> CHR 0x0D \<notin> set l \<and> CHR 0x0A \<notin> set l"

lemma str_find_behind:
  assumes "c \<notin> set l" shows "str_find (c # cs) (l @ (c # cs) @ r) = Some (length l)"
  using assms
proof (induction l)
  case (Cons a l)
  then show ?case by (subst str_find.simps) auto
qed (simp add: str_find.simps)

lemma str_find_absent: "c \<notin> set s \<Longrightarrow> str_find (c # cs) s = None"
proof (induction s)
  case (Cons a s)
  then show ?case by (subst str_find.simps) auto
qed (simp add: str_find.simps)

lemma next_line_crlf:
  assumes "plain_line l" shows "next_line (l @ crlf @ r) = (l, r)"
proof -
  have "line_end (l @ crlf @ r) = Some (length l)"
    using assms str_find_behind [of "CHR 0x0D" l "[CHR 0x0A]" r] by (simp add: line_end_def crlf_def plain_line_def)
  then show ?thesis by (simp add: next_line_def crlf_def Let_def)
qed

lemma next_line_lf:
  assumes "plain_line l" "CHR 0x0D \<notin> set r" shows "next_line (l @ [CHR 0x0A] @ r) = (l, r)"
proof -
  have "line_end (l @ [CHR 0x0A] @ r) = Some (length l)"
    using assms str_find_behind [of "CHR 0x0A" l "[]" r] str_find_absent [of "CHR 0x0D" "l @ [CHR 0x0A] @ r" "[CHR 0x0A]"]
    by (simp add: line_end_def crlf_def plain_line_def)
  then show ?thesis by (simp add: next_line_def Let_def)
qed

text \<open>
  The brief reader sees the lines of a description: when every line ends with CR LF, or every line
  with LF, it takes each line in turn, whatever the lines hold; the last value of an attribute counts
  and the candidates keep their order.
\<close>
theorem parse_remote_sdp_lines:
  assumes "list_all plain_line ls" "sep = crlf \<or> sep = [CHR 0x0A]"
  shows "parse_remote_sdp (concat (map (\<lambda>l. l @ sep) ls)) = fold remote_sdp_line ls remote_sdp_empty"
proof -
  have cr: "sep = crlf \<or> CHR 0x0D \<notin> set (concat (map (\<lambda>l. l @ sep) ls))" if "list_all plain_line ls" for ls
    using that assms(2) by (auto simp: list_all_iff plain_line_def)
  have "remote_sdp_lines (concat (map (\<lambda>l. l @ sep) ls)) d = fold remote_sdp_line ls d" for d
    using assms(1)
  proof (induction ls arbitrary: d)
    case (Cons l ls)
    let ?r = "concat (map (\<lambda>l. l @ sep) ls)"
    have "next_line (l @ sep @ ?r) = (l, ?r)"
      using Cons.prems assms(2) cr [of ls] next_line_crlf [of l ?r] next_line_lf [of l ?r] by auto
    moreover have "sep \<noteq> []" using assms(2) by (auto simp: crlf_def)
    ultimately show ?case using Cons by (subst remote_sdp_lines.simps) simp
  qed (simp add: remote_sdp_lines.simps)
  then show ?thesis by (simp add: parse_remote_sdp_def)
qed

section \<open>A cipher that keeps the promises\<close>

text \<open>A cipher that marks SRTP packets with a trailing 0 and SRTCP packets with a trailing 1.\<close>

definition tag_protect :: "nat \<Rightarrow> u8 \<Rightarrow> unit \<Rightarrow> bytes \<Rightarrow> nat \<Rightarrow> bytes option \<times> unit" where
  "tag_protect h x s d cap = (if h \<le> length d \<and> length d < cap then Some (d @ [x]) else None, ())"

definition tag_unprotect :: "u8 \<Rightarrow> unit \<Rightarrow> bytes \<Rightarrow> nat \<Rightarrow> bytes option \<times> unit" where
  "tag_unprotect x s e cap = (if e \<noteq> [] \<and> last e = x then Some (butlast e) else None, ())"

definition tag_lib :: "unit srtp_lib" where
  "tag_lib = \<lparr>sl_create = (\<lambda>_ _ _ _. Some ()), sl_protect = tag_protect 12 0, sl_unprotect = tag_unprotect 0,
     sl_protect_rtcp = tag_protect 8 1, sl_unprotect_rtcp = tag_unprotect 1, sl_stream_remove = (\<lambda>s _. s)\<rparr>"

lemma rtp_parse_longer:
  assumes "big_endian B" "rtp_parse B d = Some (Some p)" "rp_padding p = 0"
  shows "\<exists>q. rtp_parse B (d @ r) = Some (Some q)"
proof -
  let ?q = "p\<lparr>rp_payload := rp_payload p @ r\<rparr>"
  note inv = rtp_parse_inv [OF assms(1,2)]
  have "rtp_wf ?q" using inv(1) by (cases p) (auto simp only: rtp_wf_def rtp_packet.simps)
  then have "rtp_parse B (rtp_body_bytes B ?q @ []) = Some (Some ?q)"
    using assms(3) by (intro rtp_parse_body [OF assms(1)]) (simp_all add: rtp_strip_padding_def)
  moreover have "rtp_body_bytes B ?q = rtp_body_bytes B p @ r"
    by (simp add: rtp_body_bytes_def rtp_header_bytes_def rtp_extension_bytes_def)
  ultimately show ?thesis using inv(2) assms(3) by auto
qed

lemma tag_lib_ok: "srtp_lib_ok network_lib tag_lib (\<lambda>_ _. True)"
  using rtp_parse_longer [OF big_endian_network_lib]
  by (auto simp: srtp_lib_ok_def rtp_law_def rtcp_law_def tag_lib_def tag_protect_def tag_unprotect_def protected_from_def)

definition sample_keys :: srtp_key_material where
  "sample_keys = \<lparr>km_profile = srtp_aes128_cm_sha1_80, km_client_write_key = [1], km_client_write_salt = [2],
     km_server_write_key = [3], km_server_write_salt = [4]\<rparr>"

definition sample_rtp :: bytes where
  "sample_rtp = rtp_body_bytes network_lib (rtp_packet_default\<lparr>rp_ssrc := 7, rp_payload := [1, 2]\<rparr>)"

definition sample_rtcp :: bytes where
  "sample_rtcp = [0x80, 201, 0, 1, 0, 0, 0, 7]"

lemma sample_setup: "\<exists>t. srtp_setup tag_lib sample_keys role srtp_transport_new = (t, None)"
  by (simp add: srtp_setup_def sample_keys_def to_libsrtp_profile_def create_session_def tag_lib_def Let_def)

lemma sample_fits: "srtp_fits network_lib {7} (False, sample_rtp)" "srtp_fits network_lib {7} (True, sample_rtcp)"
proof -
  let ?p = "rtp_packet_default\<lparr>rp_ssrc := 7, rp_payload := [1, 2]\<rparr>"
  have "rtp_parse network_lib (sample_rtp @ []) = Some (Some ?p)"
    unfolding sample_rtp_def by (rule rtp_parse_body [OF big_endian_network_lib])
      (simp_all add: rtp_wf_def rtp_packet_default_def rtp_strip_padding_def)
  moreover have "sample_rtp ! 1 = 0" by (simp add: sample_rtp_def rtp_body_bytes_def rtp_header_bytes_def rtp_packet_default_def)
  ultimately show "srtp_fits network_lib {7} (False, sample_rtp)"
    by (auto simp: srtp_fits_def rtp_packet_default_def intro!: exI [of _ ?p])
  show "srtp_fits network_lib {7} (True, sample_rtcp)" by (simp add: srtp_fits_def sample_rtcp_def)
qed

lemma tag_lib_loss: "rtcp_loss_law tag_lib (\<lambda>_ _. True)"
  by (simp add: rtcp_loss_law_def)

definition sample_messages :: "(bool \<times> bytes) list" where
  "sample_messages = [(False, sample_rtp), (True, sample_rtcp), (True, [0x81, 205, 0, 2, 0, 0, 0, 7, 0, 0, 0, 7])]"

lemma sample_are_messages: "list_all (srtp_message network_lib {7} {}) sample_messages"
  using sample_fits by (auto simp: sample_messages_def srtp_message_def srtp_fits_def srtp_type_def)

theorem srtp_transparent_witness:
  "\<exists>a b ps a' b'. srtp_setup tag_lib sample_keys srtp_client srtp_transport_new = (a, None)
     \<and> srtp_setup tag_lib sample_keys srtp_server srtp_transport_new = (b, None)
     \<and> transfer (srtp_send tag_lib 100) (srtp_recv network_lib tag_lib) sample_messages a b = Some (ps, a', b')
     \<and> snd (ps ! 2) = None"
proof -
  obtain a b where s: "srtp_setup tag_lib sample_keys srtp_client srtp_transport_new = (a, None)"
    "srtp_setup tag_lib sample_keys (other_role srtp_client) srtp_transport_new = (b, None)" using sample_setup by metis
  have "card {7 :: u32} \<le> MAX_ACTIVE_SSRCS" "st_active (srtp_transport_new :: unit srtp_transport) \<subseteq> {7}"
    "list_all (srtp_message network_lib {7} (st_active (srtp_transport_new :: unit srtp_transport))) sample_messages"
    using sample_are_messages by (simp_all add: MAX_ACTIVE_SSRCS_def srtp_transport_new_def)
  from srtp_transparent [OF tag_lib_ok tag_lib_loss s _ this, of 100] obtain ps a' b' where
    t: "transfer (srtp_send tag_lib 100) (srtp_recv network_lib tag_lib) sample_messages a b = Some (ps, a', b')"
    "length ps = length sample_messages"
    "map snd ps = map (\<lambda>((rtcp, d), (e, _)). if e = [] \<or> rtcp \<and> \<not> (200 \<le> d ! 1 \<and> d ! 1 \<le> 204) then None else Some d) (zip sample_messages ps)"
    by auto
  have "snd (ps ! 2) = map snd ps ! 2" using t(2) by (simp add: sample_messages_def)
  also have "\<dots> = None" unfolding t(3) using t(2) by (simp add: sample_messages_def split: prod.split)
  finally show ?thesis using s t(1) by auto
qed

theorem srtp_admission_witness:
  "\<exists>log t'. srtp_run network_lib tag_lib (Some (do_on_new_ssrc network_lib None)) [Datagram sample_rtp, Removed 7] srtp_transport_new = Some (log, t')
     \<and> card (st_active t') \<le> 32"
proof -
  have "st_active (srtp_transport_new :: unit srtp_transport) = {}" by (simp add: srtp_transport_new_def)
  from srtp_admission [OF this, of network_lib tag_lib "Some (do_on_new_ssrc network_lib None)" "[Datagram sample_rtp, Removed 7]"]
  show ?thesis by blast
qed

theorem feedback_is_refused_witness:
  "\<exists>a b e a' h b'. srtp_setup tag_lib sample_keys srtp_client srtp_transport_new = (a, None)
     \<and> srtp_setup tag_lib sample_keys srtp_server srtp_transport_new = (b, None)
     \<and> protect_rtcp tag_lib (rtpfb_bytes network_lib \<lparr>fb_fmt = 1, fb_sender_ssrc = 1, fb_media_ssrc = 7, fb_lost = [1]\<rparr>) 1200 a = Some (e, a')
     \<and> datagram_received network_lib tag_lib (Some (do_on_new_ssrc network_lib None)) e b = Some (h, None, b')"
proof -
  obtain a b where s: "srtp_setup tag_lib sample_keys srtp_client srtp_transport_new = (a, None)"
    "srtp_setup tag_lib sample_keys (other_role srtp_client) srtp_transport_new = (b, None)" using sample_setup by metis
  have j: "srtp_joined network_lib tag_lib (\<lambda>_ _. True) {} a b"
    by (rule setup_joined [OF s tag_lib_ok]) (simp_all add: srtp_transport_new_def)
  then obtain e a' where p: "protect_rtcp tag_lib (rtpfb_bytes network_lib \<lparr>fb_fmt = 1, fb_sender_ssrc = 1, fb_media_ssrc = 7, fb_lost = [1]\<rparr>) 1200 a = Some (e, a')"
    by (cases "protect_rtcp tag_lib (rtpfb_bytes network_lib \<lparr>fb_fmt = 1, fb_sender_ssrc = 1, fb_media_ssrc = 7, fb_lost = [1]\<rparr>) 1200 a")
      (auto simp: srtp_joined_def protect_rtcp_def split: prod.splits)
  from feedback_is_refused [OF big_endian_network_lib j p disjI1 [OF refl], of "Some (do_on_new_ssrc network_lib None)"] p s
  show ?thesis by auto
qed

theorem parse_remote_sdp_lines_witness:
  "parse_remote_sdp (''a=setup:active'' @ crlf @ ''a=ice-ufrag:u'' @ crlf)
     = remote_sdp_empty\<lparr>rs_setup := ''active'', rs_ice_ufrag := ''u''\<rparr>"
proof -
  have l: "list_all plain_line [''a=setup:active'', ''a=ice-ufrag:u'']" by (simp add: plain_line_def)
  show ?thesis
    using parse_remote_sdp_lines [OF l disjI1 [OF refl]]
    by (simp add: remote_sdp_line_def starts_with_def remote_sdp_empty_def)
qed

end
