(* ===== verification/Mpegts.thy ===== *)
theory Mpegts
  imports MediaPath
begin

text \<open>
  The MPEG transport stream demultiplexer of \<open>src/mpegts_demuxer.hpp\<close>: synchronisation, the tables that
  name the streams (PAT and PMT sections with their CRC), and the elementary streams, whose packets it
  joins to frames.

  As in theory Rtp, an outer \<open>None\<close> is undefined behaviour: a read outside the buffer. The iteration
  order of \<open>std::map\<close> is that of the keys; the map is a list ordered by key.
\<close>

section \<open>State\<close>

abbreviation TS_PACKET_SIZE :: nat where "TS_PACKET_SIZE \<equiv> 188"

definition MAX_PES_BUFFER :: nat where
  "MAX_PES_BUFFER = 4 * 1024 * 1024"

definition MAX_FRAME_QUEUE :: nat where
  "MAX_FRAME_QUEUE = 64"

definition MAX_PSI_SECTION :: nat where
  "MAX_PSI_SECTION = 4096"

definition MAX_PROGRAMS :: nat where
  "MAX_PROGRAMS = 5"

record stream_state =
  es_format :: media_format
  es_kind :: media_kind
  es_pes :: bytes
  es_pts :: u32
  es_has_pts :: bool
  es_cc :: u8
  es_first_cc :: bool
  es_psi :: bytes

definition stream_state_new :: stream_state where
  "stream_state_new = \<lparr>es_format = mf_unknown, es_kind = mk_video, es_pes = [], es_pts = 0, es_has_pts = False,
     es_cc = 0, es_first_cc = True, es_psi = []\<rparr>"

text \<open>\<open>programs_[0..program_count_]\<close> is a list of program number and PID.\<close>

record demuxer =
  dx_buffer :: bytes
  dx_read :: nat
  dx_programs :: "(u16 \<times> u16) list"
  dx_streams :: "(u16 \<times> stream_state) list"
  dx_queue :: "media_frame list"

definition demuxer_new :: demuxer where
  "demuxer_new = \<lparr>dx_buffer = [], dx_read = 0, dx_programs = [], dx_streams = [], dx_queue = []\<rparr>"

definition set_stream :: "u16 \<Rightarrow> stream_state \<Rightarrow> demuxer \<Rightarrow> demuxer" where
  "set_stream pid st s = s\<lparr>dx_streams := fm_set pid st (dx_streams s)\<rparr>"

definition erase_stream :: "u16 \<Rightarrow> demuxer \<Rightarrow> demuxer" where
  "erase_stream pid s = s\<lparr>dx_streams := fm_erase pid (dx_streams s)\<rparr>"

text \<open>\<open>streams_[pid]\<close>: an absent stream is a new one.\<close>

definition stream_at :: "u16 \<Rightarrow> demuxer \<Rightarrow> stream_state" where
  "stream_at pid s = (case map_of (dx_streams s) pid of None \<Rightarrow> stream_state_new | Some st \<Rightarrow> st)"

section \<open>Frames\<close>

definition push_media :: "media_frame \<Rightarrow> demuxer \<Rightarrow> demuxer" where
  "push_media f s =
     s\<lparr>dx_queue := (if length (dx_queue s) \<ge> MAX_FRAME_QUEUE
                     then drop (length (dx_queue s) - (MAX_FRAME_QUEUE - 1)) (dx_queue s) else dx_queue s) @ [f]\<rparr>"

definition pes_frame :: "stream_state \<Rightarrow> media_frame" where
  "pes_frame st = \<lparr>mf_kind = es_kind st, mf_format = es_format st,
     mf_timestamp = (if es_has_pts st then es_pts st else 0), mf_data = es_pes st, mf_info = None\<rparr>"

definition flush_stream :: "u16 \<times> stream_state \<Rightarrow> demuxer \<Rightarrow> demuxer" where
  "flush_stream = (\<lambda>(pid, st) s.
     if es_pes st = [] then s else set_stream pid (st\<lparr>es_pes := []\<rparr>) (push_media (pes_frame st) s))"

definition flush :: "demuxer \<Rightarrow> demuxer" where
  "flush s = fold flush_stream (dx_streams s) s"

definition is_pmt_pid :: "u16 \<Rightarrow> demuxer \<Rightarrow> bool" where
  "is_pmt_pid pid s \<longleftrightarrow> list_ex (\<lambda>(_, p). p = pid) (dx_programs s)"

section \<open>Synchronisation\<close>

text \<open>\<open>std::find\<close> of a byte from a position.\<close>

definition find_byte :: "u8 \<Rightarrow> nat \<Rightarrow> bytes \<Rightarrow> nat option" where
  "find_byte b i d = map_option ((+) i) (find_index (\<lambda>x. x = b) (drop i d))"

lemma find_index_Some: "find_index P xs = Some i \<Longrightarrow> i < length xs \<and> P (xs ! i)"
  by (induction xs arbitrary: i) (auto split: if_splits)

lemma find_byte_Some: "find_byte b i d = Some j \<Longrightarrow> i \<le> j \<and> j < length d \<and> d ! j = b"
  using find_index_Some by (fastforce simp: find_byte_def)

text \<open>Whether there is a packet at the read offset, and the buffer and the offset then.\<close>

function find_sync :: "bytes \<Rightarrow> nat \<Rightarrow> bool \<times> bytes \<times> nat" where
  "find_sync buf r =
     (if r + TS_PACKET_SIZE \<le> length buf
      then (case find_byte 0x47 r buf of
              None \<Rightarrow> (False, [], 0)
            | Some i \<Rightarrow>
                (let n = length buf - i
                 in if n < TS_PACKET_SIZE then (False, drop i buf, 0)
                    else if n > TS_PACKET_SIZE
                    then (if buf ! (i + TS_PACKET_SIZE) = 0x47 then (True, buf, i)
                          else find_sync buf (i + TS_PACKET_SIZE + 1))
                    else (True, buf, i)))
      else (False, drop r buf, 0))"
  by pat_completeness auto
termination
  by (relation "measure (\<lambda>(buf, r). length buf - r)") (auto dest: find_byte_Some)

declare find_sync.simps [simp del]

section \<open>Tables\<close>

definition crc_step :: "u32 \<Rightarrow> u32" where
  "crc_step c = (if c AND 0x80000000 \<noteq> 0 then push_bit 1 c XOR 0x04C11DB7 else push_bit 1 c)"

definition crc_byte :: "u8 \<Rightarrow> u32 \<Rightarrow> u32" where
  "crc_byte b c = (crc_step ^^ 8) (c XOR push_bit 24 (ucast b))"

definition calculate_crc32 :: "bytes \<Rightarrow> u32" where
  "calculate_crc32 d = fold crc_byte d 0xFFFFFFFF"

text \<open>The program loop of a PAT; program 0 is the network, and there is room for five programs.\<close>

definition pat_entry :: "bytes \<Rightarrow> nat \<Rightarrow> (u16 \<times> u16) option" where
  "pat_entry d i = do {
     b0 \<leftarrow> rd8 d i; b1 \<leftarrow> rd8 d (i + 1); b2 \<leftarrow> rd8 d (i + 2); b3 \<leftarrow> rd8 d (i + 3);
     Some (push_bit 8 (ucast b0) OR ucast b1, push_bit 8 (ucast (b2 AND 0x1F)) OR ucast b3) }"

definition add_program :: "u16 \<times> u16 \<Rightarrow> (u16 \<times> u16) list \<Rightarrow> (u16 \<times> u16) list" where
  "add_program p ps = (if fst p \<noteq> 0 \<and> length ps < MAX_PROGRAMS then ps @ [p] else ps)"

function parse_pat_loop :: "bytes \<Rightarrow> nat \<Rightarrow> nat \<Rightarrow> (u16 \<times> u16) list \<Rightarrow> (u16 \<times> u16) list option" where
  "parse_pat_loop d loop_end i ps =
     (if i + 4 \<le> loop_end
      then (case pat_entry d i of None \<Rightarrow> None | Some p \<Rightarrow> parse_pat_loop d loop_end (i + 4) (add_program p ps))
      else Some ps)"
  by pat_completeness auto
termination
  by (relation "measure (\<lambda>(d, loop_end, i, ps). loop_end - i)") auto

declare parse_pat_loop.simps [simp del]

definition parse_pat :: "bytes \<Rightarrow> nat \<Rightarrow> demuxer \<Rightarrow> demuxer option" where
  "parse_pat d len s = map_option (\<lambda>ps. s\<lparr>dx_programs := ps\<rparr>) (parse_pat_loop d (len - 4) 8 [])"

definition pmt_stream_type :: "u8 \<Rightarrow> media_format \<times> media_kind" where
  "pmt_stream_type t =
     (if t \<in> {0x03, 0x04, 0x0F, 0x1C, 0x81, 0x87} then (mf_unknown, mk_audio)
      else if t \<in> {0x1B, 0x24} then (mf_h264, mk_video)
      else (mf_unknown, mk_video))"

definition pmt_descriptor :: "u8 \<Rightarrow> bytes \<Rightarrow> media_format \<times> media_kind \<Rightarrow> media_format \<times> media_kind" where
  "pmt_descriptor tag fid = (\<lambda>(fmt, k).
     if tag = 0x02 \<or> tag = 0x28 then (fmt, mk_video)
     else if tag = 0x03 \<or> tag = 0x6A \<or> tag = 0x7A then (fmt, mk_audio)
     else if tag = 0x05
     then (if fid = [0x4F, 0x70, 0x75, 0x73] then (mf_opus, mk_audio)
           else if fid = [0x56, 0x50, 0x38, 0x30] then (mf_vp8, mk_video)
           else if fid = [0x56, 0x50, 0x39, 0x30] then (mf_vp9, mk_video)
           else if fid = [0x41, 0x56, 0x43, 0x31] \<or> fid = [0x48, 0x32, 0x36, 0x34] then (mf_h264, mk_video)
           else (fmt, k))
     else (fmt, k))"

text \<open>
  The descriptors of a stream, at \<open>base\<close>. Only a registration descriptor (0x05) of four bytes or more
  is looked into.
\<close>

function pmt_descriptors :: "bytes \<Rightarrow> nat \<Rightarrow> nat \<Rightarrow> nat \<Rightarrow> media_format \<times> media_kind \<Rightarrow> (media_format \<times> media_kind) option" where
  "pmt_descriptors d base info_len i fk =
     (if i + 2 \<le> info_len
      then do {
        tag \<leftarrow> rd8 d (base + i); dlen \<leftarrow> rd8 d (base + i + 1);
        if i + 2 + unat dlen > info_len then Some fk
        else do {
          fid \<leftarrow> (if tag = 0x05 \<and> dlen \<ge> 4 then rd_bytes d (base + i + 2) 4 else Some []);
          pmt_descriptors d base info_len (i + 2 + unat dlen) (pmt_descriptor tag fid fk) } }
      else Some fk)"
  by pat_completeness auto
termination
  by (relation "measure (\<lambda>(d, base, info_len, i, fk). info_len - i)") auto

declare pmt_descriptors.simps [simp del]

text \<open>One entry of the stream loop: the PID, what is played there, and the length of its descriptors.\<close>

definition pmt_entry :: "bytes \<Rightarrow> nat \<Rightarrow> (u16 \<times> (media_format \<times> media_kind) \<times> nat) option" where
  "pmt_entry d off = do {
     ty \<leftarrow> rd8 d off; b1 \<leftarrow> rd8 d (off + 1); b2 \<leftarrow> rd8 d (off + 2); b3 \<leftarrow> rd8 d (off + 3); b4 \<leftarrow> rd8 d (off + 4);
     let info_len = unat (push_bit 8 (ucast (b3 AND 0x0F)) OR ucast b4 :: u16);
     fk \<leftarrow> pmt_descriptors d (off + 5) info_len 0 (pmt_stream_type ty);
     Some (push_bit 8 (ucast (b1 AND 0x1F)) OR ucast b2, fk, info_len) }"

definition play_stream :: "u16 \<Rightarrow> media_format \<times> media_kind \<Rightarrow> demuxer \<Rightarrow> demuxer" where
  "play_stream pid fk s = set_stream pid ((stream_at pid s)\<lparr>es_format := fst fk, es_kind := snd fk\<rparr>) s"

function parse_pmt_loop :: "bytes \<Rightarrow> nat \<Rightarrow> nat \<Rightarrow> demuxer \<Rightarrow> demuxer option" where
  "parse_pmt_loop d loop_end off s =
     (if off + 5 \<le> loop_end
      then (case pmt_entry d off of None \<Rightarrow> None
            | Some (pid, fk, info_len) \<Rightarrow> parse_pmt_loop d loop_end (off + 5 + info_len) (play_stream pid fk s))
      else Some s)"
  by pat_completeness auto
termination
  by (relation "measure (\<lambda>(d, loop_end, off, s). loop_end - off)") auto

declare parse_pmt_loop.simps [simp del]

definition parse_pmt :: "bytes \<Rightarrow> nat \<Rightarrow> demuxer \<Rightarrow> demuxer option" where
  "parse_pmt d len s =
     (if len < 12 then Some s
      else do {
        b10 \<leftarrow> rd8 d 10; b11 \<leftarrow> rd8 d 11;
        let off = 12 + unat (push_bit 8 (ucast (b10 AND 0x0F)) OR ucast b11 :: u16);
        if off > len - 4 then Some s else parse_pmt_loop d (len - 4) off s })"

text \<open>A section of \<open>len\<close> bytes at the front of the buffer \<open>d\<close>.\<close>

definition handle_psi_section :: "bytes \<Rightarrow> nat \<Rightarrow> demuxer \<Rightarrow> demuxer option" where
  "handle_psi_section d len s =
     (if len < 4 then Some s
      else do {
        body \<leftarrow> rd_bytes d 0 (len - 4);
        c0 \<leftarrow> rd8 d (len - 4); c1 \<leftarrow> rd8 d (len - 3); c2 \<leftarrow> rd8 d (len - 2); c3 \<leftarrow> rd8 d (len - 1);
        if calculate_crc32 body \<noteq> be32 c0 c1 c2 c3 then Some s
        else do {
          table_id \<leftarrow> rd8 d 0;
          if table_id = 0 then parse_pat d len s
          else if table_id = 2 then parse_pmt d len s
          else Some s } })"

text \<open>The length field of a section.\<close>

definition section_length :: "bytes \<Rightarrow> nat" where
  "section_length d = unat (push_bit 8 (ucast (d ! 1 AND 0x0F)) OR ucast (d ! 2) :: u16)"

text \<open>
  The complete sections of a buffer. The buffer belongs to the stream of the PID; here it is an
  argument and is put back at the end (the sections do not touch the buffers of the streams).
\<close>

function process_psi_sections :: "u16 \<Rightarrow> bytes \<Rightarrow> demuxer \<Rightarrow> demuxer option" where
  "process_psi_sections pid buf s =
     (if length buf < 3 then Some (set_stream pid ((stream_at pid s)\<lparr>es_psi := buf\<rparr>) s)
      else if buf ! 0 = 0xFF \<or> section_length buf > 1021 then Some (erase_stream pid s)
      else if length buf < 3 + section_length buf then Some (set_stream pid ((stream_at pid s)\<lparr>es_psi := buf\<rparr>) s)
      else do {
        s \<leftarrow> handle_psi_section buf (3 + section_length buf) s;
        process_psi_sections pid (drop (3 + section_length buf) buf) s })"
  by pat_completeness auto
termination
  by (relation "measure (\<lambda>(pid, buf, s). length buf)") auto

declare process_psi_sections.simps [simp del]

definition parse_psi :: "bytes \<Rightarrow> bool \<Rightarrow> u16 \<Rightarrow> demuxer \<Rightarrow> demuxer option" where
  "parse_psi data start pid s =
     (if start
      then do {
        pointer_field \<leftarrow> rd8 data 0;
        let table_start = 1 + unat pointer_field;
        if table_start < length data
        then (let st = stream_at pid s
              in if length (es_psi st) + length data - table_start > MAX_PSI_SECTION
                 then Some (erase_stream pid s)
                 else process_psi_sections pid (drop table_start data) (set_stream pid st s))
        else Some (erase_stream pid s) }
      else (case map_of (dx_streams s) pid of
              None \<Rightarrow> Some s
            | Some st \<Rightarrow>
                if es_psi st = [] then Some (erase_stream pid s)
                else if length (es_psi st) + length data > MAX_PSI_SECTION then Some (erase_stream pid s)
                else process_psi_sections pid (es_psi st @ data) s))"

section \<open>Elementary streams\<close>

text \<open>Where the PES header begins; without a start code it is taken to begin at 0.\<close>

definition pes_offset :: "bytes \<Rightarrow> nat" where
  "pes_offset d =
     (if length d \<ge> 3 \<and> d ! 0 = 0 \<and> d ! 1 = 0 \<and> d ! 2 = 1 then 0
      else if length d \<ge> 4 \<and> d ! 1 = 0 \<and> d ! 2 = 0 \<and> d ! 3 = 1 then 1 else 0)"

definition pes_kind :: "u8 \<Rightarrow> media_kind \<Rightarrow> media_kind" where
  "pes_kind stream_id k =
     (if (0xC0 \<le> stream_id \<and> stream_id \<le> 0xDF) \<or> stream_id = 0xBD \<or> stream_id = 0xBF then mk_audio
      else if 0xE0 \<le> stream_id \<and> stream_id \<le> 0xEF then mk_video else k)"

text \<open>The time stamp of a header, if its five bytes are there and have the marks the code looks for.\<close>

definition pes_pts :: "bytes \<Rightarrow> nat \<Rightarrow> u16 \<Rightarrow> u8 \<Rightarrow> u32 option option" where
  "pes_pts d off flags hdr_len =
     (if flags AND 0xC0 \<noteq> 0 \<and> hdr_len \<ge> 5 \<and> length d - off \<ge> 14
      then do {
        p0 \<leftarrow> rd8 d (off + 9); p1 \<leftarrow> rd8 d (off + 10); p2 \<leftarrow> rd8 d (off + 11); p3 \<leftarrow> rd8 d (off + 12); p4 \<leftarrow> rd8 d (off + 13);
        Some (if drop_bit 6 flags AND 3 \<ge> 2 \<and> p0 AND 0xF0 = 0x20 \<and> p2 AND 1 = 1 \<and> p4 AND 1 = 1
              then Some (ucast (push_bit 29 (ucast (p0 AND 0x0E)) OR push_bit 22 (ucast p1)
                OR push_bit 14 (ucast (p2 AND 0xFE)) OR push_bit 7 (ucast p3) OR drop_bit 1 (ucast (p4 AND 0xFE)) :: u64))
              else None) }
      else Some None)"

definition parse_pes :: "bytes \<Rightarrow> bool \<Rightarrow> u16 \<Rightarrow> stream_state \<Rightarrow> demuxer \<Rightarrow> demuxer option" where
  "parse_pes d start pid st s =
     (if \<not> start
      then Some (if es_pes st = [] then s
                 else set_stream pid (st\<lparr>es_pes := (if length (es_pes st) + length d > MAX_PES_BUFFER then [] else es_pes st @ d)\<rparr>) s)
      else (let off = pes_offset d
            in if length d - off < 9 then Some s
               else do {
                 stream_id \<leftarrow> rd8 d (off + 3);
                 let st = st\<lparr>es_kind := pes_kind stream_id (es_kind st)\<rparr>;
                 let s = (if es_pes st = [] then s else push_media (pes_frame st) s);
                 let st = st\<lparr>es_pes := []\<rparr>;
                 f6 \<leftarrow> rd8 d (off + 6); f7 \<leftarrow> rd8 d (off + 7); hdr_len \<leftarrow> rd8 d (off + 8);
                 pts \<leftarrow> pes_pts d off (push_bit 8 (ucast f6) OR ucast f7) hdr_len;
                 let st = (case pts of None \<Rightarrow> st\<lparr>es_has_pts := False\<rparr> | Some x \<Rightarrow> st\<lparr>es_pts := x, es_has_pts := True\<rparr>);
                 let es_start = off + 9 + unat hdr_len;
                 Some (set_stream pid (if es_start < length d \<and> length d - es_start \<le> MAX_PES_BUFFER
                        then st\<lparr>es_pes := drop es_start d\<rparr> else st) s) }))"

section \<open>Packets\<close>

definition ts_pid :: "u8 \<Rightarrow> u8 \<Rightarrow> u16" where
  "ts_pid b1 b2 = push_bit 8 (ucast (b1 AND 0x1F)) OR ucast b2"

text \<open>The payload behind the adaptation field, if there is one.\<close>

definition ts_payload :: "bytes \<Rightarrow> u8 \<Rightarrow> bytes option option" where
  "ts_payload p afc = do {
     off \<leftarrow> (if afc = 2 \<or> afc = 3 then map_option (\<lambda>n. 5 + unat n) (rd8 p 4) else Some 4);
     Some (if off \<ge> TS_PACKET_SIZE \<or> afc = 2 then None else Some (take (TS_PACKET_SIZE - off) (drop off p))) }"

definition ts_dispatch :: "u16 \<Rightarrow> bytes \<Rightarrow> bool \<Rightarrow> bool \<Rightarrow> demuxer \<Rightarrow> demuxer option" where
  "ts_dispatch pid payload start known s =
     (if pid = 0 then parse_psi payload start 0 s
      else if is_pmt_pid pid s then parse_psi payload start pid s
      else if known then parse_pes payload start pid (stream_at pid s) s
      else Some s)"

text \<open>A packet with the counter of the last one of its stream is a repetition; a gap is only reported.\<close>

definition handle_ts_packet :: "bytes \<Rightarrow> demuxer \<Rightarrow> demuxer option" where
  "handle_ts_packet p s = do {
     b1 \<leftarrow> rd8 p 1; b2 \<leftarrow> rd8 p 2; b3 \<leftarrow> rd8 p 3;
     let pid = ts_pid b1 b2;
     let cc = b3 AND 0x0F;
     if b1 AND 0x80 \<noteq> 0 then Some s
     else (let si = map_of (dx_streams s) pid
           in case si of
                Some st \<Rightarrow>
                  if \<not> es_first_cc st \<and> cc = es_cc st then Some s
                  else (let s = set_stream pid (st\<lparr>es_cc := cc, es_first_cc := False\<rparr>) s
                        in do { payload \<leftarrow> ts_payload p (drop_bit 4 b3 AND 3);
                                case payload of None \<Rightarrow> Some s | Some d \<Rightarrow> ts_dispatch pid d (b1 AND 0x40 \<noteq> 0) True s })
              | None \<Rightarrow>
                  do { payload \<leftarrow> ts_payload p (drop_bit 4 b3 AND 3);
                       case payload of None \<Rightarrow> Some s | Some d \<Rightarrow> ts_dispatch pid d (b1 AND 0x40 \<noteq> 0) False s }) }"

text \<open>The buffer is that of the input; a packet does not touch it.\<close>

definition same_input :: "demuxer \<Rightarrow> demuxer \<Rightarrow> bool" where
  "same_input s s' \<longleftrightarrow> dx_buffer s' = dx_buffer s \<and> dx_read s' = dx_read s"

lemma same_input_simps [simp]:
  "same_input s (set_stream pid st s') = same_input s s'" "same_input s (erase_stream pid s') = same_input s s'"
  "same_input s (push_media f s') = same_input s s'" "same_input s s" "same_input s (s'\<lparr>dx_programs := ps\<rparr>) = same_input s s'"
  "same_input (set_stream pid st s) s' = same_input s s'"
  by (simp_all add: same_input_def set_stream_def erase_stream_def push_media_def)

lemma same_input_trans: "same_input a b \<Longrightarrow> same_input b c \<Longrightarrow> same_input a c"
  by (simp add: same_input_def)

text \<open>What every step of the loops keeps, the loops keep.\<close>

lemma pmt_loop_keeps:
  assumes "\<And>pid fk s. P s \<Longrightarrow> P (play_stream pid fk s)"
  shows "parse_pmt_loop d e off s = Some s' \<Longrightarrow> P s \<Longrightarrow> P s'"
proof (induction d e off s rule: parse_pmt_loop.induct)
  case (1 d e off s)
  show ?case
  proof (cases "off + 5 \<le> e")
    case True
    then obtain pid fk n where "pmt_entry d off = Some (pid, fk, n)"
      "parse_pmt_loop d e (off + 5 + n) (play_stream pid fk s) = Some s'"
      using 1(2) by (subst (asm) parse_pmt_loop.simps) (auto split: option.splits prod.splits)
    then show ?thesis using 1(1) [OF True] 1(3) assms by blast
  qed (use 1 in \<open>simp add: parse_pmt_loop.simps\<close>)
qed

lemma parse_pat_loop_length:
  "parse_pat_loop d e i ps = Some qs \<Longrightarrow> length ps \<le> MAX_PROGRAMS \<Longrightarrow> length qs \<le> MAX_PROGRAMS"
proof (induction d e i ps rule: parse_pat_loop.induct)
  case (1 d e i ps)
  show ?case
  proof (cases "i + 4 \<le> e")
    case True
    then obtain p where "pat_entry d i = Some p" "parse_pat_loop d e (i + 4) (add_program p ps) = Some qs"
      using 1(2) by (subst (asm) parse_pat_loop.simps) (auto split: option.splits)
    then show ?thesis using 1(1) [OF True] 1(3) by (simp add: add_program_def split: if_splits)
  qed (use 1 in \<open>simp add: parse_pat_loop.simps\<close>)
qed

lemma psi_section_keeps:
  assumes "\<And>pid fk s. P s \<Longrightarrow> P (play_stream pid fk s)"
    and "\<And>ps s. P s \<Longrightarrow> length ps \<le> MAX_PROGRAMS \<Longrightarrow> P (s\<lparr>dx_programs := ps\<rparr>)"
    and "handle_psi_section d len s = Some s'" "P s"
  shows "P s'"
proof -
  have "parse_pat d len s = Some s' \<Longrightarrow> P s'"
    using assms(2) [OF assms(4)] parse_pat_loop_length by (fastforce simp: parse_pat_def)
  moreover have "parse_pmt d len s = Some s' \<Longrightarrow> P s'"
    using pmt_loop_keeps [of P, OF assms(1)] assms(4) by (auto simp: parse_pmt_def bind_eq_Some_conv Let_def split: if_splits)
  ultimately show ?thesis
    using assms(3,4) by (auto simp: handle_psi_section_def bind_eq_Some_conv split: if_splits)
qed

lemma psi_sections_keep:
  assumes "\<And>pid fk s. P s \<Longrightarrow> P (play_stream pid fk s)"
    and "\<And>ps s. P s \<Longrightarrow> length ps \<le> MAX_PROGRAMS \<Longrightarrow> P (s\<lparr>dx_programs := ps\<rparr>)"
    and "\<And>s. P s \<Longrightarrow> P (erase_stream pid s)"
    and "\<And>psi s. P s \<Longrightarrow> length psi \<le> length buf \<Longrightarrow> P (set_stream pid ((stream_at pid s)\<lparr>es_psi := psi\<rparr>) s)"
    and "process_psi_sections pid buf s = Some s'" "P s"
  shows "P s'"
proof -
  have "process_psi_sections pid b s = Some s' \<Longrightarrow> length b \<le> length buf \<Longrightarrow> P s \<Longrightarrow> P s'" for b s
  proof (induction "length b" arbitrary: b s rule: less_induct)
    case less
    let ?n = "3 + section_length b"
    consider "length b < 3 \<or> b ! 0 = 0xFF \<or> section_length b > 1021 \<or> length b < ?n"
      | "\<not> (length b < 3 \<or> b ! 0 = 0xFF \<or> section_length b > 1021 \<or> length b < ?n)" by blast
    then show ?case
    proof cases
      case 1
      then show ?thesis using less(2-4) assms(3,4) by (subst (asm) process_psi_sections.simps) (auto split: if_splits)
    next
      case 2
      then obtain s1 where s1: "handle_psi_section b ?n s = Some s1" "process_psi_sections pid (drop ?n b) s1 = Some s'"
        using less(2) by (subst (asm) process_psi_sections.simps) (auto simp: bind_eq_Some_conv)
      have "P s1" by (rule psi_section_keeps [OF assms(1,2) s1(1) less(4)])
      then show ?thesis using less(1) [OF _ s1(2)] 2 less(3) by auto
    qed
  qed
  then show ?thesis using assms(5,6) by blast
qed

lemma same_input_play [simp]: "same_input s (play_stream pid fk s') = same_input s s'"
  by (simp add: play_stream_def)

lemma same_input_sections:
  assumes "process_psi_sections pid buf s = Some s'" shows "same_input s s'"
  by (rule psi_sections_keep [of "same_input s", OF _ _ _ _ assms]) simp_all

lemma same_input_psi: "parse_psi d start pid s = Some s' \<Longrightarrow> same_input s s'"
  by (auto simp: parse_psi_def bind_eq_Some_conv Let_def dest!: same_input_sections split: if_splits option.splits)

lemma same_input_pes: "parse_pes d start pid st s = Some s' \<Longrightarrow> same_input s s'"
  by (auto simp: parse_pes_def bind_eq_Some_conv Let_def split: if_splits)

lemma same_input_packet: "handle_ts_packet p s = Some s' \<Longrightarrow> same_input s s'"
  by (auto simp: handle_ts_packet_def ts_dispatch_def bind_eq_Some_conv Let_def
      dest!: same_input_psi same_input_pes split: if_splits option.splits)

section \<open>Input\<close>

lemma find_sync_True:
  "find_sync buf r = (True, buf', r') \<Longrightarrow> buf' = buf \<and> r \<le> r' \<and> r' + TS_PACKET_SIZE \<le> length buf \<and> buf ! r' = 0x47"
proof (induction buf r rule: find_sync.induct)
  case (1 buf r)
  show ?case
  proof (cases "find_byte 0x47 r buf")
    case None
    then show ?thesis using 1(2) by (subst (asm) find_sync.simps) (auto split: if_splits)
  next
    case (Some i)
    note i = find_byte_Some [OF Some]
    show ?thesis
    proof (cases "r + TS_PACKET_SIZE \<le> length buf \<and> length buf - i > TS_PACKET_SIZE \<and> buf ! (i + TS_PACKET_SIZE) \<noteq> 0x47")
      case True
      then have "find_sync buf (i + TS_PACKET_SIZE + 1) = (True, buf', r')"
        using 1(2) Some by (subst (asm) find_sync.simps) (auto simp: Let_def)
      then show ?thesis using 1(1) [OF _ Some refl] True i by auto
    next
      case False
      then show ?thesis using 1(2) Some i by (subst (asm) find_sync.simps) (auto simp: Let_def split: if_splits)
    qed
  qed
qed

lemma find_sync_False:
  "find_sync buf r = (False, buf', r') \<Longrightarrow> r' = 0 \<and> length buf' < TS_PACKET_SIZE"
proof (induction buf r rule: find_sync.induct)
  case (1 buf r)
  show ?case
  proof (cases "find_byte 0x47 r buf")
    case None
    then show ?thesis using 1(2) by (subst (asm) find_sync.simps) (auto split: if_splits)
  next
    case (Some i)
    show ?thesis
    proof (cases "r + TS_PACKET_SIZE \<le> length buf \<and> length buf - i > TS_PACKET_SIZE \<and> buf ! (i + TS_PACKET_SIZE) \<noteq> 0x47")
      case True
      then have "find_sync buf (i + TS_PACKET_SIZE + 1) = (False, buf', r')"
        using 1(2) Some by (subst (asm) find_sync.simps) (auto simp: Let_def)
      then show ?thesis using 1(1) [OF _ Some refl] True by auto
    next
      case False
      then show ?thesis using 1(2) Some by (subst (asm) find_sync.simps) (auto simp: Let_def split: if_splits)
    qed
  qed
qed

function process_ts_packets :: "demuxer \<Rightarrow> demuxer option" where
  "process_ts_packets s =
     (case find_sync (dx_buffer s) (dx_read s) of
        (False, buf, r) \<Rightarrow> Some (s\<lparr>dx_buffer := buf, dx_read := r\<rparr>)
      | (True, buf, r) \<Rightarrow>
          (case handle_ts_packet (take TS_PACKET_SIZE (drop r buf)) (s\<lparr>dx_buffer := buf, dx_read := r\<rparr>) of
             None \<Rightarrow> None
           | Some s \<Rightarrow> process_ts_packets (s\<lparr>dx_read := dx_read s + TS_PACKET_SIZE\<rparr>)))"
  by pat_completeness auto
termination
  by (relation "measure (\<lambda>s. length (dx_buffer s) - dx_read s)")
    (auto dest!: same_input_packet find_sync_True [OF sym] simp: same_input_def)

declare process_ts_packets.simps [simp del]

definition take_frame :: "demuxer \<Rightarrow> media_frame option \<times> demuxer" where
  "take_frame s = (case dx_queue s of [] \<Rightarrow> (None, s) | f # q \<Rightarrow> (Some f, s\<lparr>dx_queue := q\<rparr>))"

text \<open>The frame, the bytes taken (\<open>None\<close>: \<open>consumed\<close> is left as it is) and the state.\<close>

definition mpegts_parse :: "bytes \<Rightarrow> demuxer \<Rightarrow> (media_frame option \<times> nat option \<times> demuxer) option" where
  "mpegts_parse data s =
     (if dx_queue s \<noteq> [] then (case take_frame s of (f, s) \<Rightarrow> Some (f, None, s))
      else if data = [] then (case take_frame (flush s) of (f, s) \<Rightarrow> Some (f, None, s))
      else (let s = (if length (dx_buffer s) - dx_read s < TS_PACKET_SIZE
                     then s\<lparr>dx_buffer := drop (dx_read s) (dx_buffer s), dx_read := 0\<rparr> else s)
            in do {
              s \<leftarrow> process_ts_packets (s\<lparr>dx_buffer := dx_buffer s @ data\<rparr>);
              let (f, s) = take_frame s;
              Some (f, Some (length data), s) }))"

section \<open>Bounds\<close>

definition stream_bounded :: "stream_state \<Rightarrow> bool" where
  "stream_bounded st \<longleftrightarrow> length (es_pes st) \<le> MAX_PES_BUFFER \<and> length (es_psi st) \<le> MAX_PSI_SECTION"

definition demux_bounded :: "demuxer \<Rightarrow> bool" where
  "demux_bounded s \<longleftrightarrow>
     length (dx_programs s) \<le> MAX_PROGRAMS \<and> length (dx_queue s) \<le> MAX_FRAME_QUEUE
     \<and> (\<forall>st \<in> snd ` set (dx_streams s). stream_bounded st)"

lemma set_fm_set: "set (fm_set k v m) \<subseteq> insert (k, v) (set m)"
  by (induction k v m rule: fm_set.induct) auto

lemma map_of_fm_set: "map_of (fm_set k v m) = (map_of m)(k \<mapsto> v)"
  by (induction k v m rule: fm_set.induct) (auto simp: fun_eq_iff)

lemma bounded_set: "demux_bounded s \<Longrightarrow> stream_bounded st \<Longrightarrow> demux_bounded (set_stream pid st s)"
  using set_fm_set [of pid st "dx_streams s"] by (fastforce simp: demux_bounded_def set_stream_def)

lemma bounded_known: "demux_bounded s \<Longrightarrow> map_of (dx_streams s) pid = Some st \<Longrightarrow> stream_bounded st"
  using map_of_SomeD [of "dx_streams s" pid st] by (force simp: demux_bounded_def)

lemma bounded_at: "demux_bounded s \<Longrightarrow> stream_bounded (stream_at pid s)"
  using bounded_known [of s pid]
  by (cases "map_of (dx_streams s) pid") (simp_all add: stream_at_def stream_bounded_def stream_state_new_def)

lemma bounded_erase: "demux_bounded s \<Longrightarrow> demux_bounded (erase_stream pid s)"
  by (auto simp: demux_bounded_def erase_stream_def fm_erase_def)

lemma bounded_push: "demux_bounded s \<Longrightarrow> demux_bounded (push_media f s)"
  by (auto simp: demux_bounded_def push_media_def MAX_FRAME_QUEUE_def)

lemma bounded_input [simp]:
  "demux_bounded (s\<lparr>dx_buffer := b\<rparr>) = demux_bounded s" "demux_bounded (s\<lparr>dx_read := r\<rparr>) = demux_bounded s"
  by (simp_all add: demux_bounded_def)

lemma stream_bounded_upd [simp]:
  "stream_bounded (st\<lparr>es_format := x\<rparr>) = stream_bounded st" "stream_bounded (st\<lparr>es_kind := k\<rparr>) = stream_bounded st"
  "stream_bounded (st\<lparr>es_pts := p\<rparr>) = stream_bounded st" "stream_bounded (st\<lparr>es_has_pts := b\<rparr>) = stream_bounded st"
  "stream_bounded (st\<lparr>es_cc := c\<rparr>) = stream_bounded st" "stream_bounded (st\<lparr>es_first_cc := b\<rparr>) = stream_bounded st"
  "length pes \<le> MAX_PES_BUFFER \<Longrightarrow> stream_bounded st \<Longrightarrow> stream_bounded (st\<lparr>es_pes := pes\<rparr>)"
  "length psi \<le> MAX_PSI_SECTION \<Longrightarrow> stream_bounded st \<Longrightarrow> stream_bounded (st\<lparr>es_psi := psi\<rparr>)"
  by (simp_all add: stream_bounded_def)

lemma bounded_sections:
  assumes "process_psi_sections pid buf s = Some s'" "demux_bounded s" "length buf \<le> MAX_PSI_SECTION"
  shows "demux_bounded s'"
proof (rule psi_sections_keep [of demux_bounded, OF _ _ _ _ assms(1,2)])
  show "demux_bounded (play_stream p fk s)" if "demux_bounded s" for p fk s
    using that by (simp add: play_stream_def bounded_set bounded_at)
  show "demux_bounded (s\<lparr>dx_programs := ps\<rparr>)" if "demux_bounded s" "length ps \<le> MAX_PROGRAMS" for ps s
    using that by (simp add: demux_bounded_def)
  show "demux_bounded (set_stream pid ((stream_at pid s)\<lparr>es_psi := psi\<rparr>) s)" if "demux_bounded s" "length psi \<le> length buf" for psi s
    using that assms(3) by (simp add: bounded_set bounded_at)
qed (rule bounded_erase)

lemma bounded_psi:
  assumes "parse_psi d start pid s = Some s'" "demux_bounded s" "length d \<le> TS_PACKET_SIZE"
  shows "demux_bounded s'"
  using assms bounded_sections bounded_erase bounded_set bounded_at
  by (fastforce simp: parse_psi_def bind_eq_Some_conv Let_def MAX_PSI_SECTION_def split: if_splits option.splits)

lemma bounded_pes:
  assumes "parse_pes d start pid st s = Some s'" "demux_bounded s" "stream_bounded st"
  shows "demux_bounded s'"
proof (cases start)
  case False
  then show ?thesis using assms by (auto simp: parse_pes_def bounded_set split: if_splits)
next
  case True
  let ?off = "pes_offset d"
  show ?thesis
  proof (cases "length d - ?off < 9")
    case True
    then show ?thesis using assms \<open>start\<close> by (simp add: parse_pes_def Let_def)
  next
    case False
    define s1 where "s1 = (\<lambda>k. if es_pes (st\<lparr>es_kind := k\<rparr>) = [] then s else push_media (pes_frame (st\<lparr>es_kind := k\<rparr>)) s)"
    have s1: "demux_bounded (s1 k)" for k using assms(2) by (simp add: s1_def bounded_push)
    obtain k pts es_start where "s' = set_stream pid (let st = st\<lparr>es_kind := k, es_pes := []\<rparr>;
          st = (case pts of None \<Rightarrow> st\<lparr>es_has_pts := False\<rparr> | Some x \<Rightarrow> st\<lparr>es_pts := x, es_has_pts := True\<rparr>)
        in if es_start < length d \<and> length d - es_start \<le> MAX_PES_BUFFER then st\<lparr>es_pes := drop es_start d\<rparr> else st) (s1 k)"
      using assms(1) \<open>start\<close> False by (auto simp: parse_pes_def Let_def bind_eq_Some_conv s1_def)
    then show ?thesis using s1 assms(3) by (auto simp: Let_def intro!: bounded_set split: option.split)
  qed
qed

lemma bounded_packet:
  assumes "handle_ts_packet p s = Some s'" "demux_bounded s"
  shows "demux_bounded s'"
proof -
  have pl: "length d \<le> TS_PACKET_SIZE" if "ts_payload p afc = Some (Some d)" for afc d
    using that by (auto simp: ts_payload_def bind_eq_Some_conv split: if_splits)
  have disp: "demux_bounded x'" if "ts_dispatch pid d start known x = Some x'" "demux_bounded x" "length d \<le> TS_PACKET_SIZE" for pid d start known x x'
    using that bounded_psi bounded_pes bounded_at by (auto simp: ts_dispatch_def split: if_splits)
  obtain b1 b2 b3 where b: "rd8 p 1 = Some b1" "rd8 p 2 = Some b2" "rd8 p 3 = Some b3"
    using assms(1) by (auto simp: handle_ts_packet_def bind_eq_Some_conv)
  note b' = b [unfolded One_nat_def]
  show ?thesis
  proof (cases "map_of (dx_streams s) (ts_pid b1 b2)")
    case None
    then show ?thesis using assms disp pl
      by (auto simp: handle_ts_packet_def b' bind_eq_Some_conv Let_def split: if_splits option.splits)
  next
    case (Some st)
    let ?s = "set_stream (ts_pid b1 b2) (st\<lparr>es_cc := b3 AND 0x0F, es_first_cc := False\<rparr>) s"
    have "demux_bounded ?s" using bounded_set bounded_known Some assms(2) by simp
    moreover have "s' = s \<or> s' = ?s \<or> (\<exists>d. ts_payload p (drop_bit 4 b3 AND 3) = Some (Some d)
        \<and> ts_dispatch (ts_pid b1 b2) d (b1 AND 0x40 \<noteq> 0) True ?s = Some s')"
      using Some assms(1) by (auto simp: handle_ts_packet_def b' bind_eq_Some_conv Let_def split: if_splits option.splits)
    ultimately show ?thesis using assms(2) disp pl by blast
  qed
qed

lemma bounded_process: "process_ts_packets s = Some s' \<Longrightarrow> demux_bounded s \<Longrightarrow>
    demux_bounded s' \<and> dx_read s' = 0 \<and> length (dx_buffer s') < TS_PACKET_SIZE"
proof (induction s rule: process_ts_packets.induct)
  case (1 s)
  obtain ok buf r where f: "find_sync (dx_buffer s) (dx_read s) = (ok, buf, r)" by (metis prod.collapse)
  show ?case
  proof (cases ok)
    case False
    then show ?thesis using 1(2,3) f find_sync_False [of "dx_buffer s" "dx_read s" buf r]
      by (subst (asm) process_ts_packets.simps) auto
  next
    case True
    then obtain s1 where s1: "handle_ts_packet (take TS_PACKET_SIZE (drop r buf)) (s\<lparr>dx_buffer := buf, dx_read := r\<rparr>) = Some s1"
      "process_ts_packets (s1\<lparr>dx_read := dx_read s1 + TS_PACKET_SIZE\<rparr>) = Some s'"
      using 1(2) f by (subst (asm) process_ts_packets.simps) (auto split: option.splits)
    have "demux_bounded s1" using bounded_packet [OF s1(1)] 1(3) by simp
    then show ?thesis using 1(1) [OF f [symmetric] _ refl s1(1) s1(2)] True by simp
  qed
qed

lemma bounded_take: "demux_bounded s \<Longrightarrow> demux_bounded (snd (take_frame s))"
  by (auto simp: take_frame_def demux_bounded_def split: list.split)

lemma bounded_flush: assumes "demux_bounded s" shows "demux_bounded (flush s)"
proof -
  have f: "demux_bounded (fold flush_stream xs s)" if "\<forall>x \<in> set xs. stream_bounded (snd x)" "demux_bounded s" for xs s
    using that
  proof (induction xs arbitrary: s)
    case (Cons x xs)
    have "demux_bounded (flush_stream x s)"
      using Cons.prems by (auto simp: flush_stream_def bounded_set bounded_push split: prod.splits)
    then show ?case using Cons by simp
  qed simp
  have "\<forall>x \<in> set (dx_streams s). stream_bounded (snd x)" using assms by (simp add: demux_bounded_def)
  then show ?thesis unfolding flush_def using assms by (rule f)
qed

lemma input_flush: "dx_buffer (flush s) = dx_buffer s \<and> dx_read (flush s) = dx_read s"
proof -
  have "dx_buffer (fold flush_stream xs s) = dx_buffer s \<and> dx_read (fold flush_stream xs s) = dx_read s" for xs s
    by (induction xs arbitrary: s) (auto simp: flush_stream_def set_stream_def push_media_def)
  then show ?thesis by (simp add: flush_def)
qed

fun mpegts_run :: "bytes list \<Rightarrow> demuxer \<Rightarrow> demuxer option" where
  "mpegts_run [] s = Some s"
| "mpegts_run (d # ds) s = (case mpegts_parse d s of None \<Rightarrow> None | Some (_, _, s) \<Rightarrow> mpegts_run ds s)"

text \<open>
  C34: The demultiplexer keeps little: after any sequence of calls, with any input, less than one packet of
  input is held back, at most 64 frames wait, a stream holds at most 4 MB of a frame and 4096 bytes of
  sections, and at most five programs are known.
\<close>
theorem mpegts_bounded:
  assumes "mpegts_run ds demuxer_new = Some s"
  shows "dx_read s = 0 \<and> length (dx_buffer s) < 188 \<and> length (dx_queue s) \<le> 64 \<and> length (dx_programs s) \<le> 5
    \<and> (\<forall>(pid, st) \<in> set (dx_streams s). length (es_pes st) \<le> 4194304 \<and> length (es_psi st) \<le> 4096)"
proof -
  let ?I = "\<lambda>s. demux_bounded s \<and> dx_read s = 0 \<and> length (dx_buffer s) < TS_PACKET_SIZE"
  have take: "?I s \<Longrightarrow> ?I (snd (take_frame s))" for s
    using bounded_take by (auto simp: take_frame_def split: list.splits)
  have step: "?I s'" if p: "mpegts_parse d s = Some (f, n, s')" and I: "?I s" for d s f n s'
  proof -
    consider "dx_queue s \<noteq> []" | "dx_queue s = []" "d = []" | "dx_queue s = []" "d \<noteq> []" by blast
    then show ?thesis
    proof cases
      case 1
      then have "s' = snd (take_frame s)" using p by (auto simp: mpegts_parse_def split: prod.splits)
      then show ?thesis using take I by simp
    next
      case 2
      then have "s' = snd (take_frame (flush s))" using p by (auto simp: mpegts_parse_def split: prod.splits)
      then show ?thesis using take [of "flush s"] I bounded_flush input_flush by simp
    next
      case 3
      then obtain s1 where "s' = snd (take_frame s1)" "process_ts_packets (s\<lparr>dx_read := 0, dx_buffer := dx_buffer s @ d\<rparr>) = Some s1"
        using p I by (auto simp: mpegts_parse_def bind_eq_Some_conv Let_def split_beta)
      then show ?thesis using take [of s1] bounded_process I by fastforce
    qed
  qed
  have "?I s" if "mpegts_run ds s0 = Some s" "?I s0" for s0
    using that
  proof (induction ds arbitrary: s0)
    case (Cons d ds)
    then show ?case using step by (auto split: option.splits)
  qed simp
  moreover have "?I demuxer_new" by (simp add: demuxer_new_def demux_bounded_def)
  ultimately have "?I s" using assms by blast
  then show ?thesis
    by (fastforce simp: demux_bounded_def stream_bounded_def MAX_FRAME_QUEUE_def MAX_PROGRAMS_def MAX_PES_BUFFER_def MAX_PSI_SECTION_def)
qed

theorem mpegts_bounded_witness:
  "\<exists>s. mpegts_run [[0x47, 1], []] demuxer_new = Some s \<and> length (dx_buffer s) < 188"
proof -
  have "find_byte 0x47 0 [0x47, 1] = Some 0" by (simp add: find_byte_def)
  then have "mpegts_run [[0x47, 1], []] demuxer_new = Some (demuxer_new\<lparr>dx_buffer := [0x47, 1]\<rparr>)"
    by (simp add: mpegts_parse_def demuxer_new_def process_ts_packets.simps find_sync.simps take_frame_def flush_def)
  then show ?thesis using mpegts_bounded by blast
qed

end
