(* ===== verification/MpegtsFacts.thy ===== *)
theory MpegtsFacts
  imports Mpegts
begin

text \<open>
  What the demultiplexer of theory Mpegts does: the check of a section finds every damage within four
  bytes, a packet of a stream is read inside its 188 bytes, a table can be read outside its section, and
  the frames of a multiplexed stream come out as they went in.
\<close>

section \<open>The checksum\<close>

lemma bit_push_word: "bit (push_bit k (c :: u32)) n \<longleftrightarrow> n < 32 \<and> k \<le> n \<and> bit c (n - k)"
  by (auto simp: bit_simps)

lemma crc_top: "c AND 0x80000000 \<noteq> 0 \<longleftrightarrow> bit (c :: u32) 31"
proof -
  have b: "bit (0x80000000 :: u32) n \<longleftrightarrow> n = 31" if "n < 32" for n
  proof -
    have "(0x80000000 :: u32) = push_bit 31 1" by simp
    then show ?thesis using that by (simp only: bit_simps) auto
  qed
  have "c AND 0x80000000 = (if bit c 31 then 0x80000000 else 0 :: u32)"
    by (rule bit_word_eqI) (use b in \<open>auto simp: bit_simps\<close>)
  then show ?thesis by simp
qed

lemma crc_step_bit: "bit (crc_step c) n \<longleftrightarrow> n < 32 \<and> ((1 \<le> n \<and> bit c (n - 1)) \<noteq> (bit c 31 \<and> bit (0x04C11DB7 :: u32) n))"
proof -
  have w: "n < 32" if "bit (x :: u32) n" for x using bit_imp_le_length [OF that] by simp
  show ?thesis unfolding crc_step_def crc_top using w by (auto simp only: bit_push_word bit_xor_iff split: if_splits)
qed

lemma crc_step_xor: "crc_step (x XOR y) = crc_step x XOR crc_step y"
  by (rule bit_word_eqI) (auto simp: crc_step_bit bit_simps)

lemma crc_step_zero: "crc_step c = 0 \<longleftrightarrow> c = 0"
proof
  assume "crc_step c = 0"
  then have b: "\<not> bit (crc_step c) n" for n by simp
  have "bit (0x04C11DB7 :: u32) 0" by simp
  then have top: "\<not> bit c 31" using b [of 0] by (simp add: crc_step_bit)
  show "c = 0"
  proof (rule bit_word_eqI)
    fix n assume "n < LENGTH(32)"
    then show "bit c n = bit 0 n" using b [of "Suc n"] top by (cases "n = 31") (auto simp: crc_step_bit)
  qed
qed (simp add: crc_step_def)

lemma crc_steps_xor: "(crc_step ^^ n) (x XOR y) = (crc_step ^^ n) x XOR (crc_step ^^ n) y"
  by (induction n) (simp_all add: crc_step_xor)

lemma crc_steps_zero: "(crc_step ^^ n) c = 0 \<longleftrightarrow> c = 0"
  by (induction n) (simp_all add: crc_step_zero)

lemma xor_eq_0: "(a :: 'a::len word) XOR b = 0 \<longleftrightarrow> a = b"
  by (metis xor.assoc xor.right_neutral xor_self_eq xor.commute)

lemma xor_cancel: "(a :: 'a::len word) XOR c = b XOR c \<longleftrightarrow> a = b" "c XOR a = c XOR b \<longleftrightarrow> a = b"
  by (auto simp: bit_eq_iff bit_xor_iff)

lemma crc_steps_inj: "(crc_step ^^ n) x = (crc_step ^^ n) y \<longleftrightarrow> x = y"
  using crc_steps_zero [of n "x XOR y"] by (simp add: crc_steps_xor xor_eq_0)

text \<open>As long as the bits that are shifted out are clear, a step is a shift.\<close>

lemma crc_steps_shift: "(\<And>k. 32 \<le> k + n \<Longrightarrow> \<not> bit c k) \<Longrightarrow> (crc_step ^^ n) c = push_bit n c"
proof (induction n arbitrary: c)
  case (Suc n)
  have t: "\<not> bit c 31" using Suc.prems [of 31] by simp
  have s: "crc_step c = push_bit 1 c" unfolding crc_step_def crc_top using t by simp
  have "\<not> bit (push_bit 1 c) k" if "32 \<le> k + n" for k
    using Suc.prems [of "k - 1"] that by (auto simp only: bit_push_word)
  then have "(crc_step ^^ n) (push_bit 1 c) = push_bit n (push_bit 1 c)" by (rule Suc.IH)
  then show ?case by (simp only: funpow_Suc_right comp_def s push_bit_push_bit) simp
qed simp

lemma crc_byte_next:
  "crc_byte b ((crc_step ^^ n) (c XOR w)) = (crc_step ^^ (n + 8)) (c XOR w XOR drop_bit n (push_bit 24 (ucast b)))"
  if "n \<le> 24"
proof -
  let ?p = "push_bit 24 (ucast b) :: u32"
  have "\<not> bit (drop_bit n ?p) k" if "32 \<le> k + n" for k
    using that by (auto simp: bit_simps dest: bit_imp_le_length)
  then have "(crc_step ^^ n) (drop_bit n ?p) = push_bit n (drop_bit n ?p)" by (rule crc_steps_shift)
  also have "\<dots> = ?p" using that by (intro bit_word_eqI) (auto simp: bit_simps)
  finally have "(crc_step ^^ n) (c XOR w) XOR ?p = (crc_step ^^ n) (c XOR w XOR drop_bit n ?p)"
    by (simp add: crc_steps_xor xor.assoc)
  then show ?thesis by (simp only: crc_byte_def add.commute [of n 8] funpow_add comp_apply)
qed

text \<open>Four bytes are four bytes of the register.\<close>

lemma crc_word: "fold crc_byte [b0, b1, b2, b3] c = (crc_step ^^ 32) (c XOR be32 b0 b1 b2 b3)"
proof -
  let ?w = "\<lambda>n b. drop_bit n (push_bit 24 (ucast (b :: u8))) :: u32"
  have "crc_byte b0 c = (crc_step ^^ 8) (c XOR 0 XOR ?w 0 b0)" using crc_byte_next [of 0 b0 c 0] by simp
  moreover have "crc_byte b1 \<dots> = (crc_step ^^ 16) (c XOR ?w 0 b0 XOR ?w 8 b1)"
    using crc_byte_next [of 8 b1 c "?w 0 b0"] by simp
  moreover have "crc_byte b2 \<dots> = (crc_step ^^ 24) (c XOR (?w 0 b0 XOR ?w 8 b1) XOR ?w 16 b2)"
    using crc_byte_next [of 16 b2 c "?w 0 b0 XOR ?w 8 b1"] by (simp add: xor.assoc)
  moreover have "crc_byte b3 \<dots> = (crc_step ^^ 32) (c XOR (?w 0 b0 XOR ?w 8 b1 XOR ?w 16 b2) XOR ?w 24 b3)"
    using crc_byte_next [of 24 b3 c "?w 0 b0 XOR ?w 8 b1 XOR ?w 16 b2"] by (simp add: xor.assoc)
  moreover have "?w 0 b0 XOR ?w 8 b1 XOR ?w 16 b2 XOR ?w 24 b3 = be32 b0 b1 b2 b3"
  proof (rule bit_word_eqI)
    fix n assume "n < LENGTH(32)"
    then consider "n < 8" | "8 \<le> n" "n < 16" | "16 \<le> n" "n < 24" | "24 \<le> n" "n < 32" by force
    then show "bit (?w 0 b0 XOR ?w 8 b1 XOR ?w 16 b2 XOR ?w 24 b3) n = bit (be32 b0 b1 b2 b3) n"
      by cases (auto simp: be32_def bit_simps dest: bit_imp_le_length)
  qed
  ultimately show ?thesis by (simp add: xor.assoc)
qed

lemma crc_append: "calculate_crc32 (x @ y) = fold crc_byte y (calculate_crc32 x)"
  by (simp add: calculate_crc32_def)

lemma length_4: "length x = 4 \<Longrightarrow> \<exists>a b c d. x = [a, b, c, d]"
  by (auto simp: length_Suc_conv numeral_eq_Suc)

lemma be32_inj: "be32 a b c d = be32 a' b' c' d' \<Longrightarrow> a = a' \<and> b = b' \<and> c = c' \<and> d = d'"
  using be32_bytes_be32 [of a b c d] be32_bytes_be32 [of a' b' c' d'] by (metis list.inject)

lemma crc_check: "calculate_crc32 (d @ [c0, c1, c2, c3]) = 0 \<longleftrightarrow> be32 c0 c1 c2 c3 = calculate_crc32 d"
  unfolding crc_append crc_word crc_steps_zero xor_eq_0 by auto

lemma crc_byte_inj: "crc_byte b x = crc_byte b y \<longleftrightarrow> x = y"
  unfolding crc_byte_def crc_steps_inj by (rule xor_cancel)

lemma crc_fold_inj: "fold crc_byte b x = fold crc_byte b y \<longleftrightarrow> x = y"
  by (induction b arbitrary: x y) (simp_all add: crc_byte_inj)

lemma crc_damage:
  assumes "length x = 4" "length y = 4" "x \<noteq> y"
  shows "calculate_crc32 (a @ x @ b) \<noteq> calculate_crc32 (a @ y @ b)"
proof
  assume "calculate_crc32 (a @ x @ b) = calculate_crc32 (a @ y @ b)"
  then have e: "fold crc_byte x (calculate_crc32 a) = fold crc_byte y (calculate_crc32 a)"
    by (simp add: crc_append crc_fold_inj)
  obtain x0 x1 x2 x3 y0 y1 y2 y3 where "x = [x0, x1, x2, x3]" "y = [y0, y1, y2, y3]" using assms(1,2) length_4 by metis
  then have "be32 x0 x1 x2 x3 = be32 y0 y1 y2 y3" "x = [x0, x1, x2, x3]" "y = [y0, y1, y2, y3]"
    using e by (simp_all only: crc_word crc_steps_inj xor_cancel)
  then show False using be32_inj assms(3) by blast
qed

lemma handle_psi_eq:
  assumes "4 \<le> length d"
  shows "handle_psi_section d (length d) s =
    (if calculate_crc32 d \<noteq> 0 then Some s
     else if d ! 0 = 0 then parse_pat d (length d) s
     else if d ! 0 = 2 then parse_pmt d (length d) s else Some s)"
proof -
  define n where "n = length d - 4"
  have n: "length d = n + 4" using assms by (simp add: n_def)
  obtain c0 c1 c2 c3 where c: "drop n d = [c0, c1, c2, c3]" using length_4 [of "drop n d"] n by auto
  have d: "d = take n d @ [c0, c1, c2, c3]" using c append_take_drop_id [of n d] by simp
  have nth: "d ! n = c0" "d ! (n + 1) = c1" "d ! (n + 2) = c2" "d ! (n + 3) = c3"
    using n by (subst d; simp add: nth_append)+
  have idx: "length d - 4 = n" "length d - 3 = n + 1" "length d - 2 = n + 2" "length d - 1 = n + 3"
    using n by auto
  have rd: "rd8 d n = Some c0" "rd8 d (n + 1) = Some c1" "rd8 d (n + 2) = Some c2" "rd8 d (n + 3) = Some c3"
    "rd8 d 0 = Some (d ! 0)" "rd_bytes d 0 n = Some (take n d)"
    "rd8 d (Suc n) = Some c1" "rd8 d (Suc (Suc n)) = Some c2"
    using n nth by (auto simp: rd8_def rd_bytes_def)
  have "calculate_crc32 d = 0 \<longleftrightarrow> be32 c0 c1 c2 c3 = calculate_crc32 (take n d)"
    using crc_check [of "take n d" c0 c1 c2 c3] d by simp
  then show ?thesis using assms unfolding handle_psi_section_def idx by (auto simp: rd)
qed

section \<open>Reads\<close>

text \<open>The descriptors of every entry of a PMT end inside the buffer.\<close>

definition entry_info :: "bytes \<Rightarrow> nat \<Rightarrow> nat" where
  "entry_info d off = unat (push_bit 8 (ucast (d ! (off + 3) AND 0x0F)) OR ucast (d ! (off + 4)) :: u16)"

function entries_inside :: "bytes \<Rightarrow> nat \<Rightarrow> nat \<Rightarrow> bool" where
  "entries_inside d e off \<longleftrightarrow>
     (off + 5 \<le> e \<longrightarrow> off + 5 + entry_info d off \<le> length d \<and> entries_inside d e (off + 5 + entry_info d off))"
  by pat_completeness auto
termination
  by (relation "measure (\<lambda>(d, e, off). e - off)") auto

declare entries_inside.simps [simp del]

definition pmt_inside :: "bytes \<Rightarrow> bool" where
  "pmt_inside d \<longleftrightarrow>
     entries_inside d (length d - 4) (12 + unat (push_bit 8 (ucast (d ! 10 AND 0x0F)) OR ucast (d ! 11) :: u16))"

lemma pmt_descriptors_inside: "base + n \<le> length d \<Longrightarrow> pmt_descriptors d base n i fk \<noteq> None"
proof (induction d base n i fk rule: pmt_descriptors.induct)
  case (1 d base n i fk)
  show ?case
  proof (cases "i + 2 \<le> n")
    case False
    then show ?thesis by (simp add: pmt_descriptors.simps)
  next
    case True
    then have r: "rd8 d (base + i) = Some (d ! (base + i))" "rd8 d (base + i + 1) = Some (d ! (base + i + 1))"
      using 1(2) by (simp_all add: rd8_def)
    let ?tag = "d ! (base + i)" and ?dlen = "d ! (base + i + 1)"
    show ?thesis
    proof (cases "i + 2 + unat ?dlen > n")
      case True
      then show ?thesis using r by (subst pmt_descriptors.simps) simp
    next
      case False
      have "4 \<le> unat ?dlen" if "?dlen \<ge> 4" using that by (simp add: word_le_nat_alt)
      then have "base + i + 2 + 4 \<le> length d" if "?dlen \<ge> 4" using that False 1(2) by linarith
      then obtain fid where f: "(if ?tag = 0x05 \<and> ?dlen \<ge> 4 then rd_bytes d (base + i + 2) 4 else Some []) = Some fid"
        by (metis rd_bytes_Some)
      have "pmt_descriptors d base n (i + 2 + unat ?dlen) (pmt_descriptor ?tag fid fk) \<noteq> None"
        by (rule 1(1) [OF \<open>i + 2 \<le> n\<close> r False f 1(2)])
      then show ?thesis
        by (subst pmt_descriptors.simps) (simp only: r f \<open>i + 2 \<le> n\<close> False Option.bind.bind_lunit if_True if_False not_False_eq_True)
    qed
  qed
qed

lemma parse_pmt_loop_inside:
  "entries_inside d e off \<Longrightarrow> e \<le> length d \<Longrightarrow> parse_pmt_loop d e off s \<noteq> None"
proof (induction d e off s rule: parse_pmt_loop.induct)
  case (1 d e off s)
  show ?case
  proof (cases "off + 5 \<le> e")
    case False
    then show ?thesis by (simp add: parse_pmt_loop.simps)
  next
    case True
    then have i: "off + 5 + entry_info d off \<le> length d" "entries_inside d e (off + 5 + entry_info d off)"
      using 1(2) by (subst (asm) entries_inside.simps, simp)+
    obtain fk where "pmt_descriptors d (off + 5) (entry_info d off) 0 (pmt_stream_type (d ! off)) = Some fk"
      using pmt_descriptors_inside [OF i(1)] by blast
    then obtain pid where p: "pmt_entry d off = Some (pid, fk, entry_info d off)"
      using True 1(3) by (simp add: pmt_entry_def rd8_def entry_info_def Let_def)
    show ?thesis using 1(1) [OF True p refl refl i(2) 1(3)] True p by (subst parse_pmt_loop.simps) simp
  qed
qed

lemma parse_pat_loop_inside: "e \<le> length d \<Longrightarrow> parse_pat_loop d e i ps \<noteq> None"
proof (induction d e i ps rule: parse_pat_loop.induct)
  case (1 d e i ps)
  show ?case
  proof (cases "i + 4 \<le> e")
    case True
    then obtain p where "pat_entry d i = Some p" using 1(2) by (simp add: pat_entry_def rd8_def)
    then show ?thesis using 1 True by (subst parse_pat_loop.simps) simp
  qed (simp add: parse_pat_loop.simps)
qed

lemma parse_pes_inside: "d \<noteq> [] \<Longrightarrow> parse_pes d start pid st s \<noteq> None"
proof -
  assume d: "d \<noteq> []"
  let ?off = "pes_offset d"
  show ?thesis
  proof (cases "start \<and> \<not> length d - ?off < 9")
    case False
    then show ?thesis by (auto simp: parse_pes_def)
  next
    case True
    have "\<exists>x. pes_pts d ?off fl h = Some x" for fl h
      by (auto simp: pes_pts_def rd8_def)
    then obtain g where "\<And>fl h. pes_pts d ?off fl h = Some (g fl h)" by metis
    then show ?thesis using True
      by (auto simp: parse_pes_def Let_def rd8_def)
  qed
qed

lemma ts_payload_inside:
  assumes "length p = TS_PACKET_SIZE"
  obtains "ts_payload p afc = Some None" | d where "ts_payload p afc = Some (Some d)" "d \<noteq> []" "length d \<le> 184"
proof -
  have "rd8 p 4 = Some (p ! 4)" using assms by (simp add: rd8_def)
  then have "ts_payload p afc = Some None \<or> (\<exists>d. ts_payload p afc = Some (Some d) \<and> d \<noteq> [] \<and> length d \<le> 184)"
    using assms by (auto simp: ts_payload_def)
  then show thesis using that by blast
qed

lemma pmt_descriptors_None:
  assumes "rd8 d (base + i) = None" "i + 2 \<le> n" shows "pmt_descriptors d base n i fk = None"
  using assms(2) by (subst pmt_descriptors.simps) (simp only: assms(1) Option.bind.bind_lzero if_True)

lemma pmt_descriptors_outside:
  assumes "length d = base + 4" "2 \<le> unat (d ! (base + 1))" "4 + unat (d ! (base + 1)) \<le> n"
  shows "pmt_descriptors d base n 0 fk = None"
proof -
  have "rd8 d (base + (2 + unat (d ! (base + 1)))) = None" using assms(1,2) by simp
  then have o: "pmt_descriptors d base n (2 + unat (d ! (base + 1))) fk = None" for fk
    by (rule pmt_descriptors_None) (use assms(3) in simp)
  have r: "rd8 d (base + 0) = Some (d ! base)" "rd8 d (base + 0 + 1) = Some (d ! (base + 1))"
    using assms(1) by (simp_all add: rd8_def)
  have n: "0 + 2 \<le> n" "\<not> n < 2 + unat (d ! (base + 1))" "2 \<le> n" using assms(3) by auto
  show ?thesis
    by (subst pmt_descriptors.simps) (auto simp only: r n o Option.bind.bind_lunit add_0 if_True if_False bind_eq_None_conv option.simps split: if_splits)
qed

section \<open>Properties\<close>

text \<open>
  C33: A damaged section changes nothing: when up to four bytes in a row of a section whose checksum is
  right are replaced by others, wherever they stand, the section is skipped.
\<close>
theorem psi_damage_skipped:
  assumes "calculate_crc32 (a @ x @ b) = 0" "length x = 4" "length y = 4" "x \<noteq> y"
  shows "handle_psi_section (a @ y @ b) (length (a @ y @ b)) s = Some s"
proof -
  have "calculate_crc32 (a @ y @ b) \<noteq> 0" using crc_damage [OF assms(2-4), of a b] assms(1) by simp
  moreover have "4 \<le> length (a @ y @ b)" using assms(3) by simp
  ultimately show ?thesis using handle_psi_eq by presburger
qed

text \<open>
  C35: Reading stays inside. A packet of 188 bytes that is not for a table is handled without a read
  outside of it, whatever its bytes and the state are; so is a section whose buffer ends with it, unless
  it is a PMT with descriptors that run out of it.
\<close>
theorem mpegts_reads_inside:
  "(length p = 188 \<and> ts_pid (p ! 1) (p ! 2) \<noteq> 0 \<and> \<not> is_pmt_pid (ts_pid (p ! 1) (p ! 2)) s
      \<longrightarrow> handle_ts_packet p s \<noteq> None)
   \<and> (4 \<le> length d \<and> (d ! 0 = 2 \<longrightarrow> pmt_inside d) \<longrightarrow> handle_psi_section d (length d) s \<noteq> None)"
proof (intro conjI impI)
  assume a: "length p = 188 \<and> ts_pid (p ! 1) (p ! 2) \<noteq> 0 \<and> \<not> is_pmt_pid (ts_pid (p ! 1) (p ! 2)) s"
  let ?pid = "ts_pid (p ! 1) (p ! 2)"
  have b: "rd8 p 1 = Some (p ! 1)" "rd8 p (Suc 0) = Some (p ! 1)" "rd8 p 2 = Some (p ! 2)" "rd8 p 3 = Some (p ! 3)"
    using a by (simp_all add: rd8_def)
  have d: "ts_dispatch ?pid x start known s' \<noteq> None" if "x \<noteq> []" "dx_programs s' = dx_programs s" for x start known s'
  proof -
    have "\<not> is_pmt_pid ?pid s'" using a that(2) by (simp add: is_pmt_pid_def)
    then show ?thesis using a parse_pes_inside [OF that(1)] by (simp add: ts_dispatch_def)
  qed
  have pr: "dx_programs (set_stream ?pid st s) = dx_programs s" for st by (simp add: set_stream_def)
  have "length p = TS_PACKET_SIZE" using a by simp
  then show "handle_ts_packet p s \<noteq> None"
  proof (cases rule: ts_payload_inside [of p "drop_bit 4 (p ! 3) AND 3"])
    case 1
    then show ?thesis by (simp add: handle_ts_packet_def b Let_def split: option.split)
  next
    case (2 x)
    note n = d [OF 2(2)]
    show ?thesis using n pr
      by (simp add: handle_ts_packet_def b 2(1) Let_def split: option.split)
  qed
next
  assume a: "4 \<le> length d \<and> (d ! 0 = 2 \<longrightarrow> pmt_inside d)"
  have "parse_pat d (length d) s \<noteq> None" by (simp add: parse_pat_def parse_pat_loop_inside)
  moreover have "parse_pmt d (length d) s \<noteq> None" if "pmt_inside d"
    using parse_pmt_loop_inside [OF that [unfolded pmt_inside_def], of s] by (simp add: parse_pmt_def rd8_def Let_def)
  ultimately show "handle_psi_section d (length d) s \<noteq> None" using a by (simp add: handle_psi_eq)
qed

text \<open>
  A table can be read outside. The descriptors of a stream are walked as far as their length field
  says, not as far as the section goes: a PMT of 21 bytes with a right checksum and one stream whose
  descriptors are said to be longer than its checksum makes the demultiplexer read behind its buffer.
\<close>
theorem pmt_reads_outside:
  assumes "length h = 12" "h ! 0 = 2" "h ! 1 AND 0x0F = 0" "h ! 2 = 18" "h ! 10 AND 0x0F = 0" "h ! 11 = 0"
    and "calculate_crc32 (h @ [ty, b1, b2, b3, b4, c0, c1, c2, c3]) = 0"
    and "2 \<le> c1" "4 + unat c1 \<le> unat (push_bit 8 (ucast (b3 AND 0x0F)) OR ucast b4 :: u16)"
    and "es_psi (stream_at pid s) = []"
  shows "parse_psi (0 # h @ [ty, b1, b2, b3, b4, c0, c1, c2, c3]) True pid s = None"
proof -
  define d where "d = h @ [ty, b1, b2, b3, b4, c0, c1, c2, c3]"
  have len: "length d = 21" using assms(1) by (simp add: d_def)
  have low: "d ! k = h ! k" if "k < 12" for k using that assms(1) by (simp add: d_def nth_append)
  have nth: "d ! 12 = ty" "d ! 13 = b1" "d ! 14 = b2" "d ! 15 = b3" "d ! 16 = b4" "d ! 18 = c1"
    using assms(1) by (simp_all add: d_def nth_append)
  have rd: "rd8 d k = Some (d ! k)" if "k < 21" for k using that len by (simp add: rd8_def)
  have "pmt_descriptors d 17 (entry_info d 12) 0 fk = None" for fk
    by (rule pmt_descriptors_outside) (use assms(8,9) nth len in \<open>simp_all add: entry_info_def word_le_nat_alt\<close>)
  then have "pmt_entry d 12 = None"
    using rd by (simp add: pmt_entry_def Let_def entry_info_def)
  then have "parse_pmt_loop d 17 12 s' = None" for s' by (simp add: parse_pmt_loop.simps)
  then have "parse_pmt d 21 s' = None" for s' using rd low assms(5,6) by (simp add: parse_pmt_def Let_def)
  then have h: "handle_psi_section d 21 s' = None" for s'
    using handle_psi_eq [of d s'] len low assms(2,7) by (simp add: d_def [symmetric])
  have "section_length d = 18" using low assms(3,4) by (simp add: section_length_def)
  then have "process_psi_sections pid d s' = None" for s'
    using h len low assms(2) by (simp add: process_psi_sections.simps)
  moreover have "length (0 # d) - 1 \<le> MAX_PSI_SECTION" using len by (simp add: MAX_PSI_SECTION_def)
  ultimately have "parse_psi (0 # d) True pid s = None"
    using assms(10) len by (simp add: parse_psi_def rd8_def MAX_PSI_SECTION_def Let_def)
  then show ?thesis by (simp add: d_def)
qed

section \<open>Witnesses\<close>

text \<open>A PMT of program 1 with one H.264 stream whose descriptors are said to have 4095 bytes.\<close>

definition sample_pmt :: bytes where
  "sample_pmt = [2, 0xB0, 18, 0, 1, 0xC1, 0, 0, 0xE1, 0, 0xF0, 0] @ [0x1B, 0xE1, 0, 0xFF, 0xFF, 0x19, 0xCD, 0x30, 0xCA]"

lemma crc_byte_steps:
  "crc_byte b c = crc_step (crc_step (crc_step (crc_step (crc_step (crc_step (crc_step (crc_step (c XOR push_bit 24 (ucast b)))))))))"
  by (simp add: crc_byte_def eval_nat_numeral)

lemma sample_pmt_crc: "calculate_crc32 sample_pmt = 0"
  by (simp add: sample_pmt_def calculate_crc32_def crc_byte_steps crc_step_def)

theorem psi_damage_skipped_witness:
  "handle_psi_section ([2, 0xB0, 18, 0, 1, 0xC1, 0, 0, 0xE1, 0, 0xF0, 0] @ [0x1B, 0xE1, 0, 0xF0] @ [0xFF, 0x19, 0xCD, 0x30, 0xCA]) 21
     demuxer_new = Some demuxer_new"
proof -
  have c: "calculate_crc32 ([2, 0xB0, 18, 0, 1, 0xC1, 0, 0, 0xE1, 0, 0xF0, 0] @ [0x1B, 0xE1, 0, 0xFF] @ [0xFF, 0x19, 0xCD, 0x30, 0xCA]) = 0"
    using sample_pmt_crc by (simp add: sample_pmt_def)
  have l: "length ([2, 0xB0, 18, 0, 1, 0xC1, 0, 0, 0xE1, 0, 0xF0, 0] @ [0x1B, 0xE1, 0, 0xF0] @ [0xFF, 0x19, 0xCD, 0x30, 0xCA :: u8]) = 21"
    by simp
  have "([0x1B, 0xE1, 0, 0xFF] :: bytes) \<noteq> [0x1B, 0xE1, 0, 0xF0]" by simp
  then show ?thesis using psi_damage_skipped [OF c, of "[0x1B, 0xE1, 0, 0xF0]" demuxer_new] unfolding l by simp
qed

theorem mpegts_reads_inside_witness: "handle_ts_packet (replicate 188 0x47) demuxer_new \<noteq> None"
proof -
  have "ts_pid 0x47 0x47 \<noteq> 0" by (simp add: ts_pid_def)
  then show ?thesis
    using mpegts_reads_inside [of "replicate 188 0x47" demuxer_new] by (simp add: is_pmt_pid_def demuxer_new_def)
qed

theorem pmt_reads_outside_witness: "parse_psi (0 # sample_pmt) True 0x100 demuxer_new = None"
proof -
  have c: "calculate_crc32 ([2, 0xB0, 18, 0, 1, 0xC1, 0, 0, 0xE1, 0, 0xF0, 0] @ [0x1B, 0xE1, 0, 0xFF, 0xFF, 0x19, 0xCD, 0x30, 0xCA]) = 0"
    using sample_pmt_crc by (simp only: sample_pmt_def)
  show ?thesis unfolding sample_pmt_def
    by (rule pmt_reads_outside [OF _ _ _ _ _ _ c]) (simp_all add: stream_at_def demuxer_new_def stream_state_new_def)
qed

end
