(* ===== verification/MpegtsFrames.thy ===== *)
theory MpegtsFrames
  imports MpegtsFacts
begin

text \<open>
  A multiplexer in the format of ISO 13818-1, as a specification: the packets of a PES unit with a time
  stamp. The demultiplexer of theory Mpegts takes the frame back from them.
\<close>

section \<open>The format\<close>

text \<open>A packet of 188 bytes; a short payload is preceded by a stuffed adaptation field.\<close>

definition ts_packet :: "u16 \<Rightarrow> bool \<Rightarrow> u8 \<Rightarrow> bytes \<Rightarrow> bytes" where
  "ts_packet pid start cc d =
     [0x47, (if start then 0x40 else 0) OR ucast (drop_bit 8 pid), ucast pid,
      (if length d = 184 then 0x10 else 0x30) OR cc]
     @ (if length d = 184 then [] else of_nat (183 - length d) # replicate (183 - length d) 0xFF) @ d"

definition pts_bytes :: "u64 \<Rightarrow> bytes" where
  "pts_bytes pts = [0x21 OR (ucast (drop_bit 29 pts) AND 0x0E), ucast (drop_bit 22 pts), 1 OR (ucast (drop_bit 14 pts) AND 0xFE),
     ucast (drop_bit 7 pts), 1 OR (ucast (push_bit 1 pts) AND 0xFE)]"

definition pes_header :: "u8 \<Rightarrow> u64 \<Rightarrow> bytes" where
  "pes_header sid pts = [0, 0, 1, sid, 0, 0, 0x80, 0x80, 5] @ pts_bytes pts"

text \<open>The counter of a packet is never that of the one before.\<close>

definition cc_next :: "u8 \<Rightarrow> u8" where
  "cc_next cc = (cc + 1) AND 0x0F"

fun continue_packets :: "u16 \<Rightarrow> u8 \<Rightarrow> bytes list \<Rightarrow> bytes list" where
  "continue_packets pid cc [] = []"
| "continue_packets pid cc (d # ds) = ts_packet pid False cc d # continue_packets pid (cc_next cc) ds"

text \<open>A unit: its time stamp, what is behind the header in the first packet, and the other packets.\<close>

record pes_unit =
  pu_pts :: u64
  pu_first :: bytes
  pu_more :: "bytes list"

definition unit_packets :: "u16 \<Rightarrow> u8 \<Rightarrow> u8 \<Rightarrow> pes_unit \<Rightarrow> bytes list" where
  "unit_packets pid sid cc u =
     ts_packet pid True cc (pes_header sid (pu_pts u) @ pu_first u) # continue_packets pid (cc_next cc) (pu_more u)"

fun multiplex :: "u16 \<Rightarrow> u8 \<Rightarrow> u8 \<Rightarrow> pes_unit list \<Rightarrow> bytes list" where
  "multiplex pid sid cc [] = []"
| "multiplex pid sid cc (u # us) =
     unit_packets pid sid cc u @ multiplex pid sid ((cc_next ^^ length (pu_more u)) (cc_next cc)) us"

definition payload_ok :: "bytes \<Rightarrow> bool" where
  "payload_ok d \<longleftrightarrow> d \<noteq> [] \<and> length d \<le> 184"

definition unit_ok :: "pes_unit \<Rightarrow> bool" where
  "unit_ok u \<longleftrightarrow> pu_first u \<noteq> [] \<and> length (pu_first u) \<le> 170 \<and> list_all payload_ok (pu_more u)
     \<and> length (pu_first u) + length (concat (pu_more u)) \<le> MAX_PES_BUFFER"

definition unit_frame :: "media_format \<Rightarrow> media_kind \<Rightarrow> pes_unit \<Rightarrow> media_frame" where
  "unit_frame fmt k u = \<lparr>mf_kind = k, mf_format = fmt, mf_timestamp = ucast (pu_pts u),
     mf_data = pu_first u @ concat (pu_more u), mf_info = None\<rparr>"

section \<open>One packet\<close>

lemma length_ts_packet [simp]: "payload_ok d \<Longrightarrow> length (ts_packet pid start cc d) = 188"
  by (auto simp: ts_packet_def payload_ok_def Suc_le_eq)

lemma ts_pid_packet:
  assumes "pid < 0x2000"
  shows "ts_pid ((if start then 0x40 else 0) OR ucast (drop_bit 8 pid)) (ucast pid) = pid"
proof -
  have high: "bit pid n \<Longrightarrow> n < 13" for n using bit_less_exp [of pid 13 n] assms by simp
  then have n: "\<not> bit pid 13" "\<not> bit pid 14" "\<not> bit pid 15" by force+
  have b: "((if start then 0x40 else 0) OR ucast (drop_bit 8 pid)) AND (0x1F :: u8) = ucast (drop_bit 8 pid)"
    by (cases start; rule u8_eqI; simp add: bit_simps n)
  have "push_bit 8 (ucast (ucast (drop_bit 8 pid) :: u8)) OR ucast (ucast pid :: u8) = pid"
  proof (rule bit_word_eqI)
    fix n assume "n < LENGTH(16)"
    then show "bit (push_bit 8 (ucast (ucast (drop_bit 8 pid) :: u8)) OR ucast (ucast pid :: u8) :: u16) n = bit pid n"
      by (cases "n < 8") (auto simp: bit_simps)
  qed
  then show ?thesis by (simp only: ts_pid_def b)
qed

lemma ts_control:
  assumes "cc < 16"
  shows "(0x10 OR cc) AND 0x0F = cc" "(0x30 OR cc) AND 0x0F = cc"
    "drop_bit 4 (0x10 OR cc) AND 3 = 1" "drop_bit 4 (0x30 OR cc) AND 3 = (3 :: u8)"
proof -
  have b: "\<not> bit cc 4" "\<not> bit cc 5" "\<not> bit cc 6" "\<not> bit cc 7" using u8_bits_less(1) [OF assms] by fastforce+
  show "(0x10 OR cc) AND 0x0F = cc" "(0x30 OR cc) AND 0x0F = cc"
    "drop_bit 4 (0x10 OR cc) AND 3 = 1" "drop_bit 4 (0x30 OR cc) AND 3 = (3 :: u8)"
    by (rule u8_eqI; simp add: bit_simps b)+
qed

lemma ts_start: "(((if start then 0x40 else 0) OR ucast (drop_bit 8 (pid :: u16))) AND 0x80 :: u8) = 0"
  "((((if start then 0x40 else 0) OR ucast (drop_bit 8 pid)) AND 0x40 :: u8) \<noteq> 0) = start"
  if "pid < 0x2000"
proof -
  have high: "bit pid n \<Longrightarrow> n < 13" for n using bit_less_exp [of pid 13 n] that by simp
  then have n: "\<not> bit pid 14" "\<not> bit pid 15" by force+
  have z: "ucast (drop_bit 8 pid) AND (0x80 :: u8) = 0" "ucast (drop_bit 8 pid) AND (0x40 :: u8) = 0"
    by (rule u8_eqI; simp add: bit_simps n)+
  have "(0x40 OR ucast (drop_bit 8 pid)) AND (0x80 :: u8) = 0" "(0x40 OR ucast (drop_bit 8 pid)) AND (0x40 :: u8) = 0x40"
    by (rule u8_eqI; simp add: bit_simps n)+
  then show "(((if start then 0x40 else 0) OR ucast (drop_bit 8 pid)) AND 0x80 :: u8) = 0"
    "((((if start then 0x40 else 0) OR ucast (drop_bit 8 pid)) AND 0x40 :: u8) \<noteq> 0) = start" using z by simp_all
qed

text \<open>The fields of a packet, as the demultiplexer reads them.\<close>

lemma ts_packet_reads:
  "rd8 (ts_packet pid start cc d) 1 = Some ((if start then 0x40 else 0) OR ucast (drop_bit 8 pid))"
  "rd8 (ts_packet pid start cc d) (Suc 0) = Some ((if start then 0x40 else 0) OR ucast (drop_bit 8 pid))"
  "rd8 (ts_packet pid start cc d) 2 = Some (ucast pid)"
  "rd8 (ts_packet pid start cc d) 3 = Some ((if length d = 184 then 0x10 else 0x30) OR cc)"
  by (simp_all add: ts_packet_def rd8_def)

lemma ts_packet_payload:
  assumes "payload_ok d" "cc < 16"
  shows "ts_payload (ts_packet pid start cc d) (drop_bit 4 ((if length d = 184 then 0x10 else 0x30) OR cc) AND 3) = Some (Some d)"
proof -
  have c: "drop_bit 4 ((if length d = 184 then 0x10 else 0x30) OR cc) AND 3 = (if length d = 184 then 1 else 3 :: u8)"
    using ts_control(3,4) [OF assms(2)] by simp
  show ?thesis
  proof (cases "length d = 184")
    case True
    then show ?thesis unfolding c by (simp add: ts_payload_def ts_packet_def)
  next
    case False
    then have n: "length d \<le> 183" "length d \<noteq> 0" using assms(1) by (auto simp: payload_ok_def)
    then have u: "unat (of_nat (183 - length d) :: u8) = 183 - length d" by (subst unat_of_nat) simp
    have r: "rd8 (ts_packet pid start cc d) 4 = Some (of_nat (183 - length d))" using False by (simp add: ts_packet_def rd8_def)
    obtain pre where pre: "ts_packet pid start cc d = pre @ d" "length pre = 188 - length d"
    proof
      show "ts_packet pid start cc d = ([0x47, (if start then 0x40 else 0) OR ucast (drop_bit 8 pid), ucast pid, 0x30 OR cc,
          of_nat (183 - length d)] @ replicate (183 - length d) 0xFF) @ d" using False by (simp add: ts_packet_def)
      show "length ([0x47, (if start then 0x40 else 0) OR ucast (drop_bit 8 pid), ucast pid, 0x30 OR cc,
          of_nat (183 - length d)] @ replicate (183 - length d) 0xFF) = 188 - length d" using n by simp
    qed
    have "5 + (183 - length d) = 188 - length d" "\<not> 188 - length d \<ge> 188" using n by linarith+
    moreover have "take (188 - (188 - length d)) (drop (188 - length d) (ts_packet pid start cc d)) = d" using n pre by simp
    ultimately show ?thesis unfolding c using False r u by (simp add: ts_payload_def)
  qed
qed

lemma cc_next: assumes "cc < 16" shows "cc_next cc < 16" "cc_next cc \<noteq> cc"
proof -
  have "cc_next cc = take_bit 4 (cc + 1)" by (simp add: cc_next_def take_bit_eq_mask mask_eq_exp_minus_1)
  moreover have "unat cc < 16" using assms by (simp add: word_less_nat_alt)
  moreover from this have "unat (cc + 1) = unat cc + 1" by (simp add: unat_word_ariths)
  ultimately have u: "unat (cc_next cc) = (unat cc + 1) mod 16" by (simp add: take_bit_eq_mod unat_mod_distrib)
  then show "cc_next cc < 16" by (simp add: word_less_nat_alt)
  show "cc_next cc \<noteq> cc" using u \<open>unat cc < 16\<close> by (auto simp: mod_Suc split: if_splits)
qed

section \<open>Aligned packets\<close>

text \<open>Packets that take a state to another, whatever the input buffer is.\<close>

definition at_input :: "bytes \<Rightarrow> nat \<Rightarrow> demuxer \<Rightarrow> demuxer" where
  "at_input b r s = s\<lparr>dx_buffer := b, dx_read := r\<rparr>"

fun feeds :: "bytes list \<Rightarrow> demuxer \<Rightarrow> demuxer \<Rightarrow> bool" where
  "feeds [] s s' \<longleftrightarrow> s' = s"
| "feeds (p # ps) s s' \<longleftrightarrow>
     (\<exists>s1. length p = 188 \<and> p ! 0 = 0x47 \<and> (\<forall>b r. handle_ts_packet p (at_input b r s) = Some (at_input b r s1)) \<and> feeds ps s1 s')"

lemma feeds_append: "feeds (ps @ qs) s s' \<longleftrightarrow> (\<exists>s1. feeds ps s s1 \<and> feeds qs s1 s')"
  by (induction ps arbitrary: s) auto

lemma at_input_simps [simp]:
  "dx_buffer (at_input b r s) = b" "dx_read (at_input b r s) = r" "dx_queue (at_input b r s) = dx_queue s"
  "dx_streams (at_input b r s) = dx_streams s" "dx_programs (at_input b r s) = dx_programs s"
  "set_stream pid st (at_input b r s) = at_input b r (set_stream pid st s)"
  "push_media f (at_input b r s) = at_input b r (push_media f s)"
  "stream_at pid (at_input b r s) = stream_at pid s" "is_pmt_pid pid (at_input b r s) = is_pmt_pid pid s"
  "at_input b r (at_input b' r' s) = at_input b r s"
  "(at_input b r s)\<lparr>dx_buffer := b'\<rparr> = at_input b' r s" "(at_input b r s)\<lparr>dx_read := r'\<rparr> = at_input b r' s"
  by (simp_all add: at_input_def set_stream_def push_media_def stream_at_def is_pmt_pid_def)

lemma find_sync_aligned:
  assumes "length p = 188" "p ! 0 = 0x47" "rest = [] \<or> rest ! 0 = 0x47"
  shows "find_sync (pre @ p @ rest) (length pre) = (True, pre @ p @ rest, length pre)"
proof -
  obtain q where p: "p = 0x47 # q" using assms(1,2) by (cases p) auto
  have "find_byte 0x47 (length pre) (pre @ p @ rest) = Some (length pre)" by (simp add: find_byte_def p)
  moreover have "(pre @ p @ rest) ! (length pre + 188) = rest ! 0" using assms(1) by (simp add: nth_append)
  ultimately show ?thesis using assms by (subst find_sync.simps) (auto simp: Let_def)
qed

lemma process_feeds:
  assumes "length r < 188" "r = [] \<or> r ! 0 = 0x47"
  shows "feeds ps s s' \<Longrightarrow> process_ts_packets (at_input (pre @ concat ps @ r) (length pre) s) = Some (at_input r 0 s')"
proof (induction ps arbitrary: pre s)
  case Nil
  have "find_sync (pre @ r) (length pre) = (False, r, 0)" using assms(1) by (subst find_sync.simps) simp
  then show ?case using Nil by (subst process_ts_packets.simps) simp
next
  case (Cons p ps)
  then obtain s1 where p: "length p = 188" "p ! 0 = 0x47" "feeds ps s1 s'"
    and h: "\<And>b r. handle_ts_packet p (at_input b r s) = Some (at_input b r s1)" by auto
  have "concat ps @ r = [] \<or> (concat ps @ r) ! 0 = 0x47"
    using p(3) assms(2) by (cases ps) (auto simp: nth_append)
  then have "find_sync (pre @ p @ concat ps @ r) (length pre) = (True, pre @ p @ concat ps @ r, length pre)"
    using find_sync_aligned p by blast
  moreover have "process_ts_packets (at_input ((pre @ p) @ concat ps @ r) (length (pre @ p)) s1) = Some (at_input r 0 s')"
    by (rule Cons.IH [OF p(3)])
  ultimately show ?case using p(1) h by (subst process_ts_packets.simps) simp
qed

section \<open>Packets of a unit\<close>

lemma fm_set_again [simp]: "fm_set k v (fm_set k w m) = fm_set k v m"
  by (induction k w m rule: fm_set.induct) auto

lemma set_stream_again [simp]:
  "set_stream pid st (set_stream pid st' s) = set_stream pid st s"
  "push_media f (set_stream pid st s) = set_stream pid st (push_media f s)"
  "stream_at pid (set_stream pid st s) = st" "is_pmt_pid q (set_stream pid st s) = is_pmt_pid q s"
  "is_pmt_pid q (push_media f s) = is_pmt_pid q s"
  "map_of (dx_streams (set_stream pid st s)) pid = Some st"
  "dx_queue (set_stream pid st s) = dx_queue s" "dx_streams (push_media f s) = dx_streams s"
  by (simp_all add: set_stream_def push_media_def stream_at_def is_pmt_pid_def map_of_fm_set)

definition counted :: "u8 \<Rightarrow> stream_state \<Rightarrow> stream_state" where
  "counted cc st = st\<lparr>es_cc := cc, es_first_cc := False\<rparr>"

lemma packet_to_pes:
  assumes "map_of (dx_streams s) pid = Some st" "pid \<noteq> 0" "pid < 0x2000" "\<not> is_pmt_pid pid s" "payload_ok d" "cc < 16"
    and "es_first_cc st \<or> es_cc st \<noteq> cc"
  shows "handle_ts_packet (ts_packet pid start cc d) (at_input b r s)
    = parse_pes d start pid (counted cc st) (at_input b r (set_stream pid (counted cc st) s))"
proof -
  have c: "((if length d = 184 then 0x10 else 0x30) OR cc) AND 0x0F = cc" using ts_control(1,2) [OF assms(6)] by simp
  define b1 b2 b3 where b: "b1 = (if start then 0x40 else 0) OR ucast (drop_bit 8 pid)" "b2 = (ucast pid :: u8)"
    "b3 = (if length d = 184 then 0x10 else 0x30) OR cc"
  note facts = ts_packet_reads [of pid start cc d, folded b] ts_packet_payload [OF assms(5,6), of pid start, folded b]
    ts_pid_packet [OF assms(3), of start, folded b] ts_start [OF assms(3), of start, folded b] c [folded b]
  show ?thesis using assms(1,2,4,7) by (auto simp: handle_ts_packet_def facts ts_dispatch_def counted_def)
qed

lemma pts_bytes_parts:
  "(0x21 OR (ucast (drop_bit 29 (pts :: u64)) AND 0x0E)) AND 0xF0 = (0x20 :: u8)"
  "(1 OR (ucast (drop_bit 14 pts) AND 0xFE)) AND 1 = (1 :: u8)"
  "(1 OR (ucast (push_bit 1 pts) AND 0xFE)) AND 1 = (1 :: u8)"
  by (rule u8_eqI; simp add: bit_simps)+

lemma pts_bytes_value:
  "(ucast (push_bit 29 (ucast ((0x21 OR (ucast (drop_bit 29 (pts :: u64)) AND 0x0E :: u8)) AND 0x0E))
     OR push_bit 22 (ucast (ucast (drop_bit 22 pts) :: u8))
     OR push_bit 14 (ucast ((1 OR (ucast (drop_bit 14 pts) AND 0xFE :: u8)) AND 0xFE))
     OR push_bit 7 (ucast (ucast (drop_bit 7 pts) :: u8))
     OR drop_bit 1 (ucast ((1 OR (ucast (push_bit 1 pts) AND 0xFE :: u8)) AND 0xFE)) :: u64) :: u32) = ucast pts"
proof -
  have m: "(0x21 OR (ucast (drop_bit 29 pts) AND 0x0E)) AND (0x0E :: u8) = ucast (drop_bit 29 pts) AND 0x0E"
    "(1 OR (ucast (drop_bit 14 pts) AND 0xFE)) AND (0xFE :: u8) = ucast (drop_bit 14 pts) AND 0xFE"
    "(1 OR (ucast (push_bit 1 pts) AND 0xFE)) AND (0xFE :: u8) = ucast (push_bit 1 pts) AND 0xFE"
    by (rule u8_eqI; simp add: bit_simps)+
  have b: "bit (0x0E :: u8) k \<longleftrightarrow> 1 \<le> k \<and> k < 4" "bit (0xFE :: u8) k \<longleftrightarrow> 1 \<le> k \<and> k < 8" for k
  proof -
    have "(0x0E :: u8) = push_bit 1 (mask 3)" "(0xFE :: u8) = push_bit 1 (mask 7)" by (simp_all add: mask_eq_exp_minus_1)
    then show "bit (0x0E :: u8) k \<longleftrightarrow> 1 \<le> k \<and> k < 4" "bit (0xFE :: u8) k \<longleftrightarrow> 1 \<le> k \<and> k < 8"
      by (simp_all only: bit_simps) auto
  qed
  show ?thesis unfolding m
  proof (rule bit_word_eqI)
    fix n assume n: "n < LENGTH(32)"
    then consider "n < 7" | "7 \<le> n" "n < 15" | "15 \<le> n" "n < 22" | "22 \<le> n" "n < 30" | "30 \<le> n" "n < 32" by fastforce
    then show "bit (ucast (push_bit 29 (ucast (ucast (drop_bit 29 pts) AND 0x0E :: u8))
        OR push_bit 22 (ucast (ucast (drop_bit 22 pts) :: u8))
        OR push_bit 14 (ucast (ucast (drop_bit 14 pts) AND 0xFE :: u8))
        OR push_bit 7 (ucast (ucast (drop_bit 7 pts) :: u8))
        OR drop_bit 1 (ucast (ucast (push_bit 1 pts) AND 0xFE :: u8)) :: u64) :: u32) n = bit (ucast pts :: u32) n"
      by cases (simp_all only: bit_simps b comp_def, auto)
  qed
qed

definition filled :: "u8 \<Rightarrow> u64 \<Rightarrow> bytes \<Rightarrow> stream_state \<Rightarrow> stream_state" where
  "filled sid pts d st = st\<lparr>es_kind := pes_kind sid (es_kind st), es_pts := ucast pts, es_has_pts := True, es_pes := d\<rparr>"

lemma parse_pes_header:
  assumes "d \<noteq> []" "length d \<le> 170"
  shows "parse_pes (pes_header sid pts @ d) True pid st s = Some (set_stream pid (filled sid pts d st)
    (if es_pes st = [] then s else push_media (pes_frame (st\<lparr>es_kind := pes_kind sid (es_kind st)\<rparr>)) s))"
proof -
  let ?h = "pes_header sid pts @ d"
  have off: "pes_offset ?h = 0" by (simp add: pes_offset_def pes_header_def)
  have len: "\<not> length ?h - 0 < 9" "length ?h - 0 \<ge> 14" "14 < length ?h" using assms(1) by (simp_all add: pes_header_def pts_bytes_def Suc_le_eq)
  have r: "rd8 ?h (0 + 3) = Some sid" "rd8 ?h (0 + 6) = Some 0x80" "rd8 ?h (0 + 7) = Some 0x80" "rd8 ?h (0 + 8) = Some 5"
    by (simp_all add: rd8_def pes_header_def)
  have f: "(push_bit 8 (ucast (0x80 :: u8)) OR ucast (0x80 :: u8) :: u16) = 0x8080" by (simp add: push_bit_eq_mult)
  have "pes_pts ?h 0 0x8080 5 = Some (Some (ucast pts))"
    unfolding pes_pts_def using len pts_bytes_parts pts_bytes_value
    by (simp add: rd8_def pes_header_def pts_bytes_def)
  moreover have "length (pes_header sid pts) = 14" by (simp add: pes_header_def pts_bytes_def)
  ultimately show ?thesis unfolding parse_pes_def off
    using len r f assms(2) by (simp add: filled_def Let_def MAX_PES_BUFFER_def)
qed

text \<open>A stream that can take a packet with a counter.\<close>

definition ready :: "u16 \<Rightarrow> u8 \<Rightarrow> stream_state \<Rightarrow> demuxer \<Rightarrow> bool" where
  "ready pid cc st s \<longleftrightarrow> pid \<noteq> 0 \<and> pid < 0x2000 \<and> \<not> is_pmt_pid pid s \<and> cc < 16 \<and> (es_first_cc st \<or> es_cc st \<noteq> cc)"

lemma start_feeds:
  assumes "ready pid cc st s" "map_of (dx_streams s) pid = Some st" "d \<noteq> []" "length d \<le> 170"
  shows "feeds [ts_packet pid True cc (pes_header sid pts @ d)] s (set_stream pid (filled sid pts d (counted cc st))
    (if es_pes st = [] then s else push_media (pes_frame (st\<lparr>es_kind := pes_kind sid (es_kind st)\<rparr>)) s))"
proof -
  have ok: "payload_ok (pes_header sid pts @ d)" using assms(4) by (simp add: payload_ok_def pes_header_def pts_bytes_def)
  have hd: "ts_packet pid True cc (pes_header sid pts @ d) ! 0 = 0x47" by (simp add: ts_packet_def)
  have "pes_frame ((counted cc st)\<lparr>es_kind := k\<rparr>) = pes_frame (st\<lparr>es_kind := k\<rparr>)" "es_pes (counted cc st) = es_pes st"
    "es_kind (counted cc st) = es_kind st" for k by (simp_all add: counted_def pes_frame_def)
  then show ?thesis
    using assms ok hd packet_to_pes [OF assms(2) _ _ _ ok, of cc True] parse_pes_header [OF assms(3,4), of sid pts pid "counted cc st"]
    by (simp add: ready_def)
qed

fun continued :: "u8 \<Rightarrow> bytes list \<Rightarrow> stream_state \<Rightarrow> stream_state" where
  "continued cc [] st = st"
| "continued cc (d # ds) st = continued (cc_next cc) ds ((counted cc st)\<lparr>es_pes := es_pes st @ d\<rparr>)"

lemma continue_feeds:
  assumes "ready pid cc st s" "es_pes st \<noteq> []" "list_all payload_ok ds" "length (es_pes st) + length (concat ds) \<le> MAX_PES_BUFFER"
  shows "feeds (continue_packets pid cc ds) (set_stream pid st s) (set_stream pid (continued cc ds st) s)"
  using assms
proof (induction ds arbitrary: cc st)
  case (Cons d ds)
  let ?st = "(counted cc st)\<lparr>es_pes := es_pes st @ d\<rparr>"
  have d: "payload_ok d" using Cons.prems by simp
  have c: "es_cc ?st = cc" "\<not> es_first_cc ?st" "es_pes (counted cc st) = es_pes st" by (simp_all add: counted_def)
  have "handle_ts_packet (ts_packet pid False cc d) (at_input b r (set_stream pid st s))
      = Some (at_input b r (set_stream pid ?st s))" for b r
    using Cons.prems c packet_to_pes [of "set_stream pid st s" pid st d cc False] by (simp add: ready_def parse_pes_def)
  moreover have "feeds (continue_packets pid (cc_next cc) ds) (set_stream pid ?st s) (set_stream pid (continued (cc_next cc) ds ?st) s)"
    by (rule Cons.IH) (use Cons.prems c cc_next [of cc] in \<open>auto simp: ready_def\<close>)
  moreover have "ts_packet pid False cc d ! 0 = 0x47" by (simp add: ts_packet_def)
  ultimately show ?case using d by auto
qed simp

lemma continued_facts:
  assumes "es_first_cc st \<or> es_cc st \<noteq> cc" "cc < 16"
  shows "es_pes (continued cc ds st) = es_pes st @ concat ds" "es_kind (continued cc ds st) = es_kind st"
    "es_format (continued cc ds st) = es_format st" "es_pts (continued cc ds st) = es_pts st"
    "es_has_pts (continued cc ds st) = es_has_pts st" "(cc_next ^^ length ds) cc < 16"
    "es_first_cc (continued cc ds st) \<or> es_cc (continued cc ds st) \<noteq> (cc_next ^^ length ds) cc"
proof (atomize (full), use assms in \<open>induction ds arbitrary: cc st\<close>)
  case (Cons d ds)
  show ?case using Cons.IH [of "(counted cc st)\<lparr>es_pes := es_pes st @ d\<rparr>" "cc_next cc"] cc_next [OF Cons.prems(2)]
    by (simp add: counted_def funpow_swap1)
qed simp

section \<open>Units\<close>

definition unit_state :: "u8 \<Rightarrow> u8 \<Rightarrow> pes_unit \<Rightarrow> stream_state \<Rightarrow> stream_state" where
  "unit_state sid cc u st = continued (cc_next cc) (pu_more u) (filled sid (pu_pts u) (pu_first u) (counted cc st))"

lemma filled_ready: "ready pid cc st s \<Longrightarrow> ready pid (cc_next cc) (filled sid pts d (counted cc st)) s"
  using cc_next [of cc] by (auto simp: ready_def filled_def counted_def)

lemma unit_state_facts:
  assumes "ready pid cc st s"
  shows "pes_frame (unit_state sid cc u st) = unit_frame (es_format st) (pes_kind sid (es_kind st)) u"
    "es_format (unit_state sid cc u st) = es_format st" "es_kind (unit_state sid cc u st) = pes_kind sid (es_kind st)"
    "ready pid ((cc_next ^^ length (pu_more u)) (cc_next cc)) (unit_state sid cc u st) s"
    "es_pes (unit_state sid cc u st) = pu_first u @ concat (pu_more u)"
proof -
  note r = filled_ready [OF assms, of sid "pu_pts u" "pu_first u"]
  have c: "es_first_cc (filled sid (pu_pts u) (pu_first u) (counted cc st)) \<or> es_cc (filled sid (pu_pts u) (pu_first u) (counted cc st)) \<noteq> cc_next cc"
    "cc_next cc < 16" using r by (simp_all add: ready_def)
  note f = continued_facts [OF c, of "pu_more u", folded unit_state_def]
  show "pes_frame (unit_state sid cc u st) = unit_frame (es_format st) (pes_kind sid (es_kind st)) u"
    "es_format (unit_state sid cc u st) = es_format st" "es_kind (unit_state sid cc u st) = pes_kind sid (es_kind st)"
    "es_pes (unit_state sid cc u st) = pu_first u @ concat (pu_more u)"
    by (simp_all add: pes_frame_def unit_frame_def f filled_def counted_def)
  show "ready pid ((cc_next ^^ length (pu_more u)) (cc_next cc)) (unit_state sid cc u st) s"
    using assms f(6,7) by (simp add: ready_def)
qed

text \<open>A demultiplexer between two calls, with nothing queued and no bytes held back.\<close>

definition between_calls :: "demuxer \<Rightarrow> bool" where
  "between_calls s \<longleftrightarrow> dx_queue s = [] \<and> dx_buffer s = [] \<and> dx_read s = 0"

lemma between_set [simp]: "between_calls (set_stream pid st s) = between_calls s"
  by (simp add: between_calls_def set_stream_def)

section \<open>The last frame\<close>

lemma fm_set_split: "\<exists>xs ys. fm_set k v m = xs @ (k, v) # ys \<and> set xs \<subseteq> set m \<and> set ys \<subseteq> set m"
proof (induction k v m rule: fm_set.induct)
  case (1 k v)
  then show ?case by (intro exI [of _ "[]"]) simp
next
  case (2 k v k' v' m)
  note IH = 2
  consider "k < k'" | "k = k'" | "k' < k" by fastforce
  then show ?case
  proof cases
    case 1
    then show ?thesis by (intro exI [of _ "[]"] exI [of _ "(k', v') # m"]) simp
  next
    case 2
    then show ?thesis by (intro exI [of _ "[]"] exI [of _ m]) auto
  next
    case 3
    then obtain xs ys where "fm_set k v m = xs @ (k, v) # ys" "set xs \<subseteq> set m" "set ys \<subseteq> set m" using IH [OF less_not_sym] by auto
    with 3 show ?thesis by (intro exI [of _ "(k', v') # xs"] exI [of _ ys]) auto
  qed
qed

definition all_idle :: "demuxer \<Rightarrow> bool" where
  "all_idle s \<longleftrightarrow> (\<forall>(q, x) \<in> set (dx_streams s). es_pes x = [])"

lemma fold_flush_idle: "\<forall>(q, x) \<in> set xs. es_pes x = [] \<Longrightarrow> fold flush_stream xs s = s"
  by (induction xs) (auto simp: flush_stream_def)

lemma flush_stream_pending:
  "es_pes st \<noteq> [] \<Longrightarrow> flush_stream (pid, st) (set_stream pid st s) = set_stream pid (st\<lparr>es_pes := []\<rparr>) (push_media (pes_frame st) s)"
  by (simp add: flush_stream_def)

lemma last_call:
  assumes "all_idle s" "between_calls s"
  shows "mpegts_parse [] s = Some (None, None, s)"
    and "es_pes st \<noteq> [] \<Longrightarrow> mpegts_parse [] (set_stream pid st s) = Some (Some (pes_frame st), None, set_stream pid (st\<lparr>es_pes := []\<rparr>) s)"
proof -
  have q: "dx_queue s = []" using assms(2) by (simp add: between_calls_def)
  show "mpegts_parse [] s = Some (None, None, s)"
    using assms(1) q by (simp add: mpegts_parse_def flush_def fold_flush_idle all_idle_def take_frame_def)
  assume p: "es_pes st \<noteq> []"
  obtain xs ys where x: "dx_streams (set_stream pid st s) = xs @ (pid, st) # ys" "set xs \<subseteq> set (dx_streams s)" "set ys \<subseteq> set (dx_streams s)"
    using fm_set_split [of pid st "dx_streams s"] by (auto simp: set_stream_def)
  have i: "\<forall>(q, x) \<in> set xs. es_pes x = []" "\<forall>(q, x) \<in> set ys. es_pes x = []" using x(2,3) assms(1) by (auto simp: all_idle_def)
  have "flush (set_stream pid st s) = set_stream pid (st\<lparr>es_pes := []\<rparr>) (push_media (pes_frame st) s)"
    using p by (simp add: flush_def x(1) fold_flush_idle [OF i(1)] fold_flush_idle [OF i(2)] flush_stream_pending)
  then show "mpegts_parse [] (set_stream pid st s) = Some (Some (pes_frame st), None, set_stream pid (st\<lparr>es_pes := []\<rparr>) s)"
    using q by (simp add: mpegts_parse_def take_frame_def push_media_def set_stream_def MAX_FRAME_QUEUE_def)
qed

lemma pes_kind_again: "pes_kind sid (pes_kind sid k) = pes_kind sid k"
  by (simp add: pes_kind_def)

end
