(* ===== verification/StreamTrack.thy ===== *)
theory StreamTrack
  imports MediaPath
begin

text \<open>
  The track that reads its frames from a pipe, \<open>src/any_stream_track.cpp\<close>. The pipe and the callback that
  splits the bytes into frames are given by the user: here they are arguments, each with a state of its
  own. What the track relies on is written down as an interface (locale \<open>frame_splitter\<close>) and a law of the
  pipe, and what the track does with them is proved once, for every splitter.
\<close>

section \<open>The track\<close>

text \<open>
  A splitter is called with the bytes at hand; it gives a frame or none, how many bytes it has taken, and
  its new state. \<open>None\<close> is a call that has no result. A reader is called with the room in the
  buffer; it gives the bytes it has put there, or an error. \<open>None\<close> is a read that does not
  complete.
\<close>

type_synonym 's splitter = "bytes \<Rightarrow> 's \<Rightarrow> (media_frame option \<times> nat \<times> 's) option"
type_synonym 'p reader = "nat \<Rightarrow> 'p \<Rightarrow> (bytes option \<times> 'p) option"

record 's stream_track =
  sk_split :: 's
  sk_buffer :: bytes
  sk_max :: nat
  sk_queue :: "media_frame list"
  sk_ended :: bool

definition stream_track_new :: "'s \<Rightarrow> 's stream_track" where
  "stream_track_new s = \<lparr>sk_split = s, sk_buffer = [], sk_max = 128 * 1024, sk_queue = [], sk_ended = False\<rparr>"

definition set_max_cache_size :: "nat \<Rightarrow> 's stream_track \<Rightarrow> 's stream_track" where
  "set_max_cache_size n t = t\<lparr>sk_max := n\<rparr>"

definition stream_track_stop :: "'s stream_track \<Rightarrow> 's stream_track" where
  "stream_track_stop t = t\<lparr>sk_ended := True\<rparr>"

text \<open>
  The inner loop: the frames found, and the bytes taken. The loop does not end when the splitter gives
  frames for ever without taking bytes; taking more bytes than there are is undefined.
\<close>

partial_function (option) split_frames ::
  "'s splitter \<Rightarrow> bytes \<Rightarrow> nat \<Rightarrow> 's \<Rightarrow> (media_frame list \<times> nat \<times> 's) option" where
  "split_frames F buf pos s =
     (case F (drop pos buf) s of
        None \<Rightarrow> None
      | Some (f, consumed, s) \<Rightarrow>
          if pos + consumed > length buf then None
          else (case f of
                  None \<Rightarrow> Some ([], pos + consumed, s)
                | Some f \<Rightarrow>
                    if pos + consumed = length buf then Some ([f], pos + consumed, s)
                    else do { (fs, n, s) \<leftarrow> split_frames F buf (pos + consumed) s; Some (f # fs, n, s) }))"

partial_function (option) read_loop ::
  "'s splitter \<Rightarrow> 'p reader \<Rightarrow> 's stream_track \<Rightarrow> 'p \<Rightarrow> (media_frame list \<times> 's stream_track \<times> 'p) option" where
  "read_loop F rd t p =
     (case rd (sk_max t - length (sk_buffer t)) p of
        None \<Rightarrow> None
      | Some (None, p) \<Rightarrow> Some ([], t\<lparr>sk_ended := True\<rparr>, p)
      | Some (Some d, p) \<Rightarrow>
          if d = [] then Some ([], t\<lparr>sk_ended := True\<rparr>, p)
          else (case split_frames F (sk_buffer t @ d) 0 (sk_split t) of
                  None \<Rightarrow> None
                | Some (fs, n, s) \<Rightarrow>
                    (case sk_queue t @ fs of
                       [] \<Rightarrow> read_loop F rd (t\<lparr>sk_split := s, sk_buffer := drop n (sk_buffer t @ d)\<rparr>) p
                     | f # q \<Rightarrow> Some ([f], t\<lparr>sk_split := s, sk_buffer := drop n (sk_buffer t @ d), sk_queue := q\<rparr>, p))))"

definition read_frame ::
  "'s splitter \<Rightarrow> 'p reader \<Rightarrow> 's stream_track \<Rightarrow> 'p \<Rightarrow> (media_frame list \<times> 's stream_track \<times> 'p) option" where
  "read_frame F rd t p =
     (if sk_ended t then Some ([], t, p)
      else (case sk_queue t of
              f # q \<Rightarrow> Some ([f], t\<lparr>sk_queue := q\<rparr>, p)
            | [] \<Rightarrow> read_loop F rd t p))"

text \<open>The user of the track: \<open>recv\<close> until it gives no frame.\<close>

partial_function (option) recv_all ::
  "'s splitter \<Rightarrow> 'p reader \<Rightarrow> 's stream_track \<Rightarrow> 'p \<Rightarrow> (media_frame list \<times> 's stream_track \<times> 'p) option" where
  "recv_all F rd t p =
     (case read_frame F rd t p of
        None \<Rightarrow> None
      | Some (fs, t, p) \<Rightarrow>
          if fs = [] then Some ([], t, p)
          else do { (gs, t, p) \<leftarrow> recv_all F rd t p; Some (fs @ gs, t, p) })"

section \<open>Interfaces\<close>

text \<open>
  A pipe that holds bytes: a read puts some of them into the room there is, at least one when there is
  room, and is an error at the end.
\<close>

definition pipe_ok :: "'p reader \<Rightarrow> ('p \<Rightarrow> bytes \<Rightarrow> bool) \<Rightarrow> bool" where
  "pipe_ok rd holds \<longleftrightarrow>
     (\<forall>p d room. holds p d \<longrightarrow>
        (if room = 0 then rd room p = Some (Some [], p)
         else if d = [] then \<exists>p'. rd room p = Some (None, p')
         else \<exists>n p'. 0 < n \<and> n \<le> room \<and> n \<le> length d \<and> rd room p = Some (Some (take n d), p') \<and> holds p' (drop n d)))"

lemma pipe_reads:
  assumes "pipe_ok rd holds" "holds p d" "0 < room" "d \<noteq> []"
  obtains n p' where "0 < n" "n \<le> room" "n \<le> length d" "rd room p = Some (Some (take n d), p')" "holds p' (drop n d)"
  using assms unfolding pipe_ok_def by (metis less_numeral_extra(3))

lemma pipe_ends:
  assumes "pipe_ok rd holds" "holds p d" "room = 0 \<or> d = []"
  obtains p' where "rd room p = Some (None, p') \<or> rd room p = Some (Some [], p')"
  using assms unfolding pipe_ok_def by metis

text \<open>
  A splitter of valid inputs: \<open>got x g s\<close> says that it has taken the bytes \<open>x\<close> and given the frames \<open>g\<close>.
  On more bytes, if they are not too many, it has a result; a frame takes bytes or some of the work
  it has stored, and without a frame it leaves bytes of a form \<open>rest\<close>.
\<close>

definition the_frame :: "media_frame option \<Rightarrow> media_frame list" where
  "the_frame f = (case f of None \<Rightarrow> [] | Some f \<Rightarrow> [f])"

locale frame_splitter =
  fixes F :: "'s splitter"
    and valid :: "bytes \<Rightarrow> bool"
    and cap :: nat
    and got :: "bytes \<Rightarrow> media_frame list \<Rightarrow> 's \<Rightarrow> bool"
    and stored :: "'s \<Rightarrow> nat"
    and rest :: "bytes \<Rightarrow> bool"
  assumes call: "got x g s \<Longrightarrow> valid (x @ d @ r) \<Longrightarrow> d \<noteq> [] \<Longrightarrow> length d \<le> cap \<Longrightarrow>
    \<exists>f n s'. F d s = Some (f, n, s') \<and> n \<le> length d \<and> got (x @ take n d) (g @ the_frame f) s'
      \<and> (if f = None then rest (drop n d) else 0 < n \<or> stored s' < stored s)"
    and rest_empty: "rest []"
begin

lemma split_all:
  assumes "valid (x @ b @ r)" "length b \<le> cap"
  shows "got (x @ take k b) g s \<Longrightarrow> k < length b \<Longrightarrow>
    \<exists>fs n s'. split_frames F b k s = Some (fs, n, s') \<and> n \<le> length b \<and> got (x @ take n b) (g @ fs) s' \<and> rest (drop n b)"
proof (induction "length b - k" arbitrary: k g s rule: less_induct)
  case outer: less
  show ?case using outer.prems
  proof (induction "stored s" arbitrary: g s rule: less_induct)
    case inner: less
    have v: "valid ((x @ take k b) @ drop k b @ r)" using assms(1) by (simp flip: append_assoc [of "take k b"])
    obtain f n s' where f: "F (drop k b) s = Some (f, n, s')" "k + n \<le> length b"
      "got (x @ take (k + n) b) (g @ the_frame f) s'" "if f = None then rest (drop (k + n) b) else 0 < n \<or> stored s' < stored s"
    proof -
      have "drop k b \<noteq> []" "length (drop k b) \<le> cap" using inner.prems(2) assms(2) by auto
      from call [OF inner.prems(1) v this] obtain f n s' where "F (drop k b) s = Some (f, n, s')" "n \<le> length (drop k b)"
        "got ((x @ take k b) @ take n (drop k b)) (g @ the_frame f) s'"
        "if f = None then rest (drop n (drop k b)) else 0 < n \<or> stored s' < stored s" by blast
      then show thesis using that [of f n s'] inner.prems(2) by (cases "f = None") (auto simp: take_add add.commute)
    qed
    show ?case
    proof (cases f)
      case None
      then show ?thesis using f by (subst split_frames.simps) (auto simp: the_frame_def)
    next
      case (Some fr)
      show ?thesis
      proof (cases "k + n = length b")
        case True
        then show ?thesis using f Some rest_empty by (subst split_frames.simps) (auto simp: the_frame_def)
      next
        case False
        have "\<exists>fs m s''. split_frames F b (k + n) s' = Some (fs, m, s'') \<and> m \<le> length b \<and> got (x @ take m b) ((g @ the_frame f) @ fs) s'' \<and> rest (drop m b)"
        proof (cases "0 < n")
          case True
          then show ?thesis using outer.hyps [OF _ f(3)] False f(2) by simp
        next
          case no: False
          then show ?thesis using inner.hyps [of s' "g @ the_frame f"] f Some inner.prems(2) by simp
        qed
        then show ?thesis using f(1,2) Some False by (subst split_frames.simps) (auto simp: the_frame_def)
      qed
    qed
  qed
qed

text \<open>
  A track on its way: \<open>g\<close> are the frames it has given out, \<open>D\<close> is what the pipe still holds, and \<open>E\<close> is the
  whole input.
\<close>

definition reading :: "'p reader \<Rightarrow> ('p \<Rightarrow> bytes \<Rightarrow> bool) \<Rightarrow> bytes \<Rightarrow> media_frame list \<Rightarrow> bytes \<Rightarrow> 's stream_track \<Rightarrow> 'p \<Rightarrow> bool" where
  "reading rd holds E g D t p \<longleftrightarrow>
     holds p D \<and> rest (sk_buffer t) \<and> length (sk_buffer t) \<le> sk_max t \<and> 0 < sk_max t \<and> sk_max t \<le> cap \<and> \<not> sk_ended t \<and> valid E
     \<and> (\<exists>x. E = x @ sk_buffer t @ D \<and> got x (g @ sk_queue t) (sk_split t))"

text \<open>The track has ended: all the frames that the splitter gave are out.\<close>

definition finished :: "bytes \<Rightarrow> media_frame list \<Rightarrow> 's stream_track \<Rightarrow> bool" where
  "finished E g t \<longleftrightarrow> sk_ended t \<and> sk_queue t = [] \<and> rest (sk_buffer t) \<and> 0 < sk_max t
     \<and> (\<exists>x D. E = x @ sk_buffer t @ D \<and> got x g (sk_split t) \<and> (D = [] \<or> length (sk_buffer t) = sk_max t))"

lemma read_loop_ok:
  assumes "pipe_ok rd holds"
  shows "reading rd holds E g D t p \<Longrightarrow> sk_queue t = [] \<Longrightarrow>
    \<exists>r t' p'. read_loop F rd t p = Some (r, t', p')
      \<and> (r = [] \<and> finished E g t' \<or> r \<noteq> [] \<and> (\<exists>D'. length D' < length D \<and> reading rd holds E (g @ r) D' t' p'))"
proof (induction "length D" arbitrary: D t p rule: less_induct)
  case less
  let ?room = "sk_max t - length (sk_buffer t)"
  obtain x where x: "E = x @ sk_buffer t @ D" "got x g (sk_split t)" and t: "holds p D" "length (sk_buffer t) \<le> sk_max t"
    "sk_max t \<le> cap" "\<not> sk_ended t" "valid E" "rest (sk_buffer t)" "0 < sk_max t"
    using less.prems by (auto simp: reading_def)
  show ?case
  proof (cases "?room = 0 \<or> D = []")
    case True
    obtain p' where "rd ?room p = Some (None, p') \<or> rd ?room p = Some (Some [], p')" using pipe_ends [OF assms t(1) True] .
    moreover have "finished E g (t\<lparr>sk_ended := True\<rparr>)"
      unfolding finished_def using x t True less.prems(2) by (intro conjI exI [of _ x] exI [of _ D]) auto
    ultimately show ?thesis by (subst read_loop.simps) auto
  next
    case False
    then obtain n p' where n: "0 < n" "n \<le> ?room" "n \<le> length D" "rd ?room p = Some (Some (take n D), p')" "holds p' (drop n D)"
      using pipe_reads [OF assms t(1)] by blast
    let ?b = "sk_buffer t @ take n D"
    have b: "length ?b \<le> sk_max t" "0 < length ?b" "take n D \<noteq> []" using n t(2) by auto
    have E: "E = x @ ?b @ drop n D" using x(1) by simp
    obtain fs m s' where s': "split_frames F ?b 0 (sk_split t) = Some (fs, m, s')" "m \<le> length ?b" "got (x @ take m ?b) (g @ fs) s'" "rest (drop m ?b)"
      using split_all [of x ?b "drop n D" 0 g "sk_split t"] t(3,5) b x(2) E by force
    have E': "E = (x @ take m ?b) @ drop m ?b @ drop n D"
      using E by (metis append.assoc append_take_drop_id)
    let ?t = "t\<lparr>sk_split := s', sk_buffer := drop m ?b\<rparr>"
    have next_t: "reading rd holds E (g @ r) (drop n D) (?t\<lparr>sk_queue := q\<rparr>) p'" if "fs = r @ q" for r q
      unfolding reading_def using n(5) t b(1) E' s'(3,4) that by (intro conjI exI [of _ "x @ take m ?b"]) auto
    show ?thesis
    proof (cases fs)
      case Nil
      have "?t\<lparr>sk_queue := []\<rparr> = ?t" using less.prems(2) by simp
      then have r: "reading rd holds E g (drop n D) ?t p'" using next_t [of "[]" "[]"] Nil by simp
      have "length (drop n D) < length D" using n by simp
      from less.hyps [OF this r] obtain r t' p'' where l: "read_loop F rd ?t p' = Some (r, t', p'')"
        "r = [] \<and> finished E g t' \<or> r \<noteq> [] \<and> (\<exists>D'. length D' < length (drop n D) \<and> reading rd holds E (g @ r) D' t' p'')"
        using less.prems(2) by auto
      have "read_loop F rd t p = Some (r, t', p'')"
        by (subst read_loop.simps) (use n(4) s'(1) b(3) l(1) Nil less.prems(2) in simp)
      then show ?thesis using l(2) by fastforce
    next
      case (Cons f q)
      have "read_loop F rd t p = Some ([f], ?t\<lparr>sk_queue := q\<rparr>, p')"
        by (subst read_loop.simps) (use n(4) s'(1) b(3) Cons less.prems(2) in simp)
      moreover have "length (drop n D) < length D" using n by simp
      ultimately show ?thesis using next_t [of "[f]" q] Cons by force
    qed
  qed
qed

lemma read_frame_ok:
  assumes "pipe_ok rd holds" "reading rd holds E g D t p"
  shows "\<exists>r t' p'. read_frame F rd t p = Some (r, t', p')
    \<and> (r = [] \<and> finished E g t'
       \<or> r \<noteq> [] \<and> (\<exists>D'. (length D' < length D \<or> length D' = length D \<and> length (sk_queue t') < length (sk_queue t))
            \<and> reading rd holds E (g @ r) D' t' p'))"
proof (cases "sk_queue t")
  case Nil
  then show ?thesis using read_loop_ok [OF assms Nil] assms(2) by (fastforce simp: read_frame_def reading_def)
next
  case (Cons f q)
  then have "reading rd holds E (g @ [f]) D (t\<lparr>sk_queue := q\<rparr>) p" using assms(2) by (auto simp: reading_def)
  moreover have "read_frame F rd t p = Some ([f], t\<lparr>sk_queue := q\<rparr>, p)"
    using Cons assms(2) by (simp add: read_frame_def reading_def)
  ultimately show ?thesis using Cons by force
qed

text \<open>Receiving comes to an end, with every frame that the splitter gave.\<close>

theorem recv_all_ok:
  assumes "pipe_ok rd holds"
  shows "reading rd holds E g D t p \<Longrightarrow> \<exists>fs t' p'. recv_all F rd t p = Some (fs, t', p') \<and> finished E (g @ fs) t'"
proof (induction "length D" arbitrary: D g t p rule: less_induct)
  case outer: less
  have "reading rd holds E g D1 t p \<Longrightarrow> length D1 = length D \<Longrightarrow>
    \<exists>fs t' p'. recv_all F rd t p = Some (fs, t', p') \<and> finished E (g @ fs) t'" for D1 g t p
  proof (induction "length (sk_queue t)" arbitrary: D1 g t p rule: less_induct)
    case inner: less
    from read_frame_ok [OF assms inner.prems(1)] obtain r t' p' where r: "read_frame F rd t p = Some (r, t', p')"
      "r = [] \<and> finished E g t' \<or> r \<noteq> [] \<and> (\<exists>D'. (length D' < length D1 \<or> length D' = length D1 \<and> length (sk_queue t') < length (sk_queue t))
            \<and> reading rd holds E (g @ r) D' t' p')" by blast
    show ?case
    proof (cases "r = []")
      case True
      then show ?thesis using r by (subst recv_all.simps) simp
    next
      case False
      then obtain D' where D': "length D' < length D1 \<or> length D' = length D1 \<and> length (sk_queue t') < length (sk_queue t)"
        "reading rd holds E (g @ r) D' t' p'" using r(2) by blast
      have "\<exists>fs t'' p''. recv_all F rd t' p' = Some (fs, t'', p'') \<and> finished E ((g @ r) @ fs) t''"
        using D'(1) outer.hyps [OF _ D'(2)] inner.hyps [OF _ D'(2)] inner.prems(2) by auto
      then show ?thesis using r(1) False by (subst recv_all.simps) fastforce
    qed
  qed
  then show ?case using outer.prems by blast
qed

end

end
