(* ===== verification/MpegtsStream.thy ===== *)
theory MpegtsStream
  imports MpegtsFrames StreamTrack
begin

text \<open>
  The track of theory StreamTrack with the demultiplexer of theory Mpegts as its splitter: a multiplexed
  stream that a pipe gives in pieces of any size comes out as the frames that went in.
\<close>

definition mpegts_split :: "demuxer splitter" where
  "mpegts_split d s =
     map_option (\<lambda>(f, n, s). (f, case n of None \<Rightarrow> 0 | Some n \<Rightarrow> n, s)) (mpegts_parse d s)"

section \<open>Packets and the frames they complete\<close>

text \<open>
  The packets take the first state to the last one and complete the frames, one packet at most one and
  only a packet that starts a unit; the frames are appended to the queue, as long as there is room.
\<close>

definition queued :: "media_frame list \<Rightarrow> demuxer \<Rightarrow> demuxer" where
  "queued q s = s\<lparr>dx_queue := q\<rparr>"

definition starts_unit :: "bytes \<Rightarrow> bool" where
  "starts_unit p \<longleftrightarrow> p ! 1 AND 0x40 \<noteq> 0"

definition starts :: "bytes list \<Rightarrow> nat" where
  "starts ps = length (filter starts_unit ps)"

definition emits_one :: "bytes \<Rightarrow> demuxer \<Rightarrow> media_frame list \<Rightarrow> demuxer \<Rightarrow> bool" where
  "emits_one p s f s' \<longleftrightarrow> length f \<le> (if starts_unit p then 1 else 0)
     \<and> (\<forall>q. length q + length f \<le> MAX_FRAME_QUEUE \<longrightarrow> feeds [p] (queued q s) (queued (q @ f) s'))"

fun emits :: "bytes list \<Rightarrow> demuxer \<Rightarrow> media_frame list \<Rightarrow> demuxer \<Rightarrow> bool" where
  "emits [] s fs s' \<longleftrightarrow> fs = [] \<and> s' = s"
| "emits (p # ps) s fs s' \<longleftrightarrow> (\<exists>f fs' s1. fs = f @ fs' \<and> emits_one p s f s1 \<and> emits ps s1 fs' s')"

lemma emits_append: "emits (ps @ qs) s fs s' \<longleftrightarrow> (\<exists>f1 s1 f2. fs = f1 @ f2 \<and> emits ps s f1 s1 \<and> emits qs s1 f2 s')"
proof (induction ps arbitrary: s fs)
  case (Cons p ps)
  show ?case unfolding append_Cons emits.simps Cons.IH by (metis append_assoc)
qed simp

lemma emits_feeds:
  "emits ps s fs s' \<Longrightarrow> length q + length fs \<le> MAX_FRAME_QUEUE \<Longrightarrow> feeds ps (queued q s) (queued (q @ fs) s')"
proof (induction ps arbitrary: s fs q)
  case (Cons p ps)
  then obtain f fs' s1 where p: "fs = f @ fs'" "emits ps s1 fs' s'" "emits_one p s f s1" by auto
  have "feeds ps (queued (q @ f) s1) (queued ((q @ f) @ fs') s')" by (rule Cons.IH [OF p(2)]) (use Cons.prems(2) p(1) in simp)
  moreover have "feeds [p] (queued q s) (queued (q @ f) s1)" using p(1,3) Cons.prems(2) by (simp add: emits_one_def del: feeds.simps)
  ultimately have "feeds ([p] @ ps) (queued q s) (queued ((q @ f) @ fs') s')" unfolding feeds_append by blast
  then show ?case using p(1) by simp
qed simp

lemma emits_length: "emits ps s fs s' \<Longrightarrow> length fs \<le> starts ps"
proof (induction ps arbitrary: s fs)
  case (Cons p ps)
  then obtain f fs' s1 where "fs = f @ fs'" "emits ps s1 fs' s'" "emits_one p s f s1" by auto
  then show ?case using Cons.IH [of s1 fs'] by (auto simp: emits_one_def starts_def split: if_splits)
qed simp

lemma emits_packets: "emits ps s fs s' \<Longrightarrow> \<forall>p \<in> set ps. length p = 188 \<and> p ! 0 = 0x47"
proof (induction ps arbitrary: s fs)
  case (Cons p ps)
  then obtain f fs' s1 where p: "emits_one p s f s1" "emits ps s1 fs' s'" by auto
  then have "feeds [p] (queued [] s) (queued f s1)" by (auto simp: emits_one_def MAX_FRAME_QUEUE_def dest: spec [of _ "[]"] split: if_splits)
  then show ?case using Cons.IH [OF p(2)] by simp
qed simp

section \<open>Bytes of packets\<close>

lemma take_packets:
  "\<forall>p \<in> set ps. length p = 188 \<Longrightarrow>
    take n (concat ps) = concat (take (n div 188) ps) @ take (n mod 188) (concat (drop (n div 188) ps))"
proof (induction ps arbitrary: n)
  case (Cons p ps)
  show ?case
  proof (cases "n < 188")
    case False
    then have "n div 188 = Suc ((n - 188) div 188)" "n mod 188 = (n - 188) mod 188"
      by (simp_all add: le_div_geq le_mod_geq)
    moreover have "take (n - 188) (concat ps) = concat (take ((n - 188) div 188) ps)
        @ take ((n - 188) mod 188) (concat (drop ((n - 188) div 188) ps))"
      using Cons by simp
    ultimately show ?thesis using Cons.prems False by simp
  qed simp
qed simp

lemma length_packets: "\<forall>p \<in> set ps. length p = 188 \<Longrightarrow> length (concat ps) = 188 * length ps"
  by (induction ps) simp_all

lemma packets_split:
  assumes "\<forall>p \<in> set ps. length p = 188"
  shows "drop (188 * m) (concat ps) = concat (drop m ps)"
proof (cases "m \<le> length ps")
  case True
  have "concat ps = concat (take m ps) @ concat (drop m ps)" by (simp flip: concat_append)
  moreover have "length (concat (take m ps)) = 188 * m"
    using assms True length_packets [of "take m ps"] by (auto dest: in_set_takeD)
  ultimately show ?thesis by simp
next
  case False
  then show ?thesis using length_packets [OF assms] by simp
qed

section \<open>The demultiplexer as a splitter\<close>

text \<open>
  A call with \<open>c\<close> bytes completes at most so many packets; the queue holds the frames of a call if among
  any so many packets in a row no more than 64 start a unit.
\<close>

definition call_packets :: "nat \<Rightarrow> nat" where
  "call_packets c = (c + 187) div 188"

definition no_burst :: "nat \<Rightarrow> bytes list \<Rightarrow> bool" where
  "no_burst c ps \<longleftrightarrow> (\<forall>i. starts (take (call_packets c) (drop i ps)) \<le> MAX_FRAME_QUEUE)"

lemma starts_take: "starts (take k ps) \<le> starts ps"
  using append_take_drop_id [of k ps] by (metis filter_append le_add1 length_append starts_def)

text \<open>
  The state when the bytes \<open>x\<close> of the packets \<open>ps\<close> are taken and the frames \<open>g\<close> are given: the complete
  packets are handled, the rest is in the buffer, and frames may wait in the queue.
\<close>

definition demuxed :: "nat \<Rightarrow> bytes list \<Rightarrow> media_frame list \<Rightarrow> demuxer \<Rightarrow> bytes \<Rightarrow> media_frame list \<Rightarrow> demuxer \<Rightarrow> bool" where
  "demuxed c ps fs s' x g s \<longleftrightarrow>
     (\<forall>p \<in> set ps. length p = 188) \<and> no_burst c ps
     \<and> (\<exists>q f2 s1. let m = length x div 188 in
          fs = g @ q @ f2 \<and> length q \<le> MAX_FRAME_QUEUE \<and> emits (drop m ps) s1 f2 s'
          \<and> s = queued q (at_input (take (length x mod 188) (concat (drop m ps))) 0 s1))"

definition packets_prefix :: "bytes list \<Rightarrow> bytes \<Rightarrow> bool" where
  "packets_prefix ps x \<longleftrightarrow> take (length x) (concat ps) = x"

lemma packets_prefix_append: "packets_prefix ps (x @ y) \<Longrightarrow> packets_prefix ps x"
  by (simp add: packets_prefix_def) (metis append_eq_conv_conj min.absorb1 le_add1 length_append take_take)

lemma queued_simps [simp]:
  "dx_queue (queued q s) = q" "dx_buffer (queued q s) = dx_buffer s" "dx_read (queued q s) = dx_read s"
  "queued q (queued q' s) = queued q s" "at_input b r (queued q s) = queued q (at_input b r s)"
  by (simp_all add: queued_def at_input_def)

lemma div_parts: "(a + b) div 188 = a div 188 + (a mod 188 + b) div (188 :: nat)"
proof -
  have "a + b = (a mod 188 + b) + a div 188 * 188" using mod_div_mult_eq [of a 188] by linarith
  then have "(a + b) div 188 = ((a mod 188 + b) + a div 188 * 188) div 188" by (rule arg_cong)
  also have "\<dots> = a div 188 + (a mod 188 + b) div 188" by (rule div_mult_self1) simp
  finally show ?thesis .
qed

text \<open>A call with nothing in the queue takes the bytes and handles the packets they complete.\<close>

lemma split_bytes:
  assumes "demuxed c ps fs s' x g s" "packets_prefix ps (x @ d)" "dx_queue s = []" "d \<noteq> []" "length d \<le> c"
  shows "\<exists>f s1. mpegts_split d s = Some (f, length d, s1) \<and> demuxed c ps fs s' (x @ d) (g @ the_frame f) s1"
proof -
  define m k lx r where m: "m = length x div 188" and k: "k = (length x mod 188 + length d) div 188"
    and lx: "lx = length x mod 188" and r_def: "r = (lx + length d) mod 188"
  let ?b = "take lx (concat (drop m ps))" and ?ps = "take k (drop m ps)" and ?r = "take r (concat (drop (m + k) ps))"
  have nb: "no_burst c ps" using assms(1) by (simp add: demuxed_def)
  obtain f2 s1 where st: "\<forall>p \<in> set ps. length p = 188" "fs = g @ f2" "emits (drop m ps) s1 f2 s'" "s = queued [] (at_input ?b 0 s1)"
  proof -
    obtain q f2 s1 where *: "\<forall>p \<in> set ps. length p = 188" "fs = g @ q @ f2" "emits (drop m ps) s1 f2 s'"
      "s = queued q (at_input ?b 0 s1)"
      using assms(1) unfolding demuxed_def Let_def m [symmetric] lx [symmetric] by blast
    from *(4) have "q = []" using assms(3) by simp
    then show thesis using that * by simp
  qed
  have n: "length (x @ d) div 188 = m + k" "length (x @ d) mod 188 = r"
    unfolding length_append m k lx r_def by (rule div_parts, rule mod_add_left_eq [symmetric])
  have x: "length x = 188 * m + lx" "lx < 188" "r < 188" by (simp_all add: m lx r_def)
  have ps: "\<forall>p \<in> set (drop m ps). length p = 188" using st(1) by (auto dest: in_set_dropD)
  have two: "drop m ps = ?ps @ drop (m + k) ps"
    using append_take_drop_id [of k "drop m ps"] by (simp add: add.commute)
  obtain fa s2 fb where e: "f2 = fa @ fb" "emits ?ps s1 fa s2" "emits (drop (m + k) ps) s2 fb s'"
    using st(3) unfolding emits_append [of ?ps "drop (m + k) ps", folded two] by blast
  have b: "?b @ d = concat ?ps @ ?r"
  proof -
    have t: "take (length x + length d) (concat ps) = x @ d" "take (length x) (concat ps) = x"
      using assms(2) packets_prefix_append [OF assms(2)] by (simp_all add: packets_prefix_def)
    have "drop (188 * m) (x @ d) = take (lx + length d) (concat (drop m ps))"
      unfolding t(1) [symmetric] x(1) by (simp add: drop_take packets_split [OF st(1)])
    also have "\<dots> = concat ?ps @ ?r"
      using take_packets [OF ps, of "lx + length d"] 
      unfolding k [folded lx, symmetric] r_def [symmetric] by (simp add: add.commute)
    finally have "drop (188 * m) (x @ d) = concat ?ps @ ?r" .
    moreover have "drop (188 * m) x = ?b"
      by (subst t(2) [symmetric]) (simp add: x(1) drop_take packets_split [OF st(1)])
    ultimately show ?thesis using x(1) by simp
  qed
  have r: "length ?r < 188" "?r = [] \<or> ?r ! 0 = 0x47"
  proof -
    show "length ?r < 188" using x(3) by simp
    have "\<forall>p \<in> set (drop (m + k) ps). length p = 188 \<and> p ! 0 = 0x47" by (rule emits_packets [OF e(3)])
    then show "?r = [] \<or> ?r ! 0 = 0x47" by (cases "drop (m + k) ps") (auto simp: nth_append)
  qed
  have l: "length ?b < 188" using x(2) by simp
  have "lx + length d \<le> c + 187" using x(2) assms(5) by simp
  then have "k \<le> call_packets c" unfolding k lx [symmetric] call_packets_def by (rule div_le_mono)
  then have "take k (take (call_packets c) (drop m ps)) = ?ps" by (simp add: min_def)
  then have "starts ?ps \<le> MAX_FRAME_QUEUE"
    using starts_take [of k "take (call_packets c) (drop m ps)"] nb unfolding no_burst_def by (metis order_trans)
  then have q: "length [] + length fa \<le> MAX_FRAME_QUEUE" using emits_length [OF e(2)] by simp
  have p: "process_ts_packets (queued [] (at_input (?b @ d) 0 s1)) = Some (queued fa (at_input ?r 0 s2))"
    using process_feeds [OF r emits_feeds [OF e(2) q], of "[]"] by (simp add: b)
  have dm: "demuxed c ps fs s' (x @ d) (g @ the_frame f) (queued q (at_input ?r 0 s2))" if "fa = the_frame f @ q" for f q
    unfolding demuxed_def Let_def n
    by (rule conjI [OF st(1)], rule conjI [OF nb], rule exI [of _ q], rule exI [of _ fb], rule exI [of _ s2])
      (use st(2) e(1,3) that q in simp)
  have "s\<lparr>dx_buffer := dx_buffer s, dx_read := 0\<rparr>\<lparr>dx_buffer := dx_buffer s @ d\<rparr> = queued [] (at_input (?b @ d) 0 s1)"
    by (simp add: st(4) queued_def at_input_def)
  then have c: "mpegts_split d s = (case take_frame (queued fa (at_input ?r 0 s2)) of (f, s) \<Rightarrow> Some (f, length d, s))"
    using p l assms(3,4) st(4) by (simp add: mpegts_split_def mpegts_parse_def split: prod.split)
  show ?thesis
  proof (cases fa)
    case Nil
    then show ?thesis using c dm [of None "[]"] by (simp add: take_frame_def the_frame_def)
  next
    case (Cons f q)
    then show ?thesis using c dm [of "Some f" q] by (simp add: take_frame_def the_frame_def queued_def at_input_def)
  qed
qed

text \<open>A call with frames in the queue gives the first and takes nothing.\<close>

lemma split_queue:
  assumes "demuxed c ps fs s' x g s" "dx_queue s = f # q"
  shows "mpegts_split d s = Some (Some f, 0, queued q s) \<and> demuxed c ps fs s' x (g @ [f]) (queued q s)"
proof
  show "mpegts_split d s = Some (Some f, 0, queued q s)"
    using assms(2) by (simp add: mpegts_split_def mpegts_parse_def take_frame_def queued_def)
  obtain f2 s1 where *: "\<forall>p \<in> set ps. length p = 188" "no_burst c ps" "fs = g @ (f # q) @ f2" "length (f # q) \<le> MAX_FRAME_QUEUE"
    "emits (drop (length x div 188) ps) s1 f2 s'"
    "s = queued (f # q) (at_input (take (length x mod 188) (concat (drop (length x div 188) ps))) 0 s1)"
    using assms unfolding demuxed_def Let_def by (metis queued_simps(1))
  then show "demuxed c ps fs s' x (g @ [f]) (queued q s)"
    unfolding demuxed_def Let_def
    by (intro conjI exI [of _ q] exI [of _ f2] exI [of _ s1]) simp_all
qed

interpretation mpegts: frame_splitter mpegts_split "packets_prefix ps" c "demuxed c ps fs s'" "\<lambda>s. length (dx_queue s)" "\<lambda>r. r = []"
  for ps c fs s'
proof
  fix x g s d r
  assume a: "demuxed c ps fs s' x g s" "packets_prefix ps (x @ d @ r)" "d \<noteq> []" "length d \<le> c"
  show "\<exists>f n s''. mpegts_split d s = Some (f, n, s'') \<and> n \<le> length d \<and> demuxed c ps fs s' (x @ take n d) (g @ the_frame f) s''
      \<and> (if f = None then drop n d = [] else 0 < n \<or> length (dx_queue s'') < length (dx_queue s))"
  proof (cases "dx_queue s")
    case Nil
    have "packets_prefix ps (x @ d)" using packets_prefix_append [of ps "x @ d" r] a(2) by simp
    from split_bytes [OF a(1) this Nil a(3,4)] a(3) show ?thesis by fastforce
  next
    case (Cons f q)
    then show ?thesis using split_queue [OF a(1) Cons, of d]
      by (intro exI [of _ "Some f"] exI [of _ 0] exI [of _ "queued q s"]) (simp add: the_frame_def)
  qed
qed simp

section \<open>Multiplexed units\<close>

lemma starts_unit_packet:
  assumes "pid < 0x2000" shows "starts_unit (ts_packet pid start cc d) \<longleftrightarrow> start"
proof -
  have "unat pid < 2 ^ 13" using assms by (simp add: word_less_nat_alt)
  then have "\<not> bit (unat pid) 14" by (simp add: bit_iff_odd)
  then have "\<not> bit pid 14" by (simp add: bit_unsigned_iff)
  then have "(ucast (drop_bit 8 pid) :: u8) AND 0x40 = 0"
    by (intro u8_eqI) (simp_all add: bit_simps bit_numeral_rec)
  moreover have "((0x40 :: u8) OR x) AND 0x40 = 0x40" for x by (rule bit_word_eqI) (auto simp: bit_simps)
  ultimately show ?thesis by (simp add: starts_unit_def ts_packet_def)
qed

definition pending :: "stream_state \<Rightarrow> media_frame list" where
  "pending st = (if es_pes st = [] then [] else [pes_frame st])"

lemma queued_stream [simp]:
  "set_stream pid st (queued q s) = queued q (set_stream pid st s)" "dx_streams (queued q s) = dx_streams s"
  "ready pid cc st (queued q s) = ready pid cc st s" "ready pid cc st (set_stream pid' st' s) = ready pid cc st s"
  by (simp_all add: set_stream_def queued_def ready_def is_pmt_pid_def)

lemma push_queued: "length q < MAX_FRAME_QUEUE \<Longrightarrow> push_media f (queued q s) = queued (q @ [f]) s"
  by (simp add: push_media_def queued_def)

lemma emits_start:
  assumes "ready pid cc st s" "map_of (dx_streams s) pid = Some st" "d \<noteq> []" "length d \<le> 170"
    and "pes_kind sid (es_kind st) = es_kind st \<or> es_pes st = []"
  shows "emits_one (ts_packet pid True cc (pes_header sid pts @ d)) s (pending st) (set_stream pid (filled sid pts d (counted cc st)) s)"
  unfolding emits_one_def
proof (intro conjI allI impI)
  have "pid < 0x2000" using assms(1) by (simp add: ready_def)
  then show "length (pending st) \<le> (if starts_unit (ts_packet pid True cc (pes_header sid pts @ d)) then 1 else 0)"
    by (simp add: starts_unit_packet pending_def)
  fix q :: "media_frame list" assume q: "length q + length (pending st) \<le> MAX_FRAME_QUEUE"
  let ?s = "if es_pes st = [] then queued q s else push_media (pes_frame (st\<lparr>es_kind := pes_kind sid (es_kind st)\<rparr>)) (queued q s)"
  have "?s = queued (q @ pending st) s" using q assms(5) push_queued [of q] by (auto simp: pending_def)
  then show "feeds [ts_packet pid True cc (pes_header sid pts @ d)] (queued q s)
      (queued (q @ pending st) (set_stream pid (filled sid pts d (counted cc st)) s))"
    using start_feeds [of pid cc st "queued q s" d sid pts] assms(1-4) by (simp del: feeds.simps)
qed

lemma emits_continue:
  "ready pid cc st s \<Longrightarrow> es_pes st \<noteq> [] \<Longrightarrow> list_all payload_ok ds \<Longrightarrow> length (es_pes st) + length (concat ds) \<le> MAX_PES_BUFFER \<Longrightarrow>
    emits (continue_packets pid cc ds) (set_stream pid st s) [] (set_stream pid (continued cc ds st) s)"
proof (induction ds arbitrary: cc st)
  case (Cons d ds)
  let ?st = "(counted cc st)\<lparr>es_pes := es_pes st @ d\<rparr>"
  have "emits_one (ts_packet pid False cc d) (set_stream pid st s) [] (set_stream pid ?st s)"
    unfolding emits_one_def
  proof (intro conjI allI impI)
    fix q :: "media_frame list"
    have "feeds (continue_packets pid cc [d]) (set_stream pid st (queued q s)) (set_stream pid (continued cc [d] st) (queued q s))"
      by (rule continue_feeds) (use Cons.prems in simp_all)
    then show "feeds [ts_packet pid False cc d] (queued q (set_stream pid st s)) (queued (q @ []) (set_stream pid ?st s))"
      by (simp del: feeds.simps)
  qed simp
  moreover have "emits (continue_packets pid (cc_next cc) ds) (set_stream pid ?st s) [] (set_stream pid (continued (cc_next cc) ds ?st) s)"
    by (rule Cons.IH) (use Cons.prems cc_next [of cc] in \<open>auto simp: ready_def counted_def\<close>)
  ultimately show ?case by auto
qed simp

lemma emits_unit:
  assumes "ready pid cc st s" "map_of (dx_streams s) pid = Some st" "unit_ok u"
    and "pes_kind sid (es_kind st) = es_kind st \<or> es_pes st = []"
  shows "emits (unit_packets pid sid cc u) s (pending st) (set_stream pid (unit_state sid cc u st) s)"
proof -
  let ?st = "filled sid (pu_pts u) (pu_first u) (counted cc st)"
  have u: "pu_first u \<noteq> []" "length (pu_first u) \<le> 170" "list_all payload_ok (pu_more u)"
    "length (pu_first u) + length (concat (pu_more u)) \<le> MAX_PES_BUFFER" using assms(3) by (auto simp: unit_ok_def)
  have "emits (continue_packets pid (cc_next cc) (pu_more u)) (set_stream pid ?st s) [] (set_stream pid (unit_state sid cc u st) s)"
    unfolding unit_state_def by (rule emits_continue [OF filled_ready [OF assms(1)]]) (use u in \<open>simp_all add: filled_def\<close>)
  then show ?thesis unfolding unit_packets_def emits.simps
    using emits_start [OF assms(1,2) u(1,2) assms(4), of "pu_pts u"] by (metis append_Nil2)
qed

lemma emits_units:
  "ready pid cc st s \<Longrightarrow> es_pes st \<noteq> [] \<Longrightarrow> pes_kind sid (es_kind st) = es_kind st \<Longrightarrow> list_all unit_ok us \<Longrightarrow>
    \<exists>st' fs. emits (multiplex pid sid cc us) (set_stream pid st s) fs (set_stream pid st' s) \<and> es_pes st' \<noteq> []
      \<and> fs @ [pes_frame st'] = pes_frame st # map (unit_frame (es_format st) (es_kind st)) us"
proof (induction us arbitrary: cc st)
  case Nil
  then show ?case by (intro exI [of _ st] exI [of _ "[]"]) simp
next
  case (Cons u us)
  let ?st = "unit_state sid cc u st"
  note f = unit_state_facts [OF Cons.prems(1), where u = u and sid = sid]
  have u: "unit_ok u" "pu_first u \<noteq> []" "list_all unit_ok us" using Cons.prems(4) by (simp_all add: unit_ok_def [of u])
  have e: "emits (unit_packets pid sid cc u) (set_stream pid st s) [pes_frame st] (set_stream pid ?st s)"
    using emits_unit [of pid cc st "set_stream pid st s" u sid] Cons.prems u(1) by (simp add: pending_def)
  obtain st' fs where i: "emits (multiplex pid sid ((cc_next ^^ length (pu_more u)) (cc_next cc)) us) (set_stream pid ?st s) fs (set_stream pid st' s)"
    "es_pes st' \<noteq> []" "fs @ [pes_frame st'] = pes_frame ?st # map (unit_frame (es_format ?st) (es_kind ?st)) us"
    using Cons.IH [OF f(4)] f u pes_kind_again by auto
  have "emits (multiplex pid sid cc (u # us)) (set_stream pid st s) (pes_frame st # fs) (set_stream pid st' s)"
    unfolding multiplex.simps emits_append using e i(1) by (intro exI [of _ "[pes_frame st]"] exI conjI) auto
  then show ?case using i(2,3) f Cons.prems(3) by (intro exI [of _ st'] exI [of _ "pes_frame st # fs"]) simp
qed

section \<open>How many units a call can see\<close>

definition trues :: "bool list \<Rightarrow> nat" where
  "trues bs = length (filter id bs)"

lemma trues_simps [simp]:
  "trues [] = 0" "trues (xs @ ys) = trues xs + trues ys" "trues (replicate n False) = 0" "trues (True # xs) = trues xs + 1"
  by (simp_all add: trues_def)

lemma trues_take: "trues (take k bs) \<le> trues bs"
  using append_take_drop_id [of k bs] by (metis le_add1 trues_simps(2))

lemma starts_trues: "starts ps = trues (map starts_unit ps)"
  by (simp add: starts_def trues_def filter_map comp_def)

text \<open>The marks of units of at least \<open>m\<close> packets are at least \<open>m\<close> packets apart.\<close>

lemma marks_apart:
  "list_all (\<lambda>l. m \<le> l + 1) ls \<Longrightarrow> trues (take m (drop i (concat (map (\<lambda>l. True # replicate l False) ls)))) \<le> 1"
proof (induction ls arbitrary: i)
  case (Cons l ls)
  let ?r = "concat (map (\<lambda>l. True # replicate l False) ls)"
  have l: "m \<le> l + 1" and IH: "trues (take m (drop i ?r)) \<le> 1" for i using Cons by auto
  consider "i = 0" | "0 < i" "i \<le> l" | "l < i" by linarith
  then show ?case
  proof cases
    case 1
    have "trues (take m (True # replicate l False)) \<le> 1" using trues_take [of m "True # replicate l False"] by simp
    moreover have "take m (True # replicate l False @ ?r) = take m (True # replicate l False)"
      using take_append [of m "True # replicate l False" ?r] l by simp
    ultimately show ?thesis using 1 by simp
  next
    case 2
    then have "drop i (concat (map (\<lambda>l. True # replicate l False) (l # ls))) = replicate (l + 1 - i) False @ ?r"
      by (cases i) simp_all
    then have "trues (take m (drop i (concat (map (\<lambda>l. True # replicate l False) (l # ls))))) = trues (take (m - (l + 1 - i)) ?r)"
      by (simp add: take_append)
    also have "\<dots> \<le> trues (take m ?r)"
      using trues_take [of "m - (l + 1 - i)" "take m ?r"] by (simp add: min_def)
    finally show ?thesis using IH [of 0] by simp
  next
    case 3
    then have "drop i (concat (map (\<lambda>l. True # replicate l False) (l # ls))) = drop (i - (l + 1)) ?r" by (cases i) simp_all
    then show ?thesis using IH by simp
  qed
qed simp

lemma marks_window: "(\<And>i. trues (take m (drop i bs)) \<le> 1) \<Longrightarrow> trues (take (j * m) (drop i bs)) \<le> j"
proof (induction j arbitrary: i)
  case (Suc j)
  have "take (Suc j * m) (drop i bs) = take m (drop i bs) @ take (j * m) (drop (m + i) bs)"
    by (simp add: take_add add.commute)
  then show ?case using Suc.IH [OF Suc.prems, of "m + i"] Suc.prems [of i] by simp
qed simp

lemma multiplex_marks:
  assumes "pid < 0x2000"
  shows "map starts_unit (multiplex pid sid cc us) = concat (map (\<lambda>l. True # replicate l False) (map (length \<circ> pu_more) us))"
proof -
  have c: "map starts_unit (continue_packets pid cc ds) = replicate (length ds) False" for cc ds
    by (induction ds arbitrary: cc) (simp_all add: starts_unit_packet [OF assms])
  show ?thesis by (induction us arbitrary: cc) (simp_all add: unit_packets_def c starts_unit_packet [OF assms])
qed

lemma multiplex_no_burst:
  assumes "pid < 0x2000" "list_all (\<lambda>u. m \<le> length (pu_more u) + 1) us" "n \<le> 12032 * m"
  shows "no_burst n (multiplex pid sid cc us)"
  unfolding no_burst_def
proof
  fix i
  let ?ps = "multiplex pid sid cc us"
  have w: "trues (take m (drop i (map starts_unit ?ps))) \<le> 1" for i
    unfolding multiplex_marks [OF assms(1)] by (rule marks_apart) (use assms(2) in \<open>simp add: list.pred_map comp_def\<close>)
  have "call_packets n \<le> 64 * m" using assms(3) unfolding call_packets_def by linarith
  then have "take (call_packets n) (take (64 * m) (drop i ?ps)) = take (call_packets n) (drop i ?ps)" by (simp add: min_def)
  then have "starts (take (call_packets n) (drop i ?ps)) \<le> starts (take (64 * m) (drop i ?ps))" by (metis starts_take)
  also have "\<dots> = trues (take (64 * m) (drop i (map starts_unit ?ps)))" by (simp add: starts_trues take_map drop_map)
  also have "\<dots> \<le> 64" by (rule marks_window [OF w])
  finally show "starts (take (call_packets n) (drop i ?ps)) \<le> MAX_FRAME_QUEUE" by (simp add: MAX_FRAME_QUEUE_def)
qed

section \<open>The last frames\<close>

text \<open>What a user does at the end: empty calls until there is no frame.\<close>

partial_function (option) mpegts_drain :: "demuxer \<Rightarrow> (media_frame list \<times> demuxer) option" where
  "mpegts_drain s =
     do { (f, n, s) \<leftarrow> mpegts_parse [] s;
          case f of None \<Rightarrow> Some ([], s) | Some f \<Rightarrow> do { (fs, s) \<leftarrow> mpegts_drain s; Some (f # fs, s) } }"

lemma parse_queue: "mpegts_parse d (queued (f # q) s) = Some (Some f, None, queued q s)"
  by (simp add: mpegts_parse_def take_frame_def queued_def)

lemma drain_queue: "mpegts_drain (queued q s) = map_option (\<lambda>(fs, s). (q @ fs, s)) (mpegts_drain (queued [] s))"
proof (induction q)
  case Nil
  show ?case by (cases "mpegts_drain (queued [] s)") auto
next
  case (Cons f q)
  then show ?case by (subst mpegts_drain.simps, cases "mpegts_drain (queued [] s)") (auto simp: parse_queue)
qed

lemma drain_idle:
  assumes "all_idle s" "between_calls s"
  shows "mpegts_drain s = Some ([], s)"
  by (subst mpegts_drain.simps) (simp add: last_call(1) [OF assms])

lemma all_idle_set: "all_idle s \<Longrightarrow> es_pes st = [] \<Longrightarrow> all_idle (set_stream pid st s)"
  using set_fm_set [of pid st "dx_streams s"] by (fastforce simp: all_idle_def set_stream_def)

lemma drain_pending:
  assumes "all_idle s" "between_calls s" "es_pes st \<noteq> []"
  shows "\<exists>s'. mpegts_drain (queued q (set_stream pid st s)) = Some (q @ [pes_frame st], s')"
proof -
  have q: "queued [] (set_stream pid st s) = set_stream pid st s" using assms(2) by (simp add: queued_def between_calls_def set_stream_def)
  have "mpegts_drain (set_stream pid (st\<lparr>es_pes := []\<rparr>) s) = Some ([], set_stream pid (st\<lparr>es_pes := []\<rparr>) s)"
    by (rule drain_idle) (use assms in \<open>simp_all add: all_idle_set\<close>)
  then have "mpegts_drain (set_stream pid st s) = Some ([pes_frame st], set_stream pid (st\<lparr>es_pes := []\<rparr>) s)"
    by (subst mpegts_drain.simps) (simp add: last_call(2) [OF assms])
  then show ?thesis by (simp add: drain_queue [of q] q)
qed

section \<open>A stream from a pipe\<close>

text \<open>Reading packets to the end leaves the last state, with the frames that were not given in the queue.\<close>

lemma pipe_of_packets:
  assumes "pipe_ok rd holds" "holds p (concat ps)" "emits ps s fs s'" "between_calls s" "0 < n" "no_burst n ps"
  shows "\<exists>gs q t p'. recv_all mpegts_split rd (set_max_cache_size n (stream_track_new s)) p = Some (gs, t, p')
    \<and> fs = gs @ q \<and> length q \<le> MAX_FRAME_QUEUE \<and> sk_ended t \<and> sk_split t = queued q (at_input [] 0 s')"
proof -
  have l: "\<forall>p \<in> set ps. length p = 188" using emits_packets [OF assms(3)] by blast
  have m: "length (concat ps) div 188 = length ps" "length (concat ps) mod 188 = 0"
    using length_packets [OF l] by (simp_all add: mult.commute)
  have "s = queued [] (at_input [] 0 s)" using assms(4) by (simp add: queued_def at_input_def between_calls_def)
  then have d: "demuxed n ps fs s' [] [] s" using l assms(3,6) unfolding demuxed_def Let_def
    by (intro conjI exI [of _ "[]"] exI [of _ fs] exI [of _ s]) simp_all
  let ?t = "set_max_cache_size n (stream_track_new s)"
  have "mpegts.reading ps n fs s' rd holds (concat ps) [] (concat ps) ?t p"
    unfolding mpegts.reading_def
    using assms(2,5) d by (simp add: set_max_cache_size_def stream_track_new_def packets_prefix_def)
  from mpegts.recv_all_ok [OF assms(1) this] obtain gs t p' where r: "recv_all mpegts_split rd ?t p = Some (gs, t, p')"
    "mpegts.finished n ps fs s' (concat ps) ([] @ gs) t" by blast
  then have t: "sk_ended t" "demuxed n ps fs s' (concat ps) gs (sk_split t)" by (auto simp: mpegts.finished_def)
  then obtain q f2 s1 where "fs = gs @ q @ f2" "length q \<le> MAX_FRAME_QUEUE" "emits (drop (length ps) ps) s1 f2 s'"
    "sk_split t = queued q (at_input (take 0 (concat (drop (length ps) ps))) 0 s1)"
    unfolding demuxed_def Let_def m by blast
  then show ?thesis using r(1) t(1) by auto
qed

text \<open>
  C15: A multiplexed stream that comes through a pipe in pieces of any size is given out as the frames that
  went in, but for the last ones. A multiplexer cuts each unit, a PES packet with a time stamp, into packets
  of 188 bytes, at least \<open>m\<close> of them; a stream track reads them from the pipe with the demultiplexer as its
  splitter and a cache of at most 12032 \<open>m\<close> bytes (so the default cache of 128 kB asks for units of 11
  packets). The track ends when the pipe does. The frames it has given until then are those of the units in
  their order, each with all its bytes, its time stamp and its kind, up to the last ones, which the track
  leaves in the demultiplexer: always the last unit, and never more than 65. Empty calls of the
  demultiplexer, by whoever still has it, give these.
\<close>
theorem stream_frames_recovered:
  assumes "map_of (dx_streams s) pid = Some st" "pid \<noteq> 0" "pid < 0x2000" "\<not> is_pmt_pid pid s" "cc < 16"
    and "es_first_cc st \<or> es_cc st \<noteq> cc"
    and "\<forall>(q, x) \<in> set (dx_streams s). es_pes x = []" "dx_queue s = []" "dx_buffer s = []" "dx_read s = 0"
    and "list_all unit_ok us" "list_all (\<lambda>u. m \<le> length (pu_more u) + 1) us" "0 < n" "n \<le> 12032 * m"
    and "pipe_ok rd holds" "holds p (concat (multiplex pid sid cc us))"
  shows "\<exists>fs t p' gs s'. recv_all mpegts_split rd (set_max_cache_size n (stream_track_new s)) p = Some (fs, t, p')
    \<and> sk_ended t \<and> mpegts_drain (sk_split t) = Some (gs, s')
    \<and> fs @ gs = map (unit_frame (es_format st) (pes_kind sid (es_kind st))) us
    \<and> length gs \<le> 65 \<and> (us \<noteq> [] \<longrightarrow> gs \<noteq> [])"
proof -
  have r: "ready pid cc st s" and i: "all_idle s" "between_calls s" and e: "es_pes st = []"
    using assms map_of_SomeD [OF assms(1)] by (auto simp: ready_def all_idle_def between_calls_def)
  note pipe = pipe_of_packets [OF assms(15,16) _ i(2) assms(13) multiplex_no_burst [OF assms(3,12,14)]]
  show ?thesis
  proof (cases us)
    case Nil
    then have "emits (multiplex pid sid cc us) s [] s" by simp
    moreover have "queued [] (at_input [] 0 s) = s" using i(2) by (simp add: queued_def at_input_def between_calls_def)
    ultimately show ?thesis using pipe [of "[]" s] drain_idle [OF i] Nil by auto
  next
    case (Cons u us')
    let ?st = "unit_state sid cc u st"
    note f = unit_state_facts [OF r, where u = u and sid = sid]
    have u: "unit_ok u" "pu_first u \<noteq> []" "list_all unit_ok us'" using assms(11) Cons by (simp_all add: unit_ok_def [of u])
    have "emits (unit_packets pid sid cc u) s [] (set_stream pid ?st s)"
      using emits_unit [OF r assms(1) u(1), of sid] e by (simp add: pending_def)
    moreover obtain st' fs where i': "emits (multiplex pid sid ((cc_next ^^ length (pu_more u)) (cc_next cc)) us') (set_stream pid ?st s) fs (set_stream pid st' s)"
      "es_pes st' \<noteq> []" "fs @ [pes_frame st'] = pes_frame ?st # map (unit_frame (es_format ?st) (es_kind ?st)) us'"
      using emits_units [OF f(4) _ _ u(3), where sid = sid] f u(2) pes_kind_again by auto
    ultimately have "emits (multiplex pid sid cc us) s fs (set_stream pid st' s)"
      unfolding Cons multiplex.simps emits_append by (metis append_Nil)
    from pipe [OF this] obtain gs q t p' where g: "recv_all mpegts_split rd (set_max_cache_size n (stream_track_new s)) p = Some (gs, t, p')"
      "fs = gs @ q" "length q \<le> MAX_FRAME_QUEUE" "sk_ended t" "sk_split t = queued q (at_input [] 0 (set_stream pid st' s))" by blast
    have "at_input [] 0 (set_stream pid st' s) = set_stream pid st' s" using i(2) by (simp add: at_input_def between_calls_def set_stream_def)
    then obtain s' where "mpegts_drain (sk_split t) = Some (q @ [pes_frame st'], s')"
      using drain_pending [OF i i'(2), of q pid] g(5) by auto
    moreover have "gs @ q @ [pes_frame st'] = map (unit_frame (es_format st) (pes_kind sid (es_kind st))) us"
      using i'(3) g(2) f Cons by simp
    moreover have "length (q @ [pes_frame st']) \<le> 65" using g(3) by (simp add: MAX_FRAME_QUEUE_def)
    ultimately show ?thesis using g(1,4) by (intro exI conjI) auto
  qed
qed

section \<open>Witness\<close>

text \<open>A pipe over a list, at most 100 bytes a read.\<close>

definition list_pipe :: "bytes reader" where
  "list_pipe room d =
     (if room = 0 then Some (Some [], d) else if d = [] then Some (None, d)
      else Some (Some (take (min room 100) d), drop (min room 100) d))"

lemma list_pipe_ok: "pipe_ok list_pipe (=)"
proof -
  have "\<exists>n p'. 0 < n \<and> n \<le> room \<and> n \<le> length d \<and> list_pipe room d = Some (Some (take n d), p') \<and> p' = drop n d"
    if "room \<noteq> 0" "d \<noteq> []" for room and d :: bytes
    using that by (intro exI [of _ "min (min room 100) (length d)"] exI [of _ "drop (min room 100) d"])
      (auto simp: list_pipe_def min_def)
  then show ?thesis by (auto simp: pipe_ok_def list_pipe_def)
qed

theorem stream_frames_recovered_witness:
  "\<exists>fs t p' gs s'. recv_all mpegts_split list_pipe (set_max_cache_size 12032 (stream_track_new
        (set_stream 0x100 (stream_state_new\<lparr>es_format := mf_h264\<rparr>) demuxer_new)))
      (concat (multiplex 0x100 0xE0 15
        [\<lparr>pu_pts = 90000, pu_first = [0, 0, 1, 9], pu_more = [replicate 184 7, [1, 2]]\<rparr>, \<lparr>pu_pts = 93000, pu_first = [5], pu_more = []\<rparr>]))
      = Some (fs, t, p')
    \<and> sk_ended t \<and> mpegts_drain (sk_split t) = Some (gs, s')
    \<and> fs @ gs = [\<lparr>mf_kind = mk_video, mf_format = mf_h264, mf_timestamp = 90000,
         mf_data = [0, 0, 1, 9] @ replicate 184 7 @ [1, 2], mf_info = None\<rparr>,
       \<lparr>mf_kind = mk_video, mf_format = mf_h264, mf_timestamp = 93000, mf_data = [5], mf_info = None\<rparr>]
    \<and> length gs \<le> 65 \<and> gs \<noteq> []"
proof -
  let ?st = "stream_state_new\<lparr>es_format := mf_h264\<rparr>"
  let ?us = "[\<lparr>pu_pts = 90000, pu_first = [0, 0, 1, 9], pu_more = [replicate 184 7, [1, 2]]\<rparr>, \<lparr>pu_pts = 93000, pu_first = [5], pu_more = []\<rparr>]"
  have "list_all unit_ok ?us" by (simp add: unit_ok_def payload_ok_def MAX_PES_BUFFER_def)
  moreover have "map (unit_frame mf_h264 mk_video) ?us = [\<lparr>mf_kind = mk_video, mf_format = mf_h264, mf_timestamp = 90000,
         mf_data = [0, 0, 1, 9] @ replicate 184 7 @ [1, 2], mf_info = None\<rparr>,
       \<lparr>mf_kind = mk_video, mf_format = mf_h264, mf_timestamp = 93000, mf_data = [5], mf_info = None\<rparr>]"
    by (simp add: unit_frame_def)
  ultimately show ?thesis
    using stream_frames_recovered [where s = "set_stream 0x100 ?st demuxer_new" and pid = "0x100" and st = ?st and cc = 15
        and us = ?us and sid = "0xE0" and n = 12032 and m = 1 and rd = list_pipe and holds = "(=)", OF _ _ _ _ _ _ _ _ _ _ _ _ _ _ list_pipe_ok refl]
    by (simp add: is_pmt_pid_def demuxer_new_def set_stream_def stream_state_new_def pes_kind_def)
qed

end
