(* ===== verification/Stats.thy ===== *)
theory Stats
  imports MediaFacts
begin

text \<open>
  The statistics of a connection: \<open>connection_impl::get_stats\<close> and the structures of
  \<open>include/asiortc/rtc_stats.hpp\<close>. Time stamps are left out; the order in which the maps of the remote
  statistics are walked is an argument.
\<close>

section \<open>The report\<close>

record rtc_stats =
  rt_type :: string
  rt_id :: string

record rtc_transport_stats = rtc_stats +
  rx_packets_sent :: u64
  rx_packets_received :: u64
  rx_bytes_sent :: u64
  rx_bytes_received :: u64
  rx_ice_role :: string
  rx_dtls_state :: string

record rtc_rtp_stream_stats = rtc_stats +
  rt_ssrc :: u32
  rt_kind :: string
  rt_transport_id :: string

record rtc_received_rtp_stream_stats = rtc_rtp_stream_stats +
  rr_packets_received :: u64
  rr_packets_lost :: u64
  rr_jitter :: u32

record rtc_remote_inbound_rtp_stream_stats = rtc_received_rtp_stream_stats +
  rr_round_trip_us :: "int option"
  rr_fraction_lost_256 :: u8

record rtc_sent_rtp_stream_stats = rtc_rtp_stream_stats +
  rs_packets_sent :: u64
  rs_bytes_sent :: u64

record rtc_outbound_rtp_stream_stats = rtc_sent_rtp_stream_stats +
  rs_track_id :: string

record rtc_remote_outbound_rtp_stream_stats = rtc_sent_rtp_stream_stats +
  rs_remote_timestamp :: u64

datatype any_stats = Transport_stats rtc_transport_stats | Outbound_stats rtc_outbound_rtp_stream_stats
  | Inbound_stats rtc_received_rtp_stream_stats | Remote_outbound_stats rtc_remote_outbound_rtp_stream_stats
  | Remote_inbound_stats rtc_remote_inbound_rtp_stream_stats

definition kind_text :: "media_kind option \<Rightarrow> string" where
  "kind_text k = (if k = Some mk_video then ''video'' else ''audio'')"

definition transport_entry :: "string \<Rightarrow> media_path \<Rightarrow> string \<times> any_stats" where
  "transport_entry tid m =
     (tid, Transport_stats \<lparr>rt_type = ''transport'', rt_id = tid, rx_packets_sent = mp_tx_packets m,
        rx_packets_received = mp_rx_packets m, rx_bytes_sent = mp_tx_bytes m, rx_bytes_received = mp_rx_bytes m,
        rx_ice_role = ''unknown'', rx_dtls_state = (if cn_srtp_transport (mp_conn m) then ''connected'' else ''new'')\<rparr>)"

definition outbound_id :: "rtp_transceiver \<Rightarrow> rtp_stream \<Rightarrow> string" where
  "outbound_id t s = ''outbound-rtp_'' @ tr_mid t
     @ (if length (sn_streams (tr_sender t)) > 1 then ''_'' @ show_word (sm_ssrc s) else [])"

definition outbound_entry :: "string \<Rightarrow> rtp_transceiver \<Rightarrow> media_track \<Rightarrow> rtp_stream \<Rightarrow> string \<times> any_stats" where
  "outbound_entry tid t tk s =
     (outbound_id t s, Outbound_stats \<lparr>rt_type = ''outbound-rtp'', rt_id = outbound_id t s, rt_ssrc = sm_ssrc s,
        rt_kind = kind_text (Some (tk_kind tk)), rt_transport_id = tid, rs_packets_sent = ucast (sm_packet_count s),
        rs_bytes_sent = ucast (sm_octet_count s), rs_track_id = tk_id tk\<rparr>)"

definition outbound_entries :: "string \<Rightarrow> connection \<Rightarrow> (string \<times> any_stats) list" where
  "outbound_entries tid c =
     concat (map (\<lambda>t. case sn_track (tr_sender t) of None \<Rightarrow> []
       | Some tk \<Rightarrow> map (outbound_entry tid t tk) (sn_streams (tr_sender t))) (cn_transceivers c))"

text \<open>The kind of the track that receives a source.\<close>

definition receiver_kind :: "sdp_lib \<Rightarrow> nat \<Rightarrow> connection \<Rightarrow> media_kind option" where
  "receiver_kind L i c = map_option (track_kind L) (rc_track (tr_receiver (cn_transceivers c ! i)))"

definition source_kind :: "sdp_lib \<Rightarrow> u32 \<Rightarrow> connection \<Rightarrow> media_kind option" where
  "source_kind L ssrc c = (case map_of (cn_ssrc_set c) ssrc of None \<Rightarrow> None | Some i \<Rightarrow> receiver_kind L i c)"

definition stream_id :: "string \<Rightarrow> u32 \<Rightarrow> string" where
  "stream_id kind ssrc = kind @ ''_'' @ show_word ssrc"

definition inbound_entry :: "sdp_lib \<Rightarrow> string \<Rightarrow> connection \<Rightarrow> nat \<Rightarrow> ssrc_context \<Rightarrow> string \<times> any_stats" where
  "inbound_entry L tid c i x =
     (stream_id ''inbound-rtp'' (sc_ssrc x),
      Inbound_stats \<lparr>rt_type = ''inbound-rtp'', rt_id = stream_id ''inbound-rtp'' (sc_ssrc x), rt_ssrc = sc_ssrc x,
        rt_kind = kind_text (receiver_kind L i c), rt_transport_id = tid, rr_packets_received = sc_packets_received x,
        rr_packets_lost = sc_packets_expected x - sc_packets_received x, rr_jitter = of_int (sc_jitter_q4 x div 16)\<rparr>)"

definition inbound_entries :: "sdp_lib \<Rightarrow> string \<Rightarrow> connection \<Rightarrow> (string \<times> any_stats) list" where
  "inbound_entries L tid c =
     concat (map (\<lambda>(ssrc, i). case get_ctx ssrc c of None \<Rightarrow> [] | Some x \<Rightarrow> [inbound_entry L tid c i x]) (cn_ssrc_set c))"

definition remote_outbound_entry :: "sdp_lib \<Rightarrow> string \<Rightarrow> connection \<Rightarrow> u32 \<Rightarrow> remote_outbound \<Rightarrow> string \<times> any_stats" where
  "remote_outbound_entry L tid c ssrc r =
     (stream_id ''remote-outbound-rtp'' ssrc,
      Remote_outbound_stats \<lparr>rt_type = ''remote-outbound-rtp'', rt_id = stream_id ''remote-outbound-rtp'' ssrc,
        rt_ssrc = ro_ssrc r, rt_kind = kind_text (source_kind L ssrc c), rt_transport_id = tid,
        rs_packets_sent = ucast (ro_packets_sent r), rs_bytes_sent = ucast (ro_bytes_sent r),
        rs_remote_timestamp = ro_remote_timestamp r\<rparr>)"

definition remote_inbound_entry :: "sdp_lib \<Rightarrow> string \<Rightarrow> connection \<Rightarrow> u32 \<Rightarrow> remote_inbound \<Rightarrow> string \<times> any_stats" where
  "remote_inbound_entry L tid c ssrc r =
     (stream_id ''remote-inbound-rtp'' ssrc,
      Remote_inbound_stats \<lparr>rt_type = ''remote-inbound-rtp'', rt_id = stream_id ''remote-inbound-rtp'' ssrc,
        rt_ssrc = ri_ssrc r, rt_kind = kind_text (source_kind L ssrc c), rt_transport_id = tid,
        rr_packets_received = 0, rr_packets_lost = ucast (ri_packets_lost r), rr_jitter = ri_jitter r,
        rr_round_trip_us = ri_round_trip_us r, rr_fraction_lost_256 = ri_fraction_lost_256 r\<rparr>)"

definition remote_entries :: "(u32 \<Rightarrow> 'r \<Rightarrow> string \<times> any_stats) \<Rightarrow> u32 list \<Rightarrow> (u32 \<rightharpoonup> 'r) \<Rightarrow> (string \<times> any_stats) list" where
  "remote_entries entry order stats =
     concat (map (\<lambda>ssrc. case stats ssrc of None \<Rightarrow> [] | Some r \<Rightarrow> [entry ssrc r]) order)"

definition stats_entries :: "sdp_lib \<Rightarrow> string \<Rightarrow> u32 list \<Rightarrow> u32 list \<Rightarrow> media_path \<Rightarrow> (string \<times> any_stats) list" where
  "stats_entries L tid outs ins m =
     transport_entry tid m # outbound_entries tid (mp_conn m) @ inbound_entries L tid (mp_conn m)
     @ remote_entries (remote_outbound_entry L tid (mp_conn m)) outs (mp_outbound m)
     @ remote_entries (remote_inbound_entry L tid (mp_conn m)) ins (mp_inbound m)"

text \<open>A later entry with the same identifier replaces the earlier one.\<close>

definition get_stats :: "sdp_lib \<Rightarrow> string \<Rightarrow> u32 list \<Rightarrow> u32 list \<Rightarrow> media_path \<Rightarrow> (string \<rightharpoonup> any_stats)" where
  "get_stats L tid outs ins m = fold (\<lambda>(k, v) r. r(k \<mapsto> v)) (stats_entries L tid outs ins m) Map.empty"

section \<open>Identifiers\<close>

lemma fold_upd: "fold (\<lambda>(k, v) r. r(k \<mapsto> v)) xs r = r ++ map_of (rev xs)"
  by (induction xs arbitrary: r) (auto simp: map_add_def fun_eq_iff split: option.split)

lemma get_stats_eq: "get_stats L tid outs ins m = map_of (rev (stats_entries L tid outs ins m))"
  by (simp add: get_stats_def fold_upd)

lemma get_stats_entry:
  assumes "distinct (map fst (stats_entries L tid outs ins m))"
  shows "(k, v) \<in> set (stats_entries L tid outs ins m) \<Longrightarrow> get_stats L tid outs ins m k = Some v"
  using assms by (simp add: get_stats_eq rev_map [symmetric])

lemma show_word_eq: "show_word (a :: 'a::len word) = show_word b \<longleftrightarrow> a = b"
  using dec_val_show_nat by (metis show_word_def unsigned_word_eqI)

lemma stream_id_eq [simp]: "stream_id k a = stream_id k b \<longleftrightarrow> a = b"
  by (simp add: stream_id_def show_word_eq)

text \<open>Which part of the report an identifier belongs to.\<close>

definition id_part :: "string \<Rightarrow> string" where
  "id_part k = takeWhile (\<lambda>c. c \<noteq> CHR ''_'') k"

lemma takeWhile_label: "c \<notin> set a \<Longrightarrow> takeWhile (\<lambda>x. x \<noteq> c) (a @ c # r) = a" "c \<notin> set a \<Longrightarrow> takeWhile (\<lambda>x. x \<noteq> c) a = a"
  by (induction a) auto

lemma id_part_stream [simp]: "CHR ''_'' \<notin> set kind \<Longrightarrow> id_part (stream_id kind ssrc) = kind"
  by (simp add: id_part_def stream_id_def takeWhile_label)

lemma id_part_outbound [simp]: "id_part (outbound_id t s) = ''outbound-rtp''"
  by (simp add: id_part_def outbound_id_def)

section \<open>Completeness\<close>

text \<open>The transceivers that send: each has an identifier of its own, and its streams have different sources.\<close>

definition sends :: "rtp_transceiver \<Rightarrow> bool" where
  "sends t \<longleftrightarrow> sn_track (tr_sender t) \<noteq> None"

definition senders_labelled :: "connection \<Rightarrow> bool" where
  "senders_labelled c \<longleftrightarrow> distinct (map tr_mid (filter sends (cn_transceivers c)))
     \<and> (\<forall>t \<in> set (cn_transceivers c). sends t \<longrightarrow> CHR ''_'' \<notin> set (tr_mid t) \<and> distinct (map sm_ssrc (sn_streams (tr_sender t))))"

lemma outbound_id_mid:
  assumes "CHR ''_'' \<notin> set (tr_mid t)"
  shows "takeWhile (\<lambda>c. c \<noteq> CHR ''_'') (drop 13 (outbound_id t s)) = tr_mid t"
  using assms by (simp add: outbound_id_def takeWhile_label)

lemma outbound_ids_distinct:
  assumes "distinct (map sm_ssrc (sn_streams (tr_sender t)))"
  shows "distinct (map (outbound_id t) (sn_streams (tr_sender t)))"
proof (cases "length (sn_streams (tr_sender t)) > 1")
  case True
  then have "outbound_id t a = outbound_id t b \<longleftrightarrow> sm_ssrc a = sm_ssrc b" for a b by (simp add: outbound_id_def show_word_eq)
  then show ?thesis using assms by (simp add: distinct_map inj_on_def)
next
  case False
  then show ?thesis by (cases "sn_streams (tr_sender t)") simp_all
qed

lemma outbound_distinct:
  "distinct (map tr_mid (filter sends ts)) \<Longrightarrow>
   (\<And>t. t \<in> set ts \<Longrightarrow> sends t \<Longrightarrow> CHR ''_'' \<notin> set (tr_mid t) \<and> distinct (map sm_ssrc (sn_streams (tr_sender t)))) \<Longrightarrow>
   distinct (map fst (concat (map (\<lambda>t. case sn_track (tr_sender t) of None \<Rightarrow> []
       | Some tk \<Rightarrow> map (outbound_entry tid t tk) (sn_streams (tr_sender t))) ts)))"
proof (induction ts)
  case (Cons t ts)
  let ?e = "\<lambda>t. case sn_track (tr_sender t) of None \<Rightarrow> [] | Some tk \<Rightarrow> map (outbound_entry tid t tk) (sn_streams (tr_sender t))"
  let ?mid = "\<lambda>k. takeWhile (\<lambda>c. c \<noteq> CHR ''_'') (drop 13 k)"
  have ids: "map fst (?e t) = (if sends t then map (outbound_id t) (sn_streams (tr_sender t)) else [])" for t
    by (cases "sn_track (tr_sender t)") (simp_all add: sends_def outbound_entry_def comp_def)
  have mids: "\<exists>t' \<in> set ts. sends t' \<and> ?mid k = tr_mid t'" if "k \<in> set (map fst (concat (map ?e ts)))" for k
  proof -
    obtain t' where t': "t' \<in> set ts" "k \<in> set (map fst (?e t'))" using \<open>k \<in> _\<close> by auto
    then have "sends t'" "\<exists>s. k = outbound_id t' s" unfolding ids by (auto split: if_splits)
    then show ?thesis using outbound_id_mid Cons.prems(2) [of t'] t'(1) by auto
  qed
  have IH: "distinct (map fst (concat (map ?e ts)))" by (rule Cons.IH) (use Cons.prems in \<open>auto split: if_splits\<close>)
  show ?case
  proof (cases "sends t")
    case True
    have "set (map fst (?e t)) \<inter> set (map fst (concat (map ?e ts))) = {}"
    proof (rule equals0I)
      fix k assume "k \<in> set (map fst (?e t)) \<inter> set (map fst (concat (map ?e ts)))"
      then have "?mid k = tr_mid t" and k: "k \<in> set (map fst (concat (map ?e ts)))"
        unfolding ids using True outbound_id_mid Cons.prems(2) [of t] by auto
      then show False using mids [OF k] Cons.prems(1) True by auto
    qed
    moreover have "distinct (map fst (?e t))" unfolding ids using True outbound_ids_distinct Cons.prems(2) [of t] by simp
    ultimately show ?thesis using IH by simp
  next
    case False
    then have "?e t = []" using ids [of t] by simp
    then show ?thesis using IH by simp
  qed
qed simp

lemma inbound_ids: "map fst (inbound_entries L tid c) = map (stream_id ''inbound-rtp'') (filter (\<lambda>k. get_ctx k c \<noteq> None) (map fst (cn_ssrc_set c)))"
proof -
  have k: "sc_ssrc x = ssrc" if "get_ctx ssrc c = Some x" for ssrc x
    using that by (auto simp: get_ctx_def find_Some_iff split: option.splits)
  have "map fst (concat (map (\<lambda>(ssrc, i). case get_ctx ssrc c of None \<Rightarrow> [] | Some x \<Rightarrow> [inbound_entry L tid c i x]) S))
      = map (stream_id ''inbound-rtp'') (filter (\<lambda>k. get_ctx k c \<noteq> None) (map fst S))" for S
    by (induction S) (auto simp: inbound_entry_def k split: option.split)
  then show ?thesis by (simp add: inbound_entries_def)
qed

lemma remote_ids:
  assumes "\<And>ssrc r. fst (entry ssrc r) = stream_id kind ssrc"
  shows "map fst (remote_entries entry order stats) = map (stream_id kind) (filter (\<lambda>k. stats k \<noteq> None) order)"
  by (induction order) (auto simp: remote_entries_def assms split: option.split)

lemma stream_ids_distinct: "distinct ks \<Longrightarrow> distinct (map (stream_id kind) (filter P ks))"
  by (simp add: distinct_map inj_on_def)

lemma outbound_ids: "k \<in> set (map fst (outbound_entries tid c)) \<Longrightarrow> id_part k = ''outbound-rtp''"
  by (auto simp: outbound_entries_def outbound_entry_def split: option.splits)

lemma parts_disjoint:
  assumes "\<And>k. k \<in> A \<Longrightarrow> id_part k = a" "\<And>k. k \<in> B \<Longrightarrow> id_part k = b"
  shows "a \<noteq> b \<Longrightarrow> A \<inter> B = {}"
  using assms by fastforce

lemma entries_distinct:
  assumes "senders_labelled c" "distinct (map fst (cn_ssrc_set c))" "distinct outs" "distinct ins" "c = mp_conn m"
    and "tid = [] \<or> id_part tid = ''transport''"
  shows "distinct (map fst (stats_entries L tid outs ins m))"
proof -
  let ?o = "map fst (outbound_entries tid c)" and ?i = "map fst (inbound_entries L tid c)"
    and ?ro = "map fst (remote_entries (remote_outbound_entry L tid c) outs (mp_outbound m))"
    and ?ri = "map fst (remote_entries (remote_inbound_entry L tid c) ins (mp_inbound m))"
  have ro: "?ro = map (stream_id ''remote-outbound-rtp'') (filter (\<lambda>k. mp_outbound m k \<noteq> None) outs)"
    "?ri = map (stream_id ''remote-inbound-rtp'') (filter (\<lambda>k. mp_inbound m k \<noteq> None) ins)"
    by (rule remote_ids, simp add: remote_outbound_entry_def remote_inbound_entry_def)+
  have d: "distinct ?o" "distinct ?i" "distinct ?ro" "distinct ?ri"
    using outbound_distinct [of "cn_transceivers c" tid] assms(1-4) unfolding inbound_ids ro
    by (auto simp: senders_labelled_def outbound_entries_def stream_ids_distinct)
  have p: "k \<in> set ?o \<Longrightarrow> id_part k = ''outbound-rtp''" "k \<in> set ?i \<Longrightarrow> id_part k = ''inbound-rtp''"
    "k \<in> set ?ro \<Longrightarrow> id_part k = ''remote-outbound-rtp''" "k \<in> set ?ri \<Longrightarrow> id_part k = ''remote-inbound-rtp''" for k
    using outbound_ids [of k tid c] unfolding inbound_ids ro by auto
  have t: "id_part tid \<in> {[], ''transport''}" using assms(6) by (auto simp: id_part_def)
  have "map fst (stats_entries L tid outs ins m) = tid # ?o @ ?i @ ?ro @ ?ri"
    using assms(5) by (simp add: stats_entries_def transport_entry_def)
  moreover have "set ?o \<inter> set ?i = {}" "set ?o \<inter> set ?ro = {}" "set ?o \<inter> set ?ri = {}" "set ?i \<inter> set ?ro = {}"
    "set ?i \<inter> set ?ri = {}" "set ?ro \<inter> set ?ri = {}"
    using parts_disjoint [OF p(1) p(2)] parts_disjoint [OF p(1) p(3)] parts_disjoint [OF p(1) p(4)]
      parts_disjoint [OF p(2) p(3)] parts_disjoint [OF p(2) p(4)] parts_disjoint [OF p(3) p(4)] by simp_all
  moreover have "id_part tid \<noteq> ''outbound-rtp''" "id_part tid \<noteq> ''inbound-rtp''" "id_part tid \<noteq> ''remote-outbound-rtp''"
    "id_part tid \<noteq> ''remote-inbound-rtp''" using t by auto
  then have "tid \<notin> set ?o" "tid \<notin> set ?i" "tid \<notin> set ?ro" "tid \<notin> set ?ri" using p [of tid] by blast+
  ultimately show ?thesis using d by (simp add: Int_Un_distrib)
qed

text \<open>
  C37: The statistics are complete. When the sending transceivers have different identifiers, none with an
  underscore, and the streams of a sender different sources, no entry of the report hides another: the
  transport, each stream of each sender, each linked source and each source of which the peer has told is
  found under its identifier with its counters, and the lost packets of a source are the expected less
  the received ones.
\<close>
theorem stats_complete:
  assumes "senders_labelled (mp_conn m)" "distinct (map fst (cn_ssrc_set (mp_conn m)))"
    and "distinct outs" "distinct ins" "set outs = dom (mp_outbound m)" "set ins = dom (mp_inbound m)"
    and "tid = [] \<or> id_part tid = ''transport''"
  shows "(\<exists>x. get_stats L tid outs ins m tid = Some (Transport_stats x) \<and> rx_packets_sent x = mp_tx_packets m
      \<and> rx_packets_received x = mp_rx_packets m \<and> rx_bytes_sent x = mp_tx_bytes m \<and> rx_bytes_received x = mp_rx_bytes m)
    \<and> (\<forall>t \<in> set (cn_transceivers (mp_conn m)). \<forall>tk. sn_track (tr_sender t) = Some tk \<longrightarrow> (\<forall>s \<in> set (sn_streams (tr_sender t)).
        \<exists>x. get_stats L tid outs ins m (outbound_id t s) = Some (Outbound_stats x) \<and> rt_ssrc x = sm_ssrc s
          \<and> unat (rs_packets_sent x) = unat (sm_packet_count s) \<and> unat (rs_bytes_sent x) = unat (sm_octet_count s) \<and> rs_track_id x = tk_id tk))
    \<and> (\<forall>ssrc x. get_ctx ssrc (mp_conn m) = Some x \<longrightarrow>
        (\<exists>y. get_stats L tid outs ins m (''inbound-rtp_'' @ show_word ssrc) = Some (Inbound_stats y) \<and> rt_ssrc y = ssrc
          \<and> rr_packets_received y = sc_packets_received x \<and> rr_packets_received y + rr_packets_lost y = sc_packets_expected x))
    \<and> (\<forall>ssrc r. mp_outbound m ssrc = Some r \<longrightarrow>
        (\<exists>y. get_stats L tid outs ins m (''remote-outbound-rtp_'' @ show_word ssrc) = Some (Remote_outbound_stats y)
          \<and> rs_remote_timestamp y = ro_remote_timestamp r \<and> unat (rs_packets_sent y) = unat (ro_packets_sent r)))
    \<and> (\<forall>ssrc r. mp_inbound m ssrc = Some r \<longrightarrow>
        (\<exists>y. get_stats L tid outs ins m (''remote-inbound-rtp_'' @ show_word ssrc) = Some (Remote_inbound_stats y)
          \<and> unat (rr_packets_lost y) = unat (ri_packets_lost r) \<and> rr_round_trip_us y = ri_round_trip_us r))"
proof (intro conjI ballI allI impI)
  have g: "(k, v) \<in> set (stats_entries L tid outs ins m) \<Longrightarrow> get_stats L tid outs ins m k = Some v" for k v
    by (rule get_stats_entry [OF entries_distinct [OF assms(1-4) refl assms(7)]])
  have id: "''inbound-rtp_'' @ show_word k = stream_id ''inbound-rtp'' k"
    "''remote-outbound-rtp_'' @ show_word k = stream_id ''remote-outbound-rtp'' k"
    "''remote-inbound-rtp_'' @ show_word k = stream_id ''remote-inbound-rtp'' k" for k :: u32
    by (simp_all add: stream_id_def)
  have w: "unat (ucast (a :: u32) :: u64) = unat a" for a
  proof -
    have "unat a < 2 ^ 64" using unsigned_less [of a, where ?'a = nat] by simp
    then show ?thesis by (simp add: unsigned_ucast_eq take_bit_nat_eq_self)
  qed
  show "\<exists>x. get_stats L tid outs ins m tid = Some (Transport_stats x) \<and> rx_packets_sent x = mp_tx_packets m
      \<and> rx_packets_received x = mp_rx_packets m \<and> rx_bytes_sent x = mp_tx_bytes m \<and> rx_bytes_received x = mp_rx_bytes m"
  proof -
    have "transport_entry tid m \<in> set (stats_entries L tid outs ins m)" by (simp add: stats_entries_def)
    then show ?thesis unfolding transport_entry_def by (auto dest!: g)
  qed
  show "\<exists>x. get_stats L tid outs ins m (outbound_id t s) = Some (Outbound_stats x) \<and> rt_ssrc x = sm_ssrc s
      \<and> unat (rs_packets_sent x) = unat (sm_packet_count s) \<and> unat (rs_bytes_sent x) = unat (sm_octet_count s) \<and> rs_track_id x = tk_id tk"
    if "t \<in> set (cn_transceivers (mp_conn m))" "sn_track (tr_sender t) = Some tk" "s \<in> set (sn_streams (tr_sender t))" for t tk s
  proof -
    have "outbound_entry tid t tk s \<in> set (outbound_entries tid (mp_conn m))"
      using that by (auto simp: outbound_entries_def intro!: bexI [of _ t])
    then have "outbound_entry tid t tk s \<in> set (stats_entries L tid outs ins m)" by (simp add: stats_entries_def)
    then show ?thesis unfolding outbound_entry_def by (auto dest!: g simp: w)
  qed
  show "\<exists>y. get_stats L tid outs ins m (''inbound-rtp_'' @ show_word ssrc) = Some (Inbound_stats y) \<and> rt_ssrc y = ssrc
      \<and> rr_packets_received y = sc_packets_received x \<and> rr_packets_received y + rr_packets_lost y = sc_packets_expected x"
    if x: "get_ctx ssrc (mp_conn m) = Some x" for ssrc x
  proof -
    obtain i where i: "(ssrc, i) \<in> set (cn_ssrc_set (mp_conn m))" "sc_ssrc x = ssrc"
      using x map_of_SomeD by (fastforce simp: get_ctx_def find_Some_iff split: option.splits)
    then have "inbound_entry L tid (mp_conn m) i x \<in> set (inbound_entries L tid (mp_conn m))"
      using x by (auto simp: inbound_entries_def intro!: bexI [of _ "(ssrc, i)"])
    then have "inbound_entry L tid (mp_conn m) i x \<in> set (stats_entries L tid outs ins m)" by (simp add: stats_entries_def)
    then show ?thesis unfolding inbound_entry_def id using i(2) by (auto dest!: g)
  qed
  show "\<exists>y. get_stats L tid outs ins m (''remote-outbound-rtp_'' @ show_word ssrc) = Some (Remote_outbound_stats y)
      \<and> rs_remote_timestamp y = ro_remote_timestamp r \<and> unat (rs_packets_sent y) = unat (ro_packets_sent r)"
    if r: "mp_outbound m ssrc = Some r" for ssrc r
  proof -
    have "ssrc \<in> set outs" using r assms(5) by auto
    then have "remote_outbound_entry L tid (mp_conn m) ssrc r \<in> set (stats_entries L tid outs ins m)"
      using r by (auto simp: stats_entries_def remote_entries_def intro!: bexI [of _ ssrc])
    then show ?thesis unfolding remote_outbound_entry_def id by (auto dest!: g simp: w)
  qed
  show "\<exists>y. get_stats L tid outs ins m (''remote-inbound-rtp_'' @ show_word ssrc) = Some (Remote_inbound_stats y)
      \<and> unat (rr_packets_lost y) = unat (ri_packets_lost r) \<and> rr_round_trip_us y = ri_round_trip_us r"
    if r: "mp_inbound m ssrc = Some r" for ssrc r
  proof -
    have "ssrc \<in> set ins" using r assms(6) by auto
    then have "remote_inbound_entry L tid (mp_conn m) ssrc r \<in> set (stats_entries L tid outs ins m)"
      using r by (auto simp: stats_entries_def remote_entries_def intro!: bexI [of _ ssrc])
    then show ?thesis unfolding remote_inbound_entry_def id by (auto dest!: g simp: w)
  qed
qed

text \<open>
  Before a negotiation the transceivers have no identifier: the streams of all senders share one, and the
  last of them hides the others.
\<close>

lemma unlabelled_streams_hide:
  assumes "cn_transceivers (mp_conn m) = [t, t']" "tr_mid t = []" "tr_mid t' = []"
    and "sn_track (tr_sender t) = Some tk" "sn_track (tr_sender t') = Some tk'"
    and "sn_streams (tr_sender t) = [s]" "sn_streams (tr_sender t') = [s']"
    and "cn_ssrc_set (mp_conn m) = []"
  shows "outbound_id t s = outbound_id t' s'"
    and "get_stats L tid [] [] m (outbound_id t s) = Some (snd (outbound_entry tid t' tk' s'))"
proof -
  show e: "outbound_id t s = outbound_id t' s'" using assms by (simp add: outbound_id_def)
  show "get_stats L tid [] [] m (outbound_id t s) = Some (snd (outbound_entry tid t' tk' s'))"
    unfolding e using assms
    by (simp add: get_stats_def stats_entries_def outbound_entries_def inbound_entries_def remote_entries_def outbound_entry_def
        transport_entry_def)
qed

section \<open>Witness\<close>

definition stats_sample :: media_path where
  "stats_sample = media_path_new ((connection_new True)\<lparr>cn_transceivers :=
     [sample_sender\<lparr>tr_sender := rtp_sender_default\<lparr>
         sn_track := Some \<lparr>tk_id = ''a'', tk_kind = mk_audio, tk_description = track_description sdp_sample_lib (media_track_impl_new sdp_sample_lib [] opus_codec)\<rparr>,
         sn_streams := [rtp_stream_default\<lparr>sm_ssrc := 5, sm_packet_count := 3\<rparr>]\<rparr>,
       tr_receiver := rtp_receiver_default\<lparr>rc_ssrcs := [(ssrc_context_new 9)\<lparr>sc_packets_expected := 4, sc_packets_received := 3\<rparr>]\<rparr>\<rparr>],
     cn_ssrc_set := [(9, 0)]\<rparr>) (transport_cc_new 0 0)"

theorem stats_complete_witness:
  "\<exists>x y. get_stats sdp_sample_lib [] [] [] stats_sample ''outbound-rtp_0'' = Some (Outbound_stats x) \<and> unat (rs_packets_sent x) = 3
     \<and> get_stats sdp_sample_lib [] [] [] stats_sample (''inbound-rtp_'' @ show_word (9 :: u32)) = Some (Inbound_stats y)
     \<and> rr_packets_received y + rr_packets_lost y = 4"
proof -
  let ?c = "mp_conn stats_sample"
  have f: "senders_labelled ?c" "distinct (map fst (cn_ssrc_set ?c))" "dom (mp_outbound stats_sample) = {}" "dom (mp_inbound stats_sample) = {}"
    by (simp_all add: stats_sample_def media_path_new_def connection_new_def senders_labelled_def sends_def sample_sender_simps)
  obtain t tk s where t: "t \<in> set (cn_transceivers ?c)" "sn_track (tr_sender t) = Some tk" "s \<in> set (sn_streams (tr_sender t))"
    "outbound_id t s = ''outbound-rtp_0''" "unat (sm_packet_count s) = 3"
    by (simp add: stats_sample_def media_path_new_def connection_new_def outbound_id_def sample_sender_simps)
  obtain x where x: "get_ctx 9 ?c = Some x" "sc_packets_expected x = 4"
    by (simp add: stats_sample_def media_path_new_def get_ctx_def ssrc_context_new_def)
  show ?thesis
    using stats_complete [OF f(1,2), of "[]" "[]" "[]" sdp_sample_lib] f(3,4) t x by fastforce
qed

end
