(* ===== verification/Candidates.thy ===== *)
theory Candidates
  imports Connection
begin

text \<open>
  Candidates, \<open>src/candidate.cpp\<close>: the conversion between the candidates of the interface, whose
  addresses are strings, and those of the ICE agent. The agent's candidates and the addresses of the
  network library are of other packages: the record \<open>ice_candidate\<close> has the fields that the code reads
  and writes, over a type \<open>'a\<close> of addresses, and the functions on addresses are the fields of
  \<open>address_lib\<close>.
\<close>

section \<open>Candidates\<close>

datatype candidate_type = ct_host | ct_srflx | ct_prflx | ct_relay

record candidate =
  cd_foundation :: string
  cd_component :: u8
  cd_transport_type :: string
  cd_priority :: u32
  cd_address :: string
  cd_port :: u16
  cd_type :: candidate_type
  cd_related_address :: "string option"
  cd_related_port :: "u16 option"
  cd_tcptype :: string
  cd_generation :: "u32 option"

record 'a ice_candidate =
  ic_foundation :: string
  ic_component :: u8
  ic_transport_type :: string
  ic_priority :: u32
  ic_type :: candidate_type
  ic_endpoint :: "'a \<times> u16"
  ic_related :: "('a \<times> u16) option"
  ic_mdns_host :: string
  ic_mdns_related :: string
  ic_tcptype :: string
  ic_generation :: "u32 option"

text \<open>\<open>make_address\<close>, \<open>to_string\<close>, and the address and the endpoint that are made without arguments.\<close>

record 'a address_lib =
  make_address :: "string \<Rightarrow> 'a option"
  address_string :: "'a \<Rightarrow> string"
  any_address :: 'a
  any_endpoint :: "'a \<times> u16"

definition is_mdns :: "string \<Rightarrow> bool" where
  "is_mdns host \<longleftrightarrow> length host \<ge> 6 \<and> drop (length host - 6) host = ''.local''"

section \<open>Conversions\<close>

definition ice_fields :: "'a address_lib \<Rightarrow> candidate \<Rightarrow> 'a ice_candidate" where
  "ice_fields A c = \<lparr>ic_foundation = cd_foundation c, ic_component = cd_component c, ic_transport_type = cd_transport_type c,
     ic_priority = cd_priority c, ic_type = cd_type c, ic_endpoint = any_endpoint A, ic_related = None,
     ic_mdns_host = [], ic_mdns_related = [], ic_tcptype = cd_tcptype c, ic_generation = cd_generation c\<rparr>"

definition ice_address :: "'a address_lib \<Rightarrow> candidate \<Rightarrow> 'a ice_candidate \<Rightarrow> sig_error + 'a ice_candidate" where
  "ice_address A c ice =
     (if cd_address c = [] then Inr ice
      else if is_mdns (cd_address c)
      then Inr (ice\<lparr>ic_mdns_host := cd_address c, ic_endpoint := (any_address A, cd_port c)\<rparr>)
      else (case make_address A (cd_address c) of None \<Rightarrow> Inl Runtime_error
            | Some a \<Rightarrow> Inr (ice\<lparr>ic_endpoint := (a, cd_port c)\<rparr>)))"

definition ice_related :: "'a address_lib \<Rightarrow> candidate \<Rightarrow> 'a ice_candidate \<Rightarrow> sig_error + 'a ice_candidate" where
  "ice_related A c ice =
     (case cd_related_address c of None \<Rightarrow> Inr ice
      | Some r \<Rightarrow>
          (let port = (case cd_related_port c of None \<Rightarrow> 0 | Some p \<Rightarrow> p)
           in if r = [] then Inr ice
              else if is_mdns r then Inr (ice\<lparr>ic_mdns_related := r, ic_related := Some (any_address A, port)\<rparr>)
              else (case make_address A r of None \<Rightarrow> Inl Runtime_error
                    | Some a \<Rightarrow> Inr (ice\<lparr>ic_related := Some (a, port)\<rparr>))))"

definition to_ice :: "'a address_lib \<Rightarrow> candidate \<Rightarrow> sig_error + 'a ice_candidate" where
  "to_ice A c = (case ice_address A c (ice_fields A c) of Inl e \<Rightarrow> Inl e | Inr ice \<Rightarrow> ice_related A c ice)"

definition from_ice :: "'a address_lib \<Rightarrow> 'a ice_candidate \<Rightarrow> candidate" where
  "from_ice A i =
     (let c = \<lparr>cd_foundation = ic_foundation i, cd_component = ic_component i, cd_transport_type = ic_transport_type i,
              cd_priority = ic_priority i,
              cd_address = (if ic_mdns_host i \<noteq> [] then ic_mdns_host i else address_string A (fst (ic_endpoint i))),
              cd_port = snd (ic_endpoint i), cd_type = ic_type i, cd_related_address = None, cd_related_port = None,
              cd_tcptype = ic_tcptype i, cd_generation = ic_generation i\<rparr>
      in if ic_mdns_related i \<noteq> []
         then c\<lparr>cd_related_address := Some (ic_mdns_related i), cd_related_port := Some (snd (ic_endpoint i))\<rparr>
         else (case ic_related i of None \<Rightarrow> c
               | Some r \<Rightarrow> c\<lparr>cd_related_address := Some (address_string A (fst r)), cd_related_port := Some (snd r)\<rparr>))"

section \<open>Properties\<close>

text \<open>An address that the library reads, and writes as it was.\<close>

definition plain_address :: "'a address_lib \<Rightarrow> string \<Rightarrow> bool" where
  "plain_address A s \<longleftrightarrow> s \<noteq> [] \<and> (\<exists>a. make_address A s = Some a \<and> address_string A a = s)"

definition related_out :: "candidate \<Rightarrow> (string \<times> u16) option" where
  "related_out c =
     (case cd_related_address c of None \<Rightarrow> None
      | Some r \<Rightarrow> if r = [] then None
          else Some (r, if is_mdns r then cd_port c else case cd_related_port c of None \<Rightarrow> 0 | Some p \<Rightarrow> p))"

lemma is_mdns_nonempty: "is_mdns s \<Longrightarrow> s \<noteq> []"
  by (auto simp: is_mdns_def)

text \<open>The two halves of the conversion.\<close>

lemma ice_address_cases:
  "ice_address A c i = Inl e \<longleftrightarrow> e = Runtime_error \<and> cd_address c \<noteq> [] \<and> \<not> is_mdns (cd_address c) \<and> make_address A (cd_address c) = None"
  by (auto simp: ice_address_def split: option.split)

lemma ice_related_cases:
  "ice_related A c i = Inl e \<longleftrightarrow>
     e = Runtime_error \<and> (\<exists>r. cd_related_address c = Some r \<and> r \<noteq> [] \<and> \<not> is_mdns r \<and> make_address A r = None)"
  by (cases "cd_related_address c") (auto simp: ice_related_def Let_def split: option.split)

lemma to_ice_cases:
  "to_ice A c = Inl e \<longleftrightarrow> e = Runtime_error \<and>
     ((cd_address c \<noteq> [] \<and> \<not> is_mdns (cd_address c) \<and> make_address A (cd_address c) = None)
      \<or> (\<exists>r. cd_related_address c = Some r \<and> r \<noteq> [] \<and> \<not> is_mdns r \<and> make_address A r = None))"
proof (cases "ice_address A c (ice_fields A c)")
  case (Inl e')
  then show ?thesis using Inl [unfolded ice_address_cases] by (auto simp: to_ice_def)
next
  case (Inr i)
  then have "ice_address A c (ice_fields A c) \<noteq> Inl Runtime_error" by simp
  then show ?thesis using Inr ice_related_cases [of A c i e] unfolding ice_address_cases by (auto simp: to_ice_def)
qed

text \<open>What comes back when the address and the related address are those of \<open>i\<close>.\<close>

lemma ice_address_back:
  assumes "is_mdns (cd_address c) \<or> plain_address A (cd_address c)"
  shows "\<exists>i. ice_address A c (ice_fields A c) = Inr i \<and> from_ice A i = c\<lparr>cd_related_address := None, cd_related_port := None\<rparr>
    \<and> snd (ic_endpoint i) = cd_port c \<and> ic_mdns_related i = [] \<and> ic_related i = None"
  using assms is_mdns_nonempty [of "cd_address c"]
  by (auto simp: ice_address_def ice_fields_def from_ice_def plain_address_def)

lemma from_ice_related:
  assumes "ic_mdns_related i = []" "ic_related i = None" "r \<noteq> []"
  shows "from_ice A (i\<lparr>ic_mdns_related := r, ic_related := x\<rparr>)
      = (from_ice A i)\<lparr>cd_related_address := Some r, cd_related_port := Some (snd (ic_endpoint i))\<rparr>"
    and "from_ice A (i\<lparr>ic_related := Some (a, port)\<rparr>)
      = (from_ice A i)\<lparr>cd_related_address := Some (address_string A a), cd_related_port := Some port\<rparr>"
  using assms by (simp_all add: from_ice_def)

lemma ice_related_back:
  assumes "ic_mdns_related i = []" "ic_related i = None" "snd (ic_endpoint i) = cd_port c"
    and "\<And>r. cd_related_address c = Some r \<Longrightarrow> r = [] \<or> is_mdns r \<or> plain_address A r"
    and "from_ice A i = c\<lparr>cd_related_address := None, cd_related_port := None\<rparr>"
  shows "\<exists>j. ice_related A c i = Inr j
    \<and> from_ice A j = c\<lparr>cd_related_address := map_option fst (related_out c), cd_related_port := map_option snd (related_out c)\<rparr>"
proof (cases "cd_related_address c")
  case None
  then show ?thesis using assms(5) by (simp add: ice_related_def related_out_def)
next
  case (Some r)
  consider "r = []" | "r \<noteq> []" "is_mdns r" | "r \<noteq> []" "\<not> is_mdns r" "plain_address A r" using assms(4) [OF Some] by blast
  then show ?thesis
    using Some assms(3,5) from_ice_related [OF assms(1,2)]
    by cases (auto simp: ice_related_def related_out_def plain_address_def Let_def)
qed

text \<open>
  C36: Candidates survive the way to the agent and back. The conversion fails exactly when an address that
  is neither empty nor the name of a local host cannot be read. Otherwise a candidate whose addresses are
  such names or are written as the library writes them comes back as it was, except for its related
  address: an empty one is lost, a missing port becomes 0, and the port next to the name of a local host
  is replaced by the port of the candidate itself.
\<close>
theorem candidate_roundtrip:
  "(to_ice A c = Inl Runtime_error \<longleftrightarrow>
      (cd_address c \<noteq> [] \<and> \<not> is_mdns (cd_address c) \<and> make_address A (cd_address c) = None)
      \<or> (\<exists>r. cd_related_address c = Some r \<and> r \<noteq> [] \<and> \<not> is_mdns r \<and> make_address A r = None))
   \<and> ((is_mdns (cd_address c) \<or> plain_address A (cd_address c))
        \<and> (\<forall>r. cd_related_address c = Some r \<longrightarrow> r = [] \<or> is_mdns r \<or> plain_address A r)
      \<longrightarrow> (\<exists>i. to_ice A c = Inr i
            \<and> from_ice A i = c\<lparr>cd_related_address := map_option fst (related_out c), cd_related_port := map_option snd (related_out c)\<rparr>))"
proof (intro conjI impI)
  show "to_ice A c = Inl Runtime_error \<longleftrightarrow>
      (cd_address c \<noteq> [] \<and> \<not> is_mdns (cd_address c) \<and> make_address A (cd_address c) = None)
      \<or> (\<exists>r. cd_related_address c = Some r \<and> r \<noteq> [] \<and> \<not> is_mdns r \<and> make_address A r = None)"
    by (simp add: to_ice_cases)
  assume a: "(is_mdns (cd_address c) \<or> plain_address A (cd_address c))
        \<and> (\<forall>r. cd_related_address c = Some r \<longrightarrow> r = [] \<or> is_mdns r \<or> plain_address A r)"
  obtain i where i: "ice_address A c (ice_fields A c) = Inr i" "snd (ic_endpoint i) = cd_port c" "ic_mdns_related i = []"
    "ic_related i = None" "from_ice A i = c\<lparr>cd_related_address := None, cd_related_port := None\<rparr>"
    using ice_address_back a by blast
  show "\<exists>i. to_ice A c = Inr i
      \<and> from_ice A i = c\<lparr>cd_related_address := map_option fst (related_out c), cd_related_port := map_option snd (related_out c)\<rparr>"
    using ice_related_back [OF i(3,4,2) _ i(5)] a by (simp add: to_ice_def i(1))
qed

text \<open>A library whose addresses are their texts; only texts with a dot can be read.\<close>

definition text_addresses :: "string address_lib" where
  "text_addresses = \<lparr>make_address = (\<lambda>s. if CHR ''.'' \<in> set s then Some s else None), address_string = (\<lambda>a. a),
     any_address = ''0.0.0.0'', any_endpoint = (''0.0.0.0'', 0)\<rparr>"

definition sample_candidate :: candidate where
  "sample_candidate = \<lparr>cd_foundation = ''1'', cd_component = 1, cd_transport_type = ''UDP'', cd_priority = 7,
     cd_address = ''1.2.3.4'', cd_port = 5000, cd_type = ct_srflx, cd_related_address = Some ''h.local'',
     cd_related_port = Some 6000, cd_tcptype = [], cd_generation = None\<rparr>"

theorem candidate_roundtrip_witness:
  "\<exists>i. to_ice text_addresses sample_candidate = Inr i \<and> from_ice text_addresses i = sample_candidate\<lparr>cd_related_port := Some 5000\<rparr>"
proof -
  have "is_mdns ''h.local''" "plain_address text_addresses ''1.2.3.4''"
    by (simp_all add: is_mdns_def plain_address_def text_addresses_def)
  then show ?thesis
    using candidate_roundtrip [of text_addresses sample_candidate]
    by (simp add: sample_candidate_def related_out_def)
qed

end
