(* ===== verification/PeerConnection.thy ===== *)
theory PeerConnection
  imports Srtp Stats Candidates
begin

text \<open>
  The interface of the library, \<open>src/peer_connection.cpp\<close> and \<open>include/asiortc/peer_connection.hpp\<close>: the calls
  that a connection object hands on, with their checks, and \<open>send_rtp\<close>, by which an application sends
  packets of its own. The object holds a shared pointer, which is null once the object was moved from.
\<close>

section \<open>Calls\<close>

text \<open>
  What a call does: it returns, throws, ends the program (an exception in a \<open>noexcept\<close> function), does not
  return, or its behaviour is undefined.
\<close>

datatype 'a call_result = Returned 'a | Threw sig_error | Terminated | Diverges | Undefined

definition throw_if_nullptr :: "'p option \<Rightarrow> ('p \<Rightarrow> 'a call_result) \<Rightarrow> 'a call_result" where
  "throw_if_nullptr p f = (case p of None \<Rightarrow> Threw Runtime_error | Some x \<Rightarrow> f x)"

definition noexcept_call :: "'a call_result \<Rightarrow> 'a call_result" where
  "noexcept_call r = (case r of Threw e \<Rightarrow> Terminated | _ \<Rightarrow> r)"

definition sum_result :: "sig_error + 'a \<Rightarrow> 'a call_result" where
  "sum_result r = (case r of Inl e \<Rightarrow> Threw e | Inr x \<Rightarrow> Returned x)"

type_synonym peer_connection = "media_path option"

definition with_conn :: "(connection \<Rightarrow> connection) \<Rightarrow> media_path \<Rightarrow> peer_connection" where
  "with_conn f m = Some (m\<lparr>mp_conn := f (mp_conn m)\<rparr>)"

section \<open>Descriptions\<close>

definition pc_create_offer ::
  "sdp_lib \<Rightarrow> agent_lib \<Rightarrow> peer_connection \<Rightarrow> (session_description \<times> peer_connection) call_result" where
  "pc_create_offer L A pc = throw_if_nullptr pc (\<lambda>m.
     case create_offer L A (mp_conn m) of None \<Rightarrow> Diverges | Some (d, c) \<Rightarrow> Returned (d, with_conn (\<lambda>_. c) m))"

definition pc_create_answer :: "sdp_lib \<Rightarrow> agent_lib \<Rightarrow> peer_connection \<Rightarrow> session_description call_result" where
  "pc_create_answer L A pc = throw_if_nullptr pc (\<lambda>m. sum_result (create_answer L A (mp_conn m)))"

definition pc_set_local_description ::
  "agent_lib \<Rightarrow> session_description option \<Rightarrow> peer_connection \<Rightarrow> peer_connection call_result" where
  "pc_set_local_description A desc pc = throw_if_nullptr pc (\<lambda>m. throw_if_nullptr desc (\<lambda>d.
     case set_local_description A d (mp_conn m) of Inl e \<Rightarrow> Threw e | Inr c \<Rightarrow> Returned (with_conn (\<lambda>_. c) m)))"

text \<open>The call that throws may have changed the connection: the second part of the result.\<close>

definition pc_set_remote_description ::
  "sdp_lib \<Rightarrow> agent_lib \<Rightarrow> (nat \<Rightarrow> string) \<Rightarrow> session_description option \<Rightarrow> peer_connection \<Rightarrow> unit call_result \<times> peer_connection" where
  "pc_set_remote_description L A uuid desc pc =
     (case (pc, desc) of
        (Some m, Some d) \<Rightarrow>
          (case set_remote_description L A uuid d (mp_conn m) of
             (c, e) \<Rightarrow> (case e of None \<Rightarrow> Returned () | Some e \<Rightarrow> Threw e, with_conn (\<lambda>_. c) m))
      | _ \<Rightarrow> (Threw Runtime_error, pc))"

definition pc_local_description :: "peer_connection \<Rightarrow> session_description option call_result" where
  "pc_local_description pc = noexcept_call (throw_if_nullptr pc (\<lambda>m. Returned (cn_local_desc (mp_conn m))))"

definition pc_can_trickle :: "peer_connection \<Rightarrow> bool call_result" where
  "pc_can_trickle pc = noexcept_call (throw_if_nullptr pc (\<lambda>m. Returned (cn_trickle_ice (mp_conn m))))"

definition pc_add_ice_candidate ::
  "'a address_lib \<Rightarrow> ('a ice_candidate \<Rightarrow> bool) \<Rightarrow> candidate \<Rightarrow> peer_connection \<Rightarrow> 'a ice_candidate call_result" where
  "pc_add_ice_candidate AL accepts c pc = throw_if_nullptr pc (\<lambda>m.
     case to_ice AL c of Inl e \<Rightarrow> Threw e | Inr i \<Rightarrow> if accepts i then Returned i else Threw Runtime_error)"

section \<open>States\<close>

definition pc_connection_state :: "peer_connection \<Rightarrow> connection_state" where
  "pc_connection_state pc = (case pc of None \<Rightarrow> cs_closed | Some m \<Rightarrow> cn_connection_state (mp_conn m))"

definition pc_signaling_state :: "peer_connection \<Rightarrow> signaling_state" where
  "pc_signaling_state pc = (case pc of None \<Rightarrow> stable | Some m \<Rightarrow> cn_signaling (mp_conn m))"

definition pc_gathering_state :: "peer_connection \<Rightarrow> gathering_state" where
  "pc_gathering_state pc = (case pc of None \<Rightarrow> gs_init | Some m \<Rightarrow> cn_gathering (mp_conn m))"

section \<open>Tracks\<close>

definition pc_add_track ::
  "sdp_lib \<Rightarrow> (nat \<Rightarrow> u32) \<Rightarrow> u32 \<Rightarrow> media_track option \<Rightarrow> string list \<Rightarrow> peer_connection \<Rightarrow> peer_connection call_result" where
  "pc_add_track L rnd pic track streams pc = throw_if_nullptr pc (\<lambda>m.
     case add_track L rnd pic track streams (mp_conn m) of Inl e \<Rightarrow> Threw e | Inr c \<Rightarrow> Returned (with_conn (\<lambda>_. c) m))"

definition pc_add_transceiver ::
  "sdp_lib \<Rightarrow> (nat \<Rightarrow> u32) \<Rightarrow> u32 \<Rightarrow> media_description \<Rightarrow> rtp_transceiver_init \<Rightarrow> peer_connection \<Rightarrow> peer_connection call_result" where
  "pc_add_transceiver L rnd pic desc init pc = throw_if_nullptr pc (\<lambda>m.
     case add_transceiver_desc L rnd pic desc init (mp_conn m) of Inl e \<Rightarrow> Threw e | Inr c \<Rightarrow> Returned (with_conn (\<lambda>_. c) m))"

text \<open>A sender is given by the position of its transceiver.\<close>

definition pc_replace_track :: "nat option \<Rightarrow> media_track option \<Rightarrow> peer_connection \<Rightarrow> peer_connection call_result" where
  "pc_replace_track sender track pc = throw_if_nullptr pc (\<lambda>m.
     case (sender, track) of
       (Some i, Some tk) \<Rightarrow>
         (let t = cn_transceivers (mp_conn m) ! i
          in case sn_track (tr_sender t) of
               Some old \<Rightarrow> if tk_kind old \<noteq> tk_kind tk then Threw Runtime_error
                 else Returned (with_conn (put_transceiver i (set_track tk t)) m)
             | None \<Rightarrow> Returned (with_conn (put_transceiver i (set_track tk t)) m))
     | _ \<Rightarrow> Threw Runtime_error)"

definition pc_get_stats ::
  "sdp_lib \<Rightarrow> string \<Rightarrow> u32 list \<Rightarrow> u32 list \<Rightarrow> peer_connection \<Rightarrow> (string \<rightharpoonup> any_stats) call_result" where
  "pc_get_stats L tid outs ins pc = throw_if_nullptr pc (\<lambda>m. Returned (get_stats L tid outs ins m))"

definition pc_close :: "peer_connection \<Rightarrow> peer_connection" where
  "pc_close pc = (case pc of None \<Rightarrow> None | Some m \<Rightarrow> with_conn close m)"

section \<open>Sending packets of the application\<close>

text \<open>
  \<open>encrypt_rtp\<close> gives nothing without a transport. The outer \<open>None\<close> is undefined behaviour, as in theory Srtp.
\<close>

definition encrypt_rtp :: "'s srtp_lib \<Rightarrow> bytes \<Rightarrow> nat \<Rightarrow> 's srtp_transport option \<Rightarrow> (bytes \<times> 's srtp_transport option) option" where
  "encrypt_rtp S d cap t =
     (case t of None \<Rightarrow> Some ([], None) | Some t \<Rightarrow> map_option (\<lambda>(e, t). (e, Some t)) (protect_rtp S d cap t))"

definition put_streams :: "nat \<Rightarrow> rtp_stream list \<Rightarrow> media_path \<Rightarrow> media_path" where
  "put_streams i ss m =
     (let t = cn_transceivers (mp_conn m) ! i
      in m\<lparr>mp_conn := put_transceiver i (t\<lparr>tr_sender := (tr_sender t)\<lparr>sn_streams := ss\<rparr>\<rparr>) (mp_conn m)\<rparr>)"

text \<open>
  \<open>send_rtp\<close>: what the operation gives, the datagram that was put into the queue of the transport, the
  transport and the connection. Errors behind the first check become the result \<open>false\<close>; \<open>queued\<close> says
  whether the queue took the datagram before the operation was stopped.
\<close>

definition SEND_BUFFER :: nat where "SEND_BUFFER = 2000"

definition pc_send_rtp ::
  "binary_lib \<Rightarrow> 's srtp_lib \<Rightarrow> bool \<Rightarrow> nat option \<Rightarrow> rtp_packet \<Rightarrow> 's srtp_transport option \<Rightarrow> peer_connection
   \<Rightarrow> ((bool call_result \<times> bytes option) \<times> 's srtp_transport option \<times> peer_connection) option" where
  "pc_send_rtp B S queued sender p t pc =
     (case (pc, sender) of
        (Some m, Some i) \<Rightarrow> do {
          (buf, n) \<leftarrow> rtp_write_to B p (replicate SEND_BUFFER 0);
          if n < 0 then Some ((Returned False, None), t, pc)
          else do {
            let (d, ss) = rewrite_rtp_packet B (take (nat n) buf) (sn_streams (tr_sender (cn_transceivers (mp_conn m) ! i)));
            let m = put_streams i ss m;
            (e, t) \<leftarrow> encrypt_rtp S d SEND_BUFFER t;
            if e = [] then Some ((Returned False, None), t, Some m)
            else if queued then Some ((Returned True, Some e), t, Some (update_sender_status (length (rp_payload p)) (length e) i m))
            else Some ((Returned False, None), t, Some m) } }
      | _ \<Rightarrow> Some ((Threw Runtime_error, None), t, pc))"


section \<open>A packet of the application on the wire\<close>

definition numbered :: "u16 \<Rightarrow> u32 \<Rightarrow> rtp_packet \<Rightarrow> rtp_packet" where
  "numbered q ssrc p = p\<lparr>rp_sequence_number := q, rp_ssrc := ssrc\<rparr>"

text \<open>A packet that \<open>send_rtp\<close> can send and the peer does not take for RTCP.\<close>

definition sendable :: "rtp_packet \<Rightarrow> bool" where
  "sendable p \<longleftrightarrow> rtp_wf p \<and> rp_padding p = 0 \<and> rtp_serialized_size p \<le> SEND_BUFFER
     \<and> \<not> (rp_marker p = 1 \<and> 72 \<le> rp_payload_type p \<and> rp_payload_type p \<le> 76)"

lemma second_byte:
  fixes m pt :: u8
  assumes "m < 2" "pt < 128" "\<not> (m = 1 \<and> 72 \<le> pt \<and> pt \<le> 76)"
  shows "\<not> (200 \<le> push_bit 7 m OR (pt AND 127) \<and> push_bit 7 m OR (pt AND 127) \<le> 204)"
proof -
  have "unat m = 0 \<or> unat m = unat (1 :: u8)" using assms(1) by (simp add: word_less_nat_alt) arith
  then have "m = 0 \<or> m = 1" unfolding word_unat_eq_iff [symmetric] by (simp add: unat_eq_0)
  moreover have "pt AND 127 = pt" using assms(2) by (rule and_127_less)
  moreover have "unat ((128 :: u8) OR pt) = 128 + unat pt"
  proof -
    have "(128 :: u8) AND pt = 0"
    proof -
      have "\<not> bit pt 7" using assms(2) bit_less_exp [of pt 7 7] by auto
      then show ?thesis by (intro u8_eqI) (auto simp: bit_simps bit_numeral_rec)
    qed
    then have "(128 :: u8) OR pt = 128 + pt" by (rule disjunctive_add_eq_or [symmetric])
    moreover have "unat pt < 128" using assms(2) by (simp add: word_less_nat_alt)
    ultimately show ?thesis by (simp add: unat_word_ariths)
  qed
  ultimately show ?thesis using assms(2,3) by (auto simp: word_le_nat_alt word_less_nat_alt)
qed

lemma rtp_fits:
  assumes "rtp_parse B (rtp_body_bytes B p) = Some (Some p)" "rtp_wf p" "rp_padding p = 0"
    and "\<not> (rp_marker p = 1 \<and> 72 \<le> rp_payload_type p \<and> rp_payload_type p \<le> 76)"
  shows "srtp_fits B {rp_ssrc p} (False, rtp_body_bytes B p)"
proof -
  have "rtp_body_bytes B p ! 1 = push_bit 7 (rp_marker p) OR (rp_payload_type p AND 127)"
    by (simp add: rtp_body_bytes_def rtp_header_bytes_def)
  then show ?thesis
    using assms second_byte [of "rp_marker p" "rp_payload_type p"] by (auto simp: srtp_fits_def rtp_wf_def)
qed

lemma sendable_bytes:
  assumes "big_endian B" "sendable p"
  shows "rtp_write_to B p (replicate SEND_BUFFER 0)
      = Some (rtp_body_bytes B p @ drop (rtp_serialized_size p) (replicate SEND_BUFFER 0), int (rtp_serialized_size p))"
    and "length (rtp_body_bytes B p) = rtp_serialized_size p" and "12 \<le> length (rtp_body_bytes B p)"
    and "rtp_parse B (rtp_body_bytes B p) = Some (Some p)" and "srtp_fits B {rp_ssrc p} (False, rtp_body_bytes B p)"
proof -
  have wf: "rtp_wf p" "rp_padding p = 0" "rtp_serialized_size p \<le> SEND_BUFFER" using assms(2) by (simp_all add: sendable_def)
  then have cs: "length (rp_csrcs p) = unat (rp_csrc_count p)" "rtp_serialized_size p \<le> length (replicate SEND_BUFFER (0 :: u8))"
    by (simp_all add: rtp_wf_def)
  have pad: "rtp_pad_bytes p n = []" for n using wf(2) by (simp add: rtp_pad_bytes_def)
  note w = rtp_write_to_eq [OF assms(1) cs, unfolded pad append_Nil append_Nil2]
  show "rtp_write_to B p (replicate SEND_BUFFER 0)
      = Some (rtp_body_bytes B p @ drop (rtp_serialized_size p) (replicate SEND_BUFFER 0), int (rtp_serialized_size p))"
    and l: "length (rtp_body_bytes B p) = rtp_serialized_size p" by (rule w)+
  show p: "rtp_parse B (rtp_body_bytes B p) = Some (Some p)"
    using rtp_parse_body [OF assms(1) wf(1), of "[]"] wf(2) by (simp add: rtp_strip_padding_def)
  then show "12 \<le> length (rtp_body_bytes B p)" by (rule rtp_parse_first)
  show "srtp_fits B {rp_ssrc p} (False, rtp_body_bytes B p)"
    using assms(2) by (intro rtp_fits [OF p wf(1,2)]) (simp add: sendable_def)
qed

lemma numbered_sendable: "sendable p \<Longrightarrow> sendable (numbered q ssrc p)"
proof -
  have "rtp_wf (numbered q ssrc p) \<longleftrightarrow> rtp_wf p" "rtp_serialized_size (numbered q ssrc p) = rtp_serialized_size p"
    unfolding rtp_wf_def rtp_serialized_size_def numbered_def Let_def by simp_all
  then show "sendable p \<Longrightarrow> sendable (numbered q ssrc p)" by (simp add: sendable_def) (simp add: numbered_def)
qed

lemma rewrite_numbered:
  assumes "big_endian B" "12 \<le> length (rtp_body_bytes B p)"
  shows "rewrite_rtp_packet B (rtp_body_bytes B p) (s # ss)
    = (rtp_body_bytes B (numbered (sm_seq s + 1) (sm_ssrc s) p), s\<lparr>sm_seq := sm_seq s + 1\<rparr> # ss)"
  using assms(2) big_endianD [OF assms(1)]
  by (simp add: rewrite_rtp_packet_def Let_def rtp_body_bytes_def rtp_header_bytes_def rtp_extension_bytes_def numbered_def)


text \<open>One packet: the number is used up even when it cannot be protected.\<close>

definition sender_streams :: "nat \<Rightarrow> media_path \<Rightarrow> rtp_stream list" where
  "sender_streams i m = sn_streams (tr_sender (cn_transceivers (mp_conn m) ! i))"

lemma put_streams_get:
  assumes "i < length (cn_transceivers (mp_conn m))"
  shows "sender_streams i (put_streams i ss m) = ss" "length (cn_transceivers (mp_conn (put_streams i ss m))) = length (cn_transceivers (mp_conn m))"
    "mp_tx_packets (put_streams i ss m) = mp_tx_packets m" "mp_tx_bytes (put_streams i ss m) = mp_tx_bytes m"
  using assms by (simp_all add: sender_streams_def put_streams_def put_transceiver_def Let_def)

lemma update_sender_status_get:
  assumes "i < length (cn_transceivers (mp_conn m))" "sender_streams i m = s # ss"
  shows "sender_streams i (update_sender_status o' e i m)
      = s\<lparr>sm_packet_count := sm_packet_count s + 1, sm_octet_count := sm_octet_count s + of_nat o'\<rparr> # ss"
    "length (cn_transceivers (mp_conn (update_sender_status o' e i m))) = length (cn_transceivers (mp_conn m))"
    "mp_tx_packets (update_sender_status o' e i m) = mp_tx_packets m + 1"
  using assms by (simp_all add: sender_streams_def update_sender_status_def put_transceiver_def Let_def set_conn_def)

lemma send_rtp_arrives:
  assumes be: "big_endian B" and p: "sendable p" and i: "i < length (cn_transceivers (mp_conn m))"
    and s: "sender_streams i m = s # ss" and W: "sm_ssrc s \<in> W" and j: "srtp_joined B S J W a b"
  shows "\<exists>e a' m' s'. pc_send_rtp B S True (Some i) p (Some a) (Some m) = Some ((Returned (e \<noteq> None), e), Some a', Some m')
    \<and> sender_streams i m' = s' # ss \<and> sm_seq s' = sm_seq s + 1 \<and> sm_ssrc s' = sm_ssrc s
    \<and> length (cn_transceivers (mp_conn m')) = length (cn_transceivers (mp_conn m))
    \<and> (case e of None \<Rightarrow> srtp_joined B S J W a' b \<and> mp_tx_packets m' = mp_tx_packets m
       | Some e \<Rightarrow> mp_tx_packets m' = mp_tx_packets m + 1
           \<and> (\<exists>d b'. srtp_recv B S e b = Some (Some d, b') \<and> rtp_parse B d = Some (Some (numbered (sm_seq s + 1) (sm_ssrc s) p))
               \<and> srtp_joined B S J W a' b'))"
proof -
  let ?q = "numbered (sm_seq s + 1) (sm_ssrc s) p" and ?s = "s\<lparr>sm_seq := sm_seq s + 1\<rparr>"
  let ?m = "put_streams i (?s # ss) m"
  note w = sendable_bytes [OF be p] and q = sendable_bytes [OF be numbered_sendable [OF p, of "sm_seq s + 1" "sm_ssrc s"]]
  have "srtp_fits B W (False, rtp_body_bytes B ?q)" using q(5) W by (auto simp: srtp_fits_def numbered_def)
  from rtp_received_joined [OF j this, of SEND_BUFFER] obtain e a' r b' where
    e: "protect_rtp S (rtp_body_bytes B ?q) SEND_BUFFER a = Some (e, a')" "srtp_recv B S e b = Some (r, b')"
      "r = (if e = [] then None else Some (rtp_body_bytes B ?q))" "srtp_joined B S J W a' b'" by blast
  obtain x where x: "rtp_write_to B p (replicate SEND_BUFFER 0) = Some (rtp_body_bytes B p @ x, int (rtp_serialized_size p))" using w(1) by blast
  have t: "take (rtp_serialized_size p) (rtp_body_bytes B p @ x) = rtp_body_bytes B p" using w(2) by simp
  note g = put_streams_get [OF i, of "?s # ss"]
  have r: "pc_send_rtp B S True (Some i) p (Some a) (Some m) =
      (if e = [] then Some ((Returned False, None), Some a', Some ?m)
       else Some ((Returned True, Some e), Some a', Some (update_sender_status (length (rp_payload p)) (length e) i ?m)))"
    using s by (simp add: pc_send_rtp_def x t rewrite_numbered [OF be w(3)] encrypt_rtp_def e(1) sender_streams_def Let_def del: take_append)
  show ?thesis
  proof (cases "e = []")
    case True
    have "srtp_recv B S [] b = Some (None, b)" by (simp add: srtp_recv_def datagram_received_def)
    then have "b' = b" using e(2) True by simp
    then show ?thesis using r True g e(4) by (intro exI [of _ None] exI [of _ a'] exI [of _ ?m] exI [of _ ?s]) simp
  next
    case False
    note u = update_sender_status_get [of i ?m ?s ss "length (rp_payload p)" "length e", unfolded g, OF i refl]
    show ?thesis
      using r False e(2-4) u q(4)
      by (intro exI [of _ "Some e"] exI [of _ a'] exI [of _ "update_sender_status (length (rp_payload p)) (length e) i ?m"]
          exI [of _ "?s\<lparr>sm_packet_count := sm_packet_count ?s + 1, sm_octet_count := sm_octet_count ?s + of_nat (length (rp_payload p))\<rparr>"]) simp
  qed
qed


section \<open>Runs\<close>

text \<open>Packets that are sent one after the other, and the datagrams as the peer takes them.\<close>

fun send_run ::
  "binary_lib \<Rightarrow> 's srtp_lib \<Rightarrow> nat \<Rightarrow> rtp_packet list \<Rightarrow> 's srtp_transport option \<Rightarrow> peer_connection
   \<Rightarrow> (bytes option list \<times> 's srtp_transport option \<times> peer_connection) option" where
  "send_run B S i [] t pc = Some ([], t, pc)"
| "send_run B S i (p # ps) t pc = do {
     ((_, e), t, pc) \<leftarrow> pc_send_rtp B S True (Some i) p t pc;
     (es, t, pc) \<leftarrow> send_run B S i ps t pc;
     Some (e # es, t, pc) }"

fun recv_run :: "binary_lib \<Rightarrow> 's srtp_lib \<Rightarrow> bytes option list \<Rightarrow> 's srtp_transport \<Rightarrow> (rtp_packet option list \<times> 's srtp_transport) option" where
  "recv_run B S [] b = Some ([], b)"
| "recv_run B S (None # es) b = recv_run B S es b"
| "recv_run B S (Some e # es) b = do {
     (d, b) \<leftarrow> srtp_recv B S e b;
     (rs, b) \<leftarrow> recv_run B S es b;
     r \<leftarrow> (case d of None \<Rightarrow> Some None | Some d \<Rightarrow> rtp_parse B d);
     Some (r # rs, b) }"

text \<open>The packets that were put on the wire, with the numbers behind \<open>q\<close>.\<close>

fun numbered_all :: "u16 \<Rightarrow> u32 \<Rightarrow> rtp_packet list \<Rightarrow> bytes option list \<Rightarrow> rtp_packet list" where
  "numbered_all q ssrc (p # ps) (e # es) =
     (if e = None then [] else [numbered (q + 1) ssrc p]) @ numbered_all (q + 1) ssrc ps es"
| "numbered_all q ssrc _ _ = []"

lemma send_run_arrives:
  assumes be: "big_endian B"
  shows "list_all sendable ps \<Longrightarrow> i < length (cn_transceivers (mp_conn m)) \<Longrightarrow> sender_streams i m = s # ss \<Longrightarrow> sm_ssrc s \<in> W
    \<Longrightarrow> srtp_joined B S J W a b
    \<Longrightarrow> \<exists>es a' m' b'. send_run B S i ps (Some a) (Some m) = Some (es, Some a', Some m') \<and> length es = length ps
      \<and> recv_run B S es b = Some (map Some (numbered_all (sm_seq s) (sm_ssrc s) ps es), b')
      \<and> mp_tx_packets m' = mp_tx_packets m + of_nat (length (numbered_all (sm_seq s) (sm_ssrc s) ps es))"
proof (induction ps arbitrary: m s a b)
  case (Cons p ps)
  from send_rtp_arrives [OF be _ Cons.prems(2-5), of p] Cons.prems(1) obtain e a1 m1 s1 where
    1: "pc_send_rtp B S True (Some i) p (Some a) (Some m) = Some ((Returned (e \<noteq> None), e), Some a1, Some m1)"
      "sender_streams i m1 = s1 # ss" "sm_seq s1 = sm_seq s + 1" "sm_ssrc s1 = sm_ssrc s"
      "length (cn_transceivers (mp_conn m1)) = length (cn_transceivers (mp_conn m))"
    and e: "case e of None \<Rightarrow> srtp_joined B S J W a1 b \<and> mp_tx_packets m1 = mp_tx_packets m
       | Some e \<Rightarrow> mp_tx_packets m1 = mp_tx_packets m + 1
           \<and> (\<exists>d b'. srtp_recv B S e b = Some (Some d, b') \<and> rtp_parse B d = Some (Some (numbered (sm_seq s + 1) (sm_ssrc s) p))
               \<and> srtp_joined B S J W a1 b')" by auto
  obtain b1 where b1: "srtp_joined B S J W a1 b1"
    and r: "\<And>rs b'. recv_run B S es b1 = Some (rs, b') \<Longrightarrow> recv_run B S (e # es) b
      = Some ((if e = None then [] else [Some (numbered (sm_seq s + 1) (sm_ssrc s) p)]) @ rs, b')" for es
  proof (cases e)
    case None
    then show ?thesis using e that [of b] by simp
  next
    case (Some x)
    then obtain d b' where "srtp_recv B S x b = Some (Some d, b')" "rtp_parse B d = Some (Some (numbered (sm_seq s + 1) (sm_ssrc s) p))"
      "srtp_joined B S J W a1 b'" using e by auto
    then show ?thesis using Some that [of b'] by simp
  qed
  have n: "mp_tx_packets m1 = mp_tx_packets m + of_nat (if e = None then 0 else 1)" using e by (auto split: option.splits)
  from Cons.IH [of m1 s1 a1 b1] Cons.prems 1 b1 obtain es a' m' b' where
    2: "send_run B S i ps (Some a1) (Some m1) = Some (es, Some a', Some m')" "length es = length ps"
      "recv_run B S es b1 = Some (map Some (numbered_all (sm_seq s1) (sm_ssrc s1) ps es), b')"
      "mp_tx_packets m' = mp_tx_packets m1 + of_nat (length (numbered_all (sm_seq s1) (sm_ssrc s1) ps es))" by auto
  show ?case
    using 1(1) 2(1,2) r [OF 2(3)] 2(4) n
    by (intro exI [of _ "e # es"] exI [of _ a'] exI [of _ m'] exI [of _ b']) (simp add: 1(3,4))
qed simp

text \<open>
  C10: The packets of an application arrive. Two sides are set up with the keys of one handshake in opposite
  roles, and the peer has room for the source of the sender. Of the packets that one side sends with
  \<open>send_rtp\<close>, one after the other, the peer gets those that the cipher could protect, in their order and
  unchanged but for the source, which is that of the sender, and the sequence numbers, which go up by one
  with every packet: one that could not be protected leaves a gap. The counter of sent packets goes up
  for those on the wire only.
\<close>
theorem application_packets_arrive:
  assumes "big_endian B" "srtp_lib_ok B S J" "srtp_setup S keys role a0 = (a, None)" "srtp_setup S keys (other_role role) b0 = (b, None)"
    and "finite (st_active b0)" "card (insert (sm_ssrc s) (st_active b0)) \<le> MAX_ACTIVE_SSRCS"
    and "i < length (cn_transceivers (mp_conn m))" "sender_streams i m = s # ss" "list_all sendable ps"
  shows "\<exists>es a' m' b'. send_run B S i ps (Some a) (Some m) = Some (es, Some a', Some m') \<and> length es = length ps
      \<and> recv_run B S es b = Some (map Some (numbered_all (sm_seq s) (sm_ssrc s) ps es), b')
      \<and> mp_tx_packets m' = mp_tx_packets m + of_nat (length (numbered_all (sm_seq s) (sm_ssrc s) ps es))"
proof -
  have j: "srtp_joined B S J (insert (sm_ssrc s) (st_active b0)) a b"
    by (rule setup_joined [OF assms(3,4,2)]) (use assms(5,6) in auto)
  then show ?thesis by (intro send_run_arrives [OF assms(1,9,7,8) _ j]) simp
qed

text \<open>What the checks of the interface let through: a track of another format is only refused when its kind differs.\<close>

lemma replace_track_changes_format:
  assumes "i < length (cn_transceivers (mp_conn m))" "sn_track (tr_sender (cn_transceivers (mp_conn m) ! i)) = Some old"
    and "tk_kind tk = tk_kind old"
  shows "\<exists>m'. pc_replace_track (Some i) (Some tk) (Some m) = Returned (Some m')
    \<and> sn_track (tr_sender (cn_transceivers (mp_conn m') ! i)) = Some tk
    \<and> sn_packetizer (tr_sender (cn_transceivers (mp_conn m') ! i)) = sn_packetizer (tr_sender (cn_transceivers (mp_conn m) ! i))
    \<and> tr_codec (cn_transceivers (mp_conn m') ! i) = tr_codec (cn_transceivers (mp_conn m) ! i)"
  using assms by (simp add: pc_replace_track_def throw_if_nullptr_def Let_def with_conn_def put_transceiver_def set_track_def)

text \<open>
  A connection that was moved from: the calls that are declared not to throw, and check the pointer by an
  exception, end the program; the others throw or give a state.
\<close>

lemma moved_from:
  "pc_local_description None = Terminated" "pc_can_trickle None = Terminated"
  "pc_create_offer L A None = Threw Runtime_error" "pc_create_answer L A None = Threw Runtime_error"
  "pc_connection_state None = cs_closed" "pc_signaling_state None = stable" "pc_close None = None"
  by (simp_all add: pc_local_description_def pc_can_trickle_def pc_create_offer_def pc_create_answer_def
      pc_connection_state_def pc_signaling_state_def pc_close_def throw_if_nullptr_def noexcept_call_def)

section \<open>Witness\<close>

definition forwarding_sample :: media_path where
  "forwarding_sample = media_path_new ((connection_new True)\<lparr>cn_transceivers :=
     [sample_sender\<lparr>tr_sender := rtp_sender_default\<lparr>sn_streams := [rtp_stream_default\<lparr>sm_ssrc := 7, sm_seq := 0xFFFF\<rparr>]\<rparr>\<rparr>]\<rparr>) (transport_cc_new 0 0)"

theorem application_packets_arrive_witness:
  "\<exists>a b es a' m' b'. srtp_setup tag_lib sample_keys srtp_client srtp_transport_new = (a, None)
     \<and> srtp_setup tag_lib sample_keys srtp_server srtp_transport_new = (b, None)
     \<and> send_run network_lib tag_lib 0 [rtp_packet_default\<lparr>rp_payload := [1, 2]\<rparr>] (Some a) (Some forwarding_sample) = Some (es, a', m')
     \<and> length es = 1 \<and> recv_run network_lib tag_lib es b
       = Some (map Some (numbered_all 0xFFFF 7 [rtp_packet_default\<lparr>rp_payload := [1, 2]\<rparr>] es), b')"
proof -
  obtain a b where s: "srtp_setup tag_lib sample_keys srtp_client srtp_transport_new = (a, None)"
    "srtp_setup tag_lib sample_keys (other_role srtp_client) srtp_transport_new = (b, None)" using sample_setup by metis
  let ?s = "rtp_stream_default\<lparr>sm_ssrc := 7, sm_seq := 0xFFFF\<rparr>"
  have c: "finite (st_active (srtp_transport_new :: unit srtp_transport))"
    "card (insert (sm_ssrc ?s) (st_active (srtp_transport_new :: unit srtp_transport))) \<le> MAX_ACTIVE_SSRCS"
    by (simp_all add: srtp_transport_new_def MAX_ACTIVE_SSRCS_def)
  have m: "0 < length (cn_transceivers (mp_conn forwarding_sample))" "sender_streams 0 forwarding_sample = ?s # []"
    by (simp_all add: forwarding_sample_def media_path_new_def connection_new_def sender_streams_def)
  have p: "list_all sendable [rtp_packet_default\<lparr>rp_payload := [1, 2]\<rparr>]"
    by (simp add: sendable_def rtp_wf_def rtp_packet_default_def rtp_serialized_size_def SEND_BUFFER_def Let_def)
  from application_packets_arrive [OF big_endian_network_lib tag_lib_ok s c m p] s show ?thesis by auto
qed

end
