(* ===== verification/SecureFrame.thy ===== *)
theory SecureFrame
  imports FramePath PeerConnection
begin

text \<open>
  The way of a frame over a protected connection: theory FramePath from the frame to the datagrams and
  from the datagrams to the track, theory Srtp between them.
\<close>

lemma carries_fits:
  assumes "big_endian B" "carries B pt s ts pls ps" "\<not> (72 \<le> pt \<and> pt \<le> 76)"
  shows "list_all (srtp_fits B (insert (sm_ssrc s) W)) (map (\<lambda>p. (False, rtp_body_bytes B p)) ps)"
proof -
  have "srtp_fits B (insert (sm_ssrc s) W) (False, rtp_body_bytes B p)" if "p \<in> set ps" for p
  proof -
    have p: "rtp_parse B (rtp_body_bytes B p) = Some (Some p)" "rp_padding p = 0" "rp_payload_type p = pt" "rp_ssrc p = sm_ssrc s"
      using assms(2) that by (auto simp: carries_def list_all_iff)
    from rtp_fits [OF p(1) rtp_parse_inv(1) [OF assms(1) p(1)] p(2)] show ?thesis
      using assms(3) p(3,4) by (auto simp: srtp_fits_def)
  qed
  then show ?thesis by (simp add: list_all_iff)
qed

lemma good_datagrams:
  "list_all2 srtp_good (map (\<lambda>d. (False, d)) ds) rs \<Longrightarrow> list_all (\<lambda>(e, _). e \<noteq> []) rs \<Longrightarrow> map snd rs = map Some ds"
  by (induction "map (\<lambda>d. (False, d)) ds" rs arbitrary: ds rule: list_all2_induct) (auto simp: srtp_good_def)

text \<open>
  C7: A frame reaches the track of the peer over a protected connection. The two sides are set up with
  the keys of one handshake in opposite roles, and the transport of the peer has room for the source.
  Sending a frame is defined and gives datagrams, which cross the two transports. When the cipher
  protects all of them, the peer takes them up exactly as they were, and its track gives out one frame
  with the bytes, the time stamp, the source and the first number of the frame that was sent, at once
  for Opus, for video at the first poll 250 ms after the one that saw it first.
\<close>
theorem secure_frame_reaches_track:
  assumes "big_endian B" "nceq_ok L" "codec_matches L pk codec" "frame_fits pk d"
    and "si < length (sn_streams (tr_sender t))" "stream_ok t (stream_of si t)" "sn_packetizer (tr_sender t) = Some pk"
    and "length (fst (packetizer_pack d pk)) \<le> 0x8000" "\<not> (72 \<le> rm_payload_type (tr_codec t) \<and> rm_payload_type (tr_codec t) \<le> 76)"
    and "srtp_lib_ok B S J" "srtp_setup S keys role a0 = (a, None)" "srtp_setup S keys (other_role role) b0 = (b, None)"
    and "finite (st_active b0)" "card (insert (sm_ssrc (stream_of si t)) (st_active b0)) \<le> MAX_ACTIVE_SSRCS"
    and "routes_to t (sm_ssrc (stream_of si t)) (mp_conn r) i"
    and "cn_rtx_ssrc_to_ssrc (mp_conn r) (sm_ssrc (stream_of si t)) = None"
    and "i < length (cn_transceivers (mp_conn r))" "track_of i (mp_conn r) = Some (media_track_impl_new L uuid codec)"
    and "a2 + 250000000 \<le> b2" "map_of (cn_ssrc_set (mp_conn r)) (sm_ssrc (stream_of si t)) = None"
  shows "\<exists>t' m' sent rs a' b'. send_frame B L si d ts (\<lambda>_. True) us now (t, m) = Some (t', m')
    \<and> mp_sent_rtp m' = mp_sent_rtp m @ sent
    \<and> transfer (srtp_send S cap) (srtp_recv B S) (map (\<lambda>d. (False, d)) sent) a b = Some (rs, a', b')
    \<and> (list_all (\<lambda>(e, _). e \<noteq> []) rs \<longrightarrow> map snd rs = map Some sent
       \<and> (\<exists>r' tk f. receive_all B L clk (map (the \<circ> snd) rs) r = Some r' \<and> track_of i (mp_conn r') = Some tk
          \<and> (if pk = OpusPacketizer then fst (track_poll L a1 a2 tk) = Some f
             else fst (track_poll L a1 a2 tk) = None \<and> fst (track_poll L b1 b2 (snd (track_poll L a1 a2 tk))) = Some f)
          \<and> mf_data f = d \<and> mf_timestamp f = ts \<and> mf_info f = Some (frame_info (stream_of si t) ts codec)))"
proof -
  let ?s = "stream_of si t"
  have "d \<noteq> []" using assms(4) by (simp add: frame_fits_def)
  from send_frame_ok [OF assms(1,5-7) this, of L ts us now m] obtain t' m' ps where
    ps: "send_frame B L si d ts (\<lambda>_. True) us now (t, m) = Some (t', m')"
      "mp_sent_rtp m' = mp_sent_rtp m @ map (rtp_body_bytes B) ps"
      "carries B (rm_payload_type (tr_codec t)) ?s ts (fst (packetizer_pack d pk)) ps" "list_all (labelled t) ps" by blast
  let ?sent = "map (rtp_body_bytes B) ps"
  have "srtp_joined B S J (insert (sm_ssrc ?s) (st_active b0)) a b"
    by (rule setup_joined [OF assms(11,12,10)]) (use assms(13,14) in auto)
  moreover have "map (\<lambda>p. (False, rtp_body_bytes B p)) ps = map (\<lambda>d. (False, d)) ?sent" by simp
  ultimately obtain rs a' b' where
    tr: "transfer (srtp_send S cap) (srtp_recv B S) (map (\<lambda>d. (False, d)) ?sent) a b = Some (rs, a', b')"
      "list_all2 srtp_good (map (\<lambda>d. (False, d)) ?sent) rs"
    using srtp.all_arrive carries_fits [OF assms(1) ps(3) assms(9), of "st_active b0"] by metis
  have route: "\<forall>p \<in> set ps. find_receiver p (mp_conn r) = Some i"
    using ps(3,4) assms(15) by (auto simp: carries_def list_all_iff intro: routes_to_receiver)
  note f = frame_reaches_track_aux [OF assms(1-4) ps(3) assms(8) refl refl route assms(16-19), of clk a1 b1] assms(20)
  have "map (the \<circ> snd) rs = ?sent" if "map snd rs = map Some ?sent"
    unfolding map_map [symmetric] that by (simp add: comp_def)
  then show ?thesis
    using ps(1,2) tr(1) good_datagrams [OF tr(2)] f
    by (intro exI [of _ t'] exI [of _ m'] exI [of _ ?sent] exI [of _ rs] exI [of _ a'] exI [of _ b']) simp
qed


section \<open>Witness\<close>

lemma tag_transfer:
  "transfer (srtp_send tag_lib cap) (srtp_recv B tag_lib) (map (\<lambda>d. (False, d)) ds) a b = Some (rs, a', b')
    \<Longrightarrow> list_all (\<lambda>d. 12 \<le> length d \<and> length d < cap) ds \<Longrightarrow> list_all (\<lambda>(e, _). e \<noteq> []) rs"
proof (induction ds arbitrary: a b rs)
  case (Cons d ds)
  have e: "e \<noteq> []" if "srtp_send tag_lib cap (False, d) a = Some (e, a1)" for e a1
    using that Cons.prems(2) by (auto simp: srtp_send_def protect_rtp_def tag_lib_def tag_protect_def split: option.splits)
  from Cons.prems(1) obtain e a1 p b1 rs' where s: "srtp_send tag_lib cap (False, d) a = Some (e, a1)"
    "transfer (srtp_send tag_lib cap) (srtp_recv B tag_lib) (map (\<lambda>d. (False, d)) ds) a1 b1 = Some (rs', a', b')" "rs = (e, p) # rs'"
    by (auto simp: bind_eq_Some_conv)
  from Cons.IH [OF s(2)] Cons.prems(2) e [OF s(1)] show ?case by (simp add: s(3))
qed simp

theorem secure_frame_reaches_track_witness:
  "\<exists>a b cap ds rs a' b' r' tk f. srtp_setup tag_lib sample_keys srtp_client srtp_transport_new = (a, None)
     \<and> srtp_setup tag_lib sample_keys srtp_server srtp_transport_new = (b, None)
     \<and> transfer (srtp_send tag_lib cap) (srtp_recv network_lib tag_lib) (map (\<lambda>d. (False, d)) ds) a b = Some (rs, a', b')
     \<and> map snd rs = map Some ds
     \<and> receive_all network_lib sdp_sample_lib (\<lambda>_. 0) ds (media_path_new sample_peer (transport_cc_new 0 0)) = Some r'
     \<and> track_of 0 (mp_conn r') = Some tk \<and> fst (track_poll sdp_sample_lib 0 0 tk) = Some f \<and> mf_data f = [1, 2]"
proof -
  let ?r = "media_path_new sample_peer (transport_cc_new 0 0)"
  have f: "frame_fits OpusPacketizer [1, 2]" by (simp add: frame_fits_def)
  have s: "0 < length (sn_streams (tr_sender sample_sender))" "stream_ok sample_sender (stream_of 0 sample_sender)"
    "sn_packetizer (tr_sender sample_sender) = Some OpusPacketizer" "[1, 2 :: u8] \<noteq> []"
    by (simp_all add: sample_sender_simps stream_ok_def)
  have m: "codec_matches sdp_sample_lib OpusPacketizer opus_codec"
    using sdp_sample_lib_ok(1) by (simp add: codec_matches_def opus_codec_def nceq_ok_def)
  have len: "length (fst (packetizer_pack [1, 2] OpusPacketizer)) \<le> 0x8000" by (simp add: packetizer_pack_def opus_pack_def)
  have pt: "\<not> (72 \<le> rm_payload_type (tr_codec sample_sender) \<and> rm_payload_type (tr_codec sample_sender) \<le> 76)"
    by (simp add: sample_sender_simps)
  have conn: "mp_conn ?r = sample_peer" by (simp add: media_path_new_def)
  have r: "routes_to sample_sender (sm_ssrc (stream_of 0 sample_sender)) (mp_conn ?r) 0"
    "cn_rtx_ssrc_to_ssrc (mp_conn ?r) (sm_ssrc (stream_of 0 sample_sender)) = None"
    "0 < length (cn_transceivers (mp_conn ?r))" "track_of 0 (mp_conn ?r) = Some (media_track_impl_new sdp_sample_lib ''t'' opus_codec)"
    "map_of (cn_ssrc_set (mp_conn ?r)) (sm_ssrc (stream_of 0 sample_sender)) = None"
    unfolding conn by (simp_all add: sample_peer_def sample_sender_simps routes_to_def track_of_def connection_new_def
        ext_id_def extmap_def ext_usable_def)
  obtain a b where k: "srtp_setup tag_lib sample_keys srtp_client srtp_transport_new = (a, None)"
    "srtp_setup tag_lib sample_keys (other_role srtp_client) srtp_transport_new = (b, None)" using sample_setup by metis
  have c: "finite (st_active (srtp_transport_new :: unit srtp_transport))"
    "card (insert (sm_ssrc (stream_of 0 sample_sender)) (st_active (srtp_transport_new :: unit srtp_transport))) \<le> MAX_ACTIVE_SSRCS"
    by (simp_all add: srtp_transport_new_def MAX_ACTIVE_SSRCS_def)
  from send_frame_ok [OF big_endian_network_lib s, of sdp_sample_lib 90 "\<lambda>_. 0" "\<lambda>_. 0" sample_path] obtain t' m' ps where
    snd: "send_frame network_lib sdp_sample_lib 0 [1, 2] 90 (\<lambda>_. True) (\<lambda>_. 0) (\<lambda>_. 0) (sample_sender, sample_path) = Some (t', m')"
    "mp_sent_rtp m' = mp_sent_rtp sample_path @ map (rtp_body_bytes network_lib) ps"
    "list_all (\<lambda>p. rtp_parse network_lib (rtp_body_bytes network_lib p) = Some (Some p)) ps"
    by (auto simp: carries_def list_all_iff)
  define ds where "ds = map (rtp_body_bytes network_lib) ps"
  define cap where "cap = Suc (sum_list (map length ds))"
  have ds: "list_all (\<lambda>d. 12 \<le> length d \<and> length d < cap) ds"
  proof -
    have "12 \<le> length (rtp_body_bytes network_lib p)" if "p \<in> set ps" for p
      using rtp_parse_first(1) snd(3) that by (auto simp: list_all_iff)
    moreover have "length d \<le> sum_list (map length ds)" if "d \<in> set ds" for d using that by (simp add: member_le_sum_list)
    ultimately show ?thesis by (auto simp: list_all_iff ds_def cap_def less_Suc_eq_le)
  qed
  from secure_frame_reaches_track [OF big_endian_network_lib sdp_sample_lib_ok(1) m f s(1-3) len pt tag_lib_ok k c r(1-4),
      of 0 250000000 90 "\<lambda>_. 0" "\<lambda>_. 0" sample_path cap "\<lambda>_. 0" 0 0] r(5) snd(1,2)
  obtain rs a' b' where x: "transfer (srtp_send tag_lib cap) (srtp_recv network_lib tag_lib) (map (\<lambda>d. (False, d)) ds) a b = Some (rs, a', b')"
    and y: "list_all (\<lambda>(e, _). e \<noteq> []) rs \<longrightarrow> map snd rs = map Some ds
       \<and> (\<exists>r' tk f. receive_all network_lib sdp_sample_lib (\<lambda>_. 0) (map (the \<circ> snd) rs) ?r = Some r' \<and> track_of 0 (mp_conn r') = Some tk
          \<and> fst (track_poll sdp_sample_lib 0 0 tk) = Some f \<and> mf_data f = [1, 2])"
    by (auto simp: ds_def)
  from y tag_transfer [OF x ds] obtain r' tk f where
    "map snd rs = map Some ds" "receive_all network_lib sdp_sample_lib (\<lambda>_. 0) (map (the \<circ> snd) rs) ?r = Some r'"
    "track_of 0 (mp_conn r') = Some tk" "fst (track_poll sdp_sample_lib 0 0 tk) = Some f" "mf_data f = [1, 2]" by blast
  note e = this
  have d: "map (the \<circ> snd) rs = ds" unfolding map_map [symmetric] e(1) by (simp add: comp_def)
  show ?thesis
    by (rule exI [of _ a], rule exI [of _ b], rule exI [of _ cap], rule exI [of _ ds], rule exI [of _ rs], rule exI [of _ a'],
        rule exI [of _ b'], rule exI [of _ r'], rule exI [of _ tk], rule exI [of _ f])
       (intro conjI k(1) k(2) [unfolded other_role.simps] x e(1) e(2) [unfolded d] e(3-5))
qed

end
