(* ===== verification/H264Codec.thy ===== *)
theory H264Codec
  imports Packetizers
begin

text \<open>
  The byte work of \<open>ffmpeg/codecs/h264.cpp\<close>: the cutting of an Annex B buffer into units, the removal of
  the emulation prevention bytes, the fragmentation of a unit and, in the decoder, its reassembly.
\<close>

abbreviation PACKET_MAX :: nat where "PACKET_MAX \<equiv> 1300"

section \<open>Emulation prevention\<close>

text \<open>
  \<open>remove_emulation_prevention\<close> works in place: a position that is read and one that is written move over
  the array. The result is the array and the new length.
\<close>

definition emulation_at :: "bytes \<Rightarrow> nat \<Rightarrow> bool" where
  "emulation_at data i \<longleftrightarrow> i + 2 < length data \<and> data ! i = 0 \<and> data ! (i + 1) = 0 \<and> data ! (i + 2) = 3
     \<and> (i + 3 = length data \<or> data ! (i + 3) \<le> 3)"

function remove_loop :: "bytes \<Rightarrow> nat \<Rightarrow> nat \<Rightarrow> bytes \<times> nat" where
  "remove_loop data rd wr =
     (if rd < length data
      then if emulation_at data rd
           then remove_loop (data[wr := 0, wr + 1 := 0]) (rd + 3) (wr + 2)
           else remove_loop (data[wr := data ! rd]) (rd + 1) (wr + 1)
      else (data, wr))"
  by pat_completeness auto
termination
  by (relation "measure (\<lambda>(d, r, _). length d - r)") auto

declare remove_loop.simps [simp del]

definition remove_emulation_prevention :: "bytes \<Rightarrow> bytes \<times> nat" where
  "remove_emulation_prevention data = (if length data < 3 then (data, length data) else remove_loop data 0 0)"

section \<open>Units\<close>

definition nalu_start :: "bytes \<Rightarrow> nat option" where
  "nalu_start d =
     (if length d > 2 \<and> d ! 0 = 0 \<and> d ! 1 = 0 \<and> d ! 2 = 1 then Some 3
      else if length d > 3 \<and> d ! 0 = 0 \<and> d ! 1 = 0 \<and> d ! 2 = 0 \<and> d ! 3 = 1 then Some 4 else None)"

fun nalu_end :: "bytes \<Rightarrow> nat" where
  "nalu_end [] = 0"
| "nalu_end (a # d) = (if nalu_start (a # d) \<noteq> None then 0 else Suc (nalu_end d))"

lemma nalu_start_pos: "nalu_start d = Some n \<Longrightarrow> 3 \<le> n \<and> n \<le> length d"
  by (auto simp: nalu_start_def split: if_splits)

function annexb_to_nalus :: "bytes \<Rightarrow> bytes list" where
  "annexb_to_nalus data =
     (let d = dropWhile (\<lambda>x. x = 0) data
      in if d = [] then []
         else (case nalu_start d of None \<Rightarrow> []
               | Some n \<Rightarrow> (let r = drop n d; e = nalu_end r
                  in (if e > 0 then [take e r] else []) @ annexb_to_nalus (drop e r))))"
  by pat_completeness auto
termination
proof (relation "measure length")
  fix data d n r e
  assume "d = dropWhile (\<lambda>x. x = 0) data" "d \<noteq> []" "nalu_start d = Some n" "r = drop n d" "e = nalu_end r"
  moreover have "length (dropWhile (\<lambda>x. x = 0) data) \<le> length data" by (rule length_dropWhile_le)
  ultimately show "(drop e r, data) \<in> measure length" using nalu_start_pos [of d n] by auto
qed simp

declare annexb_to_nalus.simps [simp del]

section \<open>The packetizer of the encoder\<close>

definition fu_a_indicator :: "u8 \<Rightarrow> u8" where
  "fu_a_indicator nal0 = (nal0 AND 0xE0) OR 28"

definition fu_a_header :: "u8 \<Rightarrow> bool \<Rightarrow> bool \<Rightarrow> u8" where
  "fu_a_header nal0 start stop = (if start then 0x80 else 0) OR (if stop then 0x40 else 0) OR ((nal0 AND 0x1F) AND 0x1F)"

function fu_a_loop :: "bytes \<Rightarrow> nat \<Rightarrow> bytes list" where
  "fu_a_loop nal off =
     (if off < length nal
      then (let chunk = min (length nal - off) (PACKET_MAX - 2);
                start = (off = 1); stop = (off + chunk \<ge> length nal)
            in (fu_a_indicator (nal ! 0) # fu_a_header (nal ! 0) start stop # take chunk (drop off nal)) # fu_a_loop nal (off + chunk))
      else [])"
  by pat_completeness auto
termination
  by (relation "measure (\<lambda>(n, o'). length n - o')") auto

declare fu_a_loop.simps [simp del]

definition nal_payloads :: "bytes \<Rightarrow> bytes list" where
  "nal_payloads nal = (if length nal \<le> PACKET_MAX then [nal] else fu_a_loop nal 1)"

definition h264_nalu_payloads :: "bytes \<Rightarrow> bytes list" where
  "h264_nalu_payloads nal =
     (if nal = [] then []
      else (let (d, n) = remove_emulation_prevention nal; nal = take n d
            in if nal = [] then [] else nal_payloads nal))"

definition h264_packetize :: "bytes \<Rightarrow> bytes list" where
  "h264_packetize buf = concat (map h264_nalu_payloads (annexb_to_nalus buf))"

section \<open>The unit that the decoder takes from a payload\<close>

definition h264_decode_unit :: "bytes \<Rightarrow> bytes \<Rightarrow> bytes option \<times> bytes" where
  "h264_decode_unit payload fu_buffer =
     (if payload = [] then (None, fu_buffer)
      else if payload ! 0 AND 0x1F = 28
      then (if length payload < 2 then (None, fu_buffer)
            else (let header = payload ! 1;
                      fu_buffer = (if header AND 0x80 \<noteq> 0 then [(payload ! 0 AND 0xE0) OR (header AND 0x1F)] else fu_buffer);
                      fu_buffer = fu_buffer @ drop 2 payload
                  in if header AND 0x40 = 0 then (None, fu_buffer) else (Some fu_buffer, [])))
      else (Some payload, fu_buffer))"

fun h264_decode_units :: "bytes list \<Rightarrow> bytes \<Rightarrow> bytes list \<times> bytes" where
  "h264_decode_units [] b = ([], b)"
| "h264_decode_units (p # ps) b =
     (let (u, b) = h264_decode_unit p b; (us, b) = h264_decode_units ps b
      in ((case u of None \<Rightarrow> us | Some u \<Rightarrow> u # us), b))"

section \<open>The encoder gives no payloads\<close>

text \<open>
  Zeros are skipped before a start code is looked for, and a start code begins with zeros.
\<close>

lemma nalu_start_zero: "nalu_start d = Some n \<Longrightarrow> hd d = 0 \<and> d \<noteq> []"
  by (cases d) (auto simp: nalu_start_def split: if_splits)

lemma annexb_to_nalus_none: "annexb_to_nalus data = []"
proof -
  have "nalu_start (dropWhile (\<lambda>x. x = 0) data) = None" if "dropWhile (\<lambda>x. x = 0) data \<noteq> []"
    using that hd_dropWhile [OF that] nalu_start_zero by (cases "nalu_start (dropWhile (\<lambda>x. x = 0) data)") auto
  then show ?thesis by (subst annexb_to_nalus.simps) (simp add: Let_def)
qed

lemma h264_packetize_none: "h264_packetize buf = []"
  by (simp add: h264_packetize_def annexb_to_nalus_none)

section \<open>Removal as a function of lists\<close>

fun strip_emulation :: "bytes \<Rightarrow> bytes" where
  "strip_emulation (a # b # c # r) =
     (if a = 0 \<and> b = 0 \<and> c = 3 \<and> (r = [] \<or> hd r \<le> 3) then 0 # 0 # strip_emulation r else a # strip_emulation (b # c # r))"
| "strip_emulation d = d"

lemma emulation_at_drop:
  assumes "i < length d"
  shows "strip_emulation (drop i d)
    = (if emulation_at d i then 0 # 0 # strip_emulation (drop (i + 3) d) else d ! i # strip_emulation (drop (i + 1) d))"
proof -
  consider "i + 2 < length d" | "i + 2 \<ge> length d" by linarith
  then show ?thesis
  proof cases
    case 1
    then have d: "drop i d = d ! i # d ! (i + 1) # d ! (i + 2) # drop (i + 3) d"
      by (simp add: Cons_nth_drop_Suc [symmetric] numeral_3_eq_3)
    have "(drop (i + 3) d = [] \<or> hd (drop (i + 3) d) \<le> 3) \<longleftrightarrow> (i + 3 = length d \<or> d ! (i + 3) \<le> 3)"
      using 1 by (cases "i + 3 < length d") (auto simp: hd_drop_conv_nth)
    moreover have "drop (i + 1) d = d ! (i + 1) # d ! (i + 2) # drop (i + 3) d"
      using 1 by (simp add: Cons_nth_drop_Suc [symmetric] numeral_3_eq_3)
    ultimately show ?thesis using 1 unfolding d by (auto simp: emulation_at_def)
  next
    case 2
    then have "length (drop i d) \<le> 2" by simp
    moreover have "strip_emulation x = x" if "length x \<le> 2" for x
      using that by (cases x rule: strip_emulation.cases) auto
    ultimately have s: "strip_emulation (drop i d) = drop i d" "strip_emulation (drop (i + 1) d) = drop (i + 1) d" by simp_all
    show ?thesis unfolding s using 2 assms Cons_nth_drop_Suc [of i d] by (simp add: emulation_at_def)
  qed
qed

lemma remove_loop_strip:
  assumes "wr \<le> rd" "rd \<le> length data"
  shows "(case remove_loop data rd wr of (d, n) \<Rightarrow>
     length d = length data \<and> n \<le> length data \<and> take n d = take wr data @ strip_emulation (drop rd data))"
  using assms
proof (induction data rd wr rule: remove_loop.induct)
  case (1 data rd wr)
  show ?case
  proof (cases "rd < length data")
    case False
    then show ?thesis using 1(3,4) by (subst remove_loop.simps) simp
  next
    case r: True
    show ?thesis
    proof (cases "emulation_at data rd")
      case True
      then have l: "rd + 3 \<le> length data" by (simp add: emulation_at_def)
      let ?d = "data[wr := 0, wr + 1 := 0]"
      have t: "take (Suc (Suc wr)) (data[wr := 0, Suc wr := 0]) = take wr data @ [0, 0]" "drop (rd + 3) ?d = drop (rd + 3) data"
        using l 1(3) by (auto simp: list_eq_iff_nth_eq nth_append nth_list_update less_Suc_eq)
      show ?thesis
        using 1(1) [OF r True] 1(3) l True r
        by (subst remove_loop.simps) (simp add: t emulation_at_drop [OF r] split: prod.splits)
    next
      case False
      let ?d = "data[wr := data ! rd]"
      have t: "take (Suc wr) ?d = take wr data @ [data ! rd]" "drop (rd + 1) ?d = drop (rd + 1) data"
        using r 1(3) by (simp_all add: take_Suc_conv_app_nth)
      show ?thesis
        using 1(2) [OF r False] 1(3) r False
        by (subst remove_loop.simps) (simp add: t emulation_at_drop [OF r] split: prod.splits)
    qed
  qed
qed

lemma remove_emulation_prevention_strip:
  "(case remove_emulation_prevention data of (d, n) \<Rightarrow> length d = length data \<and> n \<le> length data \<and> take n d = strip_emulation data)"
proof (cases "length data < 3")
  case True
  then have "strip_emulation data = data" by (cases data rule: strip_emulation.cases) auto
  then show ?thesis using True by (simp add: remove_emulation_prevention_def)
next
  case False
  then show ?thesis using remove_loop_strip [of 0 0 data] by (simp add: remove_emulation_prevention_def)
qed


text \<open>How an encoder protects its units: a 3 goes between two zeros and a byte of at most 3.\<close>

fun insert_emulation :: "nat \<Rightarrow> bytes \<Rightarrow> bytes" where
  "insert_emulation z [] = []"
| "insert_emulation z (b # d) =
     (if z = 2 \<and> b \<le> 3 then 3 # b # insert_emulation (if b = 0 then 1 else 0) d
      else b # insert_emulation (if b = 0 then z + 1 else 0) d)"

lemma strip_Cons: "a \<noteq> 0 \<or> r = [] \<or> hd r \<noteq> 0 \<Longrightarrow> strip_emulation (a # r) = a # strip_emulation r"
  by (cases r; cases "tl r") auto

lemma strip_insert: "z \<le> 2 \<Longrightarrow> strip_emulation (replicate z 0 @ insert_emulation z x) = replicate z 0 @ x"
proof (induction x arbitrary: z)
  case Nil
  then consider "z = 0" | "z = 1" | "z = 2" by linarith
  then show ?case by cases (simp_all add: numeral_2_eq_2)
next
  case (Cons b d)
  have IH: "strip_emulation (insert_emulation 0 d) = d" "strip_emulation (0 # insert_emulation 1 d) = 0 # d"
    "strip_emulation (0 # 0 # insert_emulation 2 d) = 0 # 0 # d"
    using Cons.IH [of 0] Cons.IH [of 1] Cons.IH [of 2] by (simp_all add: numeral_2_eq_2)
  have n: "b \<noteq> 0 \<Longrightarrow> strip_emulation (b # insert_emulation 0 d) = b # d" using strip_Cons [of b "insert_emulation 0 d"] IH(1) by metis
  have n0: "b \<noteq> 0 \<Longrightarrow> strip_emulation (0 # b # insert_emulation 0 d) = 0 # b # d" using strip_Cons [of 0 "b # insert_emulation 0 d"] n by simp
  have n00: "b \<noteq> 0 \<Longrightarrow> b \<noteq> 3 \<Longrightarrow> strip_emulation (0 # 0 # b # insert_emulation 0 d) = 0 # 0 # b # d" by (simp add: n0)
  have e: "b \<le> 3 \<Longrightarrow> strip_emulation (0 # 0 # 3 # b # r) = 0 # 0 # strip_emulation (b # r)" for r by simp
  from Cons.prems consider "z = 0" | "z = 1" | "z = 2" "b \<le> 3" | "z = 2" "\<not> b \<le> 3" by linarith
  then show ?case
  proof cases
    case 1
    then show ?thesis using IH(2) n by simp
  next
    case 2
    have "insert_emulation 1 (b # d) = b # insert_emulation (if b = 0 then 2 else 0) d" by (simp add: numeral_2_eq_2)
    then show ?thesis using 2 IH(3) n0 by (cases "b = 0") (simp_all add: numeral_2_eq_2 [symmetric])
  next
    case 3
    have i: "insert_emulation 2 (b # d) = 3 # b # insert_emulation (if b = 0 then 1 else 0) d" using 3(2) by simp
    have r: "replicate 2 0 @ x = 0 # 0 # x" for x :: bytes by (simp add: numeral_2_eq_2)
    show ?thesis using IH(2) n unfolding 3(1) i r e [OF 3(2)] by (cases "b = 0") simp_all
  next
    case 4
    have i: "insert_emulation 2 (b # d) = b # insert_emulation 0 d" using 4(2) by auto
    have r: "replicate 2 0 @ x = 0 # 0 # x" for x :: bytes by (simp add: numeral_2_eq_2)
    show ?thesis using 4(2) unfolding 4(1) i r by (intro n00) auto
  qed
qed

section \<open>Fragments come back\<close>

lemma fu_a_bits:
  "fu_a_indicator h AND 0x1F = 28" "fu_a_header h f l AND 0x80 = 0 \<longleftrightarrow> \<not> f" "fu_a_header h f l AND 0x40 = 0 \<longleftrightarrow> \<not> l"
  "(fu_a_indicator h AND 0xE0) OR (fu_a_header h f l AND 0x1F) = h"
proof -
  show "fu_a_indicator h AND 0x1F = 28" unfolding fu_a_indicator_def by (rule u8_eqI) (simp_all add: bit_simps)
  have 1: "bit (fu_a_header h f l AND 0x80) 7 \<longleftrightarrow> f" "bit (fu_a_header h f l AND 0x40) 6 \<longleftrightarrow> l"
    by (simp_all add: fu_a_header_def bit_simps)
  show "fu_a_header h f l AND 0x80 = 0 \<longleftrightarrow> \<not> f"
    using 1(1) by (cases f) (fastforce, auto intro!: u8_eqI simp: bit_simps fu_a_header_def)
  show "fu_a_header h f l AND 0x40 = 0 \<longleftrightarrow> \<not> l"
    using 1(2) by (cases l) (fastforce, auto intro!: u8_eqI simp: bit_simps fu_a_header_def)
  show "(fu_a_indicator h AND 0xE0) OR (fu_a_header h f l AND 0x1F) = h"
    unfolding fu_a_indicator_def fu_a_header_def by (intro u8_eqI) (simp_all add: bit_simps)
qed

lemma h264_decode_fu:
  "h264_decode_unit (fu_a_indicator h # fu_a_header h f l # d) b
    = (let b = (if f then [h] else b) @ d in if l then (Some b, []) else (None, b))"
  by (simp add: h264_decode_unit_def fu_a_bits Let_def)

lemma fu_a_decode:
  assumes "off < length nal" "off \<noteq> 0" "off = 1 \<or> b = take off nal"
  shows "h264_decode_units (fu_a_loop nal off) b = ([nal], [])"
  using assms
proof (induction nal off arbitrary: b rule: fu_a_loop.induct)
  case (1 nal off)
  let ?n = "min (length nal - off) (PACKET_MAX - 2)"
  have h: "take off nal = [nal ! 0]" if "off = 1" using 1(2) that by (cases nal) auto
  have b: "(if off = 1 then [nal ! 0] else b) @ take ?n (drop off nal) = take (off + ?n) nal"
    using 1(4) h by (auto simp: take_add simp del: One_nat_def)
  have r: "h264_decode_units (fu_a_loop nal off) b =
      h264_decode_units ((fu_a_indicator (nal ! 0) # fu_a_header (nal ! 0) (off = 1) (off + ?n \<ge> length nal) # take ?n (drop off nal))
        # fu_a_loop nal (off + ?n)) b"
    using 1(2) by (subst fu_a_loop.simps) (simp add: Let_def)
  show ?case
  proof (cases "off + ?n \<ge> length nal")
    case True
    then have "fu_a_loop nal (off + ?n) = []" by (subst fu_a_loop.simps) simp
    then show ?thesis using 1(2) True b unfolding r by (simp add: h264_decode_fu Let_def del: One_nat_def)
  next
    case False
    then have "h264_decode_units (fu_a_loop nal (off + ?n)) (take (off + ?n) nal) = ([nal], [])"
      using 1(2,3) by (intro 1(1) [OF _ refl refl]) auto
    moreover have "\<not> length nal \<le> off + 1298" using False by linarith
    ultimately show ?thesis using False b unfolding r by (simp add: h264_decode_fu Let_def del: One_nat_def)
  qed
qed

lemma fu_a_size: "p \<in> set (fu_a_loop nal off) \<Longrightarrow> 2 < length p \<and> length p \<le> PACKET_MAX"
proof (induction nal off rule: fu_a_loop.induct)
  case (1 nal off)
  then show ?case by (cases "off < length nal"; subst (asm) (2) fu_a_loop.simps) (auto simp: Let_def)
qed


section \<open>Properties\<close>

text \<open>
  C38: The encoder of H.264 gives no payloads. Its cutter skips the zeros in front of a unit before it looks
  for the start code that begins with them, finds none and stops: whatever the buffer, there are no
  packets. The packetizer of the library finds in the same buffer all units it was made of.
\<close>
theorem libav_h264_gives_no_payload:
  "h264_packetize buf = []
   \<and> (list_all h264_unit nals \<longrightarrow> h264_packetize (annex_b nals) = [] \<and> h264_nals (annex_b nals) = nals)"
  by (simp add: h264_packetize_none h264_nals_annex_b)

theorem libav_h264_gives_no_payload_witness:
  "h264_packetize (annex_b [[0x67, 5], [0x65, 9]]) = [] \<and> h264_nals (annex_b [[0x67, 5], [0x65, 9]]) = [[0x67, 5], [0x65, 9]]"
proof -
  have "list_all h264_unit [[0x67, 5], [0x65, 9]]" by (simp add: h264_unit_def)
  then show ?thesis using libav_h264_gives_no_payload [of "[]" "[[0x67, 5], [0x65, 9]]"] by blast
qed

text \<open>
  C39: The removal in place is the function on lists that deletes the 3 of every 0, 0, 3 in front of a byte
  of at most 3 or at the end: what is written does not disturb what is still to be read, and the array
  keeps its length. It undoes the protection of any unit.
\<close>
theorem remove_emulation_in_place:
  "(case remove_emulation_prevention data of (d, n) \<Rightarrow> length d = length data \<and> n \<le> length data \<and> take n d = strip_emulation data)
   \<and> (case remove_emulation_prevention (insert_emulation 0 nal) of (d, n) \<Rightarrow> take n d = nal)"
proof
  have "strip_emulation (insert_emulation 0 nal) = nal" using strip_insert [of 0 nal] by simp
  then show "case remove_emulation_prevention (insert_emulation 0 nal) of (d, n) \<Rightarrow> take n d = nal"
    using remove_emulation_prevention_strip [of "insert_emulation 0 nal"] by (simp only: case_prod_beta)
qed (rule remove_emulation_prevention_strip)

text \<open>
  The decoder restores a unit from its payloads: one with more than 1300 bytes from its fragments, whatever
  an earlier unit has left behind, and a shorter one from its one payload.
\<close>

lemma nal_payloads_roundtrip:
  assumes "nal \<noteq> []" "PACKET_MAX < length nal \<or> nal ! 0 AND 0x1F \<noteq> 28"
  shows "h264_decode_units (nal_payloads nal) b = ([nal], if length nal \<le> PACKET_MAX then b else [])
    \<and> (\<forall>p \<in> set (nal_payloads nal). p \<noteq> [] \<and> length p \<le> PACKET_MAX)"
proof (cases "length nal \<le> PACKET_MAX")
  case True
  then show ?thesis using assms by (simp add: nal_payloads_def h264_decode_unit_def)
next
  case False
  then have "h264_decode_units (fu_a_loop nal 1) b = ([nal], [])" by (intro fu_a_decode) auto
  moreover have "\<forall>p \<in> set (fu_a_loop nal 1). p \<noteq> [] \<and> length p \<le> PACKET_MAX" using fu_a_size by fastforce
  ultimately show ?thesis using False by (simp add: nal_payloads_def)
qed

text \<open>
  Nothing tells the decoder that fragments are missing: the end of one unit is taken as the end of another.
\<close>

lemma lost_fragments_glue:
  "h264_decode_units [[0x7C, 0x85, 1], [0x7C, 0x41, 2]] [] = ([[0x65, 1, 2]], [])"
  by (simp add: h264_decode_unit_def)

end
