(* ===== verification/LibavCodecs.thy ===== *)
theory LibavCodecs
  imports H264Codec "HOL-Library.Signed_Division" "HOL-Library.Monad_Syntax"
begin

text \<open>
  The encoders and decoders of \<open>ffmpeg/codecs\<close> over libav. The library is a parameter: an encoder context
  is a record of the settings that the code writes and an opaque rest \<open>'c\<close>, and the functions of the
  library are the fields of \<open>av_lib\<close>. All pictures are YUV 4:2:0, so the pixel format is not a field.
  Exhausted memory is left out.
\<close>

section \<open>The library\<close>

type_synonym av_rational = "int \<times> int"

record 'c av_context =
  cx_width :: int
  cx_height :: int
  cx_bit_rate :: int
  cx_time_base :: av_rational
  cx_framerate :: av_rational
  cx_gop_size :: int
  cx_profile :: int
  cx_level :: int
  cx_priv :: 'c

record av_picture =
  pic_data :: bytes
  pic_width :: int
  pic_height :: int
  pic_pts :: int
  pic_intra :: bool

text \<open>
  \<open>av_find\<close> and \<open>av_alloc\<close> make a new context, \<open>av_open\<close> opens it and tells whether this went well, \<open>av_send\<close>
  hands a picture over and \<open>av_receive\<close> takes a packet, its time stamp and data, if there is one.
\<close>

record 'c av_lib =
  av_find :: bool
  av_constrained_baseline :: int
  av_alloc :: "'c av_context"
  av_set_options :: "(string \<times> string) list \<Rightarrow> 'c \<Rightarrow> 'c"
  av_set_int :: "string \<Rightarrow> int \<Rightarrow> 'c \<Rightarrow> 'c"
  av_open :: "'c av_context \<Rightarrow> bool \<times> 'c av_context"
  av_fill_arrays :: "bytes \<Rightarrow> int \<Rightarrow> int \<Rightarrow> bool"
  av_send :: "av_picture \<Rightarrow> 'c av_context \<Rightarrow> bool \<times> 'c av_context"
  av_receive :: "'c av_context \<Rightarrow> (int \<times> bytes) option \<times> 'c av_context"
  av_rescale :: "int \<Rightarrow> av_rational \<Rightarrow> av_rational \<Rightarrow> int"

text \<open>What a call returns: an exception, undefined behaviour, or payloads and a time stamp.\<close>

datatype enc_result = Enc_threw | Enc_undefined | Encoded "bytes list" u32

section \<open>Encoders of video\<close>

record 'c video_encoder =
  ve_ctx :: "'c av_context option"
  ve_width :: int
  ve_height :: int
  ve_bitrate :: int
  ve_max_framerate :: int
  ve_picture_id :: u16

record encoder_params =
  ep_bitrate :: "int option"
  ep_max_framerate :: "int option"

definition video_encoder_new :: "encoder_params \<Rightarrow> u32 \<Rightarrow> 'c video_encoder" where
  "video_encoder_new p random =
     \<lparr>ve_ctx = None, ve_width = 0, ve_height = 0,
      ve_bitrate = (case ep_bitrate p of None \<Rightarrow> 1000000 | Some b \<Rightarrow> b),
      ve_max_framerate = (case ep_max_framerate p of None \<Rightarrow> 30 | Some r \<Rightarrow> r),
      ve_picture_id = ucast (random AND 0x7FFF)\<rparr>"

text \<open>The context that \<open>_init_context\<close> opens; \<open>gop\<close> is the number of seconds between key frames.\<close>

definition context_for :: "'c av_lib \<Rightarrow> int \<Rightarrow> ('c \<Rightarrow> 'c) \<Rightarrow> 'c video_encoder \<Rightarrow> 'c av_context" where
  "context_for A gop opts e =
     (av_alloc A)\<lparr>cx_width := ve_width e, cx_height := ve_height e, cx_bit_rate := ve_bitrate e,
       cx_time_base := (1, 90000), cx_framerate := (ve_max_framerate e, 1),
       cx_gop_size := ve_max_framerate e * gop, cx_priv := opts (cx_priv (av_alloc A))\<rparr>"

definition h264_init_context :: "'c av_lib \<Rightarrow> 'c video_encoder \<Rightarrow> bool \<times> 'c video_encoder" where
  "h264_init_context A e =
     (if \<not> av_find A then (False, e\<lparr>ve_ctx := None\<rparr>)
      else (let (ok, c) = av_open A ((context_for A 2 (av_set_options A [(''preset'', ''ultrafast''), (''tune'', ''zerolatency'')]) e)
                  \<lparr>cx_profile := av_constrained_baseline A, cx_level := 31\<rparr>)
            in (ok, e\<lparr>ve_ctx := Some c\<rparr>)))"

definition vp8_init_context :: "'c av_lib \<Rightarrow> 'c video_encoder \<Rightarrow> bool \<times> 'c video_encoder" where
  "vp8_init_context A e =
     (let (ok, c) = av_open A (context_for A 2
            (\<lambda>x. av_set_options A [(''deadline'', ''realtime''), (''error-resilient'', ''1'')] (av_set_int A ''cpu-used'' 6 x)) e)
      in (ok, e\<lparr>ve_ctx := Some c\<rparr>))"

text \<open>VP9 does not look at the result.\<close>

definition vp9_init_context :: "'c av_lib \<Rightarrow> 'c video_encoder \<Rightarrow> bool \<times> 'c video_encoder" where
  "vp9_init_context A e =
     (let (ok, c) = av_open A ((context_for A 60
            (\<lambda>x. av_set_int A ''row-mt'' 1 (av_set_options A [(''deadline'', ''realtime'')] (av_set_int A ''cpu-used'' 5 x))) e)
            \<lparr>cx_profile := 0\<rparr>)
      in (True, e\<lparr>ve_ctx := Some c\<rparr>))"

text \<open>The packets that the library has: the data, one behind the other, and the last time stamp.\<close>

definition AV_NOPTS_VALUE :: int where "AV_NOPTS_VALUE = - (2 ^ 63)"

partial_function (option) receive_packets ::
  "'c av_lib \<Rightarrow> 'c av_context \<Rightarrow> bytes \<Rightarrow> int \<Rightarrow> (bytes \<times> int \<times> 'c av_context) option" where
  "receive_packets A c encoded last_pts =
     (case av_receive A c of
        (None, c) \<Rightarrow> Some (encoded, last_pts, c)
      | (Some (pts, d), c) \<Rightarrow> receive_packets A c (encoded @ d) pts)"

text \<open>Time stamps: H.264 and VP8 let the library rescale, VP9 and Opus multiply in 64 bits.\<close>

definition rescaled_timestamp :: "'c av_lib \<Rightarrow> int \<Rightarrow> av_rational \<Rightarrow> u32" where
  "rescaled_timestamp A pts tb = (if snd tb = 0 then word_of_int pts else word_of_int (av_rescale A pts tb (1, 90000)))"

definition int64 :: "int \<Rightarrow> int option" where
  "int64 x = (if - (2 ^ 63) \<le> x \<and> x < 2 ^ 63 then Some x else None)"

definition multiplied_timestamp :: "int \<Rightarrow> int \<Rightarrow> av_rational \<Rightarrow> u32 option" where
  "multiplied_timestamp rate pts tb =
     (if snd tb = 0 then Some (word_of_int pts)
      else do { a \<leftarrow> int64 (pts * rate); b \<leftarrow> int64 (a * fst tb); c \<leftarrow> int64 (b sdiv snd tb); Some (word_of_int c) })"

section \<open>Packetizing\<close>

text \<open>
  VP8 and VP9: the payload descriptor is of a header that is not in the repository, so the bytes of a
  descriptor with partition 0 and the picture identifier are an argument. The room is a 64-bit difference.
\<close>

definition packet_room :: "nat \<Rightarrow> nat" where
  "packet_room n = (if n \<le> PACKET_MAX then PACKET_MAX - n else 2 ^ 64 + PACKET_MAX - n)"

partial_function (option) vpx_encoder_chunks :: "(bool \<Rightarrow> bytes) \<Rightarrow> bool \<Rightarrow> bytes \<Rightarrow> bytes list option" where
  "vpx_encoder_chunks desc start buf =
     (if buf = [] then Some []
      else (let dbytes = desc start; chunk = min (length buf) (packet_room (length dbytes))
            in do { ps \<leftarrow> vpx_encoder_chunks desc False (drop chunk buf);
                    Some ((dbytes @ take chunk buf) # ps) }))"

definition next_picture :: "'c video_encoder \<Rightarrow> 'c video_encoder" where
  "next_picture e = e\<lparr>ve_picture_id := (ve_picture_id e + 1) AND 0x7FFF\<rparr>"

definition h264_payloads :: "bytes \<Rightarrow> 'c video_encoder \<Rightarrow> (bytes list \<times> 'c video_encoder) option" where
  "h264_payloads buf e = Some (h264_packetize buf, e)"

definition vpx_payloads :: "(u16 \<Rightarrow> bool \<Rightarrow> bytes) \<Rightarrow> bytes \<Rightarrow> 'c video_encoder \<Rightarrow> (bytes list \<times> 'c video_encoder) option" where
  "vpx_payloads desc buf e =
     do { ps \<leftarrow> vpx_encoder_chunks (desc (ve_picture_id e)) True buf; Some (ps, next_picture e) }"

section \<open>Encoding\<close>

record raw_frame =
  rf_width :: int
  rf_height :: int
  rf_timestamp :: u32
  rf_data :: bytes

type_synonym 'c packer = "bytes \<Rightarrow> 'c video_encoder \<Rightarrow> (bytes list \<times> 'c video_encoder) option"

text \<open>The packets of a picture that has been handed over.\<close>

definition encoded_packets ::
  "'c av_lib \<Rightarrow> (int \<Rightarrow> av_rational \<Rightarrow> u32 option) \<Rightarrow> 'c packer \<Rightarrow> 'c av_context \<Rightarrow> 'c video_encoder \<Rightarrow> (enc_result \<times> 'c video_encoder) option" where
  "encoded_packets A ts pack c e =
     do { (encoded, last_pts, c) \<leftarrow> receive_packets A c [] AV_NOPTS_VALUE;
          (let e = e\<lparr>ve_ctx := Some c\<rparr>
           in if encoded = [] then Some (Encoded [] 0, e)
              else (case ts last_pts (cx_time_base c) of
                      None \<Rightarrow> Some (Enc_undefined, e)
                    | Some t \<Rightarrow> do { (ps, e) \<leftarrow> pack encoded e; Some (Encoded ps t, e) })) }"

definition video_encode ::
  "'c av_lib \<Rightarrow> ('c video_encoder \<Rightarrow> bool \<times> 'c video_encoder) \<Rightarrow> (int \<Rightarrow> av_rational \<Rightarrow> u32 option) \<Rightarrow> 'c packer
    \<Rightarrow> raw_frame \<Rightarrow> bool \<Rightarrow> 'c video_encoder \<Rightarrow> (enc_result \<times> 'c video_encoder) option" where
  "video_encode A init ts pack frame force e =
     (let (ok, e) = (if ve_ctx e = None \<or> ve_width e \<noteq> rf_width frame \<or> ve_height e \<noteq> rf_height frame
                     then init (e\<lparr>ve_width := rf_width frame, ve_height := rf_height frame\<rparr>) else (True, e))
      in if \<not> ok then Some (Enc_threw, e)
         else (case ve_ctx e of None \<Rightarrow> Some (Enc_undefined, e)
               | Some c \<Rightarrow>
                   if \<not> av_fill_arrays A (rf_data frame) (cx_width c) (cx_height c) then Some (Enc_threw, e)
                   else (let (sent, c) = av_send A \<lparr>pic_data = rf_data frame, pic_width = cx_width c, pic_height = cx_height c,
                               pic_pts = uint (rf_timestamp frame), pic_intra = force\<rparr> c
                         in if \<not> sent then Some (Encoded [] 0, e\<lparr>ve_ctx := Some c\<rparr>)
                            else encoded_packets A ts pack c e)))"

definition h264_encode :: "'c av_lib \<Rightarrow> raw_frame \<Rightarrow> bool \<Rightarrow> 'c video_encoder \<Rightarrow> (enc_result \<times> 'c video_encoder) option" where
  "h264_encode A = video_encode A (h264_init_context A) (\<lambda>p tb. Some (rescaled_timestamp A p tb)) h264_payloads"

definition vp8_encode :: "'c av_lib \<Rightarrow> (u16 \<Rightarrow> bool \<Rightarrow> bytes) \<Rightarrow> raw_frame \<Rightarrow> bool \<Rightarrow> 'c video_encoder \<Rightarrow> (enc_result \<times> 'c video_encoder) option" where
  "vp8_encode A desc = video_encode A (vp8_init_context A) (\<lambda>p tb. Some (rescaled_timestamp A p tb)) (vpx_payloads desc)"

definition vp9_encode :: "'c av_lib \<Rightarrow> (u16 \<Rightarrow> bool \<Rightarrow> bytes) \<Rightarrow> raw_frame \<Rightarrow> bool \<Rightarrow> 'c video_encoder \<Rightarrow> (enc_result \<times> 'c video_encoder) option" where
  "vp9_encode A desc = video_encode A (vp9_init_context A) (multiplied_timestamp 90000) (vpx_payloads desc)"

text \<open>Data that are encoded already are only packetized.\<close>

definition h264_pack_encoded :: "bytes \<Rightarrow> u32 \<Rightarrow> 'c video_encoder \<Rightarrow> ((bytes list \<times> u32) \<times> 'c video_encoder) option" where
  "h264_pack_encoded d ts e = do { (ps, e) \<leftarrow> h264_payloads d e; Some ((ps, ts), e) }"

definition vpx_pack_encoded :: "(u16 \<Rightarrow> bool \<Rightarrow> bytes) \<Rightarrow> bytes \<Rightarrow> u32 \<Rightarrow> 'c video_encoder \<Rightarrow> ((bytes list \<times> u32) \<times> 'c video_encoder) option" where
  "vpx_pack_encoded desc d ts e = do { (ps, e) \<leftarrow> vpx_payloads desc d e; Some ((ps, ts), e) }"

section \<open>Parameters\<close>

definition set_bitrate :: "('c \<Rightarrow> 'c) \<Rightarrow> encoder_params \<Rightarrow> 'c video_encoder \<Rightarrow> 'c video_encoder" where
  "set_bitrate opt p e =
     (case ep_bitrate p of None \<Rightarrow> e
      | Some b \<Rightarrow> e\<lparr>ve_bitrate := b, ve_ctx := map_option (\<lambda>c. c\<lparr>cx_bit_rate := b, cx_priv := opt (cx_priv c)\<rparr>) (ve_ctx e)\<rparr>)"

definition set_framerate :: "int \<Rightarrow> bool \<Rightarrow> encoder_params \<Rightarrow> 'c video_encoder \<Rightarrow> 'c video_encoder" where
  "set_framerate gop keep p e =
     (case (ep_max_framerate p, ve_ctx e) of
        (Some r, Some c) \<Rightarrow>
          if cx_framerate c = (r, 1) then e
          else e\<lparr>ve_max_framerate := (if keep then r else ve_max_framerate e),
                 ve_ctx := Some (c\<lparr>cx_framerate := (r, 1), cx_gop_size := r * gop\<rparr>)\<rparr>
      | _ \<Rightarrow> e)"

text \<open>Only the encoder of H.264 remembers the rate for the next context.\<close>

definition h264_set_parameters :: "'c av_lib \<Rightarrow> encoder_params \<Rightarrow> 'c video_encoder \<Rightarrow> 'c video_encoder" where
  "h264_set_parameters A p e =
     set_framerate 2 True p (set_bitrate (av_set_int A ''b'' (case ep_bitrate p of None \<Rightarrow> 0 | Some b \<Rightarrow> b)) p e)"

definition vp8_set_parameters :: "'c av_lib \<Rightarrow> encoder_params \<Rightarrow> 'c video_encoder \<Rightarrow> 'c video_encoder" where
  "vp8_set_parameters A p e =
     set_framerate 2 False p (set_bitrate (av_set_int A ''target-bitrate'' (case ep_bitrate p of None \<Rightarrow> 0 | Some b \<Rightarrow> b)) p e)"

definition vp9_set_parameters :: "encoder_params \<Rightarrow> 'c video_encoder \<Rightarrow> 'c video_encoder" where
  "vp9_set_parameters p e = set_framerate 60 False p (set_bitrate (\<lambda>x. x) p e)"


section \<open>The settings of a context\<close>

text \<open>Opening a context, sending and receiving leave the settings that the user has written.\<close>

definition same_settings :: "'c av_context \<Rightarrow> 'c av_context \<Rightarrow> bool" where
  "same_settings c d \<longleftrightarrow> cx_width c = cx_width d \<and> cx_height c = cx_height d \<and> cx_bit_rate c = cx_bit_rate d
     \<and> cx_time_base c = cx_time_base d \<and> cx_framerate c = cx_framerate d \<and> cx_gop_size c = cx_gop_size d"

definition keeps_settings :: "'c av_lib \<Rightarrow> bool" where
  "keeps_settings A \<longleftrightarrow> (\<forall>c. same_settings (snd (av_open A c)) c) \<and> (\<forall>p c. same_settings (snd (av_send A p c)) c)
     \<and> (\<forall>c. same_settings (snd (av_receive A c)) c)"

lemma keeps_settingsD:
  assumes "keeps_settings A"
  shows "av_open A c = (ok, d) \<Longrightarrow> same_settings d c" "av_send A p c = (ok, d) \<Longrightarrow> same_settings d c"
    "av_receive A c = (r, d) \<Longrightarrow> same_settings d c"
  using assms unfolding keeps_settings_def by (metis snd_conv)+

lemma receive_packets_keeps:
  assumes "receive_packets A c encoded pts = Some y"
  shows "keeps_settings A \<longrightarrow> same_settings (snd (snd y)) c"
proof (rule receive_packets.raw_induct [OF _ assms, of "\<lambda>A c _ _ y. keeps_settings A \<longrightarrow> same_settings (snd (snd y)) c"], rule impI)
  fix rec A c encoded pts and y :: "bytes \<times> int \<times> 'a av_context"
  assume IH: "\<And>A c encoded pts y. rec A c encoded pts = Some y \<Longrightarrow> keeps_settings A \<longrightarrow> same_settings (snd (snd y)) c"
    and b: "(case av_receive A c of (None, c) \<Rightarrow> Some (encoded, pts, c) | (Some (p, d), c) \<Rightarrow> rec A c (encoded @ d) p) = Some y"
    and k: "keeps_settings A"
  obtain r c' where r: "av_receive A c = (r, c')" by (rule prod.exhaust)
  have s: "same_settings c' c" by (rule keeps_settingsD(3) [OF k r])
  show "same_settings (snd (snd y)) c"
  proof (cases r)
    case None
    then show ?thesis using b r s by auto
  next
    case (Some x)
    then have "rec A c' (encoded @ snd x) (fst x) = Some y" using b r by (cases x) simp
    then have "same_settings (snd (snd y)) c'" using IH k by blast
    then show ?thesis using s by (simp add: same_settings_def)
  qed
qed

lemma receive_packets_settings:
  "keeps_settings A \<Longrightarrow> receive_packets A c encoded pts = Some (b, t, d) \<Longrightarrow> same_settings d c"
  using receive_packets_keeps by fastforce

text \<open>The context of an encoder has the size and the bit rate of the encoder, that of H.264 also its frame rate.\<close>

definition context_current :: "'c video_encoder \<Rightarrow> bool" where
  "context_current e \<longleftrightarrow> (\<forall>c. ve_ctx e = Some c \<longrightarrow>
     cx_width c = ve_width e \<and> cx_height c = ve_height e \<and> cx_bit_rate c = ve_bitrate e \<and> cx_time_base c = (1, 90000))"

definition rate_current :: "'c video_encoder \<Rightarrow> bool" where
  "rate_current e \<longleftrightarrow> (\<forall>c. ve_ctx e = Some c \<longrightarrow> cx_framerate c = (ve_max_framerate e, 1) \<and> cx_gop_size c = ve_max_framerate e * 2)"


lemma encoded_packets_keeps:
  assumes "keeps_settings A"
    and pack: "\<And>b e ps e'. pack b e = Some (ps, e') \<Longrightarrow> I e \<Longrightarrow> I e'"
    and set: "\<And>d. same_settings d c \<Longrightarrow> I (e\<lparr>ve_ctx := Some d\<rparr>)"
    and enc: "encoded_packets A ts pack c e = Some (r, e')"
  shows "I e'"
proof -
  obtain b t d where p: "receive_packets A c [] AV_NOPTS_VALUE = Some (b, t, d)"
    using enc by (auto simp: encoded_packets_def split: bind_splits)
  have i: "I (e\<lparr>ve_ctx := Some d\<rparr>)" using receive_packets_settings [OF assms(1) p] by (rule set)
  show ?thesis
    using enc i pack unfolding encoded_packets_def p by (auto simp: Let_def split: if_splits option.splits bind_splits)
qed

lemma video_encode_keeps:
  assumes A: "keeps_settings A"
    and init: "\<And>e ok e'. init e = (ok, e') \<Longrightarrow> I e'"
    and pack: "\<And>b e ps e'. pack b e = Some (ps, e') \<Longrightarrow> I e \<Longrightarrow> I e'"
    and set: "\<And>e c d. I e \<Longrightarrow> ve_ctx e = Some c \<Longrightarrow> same_settings d c \<Longrightarrow> I (e\<lparr>ve_ctx := Some d\<rparr>)"
    and e: "I e" and enc: "video_encode A init ts pack frame force e = Some (r, e')"
  shows "I e'"
proof -
  let ?again = "ve_ctx e = None \<or> ve_width e \<noteq> rf_width frame \<or> ve_height e \<noteq> rf_height frame"
  obtain ok e1 where 1: "(if ?again then init (e\<lparr>ve_width := rf_width frame, ve_height := rf_height frame\<rparr>) else (True, e)) = (ok, e1)"
    by (rule prod.exhaust)
  have i: "I e1" using 1 e init by (auto split: if_splits)
  note v = enc [unfolded video_encode_def 1 Let_def prod.case]
  show ?thesis
  proof (cases "ve_ctx e1")
    case None
    then show ?thesis using v i by (auto split: if_splits)
  next
    case c: (Some c)
    show ?thesis
    proof (cases "\<not> ok \<or> \<not> av_fill_arrays A (rf_data frame) (cx_width c) (cx_height c)")
      case True
      then show ?thesis using v i c by (auto split: if_splits)
    next
      case False
      obtain sent d where d: "av_send A \<lparr>pic_data = rf_data frame, pic_width = cx_width c, pic_height = cx_height c,
          pic_pts = uint (rf_timestamp frame), pic_intra = force\<rparr> c = (sent, d)" by (rule prod.exhaust)
      have s: "same_settings d c" by (rule keeps_settingsD(2) [OF A d])
      have w: "same_settings x d \<Longrightarrow> I (e1\<lparr>ve_ctx := Some x\<rparr>)" for x
        using set [OF i c, of x] s by (simp add: same_settings_def)
      have "w \<Longrightarrow> I e'" if "\<not> sent" for w using v c False d that w [of d] by (auto simp: same_settings_def)
      moreover have "I e'" if sent
      proof -
        have "encoded_packets A ts pack d e1 = Some (r, e')" using v c False d that by simp
        then show ?thesis by (rule encoded_packets_keeps [where I = I, OF A pack w, rotated -1])
      qed
      ultimately show ?thesis by blast
    qed
  qed
qed

lemma context_for_settings:
  "cx_width (context_for A g f e) = ve_width e" "cx_height (context_for A g f e) = ve_height e"
  "cx_bit_rate (context_for A g f e) = ve_bitrate e" "cx_time_base (context_for A g f e) = (1, 90000)"
  "cx_framerate (context_for A g f e) = (ve_max_framerate e, 1)" "cx_gop_size (context_for A g f e) = ve_max_framerate e * g"
  by (simp_all add: context_for_def)

lemma h264_init_current:
  assumes "keeps_settings A" "h264_init_context A e = (ok, e')"
  shows "context_current e' \<and> rate_current e'"
  using assms(2) keeps_settingsD(1) [OF assms(1)]
  by (auto simp: h264_init_context_def context_current_def rate_current_def same_settings_def context_for_settings split: if_splits prod.splits)

lemma current_same_settings:
  assumes "context_current e \<and> rate_current e" "ve_ctx e = Some c" "same_settings d c"
  shows "context_current (e\<lparr>ve_ctx := Some d\<rparr>) \<and> rate_current (e\<lparr>ve_ctx := Some d\<rparr>)"
  using assms by (simp add: context_current_def rate_current_def same_settings_def)

lemma h264_encode_current:
  assumes "keeps_settings A" "context_current e \<and> rate_current e" "h264_encode A frame force e = Some (r, e')"
  shows "context_current e' \<and> rate_current e'"
proof -
  have p: "h264_payloads b x = Some (ps, y) \<Longrightarrow> context_current x \<and> rate_current x \<Longrightarrow> context_current y \<and> rate_current y"
    for b ps and x y :: "'a video_encoder" by (simp add: h264_payloads_def)
  show ?thesis
    by (rule video_encode_keeps [where I = "\<lambda>e. context_current e \<and> rate_current e", OF assms(1) h264_init_current [OF assms(1)] p
          current_same_settings assms(2) assms(3) [unfolded h264_encode_def]])
qed

lemma h264_set_parameters_current:
  "context_current e \<and> rate_current e \<Longrightarrow> context_current (h264_set_parameters A p e) \<and> rate_current (h264_set_parameters A p e)"
  by (cases "ve_ctx e"; cases "ep_bitrate p"; cases "ep_max_framerate p")
    (simp_all add: h264_set_parameters_def set_framerate_def set_bitrate_def context_current_def rate_current_def)

text \<open>
  The encoders of VP8 and VP9 do not keep a new rate: the next picture of another size is encoded at the
  rate of the beginning. A rate that is set before the first picture is lost in all three.
\<close>

lemma vp8_rate_forgotten:
  assumes "keeps_settings A" "ve_ctx e = Some c" "cx_framerate c \<noteq> (r, 1)" "ep_max_framerate p = Some r" "ep_bitrate p = None"
    and "av_open A (context_for A 2 f (vp8_set_parameters A p e)) = (ok, d)"
  shows "cx_framerate (the (ve_ctx (vp8_set_parameters A p e))) = (r, 1) \<and> cx_framerate d = (ve_max_framerate e, 1)"
  using assms(2-5) keeps_settingsD(1) [OF assms(1,6)]
  by (simp add: vp8_set_parameters_def set_framerate_def set_bitrate_def same_settings_def context_for_settings)

lemma early_rate_lost: "ve_ctx e = None \<Longrightarrow> ve_max_framerate (h264_set_parameters A p e) = ve_max_framerate e"
  by (simp add: h264_set_parameters_def set_framerate_def set_bitrate_def split: option.split)

text \<open>
  When a context cannot be opened the encoder throws once. It keeps the context, so the next picture of
  the same size is sent to it as if it were open, and there are no packets and no error.
\<close>

lemma failed_open_is_not_retried:
  assumes "av_find A" "\<And>c. \<not> fst (av_open A c)" "\<And>p c. \<not> fst (av_send A p c)" "\<And>d w h. av_fill_arrays A d w h"
    and "ve_ctx e = None"
  shows "\<exists>e'. h264_encode A frame force e = Some (Enc_threw, e')
    \<and> (\<forall>frame' force'. rf_width frame' = rf_width frame \<and> rf_height frame' = rf_height frame
        \<longrightarrow> (\<exists>e''. h264_encode A frame' force' e' = Some (Encoded [] 0, e'')))"
proof -
  define e0 where "e0 = e\<lparr>ve_width := rf_width frame, ve_height := rf_height frame\<rparr>"
  obtain c where i: "h264_init_context A e0 = (False, e0\<lparr>ve_ctx := Some c\<rparr>)"
  proof -
    obtain ok c where "av_open A ((context_for A 2 (av_set_options A [(''preset'', ''ultrafast''), (''tune'', ''zerolatency'')]) e0)
        \<lparr>cx_profile := av_constrained_baseline A, cx_level := 31\<rparr>) = (ok, c)" (is "av_open A ?c = _") by (rule prod.exhaust)
    moreover from this have "\<not> ok" using assms(2) [of ?c] by simp
    ultimately show ?thesis using assms(1) that by (simp add: h264_init_context_def)
  qed
  let ?e = "e0\<lparr>ve_ctx := Some c\<rparr>"
  have "h264_encode A frame force e = Some (Enc_threw, ?e)"
    using assms(5) i by (simp add: h264_encode_def video_encode_def e0_def [symmetric])
  moreover have "\<exists>e''. h264_encode A frame' force' ?e = Some (Encoded [] 0, e'')"
    if "rf_width frame' = rf_width frame" "rf_height frame' = rf_height frame" for frame' force'
  proof -
    obtain sent d where d: "av_send A \<lparr>pic_data = rf_data frame', pic_width = cx_width c, pic_height = cx_height c,
        pic_pts = uint (rf_timestamp frame'), pic_intra = force'\<rparr> c = (sent, d)" (is "av_send A ?p c = _") by (rule prod.exhaust)
    moreover from this have "\<not> sent" using assms(3) [of ?p c] by simp
    ultimately show ?thesis using that assms(4) by (simp add: h264_encode_def video_encode_def e0_def)
  qed
  ultimately show ?thesis by blast
qed

section \<open>VP8 and VP9 payloads\<close>

text \<open>Pieces behind their descriptors, only the first marked as the start.\<close>

fun headed :: "(bool \<Rightarrow> bytes) \<Rightarrow> bool \<Rightarrow> bytes list \<Rightarrow> bytes list" where
  "headed desc start [] = []"
| "headed desc start (d # ds) = (desc start @ d) # headed desc False ds"

lemma vpx_encoder_chunks_ok:
  assumes "\<And>s. length (desc s) < PACKET_MAX"
  shows "\<exists>ds. vpx_encoder_chunks desc start buf = Some (headed desc start ds) \<and> concat ds = buf
    \<and> (\<forall>p \<in> set (headed desc start ds). length p \<le> PACKET_MAX)"
proof (induction "length buf" arbitrary: start buf rule: less_induct)
  case less
  show ?case
  proof (cases "buf = []")
    case True
    then show ?thesis by (subst vpx_encoder_chunks.simps) (simp add: exI [of _ "[]"])
  next
    case False
    let ?n = "min (length buf) (packet_room (length (desc start)))"
    have l: "length (desc start) < PACKET_MAX" by (rule assms)
    then have n: "0 < ?n" "length (desc start) + ?n \<le> PACKET_MAX" using False by (simp_all add: packet_room_def)
    have "length (drop ?n buf) < length buf" using n(1) False by simp
    from less.hyps [OF this, of False] obtain ds where p: "vpx_encoder_chunks desc False (drop ?n buf) = Some (headed desc False ds)"
      "concat ds = drop ?n buf" "\<forall>p \<in> set (headed desc False ds). length p \<le> PACKET_MAX" by blast
    have c: "vpx_encoder_chunks desc start buf = Some (headed desc start (take ?n buf # ds))"
      using False by (subst vpx_encoder_chunks.simps) (simp add: Let_def p(1))
    show ?thesis by (intro exI [of _ "take ?n buf # ds"] conjI) (use c p n(2) in simp_all)
  qed
qed

text \<open>With the descriptors of the library, the receiver restores the data.\<close>

definition library_descriptor :: "u16 \<Rightarrow> bool \<Rightarrow> bytes" where
  "library_descriptor pid start =
     vpx_bytes (vpx_default\<lparr>vd_partition_start := start, vd_partition_id := 0, vd_picture_id := Some pid\<rparr>)"

lemma vpx_unpack_headed:
  assumes "pid < 0x8000"
  shows "vpx_unpack (headed (library_descriptor pid) start ds) = concat ds"
proof -
  have "vpx_wf (vpx_default\<lparr>vd_partition_start := s, vd_partition_id := 0, vd_picture_id := Some pid\<rparr>)" for s
    using assms by (simp add: vpx_wf_def vpx_default_def)
  then have "vpx_depayload (library_descriptor pid s @ d) = d" for s d
    unfolding library_descriptor_def by (rule vpx_depayload_bytes)
  then show ?thesis by (induction ds arbitrary: start) (simp_all add: vpx_unpack_def)
qed

lemma vpx_encoder_reassembles:
  assumes "ve_picture_id e < 0x8000"
  shows "\<exists>ps. vpx_payloads library_descriptor buf e = Some (ps, next_picture e) \<and> vpx_unpack ps = buf
    \<and> (\<forall>p \<in> set ps. length p \<le> PACKET_MAX) \<and> ve_picture_id (next_picture e) < 0x8000"
proof -
  have "length (library_descriptor (ve_picture_id e) s) < PACKET_MAX" for s
    using length_vpx_bytes [of "vpx_default\<lparr>vd_partition_start := s, vd_partition_id := 0, vd_picture_id := Some (ve_picture_id e)\<rparr>"]
    by (simp add: library_descriptor_def)
  then obtain ds where "vpx_encoder_chunks (library_descriptor (ve_picture_id e)) True buf = Some (headed (library_descriptor (ve_picture_id e)) True ds)"
    "concat ds = buf" "\<forall>p \<in> set (headed (library_descriptor (ve_picture_id e)) True ds). length p \<le> PACKET_MAX"
    using vpx_encoder_chunks_ok by blast
  then show ?thesis using vpx_unpack_headed [OF assms] and_0x7FFF_less by (simp add: vpx_payloads_def next_picture_def)
qed

end
