(* ===== verification/LibavDecoders.thy ===== *)
theory LibavDecoders
  imports LibavCodecs
begin

text \<open>
  The Opus encoder and decoder of \<open>ffmpeg/codecs/opus.cpp\<close>, and what the decoders of \<open>ffmpeg/codecs\<close> make
  of the frames of libav. The library is a parameter again; floating point numbers are a type \<open>'f\<close> with the
  operations of a record.
\<close>

section \<open>The encoder\<close>

record 'c opus_context =
  oc_bit_rate :: int
  oc_time_base :: av_rational
  oc_sample_rate :: int
  oc_frame_size :: int
  oc_channels :: int
  oc_priv :: 'c

text \<open>
  \<open>oa_open\<close> opens a context, \<open>oa_buffer\<close> is the memory of a new frame, if there is some, \<open>oa_buffer_size\<close> the
  size that the samples need, \<open>oa_send\<close> hands over the memory and the time stamp.
\<close>

record 'c opus_lib =
  oa_alloc :: "'c opus_context"
  oa_open :: "'c opus_context \<Rightarrow> 'c opus_context"
  oa_buffer :: "'c opus_context \<Rightarrow> bytes option"
  oa_buffer_size :: "int \<Rightarrow> int \<Rightarrow> int"
  oa_send :: "bytes \<Rightarrow> int \<Rightarrow> 'c opus_context \<Rightarrow> bool \<times> 'c opus_context"
  oa_receive :: "'c opus_context \<Rightarrow> (int \<times> bytes) option \<times> 'c opus_context"

record 'c opus_encoder =
  oe_ctx :: "'c opus_context option"
  oe_channels :: int
  oe_bitrate :: int

definition FRAME_SAMPLES :: int where "FRAME_SAMPLES = 960"

definition opus_encoder_new :: "encoder_params \<Rightarrow> 'c opus_encoder" where
  "opus_encoder_new p = \<lparr>oe_ctx = None, oe_channels = 0, oe_bitrate = (case ep_bitrate p of None \<Rightarrow> 64000 | Some b \<Rightarrow> b)\<rparr>"

definition opus_init_context :: "'c opus_lib \<Rightarrow> 'c opus_encoder \<Rightarrow> 'c opus_context" where
  "opus_init_context A e =
     oa_open A ((oa_alloc A)\<lparr>oc_bit_rate := oe_bitrate e, oc_sample_rate := 48000, oc_time_base := (1, 48000),
       oc_frame_size := FRAME_SAMPLES, oc_channels := oe_channels e\<rparr>)"

definition int_size :: "bytes \<Rightarrow> int" where
  "int_size d = sint (word_of_nat (length d) :: 32 word)"

partial_function (option) opus_packets ::
  "'c opus_lib \<Rightarrow> 'c opus_context \<Rightarrow> bytes \<Rightarrow> int \<Rightarrow> (bytes \<times> int \<times> 'c opus_context) option" where
  "opus_packets A c encoded last_pts =
     (case oa_receive A c of
        (None, c) \<Rightarrow> Some (encoded, last_pts, c)
      | (Some (pts, d), c) \<Rightarrow> opus_packets A c (encoded @ d) pts)"

text \<open>The time stamp is computed before it is known whether there is a packet.\<close>

definition opus_finish :: "'c opus_lib \<Rightarrow> 'c opus_context \<Rightarrow> 'c opus_encoder \<Rightarrow> (enc_result \<times> 'c opus_encoder) option" where
  "opus_finish A c e =
     do { (encoded, last_pts, c) \<leftarrow> opus_packets A c [] AV_NOPTS_VALUE;
          Some (case multiplied_timestamp 48000 last_pts (oc_time_base c) of
                  None \<Rightarrow> Enc_undefined
                | Some t \<Rightarrow> if encoded = [] then Encoded [] 0 else Encoded [encoded] t, e\<lparr>oe_ctx := Some c\<rparr>) }"

definition opus_encode :: "'c opus_lib \<Rightarrow> bytes \<Rightarrow> u32 \<Rightarrow> 'c opus_encoder \<Rightarrow> (enc_result \<times> 'c opus_encoder) option" where
  "opus_encode A data timestamp e =
     (let channels = int_size data sdiv (FRAME_SAMPLES * 2)
      in if channels < 1 \<or> channels > 8 then Some (Encoded [] 0, e)
         else (let (c, e) = (case oe_ctx e of
                     Some c \<Rightarrow> if oe_channels e = channels then (c, e)
                        else (opus_init_context A (e\<lparr>oe_channels := channels\<rparr>), e\<lparr>oe_channels := channels\<rparr>)
                   | None \<Rightarrow> (opus_init_context A (e\<lparr>oe_channels := channels\<rparr>), e\<lparr>oe_channels := channels\<rparr>));
                   e = e\<lparr>oe_ctx := Some c\<rparr>
               in case oa_buffer A c of None \<Rightarrow> Some (Encoded [] 0, e)
                  | Some b \<Rightarrow>
                      (let size = oa_buffer_size A (oe_channels e) FRAME_SAMPLES
                       in if size < 0 then Some (Encoded [] 0, e)
                          else (let b = (if int_size data \<ge> size then take (nat size) data @ drop (nat size) b else b);
                                    (sent, c) = oa_send A b (uint timestamp) c
                                in if \<not> sent then Some (Encoded [] 0, e\<lparr>oe_ctx := Some c\<rparr>) else opus_finish A c e))))"

definition opus_pack_encoded :: "bytes \<Rightarrow> u32 \<Rightarrow> bytes list \<times> u32" where
  "opus_pack_encoded d ts = ([d], ts)"

definition opus_set_parameters :: "encoder_params \<Rightarrow> 'c opus_encoder \<Rightarrow> 'c opus_encoder" where
  "opus_set_parameters p e =
     (case ep_bitrate p of None \<Rightarrow> e
      | Some b \<Rightarrow> e\<lparr>oe_bitrate := b, oe_ctx := map_option (\<lambda>c. c\<lparr>oc_bit_rate := b\<rparr>) (oe_ctx e)\<rparr>)"

section \<open>Decoded samples\<close>

text \<open>
  The loops over channels and samples that write an interleaved array; the value of channel \<open>ch\<close> at \<open>s\<close> is
  \<open>f ch s\<close>.
\<close>

definition interleave :: "nat \<Rightarrow> nat \<Rightarrow> (nat \<Rightarrow> nat \<Rightarrow> 'a) \<Rightarrow> 'a list \<Rightarrow> 'a list" where
  "interleave channels n f d =
     fold (\<lambda>ch d. fold (\<lambda>s d. d[s * channels + ch := f ch s]) [0..<n] d) [0..<channels] d"

record 'f float_lib =
  fl_of_int :: "int \<Rightarrow> 'f"
  fl_times :: "'f \<Rightarrow> 'f \<Rightarrow> 'f"
  fl_less :: "'f \<Rightarrow> 'f \<Rightarrow> bool"
  fl_to_s16 :: "'f \<Rightarrow> u16"

definition sample_s16 :: "'f float_lib \<Rightarrow> 'f \<Rightarrow> u16" where
  "sample_s16 F x =
     (let v = fl_times F x (fl_of_int F 32767);
          v = (if fl_less F (fl_of_int F 32767) v then fl_of_int F 32767 else v);
          v = (if fl_less F v (fl_of_int F (- 32768)) then fl_of_int F (- 32768) else v)
      in fl_to_s16 F v)"

text \<open>The samples of a frame of the decoder; a sample of 16 bits is a word here.\<close>

datatype 'f av_samples = Packed_s16 "u16 list" | Planar_s16 "u16 list list" | Packed_flt "'f list" | Planar_flt "'f list list"

definition pcm_samples :: "'f float_lib \<Rightarrow> nat \<Rightarrow> nat \<Rightarrow> 'f av_samples \<Rightarrow> u16 list" where
  "pcm_samples F channels n a =
     (case a of
        Packed_s16 d \<Rightarrow> take (n * channels) d
      | Planar_s16 planes \<Rightarrow> interleave channels n (\<lambda>ch s. planes ! ch ! s) (replicate (n * channels) 0)
      | Packed_flt d \<Rightarrow> map (\<lambda>i. sample_s16 F (d ! i)) [0..<n * channels]
      | Planar_flt planes \<Rightarrow> interleave channels n (\<lambda>ch s. sample_s16 F (planes ! ch ! s)) (replicate (n * channels) 0))"

section \<open>Facts\<close>

lemma fold_update_length: "length (fold (\<lambda>s d. d[g s := f s]) xs d) = length d"
  by (induction xs arbitrary: d) simp_all

lemma interleave_channel:
  assumes "ch < channels" "length d = n * channels" "i < n * channels"
  shows "fold (\<lambda>s d. d[s * channels + ch := f s]) [0..<m] d ! i
    = (if i mod channels = ch \<and> i div channels < m then f (i div channels) else d ! i)"
proof (induction m)
  case (Suc m)
  have "i = m * channels + ch \<longleftrightarrow> i mod channels = ch \<and> i div channels = m" using assms(1) by auto
  then show ?case
    using Suc assms(2,3) fold_update_length [of "\<lambda>s. s * channels + ch" f "[0..<m]" d] by (auto simp: nth_list_update less_Suc_eq)
qed simp

lemma interleave_channels:
  assumes "k \<le> channels" "length d = n * channels"
  shows "length (fold (\<lambda>ch d. fold (\<lambda>s d. d[s * channels + ch := f ch s]) [0..<n] d) [0..<k] d) = n * channels
    \<and> (\<forall>i < n * channels. fold (\<lambda>ch d. fold (\<lambda>s d. d[s * channels + ch := f ch s]) [0..<n] d) [0..<k] d ! i
        = (if i mod channels < k then f (i mod channels) (i div channels) else d ! i))"
  using assms(1)
proof (induction k)
  case 0
  then show ?case using assms(2) by simp
next
  case (Suc k)
  define e where "e = fold (\<lambda>ch d. fold (\<lambda>s d. d[s * channels + ch := f ch s]) [0..<n] d) [0..<k] d"
  have e: "length e = n * channels" "i < n * channels \<Longrightarrow> e ! i = (if i mod channels < k then f (i mod channels) (i div channels) else d ! i)" for i
    using Suc unfolding e_def by simp_all
  have u: "[0..<Suc k] = [0..<k] @ [k]" by simp
  have n: "i < n * channels \<Longrightarrow> i div channels < n" for i by (simp add: less_mult_imp_div_less)
  show ?case
    unfolding u fold_append o_apply e_def [symmetric]
    using Suc.prems e n fold_update_length [of "\<lambda>s. s * channels + k" "f k" "[0..<n]" e]
    by (simp add: interleave_channel less_Suc_eq)
qed

lemma interleave_eq:
  assumes "length d = n * channels"
  shows "interleave channels n f d = map (\<lambda>i. f (i mod channels) (i div channels)) [0..<n * channels]"
proof (rule nth_equalityI)
  have c: "length (interleave channels n f d) = n * channels"
    "i < n * channels \<Longrightarrow> interleave channels n f d ! i = (if i mod channels < channels then f (i mod channels) (i div channels) else d ! i)" for i
    using interleave_channels [OF le_refl assms, of f] unfolding interleave_def by auto
  then show "length (interleave channels n f d) = length (map (\<lambda>i. f (i mod channels) (i div channels)) [0..<n * channels])" by simp
  fix i assume "i < length (interleave channels n f d)"
  then have i: "i < n * channels" using c(1) by simp
  then have "i mod channels < channels" by (cases channels) auto
  then show "interleave channels n f d ! i = map (\<lambda>i. f (i mod channels) (i div channels)) [0..<n * channels] ! i"
    using c(2) [OF i] i by simp
qed

text \<open>
  Planar samples come out interleaved, for integers as for floating point numbers, so a planar frame and
  the packed frame with the same samples give the same bytes.
\<close>

lemma pcm_samples_planar:
  "pcm_samples F channels n (Planar_s16 planes) = map (\<lambda>i. planes ! (i mod channels) ! (i div channels)) [0..<n * channels]"
  "pcm_samples F channels n (Planar_flt fs) = map (\<lambda>i. sample_s16 F (fs ! (i mod channels) ! (i div channels))) [0..<n * channels]"
  by (simp_all add: pcm_samples_def interleave_eq)

lemma planar_is_packed:
  "pcm_samples F channels n (Planar_flt fs)
     = pcm_samples F channels n (Packed_flt (map (\<lambda>i. fs ! (i mod channels) ! (i div channels)) [0..<n * channels]))"
  unfolding pcm_samples_planar by (simp add: pcm_samples_def)

text \<open>
  When the library has taken a frame and has no packet yet, the encoder multiplies the time stamp that
  stands for none by 48000, which does not fit in 64 bits: undefined behaviour.
\<close>

lemma opus_held_packet_overflows:
  assumes "oa_receive A c = (None, c)" "oc_time_base c = (1, 48000)"
  shows "opus_finish A c e = Some (Enc_undefined, e\<lparr>oe_ctx := Some c\<rparr>)"
proof -
  have "opus_packets A c [] AV_NOPTS_VALUE = Some ([], AV_NOPTS_VALUE, c)" by (subst opus_packets.simps) (simp add: assms(1))
  moreover have "multiplied_timestamp 48000 AV_NOPTS_VALUE (1, 48000) = None"
    by (simp add: multiplied_timestamp_def AV_NOPTS_VALUE_def int64_def)
  ultimately show ?thesis by (simp add: opus_finish_def assms(2))
qed

lemma opus_packet_timestamp:
  assumes "oa_receive A c = (Some (pts, d), c')" "oa_receive A c' = (None, c')" "oc_time_base c' = (1, 48000)"
    and "d \<noteq> []" "0 \<le> pts" "pts < 2 ^ 32"
  shows "opus_finish A c e = Some (Encoded [d] (word_of_int pts), e\<lparr>oe_ctx := Some c'\<rparr>)"
proof -
  have p: "opus_packets A c [] AV_NOPTS_VALUE = Some (d, pts, c')"
    by (subst opus_packets.simps) (simp add: assms(1), subst opus_packets.simps, simp add: assms(2))
  have "multiplied_timestamp 48000 pts (1, 48000) = Some (word_of_int pts)"
    using assms(5,6) by (simp add: multiplied_timestamp_def int64_def signed_divide_int_def sgn_if)
  then show ?thesis using assms(4) by (simp add: opus_finish_def p assms(3))
qed

section \<open>Frames of the decoders\<close>

text \<open>
  A frame of libav: its time stamp, size and samples or image as bytes. \<open>av_decoder\<close> holds the functions of the
  library that the loops call.
\<close>

record av_frame =
  af_pts :: int
  af_width :: int
  af_height :: int
  af_image :: bytes

record 'c av_decoder =
  ad_send :: "bytes \<Rightarrow> int \<Rightarrow> 'c \<Rightarrow> bool \<times> 'c"
  ad_receive :: "'c \<Rightarrow> av_frame option \<times> 'c"

record decoded_frame =
  df_timestamp :: u32
  df_width :: int
  df_height :: int
  df_data :: bytes

partial_function (option) receive_frames :: "'c av_decoder \<Rightarrow> (int \<Rightarrow> u32) \<Rightarrow> 'c \<Rightarrow> (decoded_frame list \<times> 'c) option" where
  "receive_frames A ts c =
     (case ad_receive A c of
        (None, c) \<Rightarrow> Some ([], c)
      | (Some f, c) \<Rightarrow>
          do { (fs, c) \<leftarrow> receive_frames A ts c;
               Some (\<lparr>df_timestamp = ts (af_pts f), df_width = af_width f, df_height = af_height f, df_data = af_image f\<rparr> # fs, c) })"

definition video_decode :: "'c av_decoder \<Rightarrow> (int \<Rightarrow> u32) \<Rightarrow> bytes \<Rightarrow> u32 \<Rightarrow> 'c \<Rightarrow> (decoded_frame list \<times> 'c) option" where
  "video_decode A ts payload timestamp c =
     (let (ok, c) = ad_send A payload (uint timestamp) c in if \<not> ok then Some ([], c) else receive_frames A ts c)"

definition vpx_decode :: "'c av_decoder \<Rightarrow> (int \<Rightarrow> u32) \<Rightarrow> bytes \<Rightarrow> u32 \<Rightarrow> 'c \<Rightarrow> (decoded_frame list \<times> 'c) option" where
  "vpx_decode A ts payload timestamp c = (if payload = [] then Some ([], c) else video_decode A ts payload timestamp c)"

definition pts_timestamp :: "int \<Rightarrow> u32" where
  "pts_timestamp pts = word_of_int (if pts \<noteq> AV_NOPTS_VALUE then pts else 0)"

definition vp9_decode :: "'c av_decoder \<Rightarrow> bytes \<Rightarrow> u32 \<Rightarrow> 'c \<Rightarrow> (decoded_frame list \<times> 'c) option" where
  "vp9_decode A = vpx_decode A pts_timestamp"

definition vp8_decode :: "'c av_decoder \<Rightarrow> (int \<Rightarrow> int) \<Rightarrow> bytes \<Rightarrow> u32 \<Rightarrow> 'c \<Rightarrow> (decoded_frame list \<times> 'c) option" where
  "vp8_decode A rescale = vpx_decode A (\<lambda>pts. word_of_int (rescale pts))"

text \<open>A frame of sound, and the decoder of Opus, which also hands over empty payloads.\<close>

record 'f av_audio =
  aa_pts :: int
  aa_sample_rate :: int
  aa_channels :: nat
  aa_nb_samples :: nat
  aa_samples :: "'f av_samples"

record ('c, 'f) av_audio_decoder =
  au_send :: "bytes \<Rightarrow> int \<Rightarrow> 'c \<Rightarrow> bool \<times> 'c"
  au_receive :: "'c \<Rightarrow> 'f av_audio option \<times> 'c"

record pcm_frame =
  pf_timestamp :: u32
  pf_sample_rate :: int
  pf_channels :: nat
  pf_data :: "u16 list"

definition pcm_of :: "'f float_lib \<Rightarrow> 'f av_audio \<Rightarrow> pcm_frame" where
  "pcm_of F f = \<lparr>pf_timestamp = pts_timestamp (aa_pts f), pf_sample_rate = aa_sample_rate f, pf_channels = aa_channels f,
     pf_data = pcm_samples F (aa_channels f) (aa_nb_samples f) (aa_samples f)\<rparr>"

partial_function (option) receive_pcm :: "('c, 'f) av_audio_decoder \<Rightarrow> 'f float_lib \<Rightarrow> 'c \<Rightarrow> (pcm_frame list \<times> 'c) option" where
  "receive_pcm A F c =
     (case au_receive A c of
        (None, c) \<Rightarrow> Some ([], c)
      | (Some f, c) \<Rightarrow> do { (fs, c) \<leftarrow> receive_pcm A F c; Some (pcm_of F f # fs, c) })"

definition opus_decode :: "('c, 'f) av_audio_decoder \<Rightarrow> 'f float_lib \<Rightarrow> bytes \<Rightarrow> u32 \<Rightarrow> 'c \<Rightarrow> (pcm_frame list \<times> 'c) option" where
  "opus_decode A F payload timestamp c =
     (let (ok, c) = au_send A payload (uint timestamp) c in if \<not> ok then Some ([], c) else receive_pcm A F c)"

text \<open>The decoder of H.264 has the fragments of a unit besides its context.\<close>

definition h264_decode :: "'c av_decoder \<Rightarrow> (int \<Rightarrow> int) \<Rightarrow> bytes \<Rightarrow> u32 \<Rightarrow> bytes \<times> 'c \<Rightarrow> (decoded_frame list \<times> bytes \<times> 'c) option" where
  "h264_decode A rescale payload timestamp = (\<lambda>(fu_buffer, c).
     case h264_decode_unit payload fu_buffer of
       (None, fu_buffer) \<Rightarrow> Some ([], fu_buffer, c)
     | (Some nal, fu_buffer) \<Rightarrow>
         do { (fs, c) \<leftarrow> video_decode A (\<lambda>pts. word_of_int (rescale pts)) ([0, 0, 0, 1] @ nal) timestamp c; Some (fs, fu_buffer, c) })"

fun h264_decode_all ::
  "'c av_decoder \<Rightarrow> (int \<Rightarrow> int) \<Rightarrow> u32 \<Rightarrow> bytes list \<Rightarrow> bytes \<times> 'c \<Rightarrow> (decoded_frame list \<times> bytes \<times> 'c) option" where
  "h264_decode_all A rescale timestamp [] st = Some ([], st)"
| "h264_decode_all A rescale timestamp (p # ps) st =
     do { (fs, st) \<leftarrow> h264_decode A rescale p timestamp st;
          (gs, st) \<leftarrow> h264_decode_all A rescale timestamp ps st;
          Some (fs @ gs, st) }"

section \<open>A unit reaches the library whole\<close>

lemma h264_decode_no_unit:
  "h264_decode_units ps b = ([], b') \<Longrightarrow> h264_decode_all A rescale ts ps (b, c) = Some ([], b', c)"
proof (induction ps arbitrary: b)
  case (Cons p ps)
  obtain u b1 where u: "h264_decode_unit p b = (u, b1)" by (rule prod.exhaust)
  obtain us b2 where us: "h264_decode_units ps b1 = (us, b2)" by (rule prod.exhaust)
  have "u = None" "us = []" "b2 = b'" using Cons.prems u us by (auto split: option.splits)
  then show ?case using Cons.IH [of b1] u us by (simp add: h264_decode_def)
qed simp

lemma h264_decode_one_unit:
  "h264_decode_units ps b = ([nal], b') \<Longrightarrow> h264_decode_all A rescale ts ps (b, c)
     = map_option (\<lambda>(fs, c). (fs, b', c)) (video_decode A (\<lambda>pts. word_of_int (rescale pts)) ([0, 0, 0, 1] @ nal) ts c)"
proof (induction ps arbitrary: b)
  case (Cons p ps)
  obtain u b1 where u: "h264_decode_unit p b = (u, b1)" by (rule prod.exhaust)
  obtain us b2 where us: "h264_decode_units ps b1 = (us, b2)" by (rule prod.exhaust)
  show ?case
  proof (cases u)
    case None
    then have "us = [nal]" "b2 = b'" using Cons.prems u us by auto
    then show ?thesis using Cons.IH [of b1] u us None by (auto simp: h264_decode_def split: prod.splits bind_splits)
  next
    case (Some v)
    then have "v = nal" "us = []" "b2 = b'" using Cons.prems u us by auto
    then show ?thesis
      using h264_decode_no_unit [of ps b1 b' A rescale ts] u us Some
      by (cases "video_decode A (\<lambda>pts. word_of_int (rescale pts)) ([0, 0, 0, 1] @ nal) ts c") (auto simp: h264_decode_def)
  qed
qed simp

text \<open>
  C40: A unit reaches the library whole. The payloads that the encoder makes of a unit, none of them empty
  or with more than 1300 bytes, are decoded as one packet of the unit behind a start code: with more than
  1300 bytes its fragments are joined, whatever an earlier unit has left behind, and with fewer, when its
  type is not that of a fragment, its one payload is taken as it is.
\<close>
theorem libav_h264_unit_decoded:
  assumes "nal \<noteq> []" "PACKET_MAX < length nal \<or> nal ! 0 AND 0x1F \<noteq> 28"
  shows "h264_decode_all A rescale ts (nal_payloads nal) (b, c)
      = map_option (\<lambda>(fs, c). (fs, if length nal \<le> PACKET_MAX then b else [], c))
          (video_decode A (\<lambda>pts. word_of_int (rescale pts)) ([0, 0, 0, 1] @ nal) ts c)
    \<and> (\<forall>p \<in> set (nal_payloads nal). p \<noteq> [] \<and> length p \<le> PACKET_MAX)"
  using nal_payloads_roundtrip [OF assms, of b] by (intro conjI h264_decode_one_unit) simp_all

text \<open>A library that gives one frame for each packet, with the packet as its image.\<close>

definition echo_decoder :: "bytes option av_decoder" where
  "echo_decoder = \<lparr>ad_send = (\<lambda>d t c. (True, Some d)),
     ad_receive = (\<lambda>c. (map_option (\<lambda>d. \<lparr>af_pts = 0, af_width = 1, af_height = 1, af_image = d\<rparr>) c, None))\<rparr>"

theorem libav_h264_unit_decoded_witness:
  "h264_decode_all echo_decoder (\<lambda>p. p) 0 (nal_payloads [0x65, 1, 2]) ([7], None)
     = Some ([\<lparr>df_timestamp = 0, df_width = 1, df_height = 1, df_data = [0, 0, 0, 1, 0x65, 1, 2]\<rparr>], [7], None)"
proof -
  have r: "receive_frames echo_decoder ts None = Some ([], None)" for ts
    by (subst receive_frames.simps) (simp add: echo_decoder_def)
  have "receive_frames echo_decoder ts (Some d) = Some ([\<lparr>df_timestamp = ts 0, df_width = 1, df_height = 1, df_data = d\<rparr>], None)" for ts d
    by (subst receive_frames.simps) (use r in \<open>simp add: echo_decoder_def\<close>)
  moreover have "ad_send echo_decoder d t c = (True, Some d)" for d t c by (simp add: echo_decoder_def)
  ultimately show ?thesis
    using libav_h264_unit_decoded [of "[0x65, 1, 2]" echo_decoder "\<lambda>p. p" 0 "[7]" None] by (simp add: video_decode_def)
qed

end
