(* ===== verification/Spec2Isabelle.thy ===== *)
theory Spec2Isabelle
  imports Rtp Rtcp Jitter Nack Twcc SsrcStats Packetizers Sdp Handshake FramePath Interop Srtp MpegtsStream
    SecureFrame LibavDecoders
begin

text \<open>
  asio-rtc is a WebRTC library in C++23: it negotiates a session by offer and answer, connects over ICE
  and DTLS, sends frames of tracks as protected RTP packets and gives the frames that arrive to the tracks
  of the peer. This development models the logic of the library that is in the repository and proves what
  makes it correct. The transport layers below (ICE, DTLS, SCTP) are the submodule asio-ice, the cipher is
  libsrtp; both are outside the repository and are parameters.

  \<^bold>\<open>How the program works.\<close> A \<open>peer_connection\<close> holds a \<open>connection_impl\<close>. Its transceivers pair a sender with
  a receiver. \<open>create_offer\<close>, \<open>create_answer\<close>, \<open>set_local_description\<close> and \<open>set_remote_description\<close> exchange
  session descriptions; when both are there, \<open>do_connect\<close> sets up the transports. A sending loop takes the
  frames of a track, cuts them with a packetizer, numbers the packets, keeps the last 128 for
  retransmission and protects them. A datagram that arrives goes through the SRTP transport, which admits
  new sources, to \<open>do_on_rtp_rtcp_packet\<close>: RTP is routed by SSRC, RTX or mid to a receiver, counted, recorded
  for NACK and for congestion control, stripped of its payload descriptor and put into the jitter buffer
  of the track; RTCP updates statistics and asks for retransmissions. Timers send reports, NACK requests
  and congestion control feedback.

  \<^bold>\<open>Theories.\<close> Each opens with what it holds; the definitions bear the names of the code.
  \<^item> Prelude: integer widths as words, byte buffers with checked reads, byte order (a field of a record, with
    the law \<open>big_endian\<close>), collections of rewrite rules. Codec: the locale \<open>record_stream\<close>.
  \<^item> Rtp (\<open>src/rtp.cpp\<close>), Rtcp (\<open>src/rtcp.cpp\<close>): packets, parsers and writers. An outer \<open>None\<close> is a read outside the
    buffer, an inner \<open>None\<close> a refused packet, so that safety is a theorem and not an assumption.
  \<^item> Jitter, Nack, Twcc, SsrcStats: the receiver's components, each a record with one definition per member
    function; clock readings are arguments.
  \<^item> Packetizers (\<open>src/rtp_packetizer\<close>, \<open>depayload\<close>, Annex B assembly): the locale \<open>packetizer\<close>.
  \<^item> SdpText, SdpTypes, SdpParse, SdpPrint (\<open>src/sdp.cpp\<close>), then SdpFacts, SdpRound, SdpRoundMedia, SdpRoundSession
    and Sdp with the round trips, attribute by attribute, section by section, session.
  \<^item> Transceiver (\<open>src/rtp_transceiver.cpp\<close>), Connection and Negotiation (\<open>src/connection_impl.cpp\<close>): the state
    \<open>connection\<close> and the exchange; Handshake: its theorems, and the signaling states as the relation \<open>sig_step\<close>.
  \<^item> MediaPath (\<open>src/connection_impl.cpp\<close>, \<open>src/media_track_impl.cpp\<close>): the state \<open>media_path\<close>, sending, routing,
    reports, feedback; MediaFacts and FramePath: retransmission and the way of a frame to the track of the
    peer; Interop: two connections of this library with each other; Stats: \<open>get_stats\<close>.
  \<^item> Srtp (\<open>src/srtp_transport.cpp\<close>): keys, protection, admission of sources; the locale \<open>packet_channel\<close>.
  \<^item> Mpegts (\<open>src/mpegts_demuxer.hpp\<close>), StreamTrack (\<open>src/any_stream_track.cpp\<close>), MpegtsFacts, MpegtsFrames,
    MpegtsStream: a track that reads a transport stream from a pipe; the locale \<open>frame_splitter\<close>.
  \<^item> Candidates (\<open>src/candidate.cpp\<close>), PeerConnection (\<open>src/peer_connection.cpp\<close>): the interface, and packets of the
    application from \<open>send_rtp\<close> to the peer.
  \<^item> SecureFrame: a frame from the sender over two SRTP transports to the track of the peer.
  \<^item> H264Codec, LibavCodecs, LibavDecoders (\<open>ffmpeg/codecs\<close>): encoders and decoders over libav.

  \<^bold>\<open>What is shown.\<close> The properties carry their numbers C1 to C40 in the text before them.
  \<^item> Exchange (Handshake): a first exchange ends with both sides connecting in opposite ICE and DTLS roles; the codecs of
    offer and answer agree; answers are aligned with offers; the signaling state only moves forward.
  \<^item> Media (FramePath, SecureFrame, MediaFacts, Srtp, PeerConnection, Interop): frames reach the track whole in any order of
    arrival and over a protected connection; lost packets are restored from retransmissions; what the protected channel hands on
    and what it refuses; packets of the application arrive renumbered; and what two connections of this library
    make of each other's reports.
  \<^item> Components: parsers read inside their buffers and invert the writers; the jitter buffer delivers in
    order and whole frames; the NACK ring implements a window of numbers; feedback reports exactly the
    arrivals; the loss is that of the sender's own numbers over any number of wraps, for packets within reach;
    printed descriptions parse back, and the one undefined read of the parser is characterised.
  \<^item> Transport streams and codecs: a multiplexed stream comes out frame by frame but for the last frames; damage to a section is found;
    the demultiplexer is bounded; units of H.264 survive their fragments.
  Where the code does not do what it means to, a theorem or a lemma with a concrete input shows it.

  \<^bold>\<open>Interfaces.\<close> \<open>record_stream\<close> is interpreted on RTCP compound packets and on NACK entries, \<open>packetizer\<close> on the
  four packetizers, \<open>packet_channel\<close> on the SRTP transport and \<open>frame_splitter\<close> on the demultiplexer. The clients'
  lemmas are proved in the locales, and the properties rest on the facts of the interpretations.

  \<^bold>\<open>Bounds and loops.\<close> Integers have the width of the code, as words, where they can wrap; a C++ \<open>int\<close> is an
  \<open>int\<close> where it cannot. Loops are total functions with a measure. \<open>next_mid\<close> has fuel 65536, since there are
  as many identifiers; only when all are used the loop of the code does not end. The loops of StreamTrack
  and of the libav codecs depend on code of the user or the library and are partial functions, where \<open>None\<close>
  is not returning; that they return is part of what is proved of them. \<open>stream_frames_recovered\<close> asks for a
  cache of at most 12032 m bytes, 64 m packets, for units of m packets, because the queue of the demultiplexer drops frames beyond 64.

  \<^bold>\<open>Parameters.\<close> \<open>binary_lib\<close> (byte order of asio-ice), \<open>sdp_lib\<close> (regular expressions, case-insensitive comparison),
  \<open>agent_lib\<close> (what the ICE agent and the certificate give), \<open>srtp_lib\<close> (libsrtp), \<open>address_lib\<close> (addresses of asio),
  \<open>av_lib\<close>, \<open>opus_lib\<close>, \<open>av_decoder\<close>, \<open>float_lib\<close> (libav and floating point), the pipe and the splitter of a stream
  track, random numbers, identifiers and clocks. Laws about them are named hypotheses (\<open>big_endian\<close>, \<open>srtp_lib_ok\<close>, \<open>rtcp_loss_law\<close>,
  \<open>plain_address\<close>, \<open>keeps_settings\<close>), and every property with one has a witness on a concrete instance.

  \<^bold>\<open>Not modelled.\<close> Coroutines, executors, cancellation and the adapters between senders and completion handlers
  (\<open>include/asiortc/detail\<close>, \<open>src/any_sender.hpp\<close>): the operations run one after the other, as they do on one
  executor. The transports of asio-ice and the data channel (\<open>src/data_channel.cpp\<close>), which wrap it; the calls
  to the agent are recorded in their order. The queue track, whose queue is of asio-ice. Accessors
  (\<open>src/rtp_interfaces.cpp\<close>), constant tables (\<open>src/rtp_capabilities.cpp\<close>), random identifiers, logging,
  the examples and the tests. Time stamps of statistics are left out, and the order of hash maps is an
  argument.
\<close>

end
